(* ===== verification/Prelude.thy ===== *)
theory Prelude
  imports Main "HOL-Library.Word" "HOL-Library.Monad_Syntax"
begin

section \<open>Shared types, memory accesses and word arithmetic\<close>

text \<open>
  What every component of the model shares: the machine integer types of the firmware
  (\<open>include/common.h\<close>, 32-bit \<open>size_t\<close>), the EC error codes, checked accesses
  to byte buffers (an access outside the buffer is the value \<open>None\<close>, since C leaves it
  undefined), and the arithmetic of a word masked by a power of two minus one.
\<close>

unbundle bit_operations_syntax

type_synonym u8 = "8 word"
type_synonym u16 = "16 word"
type_synonym u32 = "32 word"
type_synonym u64 = "64 word"

named_theorems buf_simps \<open>reading and writing byte buffers\<close>
named_theorems word_mask_simps \<open>masking a word by a power of two minus one\<close>

subsection \<open>Error codes\<close>

text \<open>The codes of \<open>enum ec_error_list\<close> that the modelled functions return.\<close>

datatype ec_error_list =
    EC_SUCCESS
  | EC_ERROR_UNKNOWN
  | EC_ERROR_UNIMPLEMENTED
  | EC_ERROR_OVERFLOW
  | EC_ERROR_TIMEOUT
  | EC_ERROR_INVAL
  | EC_ERROR_BUSY
  | EC_ERROR_ACCESS_DENIED

text \<open>The codes of \<open>enum ec_status\<close> that the modelled host commands return.\<close>

datatype ec_status =
    EC_RES_SUCCESS
  | EC_RES_INVALID_COMMAND
  | EC_RES_ERROR
  | EC_RES_INVALID_PARAM
  | EC_RES_ACCESS_DENIED
  | EC_RES_INVALID_VERSION
  | EC_RES_INVALID_CHECKSUM
  | EC_RES_IN_PROGRESS
  | EC_RES_UNAVAILABLE
  | EC_RES_INVALID_HEADER
  | EC_RES_REQUEST_TRUNCATED
  | EC_RES_RESPONSE_TOO_BIG
  | EC_RES_BUSY

subsection \<open>Checked accesses to a byte buffer\<close>

definition mem_read :: "'a list \<Rightarrow> nat \<Rightarrow> nat \<Rightarrow> 'a list option" where
  "mem_read buf off n =
     (if off + n \<le> length buf then Some (take n (drop off buf)) else None)"

definition mem_write :: "'a list \<Rightarrow> nat \<Rightarrow> 'a list \<Rightarrow> 'a list option" where
  "mem_write buf off bs =
     (if off + length bs \<le> length buf
      then Some (take off buf @ bs @ drop (off + length bs) buf) else None)"

definition load :: "'a list \<Rightarrow> nat \<Rightarrow> 'a option" where
  "load buf k = (if k < length buf then Some (buf ! k) else None)"

definition store :: "'a list \<Rightarrow> nat \<Rightarrow> 'a \<Rightarrow> 'a list option" where
  "store buf k x = (if k < length buf then Some (buf[k := x]) else None)"

lemma load_in [buf_simps]: "k < length buf \<Longrightarrow> load buf k = Some (buf ! k)"
  by (simp add: load_def)

lemma store_in [buf_simps]: "k < length buf \<Longrightarrow> store buf k x = Some (buf[k := x])"
  by (simp add: store_def)

lemma mem_read_in [buf_simps]:
  "off + n \<le> length buf \<Longrightarrow> mem_read buf off n = Some (take n (drop off buf))"
  by (simp add: mem_read_def)

lemma mem_write_in [buf_simps]:
  "off + length bs \<le> length buf \<Longrightarrow>
   mem_write buf off bs = Some (take off buf @ bs @ drop (off + length bs) buf)"
  by (simp add: mem_write_def)

lemma mem_write_Some_length:
  "mem_write buf off bs = Some buf' \<Longrightarrow> length buf' = length buf"
  by (auto simp: mem_write_def split: if_splits)

lemma mem_write_nth:
  assumes "mem_write buf off bs = Some buf'" and "i < length buf"
  shows "buf' ! i = (if off \<le> i \<and> i < off + length bs then bs ! (i - off) else buf ! i)"
  using assms by (auto simp: mem_write_def nth_append split: if_splits)

subsection \<open>Fixed-size units inside a byte buffer\<close>

text \<open>
  \<open>unit_at ub xs i\<close> is the \<open>i\<close>-th unit of \<open>ub\<close> bytes of a buffer;
  \<open>chunks ub xs n\<close> lists the first \<open>n\<close> units.
\<close>

definition unit_at :: "nat \<Rightarrow> 'a list \<Rightarrow> nat \<Rightarrow> 'a list" where
  "unit_at ub xs i = take ub (drop (i * ub) xs)"

definition chunks :: "nat \<Rightarrow> 'a list \<Rightarrow> nat \<Rightarrow> 'a list list" where
  "chunks ub xs n = map (unit_at ub xs) [0..<n]"

lemma length_chunks [simp]: "length (chunks ub xs n) = n"
  by (simp add: chunks_def)

lemma nth_chunks [simp]: "i < n \<Longrightarrow> chunks ub xs n ! i = unit_at ub xs i"
  by (simp add: chunks_def)

lemma unit_at_length: "(Suc i) * ub \<le> length xs \<Longrightarrow> length (unit_at ub xs i) = ub"
  by (simp add: unit_at_def)

lemma unit_at_take: "Suc i \<le> m \<Longrightarrow> unit_at ub (take (m * ub) xs) i = unit_at ub xs i"
proof -
  assume "Suc i \<le> m"
  then have "Suc i * ub \<le> m * ub" by (rule mult_le_mono1)
  then have "ub \<le> m * ub - i * ub" by simp
  then show ?thesis by (simp add: unit_at_def drop_take min_absorb1)
qed

lemma unit_at_drop: "unit_at ub (drop (m * ub) xs) i = unit_at ub xs (m + i)"
  by (simp add: unit_at_def algebra_simps)

lemma unit_at_append1:
  "(Suc i) * ub \<le> length xs \<Longrightarrow> unit_at ub (xs @ ys) i = unit_at ub xs i"
  by (simp add: unit_at_def)

lemma unit_at_append2:
  assumes "length xs = m * ub" and "m \<le> i"
  shows "unit_at ub (xs @ ys) i = unit_at ub ys (i - m)"
  using assms by (simp add: unit_at_def diff_mult_distrib)

text \<open>Writing \<open>m\<close> whole units at unit \<open>t\<close> replaces exactly those units.\<close>

lemma mem_write_units:
  assumes "length bs = m * ub" and "t + m \<le> N" and "length buf = N * ub"
  obtains buf' where "mem_write buf (t * ub) bs = Some buf'" and "length buf' = N * ub"
    and "\<And>p. p < N \<Longrightarrow>
      unit_at ub buf' p = (if t \<le> p \<and> p < t + m then unit_at ub bs (p - t) else unit_at ub buf p)"
proof -
  let ?b = "take (t * ub) buf @ bs @ drop (t * ub + m * ub) buf"
  have fit: "t * ub + m * ub \<le> N * ub"
    using assms(2) by (metis add_mult_distrib mult_le_mono1)
  have w: "mem_write buf (t * ub) bs = Some ?b"
    using fit assms(1,3) by (simp add: mem_write_def)
  have lt: "length (take (t * ub) buf) = t * ub" using fit assms(3) by simp
  have u: "unit_at ub ?b p =
      (if t \<le> p \<and> p < t + m then unit_at ub bs (p - t) else unit_at ub buf p)"
    if p: "p < N" for p
  proof (cases "p < t")
    case True
    then have le: "Suc p * ub \<le> t * ub" by (intro mult_le_mono1) simp
    then have "unit_at ub ?b p = unit_at ub (take (t * ub) buf) p"
      using lt by (intro unit_at_append1) simp
    also have "\<dots> = unit_at ub buf p" using True by (intro unit_at_take) simp
    finally show ?thesis using True by simp
  next
    case False
    then have 1: "unit_at ub ?b p = unit_at ub (bs @ drop (t * ub + m * ub) buf) (p - t)"
      using lt by (intro unit_at_append2) simp_all
    show ?thesis
    proof (cases "p < t + m")
      case True
      then have "Suc (p - t) * ub \<le> m * ub" using False by (intro mult_le_mono1) simp
      then show ?thesis using 1 True False assms(1) by (simp add: unit_at_append1)
    next
      case nlt: False
      then have "unit_at ub (bs @ drop (t * ub + m * ub) buf) (p - t) =
          unit_at ub (drop ((t + m) * ub) buf) (p - t - m)"
        using assms(1) by (subst unit_at_append2 [where m = m]) (simp_all add: add_mult_distrib)
      also have "\<dots> = unit_at ub buf p" using nlt by (simp add: unit_at_drop)
      finally show ?thesis using 1 nlt by simp
    qed
  qed
  have "length ?b = N * ub" using fit assms(1,3) by simp
  with w u show ?thesis using that by blast
qed

subsection \<open>Masks\<close>

lemma unat_and_mask [word_mask_simps]:
  fixes w :: "'a::len word"
  shows "unat (w AND mask k) = unat w mod 2 ^ k"
  by (simp add: unsigned_take_bit_eq flip: take_bit_eq_mask take_bit_eq_mod)

lemma word_pow2_minus_1:
  fixes N :: "'a::len word"
  assumes "N = 2 ^ k"
  shows "N - 1 = mask k"
  using assms by (simp add: mask_eq_exp_minus_1)

lemma unat_add_mod_pow2:
  fixes a b :: "'a::len word"
  assumes "k \<le> LENGTH('a)"
  shows "unat (a + b) mod 2 ^ k = (unat a + unat b) mod 2 ^ k"
proof -
  have "(2::nat) ^ k dvd 2 ^ LENGTH('a)" using assms by (rule le_imp_power_dvd)
  then show ?thesis by (simp add: unat_word_ariths mod_mod_cancel)
qed

lemma unat_pow2:
  assumes "k < LENGTH('a)"
  shows "unat ((2 :: 'a::len word) ^ k) = 2 ^ k"
proof -
  have "unat ((2 :: 'a word) ^ k) = unat (of_nat (2 ^ k) :: 'a word)" by simp
  also have "\<dots> = 2 ^ k mod 2 ^ LENGTH('a)" by (rule unat_of_nat)
  also have "\<dots> = 2 ^ k" using assms by simp
  finally show ?thesis .
qed

lemma unat_lt2p: "unat (w :: 'a::len word) < 2 ^ LENGTH('a)"
  by (rule unsigned_less)

lemma unat_of_nat_small: "n < 2 ^ LENGTH('a) \<Longrightarrow> unat (of_nat n :: 'a::len word) = n"
  by (simp add: unat_of_nat)

lemma of_nat_eq_word: "n < 2 ^ LENGTH('a) \<Longrightarrow> of_nat n = (w :: 'a::len word) \<longleftrightarrow> n = unat w"
  by (metis of_nat_unat ucast_id unat_of_nat_small)

subsection \<open>Bits of concrete words\<close>

text \<open>
  To compare two words of a known width bit by bit: \<open>bits8\<close> and \<open>bits32\<close>
  enumerate the positions, \<open>word_bits\<close> evaluates each.
\<close>

lemma bit_word_times2:
  "bit (x * 2 :: 'a::len word) n \<longleftrightarrow> 0 < n \<and> n < LENGTH('a) \<and> bit x (n - 1)"
  using bit_double_iff [of x n] by (auto simp: mult.commute)

lemma not_bit_word: "LENGTH('a) \<le> n \<Longrightarrow> \<not> bit (x :: 'a::len word) n"
  using bit_imp_le_length [of x n] by auto

lemmas word_bits = bit_simps bit_word_times2 not_bit_word numeral_2_eq_2 [symmetric]

lemma bits8: "n < (8::nat) \<longleftrightarrow> n \<in> {0, 1, 2, 3, 4, 5, 6, 7}"
  by auto

lemma bits16: "n < (16::nat) \<longleftrightarrow> n < 8 \<or> n \<in> {8, 9, 10, 11, 12, 13, 14, 15}"
  by auto

lemma bits32: "n < (32::nat) \<longleftrightarrow> n < 16 \<or>
    n \<in> {16, 17, 18, 19, 20, 21, 22, 23, 24, 25, 26, 27, 28, 29, 30, 31}"
  by simp presburger

subsection \<open>Offsets into a ring\<close>

text \<open>Distinct offsets below \<open>n\<close> stay distinct modulo \<open>n\<close> from any base.\<close>

lemma mod_offset_inj:
  assumes "(h + i) mod n = (h + j) mod (n::nat)" and "i < n" and "j < n"
  shows "i = j"
proof -
  have "i mod n = j mod n" if "(h + i) mod n = (h + j) mod n" for h
  proof (cases "i \<le> j")
    case True
    then have "(j - i) mod n = 0"
      using that mod_eq_dvd_iff_nat [of "h + i" "h + j" n] by simp
    then show ?thesis using True assms(2,3) by simp
  next
    case False
    then have "(i - j) mod n = 0"
      using that mod_eq_dvd_iff_nat [of "h + j" "h + i" n] by simp
    then show ?thesis using False assms(2,3) by simp
  qed
  then show ?thesis using assms by simp
qed

subsection \<open>Bytes as wider words\<close>

text \<open>Words in memory, the least significant byte first.\<close>

definition le16 :: "u32 \<Rightarrow> u8 list" where "le16 w = [ucast w, ucast (drop_bit 8 w)]"

definition le32 :: "u32 \<Rightarrow> u8 list" where
  "le32 w = [ucast w, ucast (drop_bit 8 w), ucast (drop_bit 16 w), ucast (drop_bit 24 w)]"

definition get16 :: "u8 list \<Rightarrow> u32" where "get16 bs = ucast (bs ! 0) OR push_bit 8 (ucast (bs ! 1))"

definition get32 :: "u8 list \<Rightarrow> u32" where "get32 bs = get16 bs OR push_bit 16 (get16 (drop 2 bs))"

lemma ucast_u8_u32_eq: "ucast (a :: u8) = (ucast b :: u32) \<longleftrightarrow> a = b"
proof
  assume h: "ucast a = (ucast b :: u32)"
  show "a = b"
  proof (rule bit_word_eqI)
    fix n assume "n < LENGTH(8)"
    then show "bit a n = bit b n" using arg_cong [OF h, of "\<lambda>w. bit w n"] by (simp add: bit_simps)
  qed
qed simp

lemma ucast_ucast_u8 [simp]: "ucast (ucast (t :: u8) :: u32) = t"
  by (rule bit_word_eqI) (simp add: bit_simps)

lemma word_of_unat: "unat w = n \<Longrightarrow> w = of_nat n" for w :: "'a::len word"
  by auto

end
