(* ===== verification/RingBuffer.thy ===== *)
theory RingBuffer
  imports Prelude
begin

section \<open>Block copies into and out of a ring of units\<close>

text \<open>
  The two copies by which \<open>common/queue.c\<close> moves \<open>n\<close> units between a linear buffer
  and a ring of \<open>N\<close> units, over natural numbers: up to the end of the ring, then, when
  units are left, from its start. The lemmas say which ring positions the copies touch.
\<close>

definition ring_write :: "nat \<Rightarrow> nat \<Rightarrow> 'a list \<Rightarrow> nat \<Rightarrow> 'a list \<Rightarrow> nat \<Rightarrow> 'a list option" where
  "ring_write ub N buf T src n =
     (let first = min n (N - T) in do {
        part \<leftarrow> mem_read src 0 (first * ub);
        buf1 \<leftarrow> mem_write buf (T * ub) part;
        if first < n then do {
          rest \<leftarrow> mem_read src (first * ub) ((n - first) * ub);
          mem_write buf1 0 rest
        } else Some buf1
      })"

definition ring_read :: "nat \<Rightarrow> nat \<Rightarrow> 'a list \<Rightarrow> nat \<Rightarrow> nat \<Rightarrow> 'a list option" where
  "ring_read ub N buf H n =
     (let first = min n (N - H) in do {
        part \<leftarrow> mem_read buf (H * ub) (first * ub);
        if first < n then do {
          rest \<leftarrow> mem_read buf 0 ((n - first) * ub);
          Some (part @ rest)
        } else Some part
      })"

lemma ring_pos:
  assumes "T < N" and "j < (N::nat)"
  shows "(T + j) mod N = (if j < N - T then T + j else j - (N - T))"
proof (cases "j < N - T")
  case True
  then show ?thesis by simp
next
  case False
  then have "T + j = (j - (N - T)) + N" using assms by simp
  then have "(T + j) mod N = (j - (N - T)) mod N" by (simp only: mod_add_self2)
  then show ?thesis using False assms by simp
qed

lemma ring_write_units:
  assumes T: "T < N" and n: "n \<le> N" and len: "length buf = N * ub" and src: "n * ub \<le> length src"
  obtains buf' where "ring_write ub N buf T src n = Some buf'" and "length buf' = N * ub"
    and "\<And>j. j < n \<Longrightarrow> unit_at ub buf' ((T + j) mod N) = unit_at ub src j"
    and "\<And>p. p < N \<Longrightarrow> (\<And>j. j < n \<Longrightarrow> (T + j) mod N \<noteq> p) \<Longrightarrow>
      unit_at ub buf' p = unit_at ub buf p"
proof -
  define first where "first = min n (N - T)"
  have f: "first \<le> n" "first \<le> N - T" "first < n \<Longrightarrow> first = N - T"
    by (auto simp: first_def)
  have fub: "first * ub \<le> length src" using src f(1) by (meson le_trans mult_le_mono1)
  define part where "part = take (first * ub) src"
  have r1: "mem_read src 0 (first * ub) = Some part"
    using fub by (simp add: mem_read_def part_def)
  have lp: "length part = first * ub" using fub by (simp add: part_def)
  have Tf: "T + first \<le> N" using f(2) T by simp
  obtain b1 where b1: "mem_write buf (T * ub) part = Some b1" "length b1 = N * ub"
    and u1: "\<And>p. p < N \<Longrightarrow> unit_at ub b1 p =
      (if T \<le> p \<and> p < T + first then unit_at ub part (p - T) else unit_at ub buf p)"
    using mem_write_units [OF lp Tf len] by metis
  have up: "unit_at ub part j = unit_at ub src j" if "j < first" for j
    using that by (simp add: part_def unit_at_take)
  show ?thesis
  proof (cases "first < n")
    case False
    then have fn: "first = n" using f(1) by simp
    have w: "ring_write ub N buf T src n = Some b1"
      using r1 b1(1) False by (simp add: ring_write_def Let_def flip: first_def)
    have in_range: "(T + j) mod N = T + j" if "j < n" for j
      using that Tf fn by simp
    show ?thesis
    proof (rule that [OF w b1(2)])
      show "unit_at ub b1 ((T + j) mod N) = unit_at ub src j" if "j < n" for j
        using that fn Tf by (simp add: in_range u1 up)
      show "unit_at ub b1 p = unit_at ub buf p"
        if "p < N" and off: "\<And>j. j < n \<Longrightarrow> (T + j) mod N \<noteq> p" for p
      proof -
        have "\<not> (T \<le> p \<and> p < T + n)"
        proof
          assume "T \<le> p \<and> p < T + n"
          then have "p - T < n" and "T + (p - T) = p" by auto
          with off [of "p - T"] in_range [of "p - T"] show False by simp
        qed
        then show ?thesis using that(1) fn by (auto simp: u1)
      qed
    qed
  next
    case True
    then have ft: "first = N - T" by (rule f(3))
    define rest where "rest = take ((n - first) * ub) (drop (first * ub) src)"
    have s: "first * ub + (n - first) * ub = n * ub"
      using f(1) by (simp flip: add_mult_distrib)
    have r2: "mem_read src (first * ub) ((n - first) * ub) = Some rest"
      using src s by (simp add: mem_read_def rest_def)
    have lr: "length rest = (n - first) * ub" using src s by (simp add: rest_def)
    have "0 + (n - first) \<le> N" using n by simp
    then obtain b2 where b2: "mem_write b1 (0 * ub) rest = Some b2" "length b2 = N * ub"
      and u2: "\<And>p. p < N \<Longrightarrow> unit_at ub b2 p =
        (if 0 \<le> p \<and> p < 0 + (n - first) then unit_at ub rest (p - 0) else unit_at ub b1 p)"
      using mem_write_units [OF lr _ b1(2)] by metis
    have ur: "unit_at ub rest j = unit_at ub src (first + j)" if "j < n - first" for j
      using that by (simp add: rest_def unit_at_take unit_at_drop)
    have w: "ring_write ub N buf T src n = Some b2"
      using r1 b1(1) r2 b2(1) True by (simp add: ring_write_def Let_def flip: first_def)
    have pos: "(T + j) mod N = (if j < first then T + j else j - first)" if "j < n" for j
      using ring_pos [OF T, of j] that n ft by simp
    show ?thesis
    proof (rule that [OF w b2(2)])
      show "unit_at ub b2 ((T + j) mod N) = unit_at ub src j" if j: "j < n" for j
        using j n T ft by (auto simp: pos u2 u1 up ur)
      show "unit_at ub b2 p = unit_at ub buf p"
        if p: "p < N" and off: "\<And>j. j < n \<Longrightarrow> (T + j) mod N \<noteq> p" for p
      proof -
        have "\<not> p < n - first"
        proof
          assume "p < n - first"
          then have "p + first < n" by simp
          with off [of "p + first"] pos [of "p + first"] show False by simp
        qed
        moreover have "\<not> (T \<le> p \<and> p < T + first)"
        proof
          assume a: "T \<le> p \<and> p < T + first"
          then have "p - T < n" and "p - T < first" using True by auto
          with a off [of "p - T"] pos [of "p - T"] show False by simp
        qed
        ultimately show ?thesis using p by (auto simp: u2 u1)
      qed
    qed
  qed
qed

lemma ring_read_units:
  assumes H: "H < N" and n: "n \<le> N" and len: "length buf = N * ub"
  obtains out where "ring_read ub N buf H n = Some out" and "length out = n * ub"
    and "\<And>j. j < n \<Longrightarrow> unit_at ub out j = unit_at ub buf ((H + j) mod N)"
proof -
  define first where "first = min n (N - H)"
  have f: "first \<le> n" "H + first \<le> N" "first < n \<Longrightarrow> first = N - H"
    using H by (auto simp: first_def)
  define part where "part = take (first * ub) (drop (H * ub) buf)"
  have fit: "H * ub + first * ub \<le> N * ub"
    using f(2) by (metis add_mult_distrib mult_le_mono1)
  have r1: "mem_read buf (H * ub) (first * ub) = Some part"
    using fit len by (simp add: mem_read_def part_def)
  have lp: "length part = first * ub" using fit len by (simp add: part_def)
  have up: "unit_at ub part j = unit_at ub buf (H + j)" if "j < first" for j
    using that by (simp add: part_def unit_at_take unit_at_drop)
  show ?thesis
  proof (cases "first < n")
    case False
    then have fn: "first = n" using f(1) by simp
    have "ring_read ub N buf H n = Some part"
      using r1 False by (simp add: ring_read_def Let_def flip: first_def)
    then show ?thesis
      by (rule that) (use lp fn up f(2) in auto)
  next
    case True
    then have ft: "first = N - H" by (rule f(3))
    define rest where "rest = take ((n - first) * ub) buf"
    have "(n - first) * ub \<le> N * ub" using n by (intro mult_le_mono1) simp
    then have r2: "mem_read buf 0 ((n - first) * ub) = Some rest"
      and lr: "length rest = (n - first) * ub"
      using len by (simp_all add: mem_read_def rest_def)
    have out: "ring_read ub N buf H n = Some (part @ rest)"
      using r1 r2 True by (simp add: ring_read_def Let_def flip: first_def)
    have l: "length (part @ rest) = n * ub"
      using lp lr f(1) by (simp flip: add_mult_distrib)
    have "unit_at ub (part @ rest) j = unit_at ub buf ((H + j) mod N)" if j: "j < n" for j
    proof (cases "j < first")
      case True
      then have "Suc j * ub \<le> length part"
        by (simp only: lp) (intro mult_le_mono1, simp)
      then show ?thesis using True ft ring_pos [OF H, of j] j n
        by (simp add: unit_at_append1 up)
    next
      case False
      then have "unit_at ub (part @ rest) j = unit_at ub rest (j - first)"
        using lp by (intro unit_at_append2) simp_all
      also have "\<dots> = unit_at ub buf (j - first)"
        using False j by (simp add: rest_def unit_at_take)
      finally show ?thesis using ring_pos [OF H, of j] False ft j n by simp
    qed
    with out l show ?thesis by (rule that)
  qed
qed

text \<open>The units held from position \<open>h\<close> on, and what the copies do to that list.\<close>

definition ring_list :: "nat \<Rightarrow> nat \<Rightarrow> 'a list \<Rightarrow> nat \<Rightarrow> nat \<Rightarrow> 'a list list" where
  "ring_list ub N buf h c = map (\<lambda>i. unit_at ub buf ((h + i) mod N)) [0..<c]"

lemma length_ring_list [simp]: "length (ring_list ub N buf h c) = c"
  by (simp add: ring_list_def)

lemma nth_ring_list [simp]: "i < c \<Longrightarrow> ring_list ub N buf h c ! i = unit_at ub buf ((h + i) mod N)"
  by (simp add: ring_list_def)

lemma ring_list_mod: "ring_list ub N buf (h mod N) c = ring_list ub N buf h c"
  by (simp add: ring_list_def mod_add_left_eq)

lemma drop_ring_list: "drop n (ring_list ub N buf h c) = ring_list ub N buf (h + n) (c - n)"
  by (rule nth_equalityI) (simp_all add: add.assoc)

lemma ring_list_write:
  assumes "T = (h + c) mod N" and "c + n \<le> N" and "0 < N"
    and len: "length buf = N * ub" and src: "n * ub \<le> length src"
  obtains buf' where "ring_write ub N buf T src n = Some buf'" and "length buf' = N * ub"
    and "ring_list ub N buf' h (c + n) = ring_list ub N buf h c @ chunks ub src n"
proof -
  have T: "T < N" and n: "n \<le> N" using assms by simp_all
  obtain buf' where b: "ring_write ub N buf T src n = Some buf'" "length buf' = N * ub"
    and new: "\<And>j. j < n \<Longrightarrow> unit_at ub buf' ((T + j) mod N) = unit_at ub src j"
    and old: "\<And>p. p < N \<Longrightarrow> (\<And>j. j < n \<Longrightarrow> (T + j) mod N \<noteq> p) \<Longrightarrow>
      unit_at ub buf' p = unit_at ub buf p"
    using ring_write_units [OF T n len src] by metis
  have Tj: "(T + j) mod N = (h + (c + j)) mod N" for j
    using assms(1) by (simp add: mod_add_left_eq add.assoc)
  have "ring_list ub N buf' h (c + n) = ring_list ub N buf h c @ chunks ub src n"
  proof (rule nth_equalityI)
    fix i assume i: "i < length (ring_list ub N buf' h (c + n))"
    show "ring_list ub N buf' h (c + n) ! i = (ring_list ub N buf h c @ chunks ub src n) ! i"
    proof (cases "i < c")
      case True
      have "unit_at ub buf' ((h + i) mod N) = unit_at ub buf ((h + i) mod N)"
      proof (rule old)
        show "(h + i) mod N < N" using assms(3) by simp
        fix j assume "j < n"
        then show "(T + j) mod N \<noteq> (h + i) mod N"
          using mod_offset_inj [of h "c + j" N i] Tj True assms(2) by auto
      qed
      then show ?thesis using True by (simp add: nth_append)
    next
      case False
      then have "i - c < n" using i by simp
      then show ?thesis using False new [of "i - c"] Tj [of "i - c"] i by (simp add: nth_append)
    qed
  qed simp
  with b show ?thesis by (rule that)
qed

lemma ring_list_read:
  assumes "0 < N" and "n \<le> c" and "c \<le> N" and len: "length buf = N * ub"
  obtains out where "ring_read ub N buf (h mod N) n = Some out" and "length out = n * ub"
    and "chunks ub out n = take n (ring_list ub N buf h c)"
proof -
  have H: "h mod N < N" and n: "n \<le> N" using assms by simp_all
  obtain out where o: "ring_read ub N buf (h mod N) n = Some out" "length out = n * ub"
    and u: "\<And>j. j < n \<Longrightarrow> unit_at ub out j = unit_at ub buf ((h mod N + j) mod N)"
    using ring_read_units [OF H n len] by metis
  have "chunks ub out n = take n (ring_list ub N buf h c)"
    by (rule nth_equalityI) (use assms(2) in \<open>auto simp: u mod_add_left_eq\<close>)
  with o show ?thesis by (rule that)
qed

end
