(* ===== verification/Fifo.thy ===== *)
theory Fifo
  imports Prelude
begin

section \<open>The interface of a bounded first-in first-out buffer\<close>

text \<open>
  What a client of a bounded buffer relies on, and what follows for every sequence of
  operations: the buffer behaves as a list of at most \<open>cap\<close> elements, nothing accepted is
  lost, duplicated or reordered, and an element is refused only when the list is full. The
  queue of \<open>common/queue.c\<close> and the event FIFO of \<open>common/mkbp_fifo.c\<close> provide it.
\<close>

datatype 'a fifo_op = Enq 'a | Deq

text \<open>The specification: a run over a plain list; \<open>acc\<close> collects what was accepted and
  \<open>outs\<close> what came out.\<close>

fun spec_run :: "nat \<Rightarrow> 'a list \<Rightarrow> 'a fifo_op list \<Rightarrow> 'a list \<times> 'a list \<times> 'a list" where
  "spec_run cap xs [] = (xs, [], [])"
| "spec_run cap xs (Enq x # ops) =
     (if length xs < cap
      then let (ys, acc, outs) = spec_run cap (xs @ [x]) ops in (ys, x # acc, outs)
      else spec_run cap xs ops)"
| "spec_run cap xs (Deq # ops) =
     (case xs of [] \<Rightarrow> spec_run cap [] ops
      | y # ys \<Rightarrow> (let (zs, acc, outs) = spec_run cap ys ops in (zs, acc, y # outs)))"

text \<open>The same run over an implementation.\<close>

fun fifo_run :: "('s \<Rightarrow> 'a \<Rightarrow> ('s \<times> bool) option) \<Rightarrow> ('s \<Rightarrow> ('s \<times> 'a option) option) \<Rightarrow>
    's \<Rightarrow> 'a fifo_op list \<Rightarrow> ('s \<times> 'a list \<times> 'a list) option" where
  "fifo_run enq deq s [] = Some (s, [], [])"
| "fifo_run enq deq s (Enq x # ops) = do {
     (s1, ok) \<leftarrow> enq s x;
     (s2, acc, outs) \<leftarrow> fifo_run enq deq s1 ops;
     Some (s2, if ok then x # acc else acc, outs) }"
| "fifo_run enq deq s (Deq # ops) = do {
     (s1, r) \<leftarrow> deq s;
     (s2, acc, outs) \<leftarrow> fifo_run enq deq s1 ops;
     Some (s2, acc, case r of None \<Rightarrow> outs | Some y \<Rightarrow> y # outs) }"

lemma spec_run_fifo:
  "spec_run cap xs ops = (ys, acc, outs) \<Longrightarrow> xs @ acc = outs @ ys"
  by (induction cap xs ops arbitrary: ys acc outs rule: spec_run.induct)
    (auto split: if_splits list.splits prod.splits)

lemma spec_run_bound:
  "spec_run cap xs ops = (ys, acc, outs) \<Longrightarrow> length xs \<le> cap \<Longrightarrow> length ys \<le> cap"
  by (induction cap xs ops arbitrary: ys acc outs rule: spec_run.induct)
    (auto split: if_splits list.splits prod.splits)

locale bounded_fifo =
  fixes inv :: "'s \<Rightarrow> bool" and abs :: "'s \<Rightarrow> 'a list" and cap :: nat
    and ok :: "'a \<Rightarrow> bool"
    and enq :: "'s \<Rightarrow> 'a \<Rightarrow> ('s \<times> bool) option"
    and deq :: "'s \<Rightarrow> ('s \<times> 'a option) option"
  assumes enq_law: "\<And>s x. inv s \<Longrightarrow> ok x \<Longrightarrow>
      \<exists>s'. enq s x = Some (s', length (abs s) < cap) \<and> inv s' \<and>
        abs s' = (if length (abs s) < cap then abs s @ [x] else abs s)"
    and deq_law: "\<And>s. inv s \<Longrightarrow>
      \<exists>s'. deq s = Some (s', if abs s = [] then None else Some (hd (abs s))) \<and> inv s' \<and>
        abs s' = tl (abs s)"
begin

lemma run_refines:
  assumes "inv s" and "\<forall>x. Enq x \<in> set ops \<longrightarrow> ok x"
  shows "\<exists>s' acc outs. fifo_run enq deq s ops = Some (s', acc, outs) \<and> inv s' \<and>
    spec_run cap (abs s) ops = (abs s', acc, outs)"
  using assms
proof (induction ops arbitrary: s)
  case Nil
  then show ?case by simp
next
  case (Cons op ops)
  have IH: "\<exists>s' acc outs. fifo_run enq deq t ops = Some (s', acc, outs) \<and> inv s' \<and>
      spec_run cap (abs t) ops = (abs s', acc, outs)" if "inv t" for t
    using Cons.IH that Cons.prems(2) by simp
  show ?case
  proof (cases op)
    case (Enq x)
    then have "ok x" using Cons.prems(2) by simp
    with Cons.prems(1) obtain s1 where 1: "enq s x = Some (s1, length (abs s) < cap)" "inv s1"
      "abs s1 = (if length (abs s) < cap then abs s @ [x] else abs s)" using enq_law by blast
    from IH [OF 1(2)] show ?thesis using 1 Enq
      by (elim exE conjE) (cases "length (abs s) < cap", simp_all)
  next
    case Deq
    from Cons.prems(1) obtain s1 where 1:
      "deq s = Some (s1, if abs s = [] then None else Some (hd (abs s)))" "inv s1"
      "abs s1 = tl (abs s)" using deq_law by blast
    from IH [OF 1(2)] show ?thesis using 1 Deq
      by (elim exE conjE) (cases "abs s", simp_all)
  qed
qed

lemma run_fifo:
  assumes "inv s" and "\<forall>x. Enq x \<in> set ops \<longrightarrow> ok x"
  shows "\<exists>s' acc outs. fifo_run enq deq s ops = Some (s', acc, outs) \<and> inv s' \<and>
    abs s @ acc = outs @ abs s' \<and> spec_run cap (abs s) ops = (abs s', acc, outs)"
  using run_refines [OF assms] spec_run_fifo by blast

end

end
