(* ===== verification/Queue.thy ===== *)
theory Queue
  imports RingBuffer Fifo
begin

section \<open>The unit queue of common/queue.c\<close>

text \<open>
  \<open>struct queue\<close> with its \<open>struct queue_state\<close>, every operation of
  \<open>common/queue.c\<close> over 32-bit \<open>size_t\<close> words, and the refinement to a list of
  units. Head and tail are free-running counters, masked when the buffer is accessed. A copy
  outside a buffer is \<open>None\<close>; the calls of the queue's policy are recorded in
  \<open>policy_calls\<close>.
\<close>

subsection \<open>State\<close>

datatype policy_call = PolicyAdd u32 | PolicyRemove u32

record queue =
  q_head :: u32
  q_tail :: u32
  buffer_units :: u32
  buffer_units_mask :: u32
  unit_bytes :: u32
  q_buffer :: "u8 list"
  policy_calls :: "policy_call list"

record queue_chunk =
  chunk_count :: u32
  chunk_buffer :: "u32 option"

record queue_iterator =
  it_ptr :: "u32 option"
  it_offset :: u32
  it_head :: u32
  it_tail :: u32

subsection \<open>Operations\<close>

definition queue_init :: "queue \<Rightarrow> queue" where
  "queue_init q = q\<lparr>q_head := 0, q_tail := 0\<rparr>"

definition queue_is_empty :: "queue \<Rightarrow> bool" where
  "queue_is_empty q = (q_head q = q_tail q)"

definition queue_count :: "queue \<Rightarrow> u32" where
  "queue_count q = q_tail q - q_head q"

definition queue_space :: "queue \<Rightarrow> u32" where
  "queue_space q = buffer_units q - queue_count q"

definition queue_is_full :: "queue \<Rightarrow> bool" where
  "queue_is_full q = (queue_space q = 0)"

definition queue_get_write_chunk :: "queue \<Rightarrow> u32 \<Rightarrow> queue_chunk" where
  "queue_get_write_chunk q offset =
     (let head = q_head q AND buffer_units_mask q;
          tail = (q_tail q + offset) AND buffer_units_mask q;
          last = (if tail < head then head else buffer_units q)
      in if queue_space q \<le> offset then \<lparr>chunk_count = 0, chunk_buffer = None\<rparr>
         else \<lparr>chunk_count = last - tail, chunk_buffer = Some (tail * unit_bytes q)\<rparr>)"

definition queue_get_read_chunk :: "queue \<Rightarrow> queue_chunk" where
  "queue_get_read_chunk q =
     (let head = q_head q AND buffer_units_mask q;
          tail = q_tail q AND buffer_units_mask q;
          last = (if queue_is_empty q then head
                  else if head < tail then tail else buffer_units q)
      in \<lparr>chunk_count = last - head, chunk_buffer = Some (head * unit_bytes q)\<rparr>)"

definition queue_advance_head :: "queue \<Rightarrow> u32 \<Rightarrow> queue \<times> u32" where
  "queue_advance_head q count =
     (let transfer = min count (queue_count q)
      in (q\<lparr>q_head := q_head q + transfer,
            policy_calls := policy_calls q @ [PolicyRemove transfer]\<rparr>, transfer))"

definition queue_advance_tail :: "queue \<Rightarrow> u32 \<Rightarrow> queue \<times> u32" where
  "queue_advance_tail q count =
     (let transfer = min count (queue_space q)
      in (q\<lparr>q_tail := q_tail q + transfer,
            policy_calls := policy_calls q @ [PolicyAdd transfer]\<rparr>, transfer))"

definition queue_add_unit :: "queue \<Rightarrow> u8 list \<Rightarrow> (queue \<times> u32) option" where
  "queue_add_unit q src =
     (let tail = q_tail q AND buffer_units_mask q
      in if queue_space q = 0 then Some (q, 0)
         else do {
           bs \<leftarrow> (if unit_bytes q = 1 then mem_read src 0 1
                 else mem_read src 0 (unat (unit_bytes q)));
           buf \<leftarrow> mem_write (q_buffer q)
                  (if unit_bytes q = 1 then unat tail else unat (tail * unit_bytes q)) bs;
           Some (queue_advance_tail (q\<lparr>q_buffer := buf\<rparr>) 1)
         })"

definition queue_add_memcpy :: "queue \<Rightarrow> u8 list \<Rightarrow> u32 \<Rightarrow> (queue \<times> u32) option" where
  "queue_add_memcpy q src count =
     (let transfer = min count (queue_space q);
          tail = q_tail q AND buffer_units_mask q;
          first = min transfer (buffer_units q - tail)
      in do {
        part \<leftarrow> mem_read src 0 (unat (first * unit_bytes q));
        buf \<leftarrow> mem_write (q_buffer q) (unat (tail * unit_bytes q)) part;
        buf' \<leftarrow> (if first < transfer then do {
                   rest \<leftarrow> mem_read src (unat (first * unit_bytes q))
                            (unat ((transfer - first) * unit_bytes q));
                   mem_write buf 0 rest
                 } else Some buf);
        Some (queue_advance_tail (q\<lparr>q_buffer := buf'\<rparr>) transfer)
      })"

definition queue_add_units :: "queue \<Rightarrow> u8 list \<Rightarrow> u32 \<Rightarrow> (queue \<times> u32) option" where
  "queue_add_units q src count = queue_add_memcpy q src count"

text \<open>The readers return the bytes they copy to the start of \<open>dest\<close>.\<close>

definition queue_read_safe :: "queue \<Rightarrow> u32 \<Rightarrow> u32 \<Rightarrow> u8 list option" where
  "queue_read_safe q head transfer =
     (let first = min transfer (buffer_units q - head)
      in do {
        part \<leftarrow> mem_read (q_buffer q) (unat (head * unit_bytes q)) (unat (first * unit_bytes q));
        if first < transfer then do {
          rest \<leftarrow> mem_read (q_buffer q) 0 (unat ((transfer - first) * unit_bytes q));
          Some (part @ rest)
        } else Some part
      })"

definition queue_remove_unit :: "queue \<Rightarrow> (queue \<times> u8 list \<times> u32) option" where
  "queue_remove_unit q =
     (let head = q_head q AND buffer_units_mask q
      in if queue_count q = 0 then Some (q, [], 0)
         else do {
           bs \<leftarrow> (if unit_bytes q = 1 then mem_read (q_buffer q) (unat head) 1
                 else mem_read (q_buffer q) (unat (head * unit_bytes q)) (unat (unit_bytes q)));
           let (q', n) = queue_advance_head q 1;
           Some (q', bs, n)
         })"

definition queue_remove_memcpy :: "queue \<Rightarrow> u32 \<Rightarrow> (queue \<times> u8 list \<times> u32) option" where
  "queue_remove_memcpy q count =
     (let transfer = min count (queue_count q);
          head = q_head q AND buffer_units_mask q
      in do {
        bs \<leftarrow> queue_read_safe q head transfer;
        let (q', n) = queue_advance_head q transfer;
        Some (q', bs, n)
      })"

definition queue_remove_units :: "queue \<Rightarrow> u32 \<Rightarrow> (queue \<times> u8 list \<times> u32) option" where
  "queue_remove_units q count = queue_remove_memcpy q count"

definition queue_peek_memcpy :: "queue \<Rightarrow> u32 \<Rightarrow> u32 \<Rightarrow> (u8 list \<times> u32) option" where
  "queue_peek_memcpy q i count =
     (let available = queue_count q;
          transfer = min count (available - i)
      in if i < available then do {
           bs \<leftarrow> queue_read_safe q ((q_head q + i) AND buffer_units_mask q) transfer;
           Some (bs, transfer)
         } else Some ([], transfer))"

definition queue_peek_units :: "queue \<Rightarrow> u32 \<Rightarrow> u32 \<Rightarrow> (u8 list \<times> u32) option" where
  "queue_peek_units q i count = queue_peek_memcpy q i count"

definition queue_begin :: "queue \<Rightarrow> queue_iterator" where
  "queue_begin q =
     \<lparr>it_ptr = (if queue_is_empty q then None
                else Some ((q_head q AND buffer_units_mask q) * unit_bytes q)),
      it_offset = 0, it_head = q_head q, it_tail = q_tail q\<rparr>"

definition queue_next :: "queue \<Rightarrow> queue_iterator \<Rightarrow> queue_iterator" where
  "queue_next q it =
     (if it_head it \<noteq> q_head q \<or> it_tail it \<noteq> q_tail q then it\<lparr>it_ptr := None\<rparr>
      else if it_ptr it = None \<or> it_head it + it_offset it = it_tail it then it
      else let it' = it\<lparr>it_offset := it_offset it + 1\<rparr>
           in if it_head it' + it_offset it' = it_tail it' then it'\<lparr>it_ptr := None\<rparr>
              else it'\<lparr>it_ptr :=
                Some (((it_head it' + it_offset it') AND buffer_units_mask q) * unit_bytes q)\<rparr>)"

subsection \<open>Well-formed queues and the list they hold\<close>

text \<open>
  What \<open>QUEUE(SIZE, TYPE, POLICY)\<close> of \<open>include/queue.h\<close> sets up: a power of two of
  units, the mask one less, a backing array of exactly that many units; and what the operations
  keep: at most \<open>buffer_units\<close> units between head and tail.
\<close>

definition queue_wf :: "queue \<Rightarrow> bool" where
  "queue_wf q \<longleftrightarrow>
     (\<exists>k<32. buffer_units q = 2 ^ k) \<and> buffer_units_mask q = buffer_units q - 1 \<and>
     0 < unit_bytes q \<and> length (q_buffer q) = unat (buffer_units q) * unat (unit_bytes q) \<and>
     length (q_buffer q) < 2 ^ 32 \<and> queue_count q \<le> buffer_units q"

definition queue_list :: "queue \<Rightarrow> u8 list list" where
  "queue_list q = ring_list (unat (unit_bytes q)) (unat (buffer_units q)) (q_buffer q)
     (unat (q_head q)) (unat (queue_count q))"

definition src_units :: "queue \<Rightarrow> u8 list \<Rightarrow> u32 \<Rightarrow> u8 list list" where
  "src_units q src n = chunks (unat (unit_bytes q)) src (unat n)"

subsection \<open>Word facts of a well-formed queue\<close>

lemma queue_wfE:
  assumes "queue_wf q"
  obtains k where "k < 32" and "buffer_units q = 2 ^ k" and "unat (buffer_units q) = 2 ^ k"
    and "buffer_units_mask q = mask k" and "0 < unat (unit_bytes q)"
    and "length (q_buffer q) = 2 ^ k * unat (unit_bytes q)"
    and "2 ^ k * unat (unit_bytes q) < 2 ^ 32" and "unat (queue_count q) \<le> 2 ^ k"
proof -
  from assms obtain k where k: "k < 32" "buffer_units q = 2 ^ k"
    by (auto simp: queue_wf_def)
  have u: "unat (buffer_units q) = 2 ^ k" using k by (simp add: unat_pow2)
  have m: "buffer_units_mask q = mask k"
    using assms k by (simp add: queue_wf_def word_pow2_minus_1)
  have "0 < unat (unit_bytes q)"
    using assms by (simp add: queue_wf_def word_less_nat_alt)
  moreover have "length (q_buffer q) = 2 ^ k * unat (unit_bytes q)"
    and "2 ^ k * unat (unit_bytes q) < 2 ^ 32" and "unat (queue_count q) \<le> 2 ^ k"
    using assms u by (simp_all add: queue_wf_def word_le_nat_alt)
  ultimately show ?thesis using that k u m by blast
qed

lemma queue_pos:
  assumes "queue_wf q"
  shows "unat ((q_head q + i) AND buffer_units_mask q) =
    (unat (q_head q) + unat i) mod unat (buffer_units q)"
  using assms
  by (elim queue_wfE) (simp add: unat_and_mask unat_add_mod_pow2)

lemma queue_tail_pos:
  assumes "queue_wf q"
  shows "unat (q_tail q AND buffer_units_mask q) =
    (unat (q_head q) + unat (queue_count q)) mod unat (buffer_units q)"
  using queue_pos [OF assms, of "queue_count q"] by (simp add: queue_count_def)

lemma queue_head_pos:
  assumes "queue_wf q"
  shows "unat (q_head q AND buffer_units_mask q) = unat (q_head q) mod unat (buffer_units q)"
  using queue_pos [OF assms, of 0] by simp

lemma queue_offset:
  assumes "queue_wf q" and "unat p \<le> unat (buffer_units q)"
  shows "unat (p * unit_bytes q) = unat p * unat (unit_bytes q)"
proof -
  obtain k where k: "unat (buffer_units q) = 2 ^ k" "2 ^ k * unat (unit_bytes q) < 2 ^ 32"
    using assms(1) by (rule queue_wfE)
  have "unat p * unat (unit_bytes q) \<le> 2 ^ k * unat (unit_bytes q)"
    using assms(2) k(1) by (intro mult_le_mono1) simp
  then have "unat p * unat (unit_bytes q) < 2 ^ 32" using k(2) by (rule le_less_trans)
  then show ?thesis by (simp add: unat_word_ariths)
qed

lemma unat_queue_space:
  assumes "queue_wf q"
  shows "unat (queue_space q) = unat (buffer_units q) - unat (queue_count q)"
  using assms by (simp add: queue_wf_def queue_space_def unat_sub)

lemma units_pos: "queue_wf q \<Longrightarrow> 0 < unat (buffer_units q)"
  by (elim queue_wfE) simp

lemma unat_min: "unat (min a b :: 'a::len word) = min (unat a) (unat b)"
  by (simp add: min_def word_le_nat_alt)

lemma length_queue_list [simp]: "length (queue_list q) = unat (queue_count q)"
  by (simp add: queue_list_def)

lemma queue_list_count: "queue_count q = of_nat (length (queue_list q))"
  by simp


subsection \<open>The copies are ring copies\<close>

lemma first_offset:
  assumes wf: "queue_wf q" and h: "unat h < unat (buffer_units q)"
    and t: "unat t \<le> unat (buffer_units q)"
  defines "first \<equiv> min t (buffer_units q - h)"
  shows "unat first = min (unat t) (unat (buffer_units q) - unat h)"
    and "unat (first * unit_bytes q) = unat first * unat (unit_bytes q)"
    and "unat ((t - first) * unit_bytes q) = (unat t - unat first) * unat (unit_bytes q)"
    and "unat (h * unit_bytes q) = unat h * unat (unit_bytes q)"
proof -
  have d: "unat (buffer_units q - h) = unat (buffer_units q) - unat h"
    using h by (intro unat_sub) (simp add: word_le_nat_alt)
  show f: "unat first = min (unat t) (unat (buffer_units q) - unat h)"
    by (simp add: first_def unat_min d)
  show "unat (first * unit_bytes q) = unat first * unat (unit_bytes q)"
    using wf by (rule queue_offset) (simp add: f)
  have s: "unat (t - first) = unat t - unat first"
    by (intro unat_sub) (simp add: first_def)
  have "unat ((t - first) * unit_bytes q) = unat (t - first) * unat (unit_bytes q)"
    using wf by (rule queue_offset) (use s t in simp)
  then show "unat ((t - first) * unit_bytes q) = (unat t - unat first) * unat (unit_bytes q)"
    by (simp only: s)
  show "unat (h * unit_bytes q) = unat h * unat (unit_bytes q)"
    using wf by (rule queue_offset) (use h in simp)
qed

lemma queue_read_safe_ring:
  assumes "queue_wf q" and "unat h < unat (buffer_units q)" and "unat t \<le> unat (buffer_units q)"
  shows "queue_read_safe q h t =
    ring_read (unat (unit_bytes q)) (unat (buffer_units q)) (q_buffer q) (unat h) (unat t)"
  using first_offset [OF assms]
  by (simp add: queue_read_safe_def ring_read_def Let_def word_less_nat_alt cong: if_cong)

lemma queue_add_memcpy_ring:
  fixes count :: u32
  assumes "queue_wf q"
  defines "t \<equiv> min count (queue_space q)"
  shows "queue_add_memcpy q src count = do {
     buf \<leftarrow> ring_write (unat (unit_bytes q)) (unat (buffer_units q)) (q_buffer q)
              (unat (q_tail q AND buffer_units_mask q)) src (unat t);
     Some (queue_advance_tail (q\<lparr>q_buffer := buf\<rparr>) t) }"
proof -
  let ?h = "q_tail q AND buffer_units_mask q"
  have h: "unat ?h < unat (buffer_units q)"
    using queue_tail_pos [OF assms(1)] units_pos [OF assms(1)] by simp
  have t: "unat t \<le> unat (buffer_units q)"
    by (simp add: t_def unat_min unat_queue_space [OF assms(1)])
  show ?thesis
    using first_offset [OF assms(1) h t]
    by (simp add: queue_add_memcpy_def ring_write_def Let_def word_less_nat_alt
        cong: if_cong flip: t_def)
qed

lemma queue_copy_bounds:
  assumes "queue_wf q"
  shows "unat (queue_count q) \<le> unat (buffer_units q)"
    and "length (q_buffer q) = unat (buffer_units q) * unat (unit_bytes q)"
  using assms by (auto simp: queue_wf_def word_le_nat_alt)

subsection \<open>Every operation refines the list\<close>

lemma queue_add_memcpy_correct:
  assumes wf: "queue_wf q" and src: "unat count * unat (unit_bytes q) \<le> length src"
  defines "n \<equiv> min count (queue_space q)"
  obtains q' where "queue_add_memcpy q src count = Some (q', n)" and "queue_wf q'"
    and "queue_list q' = queue_list q @ src_units q src n"
    and "buffer_units q' = buffer_units q" and "unit_bytes q' = unit_bytes q"
    and "q_head q' = q_head q"
    and "policy_calls q' = policy_calls q @ [PolicyAdd n]"
proof -
  let ?ub = "unat (unit_bytes q)" and ?N = "unat (buffer_units q)"
  have fit: "unat (queue_count q) + unat n \<le> ?N"
    using queue_copy_bounds [OF wf] by (simp add: n_def unat_min unat_queue_space [OF wf])
  have "unat n \<le> unat count" by (simp add: n_def unat_min)
  then have s: "unat n * ?ub \<le> length src" using src by (meson le_trans mult_le_mono1)
  obtain buf where b: "ring_write ?ub ?N (q_buffer q) (unat (q_tail q AND buffer_units_mask q))
        src (unat n) = Some buf" "length buf = ?N * ?ub"
      and l: "ring_list ?ub ?N buf (unat (q_head q)) (unat (queue_count q) + unat n) =
        ring_list ?ub ?N (q_buffer q) (unat (q_head q)) (unat (queue_count q)) @ chunks ?ub src (unat n)"
    using ring_list_write [OF queue_tail_pos [OF wf] fit units_pos [OF wf]
        queue_copy_bounds(2) [OF wf] s] by metis
  define q' where "q' = q\<lparr>q_buffer := buf, q_tail := q_tail q + n,
    policy_calls := policy_calls q @ [PolicyAdd n]\<rparr>"
  have n2: "min n (queue_space q) = n" by (simp add: n_def)
  have adv: "queue_advance_tail (q\<lparr>q_buffer := buf\<rparr>) n = (q', n)"
    using n2 by (simp add: queue_advance_tail_def queue_space_def queue_count_def q'_def)
  have "unat (queue_count q) + unat n < 2 ^ 32"
    using fit unat_lt2p [of "buffer_units q"] by simp
  moreover have "queue_count q' = queue_count q + n"
    by (simp add: queue_count_def q'_def)
  ultimately have c: "unat (queue_count q') = unat (queue_count q) + unat n"
    by (simp add: unat_word_ariths)
  show ?thesis
  proof
    show "queue_add_memcpy q src count = Some (q', n)"
      using b(1) adv by (simp add: queue_add_memcpy_ring [OF wf] flip: n_def)
    have "queue_count q' \<le> buffer_units q'"
      unfolding word_le_nat_alt using c fit by (simp add: q'_def)
    then show "queue_wf q'"
      using wf b(2) by (simp add: queue_wf_def q'_def)
    show "queue_list q' = queue_list q @ src_units q src n"
      using l c by (simp add: queue_list_def src_units_def q'_def)
  qed (simp_all add: q'_def)
qed

lemma queue_advance_head_correct:
  assumes wf: "queue_wf q"
  obtains q' where "queue_advance_head q count = (q', min count (queue_count q))"
    and "queue_wf q'" and "queue_list q' = drop (unat count) (queue_list q)"
    and "buffer_units q' = buffer_units q" and "unit_bytes q' = unit_bytes q"
    and "policy_calls q' = policy_calls q @ [PolicyRemove (min count (queue_count q))]"
proof -
  let ?N = "unat (buffer_units q)"
  define n where "n = min count (queue_count q)"
  define q' where "q' = fst (queue_advance_head q count)"
  have q': "q' = q\<lparr>q_head := q_head q + n, policy_calls := policy_calls q @ [PolicyRemove n]\<rparr>"
    by (simp add: q'_def queue_advance_head_def n_def Let_def)
  have nn: "unat n = min (unat count) (unat (queue_count q))" by (simp add: n_def unat_min)
  have "queue_count q' = queue_count q - n"
    by (simp add: q' queue_count_def)
  moreover have "n \<le> queue_count q" by (simp add: n_def)
  ultimately have c: "unat (queue_count q') = unat (queue_count q) - unat n"
    by (simp add: unat_sub)
  obtain k where k: "k < 32" "?N = 2 ^ k" using wf by (rule queue_wfE)
  have h: "unat (q_head q + n) mod ?N = (unat (q_head q) + unat n) mod ?N"
    using k by (simp add: unat_add_mod_pow2)
  have "queue_list q' = ring_list (unat (unit_bytes q)) ?N (q_buffer q)
      (unat (q_head q + n)) (unat (queue_count q) - unat n)"
    using c by (simp add: queue_list_def q')
  also have "\<dots> = ring_list (unat (unit_bytes q)) ?N (q_buffer q)
      (unat (q_head q) + unat n) (unat (queue_count q) - unat n)"
    by (metis h ring_list_mod)
  also have "\<dots> = drop (unat n) (queue_list q)"
    by (simp add: queue_list_def drop_ring_list)
  also have "\<dots> = drop (unat count) (queue_list q)"
    by (cases "count \<le> queue_count q") (simp_all add: n_def min_def word_le_nat_alt)
  finally have l: "queue_list q' = drop (unat count) (queue_list q)" .
  show ?thesis
  proof
    show "queue_advance_head q count = (q', min count (queue_count q))"
      by (simp add: queue_advance_head_def q' n_def Let_def)
    have "queue_count q' \<le> buffer_units q'"
      unfolding word_le_nat_alt using c queue_copy_bounds(1) [OF wf] by (simp add: q')
    then show "queue_wf q'" using wf by (simp add: queue_wf_def q')
    show "queue_list q' = drop (unat count) (queue_list q)" by (rule l)
  qed (simp_all add: q' n_def)
qed

lemma queue_read_safe_correct:
  assumes wf: "queue_wf q" and i: "unat i + unat n \<le> unat (queue_count q)"
    and H: "unat H = (unat (q_head q) + unat i) mod unat (buffer_units q)"
  obtains out where "queue_read_safe q H n = Some out"
    and "length out = unat n * unat (unit_bytes q)"
    and "chunks (unat (unit_bytes q)) out (unat n) = take (unat n) (drop (unat i) (queue_list q))"
proof -
  let ?ub = "unat (unit_bytes q)" and ?N = "unat (buffer_units q)"
  have b: "unat n \<le> unat (queue_count q) - unat i" "unat (queue_count q) - unat i \<le> ?N"
    using i queue_copy_bounds(1) [OF wf] by simp_all
  obtain out where o: "ring_read ?ub ?N (q_buffer q) ((unat (q_head q) + unat i) mod ?N) (unat n)
        = Some out" "length out = unat n * ?ub"
      "chunks ?ub out (unat n) = take (unat n) (ring_list ?ub ?N (q_buffer q)
        (unat (q_head q) + unat i) (unat (queue_count q) - unat i))"
    using ring_list_read [OF units_pos [OF wf] b queue_copy_bounds(2) [OF wf]] by metis
  have "unat H < ?N" using H units_pos [OF wf] by simp
  moreover have "unat n \<le> ?N" using b by simp
  ultimately have "queue_read_safe q H n = Some out"
    using o(1) H by (simp add: queue_read_safe_ring [OF wf])
  then show ?thesis
    by (rule that) (use o in \<open>simp_all add: queue_list_def drop_ring_list\<close>)
qed


subsection \<open>Removing and peeking\<close>

lemma queue_remove_memcpy_correct:
  fixes count :: u32
  assumes wf: "queue_wf q"
  defines "n \<equiv> min count (queue_count q)"
  obtains q' out where "queue_remove_memcpy q count = Some (q', out, n)" and "queue_wf q'"
    and "length out = unat n * unat (unit_bytes q)"
    and "src_units q out n = take (unat count) (queue_list q)"
    and "queue_list q' = drop (unat count) (queue_list q)"
    and "buffer_units q' = buffer_units q" and "unit_bytes q' = unit_bytes q"
    and "policy_calls q' = policy_calls q @ [PolicyRemove n]"
proof -
  have nn: "unat n = min (unat count) (unat (queue_count q))" by (simp add: n_def unat_min)
  have "unat (0 :: u32) + unat n \<le> unat (queue_count q)" by (simp add: nn)
  moreover have "unat (q_head q AND buffer_units_mask q) =
      (unat (q_head q) + unat (0 :: u32)) mod unat (buffer_units q)"
    by (simp add: queue_head_pos [OF wf])
  ultimately obtain out where o:
    "queue_read_safe q (q_head q AND buffer_units_mask q) n = Some out"
    "length out = unat n * unat (unit_bytes q)"
    "chunks (unat (unit_bytes q)) out (unat n) = take (unat n) (drop (unat (0 :: u32)) (queue_list q))"
    by (rule queue_read_safe_correct [OF wf]) blast
  obtain q' where q': "queue_advance_head q n = (q', min n (queue_count q))" "queue_wf q'"
    "queue_list q' = drop (unat n) (queue_list q)" "buffer_units q' = buffer_units q"
    "unit_bytes q' = unit_bytes q" "policy_calls q' = policy_calls q @ [PolicyRemove (min n (queue_count q))]"
    using queue_advance_head_correct [OF wf, where count = n] by blast
  have n2: "min n (queue_count q) = n" by (simp add: n_def)
  have td: "take (unat n) (queue_list q) = take (unat count) (queue_list q)"
    "drop (unat n) (queue_list q) = drop (unat count) (queue_list q)"
    using nn by (auto simp: min_def)
  show ?thesis
    by (rule that [of q' out])
      (use o q' td n2 in \<open>simp_all add: queue_remove_memcpy_def src_units_def flip: n_def\<close>)
qed

lemma queue_add_unit_memcpy:
  assumes wf: "queue_wf q" and src: "unat (unit_bytes q) \<le> length src"
  shows "queue_add_unit q src =
    (if queue_space q = 0 then Some (q, 0) else queue_add_memcpy q src 1)"
proof (cases "queue_space q = 0")
  case False
  let ?t = "q_tail q AND buffer_units_mask q"
  have "unat ?t < unat (buffer_units q)"
    using queue_tail_pos [OF wf] units_pos [OF wf] by simp
  then have "?t < buffer_units q" by (simp add: word_less_nat_alt)
  then have "buffer_units q - ?t \<noteq> 0" by auto
  then have "1 \<le> buffer_units q - ?t" by (simp add: word_le_nat_alt Suc_le_eq unat_gt_0)
  moreover have "1 \<le> queue_space q" using False by (simp add: word_le_nat_alt Suc_le_eq unat_gt_0)
  ultimately have "min 1 (queue_space q) = 1" "min 1 (buffer_units q - ?t) = 1"
    by (simp_all add: min_absorb1)
  then show ?thesis using False
    by (auto simp: queue_add_unit_def queue_add_memcpy_def Let_def)
qed (simp add: queue_add_unit_def)

lemma queue_remove_unit_memcpy:
  assumes wf: "queue_wf q"
  shows "queue_remove_unit q =
    (if queue_count q = 0 then Some (q, [], 0) else queue_remove_memcpy q 1)"
proof (cases "queue_count q = 0")
  case False
  let ?h = "q_head q AND buffer_units_mask q"
  have "unat ?h < unat (buffer_units q)"
    using queue_head_pos [OF wf] units_pos [OF wf] by simp
  then have "?h < buffer_units q" by (simp add: word_less_nat_alt)
  then have "buffer_units q - ?h \<noteq> 0" by auto
  then have "1 \<le> buffer_units q - ?h" by (simp add: word_le_nat_alt Suc_le_eq unat_gt_0)
  moreover have "1 \<le> queue_count q" using False by (simp add: word_le_nat_alt Suc_le_eq unat_gt_0)
  ultimately have "min 1 (queue_count q) = 1" "min 1 (buffer_units q - ?h) = 1"
    by (simp_all add: min_absorb1)
  then show ?thesis using False
    by (auto simp: queue_remove_unit_def queue_remove_memcpy_def queue_read_safe_def Let_def)
qed (simp add: queue_remove_unit_def)

subsection \<open>The queue is a bounded FIFO\<close>

definition queue_of :: "u32 \<Rightarrow> u32 \<Rightarrow> queue \<Rightarrow> bool" where
  "queue_of N ub q \<longleftrightarrow> queue_wf q \<and> buffer_units q = N \<and> unit_bytes q = ub"

definition queue_enq :: "queue \<Rightarrow> u8 list \<Rightarrow> (queue \<times> bool) option" where
  "queue_enq q x = map_option (\<lambda>(q', n). (q', n = 1)) (queue_add_unit q x)"

definition queue_deq :: "queue \<Rightarrow> (queue \<times> u8 list option) option" where
  "queue_deq q = map_option (\<lambda>(q', x, n). (q', if n = 1 then Some x else None)) (queue_remove_unit q)"

lemma queue_enq_law:
  assumes q: "queue_of N ub q" and x: "length x = unat ub"
  shows "\<exists>q'. queue_enq q x = Some (q', length (queue_list q) < unat N) \<and> queue_of N ub q' \<and>
    queue_list q' = (if length (queue_list q) < unat N then queue_list q @ [x] else queue_list q)"
proof -
  have wf: "queue_wf q" and N: "buffer_units q = N" "unit_bytes q = ub"
    using q by (simp_all add: queue_of_def)
  have sp: "queue_space q = 0 \<longleftrightarrow> \<not> unat (queue_count q) < unat N"
    using unat_queue_space [OF wf] N by (auto simp flip: unat_eq_0)
  show ?thesis
  proof (cases "queue_space q = 0")
    case True
    then show ?thesis using sp q x N
      by (simp add: queue_enq_def queue_add_unit_memcpy [OF wf])
  next
    case False
    then have one: "min 1 (queue_space q) = 1"
      by (simp add: min_absorb1 word_le_nat_alt Suc_le_eq unat_gt_0)
    have len: "unat (1 :: u32) * unat (unit_bytes q) \<le> length x" using x N by simp
    obtain q' where q': "queue_add_memcpy q x 1 = Some (q', 1)" "queue_wf q'"
      "queue_list q' = queue_list q @ src_units q x 1" "buffer_units q' = N" "unit_bytes q' = ub"
      using queue_add_memcpy_correct [OF wf len] one N by metis
    have "src_units q x 1 = [x]"
      using x N by (simp add: src_units_def chunks_def unit_at_def)
    then show ?thesis using q' False sp x N
      by (simp add: queue_enq_def queue_of_def queue_add_unit_memcpy [OF wf])
  qed
qed

lemma queue_deq_law:
  assumes q: "queue_of N ub q"
  shows "\<exists>q'. queue_deq q = Some (q', if queue_list q = [] then None else Some (hd (queue_list q))) \<and>
    queue_of N ub q' \<and> queue_list q' = tl (queue_list q)"
proof -
  have wf: "queue_wf q" and N: "buffer_units q = N" "unit_bytes q = ub"
    using q by (simp_all add: queue_of_def)
  have e: "queue_count q = 0 \<longleftrightarrow> queue_list q = []"
    by (simp flip: length_0_conv unat_eq_0)
  show ?thesis
  proof (cases "queue_count q = 0")
    case True
    then show ?thesis using e q by (simp add: queue_deq_def queue_remove_unit_def)
  next
    case False
    then have one: "min 1 (queue_count q) = 1"
      by (simp add: min_absorb1 word_le_nat_alt Suc_le_eq unat_gt_0)
    obtain q' out where q': "queue_remove_memcpy q 1 = Some (q', out, 1)" "queue_wf q'"
      "length out = unat ub" "src_units q out 1 = take 1 (queue_list q)"
      "queue_list q' = drop 1 (queue_list q)" "buffer_units q' = N" "unit_bytes q' = ub"
      using queue_remove_memcpy_correct [OF wf, where count = 1, unfolded one N unat_1 mult_1]
      by blast
    have "src_units q out 1 = [out]"
      using q'(3) N by (simp add: src_units_def chunks_def unit_at_def)
    then have "queue_list q \<noteq> [] \<and> hd (queue_list q) = out"
      using q'(4) by (cases "queue_list q") auto
    then show ?thesis using q' False e
      by (simp add: queue_deq_def queue_of_def queue_remove_unit_memcpy [OF wf] drop_Suc)
  qed
qed

interpretation unitq: bounded_fifo "queue_of N ub" queue_list "unat N" "\<lambda>x. length x = unat ub"
  queue_enq queue_deq
  for N ub
  by unfold_locales (erule (1) queue_enq_law, erule queue_deq_law)


subsection \<open>Chunks\<close>

lemma queue_get_read_chunk_facts:
  assumes wf: "queue_wf q"
  defines "c \<equiv> queue_get_read_chunk q"
  shows "unat (chunk_count c) \<le> unat (queue_count q)"
    and "unat (q_head q AND buffer_units_mask q) + unat (chunk_count c) \<le> unat (buffer_units q)"
    and "chunk_buffer c = Some ((q_head q AND buffer_units_mask q) * unit_bytes q)"
    and "queue_count q \<noteq> 0 \<Longrightarrow> chunk_count c \<noteq> 0"
proof -
  let ?N = "unat (buffer_units q)" and ?c = "unat (queue_count q)"
  let ?h = "q_head q AND buffer_units_mask q" and ?t = "q_tail q AND buffer_units_mask q"
  have h: "unat ?h = unat (q_head q) mod ?N" and t: "unat ?t = (unat ?h + ?c) mod ?N"
    using queue_head_pos [OF wf] queue_tail_pos [OF wf] by (simp_all add: mod_add_left_eq)
  have hN: "unat ?h < ?N" using h units_pos [OF wf] by simp
  have cN: "?c \<le> ?N" using queue_copy_bounds(1) [OF wf] .
  have e: "queue_is_empty q \<longleftrightarrow> ?c = 0"
    by (auto simp: queue_is_empty_def queue_count_def unat_eq_0)
  show "chunk_buffer c = Some (?h * unit_bytes q)"
    by (simp add: c_def queue_get_read_chunk_def Let_def)
  have cnt: "unat (chunk_count c) = (if ?c = 0 then 0 else if unat ?h < unat ?t then unat ?t - unat ?h
      else ?N - unat ?h)"
    using hN e by (auto simp: c_def queue_get_read_chunk_def Let_def unat_sub word_less_nat_alt
        word_le_nat_alt)
  have t2: "unat ?t = (if unat ?h + ?c < ?N then unat ?h + ?c else unat ?h + ?c - ?N)" if "?c \<noteq> 0"
    using hN cN t by (cases "unat ?h + ?c < ?N") (simp_all add: le_mod_geq)
  show "unat (chunk_count c) \<le> ?c"
    using cnt t2 hN cN by (auto split: if_splits)
  show "unat ?h + unat (chunk_count c) \<le> ?N"
    using cnt t2 hN cN by (auto split: if_splits)
  show "queue_count q \<noteq> 0 \<Longrightarrow> chunk_count c \<noteq> 0"
    using cnt hN by (auto simp flip: unat_eq_0 split: if_splits)
qed

lemma ring_list_prefix:
  assumes "h + n \<le> N" and "n \<le> c"
  shows "take n (ring_list ub N buf h c) = chunks ub (drop (h * ub) buf) n"
proof (rule nth_equalityI)
  fix i assume "i < length (take n (ring_list ub N buf h c))"
  then have "i < n" using assms(2) by simp
  then show "take n (ring_list ub N buf h c) ! i = chunks ub (drop (h * ub) buf) n ! i"
    using assms by (simp add: unit_at_drop)
qed (use assms in simp)

lemma queue_get_write_chunk_facts:
  assumes wf: "queue_wf q" and off: "offset < queue_space q"
  defines "c \<equiv> queue_get_write_chunk q offset"
    and "p \<equiv> (q_tail q + offset) AND buffer_units_mask q"
  shows "chunk_buffer c = Some (p * unit_bytes q)" and "0 < unat (chunk_count c)"
    and "unat offset + unat (chunk_count c) \<le> unat (queue_space q)"
    and "unat p + unat (chunk_count c) \<le> unat (buffer_units q)"
proof -
  let ?N = "unat (buffer_units q)" and ?c = "unat (queue_count q)" and ?o = "unat offset"
  let ?h = "q_head q AND buffer_units_mask q"
  have o: "?o < ?N - ?c"
    using off unat_queue_space [OF wf] by (simp add: word_less_nat_alt)
  have "unat ((q_head q + (queue_count q + offset)) AND buffer_units_mask q) =
      (unat (q_head q) + unat (queue_count q + offset)) mod ?N"
    by (rule queue_pos [OF wf])
  moreover have "unat (queue_count q + offset) = ?c + ?o"
    using o unat_lt2p [of "buffer_units q"] by (simp add: unat_word_ariths)
  moreover have "q_head q + (queue_count q + offset) = q_tail q + offset"
    by (simp add: queue_count_def)
  ultimately have "unat p = (unat (q_head q) + (?c + ?o)) mod ?N"
    unfolding p_def by metis
  then have t: "unat p = (unat ?h + (?c + ?o)) mod ?N"
    using queue_head_pos [OF wf] by (simp add: mod_add_left_eq)
  have hN: "unat ?h < ?N" using queue_head_pos [OF wf] units_pos [OF wf] by simp
  have t2: "unat p = (if unat ?h + (?c + ?o) < ?N then unat ?h + (?c + ?o)
      else unat ?h + (?c + ?o) - ?N)"
    using hN o t by (cases "unat ?h + (?c + ?o) < ?N") (simp_all add: le_mod_geq)
  have ns: "\<not> queue_space q \<le> offset" using off by simp
  show "chunk_buffer c = Some (p * unit_bytes q)"
    using ns by (simp add: c_def queue_get_write_chunk_def Let_def p_def)
  have cnt: "unat (chunk_count c) = (if unat p < unat ?h then unat ?h - unat p else ?N - unat p)"
    using ns hN t2 o by (auto simp: c_def queue_get_write_chunk_def Let_def unat_sub word_less_nat_alt
        word_le_nat_alt simp flip: p_def)
  show "0 < unat (chunk_count c)" using cnt t2 hN o by (auto split: if_splits)
  show "?o + unat (chunk_count c) \<le> unat (queue_space q)"
    using cnt t2 hN o unat_queue_space [OF wf] by (auto split: if_splits)
  show "unat p + unat (chunk_count c) \<le> ?N" using cnt t2 hN o by (auto split: if_splits)
qed

subsection \<open>Iterators\<close>

definition queue_iter_at :: "queue \<Rightarrow> nat \<Rightarrow> queue_iterator" where
  "queue_iter_at q n = (queue_next q ^^ n) (queue_begin q)"

lemma queue_iter_at_Suc: "queue_iter_at q (Suc n) = queue_next q (queue_iter_at q n)"
  by (simp add: queue_iter_at_def)

lemma head_plus_eq_tail: "q_head q + i = q_tail q \<longleftrightarrow> i = queue_count q"
  by (simp add: queue_count_def eq_diff_eq add.commute)

lemma queue_iter_at_value:
  assumes "n < unat (queue_count q)"
  shows "queue_iter_at q n = \<lparr>it_ptr = Some (((q_head q + of_nat n) AND buffer_units_mask q) * unit_bytes q),
    it_offset = of_nat n, it_head = q_head q, it_tail = q_tail q\<rparr>"
  using assms
proof (induction n)
  case 0
  then have "\<not> queue_is_empty q" by (auto simp: queue_is_empty_def queue_count_def)
  then show ?case by (simp add: queue_iter_at_def queue_begin_def)
next
  case (Suc n)
  have u: "unat (of_nat m :: u32) = m" if "m \<le> Suc n" for m
    using that Suc.prems unat_lt2p [of "queue_count q"] by (simp add: unat_of_nat)
  have ne: "of_nat m \<noteq> queue_count q" if "m \<le> Suc n" for m
    using u [OF that] Suc.prems that by (auto simp del: unat_of_nat)
  have "q_head q + (1 + of_nat n) \<noteq> q_tail q"
    using ne [of "Suc n"] head_plus_eq_tail [of q "1 + of_nat n"] by simp
  then show ?case using Suc ne [of n] head_plus_eq_tail [of q "of_nat n"]
    by (simp add: queue_iter_at_Suc queue_next_def Let_def add.commute add.left_commute)
qed


lemma queue_iter_at_end:
  assumes "unat (queue_count q) \<le> n"
  shows "it_ptr (queue_iter_at q n) = None"
  using assms
proof (induction n)
  case 0
  then have "queue_count q = 0" by (simp add: unat_eq_0)
  then have "queue_is_empty q" using head_plus_eq_tail [of q 0] by (simp add: queue_is_empty_def)
  then show ?case by (simp add: queue_iter_at_def queue_begin_def)
next
  case (Suc n)
  show ?case
  proof (cases "unat (queue_count q) \<le> n")
    case True
    then show ?thesis using Suc.IH by (simp add: queue_iter_at_Suc queue_next_def)
  next
    case False
    then have n: "n < unat (queue_count q)" "unat (queue_count q) = Suc n" using Suc.prems by simp_all
    then have c: "queue_count q = of_nat (Suc n)" 
      by (metis of_nat_unat ucast_id)
    then have "q_head q + (1 + of_nat n) = q_tail q" using head_plus_eq_tail [of q "1 + of_nat n"] by simp
    moreover have "q_head q + of_nat n \<noteq> q_tail q"
      using head_plus_eq_tail [of q "of_nat n"] c by simp
    ultimately show ?thesis
      by (simp add: queue_iter_at_Suc queue_iter_at_value [OF n(1)] queue_next_def Let_def
          add.commute add.left_commute)
  qed
qed


subsection \<open>Properties\<close>

definition demo_queue :: queue where
  "demo_queue = \<lparr>q_head = 2 ^ 32 - 1, q_tail = 1, buffer_units = 4, buffer_units_mask = 3,
     unit_bytes = 2, q_buffer = [11, 12, 21, 22, 31, 32, 41, 42], policy_calls = []\<rparr>"

lemma demo_queue_wf: "queue_wf demo_queue"
proof -
  have "(4 :: u32) = 2 ^ 2" by simp
  then have "\<exists>k < 32. (4 :: u32) = 2 ^ k" by (intro exI [of _ 2]) simp
  then show ?thesis by (simp add: queue_wf_def demo_queue_def queue_count_def)
qed

lemma demo_queue_values:
  "queue_count demo_queue = 2" "queue_space demo_queue = 2" "unat (unit_bytes demo_queue) = 2"
  "unat (buffer_units demo_queue) = 4" "q_tail demo_queue = 1"
  by code_simp+

lemma demo_queue_list: "queue_list demo_queue = [[41, 42], [11, 12]]"
  unfolding queue_list_def demo_queue_values
  by (simp add: ring_list_def unit_at_def demo_queue_def upt_rec)

text \<open>
  C11: Adding to a queue appends. On a well-formed queue, \<open>queue_add_units\<close> with a source of
  \<open>count\<close> units never touches memory outside its buffers, whatever the head and tail
  counters are (they may have wrapped past \<open>2^32\<close>), transfers the first
  \<open>min count space\<close> units of the source to the end of the queue, keeps the queue well
  formed and every earlier unit in place, and notifies the policy of exactly that number.
\<close>

theorem queue_add_units_refines:
  assumes "queue_wf q" and "unat count * unat (unit_bytes q) \<le> length src"
  shows "\<exists>q'. queue_add_units q src count = Some (q', min count (queue_space q)) \<and> queue_wf q' \<and>
    queue_list q' = queue_list q @ take (unat (buffer_units q) - length (queue_list q))
      (src_units q src count) \<and>
    policy_calls q' = policy_calls q @ [PolicyAdd (min count (queue_space q))]"
proof -
  have "take (unat (buffer_units q) - length (queue_list q)) (src_units q src count) =
      src_units q src (min count (queue_space q))"
    using unat_queue_space [OF assms(1)]
    by (intro nth_equalityI) (auto simp: src_units_def unat_min)
  then show ?thesis
    using queue_add_memcpy_correct [OF assms] unfolding queue_add_units_def by metis
qed

lemma queue_add_units_refines_witness:
  "\<exists>q'. queue_add_units demo_queue [51, 52, 61, 62, 71, 72] 3 = Some (q', 2) \<and> queue_wf q' \<and>
    queue_list q' = [[41, 42], [11, 12], [51, 52], [61, 62]]"
proof -
  have "src_units demo_queue [51, 52, 61, 62, 71, 72] 3 = [[51, 52], [61, 62], [71, 72]]"
    and "min 3 (queue_space demo_queue) = 2"
    by code_simp+
  then show ?thesis
    using queue_add_units_refines [OF demo_queue_wf, of 3 "[51, 52, 61, 62, 71, 72]"]
    by (auto simp: demo_queue_values demo_queue_list)
qed

text \<open>
  Removing from a queue takes from the front. \<open>queue_remove_units\<close> on a well-formed
  queue returns the first \<open>min count (queue_count q)\<close> units in order, leaves exactly the
  rest, stays inside the buffer and notifies the policy of the number removed.
\<close>

lemma queue_remove_units_refines:
  assumes "queue_wf q"
  shows "\<exists>q' out. queue_remove_units q count = Some (q', out, min count (queue_count q)) \<and>
    queue_wf q' \<and> length out = unat (min count (queue_count q)) * unat (unit_bytes q) \<and>
    src_units q out (min count (queue_count q)) = take (unat count) (queue_list q) \<and>
    queue_list q' = drop (unat count) (queue_list q) \<and>
    policy_calls q' = policy_calls q @ [PolicyRemove (min count (queue_count q))]"
  unfolding queue_remove_units_def using queue_remove_memcpy_correct [OF assms] by metis

lemma queue_remove_units_refines_witness:
  "\<exists>q' out. queue_remove_units demo_queue 5 = Some (q', out, 2) \<and> queue_list q' = []"
  using queue_remove_units_refines [OF demo_queue_wf, of 5]
  by (auto simp: demo_queue_values demo_queue_list)

lemma peek_units_inside:
  assumes "queue_wf q" and "i < queue_count q"
  shows "\<exists>out. queue_peek_units q i count = Some (out, min count (queue_count q - i)) \<and>
    length out = unat (min count (queue_count q - i)) * unat (unit_bytes q) \<and>
    src_units q out (min count (queue_count q - i)) =
      take (unat count) (drop (unat i) (queue_list q))"
proof -
  let ?n = "min count (queue_count q - i)"
  have d: "unat (queue_count q - i) = unat (queue_count q) - unat i"
    using assms(2) by (intro unat_sub) simp
  have "unat i + unat ?n \<le> unat (queue_count q)"
    using assms(2) by (simp add: unat_min d word_less_nat_alt)
  then obtain out where o:
    "queue_read_safe q ((q_head q + i) AND buffer_units_mask q) ?n = Some out"
    "length out = unat ?n * unat (unit_bytes q)"
    "chunks (unat (unit_bytes q)) out (unat ?n) = take (unat ?n) (drop (unat i) (queue_list q))"
    using queue_read_safe_correct [OF assms(1) _ queue_pos [OF assms(1)]] by metis
  have "take (unat ?n) (drop (unat i) (queue_list q)) = take (unat count) (drop (unat i) (queue_list q))"
    by (cases "unat count \<le> unat (queue_count q) - unat i") (simp_all add: unat_min d)
  then show ?thesis using o assms(2)
    by (simp add: queue_peek_units_def queue_peek_memcpy_def src_units_def Let_def)
qed

text \<open>
  Peeking returns the units asked for, and counts some that do not exist. For an index inside
  the queue, \<open>queue_peek_units\<close> returns the units from that index on, as many as asked
  for and available, and (being a function of the queue only) removes none. For an index beyond the
  number of queued units, \<open>available - i\<close> wraps around in \<open>size_t\<close>: nothing is
  copied, and a request no larger than the wrapped difference is still reported in full.
\<close>

lemma queue_peek_units_exact:
  assumes "queue_wf q"
  shows "(i < queue_count q \<longrightarrow>
      (\<exists>out. queue_peek_units q i count = Some (out, min count (queue_count q - i)) \<and>
        length out = unat (min count (queue_count q - i)) * unat (unit_bytes q) \<and>
        src_units q out (min count (queue_count q - i)) = take (unat count) (drop (unat i) (queue_list q)))) \<and>
    (queue_count q < i \<and> count \<le> queue_count q - i \<longrightarrow> queue_peek_units q i count = Some ([], count))"
  using peek_units_inside [OF assms, of i count]
  by (auto simp: queue_peek_units_def queue_peek_memcpy_def Let_def min_def not_less)

lemma queue_peek_units_exact_witness:
  "(\<exists>out. queue_peek_units demo_queue 1 3 = Some (out, 1) \<and> length out = 2) \<and>
    queue_peek_units demo_queue 3 1 = Some ([], 1)"
  using queue_peek_units_exact [OF demo_queue_wf, of 1 3] queue_peek_units_exact [OF demo_queue_wf, of 3 1]
  by (auto simp: demo_queue_values demo_queue_list)

text \<open>
  A queue is a lossless bounded FIFO under every interleaving of single-unit operations.
  For any sequence of \<open>queue_add_unit\<close> and \<open>queue_remove_unit\<close> calls nothing
  accesses memory outside the buffer, the queue stays well formed, what was queued and accepted
  equals what came out followed by what is still queued, and the run is that of a plain list
  that refuses a unit exactly when it holds \<open>buffer_units\<close> of them.
\<close>

lemma queue_unit_fifo:
  assumes "queue_of N ub q" and "\<forall>x. Enq x \<in> set ops \<longrightarrow> length x = unat ub"
  shows "\<exists>q' acc outs. fifo_run queue_enq queue_deq q ops = Some (q', acc, outs) \<and>
    queue_of N ub q' \<and> queue_list q @ acc = outs @ queue_list q' \<and>
    spec_run (unat N) (queue_list q) ops = (queue_list q', acc, outs)"
  using assms by (rule unitq.run_fifo)

lemma queue_unit_fifo_witness:
  "\<exists>q' acc outs. fifo_run queue_enq queue_deq demo_queue [Enq [1, 2], Deq, Enq [3, 4]] =
    Some (q', acc, outs) \<and> queue_of 4 2 q' \<and> queue_list demo_queue @ acc = outs @ queue_list q'"
  using queue_unit_fifo [of 4 2 demo_queue "[Enq [1, 2], Deq, Enq [3, 4]]"] demo_queue_wf
  by (auto simp: queue_of_def) (auto simp: demo_queue_def)

text \<open>
  An iterator visits every unit once, in order, and then ends. After \<open>n\<close> calls of
  \<open>queue_next\<close> the iterator of \<open>queue_begin\<close> points at the bytes of the
  \<open>n\<close>-th queued unit, and from \<open>queue_count q\<close> calls on its pointer is null.
\<close>

lemma queue_iterator_enumerates:
  assumes "queue_wf q"
  shows "case it_ptr (queue_iter_at q n) of
      None \<Rightarrow> length (queue_list q) \<le> n
    | Some p \<Rightarrow> n < length (queue_list q) \<and>
        mem_read (q_buffer q) (unat p) (unat (unit_bytes q)) = Some (queue_list q ! n)"
proof (cases "n < unat (queue_count q)")
  case True
  let ?N = "unat (buffer_units q)" and ?ub = "unat (unit_bytes q)"
  let ?p = "(q_head q + of_nat n) AND buffer_units_mask q"
  have "unat (of_nat n :: u32) = n"
    using True unat_lt2p [of "queue_count q"] by (simp add: unat_of_nat)
  then have p: "unat ?p = (unat (q_head q) + n) mod ?N"
    using queue_pos [OF assms, of "of_nat n"] by simp
  then have lt: "unat ?p < ?N" using units_pos [OF assms] by simp
  have off: "unat (?p * unit_bytes q) = unat ?p * ?ub"
    using assms by (rule queue_offset) (use lt in simp)
  have "Suc (unat ?p) * ?ub \<le> ?N * ?ub" using lt by (intro mult_le_mono1) simp
  then have "mem_read (q_buffer q) (unat ?p * ?ub) ?ub = Some (unit_at ?ub (q_buffer q) (unat ?p))"
    using queue_copy_bounds(2) [OF assms] by (simp add: mem_read_def unit_at_def add.commute)
  then show ?thesis using True off p
    by (simp add: queue_iter_at_value queue_list_def)
next
  case False
  then show ?thesis by (simp add: queue_iter_at_end)
qed

lemma queue_iterator_enumerates_witness:
  "case it_ptr (queue_iter_at demo_queue 1) of
      None \<Rightarrow> length (queue_list demo_queue) \<le> 1
    | Some p \<Rightarrow> mem_read (q_buffer demo_queue) (unat p) 2 = Some (queue_list demo_queue ! 1)"
  using queue_iterator_enumerates [OF demo_queue_wf, of 1]
  by (auto simp: demo_queue_def split: option.splits)

text \<open>
  The chunks for DMA clients are exact. \<open>queue_get_read_chunk\<close> describes an in-range
  block of the buffer that holds a prefix of the queue, non-empty unless the queue is; for an
  offset within the free space, \<open>queue_get_write_chunk\<close> describes a non-empty in-range
  block that begins at ring position tail plus offset and stays within the free space.
\<close>

lemma queue_chunks_exact:
  assumes "queue_wf q" and "offset < queue_space q"
  shows "\<exists>r w. chunk_buffer (queue_get_read_chunk q) = Some r \<and>
    chunks (unat (unit_bytes q)) (drop (unat r) (q_buffer q))
      (unat (chunk_count (queue_get_read_chunk q))) =
      take (unat (chunk_count (queue_get_read_chunk q))) (queue_list q) \<and>
    (queue_list q \<noteq> [] \<longrightarrow> chunk_count (queue_get_read_chunk q) \<noteq> 0) \<and>
    chunk_buffer (queue_get_write_chunk q offset) = Some w \<and>
    unat w = (unat (q_tail q + offset) mod unat (buffer_units q)) * unat (unit_bytes q) \<and>
    0 < unat (chunk_count (queue_get_write_chunk q offset)) \<and>
    unat offset + unat (chunk_count (queue_get_write_chunk q offset)) \<le> unat (queue_space q) \<and>
    unat w + unat (chunk_count (queue_get_write_chunk q offset)) * unat (unit_bytes q)
      \<le> length (q_buffer q)"
proof -
  let ?ub = "unat (unit_bytes q)" and ?N = "unat (buffer_units q)"
  let ?h = "q_head q AND buffer_units_mask q" and ?p = "(q_tail q + offset) AND buffer_units_mask q"
  let ?r = "queue_get_read_chunk q" and ?w = "queue_get_write_chunk q offset"
  note R = queue_get_read_chunk_facts [OF assms(1)] and W = queue_get_write_chunk_facts [OF assms]
  have ho: "unat (?h * unit_bytes q) = unat ?h * ?ub"
    using assms(1) by (rule queue_offset) (use R(2) in simp)
  have po: "unat (?p * unit_bytes q) = unat ?p * ?ub"
    using assms(1) by (rule queue_offset) (use W(4) in simp)
  have pp: "unat ?p = unat (q_tail q + offset) mod ?N"
    using assms(1) by (elim queue_wfE) (simp add: unat_and_mask)
  have "take (unat (chunk_count ?r)) (queue_list q) =
      take (unat (chunk_count ?r)) (ring_list ?ub ?N (q_buffer q) (unat ?h) (unat (queue_count q)))"
    by (simp add: queue_list_def queue_head_pos [OF assms(1)] ring_list_mod)
  then have "take (unat (chunk_count ?r)) (queue_list q) =
      chunks ?ub (drop (unat ?h * ?ub) (q_buffer q)) (unat (chunk_count ?r))"
    using ring_list_prefix [OF R(2) R(1)] by simp
  moreover have "queue_list q \<noteq> [] \<longrightarrow> chunk_count ?r \<noteq> 0"
  proof
    assume "queue_list q \<noteq> []"
    then have "queue_count q \<noteq> 0" by (metis length_queue_list length_0_conv unat_eq_0)
    then show "chunk_count ?r \<noteq> 0" by (rule R(4))
  qed
  moreover have "unat ?p * ?ub + unat (chunk_count ?w) * ?ub \<le> ?N * ?ub"
    using W(4) by (metis add_mult_distrib mult_le_mono1)
  ultimately show ?thesis
    using R(3) W(1-3) ho po pp queue_copy_bounds(2) [OF assms(1)] by simp
qed

lemma queue_chunks_exact_witness:
  "\<exists>w. chunk_buffer (queue_get_write_chunk demo_queue 1) = Some w \<and> unat w = 4"
  using queue_chunks_exact [OF demo_queue_wf, of 1] by (auto simp: demo_queue_values)

end
