(* ===== verification/Crc8.thy ===== *)
theory Crc8
  imports Prelude
begin

section \<open>The CRC-8 of common/crc8.c\<close>

text \<open>
  \<open>cros_crc8_arg\<close> over its 32-bit accumulator, the bytes of \<open>data\<close> up to
  \<open>len\<close> given as a list; the reference is the usual 8-bit shift register with the polynomial
  \<open>x^8 + x^2 + x + 1\<close>. The board information of \<open>common/cbi.c\<close> is guarded by it.
\<close>

definition crc8_bit :: "u32 \<Rightarrow> u32" where
  "crc8_bit crc =
     (let crc = (if crc AND 0x8000 \<noteq> 0 then crc XOR push_bit 3 0x1070 else crc)
      in push_bit 1 crc)"

definition crc8_byte :: "u32 \<Rightarrow> u8 \<Rightarrow> u32" where
  "crc8_byte crc d = (crc8_bit ^^ 8) (crc XOR push_bit 8 (ucast d))"

definition cros_crc8_arg :: "u8 list \<Rightarrow> u8 \<Rightarrow> u8" where
  "cros_crc8_arg data previous_crc =
     ucast (drop_bit 8 (foldl crc8_byte (push_bit 8 (ucast previous_crc)) data))"

definition cros_crc8 :: "u8 list \<Rightarrow> u8" where
  "cros_crc8 data = cros_crc8_arg data 0"

subsection \<open>The reference shift register\<close>

definition lfsr_bit :: "u8 \<Rightarrow> u8" where
  "lfsr_bit x = (if bit x 7 then push_bit 1 x XOR 7 else push_bit 1 x)"

definition lfsr_byte :: "u8 \<Rightarrow> u8 \<Rightarrow> u8" where
  "lfsr_byte c d = (lfsr_bit ^^ 8) (c XOR d)"

definition lfsr_unbit :: "u8 \<Rightarrow> u8" where
  "lfsr_unbit y = (if bit y 0 then drop_bit 1 (y XOR 7) OR 0x80 else drop_bit 1 y)"

definition lfsr_unbyte :: "u8 \<Rightarrow> u8 \<Rightarrow> u8" where
  "lfsr_unbyte c d = (lfsr_unbit ^^ 8) c XOR d"

lemma bit_8000: "(w AND 0x8000 = 0) \<longleftrightarrow> \<not> bit (w :: u32) 15"
  using and_exp_eq_0_iff_not_bit [of w 15] by simp

lemma crc8_bit_set: "bit x 7 \<Longrightarrow> push_bit 1 (push_bit 8 (ucast x) XOR push_bit 3 0x1070 :: u32) =
    push_bit 8 (ucast (push_bit 1 (x :: u8) XOR 7))"
  by (rule bit_word_eqI, simp add: bits32 bits16 bits8, elim disjE; simp add: word_bits)

lemma crc8_bit_clear: "\<not> bit x 7 \<Longrightarrow> push_bit 1 (push_bit 8 (ucast x) :: u32) =
    push_bit 8 (ucast (push_bit 1 (x :: u8)))"
  by (rule bit_word_eqI, simp add: bits32 bits16 bits8, elim disjE; simp add: word_bits)

lemma crc8_bit_lfsr: "crc8_bit (push_bit 8 (ucast x)) = push_bit 8 (ucast (lfsr_bit x))"
proof -
  have "bit (push_bit 8 (ucast x) :: u32) 15 = bit x 7" by (simp add: bit_simps)
  then show ?thesis
    unfolding crc8_bit_def lfsr_bit_def Let_def bit_8000 not_not
    by (cases "bit x 7") (simp_all only: if_True if_False crc8_bit_set crc8_bit_clear not_False_eq_True)
qed

lemma crc8_bit_lfsr_pow: "(crc8_bit ^^ n) (push_bit 8 (ucast x)) = push_bit 8 (ucast ((lfsr_bit ^^ n) x))"
  by (induction n) (simp_all add: crc8_bit_lfsr)

lemma crc8_byte_lfsr: "crc8_byte (push_bit 8 (ucast c)) d = push_bit 8 (ucast (lfsr_byte c d))"
proof -
  have "push_bit 8 (ucast c) XOR push_bit 8 (ucast d) = (push_bit 8 (ucast (c XOR d)) :: u32)"
    by (rule bit_word_eqI) (auto simp: bit_simps)
  then show ?thesis by (simp only: crc8_byte_def lfsr_byte_def crc8_bit_lfsr_pow)
qed

lemma crc8_foldl: "foldl crc8_byte (push_bit 8 (ucast c)) data = push_bit 8 (ucast (foldl lfsr_byte c data))"
  by (induction data arbitrary: c) (simp_all add: crc8_byte_lfsr)

lemma crc8_top: "ucast (drop_bit 8 (push_bit 8 (ucast c) :: u32)) = (c :: u8)"
  by (rule bit_word_eqI) (simp add: bit_simps)

lemma cros_crc8_arg_lfsr: "cros_crc8_arg data p = foldl lfsr_byte p data"
  by (simp only: cros_crc8_arg_def crc8_foldl crc8_top)

lemma lfsr_unbit: "lfsr_unbit (lfsr_bit x) = x"
  unfolding lfsr_unbit_def lfsr_bit_def
  by (rule bit_word_eqI, simp add: bits8, elim disjE; simp add: word_bits)

lemma lfsr_unbit_pow: "(lfsr_unbit ^^ n) ((lfsr_bit ^^ n) x) = x"
  by (induction n arbitrary: x) (simp_all add: lfsr_unbit funpow_swap1)

lemma xor_cancel: "c XOR d = c' XOR d \<Longrightarrow> c = (c' :: 'a::len word)"
  by (metis xor.assoc xor.right_neutral xor_self_eq)

lemma lfsr_byte_inj:
  "lfsr_byte c d = lfsr_byte c' d \<longleftrightarrow> c = c'"
  "lfsr_byte c d = lfsr_byte c d' \<longleftrightarrow> d = d'"
proof -
  have *: "x = y" if "(lfsr_bit ^^ 8) x = (lfsr_bit ^^ 8) y" for x y
    using that lfsr_unbit_pow [of 8] by metis
  show "lfsr_byte c d = lfsr_byte c' d \<longleftrightarrow> c = c'"
    unfolding lfsr_byte_def using * [of "c XOR d" "c' XOR d"] xor_cancel by auto
  show "lfsr_byte c d = lfsr_byte c d' \<longleftrightarrow> d = d'"
    unfolding lfsr_byte_def using * [of "c XOR d" "c XOR d'"] xor_cancel [of d c d'] by (auto simp: xor.commute)
qed

lemma foldl_lfsr_inj: "foldl lfsr_byte c data = foldl lfsr_byte c' data \<longleftrightarrow> c = c'"
  by (induction data arbitrary: c c') (simp_all add: lfsr_byte_inj)

lemma lfsr_zero: "lfsr_byte c c = 0"
  by (simp add: lfsr_byte_def lfsr_bit_def eval_nat_numeral)

subsection \<open>Polynomials over the field of two elements\<close>

text \<open>
  A polynomial is the list of its coefficients, the highest first; \<open>gf2_mod g p\<close> is the
  remainder of the long division of \<open>p\<close> by \<open>g\<close>: \<open>g\<close> is subtracted below the
  leading coefficient as long as \<open>p\<close> is not shorter than \<open>g\<close>.
\<close>

definition CRC8_POLY :: "bool list" where
  "CRC8_POLY = [True, False, False, False, False, False, True, True, True]"

function gf2_mod :: "bool list \<Rightarrow> bool list \<Rightarrow> bool list" where
  "gf2_mod g p =
     (if g = [] \<or> length p < length g then p
      else if hd p then gf2_mod g (tl (map2 (\<noteq>) (take (length g) p) g @ drop (length g) p))
      else gf2_mod g (tl p))"
  by pat_completeness auto
termination by (relation "measure (\<lambda>(g, p). length p)") (auto simp: min_def not_less length_greater_0_conv [symmetric] simp del: length_greater_0_conv)

declare gf2_mod.simps [simp del]

definition byte_bits :: "u8 \<Rightarrow> bool list" where "byte_bits d = map (bit d) [7, 6, 5, 4, 3, 2, 1, 0]"

definition message_bits :: "u8 list \<Rightarrow> bool list" where "message_bits data = concat (map byte_bits data)"

lemma lfsr_bit_bits:
  "byte_bits (lfsr_bit x XOR of_bool b) =
     [bit x 6, bit x 5, bit x 4, bit x 3, bit x 2, bit x 1 \<noteq> bit x 7, bit x 0 \<noteq> bit x 7, bit x 7 \<noteq> b]"
  by (cases "bit x 7"; cases b; simp add: byte_bits_def lfsr_bit_def word_bits)

lemma gf2_mod_step: "gf2_mod CRC8_POLY (byte_bits x @ b # t) = gf2_mod CRC8_POLY (byte_bits (lfsr_bit x XOR of_bool b) @ t)"
  by (subst gf2_mod.simps) (simp add: CRC8_POLY_def lfsr_bit_bits, simp add: byte_bits_def)

lemma lfsr_bit_xor: "lfsr_bit (x XOR y) = lfsr_bit x XOR lfsr_bit y"
  by (rule bit_word_eqI, simp add: lfsr_bit_def bits8, elim disjE; simp add: word_bits)

lemma lfsr_bit_zero [simp]: "lfsr_bit 0 = 0"
  by (simp add: lfsr_bit_def)

lemma byte_bits_inj: "byte_bits x = byte_bits y \<Longrightarrow> x = y"
  by (rule bit_word_eqI) (auto simp: byte_bits_def bits8)

text \<open>The bits of a byte are shifted into the register one by one.\<close>

abbreviation shift_in :: "u8 \<Rightarrow> bool \<Rightarrow> u8" where
  "shift_in x b \<equiv> lfsr_bit x XOR of_bool b"

lemma gf2_mod_shift: "gf2_mod CRC8_POLY (byte_bits x @ bs @ t) = gf2_mod CRC8_POLY (byte_bits (foldl shift_in x bs) @ t)"
  by (induction bs arbitrary: x) (simp_all add: gf2_mod_step)

lemma shift_in_linear: "foldl shift_in x bs = (lfsr_bit ^^ length bs) x XOR foldl shift_in 0 bs"
proof (induction bs rule: rev_induct)
  case (snoc b bs)
  have "foldl shift_in x (bs @ [b]) = lfsr_bit ((lfsr_bit ^^ length bs) x XOR foldl shift_in 0 bs) XOR of_bool b"
    by (simp only: foldl_append foldl.simps snoc.IH [symmetric])
  then show ?case by (simp add: lfsr_bit_xor xor.assoc)
qed simp

lemma shift_in_bits: "length bs \<le> 8 \<Longrightarrow> byte_bits (foldl shift_in 0 bs) = replicate (8 - length bs) False @ bs"
proof (induction bs rule: rev_induct)
  case Nil
  show ?case by (simp add: byte_bits_def eval_nat_numeral)
next
  case (snoc b bs)
  let ?y = "foldl shift_in 0 bs"
  have y: "byte_bits ?y = False # replicate (7 - length bs) False @ bs" and l: "length bs \<le> 7"
    using snoc by (simp_all add: Suc_diff_le flip: replicate_Suc)
  then have top: "\<not> bit ?y 7" by (simp add: byte_bits_def)
  have "byte_bits (shift_in ?y b) = tl (byte_bits ?y) @ [b]"
    using top unfolding lfsr_bit_bits by (simp add: byte_bits_def)
  then show ?case unfolding y using l by simp
qed

lemma shift_in_byte: "foldl shift_in x (byte_bits d) = (lfsr_bit ^^ 8) x XOR d"
proof -
  have l: "length (byte_bits d) = 8" by (simp add: byte_bits_def)
  then have "foldl shift_in 0 (byte_bits d) = d" by (intro byte_bits_inj) (simp add: shift_in_bits)
  then show ?thesis using shift_in_linear [of x "byte_bits d"] l by simp
qed

lemma gf2_mod_shift_byte:
  "gf2_mod CRC8_POLY (byte_bits x @ byte_bits d @ t) = gf2_mod CRC8_POLY (byte_bits ((lfsr_bit ^^ 8) x XOR d) @ t)"
  by (simp only: gf2_mod_shift shift_in_byte)

lemma gf2_mod_byte: "gf2_mod CRC8_POLY (byte_bits x) = byte_bits x"
  by (subst gf2_mod.simps) (simp add: CRC8_POLY_def byte_bits_def)

lemma byte_bits_zero: "byte_bits 0 = replicate 8 False"
  by (simp add: byte_bits_def eval_nat_numeral)

lemma lfsr_remainder:
  "gf2_mod CRC8_POLY (message_bits ((d XOR c) # data) @ replicate 8 False) = byte_bits (foldl lfsr_byte c (d # data))"
proof (induction data arbitrary: c d)
  case Nil
  have "gf2_mod CRC8_POLY (byte_bits (d XOR c) @ byte_bits 0 @ []) = byte_bits ((lfsr_bit ^^ 8) (d XOR c))"
    unfolding gf2_mod_shift_byte by (simp add: gf2_mod_byte)
  then show ?case by (simp add: message_bits_def byte_bits_zero lfsr_byte_def xor.commute)
next
  case (Cons e data)
  have "gf2_mod CRC8_POLY (message_bits ((d XOR c) # e # data) @ replicate 8 False)
      = gf2_mod CRC8_POLY (byte_bits (d XOR c) @ byte_bits e @ message_bits data @ replicate 8 False)"
    by (simp add: message_bits_def)
  also have "\<dots> = gf2_mod CRC8_POLY (message_bits ((e XOR lfsr_byte c d) # data) @ replicate 8 False)"
    unfolding gf2_mod_shift_byte by (simp add: message_bits_def lfsr_byte_def xor.commute)
  finally show ?case by (simp add: Cons.IH)
qed

subsection \<open>Properties\<close>

text \<open>
  C14: The CRC of \<open>common/crc8.c\<close> is the remainder of the message, read as a polynomial over the
  field of two elements and multiplied by \<open>x^8\<close>, divided by \<open>x^8 + x^2 + x + 1\<close>; a previous
  CRC is added to the first byte, and the CRC of no bytes is the previous one. Therefore it detects every
  change of a single byte, whatever the message around it and the previous CRC, it can be computed piecewise,
  and a message followed by its own CRC has the CRC 0.
\<close>

theorem cros_crc8_remainder:
  "byte_bits (cros_crc8 data) = gf2_mod CRC8_POLY (message_bits data @ replicate 8 False) \<and>
   byte_bits (cros_crc8_arg (d # data) p) = gf2_mod CRC8_POLY (message_bits ((d XOR p) # data) @ replicate 8 False) \<and>
   cros_crc8_arg [] p = p \<and>
   (cros_crc8_arg (xs @ a # ys) p = cros_crc8_arg (xs @ b # ys) p \<longleftrightarrow> a = b) \<and>
   cros_crc8_arg (xs @ ys) p = cros_crc8_arg ys (cros_crc8_arg xs p) \<and>
   cros_crc8_arg (xs @ [cros_crc8_arg xs p]) p = 0"
proof (intro conjI)
  show "byte_bits (cros_crc8 data) = gf2_mod CRC8_POLY (message_bits data @ replicate 8 False)"
  proof (cases data)
    case Nil
    then show ?thesis using gf2_mod_byte [of 0] by (simp add: cros_crc8_def cros_crc8_arg_lfsr message_bits_def byte_bits_zero)
  next
    case (Cons e es)
    then show ?thesis using lfsr_remainder [of e 0 es] by (simp add: cros_crc8_def cros_crc8_arg_lfsr)
  qed
  show "byte_bits (cros_crc8_arg (d # data) p) = gf2_mod CRC8_POLY (message_bits ((d XOR p) # data) @ replicate 8 False)"
    unfolding cros_crc8_arg_lfsr lfsr_remainder ..
qed (simp_all add: cros_crc8_arg_lfsr foldl_lfsr_inj lfsr_byte_inj lfsr_zero)

text \<open>The check value of the polynomial: the CRC of \<open>123456789\<close> is \<open>0xF4\<close>.\<close>

lemma lfsr_byte_unrolled:
  "lfsr_byte c d = lfsr_bit (lfsr_bit (lfsr_bit (lfsr_bit (lfsr_bit (lfsr_bit (lfsr_bit (lfsr_bit (c XOR d))))))))"
  by (simp add: lfsr_byte_def eval_nat_numeral)

lemma crc8_check_value: "cros_crc8 [0x31, 0x32, 0x33, 0x34, 0x35, 0x36, 0x37, 0x38, 0x39] = 0xF4"
  by (simp add: cros_crc8_def cros_crc8_arg_lfsr lfsr_byte_unrolled lfsr_bit_def)

end
