(* ===== verification/Base32.thy ===== *)
theory Base32
  imports Prelude
begin

section \<open>The base-32 code of common/base32.c\<close>

text \<open>
  Encoding of a bit string into the 32 symbols that are safe to type, with an optional CRC-5
  symbol after each group of symbols, and its decoding. Lengths and counters, \<open>int\<close> in the
  source and never negative, are natural numbers; a C string is the list of its characters
  before the terminator, and the destination of the encoder a buffer of characters. A load or
  store outside a buffer is \<open>None\<close>. The theorems give the round trip, the shape of the
  encoding, and two departures of the code from its documentation.
\<close>

subsection \<open>Tables and symbols\<close>

definition crc5_table1 :: "u8 list" where
  "crc5_table1 = [0x00, 0x0E, 0x1C, 0x12, 0x11, 0x1F, 0x0D, 0x03, 0x0B, 0x05, 0x17, 0x19,
     0x1A, 0x14, 0x06, 0x08]"

definition crc5_table0 :: "u8 list" where
  "crc5_table0 = [0x00, 0x16, 0x05, 0x13, 0x0A, 0x1C, 0x0F, 0x19, 0x14, 0x02, 0x11, 0x07,
     0x1E, 0x08, 0x1B, 0x0D]"

definition crc5_sym :: "u8 \<Rightarrow> u8 \<Rightarrow> u8" where
  "crc5_sym sy previous_crc =
     (let tmp = sy XOR previous_crc
      in crc5_table1 ! unat (tmp AND 0x0F) XOR crc5_table0 ! unat (drop_bit 4 tmp AND 0x0F))"

definition base32_map :: string where
  "base32_map = ''ABCDEFGHJKLMNPQRSTUVWXYZ23456789''"

text \<open>The index of a character in the map, \<open>None\<close> for the C result \<open>-1\<close>.\<close>

definition decode_sym :: "char \<Rightarrow> nat option" where
  "decode_sym c = List.find (\<lambda>i. c = base32_map ! i) [0..<32]"

definition isspace :: "char \<Rightarrow> bool" where
  "isspace c \<longleftrightarrow> c = CHR '' '' \<or> c = CHR 0x09 \<or> c = CHR 0x0D \<or> c = CHR 0x0A"

subsection \<open>Encoding\<close>

definition encode_sym :: "u8 list \<Rightarrow> nat \<Rightarrow> nat \<Rightarrow> u32 option" where
  "encode_sym src srclen_bits i =
     (let sidx = i div 8; bit_offs = i mod 8
      in do {
        b \<leftarrow> load src sidx;
        sy \<leftarrow> (if bit_offs \<le> 3 then Some (drop_bit (3 - bit_offs) (ucast b))
               else if i + 1 < srclen_bits then do {
                 b' \<leftarrow> load src (sidx + 1);
                 Some (push_bit (bit_offs - 3) (ucast b) OR drop_bit (11 - bit_offs) (ucast b'))
               } else Some (push_bit (bit_offs - 3) (ucast b)));
        let sy = sy AND 0x1f;
        Some (if srclen_bits - i < 5 then sy AND push_bit (5 + i - srclen_bits) 0x1f else sy)
      })"

function encode_loop ::
    "u8 list \<Rightarrow> nat \<Rightarrow> nat \<Rightarrow> nat \<Rightarrow> u8 \<Rightarrow> nat \<Rightarrow> nat \<Rightarrow> string \<Rightarrow> (nat \<times> string) option" where
  "encode_loop src srclen_bits add_crc_every i crc crc_count didx dest =
     (if i < srclen_bits then do {
        sy \<leftarrow> encode_sym src srclen_bits i;
        dest1 \<leftarrow> store dest didx (base32_map ! unat sy);
        if add_crc_every \<noteq> 0 then
          let crc1 = crc5_sym (ucast sy) crc
          in if crc_count + 1 = add_crc_every then do {
               dest2 \<leftarrow> store dest1 (didx + 1) (base32_map ! unat crc1);
               encode_loop src srclen_bits add_crc_every (i + 5) 0 0 (didx + 2) dest2
             } else encode_loop src srclen_bits add_crc_every (i + 5) crc1 (crc_count + 1) (didx + 1) dest1
        else encode_loop src srclen_bits add_crc_every (i + 5) crc crc_count (didx + 1) dest1
      } else Some (didx, dest))"
  by pat_completeness auto
termination by (relation "measure (\<lambda>(src, n, e, i, _). n - i)") auto

declare encode_loop.simps [simp del]

definition base32_encode ::
    "string \<Rightarrow> nat \<Rightarrow> u8 list \<Rightarrow> nat \<Rightarrow> nat \<Rightarrow> (string \<times> ec_error_list) option" where
  "base32_encode dest destlen_chars src srclen_bits add_crc_every = do {
     dest0 \<leftarrow> store dest 0 (CHR 0x00);
     let syms = (srclen_bits + 4) div 5;
     if add_crc_every \<noteq> 0 \<and> syms mod add_crc_every \<noteq> 0 then Some (dest0, EC_ERROR_INVAL)
     else
       let destlen_needed = (if add_crc_every \<noteq> 0 then syms + syms div add_crc_every else syms) + 1
       in if destlen_chars < destlen_needed then Some (dest0, EC_ERROR_INVAL)
          else do {
            (didx, dest1) \<leftarrow> encode_loop src srclen_bits add_crc_every 0 0 0 0 dest0;
            dest2 \<leftarrow> store dest1 didx (CHR 0x00);
            Some (dest2, EC_SUCCESS)
          } }"

subsection \<open>Decoding\<close>

text \<open>Storing the bits of one symbol: the new number of output bits and the new destination.\<close>

definition decode_put :: "nat \<Rightarrow> nat \<Rightarrow> nat \<Rightarrow> u8 list \<Rightarrow> (nat \<times> u8 list) option" where
  "decode_put destlen_bits sym0 out_bits dest =
     (let sbits = min 5 (destlen_bits - out_bits);
          sy = (if sbits < 5 then drop_bit (5 - sbits) (of_nat sym0) else of_nat sym0) :: u32;
          dbits = 8 - out_bits mod 8;
          b = min dbits sbits
      in do {
        dest1 \<leftarrow> (if dbits = 8 then store dest (out_bits div 8) 0 else Some dest);
        old \<leftarrow> load dest1 (out_bits div 8);
        dest2 \<leftarrow> store dest1 (out_bits div 8)
                   (ucast (ucast old OR drop_bit (sbits - b) (push_bit (dbits - b) sy)));
        let out_bits = out_bits + b;
        let sbits = sbits - b;
        if 0 < sbits then do {
          dest3 \<leftarrow> store dest2 (out_bits div 8) (ucast (push_bit (8 - sbits) sy));
          Some (out_bits + sbits, dest3)
        } else Some (out_bits, dest2)
      })"

definition decode_finish :: "nat \<Rightarrow> nat \<Rightarrow> nat \<Rightarrow> int" where
  "decode_finish crc_after_every crc_count out_bits =
     (if crc_after_every \<noteq> 0 \<and> crc_count \<noteq> 0 then -1 else int out_bits)"

fun decode_loop ::
    "nat \<Rightarrow> nat \<Rightarrow> string \<Rightarrow> u8 \<Rightarrow> nat \<Rightarrow> nat \<Rightarrow> u8 list \<Rightarrow> (u8 list \<times> int) option" where
  "decode_loop destlen_bits crc_after_every [] crc crc_count out_bits dest =
     Some (dest, decode_finish crc_after_every crc_count out_bits)"
| "decode_loop destlen_bits crc_after_every (c # src) crc crc_count out_bits dest =
     (if isspace c \<or> c = CHR ''-'' then
        decode_loop destlen_bits crc_after_every src crc crc_count out_bits dest
      else case decode_sym c of
        None \<Rightarrow> Some (dest, -1)
      | Some sy \<Rightarrow>
          if crc_after_every \<noteq> 0 \<and> crc_count = crc_after_every then
            if unat crc \<noteq> sy then Some (dest, -1)
            else decode_loop destlen_bits crc_after_every src 0 0 out_bits dest
          else
            let crc1 = (if crc_after_every \<noteq> 0 then crc5_sym (of_nat sy) crc else crc);
                crc_count1 = (if crc_after_every \<noteq> 0 then crc_count + 1 else crc_count)
            in if destlen_bits \<le> out_bits then
                 Some (dest, decode_finish crc_after_every crc_count1 out_bits)
               else do {
                 (out1, dest1) \<leftarrow> decode_put destlen_bits sy out_bits dest;
                 decode_loop destlen_bits crc_after_every src crc1 crc_count1 out1 dest1
               })"

definition base32_decode :: "u8 list \<Rightarrow> nat \<Rightarrow> string \<Rightarrow> nat \<Rightarrow> (u8 list \<times> int) option" where
  "base32_decode dest destlen_bits src crc_after_every =
     decode_loop destlen_bits crc_after_every src 0 0 0 dest"

subsection \<open>Bits of a buffer and of a symbol\<close>

definition buf_bit :: "u8 list \<Rightarrow> nat \<Rightarrow> bool" where
  "buf_bit d p = bit (d ! (p div 8)) (7 - p mod 8)"

definition sym_of :: "u8 list \<Rightarrow> nat \<Rightarrow> nat \<Rightarrow> nat" where
  "sym_of src n i = horner_sum of_bool 2 (map (\<lambda>k. i + (4 - k) < n \<and> buf_bit src (i + (4 - k))) [0..<5])"

lemma bit_sym_of: "bit (sym_of src n i) k \<longleftrightarrow> k < 5 \<and> i + (4 - k) < n \<and> buf_bit src (i + (4 - k))"
  unfolding sym_of_def by (subst bit_horner_sum_bit_iff) auto

lemma sym_of_less: "sym_of src n i < 32"
proof -
  have "take_bit 5 (sym_of src n i) = sym_of src n i"
    by (rule bit_eqI) (auto simp: bit_take_bit_iff bit_sym_of)
  then show ?thesis using take_bit_nat_less_exp [of 5 "sym_of src n i"] by simp
qed


lemma buf_bit_at: "r < 8 \<Longrightarrow> buf_bit d (8 * k + r) = bit (d ! k) (7 - r)"
  by (simp add: buf_bit_def)

lemma bit_31: "bit (31 :: int) k \<longleftrightarrow> k < 5"
proof -
  have "(31 :: int) = mask 5" by (simp add: mask_eq_exp_minus_1)
  then show ?thesis by (simp only: bit_mask_iff) simp
qed

lemma bit_1f: "bit (0x1f :: 'a::len word) k \<longleftrightarrow> k < LENGTH('a) \<and> k < 5"
  by (simp add: bit_simps bit_31)

text \<open>The encoder reads at most the byte of the symbol's first bit and the one after it.\<close>

definition sym_readable :: "u8 list \<Rightarrow> nat \<Rightarrow> nat \<Rightarrow> bool" where
  "sym_readable src n i \<longleftrightarrow> i div 8 < length src \<and>
     (3 < i mod 8 \<and> i + 1 < n \<longrightarrow> i div 8 + 1 < length src)"

lemma encode_sym_None: "i < n \<Longrightarrow> encode_sym src n i = None \<longleftrightarrow> \<not> sym_readable src n i"
  by (auto simp: encode_sym_def sym_readable_def load_def Let_def)

lemma encode_sym_bits:
  assumes "i < n" and "sym_readable src n i"
  shows "encode_sym src n i = Some (of_nat (sym_of src n i))"
proof -
  define m k where "m = i mod 8" and "k = i div 8"
  have i: "i = 8 * k + m" and m: "m < 8" by (simp_all add: m_def k_def)
  have k: "k < length src" using assms(2) by (simp add: sym_readable_def k_def)
  obtain w where w: "encode_sym src n i = Some w"
    using encode_sym_None [OF assms(1)] assms(2) by auto
  have "bit w t = bit (of_nat (sym_of src n i) :: u32) t" if t: "t < 32" for t
  proof (cases "t < 5")
    case False
    have "\<exists>y z. w = y AND 0x1f \<or> w = (y AND 0x1f) AND z"
      using w by (auto simp: encode_sym_def Let_def split: bind_splits if_splits)
    then show ?thesis using False by (auto simp: bit_simps bit_31 bit_sym_of)
  next
    case True
    have low: "i mod 8 = m" "i div 8 = k" by (simp_all add: m_def k_def)
    have pad: "bit (if n - i < 5 then (y AND 0x1f) AND push_bit (5 + i - n) 0x1f else y AND 0x1f :: u32) t =
        (bit (y AND 0x1f) t \<and> i + (4 - t) < n)" for y
      using True assms(1) by (auto simp: bit_simps bit_31)
    have "bit (of_nat (sym_of src n i) :: u32) t = (i + (4 - t) < n \<and> buf_bit src (i + (4 - t)))"
      using True by (simp add: bit_simps bit_sym_of)
    moreover have "bit w t = (i + (4 - t) < n \<and> buf_bit src (i + (4 - t)))"
    proof (cases "m \<le> 3")
      case True
      then have "bit w t = (bit (drop_bit (3 - m) (ucast (src ! k)) AND 0x1f :: u32) t \<and> i + (4 - t) < n)"
        using w k by (simp add: encode_sym_def low Let_def buf_simps flip: pad)
      also have "\<dots> = (bit (src ! k) (7 - (m + (4 - t))) \<and> i + (4 - t) < n)"
      proof -
        have "3 - m + t = 7 - (m + (4 - t))" using \<open>t < 5\<close> True by simp
        then show ?thesis using \<open>t < 5\<close> t True by (auto simp: bit_simps bit_31)
      qed
      also have "\<dots> = (i + (4 - t) < n \<and> buf_bit src (i + (4 - t)))"
        using buf_bit_at [of "m + (4 - t)" src k] True i \<open>t < 5\<close> by (auto simp: add.assoc)
      finally show ?thesis .
    next
      case False
      define x where "x = (if i + 1 < n then push_bit (m - 3) (ucast (src ! k)) OR
          drop_bit (11 - m) (ucast (src ! (k + 1))) else push_bit (m - 3) (ucast (src ! k)) :: u32)"
      have "w = (if n - i < 5 then (x AND 0x1f) AND push_bit (5 + i - n) 0x1f else x AND 0x1f)"
      proof (cases "i + 1 < n")
        case True
        then have "Suc k < length src" using assms(2) False low by (simp add: sym_readable_def)
        then show ?thesis using w k True False
          by (simp only: encode_sym_def low Let_def x_def load_in if_True if_False bind.simps option.inject) (simp split del: if_split)?
      next
        case f: False
        then show ?thesis using w k False
          by (simp only: encode_sym_def low Let_def x_def load_in if_True if_False bind.simps option.inject) (simp split del: if_split)?
      qed
      then have "bit w t = (bit (x AND 0x1f) t \<and> i + (4 - t) < n)" by (simp only: pad)
      also have "bit (x AND 0x1f) t = bit x t" using \<open>t < 5\<close> by (simp add: bit_simps bit_31)
      also have "(bit x t \<and> i + (4 - t) < n) = (i + (4 - t) < n \<and> buf_bit src (i + (4 - t)))"
      proof (cases "m - 3 \<le> t")
        case True
        then have "m + (4 - t) < 8" "t - (m - 3) = 7 - (m + (4 - t))" "8 \<le> 11 - m + t"
          using False m \<open>t < 5\<close> by simp_all
        moreover have "7 - (m + (4 - t)) < 32" by simp
        ultimately show ?thesis using buf_bit_at [of "m + (4 - t)" src k] True t i
          by (auto simp: x_def bit_simps add.assoc not_bit_word)
      next
        case lt: False
        then have "m + (4 - t) - 8 < 8" "8 * Suc k + (m + (4 - t) - 8) = i + (4 - t)"
          "11 - m + t = 7 - (m + (4 - t) - 8)" "1 \<le> 4 - t"
          using False m i \<open>t < 5\<close> by simp_all
        then show ?thesis using buf_bit_at [of "m + (4 - t) - 8" src "Suc k"] lt t
          by (auto simp: x_def bit_simps)
      qed
      finally show ?thesis .
    qed
    ultimately show ?thesis by simp
  qed
  then have "w = of_nat (sym_of src n i)" by (intro bit_word_eqI) simp
  then show ?thesis using w by simp
qed


subsection \<open>The shape of an encoding\<close>

text \<open>The specification: the symbols of a bit string, and a symbol list written out with a
  CRC symbol after each full group.\<close>

definition data_syms :: "u8 list \<Rightarrow> nat \<Rightarrow> nat \<Rightarrow> nat list" where
  "data_syms src n i = map (\<lambda>j. sym_of src n (i + 5 * j)) [0..<(n - i + 4) div 5]"

fun emit_syms :: "nat \<Rightarrow> u8 \<Rightarrow> nat \<Rightarrow> nat list \<Rightarrow> string" where
  "emit_syms every crc cnt [] = []"
| "emit_syms every crc cnt (s # ss) =
     base32_map ! s #
     (if every = 0 then emit_syms every crc cnt ss
      else let crc1 = crc5_sym (of_nat s) crc
           in if cnt + 1 = every then base32_map ! unat crc1 # emit_syms every 0 0 ss
              else emit_syms every crc1 (cnt + 1) ss)"

lemma data_syms_step:
  assumes "i < n"
  shows "data_syms src n i = sym_of src n i # data_syms src n (i + 5)"
proof -
  from assms obtain d where n: "n = i + Suc d" using less_iff_Suc_add by auto
  have "(n - i + 4) div 5 = Suc (d div 5)" by (simp add: n)
  also have "d div 5 = (n - (i + 5) + 4) div 5" by (cases "d \<le> 4") (simp_all add: n)
  finally have k: "(n - i + 4) div 5 = Suc ((n - (i + 5) + 4) div 5)" .
  show ?thesis
    unfolding data_syms_def k map_upt_Suc by (simp add: add.assoc)
qed

lemma data_syms_end: "n \<le> i \<Longrightarrow> data_syms src n i = []"
  by (simp add: data_syms_def)

lemma store_append: "store (xs @ y # ys) (length xs) x = Some (xs @ x # ys)"
  by (simp add: store_def list_update_append)

lemma encode_loop_emit:
  assumes "\<And>k. i \<le> k \<Longrightarrow> k < n \<Longrightarrow> k mod 5 = i mod 5 \<Longrightarrow> sym_readable src n k"
    and "length (emit_syms every crc cnt (data_syms src n i)) \<le> length rest"
    and "didx = length out"
  shows "encode_loop src n every i crc cnt didx (out @ rest) =
    (let e = emit_syms every crc cnt (data_syms src n i)
     in Some (didx + length e, out @ e @ drop (length e) rest))"
  using assms
proof (induction "n - i" arbitrary: i crc cnt didx out rest rule: less_induct)
  case less
  show ?case
  proof (cases "i < n")
    case False
    then show ?thesis by (subst encode_loop.simps) (simp add: data_syms_end)
  next
    case True
    have "sym_readable src n i" using less(2) True by blast
    then have enc: "encode_sym src n i = Some (of_nat (sym_of src n i))"
      using True by (intro encode_sym_bits)
    have lt: "sym_of src n i < 2 ^ 32" using sym_of_less [of src n i] by simp
    let ?s = "sym_of src n i"
    have u: "unat (of_nat ?s :: u32) = ?s" using lt by (simp add: unat_of_nat)
    have uc: "ucast (of_nat ?s :: u32) = (of_nat ?s :: u8)"
      by (rule bit_word_eqI) (simp add: bit_simps)
    have d: "data_syms src n i = ?s # data_syms src n (i + 5)" using True by (rule data_syms_step)
    have IH: "encode_loop src n every (i + 5) crc' cnt' didx' (out' @ rest') =
        (let e = emit_syms every crc' cnt' (data_syms src n (i + 5))
         in Some (didx' + length e, out' @ e @ drop (length e) rest'))"
      if "length (emit_syms every crc' cnt' (data_syms src n (i + 5))) \<le> length rest'" "didx' = length out'"
      for crc' cnt' didx' out' rest'
      using less(1) [of "i + 5"] less(2) that True by simp
    obtain y r1 where rest: "rest = y # r1" using less(3) d by (cases rest) auto
    have st: "store (out @ y # r) (length out) c = Some (out @ c # r)" for c r
      by (rule store_append)
    have st2: "store (out @ c # z # r) (Suc (length out)) x = Some (out @ c # x # r)" for c x z r
      using store_append [of "out @ [c]" z r x] by simp
    have IH1: "encode_loop src n every (i + 5) crc' cnt' (Suc (length out)) (out @ c # r1) =
        (let e = emit_syms every crc' cnt' (data_syms src n (i + 5))
         in Some (Suc (length out) + length e, out @ c # e @ drop (length e) r1))"
      if "length (emit_syms every crc' cnt' (data_syms src n (i + 5))) \<le> length r1" for crc' cnt' c
      using IH [OF that, of "Suc (length out)" "out @ [c]"] by (simp add: Let_def)
    have IH2: "encode_loop src n every (i + 5) 0 0 (Suc (Suc (length out))) (out @ c # x # r2) =
        (let e = emit_syms every 0 0 (data_syms src n (i + 5))
         in Some (Suc (Suc (length out)) + length e, out @ c # x # e @ drop (length e) r2))"
      if "length (emit_syms every 0 0 (data_syms src n (i + 5))) \<le> length r2" for c x r2
      using IH [OF that, of "Suc (Suc (length out))" "out @ [c, x]"] by (simp add: Let_def)
    show ?thesis
    proof (cases "every \<noteq> 0 \<and> cnt + 1 = every")
      case True
      then obtain z r2 where "r1 = z # r2" using less(3) d rest by (cases r1) (auto simp: Let_def)
      then show ?thesis using True \<open>i < n\<close> less(3,4) rest d
        by (subst encode_loop.simps) (simp add: enc u uc st st2 IH2 Let_def)
    next
      case False
      then show ?thesis using \<open>i < n\<close> less(3,4) rest d IH1
        by (subst encode_loop.simps) (cases "every = 0"; simp add: enc u uc st Let_def)
    qed
  qed
qed


subsection \<open>Storing a decoded symbol\<close>

text \<open>The bits of the byte in progress that have not been written are zero.\<close>

definition clean_from :: "u8 list \<Rightarrow> nat \<Rightarrow> bool" where
  "clean_from d out \<longleftrightarrow> (\<forall>p. out \<le> p \<and> p div 8 = out div 8 \<and> out mod 8 \<noteq> 0 \<longrightarrow> \<not> buf_bit d p)"

lemma buf_bit_update:
  "k < length d \<Longrightarrow> buf_bit (d[k := v]) p = (if p div 8 = k then bit v (7 - p mod 8) else buf_bit d p)"
  by (simp add: buf_bit_def)

lemma decode_put_bits:
  assumes out: "out < n" and len: "n \<le> 8 * length d" and s: "s < 32" and clean: "clean_from d out"
  defines "k \<equiv> min 5 (n - out)"
  obtains d' where "decode_put n s out d = Some (out + k, d')" and "length d' = length d"
    and "\<And>p. p < out \<Longrightarrow> buf_bit d' p = buf_bit d p"
    and "\<And>j. j < k \<Longrightarrow> buf_bit d' (out + j) = bit s (4 - j)"
    and "clean_from d' (out + k)"
proof -
  define m B where "m = out mod 8" and "B = out div 8"
  have o: "out = 8 * B + m" and m: "m < 8" by (simp_all add: m_def B_def)
  have B: "B < length d" using out len o by simp
  define b where "b = min (8 - m) k"
  define v :: u32 where "v = (if k < 5 then drop_bit (5 - k) (of_nat s) else of_nat s)"
  have k: "0 < k" "k \<le> 5" using out by (simp_all add: k_def)
  have s5: "t < 5" if "bit s t" for t
  proof -
    have "take_bit 5 s = s" using s by (simp add: take_bit_eq_mod)
    then show ?thesis using that by (metis bit_take_bit_iff)
  qed
  have vb: "bit v t \<longleftrightarrow> t < k \<and> bit s (t + (5 - k))" for t
    using s5 [of "t + (5 - k)"] k by (auto simp: v_def bit_simps ac_simps)
  define d1 where "d1 = (if m = 0 then d[B := 0] else d)"
  define w1 :: u8 where "w1 = ucast (ucast (d1 ! B) OR drop_bit (k - b) (push_bit (8 - m - b) v))"
  define d2 where "d2 = d1[B := w1]"
  define w2 :: u8 where "w2 = ucast (push_bit (8 - (k - b)) v)"
  define d3 where "d3 = (if b < k then d2[Suc B := w2] else d2)"
  have outk: "out + k \<le> n" using out by (simp add: k_def)
  have SB: "Suc B < length d" if "b < k"
    using that outk len o m by (simp add: b_def min_def split: if_splits)
  have len3: "length d3 = length d" by (simp add: d3_def d2_def d1_def)
  have next_byte: "(out + b) div 8 = Suc B" if "b < k"
    using that o m by (simp add: b_def min_def split: if_splits)
  have "(8 - m = 8) = (m = 0)" using m by auto
  then have put: "decode_put n s out d = Some (out + k, d3)"
    using B SB next_byte k
    by (simp add: decode_put_def Let_def buf_simps d3_def d2_def d1_def w1_def w2_def b_def
        flip: m_def B_def k_def v_def)
  have old: "bit (d1 ! B) t \<longleftrightarrow> 8 - m \<le> t \<and> bit (d ! B) t" if t: "t < 8" for t
  proof (cases "m = 0 \<or> 8 - m \<le> t")
    case True
    then show ?thesis using B t by (auto simp: d1_def)
  next
    case False
    then have "out \<le> 8 * B + (7 - t)" using o t by auto
    moreover have "(8 * B + (7 - t)) div 8 = out div 8" using t by (simp add: B_def)
    ultimately have "\<not> buf_bit d (8 * B + (7 - t))"
      using clean False by (simp add: clean_from_def m_def)
    moreover have "buf_bit d (8 * B + (7 - t)) = bit (d ! B) (7 - (7 - t))"
      by (rule buf_bit_at) simp
    ultimately show ?thesis using False t by (simp add: d1_def)
  qed
  have w1: "bit w1 (7 - r) = (if r < m then bit (d ! B) (7 - r) else r < m + k \<and> bit s (4 - (r - m)))"
    if r: "r < 8" for r
  proof -
    have "bit w1 (7 - r) = (bit (d1 ! B) (7 - r) \<or> 8 - m - b \<le> 7 - r + (k - b) \<and>
        bit v (7 - r + (k - b) - (8 - m - b)))"
      using k r by (auto simp: w1_def bit_simps add.commute)
    also have "(8 - m - b \<le> 7 - r + (k - b) \<and> bit v (7 - r + (k - b) - (8 - m - b))) =
        (m \<le> r \<and> r < m + k \<and> bit s (4 - (r - m)))"
    proof (cases "m \<le> r \<and> r < m + k")
      case True
      then have "7 - r + (k - b) - (8 - m - b) + (5 - k) = 4 - (r - m)"
        "7 - r + (k - b) - (8 - m - b) < k" "8 - m - b \<le> 7 - r + (k - b)"
        using r m k by (auto simp: b_def min_def)
      then show ?thesis using True by (simp add: vb)
    next
      case False
      then have "\<not> (8 - m - b \<le> 7 - r + (k - b) \<and> 7 - r + (k - b) - (8 - m - b) < k)"
        using r m k by (auto simp: b_def min_def split: if_splits)
      then show ?thesis using False by (auto simp: vb)
    qed
    finally show ?thesis using old [of "7 - r"] r m by auto
  qed
  have w2: "bit w2 (7 - r) \<longleftrightarrow> 8 + r < m + k \<and> bit s (4 - (8 + r - m))" if r: "r < 8" "b < k" for r
  proof -
    have b8: "b = 8 - m" using r(2) by (simp add: b_def min_def split: if_splits)
    have "bit w2 (7 - r) = (8 - (k - b) \<le> 7 - r \<and> bit v (7 - r - (8 - (k - b))))"
      using r by (auto simp: w2_def bit_simps)
    also have "\<dots> = (8 + r < m + k \<and> bit s (4 - (8 + r - m)))"
    proof (cases "8 + r < m + k")
      case True
      then have "7 - r - (8 - (k - b)) + (5 - k) = 4 - (8 + r - m)" "8 - (k - b) \<le> 7 - r"
        "7 - r - (8 - (k - b)) < k"
        using m k b8 r by simp_all
      then show ?thesis using True by (simp only: vb) simp
    next
      case False
      then have "\<not> 8 - (k - b) \<le> 7 - r" using m k b8 r by simp
      then show ?thesis using False by simp
    qed
    finally show ?thesis .
  qed
  have all: "buf_bit d3 (8 * B + r) = (if r < m then buf_bit d (8 * B + r) else r < m + k \<and> bit s (4 - (r - m)))"
    if r: "r < 16" "8 \<le> r \<longrightarrow> b < k" for r
  proof (cases "r < 8")
    case True
    then have "d3 ! B = w1" using B by (simp add: d3_def d2_def d1_def)
    then show ?thesis using True w1 [of r] buf_bit_at [of r _ B] by simp
  next
    case False
    then have r8: "r - 8 < 8" "8 * B + r = 8 * Suc B + (r - 8)" and bk: "b < k" using r by auto
    have "d3 ! Suc B = w2" using SB bk by (simp add: d3_def d2_def d1_def)
    then have "buf_bit d3 (8 * B + r) = bit w2 (7 - (r - 8))"
      unfolding r8(2) by (simp only: buf_bit_at [OF r8(1)])
    also have "\<dots> \<longleftrightarrow> 8 + (r - 8) < m + k \<and> bit s (4 - (8 + (r - 8) - m))"
      by (rule w2 [OF r8(1) bk])
    also have "8 + (r - 8) = r" using False by simp
    finally show ?thesis using False m by auto
  qed
  have low: "buf_bit d3 p = buf_bit d p" if "p < 8 * B" for p
  proof -
    have "p div 8 < B" using that by (simp add: div_less_iff_less_mult mult.commute)
    then show ?thesis by (simp add: buf_bit_def d3_def d2_def d1_def)
  qed
  show ?thesis
  proof
    show "decode_put n s out d = Some (out + k, d3)" by (rule put)
    show "length d3 = length d" by (rule len3)
    show "buf_bit d3 p = buf_bit d p" if "p < out" for p
    proof (cases "p < 8 * B")
      case False
      define r where "r = p - 8 * B"
      have "p = 8 * B + r" "r < m" using False that o by (simp_all add: r_def)
      then show ?thesis using all [of r] m by simp
    qed (rule low)
    show "buf_bit d3 (out + j) = bit s (4 - j)" if j: "j < k" for j
    proof -
      have "8 \<le> m + j \<longrightarrow> b < k" "m + j < 16" using j m k by (auto simp: b_def)
      then show ?thesis using all [of "m + j"] j o by (simp add: add.assoc)
    qed
    show "clean_from d3 (out + k)"
      unfolding clean_from_def
    proof (intro allI impI, elim conjE)
      fix p assume p: "out + k \<le> p" "p div 8 = (out + k) div 8" "(out + k) mod 8 \<noteq> 0"
      then have pd: "p div 8 = (8 * B + (m + k)) div 8" "8 * B + (m + k) \<le> p" by (simp_all add: o add.assoc)
      define r where "r = p - 8 * B"
      have pr: "p = 8 * B + r" "m + k \<le> r" "r div 8 = (m + k) div 8"
        using pd by (simp_all add: r_def)
      have mk: "m + k < 16" using m k by simp
      have "(m + k) div 8 < 2" using mk by (simp add: div_less_iff_less_mult)
      then have "r div 8 < 2" using pr(3) by simp
      then have "r < 16" by (simp add: div_less_iff_less_mult)
      moreover have "8 \<le> r \<longrightarrow> b < k"
      proof
        assume "8 \<le> r"
        then have "1 \<le> r div 8" by simp
        then have "8 \<le> m + k" using pr(3) by simp
        moreover have "m + k \<noteq> 8"
        proof
          assume "m + k = 8"
          then have "out + k = 8 * B + 8" using o by simp
          then show False using p(3) by simp
        qed
        ultimately show "b < k" using m by (simp add: b_def)
      qed
      ultimately show "\<not> buf_bit d3 p" using all [of r] pr by simp
    qed
  qed
qed


subsection \<open>Decoding what was encoded\<close>

lemma base32_map_symbols:
  assumes "s < 32"
  shows "decode_sym (base32_map ! s) = Some s" and "\<not> isspace (base32_map ! s)"
    and "base32_map ! s \<noteq> CHR ''-''" and "base32_map ! s \<noteq> CHR 0x00"
proof -
  have "\<forall>s \<in> set [0..<32]. decode_sym (base32_map ! s) = Some s \<and> \<not> isspace (base32_map ! s) \<and>
      base32_map ! s \<noteq> CHR ''-'' \<and> base32_map ! s \<noteq> CHR 0x00"
    by code_simp
  then show "decode_sym (base32_map ! s) = Some s" and "\<not> isspace (base32_map ! s)"
    and "base32_map ! s \<noteq> CHR ''-''" and "base32_map ! s \<noteq> CHR 0x00"
    using assms by auto
qed

lemma crc5_tables:
  "i < 16 \<Longrightarrow> crc5_table1 ! i AND 0x1f = crc5_table1 ! i"
  "i < 16 \<Longrightarrow> crc5_table0 ! i AND 0x1f = crc5_table0 ! i"
proof -
  have "\<forall>i \<in> set [0..<16]. crc5_table1 ! i AND 0x1f = crc5_table1 ! i \<and>
      crc5_table0 ! i AND 0x1f = crc5_table0 ! i"
    by code_simp
  then show "i < 16 \<Longrightarrow> crc5_table1 ! i AND 0x1f = crc5_table1 ! i"
    and "i < 16 \<Longrightarrow> crc5_table0 ! i AND 0x1f = crc5_table0 ! i" by auto
qed

lemma crc5_sym_less: "unat (crc5_sym s c) < 32"
proof -
  have f: "unat (w AND 0xF) < 16" for w :: u8
    using unat_and_mask [of w 4] by (simp add: mask_eq_exp_minus_1)
  have "(crc5_table1 ! unat (t AND 0xF) XOR crc5_table0 ! unat (drop_bit 4 t AND 0xF)) AND 0x1f =
      crc5_table1 ! unat (t AND 0xF) XOR crc5_table0 ! unat (drop_bit 4 t AND 0xF)" for t :: u8
  proof -
    have "crc5_table1 ! unat (t AND 0xF) AND 0x1f = crc5_table1 ! unat (t AND 0xF)"
      by (rule crc5_tables(1) [OF f])
    moreover have "crc5_table0 ! unat (drop_bit 4 t AND 0xF) AND 0x1f =
        crc5_table0 ! unat (drop_bit 4 t AND 0xF)"
      by (rule crc5_tables(2) [OF f])
    ultimately show ?thesis by (simp only: bit.conj_xor_distrib2)
  qed
  then have "crc5_sym s c AND 0x1f = crc5_sym s c"
    unfolding crc5_sym_def Let_def by blast
  then show ?thesis
    using unat_and_mask [of "crc5_sym s c" 5] by (simp add: mask_eq_exp_minus_1)
qed

lemma decode_loop_sym:
  assumes "s < 32" and "every = 0 \<or> cnt < every"
  shows "decode_loop n every (base32_map ! s # src) crc cnt out d =
    (let crc1 = (if every \<noteq> 0 then crc5_sym (of_nat s) crc else crc);
         cnt1 = (if every \<noteq> 0 then cnt + 1 else cnt)
     in if n \<le> out then Some (d, decode_finish every cnt1 out)
        else do { (out1, d1) \<leftarrow> decode_put n s out d; decode_loop n every src crc1 cnt1 out1 d1 })"
  using assms base32_map_symbols [OF assms(1)] by (auto simp: Let_def)

lemma decode_loop_crc:
  "every \<noteq> 0 \<Longrightarrow> decode_loop n every (base32_map ! unat (crc5_sym s c) # src) (crc5_sym s c) every out d =
     decode_loop n every src 0 0 out d"
  using base32_map_symbols [OF crc5_sym_less [of s c]] by simp

text \<open>One data symbol with the check symbol that may follow it.\<close>

lemma decode_emit_step:
  assumes s: "s < 32" and cnt: "every = 0 \<or> cnt < every" and "out < n" and "n \<le> 8 * length d"
    and "clean_from d out"
  obtains d' crc' cnt' where "length d' = length d" and "every = 0 \<or> cnt' < every"
    and "every \<noteq> 0 \<Longrightarrow> cnt' = (cnt + 1) mod every"
    and "decode_loop n every (emit_syms every crc cnt (s # ss)) crc cnt out d =
      decode_loop n every (emit_syms every crc' cnt' ss) crc' cnt' (out + min 5 (n - out)) d'"
    and "\<And>p. p < out \<Longrightarrow> buf_bit d' p = buf_bit d p"
    and "\<And>j. j < min 5 (n - out) \<Longrightarrow> buf_bit d' (out + j) = bit s (4 - j)"
    and "clean_from d' (out + min 5 (n - out))"
proof -
  obtain d' where d': "decode_put n s out d = Some (out + min 5 (n - out), d')" "length d' = length d"
    "\<And>p. p < out \<Longrightarrow> buf_bit d' p = buf_bit d p"
    "\<And>j. j < min 5 (n - out) \<Longrightarrow> buf_bit d' (out + j) = bit s (4 - j)"
    "clean_from d' (out + min 5 (n - out))"
    using decode_put_bits [OF assms(3,4) s assms(5)] by metis
  define crc' where "crc' = (if every = 0 then crc else if cnt + 1 = every then 0
    else crc5_sym (of_nat s) crc)"
  define cnt' where "cnt' = (if every = 0 then cnt else if cnt + 1 = every then 0 else cnt + 1)"
  have c: "cnt + 1 = every \<Longrightarrow> Suc cnt = every" by simp
  show ?thesis
  proof (rule that [of d' cnt' crc'])
    show "decode_loop n every (emit_syms every crc cnt (s # ss)) crc cnt out d =
      decode_loop n every (emit_syms every crc' cnt' ss) crc' cnt' (out + min 5 (n - out)) d'"
      using d'(1) assms(3) decode_loop_crc [of every n "of_nat s" crc] c
      unfolding emit_syms.simps
      by (subst decode_loop_sym [OF s cnt]) (auto simp: Let_def crc'_def cnt'_def
          simp del: decode_loop.simps)
  qed (use d' cnt in \<open>auto simp: cnt'_def\<close>)
qed


lemma decode_emit:
  assumes "every = 0 \<or> cnt < every" and "every = 0 \<or> (cnt + length (data_syms src n i)) mod every = 0"
    and "n \<le> 8 * length d" and "clean_from d (min i n)"
  shows "\<exists>d'. decode_loop n every (emit_syms every crc cnt (data_syms src n i)) crc cnt (min i n) d =
      Some (d', int n) \<and> length d' = length d \<and>
    (\<forall>p < n. buf_bit d' p = (if p < i then buf_bit d p else buf_bit src p))"
  using assms
proof (induction "n - i" arbitrary: i crc cnt d rule: less_induct)
  case less
  show ?case
  proof (cases "i < n")
    case False
    then show ?thesis using less.prems(1,2)
      by (auto simp: data_syms_end decode_finish_def)
  next
    case True
    let ?s = "sym_of src n i"
    have ds: "data_syms src n i = ?s # data_syms src n (i + 5)" using True by (rule data_syms_step)
    have out: "min i n = i" "i + min 5 (n - i) = min (i + 5) n" using True by simp_all
    have cl: "clean_from d i" using less.prems(4) out by simp
    obtain d1 crc1 cnt1 where 1: "length d1 = length d" "every = 0 \<or> cnt1 < every"
      "every \<noteq> 0 \<Longrightarrow> cnt1 = (cnt + 1) mod every"
      "decode_loop n every (emit_syms every crc cnt (?s # data_syms src n (i + 5))) crc cnt i d =
        decode_loop n every (emit_syms every crc1 cnt1 (data_syms src n (i + 5))) crc1 cnt1 (min (i + 5) n) d1"
      "\<And>p. p < i \<Longrightarrow> buf_bit d1 p = buf_bit d p"
      "\<And>j. j < min 5 (n - i) \<Longrightarrow> buf_bit d1 (i + j) = bit ?s (4 - j)"
      "clean_from d1 (min (i + 5) n)"
      using decode_emit_step [OF sym_of_less less.prems(1) True less.prems(3) cl, unfolded out] by metis
    have md: "every = 0 \<or> (cnt1 + length (data_syms src n (i + 5))) mod every = 0"
    proof (cases "every = 0")
      case False
      then have "(cnt + length (data_syms src n i)) mod every = 0" using less.prems(2) by simp
      moreover have "(cnt1 + length (data_syms src n (i + 5))) mod every =
          (cnt + 1 + length (data_syms src n (i + 5))) mod every"
        using 1(3) [OF False] by (simp add: mod_add_left_eq)
      ultimately show ?thesis using ds by simp
    qed simp
    have "\<exists>d'. decode_loop n every (emit_syms every crc1 cnt1 (data_syms src n (i + 5))) crc1 cnt1
        (min (i + 5) n) d1 = Some (d', int n) \<and> length d' = length d1 \<and>
      (\<forall>p < n. buf_bit d' p = (if p < i + 5 then buf_bit d1 p else buf_bit src p))"
      by (rule less.hyps [OF _ 1(2) md _ 1(7)]) (use True 1(1) less.prems(3) in simp_all)
    then obtain d' where d': "decode_loop n every (emit_syms every crc1 cnt1 (data_syms src n (i + 5))) crc1 cnt1
        (min (i + 5) n) d1 = Some (d', int n)" "length d' = length d1"
      "\<forall>p < n. buf_bit d' p = (if p < i + 5 then buf_bit d1 p else buf_bit src p)" by blast
    have "buf_bit d' p = (if p < i then buf_bit d p else buf_bit src p)" if "p < n" for p
    proof (cases "i \<le> p \<and> p < i + 5")
      case True
      then obtain j where j: "p = i + j" "j < 5" using le_Suc_ex by fastforce
      then have "buf_bit d1 p = bit ?s (4 - j)" using 1(6) [of j] that by simp
      moreover have "4 - (4 - j) = j" "4 - j < 5" using j(2) by simp_all
      ultimately show ?thesis using d'(3) that j by (simp add: bit_sym_of)
    next
      case False
      then show ?thesis using d'(3) 1(5) that by auto
    qed
    then show ?thesis using d' 1(1,4) ds out(1) by auto
  qed
qed

lemma decode_emit_truncated:
  assumes "every \<noteq> 0" and "cnt < every" and "ss \<noteq> []" and "\<forall>s \<in> set ss. s < 32"
    and "out \<le> m" and "m \<le> out + 5 * (length ss - 1)" and "m \<le> 8 * length d" and "clean_from d out"
  shows "\<exists>d'. decode_loop m every (emit_syms every crc cnt ss) crc cnt out d = Some (d', -1)"
  using assms
proof (induction ss arbitrary: crc cnt out d)
  case Nil
  then show ?case by simp
next
  case (Cons s ss)
  have s: "s < 32" and c: "every = 0 \<or> cnt < every" using Cons.prems by simp_all
  show ?case
  proof (cases "m \<le> out")
    case True
    then show ?thesis using Cons.prems(1)
      unfolding emit_syms.simps by (subst decode_loop_sym [OF s c]) (simp add: decode_finish_def Let_def)
  next
    case False
    then have "out < m" "ss \<noteq> []" using Cons.prems(6) by auto
    obtain d1 crc1 cnt1 where 1: "length d1 = length d" "every = 0 \<or> cnt1 < every"
      "decode_loop m every (emit_syms every crc cnt (s # ss)) crc cnt out d =
        decode_loop m every (emit_syms every crc1 cnt1 ss) crc1 cnt1 (out + min 5 (m - out)) d1"
      "clean_from d1 (out + min 5 (m - out))"
      using decode_emit_step [OF s c \<open>out < m\<close> Cons.prems(7,8)] by metis
    have "m \<le> out + min 5 (m - out) + 5 * (length ss - 1)"
      using Cons.prems(6) \<open>ss \<noteq> []\<close> \<open>out < m\<close> by (cases ss) (auto simp: min_def)
    then have "\<exists>d'. decode_loop m every (emit_syms every crc1 cnt1 ss) crc1 cnt1 (out + min 5 (m - out)) d1 =
        Some (d', -1)"
      using Cons.prems 1 \<open>ss \<noteq> []\<close> \<open>out < m\<close> by (intro Cons.IH) auto
    then show ?thesis using 1(3) by simp
  qed
qed

lemma set_emit: "\<forall>s \<in> set ss. s < 32 \<Longrightarrow> CHR 0x00 \<notin> set (emit_syms every crc cnt ss)"
proof (induction every crc cnt ss rule: emit_syms.induct)
  case (2 every crc cnt s ss)
  have "CHR 0x00 \<noteq> base32_map ! s" "CHR 0x00 \<noteq> base32_map ! unat (crc5_sym (of_nat s) crc)"
    using 2(4) base32_map_symbols(4) [of s] base32_map_symbols(4) [OF crc5_sym_less [of "of_nat s" crc]]
    by auto
  then show ?case using 2 by (simp add: Let_def)
qed simp

lemma data_syms_less: "\<forall>s \<in> set (data_syms src n i). s < 32"
  by (auto simp: data_syms_def sym_of_less)

lemma length_data_syms [simp]: "length (data_syms src n i) = (n - i + 4) div 5"
  by (simp add: data_syms_def)

lemma length_emit:
  "every = 0 \<or> cnt < every \<Longrightarrow> length (emit_syms every crc cnt ss) =
     length ss + (if every = 0 then 0 else (cnt + length ss) div every)"
proof (induction every crc cnt ss rule: emit_syms.induct)
  case (1 every crc cnt)
  then show ?case by auto
next
  case (2 every crc cnt s ss)
  show ?case
  proof (cases "every = 0")
    case True
    then show ?thesis using 2(1) by simp
  next
    case False
    show ?thesis
    proof (cases "cnt + 1 = every")
      case True
      then have e: "cnt + length (s # ss) = length ss + every" by simp
      have "(cnt + length (s # ss)) div every = Suc (length ss div every)"
        unfolding e by (subst div_add_self2) (use False in simp_all)
      then show ?thesis using 2(2) [OF False refl True] False True by (simp add: Let_def)
    next
      case ne: False
      then show ?thesis using 2(3) [OF False refl ne] 2(4) False by (simp add: Let_def)
    qed
  qed
qed


subsection \<open>Encoding never fails when the source has a spare byte\<close>

lemma sym_readable_spare: "i < n \<Longrightarrow> n + 7 < 8 * length src \<Longrightarrow> sym_readable src n i"
  by (auto simp: sym_readable_def div_less_iff_less_mult mult.commute)

definition symbols_needed :: "nat \<Rightarrow> nat \<Rightarrow> nat" where
  "symbols_needed n every = (let s = (n + 4) div 5 in s + (if every = 0 then 0 else s div every))"

lemma length_emit_data:
  "length (emit_syms every 0 0 (data_syms src n 0)) = symbols_needed n every"
  using length_emit [of every 0 0 "data_syms src n 0"] by (auto simp: symbols_needed_def Let_def)

lemma base32_encode_emit:
  assumes "\<And>k. k < n \<Longrightarrow> k mod 5 = 0 \<Longrightarrow> sym_readable src n k"
    and "every = 0 \<or> (n + 4) div 5 mod every = 0"
    and "symbols_needed n every < destlen" and "destlen \<le> length dest"
  obtains rest where "base32_encode dest destlen src n every =
    Some (emit_syms every 0 0 (data_syms src n 0) @ CHR 0x00 # rest, EC_SUCCESS)"
proof -
  let ?e = "emit_syms every 0 0 (data_syms src n 0)"
  obtain d0 where d0: "store dest 0 (CHR 0x00) = Some d0" "length d0 = length dest"
    using assms(3,4) by (cases dest) (auto simp: store_def)
  have le: "length ?e < length d0" using assms(3,4) d0(2) by (simp add: length_emit_data)
  then obtain x rest where dr: "drop (length ?e) d0 = x # rest" by (cases "drop (length ?e) d0") auto
  have "encode_loop src n every 0 0 0 0 d0 = Some (length ?e, ?e @ x # rest)"
    using encode_loop_emit [of 0 n src every 0 0 d0 0 "[]"] assms(1) le dr by (simp add: Let_def)
  moreover have "\<not> (every \<noteq> 0 \<and> (n + 4) div 5 mod every \<noteq> 0)" using assms(2) by auto
  moreover have "\<not> destlen < (if every \<noteq> 0 then (n + 4) div 5 + (n + 4) div 5 div every else (n + 4) div 5) + 1"
    using assms(3) by (auto simp: symbols_needed_def Let_def split: if_splits)
  ultimately have "base32_encode dest destlen src n every = Some (?e @ CHR 0x00 # rest, EC_SUCCESS)"
    using store_append [of ?e x rest "CHR 0x00"] d0(1) by (simp add: base32_encode_def Let_def)
  then show ?thesis by (rule that)
qed

text \<open>An unreadable symbol makes the encoder leave its source buffer.\<close>

lemma encode_loop_None:
  assumes "i \<le> k" and "k < n" and "k mod 5 = i mod 5" and "\<not> sym_readable src n k"
  shows "encode_loop src n every i crc cnt didx dest = None"
  using assms
proof (induction "k - i" arbitrary: i crc cnt didx dest rule: less_induct)
  case less
  show ?case
  proof (cases "i = k")
    case True
    then have "encode_sym src n i = None" using encode_sym_None less.prems by simp
    then show ?thesis using less.prems by (subst encode_loop.simps) simp
  next
    case False
    then have "i + 5 \<le> k" using less.prems(1,3) by (metis mod_eq_dvd_iff_nat dvd_diffD1 dvd_imp_le
        le_add_diff_inverse le_neq_implies_less nat_add_left_cancel_le zero_less_diff)
    then have IH: "encode_loop src n every (i + 5) crc' cnt' didx' dest' = None" for crc' cnt' didx' dest'
      using less by simp
    have IH0: "encode_loop src n 0 (i + 5) crc' cnt' didx' dest' = None" if "every = 0"
      for crc' cnt' didx' dest'
      using IH that by simp
    show ?thesis using less.prems
      by (subst encode_loop.simps) (simp add: IH IH0 Let_def split: bind_splits)
  qed
qed


subsection \<open>Properties\<close>

text \<open>
  C13: Base-32 decoding inverts encoding, with and without CRC symbols. When the destination has
  room, the groups are complete and a byte after the source may be read, \<open>base32_encode\<close>
  succeeds, and \<open>base32_decode\<close> of the string it writes reports exactly the encoded number
  of bits and restores every one of them, never leaving its destination.
\<close>

theorem base32_roundtrip:
  assumes "every = 0 \<or> (n + 4) div 5 mod every = 0" and "n + 7 < 8 * length src"
    and "symbols_needed n every < destlen" and "destlen \<le> length dest" and "n \<le> 8 * length out"
  shows "\<exists>enc out'. base32_encode dest destlen src n every = Some (enc, EC_SUCCESS) \<and>
    base32_decode out n (takeWhile (\<lambda>c. c \<noteq> CHR 0x00) enc) every = Some (out', int n) \<and>
    length out' = length out \<and> (\<forall>p < n. buf_bit out' p = buf_bit src p)"
proof -
  let ?e = "emit_syms every 0 0 (data_syms src n 0)"
  obtain rest where enc: "base32_encode dest destlen src n every = Some (?e @ CHR 0x00 # rest, EC_SUCCESS)"
    using base32_encode_emit [OF sym_readable_spare [OF _ assms(2)] assms(1,3,4)] by metis
  have tw: "takeWhile (\<lambda>c. c \<noteq> CHR 0x00) (?e @ CHR 0x00 # rest) = ?e"
    using set_emit [OF data_syms_less [of src n 0], of every 0 0]
    by (subst takeWhile_append2) auto
  have "every = 0 \<or> 0 < every" "clean_from out (min 0 n)" by (auto simp: clean_from_def)
  then obtain out' where "decode_loop n every ?e 0 0 (min 0 n) out = Some (out', int n)"
    "length out' = length out" "\<forall>p < n. buf_bit out' p = (if p < 0 then buf_bit out p else buf_bit src p)"
    using decode_emit [of every 0 src n 0 out 0] assms(1,5) by auto
  then show ?thesis using enc tw by (auto simp: base32_decode_def)
qed

lemma base32_roundtrip_witness:
  "\<exists>enc out'. base32_encode (replicate 20 CHR ''?'') 20 [0xff, 0x01, 0x5a, 0, 0] 20 4 = Some (enc, EC_SUCCESS) \<and>
    base32_decode [7, 7, 7] 20 (takeWhile (\<lambda>c. c \<noteq> CHR 0x00) enc) 4 = Some (out', 20)"
  using base32_roundtrip [of 4 20 "[0xff, 0x01, 0x5a, 0, 0]" 20 "replicate 20 CHR ''?''" "[7, 7, 7]"]
  by (auto simp: symbols_needed_def)

text \<open>
  Encoding whole bytes reads past the end of the source for most lengths. Without CRC and
  with a large enough destination, \<open>base32_encode\<close> of exactly the bits of a source buffer
  loads the byte after the buffer precisely when its length is 1, 3 or 4 modulo 5; the test
  \<open>i + 1 < srclen_bits\<close> should ask whether the symbol has bits in the next byte.
\<close>

lemma base32_encode_overread:
  assumes "symbols_needed (8 * length src) 0 < destlen" and "destlen \<le> length dest"
  shows "base32_encode dest destlen src (8 * length src) 0 = None \<longleftrightarrow> length src mod 5 \<in> {1, 3, 4}"
proof -
  let ?n = "8 * length src"
  have bad: "\<not> sym_readable src ?n k \<longleftrightarrow> 3 < k mod 8 \<and> k + 1 < ?n \<and> length src \<le> k div 8 + 1"
    if "k < ?n" for k
    using that by (auto simp: sym_readable_def)
  show ?thesis
  proof (cases "length src mod 5 \<in> {1, 3, 4}")
    case True
    obtain q where q: "length src = 5 * q + length src mod 5" by (metis mult_div_mod_eq)
    obtain k where k: "k < ?n" "k mod 5 = 0" "\<not> sym_readable src ?n k"
    proof (cases "length src mod 5 = 1")
      case True
      have "(40 * q + 5) mod 8 = 5" "(40 * q + 5) div 8 = 5 * q" by presburger+
      then show ?thesis using q bad [of "40 * q + 5"] True by (intro that [of "40 * q + 5"]) simp_all
    next
      case n1: False
      show ?thesis
      proof (cases "length src mod 5 = 3")
        case True
        have "(40 * q + 20) mod 8 = 4" "(40 * q + 20) div 8 = 5 * q + 2" by presburger+
        then show ?thesis using q bad [of "40 * q + 20"] True by (intro that [of "40 * q + 20"]) simp_all
      next
        case False
        then have "length src mod 5 = 4" using n1 \<open>length src mod 5 \<in> {1, 3, 4}\<close> by simp
        moreover have "(40 * q + 30) mod 8 = 6" "(40 * q + 30) div 8 = 5 * q + 3" by presburger+
        ultimately show ?thesis using q bad [of "40 * q + 30"] by (intro that [of "40 * q + 30"]) simp_all
      qed
    qed
    have "encode_loop src ?n 0 0 0 0 0 d = None" for d
      by (rule encode_loop_None [OF _ k(1) _ k(3)]) (simp_all add: k(2))
    moreover have "\<not> destlen < (8 * length src + 4) div 5 + 1"
      using assms(1) by (simp add: symbols_needed_def)
    ultimately have "base32_encode dest destlen src ?n 0 = None"
      by (simp add: base32_encode_def Let_def)
    with True show ?thesis by simp
  next
    case False
    have "sym_readable src ?n k" if k: "k < ?n" "k mod 5 = 0" for k
    proof (rule ccontr)
      assume "\<not> sym_readable src ?n k"
      then have b: "3 < k mod 8" "k + 1 < ?n" "length src \<le> k div 8 + 1" using bad [OF k(1)] by simp_all
      then have "length src = k div 8 + 1" using k(1) by simp
      with b k(2) False show False by simp presburger
    qed
    then obtain rest where "base32_encode dest destlen src ?n 0 =
        Some (emit_syms 0 0 0 (data_syms src ?n 0) @ CHR 0x00 # rest, EC_SUCCESS)"
      using base32_encode_emit [of ?n src 0 destlen dest] assms by auto
    with False show ?thesis by simp
  qed
qed

lemma base32_encode_overread_witness:
  "base32_encode [CHR ''a'', CHR ''b'', CHR ''c''] 3 [0xff] 8 0 = None"
  using base32_encode_overread [of "[0xff]" 3 "[CHR ''a'', CHR ''b'', CHR ''c'']"]
  by (simp add: symbols_needed_def)

text \<open>
  With CRC symbols, decoding only the first part of a bit string fails. For every encoded
  string with CRC groups, a destination of \<open>m\<close> bits that leaves at least one data symbol
  undecoded makes \<open>base32_decode\<close> return \<open>-1\<close>: the loop counts the symbol it stops
  at, so the final check sees an incomplete group. The header promises the first \<open>m\<close> bits.
\<close>

lemma base32_decode_prefix_fails:
  assumes "every \<noteq> 0" and "0 < n" and "m \<le> 5 * ((n + 4) div 5 - 1)" and "m \<le> 8 * length out"
  shows "\<exists>out'. base32_decode out m (emit_syms every 0 0 (data_syms src n 0)) every = Some (out', -1)"
  unfolding base32_decode_def
proof (rule decode_emit_truncated)
  show "data_syms src n 0 \<noteq> []" using data_syms_step [OF assms(2), of src] by simp
qed (use assms data_syms_less in \<open>simp_all add: clean_from_def\<close>)

lemma base32_decode_prefix_fails_witness:
  "\<exists>out'. base32_decode [0] 5 (emit_syms 2 0 0 (data_syms [0xff, 0x01, 0x5a] 20 0)) 2 = Some (out', -1)"
  by (rule base32_decode_prefix_fails) simp_all

end
