(* ===== verification/Cbi.thy ===== *)
theory Cbi
  imports Crc8
begin

section \<open>The board information of common/cbi.c\<close>

text \<open>
  The in-memory image of the CrOS Board Info: an 8-byte header (magic, CRC, version, size) and a
  list of tagged items, kept in step with a storage driver by a cache. The image is the byte
  list \<open>cbi\<close>, addressed as the code addresses it; the storage driver is a parameter, a record
  of its three functions. Console output is left out. An access outside the image or a
  \<open>size_t\<close> that wraps before a copy is \<open>None\<close>.
\<close>

subsection \<open>State\<close>

definition CBI_IMAGE_SIZE :: nat where "CBI_IMAGE_SIZE = 256"
definition CBI_VERSION_MAJOR :: u8 where "CBI_VERSION_MAJOR = 0"
definition CBI_VERSION_MINOR :: u8 where "CBI_VERSION_MINOR = 0"
definition cbi_magic :: "u8 list" where "cbi_magic = [0x43, 0x42, 0x49]"

definition CBI_TAG_BOARD_VERSION :: u32 where "CBI_TAG_BOARD_VERSION = 0"
definition CBI_TAG_OEM_ID :: u32 where "CBI_TAG_OEM_ID = 1"
definition CBI_TAG_SKU_ID :: u32 where "CBI_TAG_SKU_ID = 2"
definition CBI_TAG_MODEL_ID :: u32 where "CBI_TAG_MODEL_ID = 5"
definition CBI_TAG_FW_CONFIG :: u32 where "CBI_TAG_FW_CONFIG = 6"
definition CBI_TAG_PCB_SUPPLIER :: u32 where "CBI_TAG_PCB_SUPPLIER = 7"
definition CBI_TAG_SSFC :: u32 where "CBI_TAG_SSFC = 8"
definition CBI_TAG_REWORK_ID :: u32 where "CBI_TAG_REWORK_ID = 9"
definition CBI_TAG_FACTORY_CALIBRATION_DATA :: u32 where "CBI_TAG_FACTORY_CALIBRATION_DATA = 10"
definition CBI_TAG_COMMON_CONTROL :: u32 where "CBI_TAG_COMMON_CONTROL = 11"

datatype cbi_cache_status = CBI_CACHE_STATUS_SYNCED | CBI_CACHE_STATUS_INVALID

text \<open>
  The driver: \<open>drv_load st off len\<close> is the error flag and the \<open>len\<close> bytes it leaves
  in the buffer, \<open>drv_store\<close> the new storage and its result.
\<close>

record 'st cbi_drv =
  drv_load :: "'st \<Rightarrow> nat \<Rightarrow> nat \<Rightarrow> bool \<times> u8 list"
  drv_store :: "'st \<Rightarrow> u8 list \<Rightarrow> 'st \<times> ec_error_list"
  drv_is_protected :: "'st \<Rightarrow> bool"
  drv_gpio :: bool

record 'st cbi_state =
  cbi :: "u8 list"
  cache_status :: cbi_cache_status
  storage :: 'st

subsection \<open>Operations on an image\<close>

definition total_size :: "u8 list \<Rightarrow> nat" where
  "total_size img = unat (img ! 6) + 256 * unat (img ! 7)"

definition set_total_size :: "u8 list \<Rightarrow> nat \<Rightarrow> u8 list" where
  "set_total_size img n = img[6 := of_nat n, 7 := of_nat (n div 256)]"

definition cbi_crc8 :: "u8 list \<Rightarrow> u8 option" where
  "cbi_crc8 img =
     (if total_size img < 4 then None
      else do { bs \<leftarrow> mem_read img 4 (total_size img - 3 - 1); Some (cros_crc8 bs) })"

definition cbi_set_data :: "u8 list \<Rightarrow> nat \<Rightarrow> u32 \<Rightarrow> u8 list \<Rightarrow> nat \<Rightarrow> (u8 list \<times> nat) option" where
  "cbi_set_data img p tag buf size' =
     (if size' = 0 then Some (img, p)
      else do {
        img1 \<leftarrow> store img p (ucast tag);
        img2 \<leftarrow> store img1 (p + 1) (of_nat size');
        bs \<leftarrow> mem_read buf 0 size';
        img3 \<leftarrow> mem_write img2 (p + 2) bs;
        Some (img3, p + 2 + size')
      })"

definition cbi_set_string :: "u8 list \<Rightarrow> nat \<Rightarrow> u32 \<Rightarrow> u8 list option \<Rightarrow> (u8 list \<times> nat) option" where
  "cbi_set_string img p tag str =
     (case str of None \<Rightarrow> Some (img, p)
      | Some s \<Rightarrow> cbi_set_data img p tag (s @ [0]) (length s + 1))"

function cbi_find_from :: "u8 list \<Rightarrow> u32 \<Rightarrow> nat \<Rightarrow> nat option option" where
  "cbi_find_from img tag p =
     (if p + 2 < total_size img then do {
        t \<leftarrow> load img p;
        if ucast t = tag then Some (Some p)
        else do {
          sz \<leftarrow> load img (p + 1);
          cbi_find_from img tag (p + 2 + unat sz)
        }
      } else Some None)"
  by pat_completeness auto
termination by (relation "measure (\<lambda>(img, tag, p). total_size img - p)") auto

declare cbi_find_from.simps [simp del]

definition cbi_find_tag :: "u8 list \<Rightarrow> u32 \<Rightarrow> nat option option" where
  "cbi_find_tag img tag = cbi_find_from img tag 8"

definition cbi_remove_tag :: "u8 list \<Rightarrow> nat \<Rightarrow> u8 list option" where
  "cbi_remove_tag img d = do {
     sz \<leftarrow> load img (d + 1);
     let next = d + 2 + unat sz;
     if total_size img < next then None
     else do {
       bs \<leftarrow> mem_read img next (total_size img - next);
       img1 \<leftarrow> mem_write img d bs;
       Some (set_total_size img1 (total_size img - (2 + unat sz)))
     } }"

definition cbi_set_board_info :: "u8 list \<Rightarrow> u32 \<Rightarrow> u8 list \<Rightarrow> u8 \<Rightarrow> (u8 list \<times> ec_error_list) option" where
  "cbi_set_board_info img tag buf size' = do {
     d \<leftarrow> cbi_find_tag img tag;
     (img1, d1) \<leftarrow> (case d of
        None \<Rightarrow> Some (img, None)
      | Some p \<Rightarrow> do {
          sz \<leftarrow> load img (p + 1);
          if sz \<noteq> size' then do { img1 \<leftarrow> cbi_remove_tag img p; Some (img1, None) }
          else Some (img, Some p) });
     (case d1 of
        None \<Rightarrow>
          if CBI_IMAGE_SIZE < total_size img1 + 2 + unat size' then Some (img1, EC_ERROR_OVERFLOW)
          else do {
            (img2, p) \<leftarrow> cbi_set_data img1 (total_size img1) tag buf (unat size');
            Some (set_total_size img2 p, EC_SUCCESS) }
      | Some p \<Rightarrow> do {
          bs \<leftarrow> mem_read buf 0 (unat size');
          img2 \<leftarrow> mem_write img1 (p + 2) bs;
          Some (img2, EC_SUCCESS) }) }"

subsection \<open>Cache and storage\<close>

definition cbi_invalidate_cache :: "'st cbi_state \<Rightarrow> 'st cbi_state" where
  "cbi_invalidate_cache s = s\<lparr>cache_status := CBI_CACHE_STATUS_INVALID\<rparr>"

definition cbi_init_image :: "u8 list" where
  "cbi_init_image = set_total_size (cbi_magic @ replicate (CBI_IMAGE_SIZE - 3) 0) 8"

definition cbi_create :: "'st cbi_state \<Rightarrow> 'st cbi_state option" where
  "cbi_create s = do {
     let img = cbi_init_image[5 := CBI_VERSION_MAJOR, 4 := CBI_VERSION_MINOR];
     crc \<leftarrow> cbi_crc8 img;
     Some (s\<lparr>cbi := img[3 := crc], cache_status := CBI_CACHE_STATUS_SYNCED\<rparr>) }"

definition do_cbi_read :: "'st cbi_drv \<Rightarrow> 'st cbi_state \<Rightarrow> ('st cbi_state \<times> ec_error_list) option" where
  "do_cbi_read drv s = do {
     let (err, hdr) = drv_load drv (storage s) 0 8;
     img \<leftarrow> mem_write (cbi s) 0 hdr;
     let s1 = s\<lparr>cbi := img\<rparr>;
     if err then Some (s1, EC_ERROR_INVAL)
     else if take 3 img \<noteq> cbi_magic then Some (s1, EC_ERROR_INVAL)
     else if img ! 5 > CBI_VERSION_MAJOR then Some (s1, EC_ERROR_INVAL)
     else if total_size img < 8 \<or> CBI_IMAGE_SIZE < total_size img then Some (s1, EC_ERROR_OVERFLOW)
     else do {
       let (err, body) = drv_load drv (storage s) 8 (total_size img - 8);
       img2 \<leftarrow> mem_write img 8 body;
       let s2 = s\<lparr>cbi := img2\<rparr>;
       if err then Some (s2, EC_ERROR_INVAL)
       else if drv_gpio drv then Some (s2, EC_SUCCESS)
       else do {
         crc \<leftarrow> cbi_crc8 img2;
         Some (s2, if crc \<noteq> img2 ! 3 then EC_ERROR_INVAL else EC_SUCCESS)
       } } }"

definition cbi_read :: "'st cbi_drv \<Rightarrow> 'st cbi_state \<Rightarrow> ('st cbi_state \<times> ec_error_list) option" where
  "cbi_read drv s =
     (if cache_status s = CBI_CACHE_STATUS_SYNCED then Some (s, EC_SUCCESS)
      else do {
        (s1, rv) \<leftarrow> do_cbi_read drv s;
        if rv = EC_SUCCESS then Some (s1\<lparr>cache_status := CBI_CACHE_STATUS_SYNCED\<rparr>, EC_SUCCESS)
        else do {
          (s2, rv) \<leftarrow> do_cbi_read drv s1;
          if rv = EC_SUCCESS then Some (s2\<lparr>cache_status := CBI_CACHE_STATUS_SYNCED\<rparr>, EC_SUCCESS)
          else Some (s2, rv)
        } })"

text \<open>The weak default of the board hook.\<close>

definition cbi_board_override :: "u32 \<Rightarrow> u8 list \<Rightarrow> u8 \<Rightarrow> u8 list \<times> u8 \<times> ec_error_list" where
  "cbi_board_override tag buf size' = (buf, size', EC_SUCCESS)"

definition cbi_get_board_info ::
    "'st cbi_drv \<Rightarrow> 'st cbi_state \<Rightarrow> u32 \<Rightarrow> u8 list \<Rightarrow> u8 \<Rightarrow>
     ('st cbi_state \<times> u8 list \<times> u8 \<times> ec_error_list) option" where
  "cbi_get_board_info drv s tag buf size' = do {
     (s1, rv) \<leftarrow> cbi_read drv s;
     if rv \<noteq> EC_SUCCESS then Some (s1, buf, size', EC_ERROR_UNKNOWN)
     else do {
       d \<leftarrow> cbi_find_tag (cbi s1) tag;
       (case d of
          None \<Rightarrow> Some (s1, buf, size', EC_ERROR_UNKNOWN)
        | Some p \<Rightarrow> do {
            sz \<leftarrow> load (cbi s1) (p + 1);
            if size' < sz then Some (s1, buf, size', EC_ERROR_INVAL)
            else do {
              buf1 \<leftarrow> mem_write buf 0 (replicate (unat size') 0);
              v \<leftarrow> mem_read (cbi s1) (p + 2) (unat sz);
              buf2 \<leftarrow> mem_write buf1 0 v;
              Some (s1, cbi_board_override tag buf2 sz)
            } }) } }"

definition cbi_write :: "'st cbi_drv \<Rightarrow> 'st cbi_state \<Rightarrow> 'st cbi_state \<times> ec_error_list" where
  "cbi_write drv s =
     (if drv_is_protected drv (storage s) then (s, EC_ERROR_ACCESS_DENIED)
      else let (st, rv) = drv_store drv (storage s) (cbi s) in (s\<lparr>storage := st\<rparr>, rv))"


subsection \<open>Getters\<close>

text \<open>Each passes the address and size of an integer of its caller.\<close>

definition cbi_get_board_version where
  "cbi_get_board_version drv s buf = cbi_get_board_info drv s CBI_TAG_BOARD_VERSION buf 4"
definition cbi_get_sku_id where
  "cbi_get_sku_id drv s buf = cbi_get_board_info drv s CBI_TAG_SKU_ID buf 4"
definition cbi_get_oem_id where
  "cbi_get_oem_id drv s buf = cbi_get_board_info drv s CBI_TAG_OEM_ID buf 4"
definition cbi_get_model_id where
  "cbi_get_model_id drv s buf = cbi_get_board_info drv s CBI_TAG_MODEL_ID buf 4"
definition cbi_get_fw_config where
  "cbi_get_fw_config drv s buf = cbi_get_board_info drv s CBI_TAG_FW_CONFIG buf 4"
definition cbi_get_ssfc where
  "cbi_get_ssfc drv s buf = cbi_get_board_info drv s CBI_TAG_SSFC buf 4"
definition cbi_get_pcb_supplier where
  "cbi_get_pcb_supplier drv s buf = cbi_get_board_info drv s CBI_TAG_PCB_SUPPLIER buf 4"
definition cbi_get_rework_id where
  "cbi_get_rework_id drv s buf = cbi_get_board_info drv s CBI_TAG_REWORK_ID buf 8"
definition cbi_get_factory_calibration_data where
  "cbi_get_factory_calibration_data drv s buf =
     cbi_get_board_info drv s CBI_TAG_FACTORY_CALIBRATION_DATA buf 4"
definition cbi_get_common_control where
  "cbi_get_common_control drv s buf = cbi_get_board_info drv s CBI_TAG_COMMON_CONTROL buf 4"

subsection \<open>Host commands\<close>

record set_params =
  p_tag :: u32
  p_flag :: u32
  p_size :: u32
  p_data :: "u8 list"

definition CBI_SET_NO_SYNC :: u32 where "CBI_SET_NO_SYNC = 1"
definition CBI_SET_INIT :: u32 where "CBI_SET_INIT = 2"
definition CBI_GET_RELOAD :: u32 where "CBI_GET_RELOAD = 1"

definition hc_cbi_get ::
    "'st cbi_drv \<Rightarrow> 'st cbi_state \<Rightarrow> u32 \<Rightarrow> u32 \<Rightarrow> u8 list \<Rightarrow> nat \<Rightarrow>
     ('st cbi_state \<times> u8 list \<times> nat \<times> ec_status) option" where
  "hc_cbi_get drv s tag flag response response_max = do {
     let size0 = of_nat (min response_max 255);
     let s0 = (if flag AND CBI_GET_RELOAD \<noteq> 0 then cbi_invalidate_cache s else s);
     (s1, buf, size1, rv) \<leftarrow> cbi_get_board_info drv s0 tag response size0;
     if rv \<noteq> EC_SUCCESS then Some (s1, buf, 0, EC_RES_INVALID_PARAM)
     else Some (s1, buf, unat size1, EC_RES_SUCCESS) }"

definition common_cbi_set ::
    "'st cbi_drv \<Rightarrow> 'st cbi_state \<Rightarrow> set_params \<Rightarrow> ('st cbi_state \<times> ec_status) option" where
  "common_cbi_set drv s p =
     (if drv_is_protected drv (storage s) \<and> p_flag p AND CBI_SET_NO_SYNC = 0 then
        Some (s, EC_RES_ACCESS_DENIED)
      else if p_tag p = CBI_TAG_BOARD_VERSION \<or> p_tag p = CBI_TAG_OEM_ID then
        Some (s, EC_RES_ACCESS_DENIED)
      else do {
        (s1, rv) \<leftarrow> (if p_flag p AND CBI_SET_INIT \<noteq> 0 then Some (s\<lparr>cbi := cbi_init_image\<rparr>, EC_SUCCESS)
                     else cbi_read drv s);
        if rv \<noteq> EC_SUCCESS then Some (s1, EC_RES_ERROR)
        else do {
          (img, rv) \<leftarrow> cbi_set_board_info (cbi s1) (p_tag p) (p_data p) (ucast (p_size p));
          if rv \<noteq> EC_SUCCESS then Some (s1\<lparr>cbi := img\<rparr>, EC_RES_INVALID_PARAM)
          else do {
            let img1 = img[5 := CBI_VERSION_MAJOR, 4 := CBI_VERSION_MINOR];
            crc \<leftarrow> cbi_crc8 img1;
            let s2 = s1\<lparr>cbi := img1[3 := crc], cache_status := CBI_CACHE_STATUS_SYNCED\<rparr>;
            if p_flag p AND CBI_SET_NO_SYNC \<noteq> 0 then Some (s2, EC_RES_SUCCESS)
            else let (s3, rv) = cbi_write drv s2
              in Some (s3, if rv \<noteq> EC_SUCCESS then EC_RES_ERROR else EC_RES_SUCCESS)
          } } })"

definition hc_cbi_set ::
    "'st cbi_drv \<Rightarrow> 'st cbi_state \<Rightarrow> set_params \<Rightarrow> u32 \<Rightarrow> ('st cbi_state \<times> ec_status) option" where
  "hc_cbi_set drv s p params_size =
     (if params_size < 12 + p_size p then Some (s, EC_RES_INVALID_PARAM)
      else common_cbi_set drv s p)"

text \<open>The setters of firmware without an AP: \<open>dump_cbi\<close> reloads the image and prints it.\<close>

definition dump_cbi :: "'st cbi_drv \<Rightarrow> 'st cbi_state \<Rightarrow> 'st cbi_state option" where
  "dump_cbi drv s = do { (s1, rv) \<leftarrow> cbi_read drv (cbi_invalidate_cache s); Some s1 }"

definition cbi_set_field ::
    "'st cbi_drv \<Rightarrow> 'st cbi_state \<Rightarrow> u32 \<Rightarrow> u8 list \<Rightarrow> ('st cbi_state \<times> ec_error_list) option" where
  "cbi_set_field drv s tag val =
     (if drv_is_protected drv (storage s) then Some (s, EC_ERROR_ACCESS_DENIED)
      else do {
        (s1, rv) \<leftarrow> cbi_read drv s;
        s2 \<leftarrow> (if rv \<noteq> EC_SUCCESS then cbi_create s1 else Some s1);
        (img, _) \<leftarrow> cbi_set_board_info (cbi s2) tag val 4;
        crc \<leftarrow> cbi_crc8 img;
        let (s3, rv) = cbi_write drv (s2\<lparr>cbi := img[3 := crc]\<rparr>);
        if rv \<noteq> EC_SUCCESS then Some (s3, EC_ERROR_UNKNOWN)
        else do { s4 \<leftarrow> dump_cbi drv s3; Some (s4, EC_SUCCESS) }
      })"

definition cbi_set_fw_config where "cbi_set_fw_config drv s val = cbi_set_field drv s CBI_TAG_FW_CONFIG val"
definition cbi_set_ssfc where "cbi_set_ssfc drv s val = cbi_set_field drv s CBI_TAG_SSFC val"

subsection \<open>The items an image holds\<close>

text \<open>The abstract value of an image: the list of its items, laid out after the header.\<close>

type_synonym cbi_item = "u8 \<times> u8 list"

definition enc_item :: "cbi_item \<Rightarrow> u8 list" where
  "enc_item = (\<lambda>(t, v). [t, of_nat (length v)] @ v)"

definition flat :: "cbi_item list \<Rightarrow> u8 list" where
  "flat es = concat (map enc_item es)"

definition item_ok :: "cbi_item \<Rightarrow> bool" where
  "item_ok = (\<lambda>(t, v). v \<noteq> [] \<and> length v < 256)"

definition cbi_holds :: "u8 list \<Rightarrow> cbi_item list \<Rightarrow> bool" where
  "cbi_holds img es \<longleftrightarrow> length img = CBI_IMAGE_SIZE \<and> total_size img = 8 + length (flat es) \<and>
     8 + length (flat es) \<le> CBI_IMAGE_SIZE \<and> take (length (flat es)) (drop 8 img) = flat es \<and>
     list_all item_ok es"

text \<open>What setting a tag does to the list: a value of the same size is replaced in place,
  another is removed and the new one, unless empty, appended.\<close>

fun remove_first :: "u8 \<Rightarrow> cbi_item list \<Rightarrow> cbi_item list" where
  "remove_first t [] = []"
| "remove_first t (e # es) = (if fst e = t then es else e # remove_first t es)"

fun replace_first :: "cbi_item \<Rightarrow> cbi_item list \<Rightarrow> cbi_item list" where
  "replace_first n [] = []"
| "replace_first n (e # es) = (if fst e = fst n then n # es else e # replace_first n es)"

definition put :: "u8 \<Rightarrow> u8 list \<Rightarrow> cbi_item list \<Rightarrow> cbi_item list" where
  "put t v es =
     (case map_of es t of
        Some w \<Rightarrow> if length w = length v then replace_first (t, v) es
                  else remove_first t es @ (if v = [] then [] else [(t, v)])
      | None \<Rightarrow> es @ (if v = [] then [] else [(t, v)]))"

lemma length_enc_item [simp]: "length (enc_item e) = 2 + length (snd e)"
  by (cases e) (simp add: enc_item_def)

lemma flat_Nil [simp]: "flat [] = []"
  and flat_Cons [simp]: "flat (e # es) = enc_item e @ flat es"
  and flat_append [simp]: "flat (es @ fs) = flat es @ flat fs"
  by (simp_all add: flat_def)

lemma map_of_remove_first:
  "distinct (map fst es) \<Longrightarrow> map_of (remove_first t es) = (map_of es)(t := None)"
proof (induction es)
  case (Cons e es)
  show ?case
  proof (cases "fst e = t")
    case True
    then have "map_of es t = None" using Cons.prems by (simp add: map_of_eq_None_iff)
    then show ?thesis using True by (cases e) auto
  qed (use Cons in \<open>auto simp: fun_eq_iff\<close>)
qed simp

lemma map_of_replace_first:
  "map_of es t \<noteq> None \<Longrightarrow> map_of (replace_first (t, v) es) = (map_of es)(t \<mapsto> v)"
  by (induction es) (auto simp: fun_eq_iff)

lemma map_of_put:
  assumes "distinct (map fst es)"
  shows "map_of (put t v es) = (map_of es)(t := (if v = [] \<and> map_of es t \<noteq> Some [] then None else Some v))"
  using assms
  by (auto simp: put_def map_of_remove_first map_of_replace_first map_add_def fun_eq_iff
      split: option.splits)


subsection \<open>Finding, removing and writing items\<close>

lemma cbi_holds_split:
  "cbi_holds img es \<longleftrightarrow> (\<exists>H R. img = H @ flat es @ R \<and> length H = 8 \<and> length img = CBI_IMAGE_SIZE) \<and>
     total_size img = 8 + length (flat es) \<and> list_all item_ok es"
proof
  assume h: "cbi_holds img es"
  have "img = take 8 img @ take (length (flat es)) (drop 8 img) @ drop (length (flat es)) (drop 8 img)"
    by (simp only: append_take_drop_id)
  then have "img = take 8 img @ flat es @ drop (length (flat es)) (drop 8 img)"
    using h by (simp add: cbi_holds_def)
  moreover have "length (take 8 img) = 8" using h by (simp add: cbi_holds_def CBI_IMAGE_SIZE_def)
  ultimately show "(\<exists>H R. img = H @ flat es @ R \<and> length H = 8 \<and> length img = CBI_IMAGE_SIZE) \<and>
     total_size img = 8 + length (flat es) \<and> list_all item_ok es"
    using h unfolding cbi_holds_def by blast
qed (auto simp: cbi_holds_def)

lemma cbi_holdsI:
  assumes "img = H @ flat es @ R" and "length H = 8" and "length img = CBI_IMAGE_SIZE"
    and "total_size img = 8 + length (flat es)" and "list_all item_ok es"
  shows "cbi_holds img es"
  using assms unfolding cbi_holds_split by blast

lemma total_size_set:
  "8 \<le> length img \<Longrightarrow> n < 65536 \<Longrightarrow> total_size (set_total_size img n) = n"
  by (simp add: total_size_def set_total_size_def unat_of_nat nth_list_update)

lemma total_size_head: "length H = 8 \<Longrightarrow> total_size (H @ xs) = total_size H"
  by (simp add: total_size_def nth_append)

lemma set_total_size_head: "length H = 8 \<Longrightarrow> set_total_size (H @ xs) n = set_total_size H n @ xs"
  by (simp add: set_total_size_def list_update_append)

lemma length_set_total_size [simp]: "length (set_total_size img n) = length img"
  by (simp add: set_total_size_def)

fun find_pos :: "u32 \<Rightarrow> cbi_item list \<Rightarrow> nat \<Rightarrow> nat option" where
  "find_pos tag [] p = None"
| "find_pos tag (e # es) p = (if ucast (fst e) = tag then Some p else find_pos tag es (p + 2 + length (snd e)))"

lemma cbi_find_from_flat:
  assumes "total_size (H @ flat es @ R) = length H + length (flat es)" and "list_all item_ok es"
  shows "cbi_find_from (H @ flat es @ R) tag (length H) = Some (find_pos tag es (length H))"
  using assms
proof (induction es arbitrary: H)
  case Nil
  then show ?case by (subst cbi_find_from.simps) simp
next
  case (Cons e es)
  obtain t v where e: "e = (t, v)" by (cases e)
  have v: "v \<noteq> []" "length v < 256" using Cons.prems(2) e by (simp_all add: item_ok_def)
  let ?img = "H @ flat (e # es) @ R"
  have img: "?img = (H @ enc_item e) @ flat es @ R" by simp
  have lt: "length H + 2 < total_size ?img" using Cons.prems(1) v e by simp
  have "load ?img (length H) = Some t" "load ?img (length H + 1) = Some (of_nat (length v))"
    by (simp_all add: e enc_item_def load_def nth_append)
  moreover have "unat (of_nat (length v) :: u8) = length v" using v by (simp add: unat_of_nat)
  moreover have "cbi_find_from ?img tag (length H + 2 + length v) =
      Some (find_pos tag es (length H + 2 + length v))"
    using Cons.IH [of "H @ enc_item e"] Cons.prems e by simp
  ultimately show ?case
    using lt e by (subst cbi_find_from.simps) simp
qed

lemma cbi_find_tag_holds:
  assumes "cbi_holds img es"
  shows "cbi_find_tag img tag = Some (find_pos tag es 8)"
proof -
  obtain H R where "img = H @ flat es @ R" "length H = 8" "total_size img = 8 + length (flat es)"
    "list_all item_ok es"
    using assms by (auto simp: cbi_holds_split)
  then show ?thesis using cbi_find_from_flat [of H es R tag] by (simp add: cbi_find_tag_def)
qed

lemma find_pos_Some:
  "find_pos (ucast t) es p = Some q \<Longrightarrow>
     \<exists>es1 w es2. es = es1 @ (t, w) # es2 \<and> q = p + length (flat es1) \<and> t \<notin> fst ` set es1"
proof (induction es arbitrary: p)
  case (Cons e es)
  show ?case
  proof (cases "fst e = t")
    case True
    then show ?thesis using Cons.prems by (intro exI [of _ "[]"] exI [of _ "snd e"] exI [of _ es]) auto
  next
    case False
    then have "find_pos (ucast t) es (p + 2 + length (snd e)) = Some q"
      using Cons.prems by (simp add: ucast_u8_u32_eq)
    from Cons.IH [OF this] obtain es1 w es2 where
      "es = es1 @ (t, w) # es2" "q = p + 2 + length (snd e) + length (flat es1)" "t \<notin> fst ` set es1"
      by blast
    then show ?thesis using False
      by (intro exI [of _ "e # es1"] exI [of _ w] exI [of _ es2]) auto
  qed
qed simp

lemma find_pos_None: "find_pos (ucast t) es p = None \<longleftrightarrow> t \<notin> fst ` set es"
  by (induction es arbitrary: p) (auto simp: ucast_u8_u32_eq)

lemma map_of_split: "t \<notin> fst ` set es1 \<Longrightarrow> map_of (es1 @ (t, w) # es2) t = Some w"
  by (induction es1) auto

lemma remove_first_split: "t \<notin> fst ` set es1 \<Longrightarrow> remove_first t (es1 @ (t, w) # es2) = es1 @ es2"
  by (induction es1) auto

lemma replace_first_split:
  "t \<notin> fst ` set es1 \<Longrightarrow> replace_first (t, v) (es1 @ (t, w) # es2) = es1 @ (t, v) # es2"
  by (induction es1) auto

lemma cbi_remove_tag_holds:
  assumes "cbi_holds img (es1 @ (t, w) # es2)"
  obtains img' where "cbi_remove_tag img (8 + length (flat es1)) = Some img'" and "cbi_holds img' (es1 @ es2)"
proof -
  obtain H R where img: "img = H @ flat (es1 @ (t, w) # es2) @ R" and H: "length H = 8"
    and len: "length img = CBI_IMAGE_SIZE" and tot: "total_size img = 8 + length (flat (es1 @ (t, w) # es2))"
    and ok: "list_all item_ok (es1 @ (t, w) # es2)"
    using assms by (auto simp: cbi_holds_split)
  have w: "unat (of_nat (length w) :: u8) = length w" using ok by (simp add: item_ok_def unat_of_nat)
  let ?A = "H @ flat es1" and ?d = "8 + length (flat es1)" and ?F2 = "flat es2"
  have img2: "img = ?A @ [t, of_nat (length w)] @ w @ ?F2 @ R"
    by (simp add: img enc_item_def)
  have dA: "length ?A = ?d" using H by simp
  have sz: "load img (?d + 1) = Some (of_nat (length w))"
    using len by (simp add: img2 load_def nth_append H)
  have nx: "?d + 2 + length w + length ?F2 = total_size img" using tot by simp
  have rd: "mem_read img (?d + 2 + length w) (total_size img - (?d + 2 + length w)) = Some ?F2"
    using nx len by (simp add: mem_read_def img2 H)
  define tail where "tail = drop (?d + length ?F2) img"
  have wr: "mem_write img ?d ?F2 = Some (H @ flat es1 @ ?F2 @ tail)"
    using nx len by (simp add: mem_write_def img2 H tail_def)
  have lenw: "length (H @ flat es1 @ ?F2 @ tail) = CBI_IMAGE_SIZE"
    using mem_write_Some_length [OF wr] len by simp
  let ?n = "8 + length (flat (es1 @ es2))"
  have tn: "total_size img - (2 + length w) = ?n" using nx by simp
  define img' where "img' = set_total_size H ?n @ flat (es1 @ es2) @ tail"
  have "cbi_remove_tag img ?d = Some img'"
    using sz rd wr w nx tn by (simp add: cbi_remove_tag_def Let_def img'_def set_total_size_head H)
  moreover have "cbi_holds img' (es1 @ es2)"
  proof -
    have "?n < 65536" using lenw by (simp add: H CBI_IMAGE_SIZE_def)
    then have "total_size img' = ?n"
      by (simp add: img'_def total_size_head H total_size_set)
    moreover have "length img' = CBI_IMAGE_SIZE" using lenw by (simp add: img'_def)
    ultimately show ?thesis using ok H unfolding cbi_holds_split img'_def by fastforce
  qed
  ultimately show ?thesis by (rule that)
qed


lemma cbi_append_holds:
  assumes h: "cbi_holds img es" and fit: "8 + length (flat es) + 2 + length v \<le> CBI_IMAGE_SIZE"
    and v: "v = take n buf" "n \<le> length buf" "n < 256"
  obtains img' p where "cbi_set_data img (total_size img) (ucast t) buf n = Some (img', p)"
    and "cbi_holds (set_total_size img' p) (es @ (if v = [] then [] else [(t, v)]))"
proof -
  obtain H R where img: "img = H @ flat es @ R" and H: "length H = 8"
    and len: "length img = CBI_IMAGE_SIZE" and tot: "total_size img = 8 + length (flat es)"
    and ok: "list_all item_ok es"
    using h by (auto simp: cbi_holds_split)
  have ln: "length v = n" using v by simp
  show ?thesis
  proof (cases "n = 0")
    case True
    have "set_total_size H (8 + length (flat es)) @ flat es @ R = set_total_size img (total_size img)"
      by (simp add: img set_total_size_head H tot [unfolded img])
    moreover have "total_size (set_total_size img (total_size img)) = total_size img"
      using len tot fit by (intro total_size_set) (simp_all add: CBI_IMAGE_SIZE_def)
    ultimately have "cbi_holds (set_total_size img (total_size img)) es"
      using H len tot ok unfolding cbi_holds_split
      by (metis length_set_total_size)
    then show ?thesis using True ln by (intro that [of img "total_size img"]) (simp_all add: cbi_set_data_def)
  next
    case False
    define A where "A = H @ flat es"
    have imgA: "img = A @ R" by (simp add: img A_def)
    have lA: "length A = total_size img" by (simp add: A_def H tot)
    have lR: "2 + n \<le> length R" using fit len ln H by (simp add: img)
    then obtain a b R2 where R: "R = a # b # R2" and R2: "n \<le> length R2"
      by (cases R; cases "tl R") auto
    have s1: "store img (length A) x = Some (A @ x # b # R2)" for x
      by (simp add: imgA R store_def list_update_append)
    have s2: "store (A @ x # b # R2) (length A + 1) y = Some (A @ x # y # R2)" for x y
      by (simp add: store_def list_update_append)
    have s3: "mem_write (A @ x # y # R2) (length A + 2) v = Some (A @ x # y # v @ drop n R2)" for x y
      using R2 ln by (simp add: mem_write_def)
    have rd: "mem_read buf 0 n = Some v" using v by (simp add: mem_read_def)
    define img' where "img' = A @ t # of_nat n # v @ drop n R2"
    have set: "cbi_set_data img (total_size img) (ucast t) buf n = Some (img', length A + 2 + n)"
      using False s1 [of t] s2 [of t "of_nat n"] s3 [of t "of_nat n"] rd lA
      by (simp add: cbi_set_data_def img'_def)
    have l': "length img' = CBI_IMAGE_SIZE" using len R2 ln by (simp add: img'_def imgA R)
    have e: "length A + 2 + n = 8 + length (flat (es @ [(t, v)]))" by (simp add: A_def H ln)
    have L2: "10 + (length (flat es) + (length v + (length R2 - n))) = CBI_IMAGE_SIZE"
      using l' by (simp add: img'_def A_def H)
    have "length A + 2 + n < 65536" using l' ln R2 by (simp add: img'_def CBI_IMAGE_SIZE_def)
    then have "total_size (set_total_size img' (length A + 2 + n)) = length A + 2 + n"
      using l' by (intro total_size_set) (simp_all add: CBI_IMAGE_SIZE_def)
    moreover have "set_total_size img' (length A + 2 + n) =
        set_total_size H (length A + 2 + n) @ flat (es @ [(t, v)]) @ drop n R2"
      by (simp add: img'_def A_def set_total_size_head H enc_item_def ln)
    moreover have "v \<noteq> []" using False ln by auto
    moreover have "item_ok (t, v)" using \<open>v \<noteq> []\<close> v(3) ln by (simp add: item_ok_def)
    ultimately have "cbi_holds (set_total_size img' (length A + 2 + n)) (es @ [(t, v)])"
      using l' ok e H L2
      by (intro cbi_holdsI [where H = "set_total_size H (length A + 2 + n)" and R = "drop n R2"]) simp_all
    then show ?thesis using set \<open>v \<noteq> []\<close> by (intro that) simp_all
  qed
qed

lemma cbi_overwrite_holds:
  assumes h: "cbi_holds img (es1 @ (t, w) # es2)" and v: "length v = length w"
  obtains img' where "mem_write img (8 + length (flat es1) + 2) v = Some img'"
    and "cbi_holds img' (es1 @ (t, v) # es2)"
proof -
  obtain H R where img: "img = H @ flat (es1 @ (t, w) # es2) @ R" and H: "length H = 8"
    and len: "length img = CBI_IMAGE_SIZE" and tot: "total_size img = 8 + length (flat (es1 @ (t, w) # es2))"
    and ok: "list_all item_ok (es1 @ (t, w) # es2)"
    using h by (auto simp: cbi_holds_split)
  define A where "A = H @ flat es1 @ [t, of_nat (length w)]"
  have "img = A @ w @ flat es2 @ R" by (simp add: img A_def enc_item_def)
  moreover have lA: "length A = 8 + length (flat es1) + 2" by (simp add: A_def H)
  ultimately have wr: "mem_write img (8 + length (flat es1) + 2) v = Some (A @ v @ flat es2 @ R)"
    using v by (simp add: mem_write_def)
  moreover have e: "A @ v @ flat es2 @ R = H @ flat (es1 @ (t, v) # es2) @ R"
    by (simp add: A_def enc_item_def v)
  moreover have "cbi_holds (A @ v @ flat es2 @ R) (es1 @ (t, v) # es2)"
  proof -
    have "total_size (H @ flat (es1 @ (t, v) # es2) @ R) = 8 + length (flat (es1 @ (t, v) # es2))"
      using tot v by (simp add: total_size_head H img)
    moreover have "length (H @ flat (es1 @ (t, v) # es2) @ R) = CBI_IMAGE_SIZE"
      using mem_write_Some_length [OF wr] len by (simp only: e)
    moreover have "item_ok (t, v)" using ok v by (auto simp: item_ok_def)
    ultimately show ?thesis unfolding e using H ok by (intro cbi_holdsI [where H = H and R = R]) simp_all
  qed
  ultimately show ?thesis using that by blast
qed

text \<open>Setting a tag refines \<open>put\<close>; without room, the old value is gone.\<close>

definition set_fits :: "u8 \<Rightarrow> u8 list \<Rightarrow> cbi_item list \<Rightarrow> bool" where
  "set_fits t v es \<longleftrightarrow> (case map_of es t of Some w \<Rightarrow> length w = length v | None \<Rightarrow> False) \<or>
     8 + length (flat (remove_first t es)) + 2 + length v \<le> CBI_IMAGE_SIZE"

lemma cbi_set_board_info_holds:
  assumes h: "cbi_holds img es" and buf: "unat sz \<le> length buf"
  defines "v \<equiv> take (unat sz) buf"
  obtains img' where "cbi_set_board_info img (ucast t) buf sz =
      Some (img', if set_fits t v es then EC_SUCCESS else EC_ERROR_OVERFLOW)"
    and "cbi_holds img' (if set_fits t v es then put t v es else remove_first t es)"
proof -
  note result = that
  have lv: "length v = unat sz" using buf by (simp add: v_def)
  have sz: "unat sz < 256" using unat_lt2p [of sz] by simp
  have app: thesis
    if set: "cbi_set_board_info img (ucast t) buf sz =
        (if CBI_IMAGE_SIZE < total_size img1 + 2 + unat sz then Some (img1, EC_ERROR_OVERFLOW)
         else do { (img2, p) \<leftarrow> cbi_set_data img1 (total_size img1) (ucast t) buf (unat sz);
                   Some (set_total_size img2 p, EC_SUCCESS) })"
      and h1: "cbi_holds img1 (remove_first t es)"
      and ne: "case map_of es t of Some w \<Rightarrow> length w \<noteq> length v | None \<Rightarrow> True" for img1
  proof -
    have tot1: "total_size img1 = 8 + length (flat (remove_first t es))"
      using h1 by (simp add: cbi_holds_def)
    have fits: "set_fits t v es \<longleftrightarrow> \<not> CBI_IMAGE_SIZE < total_size img1 + 2 + unat sz"
      using ne lv tot1 by (auto simp: set_fits_def split: option.splits)
    show thesis
    proof (cases "set_fits t v es")
      case False
      then show thesis using set fits h1 by (intro result [of img1]) simp_all
    next
      case True
      then have "8 + length (flat (remove_first t es)) + 2 + length v \<le> CBI_IMAGE_SIZE"
        using fits tot1 lv by simp
      from cbi_append_holds [OF h1 this meta_eq_to_obj_eq [OF v_def] buf sz, where t = t]
      obtain img' p where a: "cbi_set_data img1 (total_size img1) (ucast t) buf (unat sz) = Some (img', p)"
        "cbi_holds (set_total_size img' p) (remove_first t es @ (if v = [] then [] else [(t, v)]))"
        by blast
      have "remove_first t es = es" if "map_of es t = None"
        using that by (induction es) (auto split: if_splits)
      then have "put t v es = remove_first t es @ (if v = [] then [] else [(t, v)])"
        using ne by (auto simp: put_def split: option.splits)
      then show thesis using set fits a True by (intro result [of "set_total_size img' p"]) simp_all
    qed
  qed
  show thesis
  proof (cases "find_pos (ucast t) es 8")
    case None
    then have "t \<notin> fst ` set es" by (simp add: find_pos_None)
    then have m: "map_of es t = None" and r: "remove_first t es = es"
      by (simp add: map_of_eq_None_iff, induction es) auto
    show thesis
      by (rule app [of img]) (use h m r None in \<open>simp_all add: cbi_set_board_info_def cbi_find_tag_holds [OF h]\<close>)
  next
    case (Some q)
    then obtain es1 w es2 where es: "es = es1 @ (t, w) # es2" and q: "q = 8 + length (flat es1)"
      and t1: "t \<notin> fst ` set es1" using find_pos_Some by blast
    have h': "cbi_holds img (es1 @ (t, w) # es2)" using h es by simp
    have mo: "map_of es t = Some w" unfolding es by (rule map_of_split [OF t1])
    have wl: "length w < 256" using h' by (auto simp: cbi_holds_def item_ok_def)
    have ld: "load img (q + 1) = Some (of_nat (length w))"
    proof -
      obtain H R where "img = H @ flat (es1 @ (t, w) # es2) @ R" "length H = 8"
        using h' by (auto simp: cbi_holds_split)
      then show ?thesis by (simp add: load_def q nth_append enc_item_def)
    qed
    have eq: "of_nat (length w) = sz \<longleftrightarrow> length w = length v"
    proof -
      have "unat (of_nat (length w) :: u8) = length w" using wl by (simp add: unat_of_nat)
      then show ?thesis using lv by (metis of_nat_unat ucast_id)
    qed
    show thesis
    proof (cases "length w = length v")
      case True
      obtain img' where a: "mem_write img (q + 2) v = Some img'" "cbi_holds img' (es1 @ (t, v) # es2)"
        using cbi_overwrite_holds [OF h', where v = v] True q by auto
      have rd: "mem_read buf 0 (unat sz) = Some v" using buf by (simp add: mem_read_def v_def)
      have fits: "set_fits t v es" using mo True by (simp add: set_fits_def)
      have "put t v es = es1 @ (t, v) # es2"
        using mo es t1 True by (simp add: put_def replace_first_split)
      moreover have "cbi_set_board_info img (ucast t) buf sz = Some (img', EC_SUCCESS)"
        using Some ld eq True rd a(1) by (simp add: cbi_set_board_info_def cbi_find_tag_holds [OF h])
      ultimately show thesis using a(2) fits by (intro result [of img']) simp_all
    next
      case False
      obtain img1 where r: "cbi_remove_tag img q = Some img1" "cbi_holds img1 (es1 @ es2)"
        using cbi_remove_tag_holds [OF h'] q by auto
      show thesis
      proof (rule app [of img1])
        show "cbi_holds img1 (remove_first t es)" using r(2) es t1 by (simp add: remove_first_split)
        show "case map_of es t of Some w \<Rightarrow> length w \<noteq> length v | None \<Rightarrow> True"
          using mo False by simp
        show "cbi_set_board_info img (ucast t) buf sz =
          (if CBI_IMAGE_SIZE < total_size img1 + 2 + unat sz then Some (img1, EC_ERROR_OVERFLOW)
           else do { (img2, p) \<leftarrow> cbi_set_data img1 (total_size img1) (ucast t) buf (unat sz);
                     Some (set_total_size img2 p, EC_SUCCESS) })"
          using Some ld eq False r(1) by (simp add: cbi_set_board_info_def cbi_find_tag_holds [OF h])
      qed
    qed
  qed
qed


subsection \<open>Reading items and the header\<close>

lemma cbi_get_board_info_holds:
  assumes h: "cbi_holds (cbi s) es" and "cache_status s = CBI_CACHE_STATUS_SYNCED"
    and buf: "unat sz \<le> length buf"
  shows "cbi_get_board_info drv s (ucast t) buf sz = Some (s,
    case map_of es t of
      None \<Rightarrow> (buf, sz, EC_ERROR_UNKNOWN)
    | Some v \<Rightarrow> if unat sz < length v then (buf, sz, EC_ERROR_INVAL)
        else (v @ replicate (unat sz - length v) 0 @ drop (unat sz) buf, of_nat (length v), EC_SUCCESS))"
proof (cases "find_pos (ucast t) es 8")
  case None
  then have "map_of es t = None" by (simp add: find_pos_None map_of_eq_None_iff)
  then show ?thesis using None assms(2)
    by (simp add: cbi_get_board_info_def cbi_read_def cbi_find_tag_holds [OF h])
next
  case (Some q)
  then obtain es1 w es2 where es: "es = es1 @ (t, w) # es2" and q: "q = 8 + length (flat es1)"
    and t1: "t \<notin> fst ` set es1" using find_pos_Some by blast
  have mo: "map_of es t = Some w" unfolding es by (rule map_of_split [OF t1])
  obtain H R where img: "cbi s = H @ flat (es1 @ (t, w) # es2) @ R" and H: "length H = 8"
    using h es by (auto simp: cbi_holds_split)
  have "length w < 256" using h es by (auto simp: cbi_holds_def item_ok_def)
  then have u: "unat (of_nat (length w) :: u8) = length w" by (simp add: unat_of_nat)
  have ld: "load (cbi s) (q + 1) = Some (of_nat (length w))"
    by (simp add: img load_def q nth_append enc_item_def H)
  have rd: "mem_read (cbi s) (q + 2) (length w) = Some w"
    by (simp add: img mem_read_def q enc_item_def H)
  have lt: "sz < of_nat (length w) \<longleftrightarrow> unat sz < length w"
    by (simp add: word_less_nat_alt u)
  show ?thesis
  proof (cases "unat sz < length w")
    case True
    then show ?thesis using Some mo ld lt assms(2)
      by (simp add: cbi_get_board_info_def cbi_read_def cbi_find_tag_holds [OF h])
  next
    case False
    have "mem_write buf 0 (replicate (unat sz) 0) = Some (replicate (unat sz) 0 @ drop (unat sz) buf)"
      using buf by (simp add: mem_write_def)
    moreover have "mem_write (replicate (unat sz) 0 @ drop (unat sz) buf) 0 w =
        Some (w @ replicate (unat sz - length w) 0 @ drop (unat sz) buf)"
      using buf False by (simp add: mem_write_def)
    ultimately show ?thesis using Some mo ld lt rd u False assms(2)
      by (simp add: cbi_get_board_info_def cbi_read_def cbi_find_tag_holds [OF h] cbi_board_override_def)
  qed
qed

lemma cbi_holds_header:
  assumes "cbi_holds img es" and "k < 6"
  shows "cbi_holds (img[k := x]) es"
  using assms unfolding cbi_holds_def by (simp add: total_size_def CBI_IMAGE_SIZE_def)

lemma cbi_crc8_holds: "cbi_holds img es \<Longrightarrow> cbi_crc8 img = Some (cros_crc8 (take (4 + length (flat es)) (drop 4 img)))"
  by (simp add: cbi_crc8_def cbi_holds_def mem_read_def)

lemma cbi_crc8_set_crc: "cbi_holds img es \<Longrightarrow> cbi_crc8 (img[3 := c]) = cbi_crc8 img"
  using cbi_crc8_holds [OF cbi_holds_header, of img es 3 c] cbi_crc8_holds [of img es] by simp

lemma cbi_holds_length: "cbi_holds img es \<Longrightarrow> length img = 256"
  by (simp add: cbi_holds_def CBI_IMAGE_SIZE_def)

lemma cbi_init_image_holds: "cbi_holds cbi_init_image []" and cbi_init_image_magic: "take 3 cbi_init_image = cbi_magic"
proof -
  have "total_size cbi_init_image = 8"
    unfolding cbi_init_image_def by (rule total_size_set) (simp_all add: CBI_IMAGE_SIZE_def cbi_magic_def)
  then show "cbi_holds cbi_init_image []"
    by (simp add: cbi_holds_def cbi_init_image_def cbi_magic_def CBI_IMAGE_SIZE_def)
  show "take 3 cbi_init_image = cbi_magic"
    by (simp add: cbi_init_image_def cbi_magic_def set_total_size_def)
qed

text \<open>What an accepted set does to the image, whatever the flags.\<close>

definition sealed :: "u8 list \<Rightarrow> bool" where
  "sealed img \<longleftrightarrow> img ! 5 = CBI_VERSION_MAJOR \<and> img ! 4 = CBI_VERSION_MINOR \<and> cbi_crc8 img = Some (img ! 3)"

lemma seal:
  assumes "cbi_holds img es"
  obtains c where "cbi_crc8 (img[5 := CBI_VERSION_MAJOR, 4 := CBI_VERSION_MINOR]) = Some c"
    and "cbi_holds (img[5 := CBI_VERSION_MAJOR, 4 := CBI_VERSION_MINOR, 3 := c]) es"
    and "sealed (img[5 := CBI_VERSION_MAJOR, 4 := CBI_VERSION_MINOR, 3 := c])"
    and "take 3 (img[5 := CBI_VERSION_MAJOR, 4 := CBI_VERSION_MINOR, 3 := c]) = take 3 img"
proof -
  let ?i = "img[5 := CBI_VERSION_MAJOR, 4 := CBI_VERSION_MINOR]"
  have h: "cbi_holds ?i es" using assms by (intro cbi_holds_header) simp_all
  obtain c where c: "cbi_crc8 ?i = Some c" using cbi_crc8_holds [OF h] by simp
  have "sealed (?i[3 := c])"
    using c cbi_crc8_set_crc [OF h, of c] cbi_holds_length [OF assms]
    by (simp add: sealed_def)
  then show ?thesis using c cbi_holds_header [OF h, of 3 c] by (intro that [of c]) simp_all
qed


lemma mem_write_take: "mem_write img off bs = Some img' \<Longrightarrow> n \<le> off \<Longrightarrow> take n img' = take n img"
  by (auto simp: mem_write_def min_absorb2 split: if_splits)

lemma store_take: "store img k x = Some img' \<Longrightarrow> n \<le> k \<Longrightarrow> take n img' = take n img \<and> length img' = length img"
  by (auto simp: store_def split: if_splits)

lemma take3_take6: "take 3 xs = take 3 (take 6 xs)"
  by (simp add: min_def)

lemma cbi_find_from_ge: "cbi_find_from img tag p = Some (Some q) \<Longrightarrow> p \<le> q"
proof (induction "total_size img - p" arbitrary: p rule: less_induct)
  case less
  have IH: "p \<le> q" if "p + 2 < total_size img" "cbi_find_from img tag (p + 2 + n) = Some (Some q)" for n
  proof -
    have "total_size img - (p + 2 + n) < total_size img - p" using that(1) by simp
    from less(1) [OF this that(2)] show ?thesis by simp
  qed
  from less(2) show ?case
    by (subst (asm) cbi_find_from.simps) (auto split: if_splits bind_splits dest: IH [simplified])
qed

lemma cbi_set_data_take:
  assumes "cbi_set_data img p tag buf n = Some (img', p')" and "6 \<le> p"
  shows "take 6 img' = take 6 img"
proof (cases "n = 0")
  case False
  then obtain i1 i2 bs where "store img p (ucast tag) = Some i1" "store i1 (p + 1) (of_nat n) = Some i2"
    "mem_write i2 (p + 2) bs = Some img'"
    using assms(1) by (auto simp: cbi_set_data_def split: bind_splits)
  then show ?thesis using assms(2) store_take [of img p _ i1 6] store_take [of i1 "p + 1" _ i2 6]
      mem_write_take [of i2 "p + 2" bs img' 6] by simp
qed (use assms in \<open>simp add: cbi_set_data_def\<close>)

lemma total_size_less: "total_size img < 65536"
proof -
  have "unat (img ! 6) < 256" "unat (img ! 7) < 256" using unat_lt2p [of "img ! 6"] unat_lt2p [of "img ! 7"] by simp_all
  then show ?thesis by (simp add: total_size_def)
qed

lemma cbi_set_board_info_take:
  assumes "cbi_set_board_info img tag buf sz = Some (img', rv)" and "8 \<le> length img" and "8 \<le> total_size img"
  shows "take 6 img' = take 6 img"
proof -
  obtain d where d: "cbi_find_tag img tag = Some d"
    using assms(1) by (cases "cbi_find_tag img tag") (auto simp: cbi_set_board_info_def)
  have ge: "8 \<le> q" if "d = Some q" for q
    using d that cbi_find_from_ge by (simp add: cbi_find_tag_def)
  have app: "take 6 img2 = take 6 img"
    if "(if CBI_IMAGE_SIZE < total_size img1 + 2 + unat sz then Some (img1, EC_ERROR_OVERFLOW)
       else do { (i, p) \<leftarrow> cbi_set_data img1 (total_size img1) tag buf (unat sz);
                 Some (set_total_size i p, EC_SUCCESS) }) = Some (img2, r)"
      and "take 6 img1 = take 6 img" "8 \<le> total_size img1" for img1 img2 r
    using that by (auto split: if_splits bind_splits prod.splits dest!: cbi_set_data_take simp: set_total_size_def)
  have rem: "take 6 img1 = take 6 img \<and> 8 \<le> total_size img1" if r: "cbi_remove_tag img q = Some img1" "8 \<le> q" for q img1
  proof -
    obtain x bs i1 where x: "mem_write img q bs = Some i1" "q + 2 + unat (x :: u8) \<le> total_size img"
      "img1 = set_total_size i1 (total_size img - (2 + unat x))"
      using r(1) by (auto simp: cbi_remove_tag_def Let_def not_less split: bind_splits if_splits)
    then have "total_size img1 = total_size img - (2 + unat x)"
      using assms(2) mem_write_Some_length [OF x(1)] total_size_less [of img]
      by (simp add: total_size_set)
    then show ?thesis using x(2,3) r(2) mem_write_take [OF x(1), of 6] by (simp add: set_total_size_def)
  qed
  show ?thesis
  proof (cases d)
    case None
    then show ?thesis using assms d app [of img img' rv] by (simp add: cbi_set_board_info_def)
  next
    case (Some q)
    then have q: "8 \<le> q" by (rule ge)
    obtain x where x: "load img (q + 1) = Some x"
      using assms(1) d Some by (cases "load img (q + 1)") (auto simp: cbi_set_board_info_def)
    show ?thesis
    proof (cases "x = sz")
      case True
      then obtain bs where "mem_write img (q + 2) bs = Some img'"
        using assms(1) d Some x by (auto simp: cbi_set_board_info_def split: bind_splits)
      then show ?thesis by (rule mem_write_take) (use q in linarith)
    next
      case False
      then obtain img1 where i1: "cbi_remove_tag img q = Some img1"
        using assms(1) d Some x by (cases "cbi_remove_tag img q") (auto simp: cbi_set_board_info_def)
      show ?thesis
        by (rule app [of img1 img' rv])
          (use assms(1) d Some x False i1 rem [OF i1 q] in \<open>simp_all add: cbi_set_board_info_def\<close>)
    qed
  qed
qed

lemma do_cbi_read_storage: "do_cbi_read drv s = Some (s1, rv) \<Longrightarrow> storage s1 = storage s"
proof -
  assume r: "do_cbi_read drv s = Some (s1, rv)"
  obtain e hdr where l: "drv_load drv (storage s) 0 8 = (e, hdr)" by (cases "drv_load drv (storage s) 0 8")
  obtain img where i: "mem_write (cbi s) 0 hdr = Some img"
    using r l by (cases "mem_write (cbi s) 0 hdr") (auto simp: do_cbi_read_def)
  obtain e2 body where l2: "drv_load drv (storage s) 8 (total_size img - 8) = (e2, body)"
    by (cases "drv_load drv (storage s) 8 (total_size img - 8)")
  show ?thesis using r l i l2
    by (cases "mem_write img 8 body")
      (auto simp: do_cbi_read_def Let_def split: if_split_asm bind_split_asm)
qed

lemma cbi_read_storage: "cbi_read drv s = Some (s1, rv) \<Longrightarrow> storage s1 = storage s"
proof (cases "cache_status s = CBI_CACHE_STATUS_SYNCED")
  case False
  assume r: "cbi_read drv s = Some (s1, rv)"
  then obtain a b where a: "do_cbi_read drv s = Some (a, b)"
    using False by (cases "do_cbi_read drv s") (auto simp: cbi_read_def)
  note sa = do_cbi_read_storage [OF a]
  show ?thesis
  proof (cases "b = EC_SUCCESS")
    case True
    then show ?thesis using r False a sa by (auto simp: cbi_read_def)
  next
    case F2: False
    then obtain c d where c: "do_cbi_read drv a = Some (c, d)"
      using r False a by (cases "do_cbi_read drv a") (auto simp: cbi_read_def)
    show ?thesis using r False a F2 c sa do_cbi_read_storage [OF c]
      by (auto simp: cbi_read_def split: if_splits)
  qed
qed (simp add: cbi_read_def)

text \<open>The whole handler on a loaded image, up to the final write.\<close>

lemma common_cbi_set_holds:
  assumes s1: "cbi_read drv s = Some (s1, EC_SUCCESS)" and h: "cbi_holds (cbi s1) es"
    and magic: "take 3 (cbi s1) = cbi_magic"
    and flags: "p_flag p AND CBI_SET_INIT = 0"
    and prot: "p_flag p AND CBI_SET_NO_SYNC \<noteq> 0 \<or> \<not> drv_is_protected drv (storage s)"
    and tag: "p_tag p = ucast t" "t \<noteq> 0" "t \<noteq> 1"
    and data: "unat (ucast (p_size p) :: u8) \<le> length (p_data p)"
  defines "v \<equiv> take (unat (ucast (p_size p) :: u8)) (p_data p)"
  obtains s2 where "cache_status s2 = (if set_fits t v es then CBI_CACHE_STATUS_SYNCED else cache_status s1)"
    and "storage s2 = storage s1"
    and "cbi_holds (cbi s2) (if set_fits t v es then put t v es else remove_first t es)"
    and "set_fits t v es \<Longrightarrow> sealed (cbi s2)" and "set_fits t v es \<Longrightarrow> take 3 (cbi s2) = cbi_magic"
    and "common_cbi_set drv s p =
      (if \<not> set_fits t v es then Some (s2, EC_RES_INVALID_PARAM)
       else if p_flag p AND CBI_SET_NO_SYNC \<noteq> 0 then Some (s2, EC_RES_SUCCESS)
       else let (s3, rv) = cbi_write drv s2
         in Some (s3, if rv \<noteq> EC_SUCCESS then EC_RES_ERROR else EC_RES_SUCCESS))"
proof -
  obtain img' where set: "cbi_set_board_info (cbi s1) (p_tag p) (p_data p) (ucast (p_size p)) =
      Some (img', if set_fits t v es then EC_SUCCESS else EC_ERROR_OVERFLOW)"
    and h': "cbi_holds img' (if set_fits t v es then put t v es else remove_first t es)"
    unfolding v_def tag(1) by (rule cbi_set_board_info_holds [OF h data])
  have "take 6 img' = take 6 (cbi s1)"
    using cbi_set_board_info_take [OF set] h by (simp add: cbi_holds_def CBI_IMAGE_SIZE_def)
  then have magic': "take 3 img' = cbi_magic"
    using magic by (metis take3_take6)
  have st: "storage s1 = storage s"
    using s1 by (rule cbi_read_storage)
  have tagne: "p_tag p \<noteq> CBI_TAG_BOARD_VERSION" "p_tag p \<noteq> CBI_TAG_OEM_ID"
    using tag ucast_u8_u32_eq [of t 0] ucast_u8_u32_eq [of t 1]
    by (simp_all add: CBI_TAG_BOARD_VERSION_def CBI_TAG_OEM_ID_def)
  have go: "\<not> (drv_is_protected drv (storage s) \<and> p_flag p AND CBI_SET_NO_SYNC = 0)" using prot by auto
  show ?thesis
  proof (cases "set_fits t v es")
    case False
    then show ?thesis using set h' s1 tagne go flags
      by (intro that [of "s1\<lparr>cbi := img'\<rparr>"]) (simp_all add: common_cbi_set_def)
  next
    case True
    then obtain c where c: "cbi_crc8 (img'[5 := CBI_VERSION_MAJOR, 4 := CBI_VERSION_MINOR]) = Some c"
      "cbi_holds (img'[5 := CBI_VERSION_MAJOR, 4 := CBI_VERSION_MINOR, 3 := c]) (put t v es)"
      "sealed (img'[5 := CBI_VERSION_MAJOR, 4 := CBI_VERSION_MINOR, 3 := c])"
      "take 3 (img'[5 := CBI_VERSION_MAJOR, 4 := CBI_VERSION_MINOR, 3 := c]) = take 3 img'"
      using seal [of img' "put t v es"] h' by auto
    then show ?thesis using True set s1 tagne go flags magic'
      by (intro that [of "s1\<lparr>cbi := img'[5 := CBI_VERSION_MAJOR, 4 := CBI_VERSION_MINOR, 3 := c],
          cache_status := CBI_CACHE_STATUS_SYNCED\<rparr>"]) (simp_all add: common_cbi_set_def)
  qed
qed


subsection \<open>Reading back what was stored\<close>

text \<open>The documented behaviour of a working storage driver: a store succeeds and loads return
  what was stored.\<close>

definition drv_good :: "'st cbi_drv \<Rightarrow> bool" where
  "drv_good drv \<longleftrightarrow> (\<forall>st img. length img = CBI_IMAGE_SIZE \<longrightarrow>
     (\<exists>st'. drv_store drv st img = (st', EC_SUCCESS) \<and>
       (\<forall>off n. off + n \<le> CBI_IMAGE_SIZE \<longrightarrow> drv_load drv st' off n = (False, take n (drop off img)))))"

lemma take_add_drop: "take m xs @ take n (drop m xs) = take (m + n) xs"
  by (simp add: take_add)

lemma do_cbi_read_back:
  assumes loads: "\<forall>off n. off + n \<le> CBI_IMAGE_SIZE \<longrightarrow> drv_load drv (storage s) off n = (False, take n (drop off img))"
    and h: "cbi_holds img es" and magic: "take 3 img = cbi_magic" and sealed: "sealed img"
    and len: "length (cbi s) = CBI_IMAGE_SIZE"
  obtains img' where "do_cbi_read drv s = Some (s\<lparr>cbi := img'\<rparr>, EC_SUCCESS)" and "cbi_holds img' es"
proof -
  let ?n = "8 + length (flat es)"
  have li: "length img = 256" and tot: "total_size img = ?n" and n: "?n \<le> 256"
    using h by (simp_all add: cbi_holds_def CBI_IMAGE_SIZE_def)
  have lc: "length (cbi s) = 256" using len by (simp add: CBI_IMAGE_SIZE_def)
  define i1 where "i1 = take 8 img @ drop 8 (cbi s)"
  have w1: "mem_write (cbi s) 0 (take 8 img) = Some i1"
    using li lc by (simp add: mem_write_def i1_def min_def)
  have nth1: "i1 ! k = img ! k" if "k < 8" for k
    using that li by (simp add: i1_def nth_append)
  have t1: "take 3 i1 = cbi_magic" using magic li by (simp add: i1_def min_def)
  have tot1: "total_size i1 = ?n" using tot by (simp add: total_size_def nth1)
  define i2 where "i2 = take ?n img @ drop ?n (cbi s)"
  have l1: "length i1 = 256" using li lc by (simp add: i1_def)
  have "take 8 i1 @ take (length (flat es)) (drop 8 img) = take ?n img"
    using li by (simp add: i1_def take_add_drop)
  moreover have "drop ?n i1 = drop ?n (cbi s)" using li lc by (simp add: i1_def add.commute)
  ultimately have w2: "mem_write i1 8 (take (length (flat es)) (drop 8 img)) = Some i2"
    using l1 n li by (simp add: mem_write_def i2_def min_def flip: append_assoc)
  have l2: "length i2 = 256" using li lc n by (simp add: i2_def)
  have nth2: "i2 ! k = img ! k" if "k < ?n" for k
    using that li n by (simp add: i2_def nth_append)
  have tot2: "total_size i2 = ?n" using tot by (simp add: total_size_def nth2)
  have h2: "cbi_holds i2 es"
    using h l2 tot2 li n unfolding cbi_holds_def
    by (simp add: i2_def CBI_IMAGE_SIZE_def take_drop)
  have "take (4 + length (flat es)) (drop 4 i2) = take (4 + length (flat es)) (drop 4 img)"
    using li n by (simp add: i2_def take_drop)
  then have crc: "cbi_crc8 i2 = Some (i2 ! 3)"
    using cbi_crc8_holds [OF h] cbi_crc8_holds [OF h2] sealed nth2 [of 3] by (simp add: sealed_def)
  have v: "\<not> CBI_VERSION_MAJOR < i1 ! 5" using sealed by (simp add: sealed_def nth1)
  have ld1: "drv_load drv (storage s) 0 8 = (False, take 8 img)"
    using loads by (auto simp: CBI_IMAGE_SIZE_def)
  have ld2: "drv_load drv (storage s) 8 (length (flat es)) = (False, take (length (flat es)) (drop 8 img))"
    using loads n by (auto simp: CBI_IMAGE_SIZE_def)
  have "do_cbi_read drv s = Some (s\<lparr>cbi := i2\<rparr>, EC_SUCCESS)"
    using n by (simp add: do_cbi_read_def ld1 ld2 w1 w2 t1 v tot1 crc CBI_IMAGE_SIZE_def Let_def)
  then show ?thesis using h2 by (rule that)
qed

subsection \<open>Properties\<close>

text \<open>A storage that works, for the witnesses.\<close>

definition demo_drv :: "u8 list cbi_drv" where
  "demo_drv = \<lparr>drv_load = \<lambda>st off n. (False, take n (drop off st)),
     drv_store = \<lambda>st img. (img, EC_SUCCESS), drv_is_protected = \<lambda>st. False, drv_gpio = False\<rparr>"

definition demo_cbi :: "u8 list cbi_state" where
  "demo_cbi = \<lparr>cbi = cbi_init_image, cache_status = CBI_CACHE_STATUS_SYNCED, storage = []\<rparr>"

lemma demo_cbi_holds: "cbi_holds (cbi demo_cbi) []" "take 3 (cbi demo_cbi) = cbi_magic"
  "cbi_read drv demo_cbi = Some (demo_cbi, EC_SUCCESS)"
  by (simp_all add: demo_cbi_def cbi_init_image_holds cbi_init_image_magic cbi_read_def)

lemma demo_drv_good: "drv_good demo_drv"
  by (auto simp: drv_good_def demo_drv_def)

text \<open>
  C15: Setting and getting board information is a map. With the image loaded, a set that is
  allowed and fits succeeds, and afterwards \<open>cbi_get_board_info\<close> of every tag returns what
  a map updated at that tag holds (an empty value deletes it), zero-padded to the caller's
  buffer; the image keeps a valid layout, the current version and a matching CRC.
\<close>

theorem cbi_set_then_get:
  assumes "cbi_holds (cbi s) es" and "distinct (map fst es)" and "take 3 (cbi s) = cbi_magic"
    and "cache_status s = CBI_CACHE_STATUS_SYNCED"
    and "t \<noteq> 0" and "t \<noteq> 1" and "unat sz \<le> length data" and "set_fits t (take (unat sz) data) es"
    and "unat gsz \<le> length buf"
  shows "\<exists>s'. common_cbi_set drv s
        \<lparr>p_tag = ucast t, p_flag = CBI_SET_NO_SYNC, p_size = ucast (sz :: u8), p_data = data\<rparr> =
      Some (s', EC_RES_SUCCESS) \<and> sealed (cbi s') \<and> cbi_holds (cbi s') (put t (take (unat sz) data) es) \<and>
    cbi_get_board_info drv s' (ucast g) buf gsz = Some (s',
      case ((map_of es)(t := if unat sz = 0 then None else Some (take (unat sz) data))) g of
        None \<Rightarrow> (buf, gsz, EC_ERROR_UNKNOWN)
      | Some v \<Rightarrow> if unat gsz < length v then (buf, gsz, EC_ERROR_INVAL)
          else (v @ replicate (unat gsz - length v) 0 @ drop (unat gsz) buf, of_nat (length v), EC_SUCCESS))"
proof -
  let ?p = "\<lparr>p_tag = ucast t, p_flag = CBI_SET_NO_SYNC, p_size = ucast sz, p_data = data\<rparr>"
  let ?v = "take (unat sz) data"
  have rd: "cbi_read drv s = Some (s, EC_SUCCESS)" using assms(4) by (simp add: cbi_read_def)
  obtain s' where s': "cache_status s' = CBI_CACHE_STATUS_SYNCED" "cbi_holds (cbi s') (put t ?v es)"
    "sealed (cbi s')" "common_cbi_set drv s ?p = Some (s', EC_RES_SUCCESS)"
    by (rule common_cbi_set_holds [OF rd assms(1,3), of ?p t])
      (use assms(5-8) in \<open>simp_all add: CBI_SET_NO_SYNC_def CBI_SET_INIT_def\<close>)
  have "(t, []) \<notin> set es" using assms(1) by (auto simp: cbi_holds_def item_ok_def list_all_iff)
  then have "map_of es t \<noteq> Some []" using map_of_SomeD by fastforce
  moreover have "?v = [] \<longleftrightarrow> unat sz = 0" using assms(7) by auto
  ultimately have m: "map_of (put t ?v es) = (map_of es)(t := if unat sz = 0 then None else Some ?v)"
    by (simp add: map_of_put [OF assms(2)])
  show ?thesis
    using s' cbi_get_board_info_holds [OF s'(2,1) assms(9), of drv g] by (simp add: m)
qed

lemma cbi_set_then_get_witness:
  "\<exists>s'. common_cbi_set demo_drv demo_cbi
        \<lparr>p_tag = ucast (3 :: u8), p_flag = CBI_SET_NO_SYNC, p_size = ucast (2 :: u8), p_data = [7, 8]\<rparr> =
      Some (s', EC_RES_SUCCESS) \<and>
    cbi_get_board_info demo_drv s' (ucast (3 :: u8)) [9, 9, 9] 3 = Some (s', [7, 8, 0], 2, EC_SUCCESS)"
  using cbi_set_then_get [OF demo_cbi_holds(1) _ demo_cbi_holds(2), of 3 2 "[7, 8]" 3 "[9, 9, 9]" demo_drv 3]
  by (auto simp: demo_cbi_def set_fits_def CBI_IMAGE_SIZE_def)

text \<open>
  A set that is written through can be read back after a reboot. With a storage that returns
  what was stored, an accepted set without \<open>CBI_SET_NO_SYNC\<close> leaves in storage an image that
  \<open>cbi_read\<close> accepts from any contents of the in-memory image: magic, version, size and CRC
  check out and the same items are found.
\<close>

lemma cbi_set_persists:
  assumes "cbi_holds (cbi s) es" and "take 3 (cbi s) = cbi_magic" and "cache_status s = CBI_CACHE_STATUS_SYNCED"
    and "drv_good drv" and "\<not> drv_is_protected drv (storage s)"
    and "t \<noteq> 0" and "t \<noteq> 1" and "unat sz \<le> length data" and "set_fits t (take (unat sz) data) es"
    and "length junk = CBI_IMAGE_SIZE"
  shows "\<exists>s' s''. common_cbi_set drv s
        \<lparr>p_tag = ucast t, p_flag = 0, p_size = ucast (sz :: u8), p_data = data\<rparr> = Some (s', EC_RES_SUCCESS) \<and>
    cbi_read drv (cbi_invalidate_cache (s'\<lparr>cbi := junk\<rparr>)) = Some (s'', EC_SUCCESS) \<and>
    cbi_holds (cbi s'') (put t (take (unat sz) data) es)"
proof -
  let ?p = "\<lparr>p_tag = ucast t, p_flag = 0, p_size = ucast sz, p_data = data\<rparr>"
  let ?es = "put t (take (unat sz) data) es"
  have rd: "cbi_read drv s = Some (s, EC_SUCCESS)" using assms(3) by (simp add: cbi_read_def)
  obtain s2 where s2: "storage s2 = storage s" "cbi_holds (cbi s2) ?es" "sealed (cbi s2)"
    "take 3 (cbi s2) = cbi_magic" and set: "common_cbi_set drv s ?p =
      (let (s3, rv) = cbi_write drv s2 in Some (s3, if rv \<noteq> EC_SUCCESS then EC_RES_ERROR else EC_RES_SUCCESS))"
    by (rule common_cbi_set_holds [OF rd assms(1,2), of ?p t])
      (use assms(5-9) in \<open>simp_all add: CBI_SET_NO_SYNC_def CBI_SET_INIT_def\<close>)
  have "length (cbi s2) = CBI_IMAGE_SIZE" using s2(2) by (simp add: cbi_holds_def)
  then obtain st where st: "drv_store drv (storage s2) (cbi s2) = (st, EC_SUCCESS)"
    "\<forall>off n. off + n \<le> CBI_IMAGE_SIZE \<longrightarrow> drv_load drv st off n = (False, take n (drop off (cbi s2)))"
    using assms(4) unfolding drv_good_def by blast
  let ?s' = "s2\<lparr>storage := st\<rparr>"
  have w: "common_cbi_set drv s ?p = Some (?s', EC_RES_SUCCESS)"
    using set st(1) assms(5) s2(1) by (simp add: cbi_write_def)
  let ?j = "cbi_invalidate_cache (?s'\<lparr>cbi := junk\<rparr>)"
  obtain img' where "do_cbi_read drv ?j = Some (?j\<lparr>cbi := img'\<rparr>, EC_SUCCESS)" "cbi_holds img' ?es"
    by (rule do_cbi_read_back [OF _ s2(2,4,3), of drv ?j])
      (use st(2) assms(10) in \<open>simp_all add: cbi_invalidate_cache_def\<close>)
  then show ?thesis using w by (auto simp: cbi_read_def cbi_invalidate_cache_def)
qed

lemma cbi_set_persists_witness:
  "\<exists>s' s''. common_cbi_set demo_drv demo_cbi
        \<lparr>p_tag = ucast (3 :: u8), p_flag = 0, p_size = ucast (2 :: u8), p_data = [7, 8]\<rparr> = Some (s', EC_RES_SUCCESS) \<and>
    cbi_read demo_drv (cbi_invalidate_cache (s'\<lparr>cbi := replicate 256 0xff\<rparr>)) = Some (s'', EC_SUCCESS)"
  using cbi_set_persists [OF demo_cbi_holds(1,2) _ demo_drv_good, of 3 2 "[7, 8]" "replicate 256 0xff"]
  by (auto simp: demo_cbi_def set_fits_def CBI_IMAGE_SIZE_def demo_drv_def)


text \<open>
  A set that does not fit destroys the value it should replace. When a tag is stored with
  another size and the new value has no room, the host command reports an invalid parameter, but
  the old item has already been removed from the in-memory image, which still counts as in step
  with the storage: the next read of the tag does not find it.
\<close>

lemma cbi_failed_set_loses_item:
  assumes "cbi_holds (cbi s) es" and "distinct (map fst es)" and "take 3 (cbi s) = cbi_magic"
    and "cache_status s = CBI_CACHE_STATUS_SYNCED"
    and "t \<noteq> 0" and "t \<noteq> 1" and "unat sz \<le> length data" and "\<not> set_fits t (take (unat sz) data) es"
    and "unat gsz \<le> length buf"
  shows "\<exists>s'. common_cbi_set drv s
        \<lparr>p_tag = ucast t, p_flag = CBI_SET_NO_SYNC, p_size = ucast (sz :: u8), p_data = data\<rparr> =
      Some (s', EC_RES_INVALID_PARAM) \<and> cache_status s' = CBI_CACHE_STATUS_SYNCED \<and>
    cbi_holds (cbi s') (remove_first t es) \<and>
    cbi_get_board_info drv s' (ucast t) buf gsz = Some (s', buf, gsz, EC_ERROR_UNKNOWN)"
proof -
  let ?p = "\<lparr>p_tag = ucast t, p_flag = CBI_SET_NO_SYNC, p_size = ucast sz, p_data = data\<rparr>"
  have rd: "cbi_read drv s = Some (s, EC_SUCCESS)" using assms(4) by (simp add: cbi_read_def)
  obtain s' where s': "cache_status s' = CBI_CACHE_STATUS_SYNCED" "cbi_holds (cbi s') (remove_first t es)"
    "common_cbi_set drv s ?p = Some (s', EC_RES_INVALID_PARAM)"
    by (rule common_cbi_set_holds [OF rd assms(1,3), of ?p t])
      (use assms(4-8) in \<open>simp_all add: CBI_SET_NO_SYNC_def CBI_SET_INIT_def\<close>)
  then show ?thesis
    using cbi_get_board_info_holds [OF s'(2,1) assms(9), of drv t] map_of_remove_first [OF assms(2)] by simp
qed

definition full_cbi :: "u8 list cbi_state" where
  "full_cbi = demo_cbi\<lparr>cbi := set_total_size (cbi_magic @ replicate 5 0) 256 @
     flat [(3, [1]), (4, replicate 243 9)]\<rparr>"

lemma full_cbi_holds: "cbi_holds (cbi full_cbi) [(3, [1]), (4, replicate 243 9)]"
  "take 3 (cbi full_cbi) = cbi_magic" "cache_status full_cbi = CBI_CACHE_STATUS_SYNCED"
proof -
  have "total_size (cbi full_cbi) = 256"
    by (simp add: full_cbi_def total_size_head cbi_magic_def total_size_set)
  then show "cbi_holds (cbi full_cbi) [(3, [1]), (4, replicate 243 9)]"
    by (simp add: cbi_holds_def full_cbi_def CBI_IMAGE_SIZE_def item_ok_def enc_item_def cbi_magic_def)
  show "take 3 (cbi full_cbi) = cbi_magic" "cache_status full_cbi = CBI_CACHE_STATUS_SYNCED"
    by (simp_all add: full_cbi_def demo_cbi_def cbi_magic_def set_total_size_def)
qed

lemma cbi_failed_set_loses_item_witness:
  "\<exists>s'. common_cbi_set demo_drv full_cbi
        \<lparr>p_tag = ucast (3 :: u8), p_flag = CBI_SET_NO_SYNC, p_size = ucast (2 :: u8), p_data = [7, 8]\<rparr> =
      Some (s', EC_RES_INVALID_PARAM) \<and>
    cbi_get_board_info demo_drv s' (ucast (3 :: u8)) [0] 1 = Some (s', [0], 1, EC_ERROR_UNKNOWN)"
proof -
  have "\<not> set_fits 3 (take (unat (2 :: u8)) [7, 8]) [(3, [1]), (4, replicate 243 9)]"
    by (simp add: set_fits_def CBI_IMAGE_SIZE_def)
  then show ?thesis
    using cbi_failed_set_loses_item [OF full_cbi_holds(1) _ full_cbi_holds(2,3), of 3 2 "[7, 8]" 1 "[0]" demo_drv]
    by auto
qed

text \<open>
  The lock on hardware fields compares a wider tag than the one stored. The host command
  refuses the tags \<open>BOARD_VERSION\<close> and \<open>OEM_ID\<close>, but compares the 32-bit parameter,
  while the item stores its low byte: every request with a tag above 255 passes, and with
  \<open>CBI_SET_INIT\<close> leaves the chosen value under the low byte, here for any byte
  \<open>t\<close>, so also 0 and 1.
\<close>

lemma cbi_set_tag_truncated:
  assumes "255 < tag" and "ucast tag = t" and "unat sz \<le> length data" and "0 < unat sz" and "unat sz \<le> 246"
  shows "\<exists>s'. common_cbi_set drv s
        \<lparr>p_tag = tag, p_flag = CBI_SET_NO_SYNC OR CBI_SET_INIT, p_size = ucast (sz :: u8), p_data = data\<rparr> =
      Some (s', EC_RES_SUCCESS) \<and> cbi_holds (cbi s') [(t, take (unat sz) data)]"
proof -
  have ne: "tag \<noteq> CBI_TAG_BOARD_VERSION" "tag \<noteq> CBI_TAG_OEM_ID"
    using assms(1) by (auto simp: CBI_TAG_BOARD_VERSION_def CBI_TAG_OEM_ID_def)
  have find: "cbi_find_tag cbi_init_image tag = Some None"
    using cbi_find_tag_holds [OF cbi_init_image_holds] by simp
  have tot: "total_size cbi_init_image = 8" using cbi_init_image_holds by (simp add: cbi_holds_def)
  have fit: "8 + length (flat []) + 2 + length (take (unat sz) data) \<le> CBI_IMAGE_SIZE"
    using assms(5) by (simp add: CBI_IMAGE_SIZE_def)
  have data: "cbi_set_data img p tag buf n = cbi_set_data img p (ucast t) buf n" for img p buf n
    using assms(2) by (simp add: cbi_set_data_def)
  have "data \<noteq> []" using assms(3,4) by auto
  then obtain img' p where a: "cbi_set_data cbi_init_image (total_size cbi_init_image) tag data (unat sz) = Some (img', p)"
    "cbi_holds (set_total_size img' p) [(t, take (unat sz) data)]"
    using cbi_append_holds [OF cbi_init_image_holds fit refl assms(3), where t = t] unat_lt2p [of sz] assms(4)
    by (simp add: data [of _ _ data]) blast
  obtain c where c: "cbi_crc8 ((set_total_size img' p)[5 := CBI_VERSION_MAJOR, 4 := CBI_VERSION_MINOR]) = Some c"
    "cbi_holds ((set_total_size img' p)[5 := CBI_VERSION_MAJOR, 4 := CBI_VERSION_MINOR, 3 := c])
       [(t, take (unat sz) data)]"
    using seal [OF a(2)] by metis
  have set: "cbi_set_board_info cbi_init_image tag data sz = Some (set_total_size img' p, EC_SUCCESS)"
    using assms(5) a(1) tot by (simp add: cbi_set_board_info_def find CBI_IMAGE_SIZE_def)
  show ?thesis
    using ne set c by (simp add: common_cbi_set_def CBI_SET_NO_SYNC_def CBI_SET_INIT_def)
qed

lemma cbi_set_tag_truncated_witness:
  "\<exists>s'. common_cbi_set demo_drv demo_cbi
        \<lparr>p_tag = 0x100, p_flag = CBI_SET_NO_SYNC OR CBI_SET_INIT, p_size = ucast (1 :: u8), p_data = [42]\<rparr> =
      Some (s', EC_RES_SUCCESS) \<and> cbi_holds (cbi s') [(0, [42])]"
  using cbi_set_tag_truncated [where tag = "0x100" and t = 0 and sz = 1 and data = "[42]" and drv = demo_drv and s = demo_cbi]
  by simp

text \<open>
  The size check of the set command wraps. \<open>params_size < sizeof( *p) + p->size\<close> is
  32-bit arithmetic, and the size is then narrowed to a byte: a 12-byte request without data and
  with size \<open>2^32 - 12\<close> passes the check and makes the handler copy 244 bytes from behind
  the packet, in every state.
\<close>

lemma hc_cbi_set_size_wraps:
  "hc_cbi_set drv s \<lparr>p_tag = CBI_TAG_SKU_ID, p_flag = CBI_SET_NO_SYNC OR CBI_SET_INIT,
     p_size = - 12, p_data = []\<rparr> 12 = None"
proof -
  have find: "cbi_find_tag cbi_init_image CBI_TAG_SKU_ID = Some None"
    using cbi_find_tag_holds [OF cbi_init_image_holds] by simp
  have tot: "total_size cbi_init_image = 8" using cbi_init_image_holds by (simp add: cbi_holds_def)
  have sz: "unat (ucast (- 12 :: u32) :: u8) = 244" by simp
  have len: "length cbi_init_image = 256" using cbi_holds_length [OF cbi_init_image_holds] .
  have "cbi_set_board_info cbi_init_image CBI_TAG_SKU_ID [] (ucast (- 12 :: u32)) = None"
    by (simp only: cbi_set_board_info_def find sz tot)
      (simp add: CBI_IMAGE_SIZE_def cbi_set_data_def store_def mem_read_def len tot split: bind_splits)
  then show ?thesis
    by (simp add: hc_cbi_set_def common_cbi_set_def CBI_TAG_SKU_ID_def CBI_TAG_BOARD_VERSION_def
        CBI_TAG_OEM_ID_def CBI_SET_NO_SYNC_def CBI_SET_INIT_def)
qed

end
