(* ===== verification/MkbpEvent.thy ===== *)
theory MkbpEvent
  imports Prelude
begin

section \<open>The interrupt state machine of common/mkbp_event.c\<close>

text \<open>
  Matrix keyboard protocol events raise one interrupt towards the host, which then polls them.
  \<open>struct mkbp_state\<close> and the functions around it, with both wake masks configured. Each
  function is given by its critical sections, so that the tasks that run them can interleave,
  and by their composition. \<open>mkbp_set_host_active\<close> belongs to the host interface: its
  result is a parameter \<open>rv\<close>. The deferred call of \<open>force_mkbp_if_events\<close> is the field
  \<open>force_deferred\<close>, the delay it is pending with, if it is.
\<close>

subsection \<open>State\<close>

datatype interrupt_state = INTERRUPT_INACTIVE | INTERRUPT_INACTIVE_TO_ACTIVE | INTERRUPT_ACTIVE

record mkbp_state =
  events :: u32
  interrupt :: interrupt_state
  interrupt_id :: u8
  failed_attempts :: u8
  ap_comm_failure_count :: int
  event_wake_mask :: u32
  host_event_wake_mask :: u32
  force_deferred :: "u32 option"

text \<open>What the functions read of the chipset and of the host events.\<close>

record mkbp_env =
  host_is_sleeping :: bool
  host_get_events :: u32

definition BIT :: "nat \<Rightarrow> u32" where "BIT n = push_bit n 1"

definition EC_MKBP_EVENT_KEY_MATRIX :: nat where "EC_MKBP_EVENT_KEY_MATRIX = 0"
definition EC_MKBP_EVENT_HOST_EVENT :: nat where "EC_MKBP_EVENT_HOST_EVENT = 1"
definition EC_MKBP_EVENT_BUTTON :: nat where "EC_MKBP_EVENT_BUTTON = 3"
definition EC_MKBP_EVENT_SWITCH :: nat where "EC_MKBP_EVENT_SWITCH = 4"
definition EC_MKBP_EVENT_SYSRQ :: nat where "EC_MKBP_EVENT_SYSRQ = 6"
definition EC_MKBP_EVENT_HOST_EVENT64 :: nat where "EC_MKBP_EVENT_HOST_EVENT64 = 7"
definition EC_MKBP_EVENT_COUNT :: nat where "EC_MKBP_EVENT_COUNT = 13"
definition EC_MKBP_HAS_MORE_EVENTS :: u8 where "EC_MKBP_HAS_MORE_EVENTS = 0x80"
definition SECOND :: u32 where "SECOND = 1000000"

subsection \<open>Activating the interrupt\<close>

text \<open>
  Whether the interrupt can be skipped, as read before the lock is taken, and the first critical
  section, which gives the number of the new activation.
\<close>

definition skip_interrupt :: "mkbp_env \<Rightarrow> u32 \<Rightarrow> mkbp_state \<Rightarrow> bool" where
  "skip_interrupt env events_to_add s =
     (let skip = (if events_to_add = BIT EC_MKBP_EVENT_HOST_EVENT \<or>
                     events_to_add = BIT EC_MKBP_EVENT_HOST_EVENT64
                  then host_is_sleeping env \<and> host_get_events env AND host_event_wake_mask s = 0
                  else False)
      in if \<not> skip then host_is_sleeping env \<and> events_to_add AND event_wake_mask s = 0 else skip)"

definition activate_lock :: "bool \<Rightarrow> u32 \<Rightarrow> mkbp_state \<Rightarrow> mkbp_state \<times> u8 option" where
  "activate_lock skip events_to_add s =
     (let s1 = s\<lparr>events := events s OR events_to_add\<rparr>;
          skip2 = (skip \<and> events s1 AND BIT EC_MKBP_EVENT_KEY_MATRIX = 0)
      in if events s1 \<noteq> 0 \<and> interrupt s1 = INTERRUPT_INACTIVE \<and> \<not> skip2
         then (s1\<lparr>interrupt := INTERRUPT_INACTIVE_TO_ACTIVE, interrupt_id := interrupt_id s1 + 1\<rparr>,
               Some (interrupt_id s1 + 1))
         else (s1, None))"

definition activate_begin :: "mkbp_env \<Rightarrow> u32 \<Rightarrow> mkbp_state \<Rightarrow> mkbp_state \<times> u8 option" where
  "activate_begin env events_to_add s = activate_lock (skip_interrupt env events_to_add s) events_to_add s"

text \<open>Whether the deferred call is to be scheduled, which is done after the lock is released.\<close>

definition activate_end :: "ec_error_list \<Rightarrow> u8 \<Rightarrow> mkbp_state \<Rightarrow> mkbp_state \<times> bool" where
  "activate_end rv iid s =
     (if interrupt s = INTERRUPT_INACTIVE_TO_ACTIVE \<and> iid = interrupt_id s
      then (s\<lparr>interrupt := (if rv = EC_SUCCESS then INTERRUPT_ACTIVE else INTERRUPT_INACTIVE)\<rparr>, True)
      else (s, False))"

definition activate_schedule :: "mkbp_state \<Rightarrow> mkbp_state" where
  "activate_schedule s = s\<lparr>force_deferred := Some SECOND\<rparr>"

definition activate_mkbp_with_events ::
    "mkbp_env \<Rightarrow> ec_error_list \<Rightarrow> u32 \<Rightarrow> mkbp_state \<Rightarrow> mkbp_state" where
  "activate_mkbp_with_events env rv events_to_add s =
     (case activate_begin env events_to_add s of
        (s1, None) \<Rightarrow> s1
      | (s1, Some iid) \<Rightarrow>
          (let (s2, schedule_deferred) = activate_end rv iid s1
           in if schedule_deferred then activate_schedule s2 else s2))"

definition mkbp_send_event :: "mkbp_env \<Rightarrow> ec_error_list \<Rightarrow> nat \<Rightarrow> mkbp_state \<Rightarrow> mkbp_state \<times> bool" where
  "mkbp_send_event env rv event_type s = (activate_mkbp_with_events env rv (BIT event_type) s, True)"

subsection \<open>Retrying and clearing it\<close>

definition force_begin :: "mkbp_state \<Rightarrow> mkbp_state \<times> bool" where
  "force_begin s =
     (case interrupt s of
        INTERRUPT_INACTIVE \<Rightarrow> (s, True)
      | INTERRUPT_ACTIVE \<Rightarrow>
          (let s1 = s\<lparr>interrupt := INTERRUPT_INACTIVE,
                     ap_comm_failure_count := ap_comm_failure_count s + 1,
                     failed_attempts := failed_attempts s + 1\<rparr>
           in if failed_attempts s1 < 3 then (s1, True)
              else (s1\<lparr>failed_attempts := 0\<rparr>, False))
      | INTERRUPT_INACTIVE_TO_ACTIVE \<Rightarrow> (s, False))"

definition force_mkbp_if_events :: "mkbp_env \<Rightarrow> ec_error_list \<Rightarrow> mkbp_state \<Rightarrow> mkbp_state" where
  "force_mkbp_if_events env rv s =
     (let (s1, send) = force_begin s
      in if send then activate_mkbp_with_events env rv 0 s1 else s1)"

definition set_inactive_begin :: "mkbp_state \<Rightarrow> mkbp_state \<times> bool" where
  "set_inactive_begin s =
     (if events s = 0 then (s\<lparr>interrupt := INTERRUPT_INACTIVE, failed_attempts := 0\<rparr>, True)
      else (s, False))"

definition set_inactive_end :: "mkbp_state \<Rightarrow> mkbp_state" where
  "set_inactive_end s = s\<lparr>force_deferred := None, ap_comm_failure_count := 0\<rparr>"

definition set_inactive_if_no_events :: "mkbp_state \<Rightarrow> mkbp_state \<times> bool" where
  "set_inactive_if_no_events s =
     (let (s1, cleared) = set_inactive_begin s
      in (if cleared then set_inactive_end s1 else s1, cleared))"

definition take_event_if_set :: "nat \<Rightarrow> mkbp_state \<Rightarrow> mkbp_state \<times> bool" where
  "take_event_if_set event_type s =
     (s\<lparr>events := events s AND NOT (BIT event_type)\<rparr>, events s AND BIT event_type \<noteq> 0)"

text \<open>The round-robin search for the next event, and putting one back whose source is busy.\<close>

fun take_next_event :: "nat list \<Rightarrow> nat \<Rightarrow> mkbp_state \<Rightarrow> mkbp_state \<times> nat option" where
  "take_next_event [] lst s = (s, None)"
| "take_next_event (i # is) lst s =
     (let (s1, taken) = take_event_if_set ((lst + i) mod EC_MKBP_EVENT_COUNT) s
      in if taken then (s1, Some i) else take_next_event is lst s1)"

definition put_event_back :: "nat \<Rightarrow> mkbp_state \<Rightarrow> mkbp_state" where
  "put_event_back evt s = s\<lparr>events := events s OR BIT evt\<rparr>"

subsection \<open>Wake masks\<close>

datatype ec_mkbp_event_mask_action = GET_WAKE_MASK | SET_WAKE_MASK | OtherMaskAction
datatype ec_mkbp_mask_type = EC_MKBP_HOST_EVENT_WAKE_MASK | EC_MKBP_EVENT_WAKE_MASK | OtherMaskType

text \<open>The new state, the mask returned if any, and the status.\<close>

definition hc_mkbp_wake_mask ::
    "ec_mkbp_event_mask_action \<Rightarrow> ec_mkbp_mask_type \<Rightarrow> u32 \<Rightarrow> mkbp_state \<Rightarrow>
     mkbp_state \<times> u32 option \<times> ec_status" where
  "hc_mkbp_wake_mask action mask_type new_wake_mask s =
     (case action of
        GET_WAKE_MASK \<Rightarrow>
          (case mask_type of
             EC_MKBP_HOST_EVENT_WAKE_MASK \<Rightarrow> (s, Some (host_event_wake_mask s), EC_RES_SUCCESS)
           | EC_MKBP_EVENT_WAKE_MASK \<Rightarrow> (s, Some (event_wake_mask s), EC_RES_SUCCESS)
           | OtherMaskType \<Rightarrow> (s, None, EC_RES_INVALID_PARAM))
      | SET_WAKE_MASK \<Rightarrow>
          (case mask_type of
             EC_MKBP_HOST_EVENT_WAKE_MASK \<Rightarrow>
               (s\<lparr>host_event_wake_mask := new_wake_mask\<rparr>, None, EC_RES_SUCCESS)
           | EC_MKBP_EVENT_WAKE_MASK \<Rightarrow> (s\<lparr>event_wake_mask := new_wake_mask\<rparr>, None, EC_RES_SUCCESS)
           | OtherMaskType \<Rightarrow> (s, None, EC_RES_INVALID_PARAM))
      | OtherMaskAction \<Rightarrow> (s, None, EC_RES_INVALID_PARAM))"

subsection \<open>Interleaved execution\<close>

text \<open>
  Tasks between two critical sections: an activation that has yet to signal the host, one that has
  done so with some result, one that has yet to schedule the deferred call, a forced activation
  about to start, a poll that has taken an event, and a clearing that has yet to cancel the
  deferred call. Next to the state, the system has what the host was told last: whether its
  interrupt is active. A failing \<open>mkbp_set_host_active\<close> leaves that unchanged.
  What an activation reads before it takes the lock is left open.
\<close>

datatype mkbp_pc = Activating u8 | Signalled u8 ec_error_list | Scheduling | Forcing | Servicing nat | Cancelling

type_synonym mkbp_sys = "mkbp_state \<times> bool \<times> mkbp_pc list"

inductive mkbp_step :: "mkbp_sys \<Rightarrow> mkbp_sys \<Rightarrow> bool" where
  send_quiet: "activate_lock skip (BIT e) s = (s', None) \<Longrightarrow> mkbp_step (s, h, P) (s', h, P)"
| send: "activate_lock skip (BIT e) s = (s', Some iid) \<Longrightarrow> mkbp_step (s, h, P) (s', h, Activating iid # P)"
| signal: "Activating iid \<in> set P \<Longrightarrow>
    mkbp_step (s, h, P) (s, h \<or> rv = EC_SUCCESS, Signalled iid rv # remove1 (Activating iid) P)"
| sent_stale: "Signalled iid rv \<in> set P \<Longrightarrow> activate_end rv iid s = (s', False) \<Longrightarrow>
    mkbp_step (s, h, P) (s', h, remove1 (Signalled iid rv) P)"
| sent: "Signalled iid rv \<in> set P \<Longrightarrow> activate_end rv iid s = (s', True) \<Longrightarrow>
    mkbp_step (s, h, P) (s', h, Scheduling # remove1 (Signalled iid rv) P)"
| schedule: "Scheduling \<in> set P \<Longrightarrow> mkbp_step (s, h, P) (activate_schedule s, h, remove1 Scheduling P)"
| expire_quiet: "force_deferred s = Some d \<Longrightarrow> force_begin (s\<lparr>force_deferred := None\<rparr>) = (s', False) \<Longrightarrow>
    mkbp_step (s, h, P) (s', h, P)"
| expire: "force_deferred s = Some d \<Longrightarrow> force_begin (s\<lparr>force_deferred := None\<rparr>) = (s', True) \<Longrightarrow>
    mkbp_step (s, h, P) (s', h, Forcing # P)"
| force_quiet: "Forcing \<in> set P \<Longrightarrow> activate_lock skip 0 s = (s', None) \<Longrightarrow>
    mkbp_step (s, h, P) (s', h, remove1 Forcing P)"
| force: "Forcing \<in> set P \<Longrightarrow> activate_lock skip 0 s = (s', Some iid) \<Longrightarrow>
    mkbp_step (s, h, P) (s', h, Activating iid # remove1 Forcing P)"
| take_none: "take_next_event [0..<EC_MKBP_EVENT_COUNT] lst s = (s', None) \<Longrightarrow> mkbp_step (s, h, P) (s', h, P)"
| take: "take_next_event [0..<EC_MKBP_EVENT_COUNT] lst s = (s', Some i) \<Longrightarrow>
    mkbp_step (s, h, P) (s', h, Servicing ((i + lst) mod EC_MKBP_EVENT_COUNT) # P)"
| serviced: "Servicing evt \<in> set P \<Longrightarrow> mkbp_step (s, h, P) (s, h, remove1 (Servicing evt) P)"
| busy: "Servicing evt \<in> set P \<Longrightarrow> mkbp_step (s, h, P) (put_event_back evt s, h, remove1 (Servicing evt) P)"
| clear_no: "set_inactive_begin s = (s', False) \<Longrightarrow> mkbp_step (s, h, P) (s', h, P)"
| clear: "set_inactive_begin s = (s', True) \<Longrightarrow> mkbp_step (s, h, P) (s', False, Cancelling # P)"
| cancel: "Cancelling \<in> set P \<Longrightarrow> mkbp_step (s, h, P) (set_inactive_end s, h, remove1 Cancelling P)"
| set_mask: "hc_mkbp_wake_mask action mask_type new_mask s = (s', r, st) \<Longrightarrow> mkbp_step (s, h, P) (s', h, P)"

text \<open>
  The numbers of the running activations. They have eight bits, so the runs considered are those in
  which no activation is overtaken by 255 newer ones: the numbers stay distinct.
\<close>

fun activation_id :: "mkbp_pc \<Rightarrow> u8 option" where
  "activation_id (Activating iid) = Some iid"
| "activation_id (Signalled iid rv) = Some iid"
| "activation_id _ = None"

definition distinct_ids :: "mkbp_sys \<Rightarrow> bool" where
  "distinct_ids = (\<lambda>(s, h, P). distinct (List.map_filter activation_id P))"

inductive mkbp_reach :: "mkbp_sys \<Rightarrow> mkbp_sys \<Rightarrow> bool" for x where
  refl: "mkbp_reach x x"
| step: "mkbp_reach x y \<Longrightarrow> mkbp_step y z \<Longrightarrow> distinct_ids z \<Longrightarrow> mkbp_reach x z"

definition mkbp_init :: mkbp_state where
  "mkbp_init = \<lparr>events = 0, interrupt = INTERRUPT_INACTIVE, interrupt_id = 0, failed_attempts = 0,
     ap_comm_failure_count = 0, event_wake_mask = 0xffffffff, host_event_wake_mask = 0xffffffff,
     force_deferred = None\<rparr>"

text \<open>
  What every interleaving keeps: a transition in progress belongs to the newest activation, which
  is still running; when that one has signalled the host with success, or the interrupt counts as
  active, the host was told last that it is; the retry counter stays below its limit.
\<close>

definition running :: "mkbp_pc list \<Rightarrow> u8 \<Rightarrow> bool" where
  "running P iid \<longleftrightarrow> Activating iid \<in> set P \<or> (\<exists>rv. Signalled iid rv \<in> set P)"

definition mkbp_inv :: "mkbp_sys \<Rightarrow> bool" where
  "mkbp_inv = (\<lambda>(s, h, P).
     (interrupt s = INTERRUPT_INACTIVE_TO_ACTIVE \<longrightarrow> running P (interrupt_id s)) \<and>
     (interrupt s = INTERRUPT_INACTIVE_TO_ACTIVE \<and> Signalled (interrupt_id s) EC_SUCCESS \<in> set P \<longrightarrow> h) \<and>
     (interrupt s = INTERRUPT_ACTIVE \<longrightarrow> h) \<and>
     failed_attempts s < 3)"

lemma activate_lock_cases:
  assumes "activate_lock skip e s = (s', r)"
  obtains (quiet) "r = None" and "s' = s\<lparr>events := events s OR e\<rparr>"
  | (go) "r = Some (interrupt_id s + 1)" and "interrupt s = INTERRUPT_INACTIVE" and "events s OR e \<noteq> 0"
      and "s' = s\<lparr>events := events s OR e, interrupt := INTERRUPT_INACTIVE_TO_ACTIVE,
        interrupt_id := interrupt_id s + 1\<rparr>"
  using assms by (auto simp: activate_lock_def Let_def split: if_splits)

lemma activate_end_cases:
  assumes "activate_end rv iid s = (s', r)"
  obtains (stale) "\<not> r" and "s' = s" and "interrupt s = INTERRUPT_INACTIVE_TO_ACTIVE \<longrightarrow> iid \<noteq> interrupt_id s"
  | (newest) "r" and "interrupt s = INTERRUPT_INACTIVE_TO_ACTIVE" and "iid = interrupt_id s"
      and "s' = s\<lparr>interrupt := (if rv = EC_SUCCESS then INTERRUPT_ACTIVE else INTERRUPT_INACTIVE)\<rparr>"
proof (cases "interrupt s = INTERRUPT_INACTIVE_TO_ACTIVE \<and> iid = interrupt_id s")
  case True
  then have "s' = s\<lparr>interrupt := (if rv = EC_SUCCESS then INTERRUPT_ACTIVE else INTERRUPT_INACTIVE)\<rparr>" "r"
    using assms unfolding activate_end_def by (simp_all only: if_True prod.inject simp_thms)
  with True show thesis by (intro newest) simp_all
next
  case False
  then have "s' = s" "\<not> r" using assms unfolding activate_end_def if_not_P [OF False] by simp_all
  with False show thesis by (intro stale) simp_all
qed

lemma force_begin_cases:
  assumes "force_begin s = (s', r)"
  obtains "interrupt s' = INTERRUPT_INACTIVE_TO_ACTIVE" and "s' = s" and "\<not> r"
  | "interrupt s' = INTERRUPT_INACTIVE" and "failed_attempts s' = failed_attempts s \<or> failed_attempts s' < 3"
  using assms by (auto simp: force_begin_def Let_def split: interrupt_state.splits if_splits)

lemma take_next_event_frame:
  "take_next_event is lst s = (s', r) \<Longrightarrow> interrupt s' = interrupt s \<and> interrupt_id s' = interrupt_id s
     \<and> failed_attempts s' = failed_attempts s"
  by (induction "is" lst s arbitrary: s' r rule: take_next_event.induct)
    (auto simp: take_event_if_set_def Let_def split: if_splits)

lemma hc_mask_frame:
  "hc_mkbp_wake_mask action mask_type new_mask s = (s', r, st) \<Longrightarrow> interrupt s' = interrupt s
     \<and> interrupt_id s' = interrupt_id s \<and> failed_attempts s' = failed_attempts s"
  by (auto simp: hc_mkbp_wake_mask_def split: ec_mkbp_event_mask_action.splits ec_mkbp_mask_type.splits)

lemma distinct_id_fresh:
  "distinct_ids (s, h, Activating iid # P) \<Longrightarrow> \<not> running P iid"
proof -
  assume d: "distinct_ids (s, h, Activating iid # P)"
  have m: "iid \<in> set (List.map_filter activation_id P)" if "pc \<in> set P" "activation_id pc = Some iid" for pc
    using that by (force simp: List.map_filter_def)
  show ?thesis
  proof
    assume "running P iid"
    then obtain pc where "pc \<in> set P" "activation_id pc = Some iid" unfolding running_def by (auto intro: that)
    with m d show False by (auto simp: distinct_ids_def List.map_filter_def)
  qed
qed

lemma running_remove1:
  "running P iid \<Longrightarrow> activation_id pc \<noteq> Some iid \<Longrightarrow> running (remove1 pc P) iid"
  unfolding running_def using in_set_remove1 [of "Activating iid" pc P] in_set_remove1 [of "Signalled iid _" pc P] by fastforce

lemma running_Cons [simp]: "running (pc # P) iid \<longleftrightarrow> activation_id pc = Some iid \<or> running P iid"
  by (cases pc) (auto simp: running_def)

text \<open>A new activation keeps the invariant; so do steps that leave the interrupt alone.\<close>

lemma mkbp_inv_activate:
  assumes "activate_lock skip e s = (s', r)" and "mkbp_inv (s, h, P)" and "\<And>iid. r = Some iid \<Longrightarrow> \<not> running Q iid"
    and "set Q \<subseteq> set P" and "\<And>i. running P i \<Longrightarrow> running Q i"
  shows "mkbp_inv (s', h, (case r of None \<Rightarrow> Q | Some iid \<Rightarrow> Activating iid # Q))"
  using assms(1)
proof (cases rule: activate_lock_cases)
  case quiet
  then show ?thesis using assms(2,4,5) by (auto simp: mkbp_inv_def)
next
  case go
  then show ?thesis using assms(2,3) by (auto simp: mkbp_inv_def running_def)
qed

lemma mkbp_inv_frame:
  assumes "mkbp_inv (s, h, P)" and "interrupt s' = interrupt s" and "interrupt_id s' = interrupt_id s"
    and "failed_attempts s' = failed_attempts s" and "set Q \<subseteq> set P" and "\<And>i. running P i \<Longrightarrow> running Q i"
  shows "mkbp_inv (s', h, Q)"
  using assms by (auto simp: mkbp_inv_def)

lemma running_other:
  "activation_id pc = None \<Longrightarrow> running P i \<Longrightarrow> running (remove1 pc P) i"
  by (rule running_remove1) simp_all

lemma mkbp_inv_step: "mkbp_step x y \<Longrightarrow> distinct_ids y \<Longrightarrow> mkbp_inv x \<Longrightarrow> mkbp_inv y"
proof (induction rule: mkbp_step.induct)
  case (send_quiet skip e s s' h P)
  then show ?case using mkbp_inv_activate [of skip "BIT e" s s' None h P P] by simp
next
  case (send skip e s s' iid h P)
  then show ?case using mkbp_inv_activate [of skip "BIT e" s s' "Some iid" h P P] distinct_id_fresh by simp
next
  case (signal iid P s h rv)
  have "running (Signalled iid rv # remove1 (Activating iid) P) i" if "running P i" for i
    using running_remove1 [OF that, of "Activating iid"] by auto
  then show ?case using signal set_remove1_subset [of "Activating iid" P] by (auto simp: mkbp_inv_def)
next
  case (sent_stale iid rv P s s' h)
  from sent_stale.hyps(2) show ?case
  proof (cases rule: activate_end_cases)
    case stale
    have "running (remove1 (Signalled iid rv) P) (interrupt_id s)"
      if "running P (interrupt_id s)" "interrupt s = INTERRUPT_INACTIVE_TO_ACTIVE"
      using running_remove1 [OF that(1), of "Signalled iid rv"] stale(3) that(2) by simp
    then show ?thesis
      using sent_stale.prems(2) stale(2) set_remove1_subset [of "Signalled iid rv" P] by (auto simp: mkbp_inv_def)
  qed simp
next
  case (sent iid rv P s s' h)
  from sent.hyps(2) show ?case
  proof (cases rule: activate_end_cases)
    case newest
    then show ?thesis using sent.hyps(1) sent.prems(2) by (auto simp: mkbp_inv_def)
  qed simp
next
  case (schedule P s h)
  then show ?case using mkbp_inv_frame [of s h P "activate_schedule s" "remove1 Scheduling P"] running_other
    by (simp add: activate_schedule_def set_remove1_subset)
next
  case (expire_quiet s d s' h P)
  then show ?case by (elim force_begin_cases) (auto simp: mkbp_inv_def)
next
  case (expire s d s' h P)
  then show ?case by (elim force_begin_cases) (auto simp: mkbp_inv_def)
next
  case (force_quiet P skip s s' h)
  then show ?case
    using mkbp_inv_activate [of skip 0 s s' None h P "remove1 Forcing P"] running_other by (simp add: set_remove1_subset)
next
  case (force P skip s s' iid h)
  then show ?case
    using mkbp_inv_activate [of skip 0 s s' "Some iid" h P "remove1 Forcing P"] running_other distinct_id_fresh
    by (simp add: set_remove1_subset)
next
  case (take_none lst s s' h P)
  then show ?case using mkbp_inv_frame [of s h P s' P] take_next_event_frame by blast
next
  case (take lst s s' i h P)
  then show ?case using mkbp_inv_frame [of s h P s' P] take_next_event_frame [of _ lst s s' "Some i"]
    by (auto simp: mkbp_inv_def)
next
  case (serviced evt P s h)
  then show ?case using mkbp_inv_frame [of s h P s "remove1 (Servicing evt) P"] running_other
    by (simp add: set_remove1_subset)
next
  case (busy evt P s h)
  then show ?case using mkbp_inv_frame [of s h P "put_event_back evt s" "remove1 (Servicing evt) P"] running_other
    by (simp add: set_remove1_subset put_event_back_def)
next
  case (clear_no s s' h P)
  then show ?case by (auto simp: mkbp_inv_def set_inactive_begin_def split: if_splits)
next
  case (clear s s' h P)
  then show ?case by (auto simp: mkbp_inv_def set_inactive_begin_def split: if_splits)
next
  case (cancel P s h)
  then show ?case using mkbp_inv_frame [of s h P "set_inactive_end s" "remove1 Cancelling P"] running_other
    by (simp add: set_remove1_subset set_inactive_end_def)
next
  case (set_mask action mask_type new_mask s s' r st h P)
  then show ?case using mkbp_inv_frame [of s h P s' P] hc_mask_frame by blast
qed

lemma mkbp_inv_reach: "mkbp_reach x y \<Longrightarrow> mkbp_inv x \<Longrightarrow> mkbp_inv y"
  by (induction rule: mkbp_reach.induct) (auto intro: mkbp_inv_step)

subsection \<open>Properties\<close>

text \<open>
  C16: The interrupt never gets stuck in its transition, and counts as active only if the host was told so.
  In every state that interleaved tasks can reach, as long as no activation is overtaken by 255 newer ones:
  an interrupt in \<open>INTERRUPT_INACTIVE_TO_ACTIVE\<close> belongs to an activation that is still running and
  will finish it, the one with the current number; an interrupt in \<open>INTERRUPT_ACTIVE\<close> has been
  signalled to the host and not been withdrawn since, although older activations may finish after a clearing
  and a newer activation have overtaken them; and the retry counter is below 3.
\<close>

theorem mkbp_transition_owned:
  assumes "mkbp_reach (mkbp_init, False, []) (s, h, P)"
  shows "(interrupt s = INTERRUPT_INACTIVE_TO_ACTIVE \<longrightarrow> running P (interrupt_id s)) \<and>
    (interrupt s = INTERRUPT_ACTIVE \<longrightarrow> h) \<and> failed_attempts s < 3"
proof -
  have "mkbp_inv (mkbp_init, False, [])" by (simp add: mkbp_inv_def mkbp_init_def)
  then show ?thesis using mkbp_inv_reach [OF assms] by (simp add: mkbp_inv_def)
qed

definition demo_env :: mkbp_env where
  "demo_env = \<lparr>host_is_sleeping = False, host_get_events = 0\<rparr>"

definition demo_sent :: mkbp_state where
  "demo_sent = mkbp_init\<lparr>events := 8, interrupt := INTERRUPT_INACTIVE_TO_ACTIVE, interrupt_id := 1\<rparr>"

definition demo_active :: mkbp_state where
  "demo_active = demo_sent\<lparr>interrupt := INTERRUPT_ACTIVE\<rparr>"

lemma demo_sent_begin: "activate_lock False (BIT 3) mkbp_init = (demo_sent, Some 1)"
  by (simp add: activate_lock_def demo_sent_def mkbp_init_def BIT_def push_bit_eq_mult)

lemma demo_sent_end: "activate_end EC_SUCCESS 1 demo_sent = (demo_active, True)"
  by (simp add: activate_end_def demo_sent_def demo_active_def)

lemma demo_steps:
  "mkbp_step (mkbp_init, False, P) (demo_sent, False, Activating 1 # P)"
  "mkbp_step (demo_sent, False, Activating 1 # P) (demo_sent, True, Signalled 1 EC_SUCCESS # P)"
  "mkbp_step (demo_sent, True, Signalled 1 EC_SUCCESS # P) (demo_active, True, Scheduling # P)"
  "mkbp_step (demo_active, True, Scheduling # P) (activate_schedule demo_active, True, P)"
  using mkbp_step.send [OF demo_sent_begin] mkbp_step.signal [of 1 "Activating 1 # P" demo_sent False EC_SUCCESS]
    mkbp_step.sent [OF _ demo_sent_end, of "Signalled 1 EC_SUCCESS # P"] mkbp_step.schedule [of "Scheduling # P" demo_active True]
  by simp_all

lemma mkbp_transition_owned_witness: "interrupt demo_active = INTERRUPT_ACTIVE \<and> failed_attempts demo_active < 3"
proof -
  have "mkbp_reach (mkbp_init, False, []) (demo_active, True, [Scheduling])"
    by (rule mkbp_reach.step [OF mkbp_reach.step [OF mkbp_reach.step [OF mkbp_reach.refl demo_steps(1)] demo_steps(2)]
          demo_steps(3)]) (simp_all add: distinct_ids_def List.map_filter_def)
  then show ?thesis using mkbp_transition_owned [of demo_active True "[Scheduling]"] by (simp add: demo_active_def)
qed

text \<open>
  The retry of an unanswered interrupt can get lost. \<open>set_inactive_if_no_events\<close>
  releases the lock before it cancels the deferred retry; an event that arrives and is signalled
  in between has its own retry cancelled. A state is reachable in which no task is running, an
  event is pending and its interrupt active, but no retry is scheduled.
\<close>

lemma mkbp_retry_lost:
  "\<exists>s. mkbp_reach (mkbp_init, False, []) (s, True, []) \<and> interrupt s = INTERRUPT_ACTIVE \<and> events s \<noteq> 0 \<and>
    force_deferred s = None"
proof -
  let ?s2 = "set_inactive_end (activate_schedule demo_active)"
  have "set_inactive_begin mkbp_init = (mkbp_init, True)"
    by (simp add: set_inactive_begin_def mkbp_init_def)
  then have 0: "mkbp_step (mkbp_init, False, []) (mkbp_init, False, [Cancelling])" by (rule mkbp_step.clear)
  have 5: "mkbp_step (activate_schedule demo_active, True, [Cancelling]) (?s2, True, [])"
    using mkbp_step.cancel [of "[Cancelling]" "activate_schedule demo_active" True] by simp
  have "mkbp_reach (mkbp_init, False, []) (?s2, True, [])"
    by (rule mkbp_reach.step [OF mkbp_reach.step [OF mkbp_reach.step [OF mkbp_reach.step [OF mkbp_reach.step
          [OF mkbp_reach.step [OF mkbp_reach.refl 0] demo_steps(1)] demo_steps(2)] demo_steps(3)] demo_steps(4)] 5])
      (simp_all add: distinct_ids_def List.map_filter_def)
  then show ?thesis
    by (intro exI [of _ ?s2]) (simp add: set_inactive_end_def activate_schedule_def demo_active_def demo_sent_def)
qed

text \<open>
  A host that does not answer is interrupted three times per burst. With an event pending and
  the host awake, an activation makes the interrupt active and arms the retry; each of the first
  two expiries signals again and re-arms it, and the third gives up: the interrupt is inactive,
  so that a later event starts afresh, the counter is 0 and no retry is armed.
\<close>

definition expire_force :: "mkbp_env \<Rightarrow> mkbp_state \<Rightarrow> mkbp_state" where
  "expire_force env s = force_mkbp_if_events env EC_SUCCESS (s\<lparr>force_deferred := None\<rparr>)"

lemma mkbp_bounded_retries:
  assumes "\<not> host_is_sleeping env" and "interrupt s = INTERRUPT_INACTIVE" and "failed_attempts s = 0"
    and "events s OR e \<noteq> 0"
  defines "s1 \<equiv> activate_mkbp_with_events env EC_SUCCESS e s"
  shows "interrupt s1 = INTERRUPT_ACTIVE \<and> force_deferred s1 = Some SECOND \<and>
    interrupt (expire_force env s1) = INTERRUPT_ACTIVE \<and>
    force_deferred (expire_force env s1) = Some SECOND \<and>
    interrupt (expire_force env (expire_force env s1)) = INTERRUPT_ACTIVE \<and>
    force_deferred (expire_force env (expire_force env s1)) = Some SECOND \<and>
    interrupt (expire_force env (expire_force env (expire_force env s1))) = INTERRUPT_INACTIVE \<and>
    force_deferred (expire_force env (expire_force env (expire_force env s1))) = None \<and>
    failed_attempts (expire_force env (expire_force env (expire_force env s1))) = 0"
proof -
  have act: "activate_mkbp_with_events env EC_SUCCESS e t =
      t\<lparr>events := events t OR e, interrupt := INTERRUPT_ACTIVE, interrupt_id := interrupt_id t + 1,
        force_deferred := Some SECOND\<rparr>"
    if "interrupt t = INTERRUPT_INACTIVE" "events t OR e \<noteq> 0" for t e
    using that assms(1) by (simp add: activate_mkbp_with_events_def activate_begin_def skip_interrupt_def activate_lock_def
          activate_end_def activate_schedule_def Let_def)
  have again: "expire_force env t = t\<lparr>interrupt := INTERRUPT_ACTIVE,
        ap_comm_failure_count := ap_comm_failure_count t + 1, failed_attempts := failed_attempts t + 1,
        interrupt_id := interrupt_id t + 1, force_deferred := Some SECOND\<rparr>"
    if "interrupt t = INTERRUPT_ACTIVE" "events t \<noteq> 0" "failed_attempts t + 1 < 3" for t
    using that by (simp add: expire_force_def force_mkbp_if_events_def force_begin_def Let_def act)
  show ?thesis
    using assms(2-4) unfolding s1_def
    by (simp add: act again) (simp add: expire_force_def force_mkbp_if_events_def force_begin_def Let_def)
qed

lemma mkbp_bounded_retries_witness:
  "interrupt (activate_mkbp_with_events demo_env EC_SUCCESS 8 mkbp_init) = INTERRUPT_ACTIVE"
  using mkbp_bounded_retries [of demo_env mkbp_init 8] by (simp add: demo_env_def mkbp_init_def)

end
