(* ===== verification/MkbpFifo.thy ===== *)
theory MkbpFifo
  imports MkbpEvent Fifo
begin

section \<open>The event FIFO of common/mkbp_fifo.c and the host's polling\<close>

text \<open>
  The FIFO of matrix keyboard events with the host command of \<open>common/mkbp_event.c\<close> that
  drains it. A FIFO entry is an event type with its 16 data bytes; the indices, kept below
  \<open>FIFO_DEPTH\<close> by their updates, are natural numbers. Each function holds its mutexes from
  start to end, so it runs as one step. The table of event sources is a parameter, with the
  sources that read the FIFO given as the code declares them.
\<close>

declare put_event_back_def [simp]

definition FIFO_DEPTH :: nat where "FIFO_DEPTH = 16"
definition KEYBOARD_COLS_MAX :: nat where "KEYBOARD_COLS_MAX = 13"
definition EC_ERROR_BUSY_code :: int where "EC_ERROR_BUSY_code = 6"
definition EC_ERROR_UNKNOWN_code :: int where "EC_ERROR_UNKNOWN_code = 1"

type_synonym fifo_entry = "u8 \<times> u8 list"

record mkbp =
  fifo_start :: nat
  fifo_end :: nat
  fifo_entries :: nat
  fifo_max_depth :: nat
  fifo :: "fifo_entry list"
  last_evt :: nat
  ev :: mkbp_state

definition get_data_size :: "u8 \<Rightarrow> nat" where
  "get_data_size e =
     (if unat e = EC_MKBP_EVENT_KEY_MATRIX then KEYBOARD_COLS_MAX
      else if unat e = EC_MKBP_EVENT_HOST_EVENT64 then 8
      else if unat e = EC_MKBP_EVENT_HOST_EVENT \<or> unat e = EC_MKBP_EVENT_BUTTON \<or>
              unat e = EC_MKBP_EVENT_SWITCH \<or> unat e = EC_MKBP_EVENT_SYSRQ then 4
      else 0)"

definition fifo_remove :: "mkbp \<Rightarrow> mkbp \<times> ec_error_list \<times> u8 list" where
  "fifo_remove m =
     (if fifo_entries m = 0 then
        let last = (fifo_start m + FIFO_DEPTH - 1) mod FIFO_DEPTH;
            size' = get_data_size (fst (fifo m ! last))
        in (m, EC_ERROR_UNKNOWN, take size' (snd (fifo m ! last)))
      else
        let size' = get_data_size (fst (fifo m ! fifo_start m));
            out = take size' (snd (fifo m ! fifo_start m))
        in (m\<lparr>fifo_start := (fifo_start m + 1) mod FIFO_DEPTH, fifo_entries := fifo_entries m - 1\<rparr>,
            EC_SUCCESS, out))"

definition mkbp_fifo_depth_update :: "nat \<Rightarrow> mkbp \<Rightarrow> mkbp" where
  "mkbp_fifo_depth_update new_max_depth m = m\<lparr>fifo_max_depth := new_max_depth\<rparr>"

fun clear_keyboard_loop :: "nat \<Rightarrow> nat list \<Rightarrow> fifo_entry list \<times> nat \<times> nat \<Rightarrow> fifo_entry list \<times> nat \<times> nat" where
  "clear_keyboard_loop start [] acc = acc"
| "clear_keyboard_loop start (i # is) (f, fend, new_entries) =
     (let cur = (start + i) mod FIFO_DEPTH
      in if unat (fst (f ! cur)) = EC_MKBP_EVENT_KEY_MATRIX
         then clear_keyboard_loop start is (f, fend, new_entries)
         else clear_keyboard_loop start is
                (f[fend := f ! cur], (fend + 1) mod FIFO_DEPTH, new_entries + 1))"

definition mkbp_fifo_clear_keyboard :: "mkbp \<Rightarrow> mkbp" where
  "mkbp_fifo_clear_keyboard m =
     (let (f, fend, n) = clear_keyboard_loop (fifo_start m) [0..<fifo_entries m]
                           (fifo m, fifo_start m, 0)
      in m\<lparr>fifo := f, fifo_end := fend, fifo_entries := n\<rparr>)"

text \<open>The clearing loop resets the size of a version-0 entry, the type and 13 data bytes.\<close>

definition mkbp_clear_fifo :: "mkbp \<Rightarrow> mkbp" where
  "mkbp_clear_fifo m = m\<lparr>fifo_start := 0, fifo_end := 0, fifo_entries := 0,
     fifo := map (\<lambda>(t, d). (0, replicate 13 0 @ drop 13 d)) (fifo m)\<rparr>"

definition mkbp_fifo_add ::
    "mkbp_env \<Rightarrow> ec_error_list \<Rightarrow> u8 \<Rightarrow> u8 list \<Rightarrow> mkbp \<Rightarrow> (mkbp \<times> ec_error_list) option" where
  "mkbp_fifo_add env rv event_type buffp m =
     (if fifo_max_depth m \<le> fifo_entries m then Some (m, EC_ERROR_OVERFLOW)
      else do {
        let size' = get_data_size event_type;
        bs \<leftarrow> mem_read buffp 0 size';
        let old = fifo m ! fifo_end m;
        f \<leftarrow> store (fifo m) (fifo_end m) (event_type, bs @ drop size' (snd old));
        let m1 = m\<lparr>fifo := f, fifo_end := (fifo_end m + 1) mod FIFO_DEPTH,
                   fifo_entries := fifo_entries m + 1\<rparr>;
        let (e, sent) = mkbp_send_event env rv (unat event_type) (ev m1);
        let m2 = m1\<lparr>ev := e\<rparr>;
        Some (if \<not> sent \<and> fifo_entries m2 = 1 then fst (fifo_remove m2) else m2, EC_SUCCESS)
      })"

definition mkbp_fifo_get_next_event ::
    "mkbp_env \<Rightarrow> ec_error_list \<Rightarrow> nat \<Rightarrow> mkbp \<Rightarrow> mkbp \<times> int \<times> u8 list" where
  "mkbp_fifo_get_next_event env rv evt m =
     (let t = fst (fifo m ! fifo_start m)
      in if fifo_entries m = 0 then (m, -1, [])
         else if t \<noteq> of_nat evt then (m, - EC_ERROR_BUSY_code, [])
         else
           let (m1, _, out) = fifo_remove m;
               m2 = (if fifo_entries m1 \<noteq> 0
                     then m1\<lparr>ev := fst (mkbp_send_event env rv (unat (fst (fifo m1 ! fifo_start m1))) (ev m1))\<rparr>
                     else m1);
               size' = get_data_size t
           in (m2, if size' \<noteq> 0 then int size' else - EC_ERROR_UNKNOWN_code, out))"

subsection \<open>The host command\<close>

text \<open>An event source: the new state, its result and the data.\<close>

type_synonym event_source = "mkbp \<Rightarrow> mkbp \<times> int \<times> u8 list"

text \<open>
  The loop of \<open>mkbp_get_next_event\<close> with fuel, \<open>None\<close> while it has not left the loop.
  The results are the state, the status, the event type byte, the response size and the data.
\<close>

fun mkbp_get_next_event ::
    "nat \<Rightarrow> (nat \<Rightarrow> event_source option) \<Rightarrow> nat \<Rightarrow> mkbp \<Rightarrow>
     (mkbp \<times> ec_status \<times> u8 \<times> int \<times> u8 list) option" where
  "mkbp_get_next_event 0 srcs version m = None"
| "mkbp_get_next_event (Suc fuel) srcs version m =
     (case take_next_event [0..<EC_MKBP_EVENT_COUNT] (last_evt m) (ev m) of
        (s1, None) \<Rightarrow>
          (let (s2, cleared) = set_inactive_if_no_events s1
           in if cleared then Some (m\<lparr>ev := s2\<rparr>, EC_RES_UNAVAILABLE, 0, 0, [])
              else mkbp_get_next_event fuel srcs version (m\<lparr>ev := s2\<rparr>))
      | (s1, Some i) \<Rightarrow>
          (let evt = (i + last_evt m) mod EC_MKBP_EVENT_COUNT;
               m1 = m\<lparr>ev := s1, last_evt := evt + 1\<rparr>
           in case srcs evt of
                None \<Rightarrow> Some (m1, EC_RES_ERROR, 0, 0, [])
              | Some get_data \<Rightarrow>
                  (let (m2, data_size, bs) = get_data m1
                   in if data_size = - EC_ERROR_BUSY_code
                      then mkbp_get_next_event fuel srcs version
                             (m2\<lparr>ev := put_event_back evt (ev m2)\<rparr>)
                      else
                        let (s3, cleared) = set_inactive_if_no_events (ev m2);
                            ty = (if \<not> cleared \<and> 2 \<le> version then of_nat evt OR EC_MKBP_HAS_MORE_EVENTS
                                  else of_nat evt);
                            m3 = m2\<lparr>ev := s3\<rparr>
                        in if data_size < 0 then Some (m3, EC_RES_ERROR, ty, 0, bs)
                           else Some (m3, EC_RES_SUCCESS, ty, 1 + data_size, bs))))"

text \<open>The sources declared over the FIFO.\<close>

definition fifo_source :: "mkbp_env \<Rightarrow> ec_error_list \<Rightarrow> nat \<Rightarrow> event_source option" where
  "fifo_source env rv evt =
     (if evt \<in> {EC_MKBP_EVENT_KEY_MATRIX, EC_MKBP_EVENT_BUTTON, EC_MKBP_EVENT_SWITCH, EC_MKBP_EVENT_SYSRQ}
      then Some (mkbp_fifo_get_next_event env rv evt) else None)"

definition keyboard_clear_buffer :: "mkbp \<Rightarrow> mkbp" where
  "keyboard_clear_buffer m = mkbp_fifo_clear_keyboard m"

definition keyboard_get_next_event :: "mkbp_env \<Rightarrow> ec_error_list \<Rightarrow> event_source" where
  "keyboard_get_next_event env rv = mkbp_fifo_get_next_event env rv EC_MKBP_EVENT_KEY_MATRIX"


subsection \<open>The list a FIFO holds\<close>

definition norm_entry :: "fifo_entry \<Rightarrow> fifo_entry" where
  "norm_entry = (\<lambda>(t, d). (t, take (get_data_size t) d))"

definition fifo_list :: "mkbp \<Rightarrow> fifo_entry list" where
  "fifo_list m = map (\<lambda>i. norm_entry (fifo m ! ((fifo_start m + i) mod FIFO_DEPTH))) [0..<fifo_entries m]"

definition fifo_wf :: "mkbp \<Rightarrow> bool" where
  "fifo_wf m \<longleftrightarrow> length (fifo m) = FIFO_DEPTH \<and> list_all (\<lambda>e. length (snd e) = 16) (fifo m) \<and>
     fifo_start m < FIFO_DEPTH \<and> fifo_end m = (fifo_start m + fifo_entries m) mod FIFO_DEPTH \<and>
     fifo_entries m \<le> fifo_max_depth m \<and> fifo_max_depth m \<le> FIFO_DEPTH"

lemma length_fifo_list [simp]: "length (fifo_list m) = fifo_entries m"
  by (simp add: fifo_list_def)

lemma nth_fifo_list:
  "i < fifo_entries m \<Longrightarrow> fifo_list m ! i = norm_entry (fifo m ! ((fifo_start m + i) mod FIFO_DEPTH))"
  by (simp add: fifo_list_def)

lemma get_data_size_le: "get_data_size t \<le> 16"
  by (simp add: get_data_size_def KEYBOARD_COLS_MAX_def)

lemma ring_pos_neq:
  assumes "i < j" and "j < FIFO_DEPTH"
  shows "(s + i) mod FIFO_DEPTH \<noteq> (s + j) mod FIFO_DEPTH"
  using mod_offset_inj [of s i FIFO_DEPTH j] assms by auto

definition mkbp_of :: "nat \<Rightarrow> mkbp \<Rightarrow> bool" where
  "mkbp_of D m \<longleftrightarrow> fifo_wf m \<and> fifo_max_depth m = D"

definition mkbp_enq :: "mkbp_env \<Rightarrow> ec_error_list \<Rightarrow> mkbp \<Rightarrow> fifo_entry \<Rightarrow> (mkbp \<times> bool) option" where
  "mkbp_enq env rv m e = map_option (\<lambda>(m', r). (m', r = EC_SUCCESS)) (mkbp_fifo_add env rv (fst e) (snd e) m)"

definition mkbp_deq :: "mkbp \<Rightarrow> (mkbp \<times> fifo_entry option) option" where
  "mkbp_deq m = (let (m', r, out) = fifo_remove m
     in Some (m', if r = EC_SUCCESS then Some (fst (fifo m ! fifo_start m), out) else None))"

lemma mkbp_enq_law:
  assumes m: "mkbp_of D m" and e: "length (snd e) = get_data_size (fst e)"
  shows "\<exists>m'. mkbp_enq env rv m e = Some (m', length (fifo_list m) < D) \<and> mkbp_of D m' \<and>
    fifo_list m' = (if length (fifo_list m) < D then fifo_list m @ [e] else fifo_list m)"
proof (cases "fifo_entries m < D")
  case False
  then show ?thesis using m by (simp add: mkbp_enq_def mkbp_fifo_add_def mkbp_of_def)
next
  case True
  have wf: "length (fifo m) = FIFO_DEPTH" "list_all (\<lambda>e. length (snd e) = 16) (fifo m)"
    "fifo_start m < FIFO_DEPTH" "fifo_end m = (fifo_start m + fifo_entries m) mod FIFO_DEPTH"
    "fifo_max_depth m = D" "D \<le> FIFO_DEPTH"
    using m by (simp_all add: mkbp_of_def fifo_wf_def)
  have fe: "fifo_end m < length (fifo m)" using wf by (simp add: FIFO_DEPTH_def)
  define new where "new = (fst e, snd e @ drop (get_data_size (fst e)) (snd (fifo m ! fifo_end m)))"
  define m' where "m' = m\<lparr>fifo := (fifo m)[fifo_end m := new], fifo_end := (fifo_end m + 1) mod FIFO_DEPTH,
    fifo_entries := fifo_entries m + 1, ev := fst (mkbp_send_event env rv (unat (fst e)) (ev m))\<rparr>"
  have add: "mkbp_fifo_add env rv (fst e) (snd e) m = Some (m', EC_SUCCESS)"
    using True wf fe e
    by (simp add: mkbp_fifo_add_def mem_read_def store_def mkbp_send_event_def m'_def new_def Let_def)
  have ln: "length (snd new) = 16"
    using wf(2) fe e get_data_size_le [of "fst e"] by (simp add: new_def list_all_length)
  have wf': "mkbp_of D m'"
    using True wf ln
    by (auto simp: mkbp_of_def fifo_wf_def m'_def list_all_length nth_list_update mod_Suc_eq mod_simps)
  have "fifo_list m' = fifo_list m @ [e]"
  proof (rule nth_equalityI)
    fix i assume "i < length (fifo_list m')"
    then have i: "i \<le> fifo_entries m" by (simp add: m'_def)
    show "fifo_list m' ! i = (fifo_list m @ [e]) ! i"
    proof (cases "i = fifo_entries m")
      case True
      then show ?thesis using wf fe e
        by (simp add: nth_fifo_list m'_def nth_append norm_entry_def new_def)
    next
      case False
      then have "i < fifo_entries m" using i by simp
      moreover have "(fifo_start m + i) mod FIFO_DEPTH \<noteq> fifo_end m"
        using ring_pos_neq [of i "fifo_entries m"] wf True \<open>i < fifo_entries m\<close> by simp
      ultimately show ?thesis using i
        by (simp add: nth_fifo_list m'_def nth_append)
    qed
  qed (simp add: m'_def)
  then show ?thesis using add wf' True by (simp add: mkbp_enq_def)
qed

lemma fifo_remove_law:
  assumes wf: "fifo_wf m" and "fifo_entries m \<noteq> 0"
  shows "\<exists>m'. fifo_remove m = (m', EC_SUCCESS, snd (hd (fifo_list m))) \<and> fifo_wf m' \<and>
    fifo_max_depth m' = fifo_max_depth m \<and> fifo_list m' = tl (fifo_list m) \<and> ev m' = ev m \<and>
    fst (fifo m ! fifo_start m) = fst (hd (fifo_list m)) \<and> fifo m' = fifo m"
proof -
  define m' where "m' = m\<lparr>fifo_start := (fifo_start m + 1) mod FIFO_DEPTH, fifo_entries := fifo_entries m - 1\<rparr>"
  have w: "fifo_start m < FIFO_DEPTH" "fifo_end m = (fifo_start m + fifo_entries m) mod FIFO_DEPTH"
    "fifo_entries m \<le> FIFO_DEPTH"
    using wf by (simp_all add: fifo_wf_def)
  have hd: "hd (fifo_list m) = norm_entry (fifo m ! fifo_start m)"
    using assms(2) w(1) by (simp add: hd_conv_nth nth_fifo_list flip: length_0_conv)
  have "fifo_remove m = (m', EC_SUCCESS, snd (hd (fifo_list m)))"
    using assms(2) by (simp add: fifo_remove_def m'_def hd norm_entry_def Let_def split: prod.split)
  moreover have "fifo_wf m'"
  proof -
    have "((fifo_start m + 1) mod FIFO_DEPTH + (fifo_entries m - 1)) mod FIFO_DEPTH =
        (fifo_start m + fifo_entries m) mod FIFO_DEPTH"
      using assms(2) by (cases "fifo_entries m") (simp_all add: mod_simps)
    then show ?thesis using wf assms(2) by (auto simp: fifo_wf_def m'_def FIFO_DEPTH_def)
  qed
  moreover have "fifo_list m' = tl (fifo_list m)"
    by (rule nth_equalityI)
      (use assms(2) in \<open>simp_all add: m'_def nth_tl nth_fifo_list mod_simps\<close>)
  ultimately show ?thesis by (auto simp: m'_def hd norm_entry_def split: prod.split)
qed

lemma mkbp_deq_law:
  assumes m: "mkbp_of D m"
  shows "\<exists>m'. mkbp_deq m = Some (m', if fifo_list m = [] then None else Some (hd (fifo_list m))) \<and>
    mkbp_of D m' \<and> fifo_list m' = tl (fifo_list m)"
proof (cases "fifo_entries m = 0")
  case True
  then have "fifo_list m = []" by (simp flip: length_0_conv)
  then show ?thesis using True m by (simp add: mkbp_deq_def fifo_remove_def Let_def)
next
  case False
  have wf: "fifo_wf m" using m by (simp add: mkbp_of_def)
  have "fifo_list m \<noteq> []" using False by (simp flip: length_0_conv)
  then show ?thesis using fifo_remove_law [OF wf False] m
    by (auto simp: mkbp_deq_def mkbp_of_def)
qed

interpretation mkbpq: bounded_fifo "mkbp_of D" fifo_list D "\<lambda>e. length (snd e) = get_data_size (fst e)"
  "mkbp_enq env rv" mkbp_deq
  for D env rv
  by unfold_locales (erule (1) mkbp_enq_law, erule mkbp_deq_law)


subsection \<open>Clearing the keyboard events\<close>

abbreviation is_key :: "fifo_entry \<Rightarrow> bool" where
  "is_key e \<equiv> unat (fst e) = EC_MKBP_EVENT_KEY_MATRIX"

text \<open>
  The loop keeps the kept entries at the front: after \<open>k\<close> entries it has moved the \<open>n\<close>
  kept ones to the first \<open>n\<close> positions and not touched those it has yet to read.
\<close>

lemma clear_keyboard_loop:
  assumes "length f = FIFO_DEPTH" and "n \<le> k" and "k \<le> c" and "c \<le> FIFO_DEPTH"
    and "fend = (start + n) mod FIFO_DEPTH"
  obtains f' n' where "clear_keyboard_loop start [k..<c] (f, fend, n) = (f', (start + n') mod FIFO_DEPTH, n')"
    and "length f' = FIFO_DEPTH" and "n' \<le> c" and "set f' \<subseteq> set f"
    and "map (\<lambda>i. f' ! ((start + i) mod FIFO_DEPTH)) [0..<n'] =
      map (\<lambda>i. f ! ((start + i) mod FIFO_DEPTH)) [0..<n] @
      filter (\<lambda>e. \<not> is_key e) (map (\<lambda>i. f ! ((start + i) mod FIFO_DEPTH)) [k..<c])"
  using assms
proof (induction "c - k" arbitrary: k n f fend thesis)
  case 0
  then show ?case by simp
next
  case (Suc d)
  let ?at = "\<lambda>f i. f ! ((start + i) mod FIFO_DEPTH)"
  have k: "k < c" using Suc(2) by simp
  then have up: "[k..<c] = k # [Suc k..<c]" by (simp add: upt_conv_Cons)
  have d: "d = c - Suc k" using Suc(2) by simp
  show ?case
  proof (cases "is_key (?at f k)")
    case True
    show ?thesis
      by (rule Suc.hyps(1) [OF d, where n = n and f = f and fend = fend]) (use Suc.prems k up True in \<open>auto simp: Let_def\<close>)
  next
    case False
    define g where "g = f[fend := ?at f k]"
    have kin: "(start + k) mod FIFO_DEPTH < length f" using Suc.prems(2) by (simp add: FIFO_DEPTH_def)
    have fin: "fend < length f" using Suc.prems(2,6) by (simp add: FIFO_DEPTH_def)
    have g_later: "?at g i = ?at f i" if "k < i" "i < c" for i
      using ring_pos_neq [of n i start] that Suc.prems by (simp add: g_def)
    have g_early: "?at g i = ?at f i" if "i < n" for i
      using ring_pos_neq [of i n start] that Suc.prems k by (simp add: g_def)
    have g_n: "?at g n = ?at f k" using fin Suc.prems(6) by (simp add: g_def)
    have sub: "set g \<subseteq> set f" using kin unfolding g_def by (intro subset_trans [OF set_update_subset_insert]) auto
    have m1: "map (?at g) [0..<Suc n] = map (?at f) [0..<n] @ [?at f k]"
      using g_early g_n by simp
    have m2: "map (?at g) [Suc k..<c] = map (?at f) [Suc k..<c]" using g_later by simp
    obtain f' n' where r: "clear_keyboard_loop start [Suc k..<c] (g, (fend + 1) mod FIFO_DEPTH, Suc n) =
        (f', (start + n') mod FIFO_DEPTH, n')" "length f' = FIFO_DEPTH" "n' \<le> c" "set f' \<subseteq> set g"
      "map (?at f') [0..<n'] = map (?at g) [0..<Suc n] @ filter (\<lambda>e. \<not> is_key e) (map (?at g) [Suc k..<c])"
      by (rule Suc.hyps(1) [OF d, where n = "Suc n" and f = g and fend = "(fend + 1) mod FIFO_DEPTH"])
        (use Suc.prems k in \<open>auto simp: g_def mod_simps\<close>)
    show ?thesis
    proof (rule Suc.prems(1))
      show "clear_keyboard_loop start [k..<c] (f, fend, n) = (f', (start + n') mod FIFO_DEPTH, n')"
        using r(1) False up by (simp add: Let_def g_def)
      show "map (?at f') [0..<n'] = map (?at f) [0..<n] @ filter (\<lambda>e. \<not> is_key e) (map (?at f) [k..<c])"
        unfolding r(5) m1 m2 up using False by simp
    qed (use r sub in auto)
  qed
qed

lemma clear_keyboard_list:
  assumes wf: "fifo_wf m"
  shows "fifo_wf (mkbp_fifo_clear_keyboard m)"
    and "fifo_list (mkbp_fifo_clear_keyboard m) = filter (\<lambda>e. \<not> is_key e) (fifo_list m)"
    and "ev (mkbp_fifo_clear_keyboard m) = ev m"
proof -
  let ?s = "fifo_start m" and ?c = "fifo_entries m"
  let ?at = "\<lambda>f i. f ! ((?s + i) mod FIFO_DEPTH)"
  have w: "length (fifo m) = FIFO_DEPTH" "?c \<le> FIFO_DEPTH" "?s < FIFO_DEPTH"
    "?s = (?s + 0) mod FIFO_DEPTH"
    using wf by (simp_all add: fifo_wf_def)
  obtain f' n' where r: "clear_keyboard_loop ?s [0..<?c] (fifo m, ?s, 0) = (f', (?s + n') mod FIFO_DEPTH, n')"
    "length f' = FIFO_DEPTH" "n' \<le> ?c" "set f' \<subseteq> set (fifo m)"
    "map (?at f') [0..<n'] = map (?at (fifo m)) [0..<0] @ filter (\<lambda>e. \<not> is_key e) (map (?at (fifo m)) [0..<?c])"
    using clear_keyboard_loop [OF w(1) le_refl le0 w(2,4)] by metis
  show "fifo_wf (mkbp_fifo_clear_keyboard m)"
    using wf r by (auto simp: mkbp_fifo_clear_keyboard_def fifo_wf_def list_all_iff)
  show "ev (mkbp_fifo_clear_keyboard m) = ev m" by (simp add: mkbp_fifo_clear_keyboard_def r(1))
  have nk: "is_key (norm_entry e) = is_key e" for e by (simp add: norm_entry_def split: prod.split)
  have "fifo_list (mkbp_fifo_clear_keyboard m) = map norm_entry (map (?at f') [0..<n'])"
    by (simp add: fifo_list_def mkbp_fifo_clear_keyboard_def r(1))
  also have "\<dots> = map norm_entry (filter (\<lambda>e. \<not> is_key e) (map (?at (fifo m)) [0..<?c]))"
    by (simp only: r(5)) simp
  also have "\<dots> = filter (\<lambda>e. \<not> is_key e) (map norm_entry (map (?at (fifo m)) [0..<?c]))"
    by (simp add: filter_map comp_def nk)
  finally show "fifo_list (mkbp_fifo_clear_keyboard m) = filter (\<lambda>e. \<not> is_key e) (fifo_list m)"
    by (simp add: fifo_list_def comp_def)
qed


subsection \<open>The polling loop\<close>

lemma BIT_and: "w AND BIT n \<noteq> 0 \<longleftrightarrow> bit w n"
proof (cases "n < 32")
  case True
  then show ?thesis using and_exp_eq_0_iff_not_bit [of w n] by (simp add: BIT_def push_bit_eq_mult)
next
  case False
  then have "BIT n = 0" by (intro bit_word_eqI) (auto simp: BIT_def bit_simps)
  then show ?thesis using False by (simp add: not_bit_word)
qed

lemma bit_BIT: "bit (BIT n) k \<longleftrightarrow> k = n \<and> n < 32"
  by (auto simp: BIT_def bit_simps)

lemma clear_unset_bit: "\<not> bit w n \<Longrightarrow> w AND NOT (BIT n) = w"
  by (rule bit_word_eqI) (auto simp: bit_simps bit_BIT)

lemma restore_bit: "bit w n \<Longrightarrow> (w AND NOT (BIT n)) OR BIT n = w"
  by (rule bit_word_eqI) (auto simp: bit_simps bit_BIT)

lemma take_next_event:
  "take_next_event is lst s = (s', r) \<Longrightarrow> sorted_wrt (<) is \<Longrightarrow>
   (case r of
      None \<Rightarrow> s' = s \<and> (\<forall>j \<in> set is. \<not> bit (events s) ((lst + j) mod EC_MKBP_EVENT_COUNT))
    | Some i \<Rightarrow> i \<in> set is \<and> bit (events s) ((lst + i) mod EC_MKBP_EVENT_COUNT) \<and>
        s' = s\<lparr>events := events s AND NOT (BIT ((lst + i) mod EC_MKBP_EVENT_COUNT))\<rparr> \<and>
        (\<forall>j \<in> set is. j < i \<longrightarrow> \<not> bit (events s) ((lst + j) mod EC_MKBP_EVENT_COUNT)))"
proof (induction "is" arbitrary: s)
  case Nil
  then show ?case by simp
next
  case (Cons i "is")
  let ?e = "(lst + i) mod EC_MKBP_EVENT_COUNT"
  show ?case
  proof (cases "bit (events s) ?e")
    case True
    then have "events s AND BIT ?e \<noteq> 0" by (simp add: BIT_and)
    then show ?thesis using Cons.prems True by (fastforce simp: take_event_if_set_def)
  next
    case False
    then have "take_event_if_set ?e s = (s, False)"
      using BIT_and [of "events s" ?e] by (simp add: take_event_if_set_def clear_unset_bit)
    then have n: "take_next_event is lst s = (s', r)" and srt: "sorted_wrt (<) is"
      and gt: "\<forall>x \<in> set is. i < x"
      using Cons.prems by simp_all
    show ?thesis using Cons.IH [OF n srt] False gt by (cases r) auto
  qed
qed

lemma ring13_reach:
  assumes "h < 13"
  shows "\<exists>D<13. ((L::nat) + D) mod 13 = h"
proof -
  define r where "r = L mod 13"
  have r: "r < 13" and shift: "(L + D) mod 13 = (r + D) mod 13" for D
    by (simp_all add: r_def mod_add_left_eq)
  show ?thesis
  proof (cases "r \<le> h")
    case True
    then have "(L + (h - r)) mod 13 = h" using assms by (simp only: shift) simp
    then show ?thesis using assms by (intro exI [of _ "h - r"]) simp
  next
    case False
    then have "(L + (h + 13 - r)) mod 13 = h" using assms r by (simp only: shift) simp
    then show ?thesis using False by (intro exI [of _ "h + 13 - r"]) simp
  qed
qed

lemma ring13_shift: "((x::nat) mod 13 + 1 + k) mod 13 = (x + 1 + k) mod 13"
  by (metis add.assoc mod_add_left_eq)

text \<open>A source of another type than the head leaves the FIFO as it is.\<close>

lemma fifo_source_busy:
  assumes "fifo_source env rv evt = Some get_data" and "get_data m = (m', r, bs)"
    and "fifo_entries m \<noteq> 0" and "evt < 13"
  shows "unat (fst (fifo m ! fifo_start m)) \<noteq> evt \<Longrightarrow> m' = m \<and> r = - EC_ERROR_BUSY_code"
    and "unat (fst (fifo m ! fifo_start m)) = evt \<Longrightarrow> r \<noteq> - EC_ERROR_BUSY_code"
proof -
  let ?t = "fst (fifo m ! fifo_start m)"
  have t: "?t = of_nat evt \<longleftrightarrow> unat ?t = evt"
    using of_nat_eq_word [of evt ?t] assms(4) by (auto simp: eq_commute)
  have g: "(m', r, bs) = mkbp_fifo_get_next_event env rv evt m"
    using assms(1,2) by (auto simp: fifo_source_def split: if_splits)
  show "m' = m \<and> r = - EC_ERROR_BUSY_code" if "unat ?t \<noteq> evt"
    using g t that assms(3) by (simp add: mkbp_fifo_get_next_event_def)
  show "r \<noteq> - EC_ERROR_BUSY_code" if "unat ?t = evt"
    using g t that assms(3)
    by (auto simp: mkbp_fifo_get_next_event_def Let_def EC_ERROR_BUSY_code_def EC_ERROR_UNKNOWN_code_def
        split: prod.splits if_splits)
qed

lemma get_next_head:
  assumes "fifo_entries m \<noteq> 0" and "bit (events (ev m)) h" and "h = unat (fst (fifo m ! fifo_start m))"
    and "h < 13" and "(last_evt m + D) mod 13 = h" and "D < 13" and "D < fuel"
  shows "mkbp_get_next_event fuel (fifo_source env rv) v m \<noteq> None"
  using assms
proof (induction D arbitrary: m fuel rule: less_induct)
  case (less D)
  obtain f where fuel: "fuel = Suc f" using less.prems(7) by (cases fuel) auto
  obtain s1 r where tn: "take_next_event [0..<13] (last_evt m) (ev m) = (s1, r)"
    by (cases "take_next_event [0..<13] (last_evt m) (ev m)")
  note tk = take_next_event [OF tn]
  have hb: "bit (events (ev m)) ((last_evt m + D) mod EC_MKBP_EVENT_COUNT)"
    using less.prems(2,5) by (simp add: EC_MKBP_EVENT_COUNT_def)
  have Din: "D \<in> set [0..<13]" using less.prems(6) by simp
  obtain i where i: "r = Some i" using tk hb Din by (cases r) auto
  let ?e = "(i + last_evt m) mod 13"
  have ib: "bit (events (ev m)) ?e" and s1: "s1 = (ev m)\<lparr>events := events (ev m) AND NOT (BIT ?e)\<rparr>"
    and i13: "i < 13"
    using tk i by (auto simp: EC_MKBP_EVENT_COUNT_def add.commute)
  have iD: "i \<le> D"
  proof (rule ccontr)
    assume "\<not> i \<le> D"
    then show False using tk i hb Din by auto
  qed
  let ?m1 = "m\<lparr>ev := s1, last_evt := ?e + 1\<rparr>"
  show ?case
  proof (cases "fifo_source env rv ?e")
    case None
    then show ?thesis using tn i by (simp add: fuel EC_MKBP_EVENT_COUNT_def Let_def)
  next
    case (Some gd)
    obtain m2 x bs where g: "gd ?m1 = (m2, x, bs)" by (cases "gd ?m1")
    have e13: "?e < 13" by simp
    have en: "fifo_entries ?m1 \<noteq> 0" using less.prems(1) by simp
    show ?thesis
    proof (cases "?e = h")
      case True
      then have "x \<noteq> - EC_ERROR_BUSY_code"
        using fifo_source_busy(2) [OF Some g en e13] less.prems(3) by simp
      then show ?thesis using tn i Some g
        by (simp add: fuel EC_MKBP_EVENT_COUNT_def Let_def split: prod.splits)
    next
      case False
      have "i \<noteq> D" using False less.prems(5) by (auto simp: add.commute)
      then have lt: "i < D" using iD by simp
      have b: "m2 = ?m1" "x = - EC_ERROR_BUSY_code"
        using fifo_source_busy(1) [OF Some g en e13] less.prems(3) False by auto
      have restored: "m2\<lparr>ev := (ev m2)\<lparr>events := events (ev m2) OR BIT ?e\<rparr>\<rparr> = m\<lparr>last_evt := ?e + 1\<rparr>"
        by (simp add: b s1 restore_bit [OF ib])
      have "(?e + 1 + (D - i - 1)) mod 13 = (last_evt m + D) mod 13"
      proof -
        have "(?e + 1 + (D - i - 1)) mod 13 = (i + last_evt m + 1 + (D - i - 1)) mod 13"
          by (rule ring13_shift)
        also have "i + last_evt m + 1 + (D - i - 1) = last_evt m + D" using lt by simp
        finally show ?thesis .
      qed
      then have "mkbp_get_next_event f (fifo_source env rv) v (m\<lparr>last_evt := ?e + 1\<rparr>) \<noteq> None"
        using less.prems lt fuel by (intro less.IH [of "D - i - 1"]) auto
      then show ?thesis using tn i Some g b(2) restored
        by (simp add: fuel EC_MKBP_EVENT_COUNT_def Let_def)
    qed
  qed
qed

subsection \<open>Properties\<close>

text \<open>
  C17: The MKBP FIFO is a lossless bounded FIFO. Under every sequence of \<open>mkbp_fifo_add\<close>
  and removals, whatever the interrupt does, what was queued and accepted equals what was removed
  followed by what is still queued, each with its type and data, and an event is refused exactly
  when the FIFO holds its maximum depth.
\<close>

theorem mkbp_fifo_order:
  assumes "mkbp_of D m" and "\<forall>e. Enq e \<in> set ops \<longrightarrow> length (snd e) = get_data_size (fst e)"
  shows "\<exists>m' acc outs. fifo_run (mkbp_enq env rv) mkbp_deq m ops = Some (m', acc, outs) \<and> mkbp_of D m' \<and>
    fifo_list m @ acc = outs @ fifo_list m' \<and> spec_run D (fifo_list m) ops = (fifo_list m', acc, outs)"
  using assms by (rule mkbpq.run_fifo)

definition demo_mkbp :: mkbp where
  "demo_mkbp = \<lparr>fifo_start = 15, fifo_end = 15, fifo_entries = 0, fifo_max_depth = 2,
     fifo = replicate 16 (0, replicate 16 0), last_evt = 0, ev = mkbp_init\<rparr>"

lemma mkbp_fifo_order_witness:
  "\<exists>m' acc outs. fifo_run (mkbp_enq demo_env EC_SUCCESS) mkbp_deq demo_mkbp
      [Enq (3, [1, 2, 3, 4]), Enq (4, [5, 6, 7, 8]), Deq] = Some (m', acc, outs) \<and> acc = outs @ fifo_list m'"
proof -
  have "mkbp_of 2 demo_mkbp" "fifo_list demo_mkbp = []"
    by (simp_all add: mkbp_of_def fifo_wf_def demo_mkbp_def FIFO_DEPTH_def fifo_list_def list_all_length)
  moreover have "get_data_size 3 = 4" "get_data_size 4 = 4" by code_simp+
  ultimately show ?thesis
    using mkbp_fifo_order [of 2 demo_mkbp "[Enq (3, [1, 2, 3, 4]), Enq (4, [5, 6, 7, 8]), Deq]" demo_env EC_SUCCESS]
    by auto
qed

text \<open>
  C18: Polling ends. When the event bit of the FIFO's head is set, \<open>mkbp_get_next_event\<close>
  over the FIFO's sources leaves its loop within 13 rounds: the round-robin search reaches the
  head's type, and rounds before it put back the event they took.
\<close>

theorem mkbp_get_next_event_terminates:
  assumes "fifo_entries m \<noteq> 0" and "h = unat (fst (fifo m ! fifo_start m))" and "h < 13"
    and "bit (events (ev m)) h"
  shows "\<exists>result. mkbp_get_next_event 13 (fifo_source env rv) v m = Some result"
proof -
  obtain D where "D < 13" "(last_evt m + D) mod 13 = h" using ring13_reach [OF assms(3)] by blast
  then have "mkbp_get_next_event 13 (fifo_source env rv) v m \<noteq> None"
    using assms by (intro get_next_head [of m h D]) simp_all
  then show ?thesis by auto
qed

text \<open>
  Clearing the keyboard can make polling run forever. When the events behind the FIFO's head
  are pending but the head's own is not, as the sequence of the witness leaves it (the host takes
  the first of two button events around a key event, and the key event is then cleared), every
  round finds the key event, is told \<open>-EC_ERROR_BUSY\<close>, and puts it back: no amount of
  fuel ends \<open>mkbp_get_next_event\<close> (until another task happens to signal a button again).
\<close>

lemma mkbp_get_next_event_livelock:
  assumes "fifo_entries m \<noteq> 0" and "fst (fifo m ! fifo_start m) \<noteq> of_nat EC_MKBP_EVENT_KEY_MATRIX"
    and "events (ev m) = BIT EC_MKBP_EVENT_KEY_MATRIX"
  shows "mkbp_get_next_event fuel (fifo_source env rv) v m = None"
  using assms
proof (induction fuel arbitrary: m)
  case (Suc fuel)
  obtain s1 r where tn: "take_next_event [0..<13] (last_evt m) (ev m) = (s1, r)"
    by (cases "take_next_event [0..<13] (last_evt m) (ev m)")
  note tk = take_next_event [OF tn]
  have only: "bit (events (ev m)) k \<longleftrightarrow> k = 0" for k
    using Suc.prems(3) by (simp add: bit_BIT EC_MKBP_EVENT_KEY_MATRIX_def)
  obtain D where "D < 13" "(last_evt m + D) mod 13 = 0" using ring13_reach [of 0 "last_evt m"] by auto
  then have "\<exists>j \<in> set [0..<13]. bit (events (ev m)) ((last_evt m + j) mod EC_MKBP_EVENT_COUNT)"
    using only by (intro bexI [of _ D]) (simp_all add: EC_MKBP_EVENT_COUNT_def)
  then obtain i where i: "r = Some i" using tk by (cases r) auto
  have e: "(i + last_evt m) mod EC_MKBP_EVENT_COUNT = 0"
    and s1: "s1 = (ev m)\<lparr>events := events (ev m) AND NOT (BIT 0)\<rparr>"
    using tk i only by (auto simp: add.commute)
  let ?m1 = "m\<lparr>ev := s1, last_evt := 1\<rparr>"
  have gd: "fifo_source env rv 0 = Some (mkbp_fifo_get_next_event env rv 0)"
    by (simp add: fifo_source_def EC_MKBP_EVENT_KEY_MATRIX_def)
  have busy: "mkbp_fifo_get_next_event env rv 0 ?m1 = (?m1, - EC_ERROR_BUSY_code, [])"
    using Suc.prems(1,2) by (simp add: mkbp_fifo_get_next_event_def EC_MKBP_EVENT_KEY_MATRIX_def)
  have restored: "?m1\<lparr>ev := (ev ?m1)\<lparr>events := events (ev ?m1) OR BIT 0\<rparr>\<rparr> = m\<lparr>last_evt := 1\<rparr>"
    using only by (simp add: s1 restore_bit)
  have "mkbp_get_next_event fuel (fifo_source env rv) v (m\<lparr>last_evt := 1\<rparr>) = None"
    using Suc.prems by (intro Suc.IH) simp_all
  then show ?case using tn i e gd busy restored
    by (simp add: EC_MKBP_EVENT_COUNT_def Let_def)
qed simp

text \<open>The FIFO with a button, a key and a button event; the host takes the first button.\<close>

definition demo_bkb :: mkbp where
  "demo_bkb = demo_mkbp\<lparr>fifo_start := 0, fifo_end := 3, fifo_entries := 3,
     fifo := (fifo demo_mkbp)[0 := (3, replicate 16 1), 1 := (0, replicate 16 2), 2 := (3, replicate 16 4)],
     last_evt := 1, ev := mkbp_init\<lparr>events := BIT 0 OR BIT 3\<rparr>\<rparr>"

lemma mkbp_get_next_event_terminates_witness:
  "\<exists>result. mkbp_get_next_event 13 (fifo_source demo_env EC_SUCCESS) 2 demo_bkb = Some result"
  by (rule mkbp_get_next_event_terminates [of demo_bkb 3])
    (simp_all add: demo_bkb_def demo_mkbp_def bit_BIT bit_or_iff)

lemma mkbp_get_next_event_livelock_witness:
  "\<exists>m r. mkbp_get_next_event 1 (fifo_source demo_env EC_SUCCESS) 2 demo_bkb = Some (m, r) \<and>
     (\<forall>fuel. mkbp_get_next_event fuel (fifo_source demo_env EC_SUCCESS) 2 (mkbp_fifo_clear_keyboard m) = None)"
proof -
  have "case mkbp_get_next_event 1 (fifo_source demo_env EC_SUCCESS) 2 demo_bkb of
      None \<Rightarrow> False
    | Some (m, r) \<Rightarrow> (let c = mkbp_fifo_clear_keyboard m in
        fifo_entries c = 1 \<and> fst (fifo c ! fifo_start c) = 3 \<and> events (ev c) = BIT 0)"
    by code_simp
  then obtain m r where m: "mkbp_get_next_event 1 (fifo_source demo_env EC_SUCCESS) 2 demo_bkb = Some (m, r)"
    "fifo_entries (mkbp_fifo_clear_keyboard m) = 1"
    "fst (fifo (mkbp_fifo_clear_keyboard m) ! fifo_start (mkbp_fifo_clear_keyboard m)) = 3"
    "events (ev (mkbp_fifo_clear_keyboard m)) = BIT 0"
    by (simp add: Let_def split: option.splits prod.splits)
  have "mkbp_get_next_event fuel (fifo_source demo_env EC_SUCCESS) 2 (mkbp_fifo_clear_keyboard m) = None" for fuel
    by (rule mkbp_get_next_event_livelock) (simp_all add: m(2-4) EC_MKBP_EVENT_KEY_MATRIX_def)
  then show ?thesis using m(1) by blast
qed

end
