(* ===== verification/TcpmQueue.thy ===== *)
theory TcpmQueue
  imports Fifo
begin

section \<open>The cache of received messages, driver/tcpm/tcpci.c\<close>

text \<open>
  Messages of the port controller (TCPC) are cached by the interrupt handler and taken by the PD
  task. The queue counts with two 32-bit words that wrap, and masks them to index its eight slots. A
  message is a header, whose top bits name the SOP* it came on, and the 28 bytes of a payload. The
  driver's reading of the TCPC is an argument: the message, or an error.
\<close>

type_synonym pd_msg = "u32 \<times> u8 list"

definition CACHE_DEPTH :: u32 where "CACHE_DEPTH = 8"
definition CACHE_DEPTH_MASK :: u32 where "CACHE_DEPTH_MASK = CACHE_DEPTH - 1"

record tcpm_queue =
  tq_head :: u32
  tq_tail :: u32
  tq_buffer :: "pd_msg list"

definition tcpm_queue_init :: tcpm_queue where
  "tcpm_queue_init = \<lparr>tq_head = 0, tq_tail = 0, tq_buffer = replicate 8 (0, replicate 28 0)\<rparr>"

definition tq_slot :: "u32 \<Rightarrow> nat" where "tq_slot w = unat (w AND CACHE_DEPTH_MASK)"

definition tcpm_enqueue_message :: "ec_error_list + pd_msg \<Rightarrow> tcpm_queue \<Rightarrow> tcpm_queue \<times> ec_error_list" where
  "tcpm_enqueue_message raw q =
     (if tq_head q - tq_tail q = CACHE_DEPTH then (q, EC_ERROR_OVERFLOW)
      else case raw of
          Inl rv \<Rightarrow> (q\<lparr>tq_buffer := (tq_buffer q)[tq_slot (tq_head q) := (0, replicate 28 0)]\<rparr>, rv)
        | Inr m \<Rightarrow> (q\<lparr>tq_buffer := (tq_buffer q)[tq_slot (tq_head q) := m], tq_head := tq_head q + 1\<rparr>, EC_SUCCESS))"

definition tcpm_has_pending_message :: "tcpm_queue \<Rightarrow> bool" where
  "tcpm_has_pending_message q = (tq_head q \<noteq> tq_tail q)"

definition tcpm_dequeue_message :: "tcpm_queue \<Rightarrow> tcpm_queue \<times> pd_msg option" where
  "tcpm_dequeue_message q =
     (if \<not> tcpm_has_pending_message q then (q, None)
      else (q\<lparr>tq_tail := tq_tail q + 1\<rparr>, Some (tq_buffer q ! tq_slot (tq_tail q))))"

definition tcpm_clear_pending_messages :: "tcpm_queue \<Rightarrow> tcpm_queue" where
  "tcpm_clear_pending_messages q = q\<lparr>tq_tail := tq_head q\<rparr>"

subsection \<open>The queue as a list\<close>

definition tq_count :: "tcpm_queue \<Rightarrow> nat" where "tq_count q = unat (tq_head q - tq_tail q)"

definition tq_ok :: "tcpm_queue \<Rightarrow> bool" where
  "tq_ok q \<longleftrightarrow> tq_count q \<le> 8 \<and> length (tq_buffer q) = 8"

definition tq_list :: "tcpm_queue \<Rightarrow> pd_msg list" where
  "tq_list q = map (\<lambda>i. tq_buffer q ! ((unat (tq_tail q) + i) mod 8)) [0..<tq_count q]"

lemma tq_slot_mod: "tq_slot w = unat w mod 8"
proof -
  have "CACHE_DEPTH_MASK = mask 3" by (simp add: CACHE_DEPTH_MASK_def CACHE_DEPTH_def mask_eq_exp_minus_1)
  then show ?thesis using unat_and_mask [of w 3] by (simp add: tq_slot_def)
qed

lemma unat_plus_mod8: "unat (w + of_nat i :: u32) mod 8 = (unat w + i) mod 8"
proof -
  have d: "(8 :: nat) dvd 2 ^ 32" by simp
  have "unat (w + of_nat i) mod 8 = (unat w + unat (of_nat i :: u32)) mod 2 ^ 32 mod 8"
    by (simp add: unat_word_ariths)
  also have "\<dots> = (unat w + unat (of_nat i :: u32)) mod 8" using d by (simp only: mod_mod_cancel)
  also have "\<dots> = (unat w + (i mod 2 ^ 32) mod 8) mod 8" by (simp add: unat_of_nat mod_simps)
  also have "\<dots> = (unat w + i) mod 8" using d by (simp only: mod_mod_cancel mod_simps)
  finally show ?thesis .
qed

lemma tq_head_slot: "tq_slot (tq_head q) = (unat (tq_tail q) + tq_count q) mod 8"
proof -
  have "tq_head q = tq_tail q + of_nat (tq_count q)" by (simp add: tq_count_def)
  then show ?thesis using unat_plus_mod8 [of "tq_tail q" "tq_count q"] by (simp add: tq_slot_mod)
qed

lemma tq_count_zero: "tq_count q = 0 \<longleftrightarrow> tq_head q = tq_tail q"
  by (simp add: tq_count_def unat_eq_0)

lemma tq_count_full: "tq_head q - tq_tail q = CACHE_DEPTH \<longleftrightarrow> tq_count q = 8"
  using word_unat_eq_iff [of "tq_head q - tq_tail q" CACHE_DEPTH] by (simp add: tq_count_def CACHE_DEPTH_def)

lemma tq_enq:
  fixes m :: pd_msg
  assumes "tq_ok q" "tq_count q < 8"
  defines "q' \<equiv> q\<lparr>tq_buffer := (tq_buffer q)[tq_slot (tq_head q) := m], tq_head := tq_head q + 1\<rparr>"
  shows "tq_ok q' \<and> tq_list q' = tq_list q @ [m]"
proof -
  have c: "tq_count q' = Suc (tq_count q)"
  proof -
    have "unat (tq_head q + 1 - tq_tail q) = unat ((tq_head q - tq_tail q) + 1)" by (simp add: algebra_simps)
    also have "\<dots> = Suc (unat (tq_head q - tq_tail q))"
    proof -
      have "unat (tq_head q - tq_tail q) + 1 < 2 ^ 32" using assms(2) by (simp add: tq_count_def)
      then show ?thesis by (simp add: unat_word_ariths)
    qed
    finally show ?thesis by (simp add: q'_def tq_count_def)
  qed
  have len: "length (tq_buffer q) = 8" using assms(1) by (simp add: tq_ok_def)
  have keep: "tq_buffer q' ! ((unat (tq_tail q) + i) mod 8) = tq_buffer q ! ((unat (tq_tail q) + i) mod 8)" if "i < tq_count q" for i
  proof -
    have "(unat (tq_tail q) + i) mod 8 \<noteq> (unat (tq_tail q) + tq_count q) mod 8"
      using mod_offset_inj [of "unat (tq_tail q)" i 8 "tq_count q"] that assms(2) by auto
    then show ?thesis by (simp add: q'_def tq_head_slot)
  qed
  have new: "tq_buffer q' ! ((unat (tq_tail q) + tq_count q) mod 8) = m"
    using len by (simp add: q'_def tq_head_slot)
  have "tq_list q' = map (\<lambda>i. tq_buffer q' ! ((unat (tq_tail q) + i) mod 8)) [0..<Suc (tq_count q)]"
    by (simp add: tq_list_def c) (simp add: q'_def)
  also have "\<dots> = tq_list q @ [m]" using keep new by (simp add: tq_list_def)
  finally have "tq_list q' = tq_list q @ [m]" .
  moreover have "tq_ok q'" using assms(2) len c by (simp add: tq_ok_def) (simp add: q'_def)
  ultimately show ?thesis by blast
qed

lemma tq_deq:
  assumes "tq_ok q" "tq_count q \<noteq> 0"
  shows "tq_ok (q\<lparr>tq_tail := tq_tail q + 1\<rparr>) \<and>
    tq_list q = tq_buffer q ! tq_slot (tq_tail q) # tq_list (q\<lparr>tq_tail := tq_tail q + 1\<rparr>)"
proof -
  obtain n where n: "tq_count q = Suc n" using assms(2) by (cases "tq_count q") auto
  have c: "tq_count (q\<lparr>tq_tail := tq_tail q + 1\<rparr>) = n"
  proof -
    have d: "tq_head q - (tq_tail q + 1) = (tq_head q - tq_tail q) - 1" by (simp add: algebra_simps)
    have "unat ((tq_head q - tq_tail q) - 1) = unat (tq_head q - tq_tail q) - 1"
      using assms(2) by (intro unat_minus_one) (auto simp: tq_count_def)
    then show ?thesis using n by (simp add: tq_count_def d)
  qed
  have shift: "(unat (tq_tail q + 1) + i) mod 8 = (unat (tq_tail q) + Suc i) mod 8" for i
    using unat_plus_mod8 [of "tq_tail q" 1] mod_add_left_eq [of "unat (tq_tail q + 1)" 8 i]
      mod_add_left_eq [of "unat (tq_tail q) + 1" 8 i] by simp
  have "tq_list q = tq_buffer q ! (unat (tq_tail q) mod 8) #
      map (\<lambda>i. tq_buffer q ! ((unat (tq_tail q) + Suc i) mod 8)) [0..<n]"
    unfolding tq_list_def n by (subst map_upt_Suc) simp
  then show ?thesis using assms(1) n c by (simp add: tq_list_def c shift tq_slot_mod tq_ok_def)
qed

definition tq_enqueue :: "tcpm_queue \<Rightarrow> pd_msg \<Rightarrow> (tcpm_queue \<times> bool) option" where
  "tq_enqueue q m = (let (q', rv) = tcpm_enqueue_message (Inr m) q in Some (q', rv = EC_SUCCESS))"

definition tq_dequeue :: "tcpm_queue \<Rightarrow> (tcpm_queue \<times> pd_msg option) option" where
  "tq_dequeue q = Some (tcpm_dequeue_message q)"

interpretation tcpmq: bounded_fifo tq_ok tq_list 8 "\<lambda>_. True" tq_enqueue tq_dequeue
proof
  fix q :: tcpm_queue and m :: pd_msg
  assume q: "tq_ok q"
  have l: "length (tq_list q) = tq_count q" by (simp add: tq_list_def)
  show "\<exists>q'. tq_enqueue q m = Some (q', length (tq_list q) < 8) \<and> tq_ok q' \<and>
      tq_list q' = (if length (tq_list q) < 8 then tq_list q @ [m] else tq_list q)"
    using q tq_enq [OF q, of m] by (auto simp: tq_enqueue_def tcpm_enqueue_message_def tq_count_full l tq_ok_def)
  show "\<exists>q'. tq_dequeue q = Some (q', if tq_list q = [] then None else Some (hd (tq_list q))) \<and> tq_ok q' \<and>
      tq_list q' = tl (tq_list q)"
  proof (cases "tq_count q = 0")
    case True
    then show ?thesis
      using q by (simp add: tq_dequeue_def tcpm_dequeue_message_def tcpm_has_pending_message_def tq_count_zero tq_list_def)
  next
    case False
    then show ?thesis
      using tq_deq [OF q False]
      by (auto simp: tq_dequeue_def tcpm_dequeue_message_def tcpm_has_pending_message_def tq_count_zero)
  qed
qed

text \<open>
  The cache of received messages is a bounded first-in first-out queue of eight messages: over any
  sequence of messages arriving and being taken, what is taken is what arrived, in that order, and only
  messages that arrive at a full cache are refused, also when the counters wrap.
\<close>

lemma tcpm_queue_fifo:
  assumes "tq_ok q"
  shows "\<exists>q' acc outs. fifo_run tq_enqueue tq_dequeue q ops = Some (q', acc, outs) \<and> tq_ok q' \<and>
    tq_list q @ acc = outs @ tq_list q' \<and> spec_run 8 (tq_list q) ops = (tq_list q', acc, outs)"
  using tcpmq.run_fifo [OF assms] by blast

lemma tcpm_queue_fifo_witness:
  "\<exists>q' acc outs. fifo_run tq_enqueue tq_dequeue tcpm_queue_init [Enq (5, []), Deq] = Some (q', acc, outs) \<and>
     acc = outs @ tq_list q'"
proof -
  have "tq_ok tcpm_queue_init" by (simp add: tq_ok_def tq_count_def tcpm_queue_init_def)
  from tcpm_queue_fifo [OF this, of "[Enq (5, []), Deq]"] show ?thesis
    by (auto simp: tq_list_def tq_count_def tcpm_queue_init_def)
qed

end
