(* ===== verification/AtomicBit.thy ===== *)
theory AtomicBit
  imports Prelude
begin

section \<open>Atomic bit arrays\<close>

text \<open>
  The bit arrays of \<open>third_party/zephyr/atomic.h\<close> over an array of 32-bit
  \<open>atomic_t\<close>: bit \<open>i\<close> is bit \<open>i mod 32\<close> of element
  \<open>i div 32\<close>. The locale \<open>bit_array\<close> is the contract its clients rely on, a set
  of flags where setting or clearing one leaves the others, and holds the lemmas on loops over
  flags; it is interpreted on the array at the end.
\<close>

definition ATOMIC_BITS :: nat where "ATOMIC_BITS = 32"

definition ATOMIC_MASK :: "nat \<Rightarrow> u32" where
  "ATOMIC_MASK i = push_bit (i mod ATOMIC_BITS) 1"

definition ATOMIC_BITMAP_SIZE :: "nat \<Rightarrow> nat" where
  "ATOMIC_BITMAP_SIZE num_bits = 1 + (num_bits - 1) div ATOMIC_BITS"

definition atomic_test_bit :: "u32 list \<Rightarrow> nat \<Rightarrow> bool" where
  "atomic_test_bit target i =
     (let val = target ! (i div ATOMIC_BITS) in 1 AND drop_bit (i mod ATOMIC_BITS) val \<noteq> 0)"

definition atomic_clear_bit :: "u32 list \<Rightarrow> nat \<Rightarrow> u32 list" where
  "atomic_clear_bit target i =
     (let k = i div ATOMIC_BITS in target[k := target ! k AND NOT (ATOMIC_MASK i)])"

definition atomic_set_bit :: "u32 list \<Rightarrow> nat \<Rightarrow> u32 list" where
  "atomic_set_bit target i =
     (let k = i div ATOMIC_BITS in target[k := target ! k OR ATOMIC_MASK i])"

lemma length_atomic_ops [simp]:
  "length (atomic_set_bit m i) = length m" "length (atomic_clear_bit m i) = length m"
  by (simp_all add: atomic_set_bit_def atomic_clear_bit_def Let_def)

lemma length_fold_atomic [simp]:
  "length (fold (\<lambda>i m. atomic_set_bit m (f i)) is m) = length m"
  "length (fold (\<lambda>i m. atomic_clear_bit m (f i)) is m) = length m"
  by (induction "is" arbitrary: m) simp_all

subsection \<open>The contract of a bit array\<close>

locale bit_array =
  fixes cap :: "'m \<Rightarrow> nat"
    and test :: "'m \<Rightarrow> nat \<Rightarrow> bool"
    and set1 clear1 :: "'m \<Rightarrow> nat \<Rightarrow> 'm"
  assumes cap_set1 [simp]: "cap (set1 m i) = cap m"
    and cap_clear1 [simp]: "cap (clear1 m i) = cap m"
    and test_set1: "i < cap m \<Longrightarrow> j < cap m \<Longrightarrow> test (set1 m i) j \<longleftrightarrow> j = i \<or> test m j"
    and test_clear1: "i < cap m \<Longrightarrow> j < cap m \<Longrightarrow> test (clear1 m i) j \<longleftrightarrow> j \<noteq> i \<and> test m j"
begin

text \<open>The number of flags set among the \<open>n\<close> flags from \<open>b\<close>.\<close>

definition count_in :: "'m \<Rightarrow> nat \<Rightarrow> nat \<Rightarrow> nat" where
  "count_in m b n = card {t. t < n \<and> test m (b + t)}"

lemma cap_fold_set [simp]: "cap (fold (\<lambda>i m. set1 m (f i)) is m) = cap m"
  by (induction "is" arbitrary: m) simp_all

lemma cap_fold_clear [simp]: "cap (fold (\<lambda>i m. clear1 m (f i)) is m) = cap m"
  by (induction "is" arbitrary: m) simp_all

lemma test_fold_set:
  "\<forall>i \<in> set is. f i < cap m \<Longrightarrow> j < cap m \<Longrightarrow>
   test (fold (\<lambda>i m. set1 m (f i)) is m) j \<longleftrightarrow> j \<in> f ` set is \<or> test m j"
  by (induction "is" arbitrary: m) (auto simp: test_set1)

lemma test_fold_clear:
  "\<forall>i \<in> set is. f i < cap m \<Longrightarrow> j < cap m \<Longrightarrow>
   test (fold (\<lambda>i m. clear1 m (f i)) is m) j \<longleftrightarrow> j \<notin> f ` set is \<and> test m j"
  by (induction "is" arbitrary: m) (auto simp: test_clear1)

lemma count_in_set1:
  assumes "b + n \<le> cap m" and "t < n" and "\<not> test m (b + t)"
  shows "count_in (set1 m (b + t)) b n = Suc (count_in m b n)"
proof -
  have "{u. u < n \<and> test (set1 m (b + t)) (b + u)} = insert t {u. u < n \<and> test m (b + u)}"
    using assms by (auto simp: test_set1)
  then show ?thesis using assms(3) by (simp add: count_in_def)
qed

lemma count_in_clear1:
  assumes "b + n \<le> cap m" and "t < n" and "test m (b + t)"
  shows "count_in m b n = Suc (count_in (clear1 m (b + t)) b n)"
proof -
  have "{u. u < n \<and> test m (b + u)} = insert t {u. u < n \<and> test (clear1 m (b + t)) (b + u)}"
    using assms by (auto simp: test_clear1)
  moreover have "\<not> test (clear1 m (b + t)) (b + t)" using assms by (simp add: test_clear1)
  ultimately show ?thesis by (simp add: count_in_def)
qed

lemma count_in_cong:
  "(\<And>u. u < n \<Longrightarrow> test m' (b + u) \<longleftrightarrow> test m (b + u)) \<Longrightarrow> count_in m' b n = count_in m b n"
  unfolding count_in_def by (rule arg_cong [where f = card]) auto

lemma count_in_le: "count_in m b n \<le> n"
  unfolding count_in_def by (rule order_trans [OF card_mono [of "{..<n}"]]) auto

end

subsection \<open>The array is one\<close>

lemma atomic_test_bit_iff: "atomic_test_bit m i \<longleftrightarrow> bit (m ! (i div 32)) (i mod 32)"
  by (simp add: atomic_test_bit_def ATOMIC_BITS_def bit_iff_and_drop_bit_eq_1 and.commute
      one_and_eq and_one_eq flip: mod_2_eq_odd)

lemma bit_ATOMIC_MASK: "bit (ATOMIC_MASK i) k \<longleftrightarrow> k = i mod 32"
  by (auto simp: ATOMIC_MASK_def ATOMIC_BITS_def bit_simps)

lemma div_mod_32_eq: "i div 32 = j div 32 \<Longrightarrow> i mod 32 = j mod 32 \<longleftrightarrow> i = (j::nat)"
  by (metis div_mult_mod_eq)

lemma div_32_bound: "i < 32 * n \<Longrightarrow> i div 32 < (n::nat)"
  by (simp add: less_mult_imp_div_less mult.commute)

lemma bitmap_size: "n \<le> 32 * ATOMIC_BITMAP_SIZE n"
proof -
  have "(n - 1) mod 32 < 32" "(n - 1) div 32 * 32 + (n - 1) mod 32 = n - 1" by simp_all
  then show ?thesis by (simp add: ATOMIC_BITMAP_SIZE_def ATOMIC_BITS_def algebra_simps)
qed

interpretation abits: bit_array "\<lambda>m. 32 * length m" atomic_test_bit atomic_set_bit atomic_clear_bit
proof
  fix m :: "u32 list" and i j :: nat
  show "32 * length (atomic_set_bit m i) = 32 * length m"
    "32 * length (atomic_clear_bit m i) = 32 * length m"
    by (simp_all add: atomic_set_bit_def atomic_clear_bit_def Let_def)
  assume ij: "i < 32 * length m" "j < 32 * length m"
  show "atomic_test_bit (atomic_set_bit m i) j \<longleftrightarrow> j = i \<or> atomic_test_bit m j"
    using ij div_mod_32_eq [of i j]
    by (cases "i div 32 = j div 32")
      (auto simp: atomic_test_bit_iff atomic_set_bit_def ATOMIC_BITS_def Let_def div_32_bound
        bit_or_iff bit_ATOMIC_MASK)
  show "atomic_test_bit (atomic_clear_bit m i) j \<longleftrightarrow> j \<noteq> i \<and> atomic_test_bit m j"
    using ij div_mod_32_eq [of i j]
    by (cases "i div 32 = j div 32")
      (auto simp: atomic_test_bit_iff atomic_clear_bit_def ATOMIC_BITS_def Let_def div_32_bound
        bit_and_iff bit_not_iff bit_ATOMIC_MASK)
qed

end
