(* ===== verification/PdTimer.thy ===== *)
theory PdTimer
  imports AtomicBit
begin

section \<open>The USB power delivery timers of common/usbc/usb_pd_timer.c\<close>

text \<open>
  The timers of all ports: two bit arrays shared by the ports, the deadlines and the debug
  counters (\<open>CONFIG_CMD_PD_TIMER\<close> is on). \<open>get_time().val\<close> is the argument
  \<open>now\<close>; a loop that reads the clock per timer takes a clock reading for each. The
  timers of \<open>enum pd_task_timer\<close> are their numbers. \<open>pd_task_timeout\<close> of
  \<open>common/usbc/usbc_task.c\<close> is the client that sleeps until the next deadline.
\<close>

subsection \<open>State and operations\<close>

record pd_timers =
  timer_active :: "u32 list"
  timer_disabled :: "u32 list"
  timer_expires :: "u64 list list"
  timer_count :: "int list"
  max_count :: "int list"

definition PD_TIMER_COUNT :: nat where "PD_TIMER_COUNT = 37"
definition MAX_EXPIRE :: int where "MAX_EXPIRE = 0x7FFFFFFF"
definition NO_TIMEOUT :: int where "NO_TIMEOUT = -1"
definition EXPIRE_NOW :: int where "EXPIRE_NOW = 0"

definition timer_bit :: "nat \<Rightarrow> nat \<Rightarrow> nat" where
  "timer_bit p t = p * PD_TIMER_COUNT + t"

definition PD_SET_ACTIVE :: "nat \<Rightarrow> nat \<Rightarrow> pd_timers \<Rightarrow> pd_timers" where
  "PD_SET_ACTIVE p t s = s\<lparr>timer_active := atomic_set_bit (timer_active s) (timer_bit p t)\<rparr>"
definition PD_CLR_ACTIVE :: "nat \<Rightarrow> nat \<Rightarrow> pd_timers \<Rightarrow> pd_timers" where
  "PD_CLR_ACTIVE p t s = s\<lparr>timer_active := atomic_clear_bit (timer_active s) (timer_bit p t)\<rparr>"
definition PD_CHK_ACTIVE :: "nat \<Rightarrow> nat \<Rightarrow> pd_timers \<Rightarrow> bool" where
  "PD_CHK_ACTIVE p t s = atomic_test_bit (timer_active s) (timer_bit p t)"
definition PD_SET_DISABLED :: "nat \<Rightarrow> nat \<Rightarrow> pd_timers \<Rightarrow> pd_timers" where
  "PD_SET_DISABLED p t s = s\<lparr>timer_disabled := atomic_set_bit (timer_disabled s) (timer_bit p t)\<rparr>"
definition PD_CLR_DISABLED :: "nat \<Rightarrow> nat \<Rightarrow> pd_timers \<Rightarrow> pd_timers" where
  "PD_CLR_DISABLED p t s = s\<lparr>timer_disabled := atomic_clear_bit (timer_disabled s) (timer_bit p t)\<rparr>"
definition PD_CHK_DISABLED :: "nat \<Rightarrow> nat \<Rightarrow> pd_timers \<Rightarrow> bool" where
  "PD_CHK_DISABLED p t s = atomic_test_bit (timer_disabled s) (timer_bit p t)"

definition count_down :: "nat \<Rightarrow> pd_timers \<Rightarrow> pd_timers" where
  "count_down p s = s\<lparr>timer_count := (timer_count s)[p := timer_count s ! p - 1]\<rparr>"

definition count_up :: "nat \<Rightarrow> pd_timers \<Rightarrow> pd_timers" where
  "count_up p s =
     (let s1 = s\<lparr>timer_count := (timer_count s)[p := timer_count s ! p + 1]\<rparr>
      in if max_count s1 ! p < timer_count s1 ! p
         then s1\<lparr>max_count := (max_count s1)[p := timer_count s1 ! p]\<rparr> else s1)"

definition pd_timer_inactive :: "nat \<Rightarrow> nat \<Rightarrow> pd_timers \<Rightarrow> pd_timers" where
  "pd_timer_inactive p t s =
     (let s1 = (if PD_CHK_ACTIVE p t s then count_down p (PD_CLR_ACTIVE p t s) else s)
      in PD_CLR_DISABLED p t s1)"

definition pd_timer_is_active :: "nat \<Rightarrow> nat \<Rightarrow> pd_timers \<Rightarrow> bool" where
  "pd_timer_is_active p t s = PD_CHK_ACTIVE p t s"

definition pd_timer_is_inactive :: "nat \<Rightarrow> nat \<Rightarrow> pd_timers \<Rightarrow> bool" where
  "pd_timer_is_inactive p t s = (\<not> PD_CHK_ACTIVE p t s \<and> \<not> PD_CHK_DISABLED p t s)"

definition pd_timer_init :: "nat \<Rightarrow> pd_timers \<Rightarrow> pd_timers" where
  "pd_timer_init p s =
     fold (\<lambda>b s. PD_SET_DISABLED p b (PD_CLR_ACTIVE p b s)) [0..<PD_TIMER_COUNT]
       (s\<lparr>timer_count := (timer_count s)[p := 0]\<rparr>)"

definition pd_timer_enable :: "u64 \<Rightarrow> nat \<Rightarrow> nat \<Rightarrow> u32 \<Rightarrow> pd_timers \<Rightarrow> pd_timers" where
  "pd_timer_enable now p t expires_us s =
     (let s1 = (if \<not> PD_CHK_ACTIVE p t s then count_up p (PD_SET_ACTIVE p t s) else s);
          s2 = PD_CLR_DISABLED p t s1
      in s2\<lparr>timer_expires := (timer_expires s2)[p := (timer_expires s2 ! p)[t := now + ucast expires_us]]\<rparr>)"

definition pd_timer_disable :: "nat \<Rightarrow> nat \<Rightarrow> pd_timers \<Rightarrow> pd_timers" where
  "pd_timer_disable p t s =
     (let s1 = (if PD_CHK_ACTIVE p t s then count_down p (PD_CLR_ACTIVE p t s) else s)
      in PD_SET_DISABLED p t s1)"

datatype pd_timer_range = DPM_TIMER_RANGE | PE_TIMER_RANGE | PR_TIMER_RANGE | TC_TIMER_RANGE
  | OtherRange

definition range_bounds :: "pd_timer_range \<Rightarrow> (nat \<times> nat) option" where
  "range_bounds r =
     (case r of DPM_TIMER_RANGE \<Rightarrow> Some (0, 1)
      | PE_TIMER_RANGE \<Rightarrow> Some (2, 23)
      | PR_TIMER_RANGE \<Rightarrow> Some (24, 28)
      | TC_TIMER_RANGE \<Rightarrow> Some (29, 36)
      | OtherRange \<Rightarrow> None)"

definition pd_timer_disable_range :: "nat \<Rightarrow> pd_timer_range \<Rightarrow> pd_timers \<Rightarrow> pd_timers" where
  "pd_timer_disable_range p r s =
     (case range_bounds r of
        None \<Rightarrow> s
      | Some (start, end') \<Rightarrow> fold (\<lambda>t s. pd_timer_disable p t s) [start..<end' + 1] s)"

definition pd_timer_is_disabled :: "nat \<Rightarrow> nat \<Rightarrow> pd_timers \<Rightarrow> bool" where
  "pd_timer_is_disabled p t s = PD_CHK_DISABLED p t s"

definition pd_timer_is_expired :: "u64 \<Rightarrow> nat \<Rightarrow> nat \<Rightarrow> pd_timers \<Rightarrow> pd_timers \<times> bool" where
  "pd_timer_is_expired now p t s =
     (if pd_timer_is_active p t s then
        (if timer_expires s ! p ! t \<le> now then (pd_timer_inactive p t s, True) else (s, False))
      else (s, pd_timer_is_inactive p t s))"

definition manage_step :: "(nat \<Rightarrow> u64) \<Rightarrow> nat \<Rightarrow> nat \<Rightarrow> pd_timers \<Rightarrow> pd_timers" where
  "manage_step clock p t s =
     (if pd_timer_is_active p t s then
        (let (s1, expired) = pd_timer_is_expired (clock t) p t s
         in if expired then pd_timer_inactive p t s1 else s1)
      else s)"

definition pd_timer_manage_expired :: "(nat \<Rightarrow> u64) \<Rightarrow> nat \<Rightarrow> pd_timers \<Rightarrow> pd_timers" where
  "pd_timer_manage_expired clock p s = fold (manage_step clock p) [0..<PD_TIMER_COUNT] s"

text \<open>The difference of two times is narrowed to the \<open>int delta\<close>.\<close>

fun next_expiration_loop :: "u64 \<Rightarrow> nat \<Rightarrow> nat list \<Rightarrow> int \<Rightarrow> pd_timers \<Rightarrow> int" where
  "next_expiration_loop now p [] ret s = ret"
| "next_expiration_loop now p (t # ts) ret s =
     (if pd_timer_is_active p t s then
        (let t_value = timer_expires s ! p ! t
         in if t_value \<le> now then EXPIRE_NOW
            else (let delta = sint (ucast (t_value - now) :: u32)
                  in next_expiration_loop now p ts (if delta < ret then delta else ret) s))
      else next_expiration_loop now p ts ret s)"

definition pd_timer_next_expiration :: "u64 \<Rightarrow> nat \<Rightarrow> pd_timers \<Rightarrow> int" where
  "pd_timer_next_expiration now p s =
     (let ret = next_expiration_loop now p [0..<PD_TIMER_COUNT] MAX_EXPIRE s
      in if ret = MAX_EXPIRE then NO_TIMEOUT else ret)"

definition USBC_EVENT_TIMEOUT :: int where "USBC_EVENT_TIMEOUT = 5000"
definition USBC_MIN_EVENT_TIMEOUT :: int where "USBC_MIN_EVENT_TIMEOUT = 1000"

text \<open>The flags of paused event loops; \<open>tc_start_event_loop\<close> says whether it wakes the task.\<close>

definition tc_pause_event_loop :: "nat \<Rightarrow> u8 list \<Rightarrow> u8 list" where
  "tc_pause_event_loop p paused = paused[p := 1]"

definition tc_event_loop_is_paused :: "nat \<Rightarrow> u8 list \<Rightarrow> bool" where
  "tc_event_loop_is_paused p paused = (paused ! p \<noteq> 0)"

definition tc_start_event_loop :: "nat \<Rightarrow> u8 list \<Rightarrow> u8 list \<times> bool" where
  "tc_start_event_loop p paused =
     (if paused ! p \<noteq> 0 then (paused[p := 0], True) else (paused, False))"

definition pd_task_timeout :: "u64 \<Rightarrow> u8 list \<Rightarrow> nat \<Rightarrow> pd_timers \<Rightarrow> int" where
  "pd_task_timeout now paused p s =
     (if paused ! p \<noteq> 0 then -1
      else let timeout = pd_timer_next_expiration now p s
           in if timeout < 0 \<or> USBC_EVENT_TIMEOUT < timeout then USBC_EVENT_TIMEOUT
              else if timeout < USBC_MIN_EVENT_TIMEOUT then USBC_MIN_EVENT_TIMEOUT
              else timeout)"


subsection \<open>What the state means\<close>

datatype pd_view = Timer_Disabled | Timer_Running u64 | Timer_Expired

definition timer_view :: "pd_timers \<Rightarrow> nat \<Rightarrow> nat \<Rightarrow> pd_view" where
  "timer_view s p t =
     (if PD_CHK_ACTIVE p t s then Timer_Running (timer_expires s ! p ! t)
      else if PD_CHK_DISABLED p t s then Timer_Disabled else Timer_Expired)"

definition pd_dim :: "nat \<Rightarrow> pd_timers \<Rightarrow> bool" where
  "pd_dim P s \<longleftrightarrow>
     length (timer_active s) = ATOMIC_BITMAP_SIZE (PD_TIMER_COUNT * P) \<and>
     length (timer_disabled s) = ATOMIC_BITMAP_SIZE (PD_TIMER_COUNT * P) \<and>
     length (timer_expires s) = P \<and> list_all (\<lambda>xs. length xs = PD_TIMER_COUNT) (timer_expires s) \<and>
     length (timer_count s) = P \<and> length (max_count s) = P"

definition active_total :: "pd_timers \<Rightarrow> nat \<Rightarrow> nat" where
  "active_total s p = card {t. t < PD_TIMER_COUNT \<and> PD_CHK_ACTIVE p t s}"

definition counts_ok :: "nat \<Rightarrow> pd_timers \<Rightarrow> bool" where
  "counts_ok P s \<longleftrightarrow>
     (\<forall>p<P. timer_count s ! p = int (active_total s p) \<and> timer_count s ! p \<le> max_count s ! p)"

definition pd_inv :: "nat \<Rightarrow> pd_timers \<Rightarrow> bool" where
  "pd_inv P s \<longleftrightarrow> pd_dim P s \<and> counts_ok P s \<and>
     (\<forall>p<P. \<forall>t<PD_TIMER_COUNT. \<not> (PD_CHK_ACTIVE p t s \<and> PD_CHK_DISABLED p t s))"

definition view_upd :: "nat \<Rightarrow> nat \<Rightarrow> pd_view \<Rightarrow> (nat \<Rightarrow> nat \<Rightarrow> pd_view) \<Rightarrow> nat \<Rightarrow> nat \<Rightarrow> pd_view" where
  "view_upd p t v f = (\<lambda>q u. if q = p \<and> u = t then v else f q u)"

text \<open>Agreement of two views on the timers of the ports below \<open>P\<close>.\<close>

definition same_view :: "nat \<Rightarrow> (nat \<Rightarrow> nat \<Rightarrow> pd_view) \<Rightarrow> (nat \<Rightarrow> nat \<Rightarrow> pd_view) \<Rightarrow> bool" where
  "same_view P f g \<longleftrightarrow> (\<forall>q<P. \<forall>u<PD_TIMER_COUNT. f q u = g q u)"

lemma timer_bit_inj:
  "t < PD_TIMER_COUNT \<Longrightarrow> u < PD_TIMER_COUNT \<Longrightarrow> timer_bit q u = timer_bit p t \<longleftrightarrow> q = p \<and> u = t"
proof -
  assume tu: "t < PD_TIMER_COUNT" "u < PD_TIMER_COUNT"
  have "timer_bit q u div PD_TIMER_COUNT = q" "timer_bit q u mod PD_TIMER_COUNT = u"
    "timer_bit p t div PD_TIMER_COUNT = p" "timer_bit p t mod PD_TIMER_COUNT = t"
    using tu by (simp_all add: timer_bit_def div_add1_eq)
  then show ?thesis by metis
qed

lemma timer_bit_cap:
  assumes "p < P" and "t < PD_TIMER_COUNT"
  shows "timer_bit p t < 32 * ATOMIC_BITMAP_SIZE (PD_TIMER_COUNT * P)"
proof -
  have "p * PD_TIMER_COUNT + t < Suc p * PD_TIMER_COUNT" using assms(2) by simp
  also have "\<dots> \<le> PD_TIMER_COUNT * P" using assms(1) by (metis Suc_leI mult.commute mult_le_mono1)
  also have "\<dots> \<le> 32 * ATOMIC_BITMAP_SIZE (PD_TIMER_COUNT * P)"
    by (rule bitmap_size)
  finally show ?thesis by (simp add: timer_bit_def)
qed

named_theorems pd_chk \<open>the flags of a timer after a flag operation\<close>

lemma pd_chk_set_clr [pd_chk]:
  assumes "pd_dim P s" and "p < P" and "t < PD_TIMER_COUNT" and "q < P" and "u < PD_TIMER_COUNT"
  shows "PD_CHK_ACTIVE q u (PD_SET_ACTIVE p t s) \<longleftrightarrow> q = p \<and> u = t \<or> PD_CHK_ACTIVE q u s"
    and "PD_CHK_ACTIVE q u (PD_CLR_ACTIVE p t s) \<longleftrightarrow> \<not> (q = p \<and> u = t) \<and> PD_CHK_ACTIVE q u s"
    and "PD_CHK_DISABLED q u (PD_SET_DISABLED p t s) \<longleftrightarrow> q = p \<and> u = t \<or> PD_CHK_DISABLED q u s"
    and "PD_CHK_DISABLED q u (PD_CLR_DISABLED p t s) \<longleftrightarrow> \<not> (q = p \<and> u = t) \<and> PD_CHK_DISABLED q u s"
  using assms timer_bit_cap [OF assms(2,3)] timer_bit_cap [OF assms(4,5)] timer_bit_inj [OF assms(3,5), of q p]
  by (simp_all add: pd_dim_def PD_CHK_ACTIVE_def PD_SET_ACTIVE_def PD_CLR_ACTIVE_def PD_CHK_DISABLED_def
      PD_SET_DISABLED_def PD_CLR_DISABLED_def abits.test_set1 abits.test_clear1)

lemma pd_chk_frame [pd_chk]:
  "PD_CHK_DISABLED q u (PD_SET_ACTIVE p t s) = PD_CHK_DISABLED q u s"
  "PD_CHK_DISABLED q u (PD_CLR_ACTIVE p t s) = PD_CHK_DISABLED q u s"
  "PD_CHK_ACTIVE q u (PD_SET_DISABLED p t s) = PD_CHK_ACTIVE q u s"
  "PD_CHK_ACTIVE q u (PD_CLR_DISABLED p t s) = PD_CHK_ACTIVE q u s"
  "PD_CHK_ACTIVE q u (count_up p s) = PD_CHK_ACTIVE q u s"
  "PD_CHK_DISABLED q u (count_up p s) = PD_CHK_DISABLED q u s"
  "PD_CHK_ACTIVE q u (count_down p s) = PD_CHK_ACTIVE q u s"
  "PD_CHK_DISABLED q u (count_down p s) = PD_CHK_DISABLED q u s"
  "PD_CHK_ACTIVE q u (s\<lparr>timer_expires := e\<rparr>) = PD_CHK_ACTIVE q u s"
  "PD_CHK_DISABLED q u (s\<lparr>timer_expires := e\<rparr>) = PD_CHK_DISABLED q u s"
  by (simp_all add: PD_CHK_ACTIVE_def PD_SET_ACTIVE_def PD_CLR_ACTIVE_def PD_CHK_DISABLED_def
      PD_SET_DISABLED_def PD_CLR_DISABLED_def count_up_def count_down_def Let_def)

lemma pd_dim_ops [simp]:
  "pd_dim P (PD_SET_ACTIVE p t s) = pd_dim P s" "pd_dim P (PD_CLR_ACTIVE p t s) = pd_dim P s"
  "pd_dim P (PD_SET_DISABLED p t s) = pd_dim P s" "pd_dim P (PD_CLR_DISABLED p t s) = pd_dim P s"
  "pd_dim P (count_up p s) = pd_dim P s" "pd_dim P (count_down p s) = pd_dim P s"
  by (auto simp: pd_dim_def PD_SET_ACTIVE_def PD_CLR_ACTIVE_def PD_SET_DISABLED_def PD_CLR_DISABLED_def
      count_up_def count_down_def Let_def atomic_set_bit_def atomic_clear_bit_def)

lemma timer_expires_ops [simp]:
  "timer_expires (PD_SET_ACTIVE p t s) = timer_expires s" "timer_expires (PD_CLR_ACTIVE p t s) = timer_expires s"
  "timer_expires (PD_SET_DISABLED p t s) = timer_expires s" "timer_expires (PD_CLR_DISABLED p t s) = timer_expires s"
  "timer_expires (count_up p s) = timer_expires s" "timer_expires (count_down p s) = timer_expires s"
  by (simp_all add: PD_SET_ACTIVE_def PD_CLR_ACTIVE_def PD_SET_DISABLED_def PD_CLR_DISABLED_def
      count_up_def count_down_def Let_def)

lemma active_total_cong:
  "(\<And>u. u < PD_TIMER_COUNT \<Longrightarrow> PD_CHK_ACTIVE q u s' \<longleftrightarrow> PD_CHK_ACTIVE q u s) \<Longrightarrow>
   active_total s' q = active_total s q"
  unfolding active_total_def by (rule arg_cong [where f = card]) auto

lemma active_total_count_in:
  "active_total s p = abits.count_in (timer_active s) (p * PD_TIMER_COUNT) PD_TIMER_COUNT"
  by (simp add: active_total_def abits.count_in_def PD_CHK_ACTIVE_def timer_bit_def)

lemma port_bits:
  assumes "pd_dim P s" and "p < P"
  shows "p * PD_TIMER_COUNT + PD_TIMER_COUNT \<le> 32 * length (timer_active s)"
  using timer_bit_cap [OF assms(2), of "PD_TIMER_COUNT - 1"] assms(1)
  by (simp add: pd_dim_def timer_bit_def PD_TIMER_COUNT_def)

lemma active_total_set:
  assumes "pd_dim P s" and "p < P" and "t < PD_TIMER_COUNT" and "\<not> PD_CHK_ACTIVE p t s" and "q < P"
  shows "active_total (PD_SET_ACTIVE p t s) q = active_total s q + (if q = p then 1 else 0)"
proof (cases "q = p")
  case True
  then show ?thesis
    using abits.count_in_set1 [OF port_bits [OF assms(1,2)] assms(3)] assms(4)
    by (simp add: active_total_count_in PD_CHK_ACTIVE_def PD_SET_ACTIVE_def timer_bit_def)
next
  case False
  have "active_total (PD_SET_ACTIVE p t s) q = active_total s q"
    by (rule active_total_cong) (use False assms in \<open>simp add: pd_chk\<close>)
  then show ?thesis using False by simp
qed

lemma active_total_clr:
  assumes "pd_dim P s" and "p < P" and "t < PD_TIMER_COUNT" and "PD_CHK_ACTIVE p t s" and "q < P"
  shows "active_total s q = active_total (PD_CLR_ACTIVE p t s) q + (if q = p then 1 else 0)"
proof (cases "q = p")
  case True
  then show ?thesis
    using abits.count_in_clear1 [OF port_bits [OF assms(1,2)] assms(3)] assms(4)
    by (simp add: active_total_count_in PD_CHK_ACTIVE_def PD_CLR_ACTIVE_def timer_bit_def)
next
  case False
  have "active_total (PD_CLR_ACTIVE p t s) q = active_total s q"
    by (rule active_total_cong) (use False assms in \<open>simp add: pd_chk\<close>)
  then show ?thesis using False by simp
qed

subsection \<open>The operations on the view\<close>

text \<open>The common step of leaving the active state.\<close>

definition deactivate :: "nat \<Rightarrow> nat \<Rightarrow> pd_timers \<Rightarrow> pd_timers" where
  "deactivate p t s = (if PD_CHK_ACTIVE p t s then count_down p (PD_CLR_ACTIVE p t s) else s)"

lemma pd_dim_deactivate [simp]: "pd_dim P (deactivate p t s) = pd_dim P s"
  by (simp add: deactivate_def)

lemma expires_deactivate [simp]: "timer_expires (deactivate p t s) = timer_expires s"
  by (simp add: deactivate_def)

lemma pd_chk_deactivate [pd_chk]:
  assumes "pd_dim P s" and "p < P" and "t < PD_TIMER_COUNT" and "q < P" and "u < PD_TIMER_COUNT"
  shows "PD_CHK_ACTIVE q u (deactivate p t s) \<longleftrightarrow> \<not> (q = p \<and> u = t) \<and> PD_CHK_ACTIVE q u s"
    and "PD_CHK_DISABLED q u (deactivate p t s) \<longleftrightarrow> PD_CHK_DISABLED q u s"
  using assms by (auto simp: deactivate_def pd_chk)

lemma count_down_simps [simp]:
  "timer_count (count_down p s) = (timer_count s)[p := timer_count s ! p - 1]"
  "max_count (count_down p s) = max_count s"
  "timer_active (count_down p s) = timer_active s"
  by (simp_all add: count_down_def)

lemma counts_flag_ops [simp]:
  "timer_count (PD_SET_ACTIVE p t s) = timer_count s" "max_count (PD_SET_ACTIVE p t s) = max_count s"
  "timer_count (PD_CLR_ACTIVE p t s) = timer_count s" "max_count (PD_CLR_ACTIVE p t s) = max_count s"
  "counts_ok P (PD_SET_DISABLED p t s) = counts_ok P s" "counts_ok P (PD_CLR_DISABLED p t s) = counts_ok P s"
  "counts_ok P (s\<lparr>timer_expires := e\<rparr>) = counts_ok P s"
  by (simp_all add: PD_SET_ACTIVE_def PD_CLR_ACTIVE_def PD_SET_DISABLED_def PD_CLR_DISABLED_def
      counts_ok_def active_total_def PD_CHK_ACTIVE_def)

lemma active_total_counts [simp]:
  "active_total (count_down p s) q = active_total s q" "active_total (count_up p s) q = active_total s q"
  by (simp_all add: active_total_def pd_chk)

lemma counts_deactivate:
  assumes dim: "pd_dim P s" and ok: "counts_ok P s" and p: "p < P" and t: "t < PD_TIMER_COUNT"
  shows "counts_ok P (deactivate p t s)"
proof (cases "PD_CHK_ACTIVE p t s")
  case True
  have "active_total s q = active_total (PD_CLR_ACTIVE p t s) q + (if q = p then 1 else 0)" if "q < P" for q
    using active_total_clr [OF dim p t True that] .
  then show ?thesis using ok dim p True
    by (auto simp: counts_ok_def deactivate_def nth_list_update pd_dim_def)
qed (use ok in \<open>simp add: deactivate_def\<close>)

lemma counts_activate:
  assumes dim: "pd_dim P s" and ok: "counts_ok P s" and p: "p < P" and t: "t < PD_TIMER_COUNT"
    and off: "\<not> PD_CHK_ACTIVE p t s"
  shows "counts_ok P (count_up p (PD_SET_ACTIVE p t s))"
proof -
  have tot: "active_total (PD_SET_ACTIVE p t s) q = active_total s q + (if q = p then 1 else 0)" if "q < P" for q
    using active_total_set [OF dim p t off that] .
  have "timer_count (count_up p (PD_SET_ACTIVE p t s)) ! q = timer_count s ! q + (if q = p then 1 else 0)"
    "timer_count (count_up p (PD_SET_ACTIVE p t s)) ! q \<le> max_count (count_up p (PD_SET_ACTIVE p t s)) ! q"
    if "q < P" for q
    using that ok dim p by (auto simp: count_up_def Let_def nth_list_update pd_dim_def counts_ok_def)
  then show ?thesis using ok tot by (simp add: counts_ok_def)
qed

lemma pd_timer_inactive_deact: "pd_timer_inactive p t s = PD_CLR_DISABLED p t (deactivate p t s)"
  by (simp add: pd_timer_inactive_def deactivate_def Let_def)

lemma pd_timer_disable_deact: "pd_timer_disable p t s = PD_SET_DISABLED p t (deactivate p t s)"
  by (simp add: pd_timer_disable_def deactivate_def Let_def)

definition step_to :: "nat \<Rightarrow> pd_timers \<Rightarrow> pd_timers \<Rightarrow> (nat \<Rightarrow> nat \<Rightarrow> pd_view) \<Rightarrow> bool" where
  "step_to P s s' f \<longleftrightarrow> pd_inv P s' \<and> same_view P (timer_view s') f"

lemma inactive_step:
  assumes "pd_inv P s" and "p < P" and "t < PD_TIMER_COUNT"
  shows "step_to P s (pd_timer_inactive p t s) (view_upd p t Timer_Expired (timer_view s))"
  using assms counts_deactivate [of P s p t]
  by (auto simp: step_to_def pd_inv_def same_view_def view_upd_def timer_view_def pd_timer_inactive_deact pd_chk)

lemma disable_step:
  assumes "pd_inv P s" and "p < P" and "t < PD_TIMER_COUNT"
  shows "step_to P s (pd_timer_disable p t s) (view_upd p t Timer_Disabled (timer_view s))"
  using assms counts_deactivate [of P s p t]
  by (auto simp: step_to_def pd_inv_def same_view_def view_upd_def timer_view_def pd_timer_disable_deact pd_chk)

lemma enable_step:
  assumes inv: "pd_inv P s" and p: "p < P" and t: "t < PD_TIMER_COUNT"
  shows "step_to P s (pd_timer_enable now p t e s) (view_upd p t (Timer_Running (now + ucast e)) (timer_view s))"
proof -
  define s1 where "s1 = (if \<not> PD_CHK_ACTIVE p t s then count_up p (PD_SET_ACTIVE p t s) else s)"
  define ex where "ex = (timer_expires s)[p := (timer_expires s ! p)[t := now + ucast e]]"
  have en: "pd_timer_enable now p t e s = (PD_CLR_DISABLED p t s1)\<lparr>timer_expires := ex\<rparr>"
    by (simp add: pd_timer_enable_def s1_def ex_def Let_def)
  have dim: "pd_dim P s" using inv by (simp add: pd_inv_def)
  have dim1: "pd_dim P s1" and c1: "counts_ok P s1"
    and a1: "PD_CHK_ACTIVE q u s1 \<longleftrightarrow> q = p \<and> u = t \<or> PD_CHK_ACTIVE q u s"
      "PD_CHK_DISABLED q u s1 \<longleftrightarrow> PD_CHK_DISABLED q u s" if "q < P" "u < PD_TIMER_COUNT" for q u
    using inv p t counts_activate [of P s p t] that by (auto simp: s1_def pd_inv_def pd_chk)
  have dim1: "pd_dim P s1" and c1: "counts_ok P s1"
    using inv p t counts_activate [of P s p t] by (auto simp: s1_def pd_inv_def)
  have exl: "length ex = P" "list_all (\<lambda>xs. length xs = PD_TIMER_COUNT) ex"
    "ex ! q ! u = (if q = p \<and> u = t then now + ucast e else timer_expires s ! q ! u)"
    if "q < P" "u < PD_TIMER_COUNT" for q u
    using dim p t by (auto simp: ex_def pd_dim_def list_all_length nth_list_update)
  have exw: "length ex = P" "list_all (\<lambda>xs. length xs = PD_TIMER_COUNT) ex"
    using exl [OF p t] by simp_all
  have dim2: "pd_dim P ((PD_CLR_DISABLED p t s1)\<lparr>timer_expires := ex\<rparr>)"
    using dim1 pd_dim_ops(4) [of P p t s1] exw by (simp add: pd_dim_def)
  show ?thesis
    using inv p t dim1 dim2 c1 a1 exl
    by (auto simp: step_to_def pd_inv_def same_view_def view_upd_def timer_view_def en pd_chk)
qed

lemma same_view_trans: "same_view P f g \<Longrightarrow> same_view P g h \<Longrightarrow> same_view P f h"
  by (simp add: same_view_def)

lemma same_view_refl [simp]: "same_view P f f" by (simp add: same_view_def)

lemma same_view_upd: "same_view P f g \<Longrightarrow> same_view P (view_upd p t v f) (view_upd p t v g)"
  by (simp add: same_view_def view_upd_def)

lemma disable_fold:
  assumes "pd_inv P s" and "p < P" and "\<forall>t \<in> set ts. t < PD_TIMER_COUNT"
  shows "step_to P s (fold (\<lambda>t s. pd_timer_disable p t s) ts s)
    (\<lambda>q u. if q = p \<and> u \<in> set ts then Timer_Disabled else timer_view s q u)"
  using assms(1,3)
proof (induction ts arbitrary: s)
  case Nil
  then show ?case by (simp add: step_to_def)
next
  case (Cons t ts)
  let ?s = "pd_timer_disable p t s"
  have st: "pd_inv P ?s" "same_view P (timer_view ?s) (view_upd p t Timer_Disabled (timer_view s))"
    using disable_step [OF Cons.prems(1) assms(2), of t] Cons.prems(2) by (simp_all add: step_to_def)
  show ?case using Cons.IH [OF st(1)] Cons.prems(2) st(2)
    by (auto simp: step_to_def same_view_def view_upd_def)
qed

lemma init_fold:
  "fold (\<lambda>b s. PD_SET_DISABLED p b (PD_CLR_ACTIVE p b s)) bs s =
   s\<lparr>timer_active := fold (\<lambda>b m. atomic_clear_bit m (timer_bit p b)) bs (timer_active s),
     timer_disabled := fold (\<lambda>b m. atomic_set_bit m (timer_bit p b)) bs (timer_disabled s)\<rparr>"
  by (induction bs arbitrary: s) (simp_all add: PD_SET_DISABLED_def PD_CLR_ACTIVE_def)

lemma init_step:
  assumes inv: "pd_inv P s" and p: "p < P"
  shows "step_to P s (pd_timer_init p s) (\<lambda>q u. if q = p then Timer_Disabled else timer_view s q u)"
proof -
  let ?s = "pd_timer_init p s"
  have dim: "pd_dim P s" and cnt: "counts_ok P s" using inv by (simp_all add: pd_inv_def)
  have caps: "32 * length (timer_active s) = 32 * ATOMIC_BITMAP_SIZE (PD_TIMER_COUNT * P)"
    "32 * length (timer_disabled s) = 32 * ATOMIC_BITMAP_SIZE (PD_TIMER_COUNT * P)"
    using dim by (simp_all add: pd_dim_def)
  have img: "timer_bit q u \<in> timer_bit p ` set [0..<PD_TIMER_COUNT] \<longleftrightarrow> q = p" if "u < PD_TIMER_COUNT" for q u
    using timer_bit_inj [OF _ that, of _ q p] that by (auto simp: image_iff)
  have chk: "PD_CHK_ACTIVE q u ?s \<longleftrightarrow> q \<noteq> p \<and> PD_CHK_ACTIVE q u s"
    "PD_CHK_DISABLED q u ?s \<longleftrightarrow> q = p \<or> PD_CHK_DISABLED q u s" if "q < P" "u < PD_TIMER_COUNT" for q u
  proof -
    note c = timer_bit_cap [OF p] timer_bit_cap [OF that]
    show "PD_CHK_ACTIVE q u ?s \<longleftrightarrow> q \<noteq> p \<and> PD_CHK_ACTIVE q u s"
      unfolding pd_timer_init_def init_fold PD_CHK_ACTIVE_def
      using c img [OF that(2)] by (simp add: abits.test_fold_clear caps)
    show "PD_CHK_DISABLED q u ?s \<longleftrightarrow> q = p \<or> PD_CHK_DISABLED q u s"
      unfolding pd_timer_init_def init_fold PD_CHK_DISABLED_def
      using c img [OF that(2)] by (simp add: abits.test_fold_set caps)
  qed
  have dim': "pd_dim P ?s"
  proof -
    have "length (timer_active ?s) = length (timer_active s)" "length (timer_disabled ?s) = length (timer_disabled s)"
      by (simp_all add: pd_timer_init_def init_fold)
    then show ?thesis using dim by (simp add: pd_dim_def pd_timer_init_def init_fold)
  qed
  have tot: "active_total ?s q = (if q = p then 0 else active_total s q)" if "q < P" for q
  proof (cases "q = p")
    case True
    then show ?thesis using chk(1) [OF that] by (simp add: active_total_def)
  next
    case False
    then show ?thesis using chk(1) [OF that] by (simp, intro active_total_cong, simp)
  qed
  have cs: "timer_count ?s = (timer_count s)[p := 0]" "max_count ?s = max_count s"
    by (simp_all add: pd_timer_init_def init_fold)
  have "0 \<le> max_count s ! p"
    using cnt p by (metis counts_ok_def of_nat_0_le_iff order_trans)
  then have "counts_ok P ?s"
    using cnt dim p tot by (auto simp: counts_ok_def cs pd_dim_def nth_list_update)
  then show ?thesis using inv dim' chk
    by (auto simp: step_to_def pd_inv_def same_view_def timer_view_def cs pd_timer_init_def init_fold)
qed

text \<open>A running timer whose deadline has come.\<close>

definition due :: "u64 \<Rightarrow> pd_view \<Rightarrow> bool" where
  "due now v = (case v of Timer_Running e \<Rightarrow> e \<le> now | _ \<Rightarrow> False)"

lemma is_expired_result:
  "snd (pd_timer_is_expired now p t s) \<longleftrightarrow> due now (timer_view s p t) \<or> timer_view s p t = Timer_Expired"
  by (simp add: pd_timer_is_expired_def pd_timer_is_active_def pd_timer_is_inactive_def timer_view_def due_def)

lemma is_expired_step:
  assumes "pd_inv P s" and "p < P" and "t < PD_TIMER_COUNT"
  shows "step_to P s (fst (pd_timer_is_expired now p t s))
    (if due now (timer_view s p t) then view_upd p t Timer_Expired (timer_view s) else timer_view s)"
  using inactive_step [OF assms] assms(1)
  by (auto simp: pd_timer_is_expired_def pd_timer_is_active_def timer_view_def due_def step_to_def)

lemma manage_step_eq:
  assumes "pd_inv P s" and "p < P" and "t < PD_TIMER_COUNT"
  shows "step_to P s (manage_step clock p t s)
    (if due (clock t) (timer_view s p t) then view_upd p t Timer_Expired (timer_view s) else timer_view s)"
proof (cases "due (clock t) (timer_view s p t)")
  case True
  let ?s = "fst (pd_timer_is_expired (clock t) p t s)"
  have r: "pd_timer_is_expired (clock t) p t s = (?s, True)"
    using is_expired_result [of "clock t" p t s] True by (simp add: prod_eq_iff)
  have act: "pd_timer_is_active p t s"
    using True by (simp add: due_def timer_view_def pd_timer_is_active_def split: if_splits)
  have 1: "pd_inv P ?s" "same_view P (timer_view ?s) (view_upd p t Timer_Expired (timer_view s))"
    using is_expired_step [OF assms, of "clock t"] True by (simp_all add: step_to_def)
  have "step_to P ?s (pd_timer_inactive p t ?s) (view_upd p t Timer_Expired (timer_view ?s))"
    using inactive_step [OF 1(1) assms(2,3)] .
  then have "step_to P s (pd_timer_inactive p t ?s) (view_upd p t Timer_Expired (timer_view s))"
    using 1(2) by (auto simp: step_to_def same_view_def view_upd_def)
  then show ?thesis using True act by (subst manage_step_def, subst r) simp
next
  case False
  then have "manage_step clock p t s = s"
    by (simp add: manage_step_def pd_timer_is_expired_def pd_timer_is_active_def due_def timer_view_def split: if_splits)
  then show ?thesis using False assms(1) by (simp add: step_to_def)
qed

lemma manage_fold:
  assumes "pd_inv P s" and "p < P" and "distinct ts" and "\<forall>t \<in> set ts. t < PD_TIMER_COUNT"
  shows "step_to P s (fold (manage_step clock p) ts s)
    (\<lambda>q u. if q = p \<and> u \<in> set ts \<and> due (clock u) (timer_view s q u) then Timer_Expired else timer_view s q u)"
  using assms(1,3,4)
proof (induction ts arbitrary: s)
  case Nil
  then show ?case by (simp add: step_to_def)
next
  case (Cons t ts)
  let ?s = "manage_step clock p t s"
  have st: "pd_inv P ?s" "same_view P (timer_view ?s)
      (if due (clock t) (timer_view s p t) then view_upd p t Timer_Expired (timer_view s) else timer_view s)"
    using manage_step_eq [OF Cons.prems(1) assms(2), of t clock] Cons.prems(3) by (simp_all add: step_to_def)
  have "step_to P ?s (fold (manage_step clock p) ts ?s)
    (\<lambda>q u. if q = p \<and> u \<in> set ts \<and> due (clock u) (timer_view ?s q u) then Timer_Expired else timer_view ?s q u)"
    using Cons.IH [OF st(1)] Cons.prems by simp
  then show ?case using st(2) Cons.prems(2)
    by (auto simp: step_to_def same_view_def view_upd_def due_def split: if_splits)
qed

subsection \<open>Sequences of operations\<close>

datatype pd_op =
    PdInit nat
  | PdEnable u64 nat nat u32
  | PdDisable nat nat
  | PdDisableRange nat pd_timer_range
  | PdIsExpired u64 nat nat
  | PdManage "nat \<Rightarrow> u64" nat

fun pd_exec :: "pd_op \<Rightarrow> pd_timers \<Rightarrow> pd_timers" where
  "pd_exec (PdInit p) s = pd_timer_init p s"
| "pd_exec (PdEnable now p t e) s = pd_timer_enable now p t e s"
| "pd_exec (PdDisable p t) s = pd_timer_disable p t s"
| "pd_exec (PdDisableRange p r) s = pd_timer_disable_range p r s"
| "pd_exec (PdIsExpired now p t) s = fst (pd_timer_is_expired now p t s)"
| "pd_exec (PdManage clock p) s = pd_timer_manage_expired clock p s"

fun pd_spec :: "pd_op \<Rightarrow> (nat \<Rightarrow> nat \<Rightarrow> pd_view) \<Rightarrow> nat \<Rightarrow> nat \<Rightarrow> pd_view" where
  "pd_spec (PdInit p) f = (\<lambda>q u. if q = p then Timer_Disabled else f q u)"
| "pd_spec (PdEnable now p t e) f = view_upd p t (Timer_Running (now + ucast e)) f"
| "pd_spec (PdDisable p t) f = view_upd p t Timer_Disabled f"
| "pd_spec (PdDisableRange p r) f = (\<lambda>q u. case range_bounds r of
     None \<Rightarrow> f q u
   | Some (a, b) \<Rightarrow> if q = p \<and> a \<le> u \<and> u \<le> b then Timer_Disabled else f q u)"
| "pd_spec (PdIsExpired now p t) f =
     (\<lambda>q u. if q = p \<and> u = t \<and> due now (f q u) then Timer_Expired else f q u)"
| "pd_spec (PdManage clock p) f = (\<lambda>q u. if q = p \<and> due (clock u) (f q u) then Timer_Expired else f q u)"

fun pd_op_ok :: "nat \<Rightarrow> pd_op \<Rightarrow> bool" where
  "pd_op_ok P (PdInit p) = (p < P)"
| "pd_op_ok P (PdEnable now p t e) = (p < P \<and> t < PD_TIMER_COUNT)"
| "pd_op_ok P (PdDisable p t) = (p < P \<and> t < PD_TIMER_COUNT)"
| "pd_op_ok P (PdDisableRange p r) = (p < P)"
| "pd_op_ok P (PdIsExpired now p t) = (p < P \<and> t < PD_TIMER_COUNT)"
| "pd_op_ok P (PdManage clock p) = (p < P)"

lemma range_bounds_in: "range_bounds r = Some (a, b) \<Longrightarrow> b < PD_TIMER_COUNT"
  by (auto simp: range_bounds_def PD_TIMER_COUNT_def split: pd_timer_range.splits)

lemma pd_exec_step:
  assumes inv: "pd_inv P s" and ok: "pd_op_ok P op"
  shows "step_to P s (pd_exec op s) (pd_spec op (timer_view s))"
proof (cases op)
  case (PdInit p)
  then show ?thesis using init_step [OF inv, of p] ok by simp
next
  case (PdEnable now p t e)
  then show ?thesis using enable_step [OF inv] ok by simp
next
  case (PdDisable p t)
  then show ?thesis using disable_step [OF inv] ok by simp
next
  case (PdDisableRange p r)
  show ?thesis
  proof (cases "range_bounds r")
    case None
    then show ?thesis using PdDisableRange inv by (simp add: pd_timer_disable_range_def step_to_def)
  next
    case (Some ab)
    obtain a b where ab: "range_bounds r = Some (a, b)" using Some by (cases ab) simp
    have "step_to P s (fold (\<lambda>t s. pd_timer_disable p t s) [a..<b + 1] s)
      (\<lambda>q u. if q = p \<and> u \<in> set [a..<b + 1] then Timer_Disabled else timer_view s q u)"
      using range_bounds_in [OF ab] ok PdDisableRange by (intro disable_fold [OF inv]) auto
    moreover have "(\<lambda>q u. if q = p \<and> u \<in> set [a..<b + 1] then Timer_Disabled else timer_view s q u) =
        pd_spec op (timer_view s)"
      by (auto simp: PdDisableRange ab fun_eq_iff)
    ultimately show ?thesis by (simp add: PdDisableRange pd_timer_disable_range_def ab del: upt_Suc)
  qed
next
  case (PdIsExpired now p t)
  have "step_to P s (pd_exec op s)
      (if due now (timer_view s p t) then view_upd p t Timer_Expired (timer_view s) else timer_view s)"
    using is_expired_step [OF inv, of p t now] ok PdIsExpired by simp
  then show ?thesis by (auto simp: PdIsExpired step_to_def same_view_def view_upd_def split: if_splits)
next
  case (PdManage clock p)
  have "step_to P s (pd_exec op s) (\<lambda>q u. if q = p \<and> u \<in> set [0..<PD_TIMER_COUNT] \<and>
      due (clock u) (timer_view s q u) then Timer_Expired else timer_view s q u)"
    using manage_fold [OF inv, of p "[0..<PD_TIMER_COUNT]" clock] ok PdManage
    by (simp add: pd_timer_manage_expired_def)
  then show ?thesis by (auto simp: PdManage step_to_def same_view_def)
qed

lemma pd_spec_cong:
  assumes "same_view P f g"
  shows "same_view P (pd_spec op f) (pd_spec op g)"
  using assms by (cases op) (auto simp: same_view_def view_upd_def split: option.splits)

definition pd_boot :: "nat \<Rightarrow> pd_timers" where
  "pd_boot P = \<lparr>timer_active = replicate (ATOMIC_BITMAP_SIZE (PD_TIMER_COUNT * P)) 0,
     timer_disabled = replicate (ATOMIC_BITMAP_SIZE (PD_TIMER_COUNT * P)) 0,
     timer_expires = replicate P (replicate PD_TIMER_COUNT 0),
     timer_count = replicate P 0, max_count = replicate P 0\<rparr>"

lemma pd_boot_flags:
  assumes "p < P" and "t < PD_TIMER_COUNT"
  shows "\<not> PD_CHK_ACTIVE p t (pd_boot P)" and "\<not> PD_CHK_DISABLED p t (pd_boot P)"
  using timer_bit_cap [OF assms] div_32_bound [of "timer_bit p t" "ATOMIC_BITMAP_SIZE (PD_TIMER_COUNT * P)"]
  by (simp_all add: PD_CHK_ACTIVE_def PD_CHK_DISABLED_def pd_boot_def atomic_test_bit_iff)

lemma pd_boot_inv: "pd_inv P (pd_boot P)"
  using pd_boot_flags [of _ P]
  by (auto simp: pd_inv_def counts_ok_def active_total_def) (auto simp: pd_boot_def pd_dim_def list_all_length)

lemma pd_run_inv:
  assumes "list_all (pd_op_ok P) ops"
  shows "pd_inv P (fold pd_exec ops (pd_boot P)) \<and>
    same_view P (timer_view (fold pd_exec ops (pd_boot P))) (fold pd_spec ops (\<lambda>_ _. Timer_Expired))"
  using assms
proof (induction ops rule: rev_induct)
  case Nil
  have "same_view P (timer_view (pd_boot P)) (\<lambda>_ _. Timer_Expired)"
    using pd_boot_flags by (simp add: same_view_def timer_view_def)
  then show ?case using pd_boot_inv by simp
next
  case (snoc op ops)
  let ?s = "fold pd_exec ops (pd_boot P)"
  have "pd_inv P ?s" "same_view P (timer_view ?s) (fold pd_spec ops (\<lambda>_ _. Timer_Expired))"
    using snoc by simp_all
  moreover have "step_to P ?s (pd_exec op ?s) (pd_spec op (timer_view ?s))"
    using pd_exec_step [OF calculation(1), of op] snoc.prems by simp
  ultimately show ?case
    by (auto simp: step_to_def intro: same_view_trans pd_spec_cong)
qed

subsection \<open>The next deadline\<close>

definition pd_delta :: "u64 \<Rightarrow> nat \<Rightarrow> pd_timers \<Rightarrow> nat \<Rightarrow> int" where
  "pd_delta now p s t = sint (ucast (timer_expires s ! p ! t - now) :: u32)"

lemma pd_delta_narrow:
  assumes "now < timer_expires s ! p ! t"
  shows "pd_delta now p s t = signed_take_bit 31 (uint (timer_expires s ! p ! t) - uint now)"
proof -
  let ?w = "timer_expires s ! p ! t - now"
  have w: "uint ?w = uint (timer_expires s ! p ! t) - uint now"
    using assms by (simp add: uint_sub_if_size word_le_def word_less_def)
  have "pd_delta now p s t = signed_take_bit 31 (take_bit 32 (uint ?w))"
    by (simp add: pd_delta_def sint_uint unsigned_ucast_eq)
  then show ?thesis by (simp add: signed_take_bit_take_bit w)
qed

lemma pd_delta_le:
  assumes "now < timer_expires s ! p ! t"
  shows "pd_delta now p s t \<le> uint (timer_expires s ! p ! t) - uint now"
  using assms by (simp add: pd_delta_narrow signed_take_bit_int_less_eq_self_iff word_less_def)

lemma pd_delta_exact:
  assumes "now < timer_expires s ! p ! t" and "uint (timer_expires s ! p ! t) - uint now < 2 ^ 31"
  shows "pd_delta now p s t = uint (timer_expires s ! p ! t) - uint now"
  using assms by (simp add: pd_delta_narrow signed_take_bit_int_eq_self word_less_def)

lemma next_loop_due:
  "\<exists>t \<in> set ts. pd_timer_is_active p t s \<and> timer_expires s ! p ! t \<le> now \<Longrightarrow>
   next_expiration_loop now p ts ret s = EXPIRE_NOW"
  by (induction ts arbitrary: ret) (auto simp: Let_def)

lemma Min_insert_min:
  assumes "finite S"
  shows "Min (insert (min a r) S) = Min (insert r (insert a S))"
  using assms by (cases "S = {}") (simp_all add: ac_simps)

lemma next_loop_min:
  "\<forall>t \<in> set ts. pd_timer_is_active p t s \<longrightarrow> \<not> timer_expires s ! p ! t \<le> now \<Longrightarrow>
   next_expiration_loop now p ts ret s =
     Min (insert ret (pd_delta now p s ` {t \<in> set ts. pd_timer_is_active p t s}))"
proof (induction ts arbitrary: ret)
  case Nil
  then show ?case by simp
next
  case (Cons t ts)
  show ?case
  proof (cases "pd_timer_is_active p t s")
    case True
    have eq: "{u \<in> set (t # ts). pd_timer_is_active p u s} = insert t {u \<in> set ts. pd_timer_is_active p u s}"
      using True by auto
    have "next_expiration_loop now p (t # ts) ret s =
        next_expiration_loop now p ts (min (pd_delta now p s t) ret) s"
      using True Cons.prems by (simp add: pd_delta_def min_def Let_def less_le)
    also have "\<dots> = Min (insert (min (pd_delta now p s t) ret)
        (pd_delta now p s ` {t \<in> set ts. pd_timer_is_active p t s}))"
      using Cons by simp
    also have "\<dots> = Min (insert ret (insert (pd_delta now p s t)
        (pd_delta now p s ` {t \<in> set ts. pd_timer_is_active p t s})))"
      by (rule Min_insert_min) simp
    finally show ?thesis by (simp only: eq image_insert)
  next
    case False
    then have "{u \<in> set (t # ts). pd_timer_is_active p u s} = {u \<in> set ts. pd_timer_is_active p u s}" by auto
    then show ?thesis using False Cons by simp
  qed
qed

definition waiting :: "nat \<Rightarrow> pd_timers \<Rightarrow> nat set" where
  "waiting p s = {t. t < PD_TIMER_COUNT \<and> pd_timer_is_active p t s}"

lemma next_due:
  "\<exists>t \<in> waiting p s. timer_expires s ! p ! t \<le> now \<Longrightarrow> pd_timer_next_expiration now p s = EXPIRE_NOW"
  unfolding pd_timer_next_expiration_def waiting_def
  by (subst next_loop_due) (auto simp: EXPIRE_NOW_def MAX_EXPIRE_def)

lemma next_min:
  assumes "\<forall>t \<in> waiting p s. now < timer_expires s ! p ! t"
  shows "pd_timer_next_expiration now p s =
    (let ret = Min (insert MAX_EXPIRE (pd_delta now p s ` waiting p s))
     in if ret = MAX_EXPIRE then NO_TIMEOUT else ret)"
proof -
  have "{t \<in> set [0..<PD_TIMER_COUNT]. pd_timer_is_active p t s} = waiting p s" by (auto simp: waiting_def)
  then show ?thesis
    using next_loop_min [of "[0..<PD_TIMER_COUNT]" p s now MAX_EXPIRE] assms
    by (simp add: pd_timer_next_expiration_def waiting_def not_le)
qed

lemma finite_waiting [simp]: "finite (waiting p s)"
  by (simp add: waiting_def)

lemma waiting_view:
  "t < PD_TIMER_COUNT \<and> timer_view s p t = Timer_Running e \<longleftrightarrow>
   t \<in> waiting p s \<and> e = timer_expires s ! p ! t"
  by (auto simp: timer_view_def waiting_def pd_timer_is_active_def)

subsection \<open>Properties\<close>

text \<open>
  C20: The PD timers of all ports refine independent timers. After any sequence of operations from
  boot on valid ports and timers, each timer of each port is disabled, running with its deadline,
  or expired exactly as the specification \<open>pd_spec\<close> says (an operation on one timer or
  range never touches another, although all share the words of two bit arrays); none is both
  active and disabled, and the debug count of a port is its number of active timers, never above
  its recorded maximum.
\<close>

theorem pd_timers_refine:
  assumes "list_all (pd_op_ok P) ops" and "p < P"
  defines "s \<equiv> fold pd_exec ops (pd_boot P)"
  shows "(\<forall>t<PD_TIMER_COUNT. timer_view s p t = fold pd_spec ops (\<lambda>_ _. Timer_Expired) p t \<and>
      \<not> (PD_CHK_ACTIVE p t s \<and> pd_timer_is_disabled p t s)) \<and>
    timer_count s ! p = int (card {t. t < PD_TIMER_COUNT \<and> pd_timer_is_active p t s}) \<and>
    timer_count s ! p \<le> max_count s ! p"
  using pd_run_inv [OF assms(1)] assms(2)
  by (auto simp: s_def pd_inv_def counts_ok_def same_view_def active_total_def pd_timer_is_disabled_def
      pd_timer_is_active_def)

lemma pd_timers_refine_witness:
  "timer_view (fold pd_exec [PdInit 1, PdEnable 100 1 5 50, PdEnable 120 1 30 10, PdDisableRange 1 TC_TIMER_RANGE,
      PdManage (\<lambda>_. 150) 1] (pd_boot 2)) 1 5 = Timer_Expired"
  using pd_timers_refine [of 2 "[PdInit 1, PdEnable 100 1 5 50, PdEnable 120 1 30 10, PdDisableRange 1 TC_TIMER_RANGE,
      PdManage (\<lambda>_. 150) 1]" 1]
  by (simp add: PD_TIMER_COUNT_def range_bounds_def view_upd_def due_def)

text \<open>
  A PD timer expires at its deadline and stays expired. In every state reached from boot, a
  timer enabled at \<open>t0\<close> for \<open>e\<close> microseconds is reported expired at a time
  \<open>t1\<close> exactly when \<open>t0 + e \<le> t1\<close>; once reported, it is reported at every
  later query, whatever the clock says then; a disabled timer never is.
\<close>

lemma pd_timer_expiry:
  fixes t0 t1 t2 :: u64 and e :: u32
  assumes "list_all (pd_op_ok P) ops" and "p < P" and "t < PD_TIMER_COUNT"
  defines "s \<equiv> fold pd_exec ops (pd_boot P)"
  defines "s1 \<equiv> pd_timer_enable t0 p t e s"
  shows "(snd (pd_timer_is_expired t1 p t s1) \<longleftrightarrow> t0 + ucast e \<le> t1) \<and>
    (t0 + ucast e \<le> t1 \<longrightarrow> snd (pd_timer_is_expired t2 p t (fst (pd_timer_is_expired t1 p t s1)))) \<and>
    \<not> snd (pd_timer_is_expired t1 p t (pd_timer_disable p t s))"
proof -
  have inv: "pd_inv P s" using pd_run_inv [OF assms(1)] by (simp add: s_def)
  have v1: "pd_inv P s1" "timer_view s1 p t = Timer_Running (t0 + ucast e)"
    using enable_step [OF inv assms(2,3), of t0 e] assms(2,3)
    by (simp_all add: step_to_def same_view_def view_upd_def s1_def)
  have "snd (pd_timer_is_expired t1 p t s1) \<longleftrightarrow> t0 + ucast e \<le> t1"
    by (simp add: is_expired_result v1 due_def)
  moreover have "snd (pd_timer_is_expired t2 p t (fst (pd_timer_is_expired t1 p t s1)))" if "t0 + ucast e \<le> t1"
    using is_expired_step [OF v1(1) assms(2,3), of t1] that assms(2,3)
    by (simp add: is_expired_result v1 due_def step_to_def same_view_def view_upd_def)
  moreover have "\<not> snd (pd_timer_is_expired t1 p t (pd_timer_disable p t s))"
    using disable_step [OF inv assms(2,3)] assms(2,3)
    by (simp add: is_expired_result due_def step_to_def same_view_def view_upd_def)
  ultimately show ?thesis by blast
qed

lemma pd_timer_expiry_witness:
  "snd (pd_timer_is_expired 150 0 36 (pd_timer_enable 100 0 36 50 (fold pd_exec [PdInit 0] (pd_boot 1))))"
  using pd_timer_expiry [of 1 "[PdInit 0]" 0 36 150 100 50] by (simp add: PD_TIMER_COUNT_def)

text \<open>
  The next expiration is exact for deadlines below \<open>MAX_EXPIRE\<close> ahead: 0 when some
  running timer is due, \<open>NO_TIMEOUT\<close> when none runs, and else the time to the earliest
  deadline.
\<close>

lemma pd_next_expiration_exact:
  assumes "\<forall>t<PD_TIMER_COUNT. \<forall>e. timer_view s p t = Timer_Running e \<longrightarrow> uint e - uint now < MAX_EXPIRE"
  shows "pd_timer_next_expiration now p s =
    (if \<exists>t<PD_TIMER_COUNT. due now (timer_view s p t) then 0
     else if \<forall>t<PD_TIMER_COUNT. \<forall>e. timer_view s p t \<noteq> Timer_Running e then -1
     else Min {uint e - uint now | t e. t < PD_TIMER_COUNT \<and> timer_view s p t = Timer_Running e})"
proof (cases "\<exists>t \<in> waiting p s. timer_expires s ! p ! t \<le> now")
  case True
  then obtain t where t: "t \<in> waiting p s" "timer_expires s ! p ! t \<le> now" by blast
  then have "t < PD_TIMER_COUNT" "due now (timer_view s p t)"
    by (auto simp: waiting_def due_def timer_view_def pd_timer_is_active_def)
  then show ?thesis using next_due [OF True] by (auto simp: EXPIRE_NOW_def)
next
  case False
  then have lt: "\<forall>t \<in> waiting p s. now < timer_expires s ! p ! t" by (auto simp: not_le)
  have nodue: "\<not> due now (timer_view s p t)" if "t < PD_TIMER_COUNT" for t
    using False that by (auto simp: waiting_def due_def timer_view_def pd_timer_is_active_def)
  have exact: "pd_delta now p s t = uint (timer_expires s ! p ! t) - uint now"
    "pd_delta now p s t < MAX_EXPIRE" if "t \<in> waiting p s" for t
  proof -
    have "uint (timer_expires s ! p ! t) - uint now < MAX_EXPIRE"
      using that assms waiting_view [of t s p "timer_expires s ! p ! t"] by blast
    then show "pd_delta now p s t = uint (timer_expires s ! p ! t) - uint now" "pd_delta now p s t < MAX_EXPIRE"
      using lt that by (simp_all add: pd_delta_exact MAX_EXPIRE_def)
  qed
  have set: "{uint e - uint now | t e. t < PD_TIMER_COUNT \<and> timer_view s p t = Timer_Running e} =
      pd_delta now p s ` waiting p s"
    unfolding waiting_view by (force simp: exact(1))
  have none: "(\<forall>t<PD_TIMER_COUNT. \<forall>e. timer_view s p t \<noteq> Timer_Running e) \<longleftrightarrow> waiting p s = {}"
    using waiting_view [of _ s p] by blast
  show ?thesis
  proof (cases "waiting p s = {}")
    case True
    then show ?thesis using next_min [OF lt] none nodue by (simp add: NO_TIMEOUT_def)
  next
    case ne: False
    have lm: "Min (pd_delta now p s ` waiting p s) < MAX_EXPIRE"
      using exact(2) ne by (auto simp: Min_less_iff)
    then have "Min (insert MAX_EXPIRE (pd_delta now p s ` waiting p s)) = Min (pd_delta now p s ` waiting p s)"
      using ne by (simp add: min_absorb2)
    then have res: "pd_timer_next_expiration now p s = Min (pd_delta now p s ` waiting p s)"
      using next_min [OF lt] lm by (simp add: Let_def)
    have "\<not> (\<exists>t<PD_TIMER_COUNT. due now (timer_view s p t))"
      "\<not> (\<forall>t<PD_TIMER_COUNT. \<forall>e. timer_view s p t \<noteq> Timer_Running e)"
      using nodue none ne by blast+
    then show ?thesis by (simp only: res set if_False)
  qed
qed

definition demo_timers :: pd_timers where
  "demo_timers = fold pd_exec [PdInit 0, PdEnable 100 0 36 50, PdEnable 120 0 5 10] (pd_boot 1)"

lemma demo_timers_view:
  "t < PD_TIMER_COUNT \<Longrightarrow> timer_view demo_timers 0 t =
     (if t = 5 then Timer_Running 130 else if t = 36 then Timer_Running 150 else Timer_Disabled)"
  using pd_run_inv [of 1 "[PdInit 0, PdEnable 100 0 36 50, PdEnable 120 0 5 10]"]
  by (simp add: demo_timers_def same_view_def view_upd_def PD_TIMER_COUNT_def)

lemma pd_next_expiration_exact_witness: "pd_timer_next_expiration 140 0 demo_timers = 0"
proof -
  have "\<exists>t<PD_TIMER_COUNT. due 140 (timer_view demo_timers 0 t)"
    by (rule exI [of _ 5]) (simp add: demo_timers_view PD_TIMER_COUNT_def due_def)
  moreover have "\<forall>t<PD_TIMER_COUNT. \<forall>e. timer_view demo_timers 0 t = Timer_Running e \<longrightarrow> uint e - uint (140::u64) < MAX_EXPIRE"
    by (auto simp: demo_timers_view MAX_EXPIRE_def split: if_splits)
  ultimately show ?thesis using pd_next_expiration_exact [of demo_timers 0 140] by simp
qed

text \<open>How far ahead the deadlines of the running timers are, in 32 bits.\<close>

definition time_ahead :: "u64 \<Rightarrow> u64 \<Rightarrow> int" where
  "time_ahead now e = (uint e - uint now) mod 2 ^ 32"

lemma pd_delta_ahead:
  assumes "now < timer_expires s ! p ! t"
  shows "pd_delta now p s t =
    (if 2 ^ 31 \<le> time_ahead now (timer_expires s ! p ! t) then time_ahead now (timer_expires s ! p ! t) - 2 ^ 32
     else time_ahead now (timer_expires s ! p ! t))"
proof -
  let ?x = "uint (timer_expires s ! p ! t) - uint now"
  have "pd_delta now p s t = signed_take_bit 31 (take_bit 32 ?x)"
    unfolding pd_delta_narrow [OF assms] by (simp add: signed_take_bit_take_bit)
  also have "take_bit 32 ?x = time_ahead now (timer_expires s ! p ! t)"
    by (simp add: take_bit_eq_mod time_ahead_def)
  also have "signed_take_bit 31 y = (if 2 ^ 31 \<le> y then y - 2 ^ 32 else y)" if "0 \<le> y" "y < 2 ^ 32" for y :: int
  proof (cases "2 ^ 31 \<le> y")
    case True
    have "signed_take_bit 31 y = signed_take_bit 31 (y - 2 ^ 32)"
      by (simp add: signed_take_bit_eq_iff_take_bit_eq take_bit_eq_mod mod_diff_eq [symmetric])
    also have "\<dots> = y - 2 ^ 32" using True that by (intro signed_take_bit_int_eq_self) simp_all
    finally show ?thesis using True by simp
  qed (use that in \<open>simp add: signed_take_bit_int_eq_self\<close>)
  finally show ?thesis using time_ahead_def by simp
qed

lemma Min_insert_clamp:
  assumes "finite D" and "a \<le> (b :: int)"
  shows "Min (insert a D) = min a (Min (insert b D))"
  using assms by (cases "D = {}") (auto simp: min_def)

text \<open>
  C21: The timeout of the PD task is exact. It waits for ever while the event loop is paused; else, when a
  running timer of the port is due, for \<open>USBC_MIN_EVENT_TIMEOUT\<close>; else, when a running timer is at
  least \<open>2^31\<close> microseconds ahead, for \<open>USBC_EVENT_TIMEOUT\<close>, whatever the nearest deadline is;
  and else for the time to the nearest deadline, but no longer than \<open>USBC_EVENT_TIMEOUT\<close> and no
  shorter than \<open>USBC_MIN_EVENT_TIMEOUT\<close>. So a deadline to come is passed by less than the lower limit if
  no timer is that far ahead, and by less than the upper limit in any case.
\<close>

theorem pd_task_timeout_exact:
  "pd_task_timeout now paused p s =
    (if paused ! p \<noteq> 0 then -1
     else if \<exists>t<PD_TIMER_COUNT. due now (timer_view s p t) then USBC_MIN_EVENT_TIMEOUT
     else if \<exists>t<PD_TIMER_COUNT. \<exists>e. timer_view s p t = Timer_Running e \<and> 2 ^ 31 \<le> time_ahead now e then USBC_EVENT_TIMEOUT
     else max USBC_MIN_EVENT_TIMEOUT
       (Min (insert USBC_EVENT_TIMEOUT {time_ahead now e | t e. t < PD_TIMER_COUNT \<and> timer_view s p t = Timer_Running e})))"
proof (cases "paused ! p \<noteq> 0 \<or> (\<exists>t<PD_TIMER_COUNT. due now (timer_view s p t))")
  case True
  have "\<exists>t \<in> waiting p s. timer_expires s ! p ! t \<le> now" if "t < PD_TIMER_COUNT" "due now (timer_view s p t)" for t
    using that by (auto simp: waiting_def due_def timer_view_def pd_timer_is_active_def split: if_splits intro!: bexI [of _ t])
  then show ?thesis
    using True next_due [of p s now]
    by (auto simp: pd_task_timeout_def EXPIRE_NOW_def USBC_EVENT_TIMEOUT_def USBC_MIN_EVENT_TIMEOUT_def)
next
  case False
  let ?D = "pd_delta now p s ` waiting p s" and ?n = "pd_timer_next_expiration now p s"
  have lt: "\<forall>t \<in> waiting p s. now < timer_expires s ! p ! t"
    using False by (auto simp: waiting_def due_def timer_view_def pd_timer_is_active_def not_le)
  note n = next_min [OF lt, unfolded Let_def]
  have to: "pd_task_timeout now paused p s = (if ?n < 0 \<or> USBC_EVENT_TIMEOUT < ?n then USBC_EVENT_TIMEOUT
      else if ?n < USBC_MIN_EVENT_TIMEOUT then USBC_MIN_EVENT_TIMEOUT else ?n)"
    using False by (simp add: pd_task_timeout_def Let_def)
  have far: "(\<exists>t<PD_TIMER_COUNT. \<exists>e. timer_view s p t = Timer_Running e \<and> 2 ^ 31 \<le> time_ahead now e)
     \<longleftrightarrow> (\<exists>t \<in> waiting p s. 2 ^ 31 \<le> time_ahead now (timer_expires s ! p ! t))"
  proof -
    have "(\<exists>t<PD_TIMER_COUNT. \<exists>e. timer_view s p t = Timer_Running e \<and> 2 ^ 31 \<le> time_ahead now e)
      \<longleftrightarrow> (\<exists>t e. (t < PD_TIMER_COUNT \<and> timer_view s p t = Timer_Running e) \<and> 2 ^ 31 \<le> time_ahead now e)" by blast
    then show ?thesis unfolding waiting_view by auto
  qed
  show ?thesis
  proof (cases "\<exists>t \<in> waiting p s. 2 ^ 31 \<le> time_ahead now (timer_expires s ! p ! t)")
    case True
    then obtain t where t: "t \<in> waiting p s" "2 ^ 31 \<le> time_ahead now (timer_expires s ! p ! t)" by blast
    have "time_ahead now (timer_expires s ! p ! t) < 2 ^ 32" by (simp add: time_ahead_def)
    then have "pd_delta now p s t < 0" using pd_delta_ahead [of now s p t] lt t by simp
    moreover have "Min (insert MAX_EXPIRE ?D) \<le> pd_delta now p s t" using t(1) by (intro Min_le) simp_all
    ultimately have "?n < 0" unfolding n by (simp add: NO_TIMEOUT_def)
    then show ?thesis using to False far True by auto
  next
    case near: False
    have d: "pd_delta now p s t = time_ahead now (timer_expires s ! p ! t)" if "t \<in> waiting p s" for t
      using that near lt by (simp add: pd_delta_ahead)
    have D: "{time_ahead now e | t e. t < PD_TIMER_COUNT \<and> timer_view s p t = Timer_Running e} = ?D"
      unfolding waiting_view by (force simp: d)
    have "0 \<le> Min (insert MAX_EXPIRE ?D)" by (auto simp: d MAX_EXPIRE_def time_ahead_def)
    moreover have "Min (insert USBC_EVENT_TIMEOUT ?D) = min USBC_EVENT_TIMEOUT (Min (insert MAX_EXPIRE ?D))"
      by (rule Min_insert_clamp) (simp_all add: MAX_EXPIRE_def USBC_EVENT_TIMEOUT_def)
    moreover have clamp: "(if r < 0 \<or> USBC_EVENT_TIMEOUT < r then USBC_EVENT_TIMEOUT
        else if r < USBC_MIN_EVENT_TIMEOUT then USBC_MIN_EVENT_TIMEOUT else r) = max USBC_MIN_EVENT_TIMEOUT (min USBC_EVENT_TIMEOUT m)"
      if "0 \<le> m" "r = (if m = MAX_EXPIRE then NO_TIMEOUT else m)" for r m
      using that by (auto simp: USBC_EVENT_TIMEOUT_def USBC_MIN_EVENT_TIMEOUT_def MAX_EXPIRE_def NO_TIMEOUT_def)
    ultimately have "pd_task_timeout now paused p s = max USBC_MIN_EVENT_TIMEOUT (Min (insert USBC_EVENT_TIMEOUT ?D))"
      unfolding to using n clamp by simp
    moreover have "paused ! p = 0" "\<not> (\<exists>t<PD_TIMER_COUNT. due now (timer_view s p t))" using False by simp_all
    ultimately show ?thesis using near by (simp only: far D if_False simp_thms)
  qed
qed

text \<open>
  A timer more than \<open>MAX_EXPIRE\<close> ahead hides nearer deadlines. With one timer
  1500 us ahead and another enabled for \<open>0x80000000\<close> us, \<open>int delta\<close> is negative
  for the latter, the next expiration is \<open>-2147483648\<close>, which its contract does not
  allow, and the PD task sleeps 5000 us, past the nearer deadline.
\<close>

lemma pd_far_timer_hides_deadline:
  "let s = fold pd_exec [PdInit 0, PdEnable 100 0 5 1500, PdEnable 100 0 36 0x80000000] (pd_boot 1)
   in timer_view s 0 5 = Timer_Running 1600 \<and> pd_timer_next_expiration 100 0 s = - 2147483648 \<and>
      pd_task_timeout 100 [0] 0 s = 5000"
  by code_simp

end
