(* ===== verification/UsbSm.thy ===== *)
theory UsbSm
  imports Prelude
begin

section \<open>The hierarchical state machines of common/usbc/usb_sm.c\<close>

text \<open>
  The framework that runs the USB type-C, protocol and policy engine state machines. States are
  addresses, \<open>None\<close> is the null pointer, and the table \<open>st\<close> gives the fields
  behind a state. The routines of the states are the framework's clients: \<open>body\<close> gives,
  from the history of routine calls (the newest, being executed, first), the states that the
  routine asks for with \<open>set_state\<close>, in order. The history also records states whose
  routine pointer is null, which do nothing. A routine can call \<open>set_state\<close> without
  end, so the functions have fuel; \<open>None\<close> stands for running out of it, or for following
  a null pointer.
\<close>

record usb_state =
  parent :: "nat option"
  has_entry :: bool
  has_run :: bool
  has_exit :: bool

datatype sm_event = Entry nat | Run nat | Exit nat

record sm_ctx =
  current :: "nat option"
  previous :: "nat option"
  last_entered :: "nat option"
  running :: bool
  enter :: bool
  exiting :: bool
  history :: "sm_event list"
  wakes :: nat

type_synonym sm_table = "nat \<Rightarrow> usb_state"
type_synonym sm_body = "sm_event list \<Rightarrow> nat option list"

fun shared_parent_loop :: "nat \<Rightarrow> sm_table \<Rightarrow> nat option \<Rightarrow> nat option \<Rightarrow> nat option \<Rightarrow> nat option option" where
  "shared_parent_loop 0 st orig_b a b = None"
| "shared_parent_loop (Suc n) st orig_b a b =
     (case a of
        None \<Rightarrow> Some None
      | Some x \<Rightarrow>
          (if a = b then Some a
           else case b of
               None \<Rightarrow> None
             | Some y \<Rightarrow>
                 (if parent (st y) = None then shared_parent_loop n st orig_b (parent (st x)) orig_b
                  else shared_parent_loop n st orig_b a (parent (st y)))))"

definition shared_parent_state :: "nat \<Rightarrow> sm_table \<Rightarrow> nat option \<Rightarrow> nat option \<Rightarrow> nat option option" where
  "shared_parent_state n st a b =
     (if b = None then Some None else shared_parent_loop n st b a b)"

text \<open>The routine of a state, if it has one, and what it asks for.\<close>

definition routine :: "sm_table \<Rightarrow> sm_body \<Rightarrow> sm_event \<Rightarrow> sm_ctx \<Rightarrow> sm_ctx \<times> nat option list" where
  "routine st body e c =
     (let c1 = c\<lparr>history := e # history c\<rparr>;
          there = (case e of Entry s \<Rightarrow> has_entry (st s) | Run s \<Rightarrow> has_run (st s) | Exit s \<Rightarrow> has_exit (st s))
      in (c1, if there then body (history c1) else []))"

text \<open>
  Calling \<open>set_state\<close>, itself defined below, for each state a routine asks for, and
  the routines of a state and its ancestors.
\<close>

type_synonym sm_set = "nat option \<Rightarrow> sm_ctx \<Rightarrow> sm_ctx option"

primrec set_states :: "sm_set \<Rightarrow> nat option list \<Rightarrow> sm_ctx \<Rightarrow> sm_ctx option" where
  "set_states set_to [] c = Some c"
| "set_states set_to (r # rs) c = do { c1 \<leftarrow> set_to r c; set_states set_to rs c1 }"

primrec call_entry_functions ::
    "nat \<Rightarrow> sm_set \<Rightarrow> sm_table \<Rightarrow> sm_body \<Rightarrow> nat option \<Rightarrow> nat option \<Rightarrow> sm_ctx \<Rightarrow> sm_ctx option" where
  "call_entry_functions 0 set_to st body stop cur c = None"
| "call_entry_functions (Suc n) set_to st body stop cur c =
     (if cur = stop then Some c
      else case cur of
          None \<Rightarrow> None
        | Some x \<Rightarrow> do {
            c1 \<leftarrow> call_entry_functions n set_to st body stop (parent (st x)) c;
            if \<not> enter c1 then Some c1
            else (let (c2, asked) = routine st body (Entry x) (c1\<lparr>last_entered := cur\<rparr>)
                  in set_states set_to asked c2)
          })"

primrec call_exit_functions ::
    "nat \<Rightarrow> sm_set \<Rightarrow> sm_table \<Rightarrow> sm_body \<Rightarrow> nat option \<Rightarrow> nat option \<Rightarrow> sm_ctx \<Rightarrow> sm_ctx option" where
  "call_exit_functions 0 set_to st body stop cur c = None"
| "call_exit_functions (Suc n) set_to st body stop cur c =
     (if cur = stop then Some c
      else case cur of
          None \<Rightarrow> None
        | Some x \<Rightarrow>
            (let (c1, asked) = routine st body (Exit x) c
             in do {
               c2 \<leftarrow> set_states set_to asked c1;
               call_exit_functions n set_to st body stop (parent (st x)) c2
             }))"

primrec set_state :: "nat \<Rightarrow> sm_table \<Rightarrow> sm_body \<Rightarrow> nat option \<Rightarrow> sm_ctx \<Rightarrow> sm_ctx option" where
  "set_state 0 st body new_state c = None"
| "set_state (Suc n) st body new_state c =
     (if exiting c then Some c
      else do {
        let last_state = (if enter c then last_entered c else current c);
        shared_parent \<leftarrow> shared_parent_state n st last_state new_state;
        c1 \<leftarrow> call_exit_functions n (set_state n st body) st body shared_parent last_state
                (c\<lparr>exiting := True\<rparr>);
        let c2 = c1\<lparr>exiting := False, previous := current c1, current := new_state,
                    last_entered := None, enter := True\<rparr>;
        c3 \<leftarrow> call_entry_functions n (set_state n st body) st body shared_parent (current c2) c2;
        Some (c3\<lparr>enter := False, running := False, wakes := wakes c3 + 1\<rparr>)
      })"

primrec call_run_functions :: "nat \<Rightarrow> sm_set \<Rightarrow> sm_table \<Rightarrow> sm_body \<Rightarrow> nat option \<Rightarrow> sm_ctx \<Rightarrow> sm_ctx option" where
  "call_run_functions 0 set_to st body cur c = None"
| "call_run_functions (Suc n) set_to st body cur c =
     (case cur of
        None \<Rightarrow> Some c
      | Some x \<Rightarrow>
          (if \<not> running c then Some c
           else let (c1, asked) = routine st body (Run x) c
                in do {
                  c2 \<leftarrow> set_states set_to asked c1;
                  call_run_functions n set_to st body (parent (st x)) c2
                }))"

definition run_state :: "nat \<Rightarrow> sm_table \<Rightarrow> sm_body \<Rightarrow> sm_ctx \<Rightarrow> sm_ctx option" where
  "run_state n st body c =
     do {
       c1 \<leftarrow> call_run_functions n (set_state n st body) st body (current c) (c\<lparr>running := True\<rparr>);
       Some (c1\<lparr>running := False\<rparr>)
     }"

subsection \<open>Chains of parents and the states entered\<close>

text \<open>The chain of a state: itself and its ancestors up to a root.\<close>

fun chain :: "sm_table \<Rightarrow> nat option \<Rightarrow> nat list \<Rightarrow> bool" where
  "chain st None xs \<longleftrightarrow> xs = []"
| "chain st (Some s) xs \<longleftrightarrow> (case xs of [] \<Rightarrow> False | x # xs' \<Rightarrow> x = s \<and> chain st (parent (st s)) xs')"

text \<open>The states entered and not yet exited, \<open>None\<close> when one is exited out of turn.\<close>

fun entered :: "sm_event list \<Rightarrow> nat list option" where
  "entered [] = Some []"
| "entered (Entry s # h) = map_option ((#) s) (entered h)"
| "entered (Exit s # h) = (case entered h of Some (x # xs) \<Rightarrow> if x = s then Some xs else None | _ \<Rightarrow> None)"
| "entered (Run s # h) = entered h"

lemma chain_unique: "chain st a xs \<Longrightarrow> chain st a ys \<Longrightarrow> xs = ys"
proof (induction xs arbitrary: a ys)
  case Nil
  then show ?case by (cases a) auto
next
  case (Cons x xs)
  then show ?case by (cases a; cases ys) auto
qed

lemma chain_suffix: "chain st a (xs @ y # ys) \<Longrightarrow> chain st (Some y) (y # ys)"
proof (induction xs arbitrary: a)
  case Nil
  then show ?case by (cases a) auto
next
  case (Cons x xs)
  then show ?case by (cases a) auto
qed

lemma chain_Cons: "chain st a (x # xs) \<longleftrightarrow> a = Some x \<and> chain st (parent (st x)) xs"
  by (cases a) auto

lemma chain_Nil: "chain st a [] \<longleftrightarrow> a = None"
  by (cases a) auto

lemma chain_distinct: "chain st a xs \<Longrightarrow> distinct xs"
proof (induction xs arbitrary: a)
  case (Cons x xs)
  have "x \<notin> set xs"
  proof
    assume "x \<in> set xs"
    then obtain ys zs where "xs = ys @ x # zs" using split_list by metis
    then have "chain st (Some x) (x # zs)" "chain st (Some x) (x # ys @ x # zs)"
      using Cons.prems chain_suffix [of st a "x # ys" x zs] by (auto simp: chain_Cons)
    then have "x # zs = x # ys @ x # zs" by (rule chain_unique)
    then have "length zs = length (ys @ x # zs)" by simp
    then show False by simp
  qed
  with Cons show ?case by (auto simp: chain_Cons)
qed simp

text \<open>The nearest common ancestor splits both chains.\<close>

lemma chain_split:
  assumes "chain st a p" and "chain st b q" and "r = find (\<lambda>x. x \<in> set q) p"
  obtains p1 q1 k where "p = p1 @ k" and "q = q1 @ k" and "chain st r k" and "set p1 \<inter> set q = {}"
proof (cases r)
  case None
  then have "set p \<inter> set q = {}" using assms(3) find_None_iff [of "\<lambda>x. x \<in> set q" p] by auto
  then show ?thesis using that [of p "[]" q] None by simp
next
  case (Some x)
  obtain i where i: "i < length p" "x = p ! i" "p ! i \<in> set q" "\<forall>j<i. p ! j \<notin> set q"
    using Some assms(3) find_Some_iff [of "\<lambda>x. x \<in> set q" p x] by auto
  have p: "p = take i p @ x # drop (Suc i) p" using i id_take_nth_drop by simp
  obtain q1 q2 where q: "q = q1 @ x # q2" using i split_list by metis
  have c: "chain st (Some x) (x # drop (Suc i) p)" "chain st (Some x) (x # q2)"
    using assms(1,2) p q chain_suffix by metis+
  then have "drop (Suc i) p = q2" using chain_unique by blast
  moreover have "set (take i p) \<inter> set q = {}" using i(1,4) by (auto simp: in_set_conv_nth)
  ultimately show ?thesis using that [of "take i p" "x # q2" q1] p q c Some by simp
qed

lemma shared_parent_loop_find:
  assumes "chain st orig q" and "chain st a p" and "q = q0 @ q'" and "chain st b q'" and "q' \<noteq> []"
    and "p \<noteq> [] \<longrightarrow> hd p \<notin> set q0"
  shows "(\<forall>r. shared_parent_loop n st orig a b = Some r \<longrightarrow> r = find (\<lambda>x. x \<in> set q) p) \<and>
    (length p * Suc (length q) + length q' < n \<longrightarrow> shared_parent_loop n st orig a b \<noteq> None)"
  using assms
proof (induction n arbitrary: a p b q0 q')
  case 0
  then show ?case by simp
next
  case (Suc n)
  show ?case
  proof (cases a)
    case None
    then have "p = []" using Suc.prems(2) by simp
    then show ?thesis using None by simp
  next
    case (Some x)
    obtain p' where p: "p = x # p'" and p': "chain st (parent (st x)) p'"
      using Suc.prems(2) Some by (cases p) auto
    obtain y q'' where b: "b = Some y" and q': "q' = y # q''" and q'': "chain st (parent (st y)) q''"
      using Suc.prems(4,5) by (cases q') (auto simp: chain_Cons)
    have x0: "x \<notin> set q0" using Suc.prems(6) p by simp
    show ?thesis
    proof (cases "x = y")
      case True
      then show ?thesis using Some b p Suc.prems(3) q' by simp
    next
      case False
      show ?thesis
      proof (cases q'')
        case Nil
        then have "parent (st y) = None" using q'' by (simp add: chain_Nil)
        moreover have "x \<notin> set q" using x0 False Suc.prems(3) q' Nil by simp
        moreover have "q \<noteq> []" using Suc.prems(3) q' by simp
        ultimately show ?thesis
          using Suc.IH [OF Suc.prems(1) p' _ Suc.prems(1), of "[]"] False Some b p q' Nil by simp
      next
        case (Cons z zs)
        then have "parent (st y) = Some z" using q'' by (simp add: chain_Cons)
        then show ?thesis
          using Suc.IH [OF Suc.prems(1,2) _ q'', of "q0 @ [y]"] Suc.prems(3) False Some b p q' Cons x0 by simp
      qed
    qed
  qed
qed

lemma shared_parent_find:
  assumes "chain st a p" and "chain st b q"
  shows "shared_parent_state n st a b = Some r \<Longrightarrow> r = find (\<lambda>x. x \<in> set q) p"
    and "Suc (length p) * Suc (length q) \<le> n \<Longrightarrow>
      shared_parent_state n st a b = Some (find (\<lambda>x. x \<in> set q) p)"
proof -
  have none: "find (\<lambda>x. x \<in> set q) p = None" if "b = None"
    using that assms(2) by (simp add: find_None_iff)
  have some: "q \<noteq> []" if "b \<noteq> None" using that assms(2) by (cases b) auto
  note l = shared_parent_loop_find [OF assms(2,1) _ assms(2) some, of "[]" n, simplified]
  show "shared_parent_state n st a b = Some r \<Longrightarrow> r = find (\<lambda>x. x \<in> set q) p"
    using l none by (auto simp: shared_parent_state_def split: if_splits)
  show "shared_parent_state n st a b = Some (find (\<lambda>x. x \<in> set q) p)"
    if "Suc (length p) * Suc (length q) \<le> n"
    using l none that by (cases "b = None") (auto simp: shared_parent_state_def)
qed

subsection \<open>Transitions keep the entered states a chain\<close>

definition position :: "sm_ctx \<Rightarrow> nat option" where
  "position c = (if enter c then last_entered c else current c)"

definition sm_inv :: "sm_table \<Rightarrow> sm_ctx \<Rightarrow> bool" where
  "sm_inv st c \<longleftrightarrow> \<not> exiting c \<and> (\<exists>xs. entered (history c) = Some xs \<and> chain st (position c) xs)"

lemma sm_inv_simps [simp]:
  "sm_inv st (c\<lparr>running := b\<rparr>) = sm_inv st c"
  "sm_inv st (c\<lparr>history := Run x # history c\<rparr>) = sm_inv st c"
  by (cases "enter c"; simp add: sm_inv_def position_def)+

definition wf_table :: "sm_table \<Rightarrow> bool" where
  "wf_table st \<longleftrightarrow> (\<forall>s. \<exists>xs. chain st (Some s) xs)"

lemma wf_table_chain: "wf_table st \<Longrightarrow> \<exists>xs. chain st a xs"
  by (cases a) (auto simp: wf_table_def)

text \<open>What the call graph needs of the \<open>set_state\<close> it calls.\<close>

definition ignores :: "sm_set \<Rightarrow> bool" where
  "ignores set_to \<longleftrightarrow> (\<forall>r c c'. exiting c \<longrightarrow> set_to r c = Some c' \<longrightarrow> c' = c)"

definition keeps :: "sm_table \<Rightarrow> sm_set \<Rightarrow> bool" where
  "keeps st set_to \<longleftrightarrow>
     (\<forall>r c c'. sm_inv st c \<longrightarrow> set_to r c = Some c' \<longrightarrow> sm_inv st c' \<and> \<not> enter c' \<and> \<not> running c')"

lemma set_states_ignored:
  "ignores set_to \<Longrightarrow> exiting c \<Longrightarrow> set_states set_to rs c = Some c' \<Longrightarrow> c' = c"
proof (induction rs arbitrary: c)
  case (Cons r rs)
  obtain c1 where c1: "set_to r c = Some c1" "set_states set_to rs c1 = Some c'"
    using Cons.prems(3) by (auto split: Option.bind_splits)
  then have "c1 = c" using Cons.prems(1,2) unfolding ignores_def by blast
  then show ?case using Cons.IH [OF Cons.prems(1,2)] c1(2) by simp
qed simp

lemma set_states_keeps:
  assumes k: "keeps st set_to"
  shows "sm_inv st c \<Longrightarrow> set_states set_to rs c = Some c' \<Longrightarrow>
    sm_inv st c' \<and> (if rs = [] then c' = c else \<not> enter c' \<and> \<not> running c')"
proof (induction rs arbitrary: c)
  case (Cons r rs)
  obtain c1 where c1: "set_to r c = Some c1" "set_states set_to rs c1 = Some c'"
    using Cons.prems(2) by (auto split: Option.bind_splits)
  then have "sm_inv st c1 \<and> \<not> enter c1 \<and> \<not> running c1" using Cons.prems(1) k unfolding keeps_def by blast
  then show ?case using Cons.IH [OF _ c1(2)] by (auto split: if_splits)
qed simp

lemma call_exit_history:
  assumes "ignores set_to"
  shows "exiting c \<Longrightarrow> chain st cur (p @ k) \<Longrightarrow> chain st stop k \<Longrightarrow>
    call_exit_functions n set_to st body stop cur c = Some c' \<Longrightarrow>
    c' = c\<lparr>history := rev (map Exit p) @ history c\<rparr>"
proof (induction n arbitrary: cur p c)
  case (Suc n)
  show ?case
  proof (cases p)
    case Nil
    then have "cur = stop" using Suc.prems(2,3) by (cases k) (auto simp: chain_Cons chain_Nil)
    then show ?thesis using Suc.prems(4) Nil by simp
  next
    case (Cons x p')
    have cur: "cur = Some x" "chain st (parent (st x)) (p' @ k)" using Suc.prems(2) Cons by (auto simp: chain_Cons)
    have "cur \<noteq> stop" using chain_unique [OF Suc.prems(2), of k] Suc.prems(3) Cons by auto
    then obtain c2 where c2: "set_states set_to (snd (routine st body (Exit x) c)) (c\<lparr>history := Exit x # history c\<rparr>) = Some c2"
      "call_exit_functions n set_to st body stop (parent (st x)) c2 = Some c'"
      using Suc.prems(4) cur(1) by (auto simp: routine_def Let_def split: Option.bind_splits)
    have "c2 = c\<lparr>history := Exit x # history c\<rparr>"
      using set_states_ignored [OF assms _ c2(1)] Suc.prems(1) by simp
    then show ?thesis using Suc.IH [OF _ cur(2) Suc.prems(3) c2(2)] Suc.prems(1) Cons by simp
  qed
qed simp

lemma entered_exits: "entered h = Some (p @ k) \<Longrightarrow> entered (rev (map Exit p) @ h) = Some k"
proof (induction p arbitrary: h)
  case (Cons x p)
  then show ?case using Cons.IH [of "Exit x # h"] by simp
qed simp

lemma call_entry_keeps:
  assumes k: "keeps st set_to"
  shows "\<not> exiting c \<Longrightarrow> enter c \<Longrightarrow> entered (history c) = Some ks \<Longrightarrow> chain st cur (q @ ks) \<Longrightarrow>
    chain st stop ks \<Longrightarrow> call_entry_functions n set_to st body stop cur c = Some c' \<Longrightarrow>
    \<not> exiting c' \<and>
    (if enter c' then entered (history c') = Some (q @ ks) \<and> current c' = current c \<and>
       (q \<noteq> [] \<longrightarrow> last_entered c' = cur)
     else sm_inv st c')"
proof (induction n arbitrary: cur q c')
  case (Suc n)
  show ?case
  proof (cases q)
    case Nil
    then have "cur = stop" using Suc.prems(4,5) by (cases ks) (auto simp: chain_Cons chain_Nil)
    then show ?thesis using Suc.prems Nil by simp
  next
    case (Cons x q')
    have cur: "cur = Some x" "chain st (parent (st x)) (q' @ ks)" using Suc.prems(4) Cons by (auto simp: chain_Cons)
    have ne: "cur \<noteq> stop" using chain_unique [OF Suc.prems(4), of ks] Suc.prems(5) Cons by auto
    obtain c1 where c1: "call_entry_functions n set_to st body stop (parent (st x)) c = Some c1"
      using Suc.prems(6) ne cur(1) by (auto split: Option.bind_splits)
    note ih = Suc.IH [OF Suc.prems(1-3) cur(2) Suc.prems(5) c1]
    show ?thesis
    proof (cases "enter c1")
      case False
      then have "c' = c1" using Suc.prems(6) ne cur(1) c1 by simp
      then show ?thesis using ih False by simp
    next
      case True
      let ?c2 = "c1\<lparr>last_entered := Some x, history := Entry x # history c1\<rparr>"
      obtain asked where c': "set_states set_to asked ?c2 = Some c'"
        using Suc.prems(6) ne cur(1) c1 True
        by (auto simp: routine_def Let_def split: if_splits)
      have "sm_inv st ?c2"
        using ih True cur Suc.prems(4) Cons by (auto simp: sm_inv_def position_def chain_Cons)
      then show ?thesis using set_states_keeps [OF k _ c'] ih True cur(1) Cons
        by (cases "asked = []") (auto simp: sm_inv_def split: if_splits)
    qed
  qed
qed simp

lemma set_state_ignores: "ignores (set_state n st body)"
  unfolding ignores_def by (cases n) auto

lemma set_state_keeps:
  assumes wf: "wf_table st"
  shows "keeps st (set_state n st body)"
proof (induction n)
  case 0
  show ?case by (simp add: keeps_def)
next
  case (Suc n)
  show ?case unfolding keeps_def
  proof (intro allI impI)
    fix r c c'
    assume inv: "sm_inv st c" and s: "set_state (Suc n) st body r c = Some c'"
    obtain p where ex: "\<not> exiting c" and p: "entered (history c) = Some p" "chain st (position c) p"
      using inv by (auto simp: sm_inv_def)
    obtain q where q: "chain st r q" using wf_table_chain [OF wf] by blast
    obtain sp c1 c3 where sp: "shared_parent_state n st (position c) r = Some sp"
      and c1: "call_exit_functions n (set_state n st body) st body sp (position c) (c\<lparr>exiting := True\<rparr>) = Some c1"
      and c3: "call_entry_functions n (set_state n st body) st body sp r
        (c1\<lparr>exiting := False, previous := current c1, current := r, last_entered := None, enter := True\<rparr>) = Some c3"
      and c': "c' = c3\<lparr>enter := False, running := False, wakes := wakes c3 + 1\<rparr>"
      using s ex by (auto simp: position_def Let_def split: Option.bind_splits)
    obtain p1 q1 k where k: "p = p1 @ k" "q = q1 @ k" "chain st sp k" "set p1 \<inter> set q = {}"
      using chain_split [OF p(2) q shared_parent_find(1) [OF p(2) q sp]] .
    have h1: "c1 = c\<lparr>exiting := True, history := rev (map Exit p1) @ history c\<rparr>"
      using call_exit_history [OF set_state_ignores _ _ k(3) c1, of p1] p(2) k(1) by simp
    note e = call_entry_keeps [OF Suc.IH _ _ _ _ k(3) c3, of q1]
    have "sm_inv st c3 \<or> enter c3 \<and> \<not> exiting c3 \<and> entered (history c3) = Some q \<and> current c3 = r"
      using e q k(1,2) p(1) h1 entered_exits [of "history c" p1 k] by (auto split: if_splits)
    then show "sm_inv st c' \<and> \<not> enter c' \<and> \<not> running c'"
      using q e k(2) p(1) h1 entered_exits [of "history c" p1 k] k(1)
      by (auto simp: c' sm_inv_def position_def split: if_splits)
  qed
qed

lemma call_run_keeps:
  assumes k: "keeps st set_to"
  shows "sm_inv st c \<Longrightarrow> call_run_functions n set_to st body cur c = Some c' \<Longrightarrow>
    sm_inv st c' \<and> (\<not> enter c \<longrightarrow> \<not> enter c')"
proof (induction n arbitrary: cur c)
  case (Suc n)
  show ?case
  proof (cases "cur = None \<or> \<not> running c")
    case True
    then show ?thesis using Suc.prems by (auto split: option.splits)
  next
    case False
    then obtain x where x: "cur = Some x" by auto
    let ?c1 = "c\<lparr>history := Run x # history c\<rparr>"
    obtain asked c2 where c2: "set_states set_to asked ?c1 = Some c2"
      "call_run_functions n set_to st body (parent (st x)) c2 = Some c'"
      using Suc.prems(2) False x by (auto simp: routine_def Let_def split: Option.bind_splits)
    have "sm_inv st ?c1" using Suc.prems(1) by simp
    note c2_inv = set_states_keeps [OF k this c2(1)]
    show ?thesis using Suc.IH [OF _ c2(2)] c2_inv by (cases "asked = []") auto
  qed
qed simp

text \<open>Sequences of the two operations that a port's task performs.\<close>

datatype sm_op = SetState "nat option" | RunState

fun sm_exec :: "nat \<Rightarrow> sm_table \<Rightarrow> sm_body \<Rightarrow> sm_op list \<Rightarrow> sm_ctx \<Rightarrow> sm_ctx option" where
  "sm_exec n st body [] c = Some c"
| "sm_exec n st body (SetState r # ops) c = do { c1 \<leftarrow> set_state n st body r c; sm_exec n st body ops c1 }"
| "sm_exec n st body (RunState # ops) c = do { c1 \<leftarrow> run_state n st body c; sm_exec n st body ops c1 }"

definition sm_boot :: sm_ctx where
  "sm_boot = \<lparr>current = None, previous = None, last_entered = None, running = False, enter = False,
     exiting = False, history = [], wakes = 0\<rparr>"

lemma sm_exec_keeps:
  assumes wf: "wf_table st"
  shows "sm_inv st c \<and> \<not> enter c \<Longrightarrow> sm_exec n st body ops c = Some c' \<Longrightarrow> sm_inv st c' \<and> \<not> enter c'"
proof (induction ops arbitrary: c)
  case (Cons op ops)
  show ?case
  proof (cases op)
    case (SetState r)
    then obtain c1 where "set_state n st body r c = Some c1" "sm_exec n st body ops c1 = Some c'"
      using Cons.prems(2) by (auto split: Option.bind_splits)
    then show ?thesis using Cons set_state_keeps [OF wf, of n body] unfolding keeps_def by blast
  next
    case RunState
    then obtain c1 where c1: "call_run_functions n (set_state n st body) st body (current c) (c\<lparr>running := True\<rparr>) = Some c1"
      "sm_exec n st body ops (c1\<lparr>running := False\<rparr>) = Some c'"
      using Cons.prems(2) by (auto simp: run_state_def split: Option.bind_splits)
    have "sm_inv st (c\<lparr>running := True\<rparr>)" using Cons.prems(1) by simp
    then have "sm_inv st c1 \<and> \<not> enter c1"
      using call_run_keeps [OF set_state_keeps [OF wf] _ c1(1)] Cons.prems(1) by simp
    then have "sm_inv st (c1\<lparr>running := False\<rparr>) \<and> \<not> enter (c1\<lparr>running := False\<rparr>)"
      by simp
    then show ?thesis using Cons.IH c1(2) by blast
  qed
qed simp

subsection \<open>A transition without nested requests\<close>

lemma set_states_Nil_exits:
  assumes "exiting c" and "0 < n"
  shows "set_states (set_state n st body) rs c = Some c"
  using assms by (induction rs) (auto simp: gr0_conv_Suc)

lemma call_exit_total:
  assumes "0 < m"
  shows "exiting c \<Longrightarrow> chain st cur (p @ k) \<Longrightarrow> chain st stop k \<Longrightarrow> length p < n \<Longrightarrow>
    call_exit_functions n (set_state m st body) st body stop cur c \<noteq> None"
proof (induction n arbitrary: cur p c)
  case (Suc n)
  show ?case
  proof (cases p)
    case Nil
    then have "cur = stop" using Suc.prems(2,3) by (cases k) (auto simp: chain_Cons chain_Nil)
    then show ?thesis by simp
  next
    case (Cons x p')
    have cur: "cur = Some x" "chain st (parent (st x)) (p' @ k)" using Suc.prems(2) Cons by (auto simp: chain_Cons)
    show ?thesis
      using Suc.IH [of "c\<lparr>history := Exit x # history c\<rparr>" "parent (st x)" p'] Suc.prems Cons cur assms
      by (auto simp: routine_def Let_def set_states_Nil_exits)
  qed
qed simp

lemma call_entry_quiet:
  assumes quiet: "\<forall>x h. body (Entry x # h) = []"
  shows "enter c \<Longrightarrow> chain st cur (q @ ks) \<Longrightarrow> chain st stop ks \<Longrightarrow> length q < n \<Longrightarrow>
    call_entry_functions n set_to st body stop cur c =
      Some (c\<lparr>history := map Entry q @ history c, last_entered := (if q = [] then last_entered c else cur)\<rparr>)"
proof (induction n arbitrary: cur q)
  case (Suc n)
  show ?case
  proof (cases q)
    case Nil
    then have "cur = stop" using Suc.prems(2,3) by (cases ks) (auto simp: chain_Cons chain_Nil)
    then show ?thesis using Nil by simp
  next
    case (Cons x q')
    have cur: "cur = Some x" "chain st (parent (st x)) (q' @ ks)" using Suc.prems(2) Cons by (auto simp: chain_Cons)
    have ne: "cur \<noteq> stop" using chain_unique [OF Suc.prems(2), of ks] Suc.prems(3) Cons by auto
    show ?thesis
      using Suc.IH [OF Suc.prems(1) cur(2) Suc.prems(3)] Suc.prems(1,4) Cons cur ne
      by (auto simp: routine_def Let_def quiet)
  qed
qed simp

lemma set_state_quiet:
  assumes p: "\<not> exiting c" "chain st (position c) p" and q: "chain st r q"
    and quiet: "\<forall>x h. body (Entry x # h) = []"
    and fuel: "Suc (length p) * Suc (length q) < n"
  obtains p1 q1 k where "p = p1 @ k" and "q = q1 @ k" and "set p1 \<inter> set q = {}"
    and "set_state n st body r c = Some (c\<lparr>history := map Entry q1 @ rev (map Exit p1) @ history c,
      previous := current c, current := r, last_entered := (if q1 = [] then None else r),
      exiting := False, enter := False, running := False, wakes := wakes c + 1\<rparr>)"
proof -
  obtain m where n: "n = Suc m" using fuel by (cases n) auto
  have "length p + length q + 1 \<le> Suc (length p) * Suc (length q)" by simp
  then have m: "Suc (length p) * Suc (length q) \<le> m" "length p < m" "length q < m" "0 < m"
    using fuel n by linarith+
  define sp where "sp = find (\<lambda>x. x \<in> set q) p"
  have sps: "shared_parent_state m st (position c) r = Some sp"
    using shared_parent_find(2) [OF p(2) q m(1)] by (simp add: sp_def)
  obtain p1 q1 k where k: "p = p1 @ k" "q = q1 @ k" "chain st sp k" "set p1 \<inter> set q = {}"
    using chain_split [OF p(2) q sp_def] .
  let ?c0 = "c\<lparr>exiting := True\<rparr>"
  obtain c1 where c1: "call_exit_functions m (set_state m st body) st body sp (position c) ?c0 = Some c1"
    using call_exit_total [OF m(4), of ?c0 st "position c" p1 k sp m body] p(2) k(1,3) m(2) by auto
  then have c1': "c1 = ?c0\<lparr>history := rev (map Exit p1) @ history c\<rparr>"
    using call_exit_history [OF set_state_ignores _ _ k(3) c1, of p1] p(2) k(1) by simp
  let ?c2 = "c1\<lparr>exiting := False, previous := current c1, current := r, last_entered := None, enter := True\<rparr>"
  have "call_entry_functions m (set_state m st body) st body sp r ?c2 =
      Some (?c2\<lparr>history := map Entry q1 @ history ?c2, last_entered := (if q1 = [] then None else r)\<rparr>)"
    using call_entry_quiet [OF quiet, of ?c2 st r q1 k sp m "set_state m st body"] q k(2,3) m(3) by simp
  then have "set_state n st body r c = Some (c\<lparr>history := map Entry q1 @ rev (map Exit p1) @ history c,
      previous := current c, current := r, last_entered := (if q1 = [] then None else r),
      exiting := False, enter := False, running := False, wakes := wakes c + 1\<rparr>)"
    using p(1) sps c1 by (simp add: n position_def c1' Let_def)
  then show ?thesis using that k(1,2,4) by blast
qed

subsection \<open>Running a state\<close>

definition asks :: "sm_table \<Rightarrow> sm_body \<Rightarrow> nat list \<Rightarrow> sm_event list \<Rightarrow> nat \<Rightarrow> bool" where
  "asks st body p h i \<longleftrightarrow>
     has_run (st (p ! i)) \<and> body (Run (p ! i) # rev (map Run (take i p)) @ h) \<noteq> []"

lemma asks_Suc: "asks st body (x # p) h (Suc i) = asks st body p (Run x # h) i"
  by (simp add: asks_def)

lemma call_run_all:
  "chain st cur p \<Longrightarrow> running c \<Longrightarrow> \<forall>i<length p. \<not> asks st body p (history c) i \<Longrightarrow> length p < n \<Longrightarrow>
   call_run_functions n set_to st body cur c = Some (c\<lparr>history := rev (map Run p) @ history c\<rparr>)"
proof (induction n arbitrary: cur p c)
  case (Suc n)
  show ?case
  proof (cases p)
    case Nil
    then show ?thesis using Suc.prems by (simp add: chain_Nil)
  next
    case (Cons x p')
    have "\<not> asks st body p (history c) 0" using Suc.prems(3) Cons by blast
    then have 0: "snd (routine st body (Run x) c) = []" using Cons by (simp add: asks_def routine_def Let_def)
    have "\<forall>i<length p'. \<not> asks st body p' (Run x # history c) i"
      using Suc.prems(3) Cons asks_Suc by fastforce
    then show ?thesis
      using Suc.IH [of "parent (st x)" p' "c\<lparr>history := Run x # history c\<rparr>"] Suc.prems Cons 0
      by (simp add: chain_Cons routine_def Let_def)
  qed
qed simp

lemma call_run_asks:
  assumes k: "keeps st set_to"
  shows "chain st cur p \<Longrightarrow> running c \<Longrightarrow> sm_inv st c \<Longrightarrow> i < length p \<Longrightarrow> asks st body p (history c) i \<Longrightarrow>
   \<forall>j<i. \<not> asks st body p (history c) j \<Longrightarrow>
   call_run_functions n set_to st body cur c = Some c' \<Longrightarrow>
   \<exists>rs. set_states set_to rs (c\<lparr>history := rev (map Run (take (Suc i) p)) @ history c\<rparr>) = Some c'"
proof (induction n arbitrary: cur p c i)
  case (Suc n)
  obtain x p' where p: "p = x # p'" using Suc.prems(4) by (cases p) auto
  have cur: "cur = Some x" "chain st (parent (st x)) p'" using Suc.prems(1) p by (auto simp: chain_Cons)
  let ?c1 = "c\<lparr>history := Run x # history c\<rparr>"
  define asked where "asked = snd (routine st body (Run x) c)"
  obtain c2 where c2: "set_states set_to asked ?c1 = Some c2"
    "call_run_functions n set_to st body (parent (st x)) c2 = Some c'"
    using Suc.prems(2,7) cur(1)
    by (auto simp: asked_def routine_def Let_def split: Option.bind_splits)
  have inv1: "sm_inv st ?c1"
    using Suc.prems(3) by simp
  have a0: "asks st body p (history c) 0 \<longleftrightarrow> asked \<noteq> []"
    by (simp add: asks_def asked_def routine_def Let_def p)
  show ?case
  proof (cases i)
    case 0
    then have "asked \<noteq> []" using Suc.prems(5) a0 by simp
    then have "\<not> running c2" using set_states_keeps [OF k inv1 c2(1)] by simp
    then have "c' = c2" using c2(2) by (cases n; cases "parent (st x)") auto
    then show ?thesis using c2(1) 0 p by auto
  next
    case (Suc j)
    then have "asked = []" using Suc.prems(6) a0 by auto
    then have "c2 = ?c1" using c2(1) by simp
    moreover have "\<forall>i<j. \<not> asks st body p' (Run x # history c) i"
      using Suc.prems(6) p Suc by (metis Suc_less_eq asks_Suc)
    ultimately have "\<exists>rs. set_states set_to rs (?c1\<lparr>history := rev (map Run (take (Suc j) p')) @ history ?c1\<rparr>) = Some c'"
      using Suc.IH [OF cur(2), of ?c1 j] Suc.prems inv1 c2(2) p Suc by (auto simp: asks_Suc)
    then show ?thesis using p Suc by simp
  qed
qed simp

text \<open>Transitions run no run routines.\<close>

fun runs :: "sm_event list \<Rightarrow> nat list" where
  "runs [] = []"
| "runs (Run s # h) = s # runs h"
| "runs (Entry s # h) = runs h"
| "runs (Exit s # h) = runs h"

lemma runs_append [simp]: "runs (h @ h') = runs h @ runs h'"
  by (induction h rule: runs.induct) simp_all

lemma runs_map_Run [simp]: "runs (map Run xs) = xs"
  by (induction xs) simp_all

definition no_run :: "sm_set \<Rightarrow> bool" where
  "no_run set_to \<longleftrightarrow> (\<forall>r c c'. set_to r c = Some c' \<longrightarrow> runs (history c') = runs (history c))"

lemma set_states_no_run:
  assumes "no_run set_to"
  shows "set_states set_to rs c = Some c' \<Longrightarrow> runs (history c') = runs (history c)"
  using assms by (induction rs arbitrary: c) (auto simp: no_run_def split: Option.bind_splits)

lemma call_exit_no_run:
  assumes "no_run set_to"
  shows "call_exit_functions n set_to st body stop cur c = Some c' \<Longrightarrow> runs (history c') = runs (history c)"
  by (induction n arbitrary: cur c)
    (auto simp: routine_def Let_def dest!: set_states_no_run [OF assms] split: Option.bind_splits option.splits if_splits)

lemma call_entry_no_run:
  assumes "no_run set_to"
  shows "call_entry_functions n set_to st body stop cur c = Some c' \<Longrightarrow> runs (history c') = runs (history c)"
proof (induction n arbitrary: cur c')
  case (Suc n)
  show ?case
  proof (cases "cur = stop")
    case False
    then obtain x c1 where c1: "cur = Some x"
      "call_entry_functions n set_to st body stop (parent (st x)) c = Some c1"
      using Suc.prems by (auto split: Option.bind_splits option.splits)
    then show ?thesis using Suc.prems False Suc.IH [OF c1(2)]
      by (auto simp: routine_def Let_def dest!: set_states_no_run [OF assms] split: if_splits)
  qed (use Suc.prems in simp)
qed simp

lemma set_state_no_run: "no_run (set_state n st body)"
proof (induction n)
  case (Suc n)
  show ?case unfolding no_run_def
    by (auto simp: Let_def dest!: call_exit_no_run [OF Suc] call_entry_no_run [OF Suc]
        split: Option.bind_splits if_splits)
qed (simp add: no_run_def)

lemma sm_reached:
  assumes "wf_table st" and "sm_exec n st body ops sm_boot = Some c"
  shows "sm_inv st c \<and> \<not> enter c"
proof (rule sm_exec_keeps [OF assms(1) _ assms(2)])
  show "sm_inv st sm_boot \<and> \<not> enter sm_boot" by (simp add: sm_inv_def position_def sm_boot_def)
qed

subsection \<open>Transitions that end\<close>

text \<open>
  Nothing but their entry routines makes transitions nest. They end if states have a rank that decreases:
  every state that is newly entered because the entry routine of \<open>x\<close> asked for a state has a lower rank
  than \<open>x\<close>. What the first request enters are states outside the chain of \<open>x\<close>; a further one may
  enter all of the chain it asks for.
\<close>

definition entries_ranked :: "sm_table \<Rightarrow> sm_body \<Rightarrow> (nat \<Rightarrow> nat) \<Rightarrow> bool" where
  "entries_ranked st body rank \<longleftrightarrow> (\<forall>x h r rs xs. body (Entry x # h) = r # rs \<longrightarrow> chain st (Some x) xs \<longrightarrow>
     (\<forall>ys. chain st r ys \<longrightarrow> (\<forall>z \<in> set ys - set xs. rank z < rank x)) \<and>
     (\<forall>r' \<in> set rs. \<forall>ys. chain st r' ys \<longrightarrow> (\<forall>z \<in> set ys. rank z < rank x)))"

definition depth_within :: "sm_table \<Rightarrow> nat \<Rightarrow> bool" where
  "depth_within st D \<longleftrightarrow> (\<forall>a xs. chain st a xs \<longrightarrow> length xs \<le> D)"

lemma set_states_total:
  assumes k: "keeps st set_to"
    and t: "\<And>r c. r \<in> set rs \<Longrightarrow> sm_inv st c \<Longrightarrow> \<exists>c'. set_to r c = Some c'"
  shows "sm_inv st c \<Longrightarrow> \<exists>c'. set_states set_to rs c = Some c'"
  using t
proof (induction rs arbitrary: c)
  case (Cons r rs)
  obtain c1 where c1: "set_to r c = Some c1" using Cons.prems(2) [OF _ Cons.prems(1), of r] by auto
  then have "sm_inv st c1" using k Cons.prems(1) unfolding keeps_def by blast
  then show ?case using Cons.IH Cons.prems(2) c1 by simp
qed simp

lemma call_entry_total:
  assumes k: "keeps st set_to"
    and t: "\<And>x h c. x \<in> set q \<Longrightarrow> sm_inv st c \<Longrightarrow> position c = Some x \<Longrightarrow>
      \<exists>c'. set_states set_to (body (Entry x # h)) c = Some c'"
  shows "\<not> exiting c \<Longrightarrow> enter c \<Longrightarrow> entered (history c) = Some ks \<Longrightarrow> chain st cur (q @ ks) \<Longrightarrow>
    chain st stop ks \<Longrightarrow> length q < n \<Longrightarrow> \<exists>c'. call_entry_functions n set_to st body stop cur c = Some c'"
  using t
proof (induction n arbitrary: cur q)
  case (Suc n)
  show ?case
  proof (cases q)
    case Nil
    then have "cur = stop" using Suc.prems(4,5) by (cases ks) (auto simp: chain_Cons chain_Nil)
    then show ?thesis by simp
  next
    case (Cons x q')
    have cur: "cur = Some x" "chain st (parent (st x)) (q' @ ks)" using Suc.prems(4) Cons by (auto simp: chain_Cons)
    have ne: "cur \<noteq> stop" using chain_unique [OF Suc.prems(4), of ks] Suc.prems(5) Cons by auto
    have "\<exists>c1. call_entry_functions n set_to st body stop (parent (st x)) c = Some c1"
      by (rule Suc.IH [OF Suc.prems(1-3) cur(2) Suc.prems(5)]) (use Suc.prems(6,7) Cons in auto)
    then obtain c1 where c1: "call_entry_functions n set_to st body stop (parent (st x)) c = Some c1" by blast
    note ih = call_entry_keeps [OF k Suc.prems(1-3) cur(2) Suc.prems(5) c1]
    show ?thesis
    proof (cases "enter c1")
      case False
      then show ?thesis using ne cur(1) c1 by simp
    next
      case True
      let ?c2 = "c1\<lparr>last_entered := Some x, history := Entry x # history c1\<rparr>"
      have inv: "sm_inv st ?c2"
        using ih True cur Suc.prems(4) Cons by (auto simp: sm_inv_def position_def chain_Cons)
      moreover have "position ?c2 = Some x" using True by (simp add: position_def)
      ultimately have "\<exists>c'. set_states set_to (body (Entry x # history c1)) ?c2 = Some c'"
        using Suc.prems(7) Cons by simp
      then show ?thesis using ne cur(1) c1 True by (auto simp: routine_def Let_def)
    qed
  qed
qed simp

lemma set_state_returns:
  assumes wf: "wf_table st" and deep: "depth_within st D" and ranked: "entries_ranked st body rank"
  shows "sm_inv st c \<Longrightarrow> chain st (position c) p \<Longrightarrow> chain st r q \<Longrightarrow> \<forall>z \<in> set q - set p. rank z < k \<Longrightarrow>
    Suc D * Suc D + k < n \<Longrightarrow> \<exists>c'. set_state n st body r c = Some c'"
proof (induction k arbitrary: c p r q n rule: less_induct)
  case (less k)
  obtain m where n: "n = Suc m" using less.prems(5) by (cases n) auto
  have len: "length p \<le> D" "length q \<le> D" using less.prems(2,3) deep by (auto simp: depth_within_def)
  have "Suc (length p) * Suc (length q) \<le> Suc D * Suc D" using len by (intro mult_le_mono) simp_all
  moreover have "D < Suc D * Suc D" by simp
  ultimately have m: "Suc (length p) * Suc (length q) \<le> m" "length p < m" "length q < m" "0 < m"
    using less.prems(5) len n by linarith+
  obtain xs where ent: "\<not> exiting c" "entered (history c) = Some xs" "chain st (position c) xs"
    using less.prems(1) by (auto simp: sm_inv_def)
  then have xs: "xs = p" using less.prems(2) chain_unique by blast
  define sp where "sp = find (\<lambda>x. x \<in> set q) p"
  have sps: "shared_parent_state m st (position c) r = Some sp"
    using shared_parent_find(2) [OF less.prems(2,3) m(1)] by (simp add: sp_def)
  obtain p1 q1 ks where k: "p = p1 @ ks" "q = q1 @ ks" "chain st sp ks" "set p1 \<inter> set q = {}"
    using chain_split [OF less.prems(2,3) sp_def] .
  let ?c0 = "c\<lparr>exiting := True\<rparr>"
  obtain c1 where c1: "call_exit_functions m (set_state m st body) st body sp (position c) ?c0 = Some c1"
    using call_exit_total [OF m(4), of ?c0 st "position c" p1 ks sp m body] less.prems(2) k(1,3) m(2) by auto
  then have c1': "c1 = ?c0\<lparr>history := rev (map Exit p1) @ history c\<rparr>"
    using call_exit_history [OF set_state_ignores _ _ k(3) c1, of p1] less.prems(2) k(1) by simp
  let ?c2 = "c1\<lparr>exiting := False, previous := current c1, current := r, last_entered := None, enter := True\<rparr>"
  have "\<exists>c'. call_entry_functions m (set_state m st body) st body sp r ?c2 = Some c'"
  proof (rule call_entry_total [OF set_state_keeps [OF wf]])
    fix x h c3
    assume x: "x \<in> set q1" and inv: "sm_inv st c3" and pos: "position c3 = Some x"
    have "x \<notin> set p"
    proof
      assume "x \<in> set p"
      then have "x \<in> set ks" using k(1,2,4) x by auto
      moreover have "distinct q" using chain_distinct [OF less.prems(3)] .
      ultimately show False using x k(2) by auto
    qed
    then have rk: "rank x < k" using less.prems(4) x k(2) by auto
    obtain ch where ch: "chain st (Some x) ch" using wf by (auto simp: wf_table_def)
    have fuel: "Suc D * Suc D + rank x < m" using less.prems(5) rk n by linarith
    show "\<exists>c'. set_states (set_state m st body) (body (Entry x # h)) c3 = Some c'"
    proof (cases "body (Entry x # h)")
      case (Cons a as)
      have first: "\<exists>c'. set_state m st body a c3 = Some c'"
      proof -
        obtain ys where ys: "chain st a ys" using wf_table_chain [OF wf] by blast
        have "\<forall>z \<in> set ys - set ch. rank z < rank x" using ranked Cons ch ys unfolding entries_ranked_def by blast
        then show ?thesis using less.IH [OF rk inv _ ys _ fuel, of ch] pos ch by simp
      qed
      then obtain c4 where c4: "set_state m st body a c3 = Some c4" by blast
      then have inv4: "sm_inv st c4" using set_state_keeps [OF wf] inv unfolding keeps_def by blast
      have "\<exists>c'. set_states (set_state m st body) as c4 = Some c'"
      proof (rule set_states_total [OF set_state_keeps [OF wf] _ inv4])
        fix b c5 assume b: "b \<in> set as" and inv5: "sm_inv st c5"
        obtain ys where ys: "chain st b ys" using wf_table_chain [OF wf] by blast
        obtain ps where ps: "chain st (position c5) ps" using wf_table_chain [OF wf] by blast
        have "\<forall>z \<in> set ys. rank z < rank x" using ranked Cons ch ys b unfolding entries_ranked_def by blast
        then show "\<exists>c'. set_state m st body b c5 = Some c'"
          using less.IH [OF rk inv5 ps ys _ fuel] by blast
      qed
      then show ?thesis using Cons c4 by simp
    qed simp
  qed (use ent xs k c1' less.prems(3) m(3) entered_exits [of "history c" p1 ks] in auto)
  then show ?case using ent(1) sps c1 by (auto simp: n position_def Let_def)
qed

lemma call_run_total:
  assumes k: "keeps st set_to" and t: "\<And>r c. sm_inv st c \<Longrightarrow> \<exists>c'. set_to r c = Some c'"
  shows "sm_inv st c \<Longrightarrow> chain st cur p \<Longrightarrow> length p < n \<Longrightarrow> \<exists>c'. call_run_functions n set_to st body cur c = Some c'"
proof (induction n arbitrary: cur p c)
  case (Suc n)
  show ?case
  proof (cases p)
    case Nil
    then show ?thesis using Suc.prems(2) by (simp add: chain_Nil)
  next
    case (Cons x p')
    have cur: "cur = Some x" "chain st (parent (st x)) p'" using Suc.prems(2) Cons by (auto simp: chain_Cons)
    define asked where "asked = snd (routine st body (Run x) c)"
    have inv: "sm_inv st (c\<lparr>history := Run x # history c\<rparr>)" using Suc.prems(1) by simp
    obtain c2 where c2: "set_states set_to asked (c\<lparr>history := Run x # history c\<rparr>) = Some c2"
      using set_states_total [OF k t inv] by blast
    then have "sm_inv st c2" using set_states_keeps [OF k inv] by blast
    then have "\<exists>c'. call_run_functions n set_to st body (parent (st x)) c2 = Some c'"
      using Suc.IH cur(2) Suc.prems(3) Cons by simp
    then show ?thesis using cur(1) c2 by (auto simp: asked_def routine_def Let_def)
  qed
qed simp

lemma sm_exec_returns:
  assumes wf: "wf_table st" and deep: "depth_within st D" and ranked: "entries_ranked st body rank"
    and R: "\<And>x. rank x < R" and fuel: "Suc D * Suc D + R < n"
  shows "sm_inv st c \<Longrightarrow> \<not> enter c \<Longrightarrow> \<exists>c'. sm_exec n st body ops c = Some c'"
proof (induction ops arbitrary: c)
  case (Cons op ops)
  have set_to: "\<exists>c'. set_state n st body r c = Some c'" if "sm_inv st c" for r c
  proof -
    obtain p q where "chain st (position c) p" "chain st r q" using wf_table_chain [OF wf] by blast
    then show ?thesis using set_state_returns [OF wf deep ranked that _ _ _ fuel] R by blast
  qed
  show ?case
  proof (cases op)
    case (SetState r)
    obtain c1 where c1: "set_state n st body r c = Some c1" using set_to Cons.prems(1) by blast
    then have "sm_inv st c1" "\<not> enter c1" using set_state_keeps [OF wf, of n body] Cons.prems(1) unfolding keeps_def by blast+
    then show ?thesis using Cons.IH SetState c1 by simp
  next
    case RunState
    obtain p where p: "chain st (current c) p" using wf_table_chain [OF wf] by blast
    then have "length p < n" using deep fuel by (auto simp: depth_within_def dest: spec2)
    moreover have inv: "sm_inv st (c\<lparr>running := True\<rparr>)" using Cons.prems(1) by simp
    ultimately obtain c1 where c1: "call_run_functions n (set_state n st body) st body (current c) (c\<lparr>running := True\<rparr>) = Some c1"
      using call_run_total [OF set_state_keeps [OF wf] set_to _ p] by blast
    then have "sm_inv st c1 \<and> \<not> enter c1"
      using call_run_keeps [OF set_state_keeps [OF wf] inv c1] Cons.prems(2) by simp
    then show ?thesis using Cons.IH [of "c1\<lparr>running := False\<rparr>"] RunState c1 by (simp add: run_state_def)
  qed
qed simp

lemma sm_entered_chain:
  assumes "wf_table st" and "sm_exec n st body ops sm_boot = Some c"
  shows "\<exists>xs. entered (history c) = Some xs \<and> chain st (current c) xs \<and> \<not> exiting c \<and> \<not> enter c"
proof -
  have r: "sm_inv st c" "\<not> enter c" using sm_reached [OF assms] by simp_all
  then have "position c = current c" by (simp add: position_def)
  then show ?thesis using r by (auto simp: sm_inv_def)
qed

subsection \<open>Properties\<close>

text \<open>
  C19: Sequences of transitions and runs end, and the states entered and not exited are always the chain of
  the current state. Let no state have more than \<open>D\<close> ancestors, itself counted, and let the states that
  the entry routine of a state causes to be entered have lower ranks than it, with ranks below \<open>R\<close>. Then
  every sequence of \<open>set_state\<close> and \<open>run_state\<close> from boot returns, with fuel above
  \<open>(D + 1)^2 + R\<close>, whatever transitions the entry, run and exit routines ask for in between (nested
  inside entries, or ignored inside exits); exits have matched entries in last-in first-out order, and the
  states entered are exactly the current state and its ancestors.
\<close>

theorem usb_sm_entered_chain:
  assumes "wf_table st" and "depth_within st D" and "entries_ranked st body rank"
    and "\<And>x. rank x < R" and "Suc D * Suc D + R < n"
  shows "\<exists>c xs. sm_exec n st body ops sm_boot = Some c \<and> entered (history c) = Some xs \<and>
    chain st (current c) xs \<and> \<not> exiting c \<and> \<not> enter c"
proof -
  have "sm_inv st sm_boot" "\<not> enter sm_boot" by (simp_all add: sm_inv_def position_def sm_boot_def)
  then obtain c where c: "sm_exec n st body ops sm_boot = Some c" using sm_exec_returns [OF assms] by blast
  then show ?thesis using sm_entered_chain [OF assms(1) c] by blast
qed

text \<open>A table of two leaves below one parent, where entering state 1 asks for state 2.\<close>

definition demo_table :: sm_table where
  "demo_table s = \<lparr>parent = (if s = 1 \<or> s = 2 then Some 0 else None), has_entry = True, has_run = True, has_exit = True\<rparr>"

definition demo_body :: sm_body where
  "demo_body h = (case h of Entry s # _ \<Rightarrow> if s = 1 then [Some 2] else [] | _ \<Rightarrow> [])"

lemma demo_table_wf: "wf_table demo_table"
  unfolding wf_table_def
proof
  fix s
  show "\<exists>xs. chain demo_table (Some s) xs"
    by (cases "s = 1 \<or> s = 2")
      (auto simp: demo_table_def intro: exI [of _ "[s, 0]"] exI [of _ "[s]"])
qed

definition demo_ctx :: sm_ctx where
  "demo_ctx = sm_boot\<lparr>current := Some 2, previous := Some 1, last_entered := Some 2, wakes := 2,
     history := [Run 0, Run 2, Entry 2, Exit 1, Entry 1, Entry 0]\<rparr>"

lemma demo_ctx_reached: "sm_exec 9 demo_table demo_body [SetState (Some 1), RunState] sm_boot = Some demo_ctx"
  by code_simp

lemma demo_table_chain: "chain demo_table (Some x) xs \<longleftrightarrow> xs = (if x = 1 \<or> x = 2 then [x, 0] else [x])"
  by (auto simp: demo_table_def chain_Cons chain_Nil split: list.splits if_splits)

lemma demo_table_depth: "depth_within demo_table 2"
  unfolding depth_within_def
proof (intro allI impI)
  fix a xs assume "chain demo_table a xs"
  then show "length xs \<le> 2" by (cases a) (auto simp: demo_table_chain simp del: chain.simps(2) split: if_splits)
qed

lemma demo_body_ranked: "entries_ranked demo_table demo_body (\<lambda>x. if x = 1 then 1 else 0)"
  by (auto simp: entries_ranked_def demo_body_def demo_table_chain simp del: chain.simps(2) split: if_splits)

lemma usb_sm_entered_chain_witness:
  "\<exists>c. sm_exec 20 demo_table demo_body [SetState (Some 1), RunState] sm_boot = Some c \<and>
     entered (history c) = Some [2, 0] \<and> current c = Some 2"
proof -
  have r: "(if x = 1 then 1 else 0) < (2 :: nat)" for x :: nat by simp
  have f: "Suc 2 * Suc 2 + 2 < (20 :: nat)" by simp
  obtain c xs where c: "sm_exec 20 demo_table demo_body [SetState (Some 1), RunState] sm_boot = Some c"
      "entered (history c) = Some xs" "chain demo_table (current c) xs"
    using usb_sm_entered_chain [OF demo_table_wf demo_table_depth demo_body_ranked r f, of "[SetState (Some 1), RunState]"]
    by blast
  have "map_option current (sm_exec 20 demo_table demo_body [SetState (Some 1), RunState] sm_boot) = Some (Some 2)" by code_simp
  then have "current c = Some 2" unfolding c(1) by simp
  with c show ?thesis by (simp add: demo_table_chain del: chain.simps(2))
qed

text \<open>
  A transition exits and enters exactly what it must. When no entry routine asks for another
  state, \<open>set_state\<close> returns, with fuel above the product of the chains' lengths: it
  exits the states of the old chain up to the nearest common ancestor, children first, enters
  those of the new chain below it, parents first, and leaves the shared ancestors alone; the
  pending run is stopped and the task is woken.
\<close>

lemma usb_set_state_exact:
  assumes "wf_table st" and "sm_exec m st body ops sm_boot = Some c" and "\<forall>x h. body (Entry x # h) = []"
    and "chain st (current c) p" and "chain st r q" and "Suc (length p) * Suc (length q) < n"
  shows "\<exists>c' p1 q1 k. set_state n st body r c = Some c' \<and> p = p1 @ k \<and> q = q1 @ k \<and> set p1 \<inter> set q = {} \<and>
    history c' = map Entry q1 @ rev (map Exit p1) @ history c \<and> current c' = r \<and>
    previous c' = current c \<and> \<not> running c' \<and> wakes c' = wakes c + 1"
proof -
  have inv: "\<not> exiting c" "\<not> enter c" using sm_reached [OF assms(1,2)] by (simp_all add: sm_inv_def)
  then have p: "chain st (position c) p" using assms(4) by (simp add: position_def)
  obtain p1 q1 k c' where k: "p = p1 @ k" "q = q1 @ k" "set p1 \<inter> set q = {}"
    and c': "c' = c\<lparr>history := map Entry q1 @ rev (map Exit p1) @ history c, previous := current c, current := r,
      last_entered := (if q1 = [] then None else r), exiting := False, enter := False, running := False,
      wakes := wakes c + 1\<rparr>" and s: "set_state n st body r c = Some c'"
    using set_state_quiet [OF inv(1) p assms(5,3,6)] by metis
  have "history c' = map Entry q1 @ rev (map Exit p1) @ history c" "current c' = r" "previous c' = current c"
    "\<not> running c'" "wakes c' = wakes c + 1"
    by (simp_all add: c')
  with k s show ?thesis by blast
qed

lemma usb_set_state_exact_witness:
  "\<exists>c'. set_state 20 demo_table (\<lambda>_. []) (Some 1) (the (sm_exec 9 demo_table (\<lambda>_. []) [SetState (Some 2)] sm_boot)) = Some c' \<and>
     current c' = Some 1"
proof -
  define c where "c = the (sm_exec 9 demo_table (\<lambda>_. []) [SetState (Some 2)] sm_boot)"
  have "case sm_exec 9 demo_table (\<lambda>_. []) [SetState (Some 2)] sm_boot of
      None \<Rightarrow> False | Some c \<Rightarrow> current c = Some 2" by code_simp
  then have c: "sm_exec 9 demo_table (\<lambda>_. []) [SetState (Some 2)] sm_boot = Some c" "current c = Some 2"
    by (auto simp: c_def split: option.splits)
  have ch: "chain demo_table (current c) [2, 0]" "chain demo_table (Some 1) [1, 0]"
    by (simp_all add: c(2) demo_table_def)
  show ?thesis
    using usb_set_state_exact [OF demo_table_wf c(1) _ ch, of 20] by (auto simp: c_def)
qed

text \<open>
  Run routines are called from the current state outwards until one asks for a transition.
  With enough fuel, \<open>run_state\<close> calls each state of the chain once, children first, when
  none asks for a state; when the routine of one does, the run routines called are exactly those
  up to and including it.
\<close>

lemma usb_run_order:
  assumes "wf_table st" and "sm_exec m st body ops sm_boot = Some c" and "chain st (current c) p"
  shows "((\<forall>i<length p. \<not> asks st body p (history c) i) \<and> length p < n \<longrightarrow>
      run_state n st body c = Some (c\<lparr>history := rev (map Run p) @ history c, running := False\<rparr>)) \<and>
    (\<forall>i<length p. \<forall>c'. asks st body p (history c) i \<and> (\<forall>j<i. \<not> asks st body p (history c) j) \<and>
      run_state n st body c = Some c' \<longrightarrow> runs (history c') = rev (take (Suc i) p) @ runs (history c))"
proof -
  have inv: "sm_inv st (c\<lparr>running := True\<rparr>)" using sm_reached [OF assms(1,2)] by simp
  have all: "run_state n st body c = Some (c\<lparr>history := rev (map Run p) @ history c, running := False\<rparr>)"
    if "\<forall>i<length p. \<not> asks st body p (history c) i" "length p < n"
    using call_run_all [of st "current c" p "c\<lparr>running := True\<rparr>" body n] assms(3) that
    by (simp add: run_state_def)
  have "runs (history c') = rev (take (Suc i) p) @ runs (history c)"
    if a: "i < length p" "asks st body p (history c) i" "\<forall>j<i. \<not> asks st body p (history c) j"
      and r: "run_state n st body c = Some c'" for i c'
  proof -
    obtain c1 where c1: "call_run_functions n (set_state n st body) st body (current c) (c\<lparr>running := True\<rparr>) = Some c1"
      "c' = c1\<lparr>running := False\<rparr>"
      using r by (auto simp: run_state_def split: Option.bind_splits)
    obtain rs where "set_states (set_state n st body) rs
        (c\<lparr>running := True, history := rev (map Run (take (Suc i) p)) @ history c\<rparr>) = Some c1"
      using call_run_asks [OF set_state_keeps [OF assms(1)] assms(3) _ inv a(1) _ _ c1(1)] a(2,3) by auto
    then have "runs (history c1) = runs (rev (map Run (take (Suc i) p)) @ history c)"
      using set_states_no_run [OF set_state_no_run] by fastforce
    then show ?thesis by (simp add: c1(2) rev_map)
  qed
  with all show ?thesis by blast
qed

lemma usb_run_order_witness:
  "\<exists>c. run_state 9 demo_table demo_body demo_ctx = Some c \<and> history c = [Run 0, Run 2] @ history demo_ctx"
proof -
  have ch: "chain demo_table (current demo_ctx) [2, 0]" by (simp add: demo_ctx_def demo_table_def)
  have "\<forall>i<length [2, 0]. \<not> asks demo_table demo_body [2, 0] (history demo_ctx) i"
    by (simp add: asks_def demo_body_def)
  then show ?thesis using usb_run_order [OF demo_table_wf demo_ctx_reached ch, of 9] by auto
qed

subsection \<open>Tables without parents\<close>

text \<open>
  Where no state has a parent and no exit routine asks for a state, \<open>set_state\<close> leaves the
  current state and enters the new one, and a state that is already current is not entered again.
\<close>

lemma flat_set_state:
  assumes flat: "\<And>x. parent (st x) = None" and quiet: "\<And>x h. body (Exit x # h) = []"
      and c: "\<not> exiting c" "enter c \<longrightarrow> last_entered c = current c"
  shows "set_state (Suc (Suc (Suc n))) st body (Some b) c =
    (let c1 = c\<lparr>exiting := False, previous := current c, current := Some b, last_entered := None, enter := True\<rparr>;
         left = c1\<lparr>history := map Exit (case current c of None \<Rightarrow> [] | Some a \<Rightarrow> [a]) @ history c\<rparr>;
         (c2, asked) = routine st body (Entry b) (left\<lparr>last_entered := Some b\<rparr>)
     in do {
       c3 \<leftarrow> (if current c = Some b then Some c1 else set_states (set_state (Suc (Suc n)) st body) asked c2);
       Some (c3\<lparr>enter := False, running := False, wakes := wakes c3 + 1\<rparr>)
     })"
proof -
  have pos: "(if enter c then last_entered c else current c) = current c" using c(2) by simp
  have shared: "shared_parent_state (Suc (Suc n)) st (current c) (Some b) = Some (if current c = Some b then Some b else None)"
    using flat by (auto simp: shared_parent_state_def split: option.splits)
  show ?thesis
    using c(1) shared flat quiet
    by (cases "current c") (auto simp: pos routine_def Let_def split: if_splits)
qed

end
