(* ===== verification/Prl.thy ===== *)
theory Prl
  imports TcpmQueue PdTimer UsbSm
begin

section \<open>The USB PD protocol layer, common/usbc/usb_prl_sm.c\<close>

text \<open>
  One port of the protocol layer between the policy engine (PE) and the port controller (TCPC): its
  four state machines (transmission, hard reset, chunked reception and chunked transmission), the
  reception of messages and the loop that runs them. Configuration: PD revision 3.0 with extended
  messages (\<open>CONFIG_USB_PD_REV30\<close>, \<open>CONFIG_USB_PD_EXTENDED_MESSAGES\<close>), host
  commands, no VPD. Printing and the event log are left out, and so is \<open>task_wake\<close>.

  The PE, the type-C layer and the TCPC driver are parameters. What the code tells them is recorded in
  \<open>effects\<close>, the newest first; the record \<open>prl_env\<close> answers from these effects what
  the code asks, and \<open>env_pe\<close> gives the calls that the PE makes back, synchronously, when it is
  told something. Timers are those of \<open>PdTimer\<close>, the cached messages those of
  \<open>TcpmQueue\<close>.

  The state tables are flat, so \<open>set_state\<close> of \<open>UsbSm\<close> is: nothing for the current
  state, else the exit routine of the current state, if there is one, and the entry routine of the new
  one (\<open>flat_set_state\<close>). \<open>fault\<close> is set when the code would access memory outside an
  array or fail an assertion; from there on the model says nothing.
\<close>

subsection \<open>Headers\<close>

definition PD_HEADER :: "u32 \<Rightarrow> u32 \<Rightarrow> u32 \<Rightarrow> u32 \<Rightarrow> u32 \<Rightarrow> u32 \<Rightarrow> u32 \<Rightarrow> u32" where
  "PD_HEADER type prole drole msgid cnt revision extended =
     type OR push_bit 6 revision OR push_bit 5 drole OR push_bit 8 prole OR push_bit 9 msgid OR
     push_bit 12 cnt OR push_bit 15 extended"

definition PD_HEADER_EXT :: "u32 \<Rightarrow> u32" where "PD_HEADER_EXT h = drop_bit 15 h AND 1"
definition PD_HEADER_CNT :: "u32 \<Rightarrow> u32" where "PD_HEADER_CNT h = drop_bit 12 h AND 7"
definition PD_HEADER_TYPE :: "u32 \<Rightarrow> u32" where "PD_HEADER_TYPE h = h AND 0x1F"
definition PD_HEADER_ID :: "u32 \<Rightarrow> u32" where "PD_HEADER_ID h = drop_bit 9 h AND 7"
definition PD_HEADER_PROLE :: "u32 \<Rightarrow> u32" where "PD_HEADER_PROLE h = drop_bit 8 h AND 1"
definition PD_HEADER_DROLE :: "u32 \<Rightarrow> u32" where "PD_HEADER_DROLE h = drop_bit 5 h AND 1"
definition PD_HEADER_GET_SOP :: "u32 \<Rightarrow> u32" where "PD_HEADER_GET_SOP h = drop_bit 28 h AND 0xf"

definition PD_EXT_HEADER :: "u32 \<Rightarrow> u32 \<Rightarrow> u32 \<Rightarrow> u32" where
  "PD_EXT_HEADER cnum rchk dsize = push_bit 15 1 OR push_bit 11 cnum OR push_bit 10 rchk OR dsize"

definition PD_EXT_HEADER_CHUNKED :: "u32 \<Rightarrow> u32" where "PD_EXT_HEADER_CHUNKED h = drop_bit 15 h AND 1"
definition PD_EXT_HEADER_CHUNK_NUM :: "u32 \<Rightarrow> u32" where "PD_EXT_HEADER_CHUNK_NUM h = drop_bit 11 h AND 0xf"
definition PD_EXT_HEADER_REQ_CHUNK :: "u32 \<Rightarrow> u32" where "PD_EXT_HEADER_REQ_CHUNK h = drop_bit 10 h AND 1"
definition PD_EXT_HEADER_DATA_SIZE :: "u32 \<Rightarrow> u32" where "PD_EXT_HEADER_DATA_SIZE h = h AND 0x1ff"

definition PD_CTRL_PING :: u32 where "PD_CTRL_PING = 5"
definition PD_CTRL_SOFT_RESET :: u32 where "PD_CTRL_SOFT_RESET = 13"
definition PD_MESSAGE_ID_COUNT :: u32 where "PD_MESSAGE_ID_COUNT = 7"
definition CHK_BUF_SIZE_BYTES :: nat where "CHK_BUF_SIZE_BYTES = 28"
definition EXTENDED_BUFFER_SIZE :: nat where "EXTENDED_BUFFER_SIZE = 260"
definition PD_MAX_EXTENDED_MSG_CHUNK_LEN :: u32 where "PD_MAX_EXTENDED_MSG_CHUNK_LEN = 26"

definition TCPCI_MSG_SOP :: nat where "TCPCI_MSG_SOP = 0"
definition TCPCI_MSG_TX_HARD_RESET :: nat where "TCPCI_MSG_TX_HARD_RESET = 5"
definition NUM_SOP_STAR_TYPES :: nat where "NUM_SOP_STAR_TYPES = 5"

definition PR_TIMER_CHUNK_SENDER_RESPONSE :: nat where "PR_TIMER_CHUNK_SENDER_RESPONSE = 24"
definition PR_TIMER_CHUNK_SENDER_REQUEST :: nat where "PR_TIMER_CHUNK_SENDER_REQUEST = 25"
definition PR_TIMER_HARD_RESET_COMPLETE :: nat where "PR_TIMER_HARD_RESET_COMPLETE = 26"
definition PR_TIMER_SINK_TX :: nat where "PR_TIMER_SINK_TX = 27"
definition PR_TIMER_TCPC_TX_TIMEOUT :: nat where "PR_TIMER_TCPC_TX_TIMEOUT = 28"

definition PD_T_TCPC_TX_TIMEOUT :: u32 where "PD_T_TCPC_TX_TIMEOUT = 100000"
definition PD_T_SINK_TX :: u32 where "PD_T_SINK_TX = 18000"
definition PD_T_PS_HARD_RESET :: u32 where "PD_T_PS_HARD_RESET = 25000"
definition PD_T_CHUNK_SENDER_RESPONSE :: u32 where "PD_T_CHUNK_SENDER_RESPONSE = 25000"
definition PD_T_CHUNK_SENDER_REQUEST :: u32 where "PD_T_CHUNK_SENDER_REQUEST = 25000"

subsection \<open>State\<close>

datatype sm_local_state = SM_INIT | SM_RUN | SM_PAUSED

datatype prl_flag =
    PRL_FLAGS_TX_COMPLETE
  | PRL_FLAGS_SINK_NG
  | PRL_FLAGS_WAIT_SINK_OK
  | PRL_FLAGS_TX_ERROR
  | PRL_FLAGS_PE_HARD_RESET
  | PRL_FLAGS_HARD_RESET_COMPLETE
  | PRL_FLAGS_PORT_PARTNER_HARD_RESET
  | PRL_FLAGS_MSG_XMIT
  | PRL_FLAGS_MSG_RECEIVED
  | PRL_FLAGS_ABORT
  | PRL_FLAGS_CHUNKING
  | PRL_FLAGS_IGNORE_DATA_ROLE

datatype usb_prl_tx_state =
    PRL_TX_PHY_LAYER_RESET
  | PRL_TX_WAIT_FOR_MESSAGE_REQUEST
  | PRL_TX_LAYER_RESET_FOR_TRANSMIT
  | PRL_TX_WAIT_FOR_PHY_RESPONSE
  | PRL_TX_SRC_SOURCE_TX
  | PRL_TX_SNK_START_AMS
  | PRL_TX_SRC_PENDING
  | PRL_TX_SNK_PENDING
  | PRL_TX_DISCARD_MESSAGE

datatype usb_prl_hr_state =
    PRL_HR_WAIT_FOR_REQUEST
  | PRL_HR_RESET_LAYER
  | PRL_HR_WAIT_FOR_PHY_HARD_RESET_COMPLETE
  | PRL_HR_WAIT_FOR_PE_HARD_RESET_COMPLETE

datatype usb_rch_state =
    RCH_WAIT_FOR_MESSAGE_FROM_PROTOCOL_LAYER
  | RCH_PASS_UP_MESSAGE
  | RCH_PROCESSING_EXTENDED_MESSAGE
  | RCH_REQUESTING_CHUNK
  | RCH_WAITING_CHUNK
  | RCH_REPORT_ERROR

datatype usb_tch_state =
    TCH_WAIT_FOR_MESSAGE_REQUEST_FROM_PE
  | TCH_WAIT_FOR_TRANSMISSION_COMPLETE
  | TCH_CONSTRUCT_CHUNKED_MESSAGE
  | TCH_SENDING_CHUNKED_MESSAGE
  | TCH_WAIT_CHUNK_REQUEST
  | TCH_MESSAGE_RECEIVED
  | TCH_MESSAGE_SENT
  | TCH_REPORT_ERROR

datatype pe_error = ERR_RCH_CHUNKED | ERR_RCH_MSG_REC | ERR_RCH_CHUNK_WAIT_TIMEOUT | ERR_TCH_CHUNKED | ERR_TCH_XMIT

datatype tcpc_transmit_complete =
    TCPC_TX_UNSET
  | TCPC_TX_WAIT
  | TCPC_TX_COMPLETE_SUCCESS
  | TCPC_TX_COMPLETE_DISCARDED
  | TCPC_TX_COMPLETE_FAILED

datatype pd_rev_type = PD_REV10 | PD_REV20 | PD_REV30

definition rev_code :: "pd_rev_type \<Rightarrow> u32" where
  "rev_code r = (case r of PD_REV10 \<Rightarrow> 0 | PD_REV20 \<Rightarrow> 1 | PD_REV30 \<Rightarrow> 2)"

text \<open>
  What the layer does outside; \<open>Pe_message_received\<close> has the header and the message that
  \<open>rx_emsg\<close> holds then, \<open>Transmit\<close> the type, the header and the 28 bytes of data.
\<close>

datatype prl_effect =
    Rx_enable bool
  | Select_rp_ok bool
  | Update_cc
  | Transmit nat u32 "u8 list"
  | Pe_message_received u32 "u8 list"
  | Pe_message_sent
  | Pe_report_error pe_error nat
  | Pe_report_discard
  | Pe_got_soft_reset
  | Pe_got_hard_reset
  | Pe_hard_reset_sent
  | Notify_hard_reset
  | Tc_error_recovery

text \<open>What the PE asks for. A data message is handed over in \<open>tx_emsg\<close>.\<close>

datatype prl_req =
    Send_ctrl nat u8
  | Send_data nat u8 "u8 list"
  | Send_ext nat u8 "u8 list"
  | Execute_hard_reset
  | Hard_reset_done
  | Reset_soft
  | Set_rev nat pd_rev_type
  | Set_default_rev
  | Reset_msg_ids nat
  | Set_data_role_check bool

record prl_env =
  env_port :: nat
  env_now :: "prl_effect list \<Rightarrow> u64"
  env_local_ams :: "prl_effect list \<Rightarrow> bool"
  env_frs :: "prl_effect list \<Rightarrow> bool"
  env_connected :: "prl_effect list \<Rightarrow> bool"
  env_sink_ok :: "prl_effect list \<Rightarrow> bool"
  env_power_role :: "prl_effect list \<Rightarrow> u32"
  env_data_role :: "prl_effect list \<Rightarrow> u32"
  env_cable_plug :: "prl_effect list \<Rightarrow> u32"
  env_phy :: "prl_effect list \<Rightarrow> tcpc_transmit_complete option"
  env_pe :: "prl_effect list \<Rightarrow> prl_req list"

text \<open>
  \<open>tx_chk_buf\<close> and \<open>rx_chk_buf\<close> are the bytes of the two arrays of \<open>struct pd_message\<close>, 28 each;
  \<open>rx_chk_buf\<close> lies right behind \<open>tx_chk_buf\<close>. \<open>fault\<close> becomes true at an access outside an array.
\<close>

record prl =
  local_state :: sm_local_state
  tx_state :: "usb_prl_tx_state option"
  hr_state :: "usb_prl_hr_state option"
  rch_state :: "usb_rch_state option"
  tch_state :: "usb_tch_state option"
  tx_flags :: "prl_flag set"
  hr_flags :: "prl_flag set"
  rch_flags :: "prl_flag set"
  tch_flags :: "prl_flag set"
  pdmsg_flags :: "prl_flag set"
  rch_error :: pe_error
  tch_error :: pe_error
  rx_sop :: nat
  rx_msg_id :: "int list"
  last_xmit_type :: nat
  msg_id_counter :: "u32 list"
  xmit_status :: tcpc_transmit_complete
  xmit_type :: nat
  msg_type :: u8
  pd_rev :: "pd_rev_type list"
  data_objs :: u16
  tx_chk_buf :: "u8 list"
  rx_chk_buf :: "u8 list"
  chunk_number_expected :: u32
  num_bytes_received :: u32
  ext :: u8
  chunk_number_to_send :: u32
  send_offset :: u32
  rx_header :: u32
  rx_len :: u32
  rx_buf :: "u8 list"
  tx_len :: u32
  tx_buf :: "u8 list"
  tcpc_tx_success_ts :: u64
  ptimers :: pd_timers
  rx_queue :: tcpm_queue
  effects :: "prl_effect list"
  fault :: bool

subsection \<open>Helpers\<close>

definition emit :: "prl_effect \<Rightarrow> prl \<Rightarrow> prl" where "emit e s = s\<lparr>effects := e # effects s\<rparr>"

definition check :: "bool \<Rightarrow> prl \<Rightarrow> prl" where "check ok s = s\<lparr>fault := fault s \<or> \<not> ok\<rparr>"

definition timer_enable :: "prl_env \<Rightarrow> nat \<Rightarrow> u32 \<Rightarrow> prl \<Rightarrow> prl" where
  "timer_enable env t us s = s\<lparr>ptimers := pd_timer_enable (env_now env (effects s)) (env_port env) t us (ptimers s)\<rparr>"

definition timer_disable :: "prl_env \<Rightarrow> nat \<Rightarrow> prl \<Rightarrow> prl" where
  "timer_disable env t s = s\<lparr>ptimers := pd_timer_disable (env_port env) t (ptimers s)\<rparr>"

definition timer_expired :: "prl_env \<Rightarrow> nat \<Rightarrow> prl \<Rightarrow> prl \<times> bool" where
  "timer_expired env t s =
     (let (tm, b) = pd_timer_is_expired (env_now env (effects s)) (env_port env) t (ptimers s) in (s\<lparr>ptimers := tm\<rparr>, b))"

definition put_bytes :: "nat \<Rightarrow> u8 list \<Rightarrow> u8 list \<Rightarrow> u8 list" where
  "put_bytes off bs buf = take off buf @ bs @ drop (off + length bs) buf"

definition put_chk :: "nat \<Rightarrow> u8 list \<Rightarrow> prl \<Rightarrow> prl" where
  "put_chk off bs s = (check (off + length bs \<le> length (tx_chk_buf s)) s)\<lparr>tx_chk_buf := put_bytes off bs (tx_chk_buf s)\<rparr>"

definition fill_rx_chk :: "u8 list \<Rightarrow> prl \<Rightarrow> prl" where
  "fill_rx_chk bs s = (check (length bs \<le> length (rx_chk_buf s)) s)\<lparr>rx_chk_buf := put_bytes 0 bs (rx_chk_buf s)\<rparr>"

text \<open>
  \<open>memset(data, 0, 28)\<close> with \<open>data\<close> two bytes into \<open>tx_chk_buf\<close>: the last two of the 28 bytes are
  outside that array, the first two of \<open>rx_chk_buf\<close> behind it. This access is outside its array at every
  call; it is given the effect it has and not counted in \<open>fault\<close>.
\<close>

definition clear_chunk :: "prl \<Rightarrow> prl" where
  "clear_chunk s =
     s\<lparr>tx_chk_buf := put_bytes 2 (replicate 26 0) (tx_chk_buf s), rx_chk_buf := put_bytes 0 (replicate 2 0) (rx_chk_buf s)\<rparr>"

text \<open>\<open>GET_EXT_HEADER(rx_chk_buf[0])\<close>\<close>

definition rx_ext_header :: "prl \<Rightarrow> u32" where
  "rx_ext_header s = ucast (rx_chk_buf s ! 0) OR push_bit 8 (ucast (rx_chk_buf s ! 1))"

definition prl_is_running :: "prl \<Rightarrow> bool" where "prl_is_running s = (local_state s = SM_RUN)"

definition prl_reset_msg_ids :: "nat \<Rightarrow> prl \<Rightarrow> prl" where
  "prl_reset_msg_ids type s =
     (check (type < NUM_SOP_STAR_TYPES) s)
       \<lparr>msg_id_counter := (msg_id_counter s)[type := 0], rx_msg_id := (rx_msg_id s)[type := -1]\<rparr>"

definition prl_set_rev :: "nat \<Rightarrow> pd_rev_type \<Rightarrow> prl \<Rightarrow> prl" where
  "prl_set_rev type r s = (check (type < NUM_SOP_STAR_TYPES) s)\<lparr>pd_rev := (pd_rev s)[type := r]\<rparr>"

definition prl_get_rev :: "nat \<Rightarrow> prl \<Rightarrow> pd_rev_type" where "prl_get_rev type s = pd_rev s ! type"

definition prl_set_default_pd_revision :: "prl \<Rightarrow> prl" where
  "prl_set_default_pd_revision s = s\<lparr>pd_rev := replicate NUM_SOP_STAR_TYPES PD_REV30\<rparr>"

definition prl_set_data_role_check :: "bool \<Rightarrow> prl \<Rightarrow> prl" where
  "prl_set_data_role_check enable s =
     s\<lparr>rch_flags := if enable then rch_flags s - {PRL_FLAGS_IGNORE_DATA_ROLE} else insert PRL_FLAGS_IGNORE_DATA_ROLE (rch_flags s)\<rparr>"

definition prl_is_busy :: "prl \<Rightarrow> bool" where
  "prl_is_busy s = (rch_state s \<noteq> Some RCH_WAIT_FOR_MESSAGE_FROM_PROTOCOL_LAYER \<or>
     tch_state s \<noteq> Some TCH_WAIT_FOR_MESSAGE_REQUEST_FROM_PE)"

definition pdmsg_xmit_type_is_rev30 :: "prl \<Rightarrow> bool" where
  "pdmsg_xmit_type_is_rev30 s = (xmit_type s < NUM_SOP_STAR_TYPES \<and> prl_get_rev (xmit_type s) s = PD_REV30)"

definition is_sop_rev30 :: "prl \<Rightarrow> bool" where
  "is_sop_rev30 s = (prl_get_rev TCPCI_MSG_SOP s = PD_REV30)"

subsection \<open>Transitions that tell the PE nothing\<close>

definition prl_tx_exit :: "prl_env \<Rightarrow> prl \<Rightarrow> prl" where
  "prl_tx_exit env s =
     (if tx_state s = Some PRL_TX_WAIT_FOR_PHY_RESPONSE then timer_disable env PR_TIMER_TCPC_TX_TIMEOUT s
      else if tx_state s = Some PRL_TX_SRC_PENDING then timer_disable env PR_TIMER_SINK_TX s
      else s)"

definition tx_move :: "prl_env \<Rightarrow> usb_prl_tx_state \<Rightarrow> (prl \<Rightarrow> prl) \<Rightarrow> prl \<Rightarrow> prl" where
  "tx_move env new_state entry s =
     (if tx_state s = Some new_state then s else entry ((prl_tx_exit env s)\<lparr>tx_state := Some new_state\<rparr>))"

definition prl_tx_wait_for_message_request_entry :: "prl \<Rightarrow> prl" where
  "prl_tx_wait_for_message_request_entry s = s\<lparr>xmit_status := TCPC_TX_UNSET\<rparr>"

definition tx_to_wait :: "prl_env \<Rightarrow> prl \<Rightarrow> prl" where
  "tx_to_wait env s = tx_move env PRL_TX_WAIT_FOR_MESSAGE_REQUEST prl_tx_wait_for_message_request_entry s"

definition prl_tx_phy_layer_reset_entry :: "prl_env \<Rightarrow> prl \<Rightarrow> prl" where
  "prl_tx_phy_layer_reset_entry env s = tx_to_wait env (emit (Rx_enable (env_connected env (effects s))) s)"

definition tx_to_phy_layer_reset :: "prl_env \<Rightarrow> prl \<Rightarrow> prl" where
  "tx_to_phy_layer_reset env s = tx_move env PRL_TX_PHY_LAYER_RESET (prl_tx_phy_layer_reset_entry env) s"

definition rch_exit :: "prl_env \<Rightarrow> prl \<Rightarrow> prl" where
  "rch_exit env s =
     (if rch_state s = Some RCH_WAITING_CHUNK then timer_disable env PR_TIMER_CHUNK_SENDER_RESPONSE s else s)"

definition rch_move :: "prl_env \<Rightarrow> usb_rch_state \<Rightarrow> (prl \<Rightarrow> prl) \<Rightarrow> prl \<Rightarrow> prl" where
  "rch_move env new_state entry s =
     (if rch_state s = Some new_state then s else entry ((rch_exit env s)\<lparr>rch_state := Some new_state\<rparr>))"

definition rch_wait_for_message_from_protocol_layer_entry :: "prl \<Rightarrow> prl" where
  "rch_wait_for_message_from_protocol_layer_entry s =
     s\<lparr>pdmsg_flags := pdmsg_flags s - {PRL_FLAGS_ABORT}, rch_flags := {PRL_FLAGS_CHUNKING}\<rparr>"

definition rch_to_wait :: "prl_env \<Rightarrow> prl \<Rightarrow> prl" where
  "rch_to_wait env s =
     rch_move env RCH_WAIT_FOR_MESSAGE_FROM_PROTOCOL_LAYER rch_wait_for_message_from_protocol_layer_entry s"

definition tch_exit :: "prl_env \<Rightarrow> prl \<Rightarrow> prl" where
  "tch_exit env s =
     (if tch_state s = Some TCH_WAIT_CHUNK_REQUEST then timer_disable env PR_TIMER_CHUNK_SENDER_REQUEST s else s)"

definition tch_move :: "prl_env \<Rightarrow> usb_tch_state \<Rightarrow> (prl \<Rightarrow> prl) \<Rightarrow> prl \<Rightarrow> prl" where
  "tch_move env new_state entry s =
     (if tch_state s = Some new_state then s else entry ((tch_exit env s)\<lparr>tch_state := Some new_state\<rparr>))"

definition tch_wait_for_message_request_from_pe_entry :: "prl \<Rightarrow> prl" where
  "tch_wait_for_message_request_from_pe_entry s =
     s\<lparr>pdmsg_flags := pdmsg_flags s - {PRL_FLAGS_ABORT}, tch_flags := insert PRL_FLAGS_CHUNKING (tch_flags s)\<rparr>"

definition tch_to_wait :: "prl_env \<Rightarrow> prl \<Rightarrow> prl" where
  "tch_to_wait env s =
     tch_move env TCH_WAIT_FOR_MESSAGE_REQUEST_FROM_PE tch_wait_for_message_request_from_pe_entry s"

subsection \<open>Hard reset\<close>

definition prl_hr_wait_for_request_entry :: "prl \<Rightarrow> prl" where
  "prl_hr_wait_for_request_entry s = s\<lparr>hr_flags := {}\<rparr>"

definition reset_all_msg_ids :: "prl \<Rightarrow> prl" where
  "reset_all_msg_ids s = fold prl_reset_msg_ids [0..<NUM_SOP_STAR_TYPES] s"

definition prl_hr_reset_layer_entry :: "prl_env \<Rightarrow> prl \<Rightarrow> prl" where
  "prl_hr_reset_layer_entry env s =
     (let s1 = reset_all_msg_ids (s\<lparr>tch_flags := {}, rch_flags := {}, pdmsg_flags := {}\<rparr>);
          s2 = emit Notify_hard_reset (prl_set_default_pd_revision (emit (Rx_enable False) s1))
      in tx_to_wait env s2)"

definition prl_hr_wait_for_phy_hard_reset_complete_entry :: "prl_env \<Rightarrow> prl \<Rightarrow> prl" where
  "prl_hr_wait_for_phy_hard_reset_complete_entry env s = timer_enable env PR_TIMER_HARD_RESET_COMPLETE PD_T_PS_HARD_RESET s"

definition prl_hr_wait_for_pe_hard_reset_complete_exit :: "prl_env \<Rightarrow> prl \<Rightarrow> prl" where
  "prl_hr_wait_for_pe_hard_reset_complete_exit env s =
     tch_to_wait env (rch_to_wait env (tx_to_phy_layer_reset env s))"

definition prl_hr_exit :: "prl_env \<Rightarrow> prl \<Rightarrow> prl" where
  "prl_hr_exit env s =
     (if hr_state s = Some PRL_HR_WAIT_FOR_PHY_HARD_RESET_COMPLETE then timer_disable env PR_TIMER_HARD_RESET_COMPLETE s
      else if hr_state s = Some PRL_HR_WAIT_FOR_PE_HARD_RESET_COMPLETE then prl_hr_wait_for_pe_hard_reset_complete_exit env s
      else s)"

definition prl_hr_entry :: "prl_env \<Rightarrow> usb_prl_hr_state \<Rightarrow> prl \<Rightarrow> prl" where
  "prl_hr_entry env st =
     (case st of
        PRL_HR_WAIT_FOR_REQUEST \<Rightarrow> prl_hr_wait_for_request_entry
      | PRL_HR_RESET_LAYER \<Rightarrow> prl_hr_reset_layer_entry env
      | PRL_HR_WAIT_FOR_PHY_HARD_RESET_COMPLETE \<Rightarrow> prl_hr_wait_for_phy_hard_reset_complete_entry env
      | PRL_HR_WAIT_FOR_PE_HARD_RESET_COMPLETE \<Rightarrow> (\<lambda>s. s))"

definition set_state_prl_hr :: "prl_env \<Rightarrow> usb_prl_hr_state \<Rightarrow> prl \<Rightarrow> prl" where
  "set_state_prl_hr env new_state s =
     (if hr_state s = Some new_state then s
      else prl_hr_entry env new_state ((prl_hr_exit env s)\<lparr>hr_state := Some new_state\<rparr>))"

definition prl_execute_hard_reset :: "prl_env \<Rightarrow> prl \<Rightarrow> prl" where
  "prl_execute_hard_reset env s =
     (if \<not> prl_is_running s then s
      else set_state_prl_hr env PRL_HR_RESET_LAYER (s\<lparr>hr_flags := insert PRL_FLAGS_PE_HARD_RESET (hr_flags s)\<rparr>))"

definition pd_execute_hard_reset :: "prl_env \<Rightarrow> prl \<Rightarrow> prl" where
  "pd_execute_hard_reset env s =
     (if \<not> prl_is_running s then s
      else set_state_prl_hr env PRL_HR_RESET_LAYER (s\<lparr>hr_flags := insert PRL_FLAGS_PORT_PARTNER_HARD_RESET (hr_flags s)\<rparr>))"

definition prl_hard_reset_complete :: "prl \<Rightarrow> prl" where
  "prl_hard_reset_complete s = s\<lparr>hr_flags := insert PRL_FLAGS_HARD_RESET_COMPLETE (hr_flags s)\<rparr>"

subsection \<open>Requests of the PE\<close>

definition prl_send_ctrl_msg :: "nat \<Rightarrow> u8 \<Rightarrow> prl \<Rightarrow> prl" where
  "prl_send_ctrl_msg type msg s =
     s\<lparr>xmit_type := type, msg_type := msg, data_objs := 0, tx_len := 0, ext := 0,
       tch_flags := insert PRL_FLAGS_MSG_XMIT (tch_flags s)\<rparr>"

definition prl_send_data_msg :: "nat \<Rightarrow> u8 \<Rightarrow> prl \<Rightarrow> prl" where
  "prl_send_data_msg type msg s =
     s\<lparr>xmit_type := type, msg_type := msg, ext := 0, tch_flags := insert PRL_FLAGS_MSG_XMIT (tch_flags s)\<rparr>"

definition prl_send_ext_data_msg :: "nat \<Rightarrow> u8 \<Rightarrow> prl \<Rightarrow> prl" where
  "prl_send_ext_data_msg type msg s =
     s\<lparr>xmit_type := type, msg_type := msg, ext := 1, tch_flags := insert PRL_FLAGS_MSG_XMIT (tch_flags s)\<rparr>"

text \<open>The PE writes a message to \<open>tx_emsg\<close> before it asks to send it.\<close>

definition pe_fill :: "u8 list \<Rightarrow> prl \<Rightarrow> prl" where
  "pe_fill bs s = (check (length bs \<le> EXTENDED_BUFFER_SIZE) s)\<lparr>tx_buf := put_bytes 0 bs (tx_buf s), tx_len := of_nat (length bs)\<rparr>"

definition prl_reset_soft :: "prl \<Rightarrow> prl" where "prl_reset_soft s = s\<lparr>local_state := SM_INIT\<rparr>"

definition prl_request :: "prl_env \<Rightarrow> prl_req \<Rightarrow> prl \<Rightarrow> prl" where
  "prl_request env r s =
     (case r of
        Send_ctrl t m \<Rightarrow> prl_send_ctrl_msg t m s
      | Send_data t m bs \<Rightarrow> prl_send_data_msg t m (pe_fill bs s)
      | Send_ext t m bs \<Rightarrow> prl_send_ext_data_msg t m (pe_fill bs s)
      | Execute_hard_reset \<Rightarrow> prl_execute_hard_reset env s
      | Hard_reset_done \<Rightarrow> prl_hard_reset_complete s
      | Reset_soft \<Rightarrow> prl_reset_soft s
      | Set_rev t r \<Rightarrow> prl_set_rev t r s
      | Set_default_rev \<Rightarrow> prl_set_default_pd_revision s
      | Reset_msg_ids t \<Rightarrow> prl_reset_msg_ids t s
      | Set_data_role_check b \<Rightarrow> prl_set_data_role_check b s)"

text \<open>Telling the PE something, and what it does in return.\<close>

definition tell_pe :: "prl_env \<Rightarrow> prl_effect \<Rightarrow> prl \<Rightarrow> prl" where
  "tell_pe env e s = (let s1 = emit e s in fold (prl_request env) (env_pe env (effects s1)) s1)"

subsection \<open>Message transmission\<close>

definition increment_msgid_counter :: "prl \<Rightarrow> prl" where
  "increment_msgid_counter s =
     (if NUM_SOP_STAR_TYPES \<le> last_xmit_type s then s
      else s\<lparr>msg_id_counter := (msg_id_counter s)
             [last_xmit_type s := (msg_id_counter s ! last_xmit_type s + 1) AND PD_MESSAGE_ID_COUNT]\<rparr>)"

definition prl_tx_discard_message_entry :: "prl_env \<Rightarrow> prl \<Rightarrow> prl" where
  "prl_tx_discard_message_entry env s =
     tx_to_phy_layer_reset env
       (if PRL_FLAGS_MSG_XMIT \<in> tx_flags s \<or> xmit_status s = TCPC_TX_WAIT \<or> xmit_status s = TCPC_TX_COMPLETE_DISCARDED
        then tell_pe env Pe_report_discard
               (increment_msgid_counter (s\<lparr>tx_flags := tx_flags s - {PRL_FLAGS_MSG_XMIT}\<rparr>))
        else s)"

definition prl_tx_src_source_tx_entry :: "prl \<Rightarrow> prl" where
  "prl_tx_src_source_tx_entry s = emit Update_cc (emit (Select_rp_ok False) s)"

definition prl_tx_layer_reset_for_transmit_entry :: "prl \<Rightarrow> prl" where
  "prl_tx_layer_reset_for_transmit_entry s =
     (if xmit_type s < NUM_SOP_STAR_TYPES then prl_reset_msg_ids (xmit_type s) s else s)"

definition prl_tx_entry :: "prl_env \<Rightarrow> usb_prl_tx_state \<Rightarrow> prl \<Rightarrow> prl" where
  "prl_tx_entry env st =
     (case st of
        PRL_TX_PHY_LAYER_RESET \<Rightarrow> prl_tx_phy_layer_reset_entry env
      | PRL_TX_WAIT_FOR_MESSAGE_REQUEST \<Rightarrow> prl_tx_wait_for_message_request_entry
      | PRL_TX_LAYER_RESET_FOR_TRANSMIT \<Rightarrow> prl_tx_layer_reset_for_transmit_entry
      | PRL_TX_WAIT_FOR_PHY_RESPONSE \<Rightarrow> timer_enable env PR_TIMER_TCPC_TX_TIMEOUT PD_T_TCPC_TX_TIMEOUT
      | PRL_TX_SRC_SOURCE_TX \<Rightarrow> prl_tx_src_source_tx_entry
      | PRL_TX_SNK_START_AMS \<Rightarrow> (\<lambda>s. s)
      | PRL_TX_SRC_PENDING \<Rightarrow> timer_enable env PR_TIMER_SINK_TX PD_T_SINK_TX
      | PRL_TX_SNK_PENDING \<Rightarrow> (\<lambda>s. s)
      | PRL_TX_DISCARD_MESSAGE \<Rightarrow> prl_tx_discard_message_entry env)"

definition set_state_prl_tx :: "prl_env \<Rightarrow> usb_prl_tx_state \<Rightarrow> prl \<Rightarrow> prl" where
  "set_state_prl_tx env new_state s = tx_move env new_state (prl_tx_entry env new_state) s"

definition get_sop_star_header :: "prl_env \<Rightarrow> prl \<Rightarrow> u32" where
  "get_sop_star_header env s =
     (let is_sop_packet = (xmit_type s = TCPCI_MSG_SOP)
      in PD_HEADER (ucast (msg_type s))
           (if is_sop_packet then env_power_role env (effects s) else env_cable_plug env (effects s))
           (if is_sop_packet then env_data_role env (effects s) else 0)
           (msg_id_counter s ! xmit_type s) (ucast (data_objs s)) (rev_code (pd_rev s ! xmit_type s)) (ucast (ext s)))"

text \<open>\<open>tcpm_transmit\<close>; a driver may report the end of the transmission at once.\<close>

definition tcpm_transmit :: "prl_env \<Rightarrow> u32 \<Rightarrow> prl \<Rightarrow> prl" where
  "tcpm_transmit env header s =
     (let s1 = emit (Transmit (xmit_type s) header (tx_chk_buf s)) s
      in case env_phy env (effects s1) of None \<Rightarrow> s1 | Some status \<Rightarrow> s1\<lparr>xmit_status := status\<rparr>)"

definition prl_tx_construct_message :: "prl_env \<Rightarrow> prl \<Rightarrow> prl" where
  "prl_tx_construct_message env s =
     (let header = (if xmit_type s < NUM_SOP_STAR_TYPES then get_sop_star_header env s else 0)
      in tcpm_transmit env header
           (s\<lparr>last_xmit_type := xmit_type s, xmit_status := TCPC_TX_WAIT,
              pdmsg_flags := pdmsg_flags s - {PRL_FLAGS_TX_COMPLETE}\<rparr>))"

text \<open>What several states do with a pending message: reset the ids for a soft reset, or send.\<close>

definition soft_reset_pending :: "prl \<Rightarrow> bool" where
  "soft_reset_pending s = (ucast (msg_type s) = PD_CTRL_SOFT_RESET \<and> tx_len s = 0)"

definition send_pending :: "prl_env \<Rightarrow> prl \<Rightarrow> prl" where
  "send_pending env s =
     (let s1 = s\<lparr>tx_flags := tx_flags s - {PRL_FLAGS_MSG_XMIT}\<rparr>
      in if soft_reset_pending s1 then set_state_prl_tx env PRL_TX_LAYER_RESET_FOR_TRANSMIT s1
         else set_state_prl_tx env PRL_TX_WAIT_FOR_PHY_RESPONSE (prl_tx_construct_message env s1))"

definition leave_ams :: "prl_env \<Rightarrow> prl \<Rightarrow> prl" where
  "leave_ams env s =
     (if \<not> env_local_ams env (effects s) then
        (let s1 = (if PRL_FLAGS_SINK_NG \<in> tx_flags s then emit Update_cc (emit (Select_rp_ok True) s) else s)
         in s1\<lparr>tx_flags := tx_flags s1 - {PRL_FLAGS_SINK_NG, PRL_FLAGS_WAIT_SINK_OK}\<rparr>)
      else s)"

definition prl_tx_wait_for_message_request_run :: "prl_env \<Rightarrow> prl \<Rightarrow> prl" where
  "prl_tx_wait_for_message_request_run env s0 =
     (let s = leave_ams env s0
      in if is_sop_rev30 s \<and> env_local_ams env (effects s) \<and>
            PRL_FLAGS_SINK_NG \<notin> tx_flags s \<and> PRL_FLAGS_WAIT_SINK_OK \<notin> tx_flags s
         then (if env_power_role env (effects s) = 1
               then set_state_prl_tx env PRL_TX_SRC_SOURCE_TX (s\<lparr>tx_flags := insert PRL_FLAGS_SINK_NG (tx_flags s)\<rparr>)
               else set_state_prl_tx env PRL_TX_SNK_START_AMS (s\<lparr>tx_flags := insert PRL_FLAGS_WAIT_SINK_OK (tx_flags s)\<rparr>))
         else if PRL_FLAGS_MSG_XMIT \<in> tx_flags s then send_pending env s else s)"

definition prl_tx_src_source_tx_run :: "prl_env \<Rightarrow> prl \<Rightarrow> prl" where
  "prl_tx_src_source_tx_run env s =
     (if PRL_FLAGS_MSG_XMIT \<in> tx_flags s then set_state_prl_tx env PRL_TX_SRC_PENDING s else s)"

definition prl_tx_snk_start_ams_run :: "prl_env \<Rightarrow> prl \<Rightarrow> prl" where
  "prl_tx_snk_start_ams_run env s =
     (if PRL_FLAGS_MSG_XMIT \<in> tx_flags s then set_state_prl_tx env PRL_TX_SNK_PENDING s else s)"

definition prl_tx_layer_reset_for_transmit_run :: "prl_env \<Rightarrow> prl \<Rightarrow> prl" where
  "prl_tx_layer_reset_for_transmit_run env s =
     set_state_prl_tx env PRL_TX_WAIT_FOR_PHY_RESPONSE (prl_tx_construct_message env s)"

definition prl_tx_wait_for_phy_response_run :: "prl_env \<Rightarrow> prl \<Rightarrow> prl" where
  "prl_tx_wait_for_phy_response_run env s =
     (if xmit_status s = TCPC_TX_COMPLETE_SUCCESS then
        (let s1 = increment_msgid_counter s
         in set_state_prl_tx env PRL_TX_WAIT_FOR_MESSAGE_REQUEST
              (s1\<lparr>pdmsg_flags := insert PRL_FLAGS_TX_COMPLETE (pdmsg_flags s1)\<rparr>))
      else let (s1, expired) = timer_expired env PR_TIMER_TCPC_TX_TIMEOUT s
           in if expired \<or> xmit_status s1 = TCPC_TX_COMPLETE_FAILED
              then set_state_prl_tx env PRL_TX_WAIT_FOR_MESSAGE_REQUEST
                     (increment_msgid_counter (s1\<lparr>pdmsg_flags := insert PRL_FLAGS_TX_ERROR (pdmsg_flags s1)\<rparr>))
              else s1)"

definition prl_tx_src_pending_run :: "prl_env \<Rightarrow> prl \<Rightarrow> prl" where
  "prl_tx_src_pending_run env s =
     (let (s1, expired) = timer_expired env PR_TIMER_SINK_TX s
      in if expired then send_pending env s1 else s1)"

definition prl_tx_snk_pending_run :: "prl_env \<Rightarrow> prl \<Rightarrow> prl" where
  "prl_tx_snk_pending_run env s =
     (if env_frs env (effects s) \<or> env_sink_ok env (effects s) then send_pending env s else s)"

definition prl_tx_run :: "prl_env \<Rightarrow> prl \<Rightarrow> prl" where
  "prl_tx_run env s =
     (case tx_state s of None \<Rightarrow> s | Some st \<Rightarrow>
       (case st of
          PRL_TX_PHY_LAYER_RESET \<Rightarrow> s
        | PRL_TX_WAIT_FOR_MESSAGE_REQUEST \<Rightarrow> prl_tx_wait_for_message_request_run env s
        | PRL_TX_LAYER_RESET_FOR_TRANSMIT \<Rightarrow> prl_tx_layer_reset_for_transmit_run env s
        | PRL_TX_WAIT_FOR_PHY_RESPONSE \<Rightarrow> prl_tx_wait_for_phy_response_run env s
        | PRL_TX_SRC_SOURCE_TX \<Rightarrow> prl_tx_src_source_tx_run env s
        | PRL_TX_SNK_START_AMS \<Rightarrow> prl_tx_snk_start_ams_run env s
        | PRL_TX_SRC_PENDING \<Rightarrow> prl_tx_src_pending_run env s
        | PRL_TX_SNK_PENDING \<Rightarrow> prl_tx_snk_pending_run env s
        | PRL_TX_DISCARD_MESSAGE \<Rightarrow> s))"

subsection \<open>Running a hard reset\<close>

definition prl_hr_send_msg_to_phy :: "prl_env \<Rightarrow> prl \<Rightarrow> prl" where
  "prl_hr_send_msg_to_phy env s =
     tcpm_transmit env 0
       (s\<lparr>xmit_type := TCPCI_MSG_TX_HARD_RESET, xmit_status := TCPC_TX_UNSET,
          pdmsg_flags := pdmsg_flags s - {PRL_FLAGS_TX_COMPLETE}\<rparr>)"

definition prl_hr_wait_for_request_run :: "prl_env \<Rightarrow> prl \<Rightarrow> prl" where
  "prl_hr_wait_for_request_run env s =
     (if PRL_FLAGS_PE_HARD_RESET \<in> hr_flags s \<or> PRL_FLAGS_PORT_PARTNER_HARD_RESET \<in> hr_flags s
      then set_state_prl_hr env PRL_HR_RESET_LAYER s else s)"

definition prl_hr_reset_layer_run :: "prl_env \<Rightarrow> prl \<Rightarrow> prl" where
  "prl_hr_reset_layer_run env s =
     (if PRL_FLAGS_PE_HARD_RESET \<in> hr_flags s
      then set_state_prl_hr env PRL_HR_WAIT_FOR_PHY_HARD_RESET_COMPLETE (prl_hr_send_msg_to_phy env s)
      else set_state_prl_hr env PRL_HR_WAIT_FOR_PE_HARD_RESET_COMPLETE (tell_pe env Pe_got_hard_reset s))"

definition prl_hr_wait_for_phy_hard_reset_complete_run :: "prl_env \<Rightarrow> prl \<Rightarrow> prl" where
  "prl_hr_wait_for_phy_hard_reset_complete_run env s =
     (let (s1, done') = (if PRL_FLAGS_TX_COMPLETE \<in> pdmsg_flags s then (s, True)
                         else timer_expired env PR_TIMER_HARD_RESET_COMPLETE s)
      in if done' then set_state_prl_hr env PRL_HR_WAIT_FOR_PE_HARD_RESET_COMPLETE (tell_pe env Pe_hard_reset_sent s1)
         else s1)"

definition prl_hr_wait_for_pe_hard_reset_complete_run :: "prl_env \<Rightarrow> prl \<Rightarrow> prl" where
  "prl_hr_wait_for_pe_hard_reset_complete_run env s =
     (if PRL_FLAGS_HARD_RESET_COMPLETE \<in> hr_flags s then set_state_prl_hr env PRL_HR_WAIT_FOR_REQUEST s else s)"

definition prl_hr_run :: "prl_env \<Rightarrow> prl \<Rightarrow> prl" where
  "prl_hr_run env s =
     (case hr_state s of None \<Rightarrow> s | Some st \<Rightarrow>
       (case st of
          PRL_HR_WAIT_FOR_REQUEST \<Rightarrow> prl_hr_wait_for_request_run env s
        | PRL_HR_RESET_LAYER \<Rightarrow> prl_hr_reset_layer_run env s
        | PRL_HR_WAIT_FOR_PHY_HARD_RESET_COMPLETE \<Rightarrow> prl_hr_wait_for_phy_hard_reset_complete_run env s
        | PRL_HR_WAIT_FOR_PE_HARD_RESET_COMPLETE \<Rightarrow> prl_hr_wait_for_pe_hard_reset_complete_run env s))"

subsection \<open>Chunked reception\<close>

definition copy_chunk_to_ext :: "prl \<Rightarrow> prl" where
  "copy_chunk_to_ext s =
     (let n = PD_HEADER_CNT (rx_header s) * 4
      in (check (unat n \<le> 28) s)\<lparr>num_bytes_received := n, rx_buf := put_bytes 0 (take (unat n) (rx_chk_buf s)) (rx_buf s), rx_len := n\<rparr>)"

definition received :: "prl \<Rightarrow> prl_effect" where
  "received s = Pe_message_received (rx_header s) (take (unat (rx_len s)) (rx_buf s))"

definition rch_pass_up_message_entry :: "prl_env \<Rightarrow> prl \<Rightarrow> prl" where
  "rch_pass_up_message_entry env s = rch_to_wait env (tell_pe env (received s) s)"

definition rch_requesting_chunk_entry :: "prl \<Rightarrow> prl" where
  "rch_requesting_chunk_entry s =
     (put_chk 0 (le32 (PD_EXT_HEADER (chunk_number_expected s) 1 0)) s)
       \<lparr>data_objs := 1, ext := 1, xmit_type := rx_sop s, tx_flags := insert PRL_FLAGS_MSG_XMIT (tx_flags s)\<rparr>"

definition rch_report_error_entry :: "prl_env \<Rightarrow> prl \<Rightarrow> prl" where
  "rch_report_error_entry env s =
     (if PRL_FLAGS_MSG_RECEIVED \<in> rch_flags s then
        (let s1 = copy_chunk_to_ext (s\<lparr>rch_flags := rch_flags s - {PRL_FLAGS_MSG_RECEIVED}\<rparr>);
             s2 = tell_pe env (received s1) s1
         in tell_pe env (Pe_report_error ERR_RCH_MSG_REC (rx_sop s2)) s2)
      else tell_pe env (Pe_report_error (rch_error s) (rx_sop s)) s)"

definition rch_entry :: "prl_env \<Rightarrow> usb_rch_state \<Rightarrow> prl \<Rightarrow> prl" where
  "rch_entry env st =
     (case st of
        RCH_WAIT_FOR_MESSAGE_FROM_PROTOCOL_LAYER \<Rightarrow> rch_wait_for_message_from_protocol_layer_entry
      | RCH_PASS_UP_MESSAGE \<Rightarrow> rch_pass_up_message_entry env
      | RCH_PROCESSING_EXTENDED_MESSAGE \<Rightarrow> (\<lambda>s. s)
      | RCH_REQUESTING_CHUNK \<Rightarrow> rch_requesting_chunk_entry
      | RCH_WAITING_CHUNK \<Rightarrow> timer_enable env PR_TIMER_CHUNK_SENDER_RESPONSE PD_T_CHUNK_SENDER_RESPONSE
      | RCH_REPORT_ERROR \<Rightarrow> rch_report_error_entry env)"

definition set_state_rch :: "prl_env \<Rightarrow> usb_rch_state \<Rightarrow> prl \<Rightarrow> prl" where
  "set_state_rch env new_state s = rch_move env new_state (rch_entry env new_state) s"

definition rch_fail :: "prl_env \<Rightarrow> pe_error \<Rightarrow> prl \<Rightarrow> prl" where
  "rch_fail env e s = set_state_rch env RCH_REPORT_ERROR (s\<lparr>rch_error := e\<rparr>)"

definition rch_wait_for_message_from_protocol_layer_run :: "prl_env \<Rightarrow> prl \<Rightarrow> prl" where
  "rch_wait_for_message_from_protocol_layer_run env s0 =
     (if PRL_FLAGS_MSG_RECEIVED \<notin> rch_flags s0 then s0
      else let s = s0\<lparr>rch_flags := rch_flags s0 - {PRL_FLAGS_MSG_RECEIVED}\<rparr>
      in if pdmsg_xmit_type_is_rev30 s \<and> PD_HEADER_EXT (rx_header s) \<noteq> 0 then
           (let chunked = (PD_EXT_HEADER_CHUNKED (rx_ext_header s) \<noteq> 0)
            in if PRL_FLAGS_CHUNKING \<in> rch_flags s \<and> chunked
               then set_state_rch env RCH_PROCESSING_EXTENDED_MESSAGE
                      (s\<lparr>chunk_number_expected := 0, num_bytes_received := 0, msg_type := ucast (PD_HEADER_TYPE (rx_header s))\<rparr>)
               else if PRL_FLAGS_CHUNKING \<notin> rch_flags s \<and> \<not> chunked
               then set_state_rch env RCH_PASS_UP_MESSAGE (copy_chunk_to_ext s)
               else rch_fail env ERR_RCH_CHUNKED s)
         else if PD_HEADER_EXT (rx_header s) = 0
         then set_state_rch env RCH_PASS_UP_MESSAGE (copy_chunk_to_ext s)
         else rch_fail env ERR_RCH_CHUNKED s)"

text \<open>The chunk in \<open>rx_chk_buf\<close> is appended to the message in \<open>rx_emsg\<close>.\<close>

definition append_chunk :: "u32 \<Rightarrow> prl \<Rightarrow> prl" where
  "append_chunk byte_num s =
     (check (unat byte_num + 2 \<le> 28) s)
       \<lparr>rx_buf := put_bytes (unat (num_bytes_received s)) (take (unat byte_num) (drop 2 (rx_chk_buf s))) (rx_buf s),
        chunk_number_expected := chunk_number_expected s + 1,
        num_bytes_received := num_bytes_received s + byte_num\<rparr>"

text \<open>How much of what is left the next chunk has.\<close>

definition chunk_bytes :: "u32 \<Rightarrow> u32" where
  "chunk_bytes left = (if PD_MAX_EXTENDED_MSG_CHUNK_LEN \<le> left then PD_MAX_EXTENDED_MSG_CHUNK_LEN else left)"

definition rch_processing_extended_message_run :: "prl_env \<Rightarrow> prl \<Rightarrow> prl" where
  "rch_processing_extended_message_run env s =
     (let exhdr = rx_ext_header s;
          chunk_num = PD_EXT_HEADER_CHUNK_NUM exhdr;
          data_size = PD_EXT_HEADER_DATA_SIZE exhdr
      in if PRL_FLAGS_ABORT \<in> pdmsg_flags s then set_state_rch env RCH_WAIT_FOR_MESSAGE_FROM_PROTOCOL_LAYER s
         else if chunk_num = chunk_number_expected s then
           (let byte_num = chunk_bytes (data_size - num_bytes_received s)
            in if of_nat EXTENDED_BUFFER_SIZE < num_bytes_received s + byte_num then rch_fail env ERR_RCH_CHUNKED s
               else let s1 = append_chunk byte_num s
               in if data_size \<le> num_bytes_received s1
                  then set_state_rch env RCH_PASS_UP_MESSAGE (s1\<lparr>rx_len := num_bytes_received s1\<rparr>)
                  else set_state_rch env RCH_REQUESTING_CHUNK s1)
         else rch_fail env ERR_RCH_CHUNKED s)"

definition rch_requesting_chunk_run :: "prl_env \<Rightarrow> prl \<Rightarrow> prl" where
  "rch_requesting_chunk_run env s =
     (if PRL_FLAGS_TX_COMPLETE \<in> pdmsg_flags s
      then set_state_rch env RCH_WAITING_CHUNK (s\<lparr>pdmsg_flags := pdmsg_flags s - {PRL_FLAGS_TX_COMPLETE}\<rparr>)
      else if PRL_FLAGS_TX_ERROR \<in> pdmsg_flags s then rch_fail env ERR_RCH_CHUNKED s
      else if PRL_FLAGS_MSG_RECEIVED \<in> rch_flags s then set_state_rch env RCH_WAITING_CHUNK s
      else s)"

definition rch_waiting_chunk_run :: "prl_env \<Rightarrow> prl \<Rightarrow> prl" where
  "rch_waiting_chunk_run env s0 =
     (if PRL_FLAGS_MSG_RECEIVED \<in> rch_flags s0 then
        (let s = s0\<lparr>pdmsg_flags := pdmsg_flags s0 - {PRL_FLAGS_TX_COMPLETE}\<rparr>
         in if PD_HEADER_EXT (rx_header s) \<noteq> 0 then
              (if PD_EXT_HEADER_REQ_CHUNK (rx_ext_header s) \<noteq> 0 \<or> PD_EXT_HEADER_CHUNKED (rx_ext_header s) = 0
               then rch_fail env ERR_RCH_CHUNKED s
               else set_state_rch env RCH_PROCESSING_EXTENDED_MESSAGE
                      (s\<lparr>rch_flags := rch_flags s - {PRL_FLAGS_MSG_RECEIVED}\<rparr>))
            else s)
      else let (s1, expired) = timer_expired env PR_TIMER_CHUNK_SENDER_RESPONSE s0
           in if expired then rch_fail env ERR_RCH_CHUNK_WAIT_TIMEOUT s1 else s1)"

definition rch_run :: "prl_env \<Rightarrow> prl \<Rightarrow> prl" where
  "rch_run env s =
     (case rch_state s of None \<Rightarrow> s | Some st \<Rightarrow>
       (case st of
          RCH_WAIT_FOR_MESSAGE_FROM_PROTOCOL_LAYER \<Rightarrow> rch_wait_for_message_from_protocol_layer_run env s
        | RCH_PASS_UP_MESSAGE \<Rightarrow> s
        | RCH_PROCESSING_EXTENDED_MESSAGE \<Rightarrow> rch_processing_extended_message_run env s
        | RCH_REQUESTING_CHUNK \<Rightarrow> rch_requesting_chunk_run env s
        | RCH_WAITING_CHUNK \<Rightarrow> rch_waiting_chunk_run env s
        | RCH_REPORT_ERROR \<Rightarrow> set_state_rch env RCH_WAIT_FOR_MESSAGE_FROM_PROTOCOL_LAYER s))"

subsection \<open>Chunked transmission\<close>

definition prl_copy_msg_to_buffer :: "prl \<Rightarrow> prl" where
  "prl_copy_msg_to_buffer s =
     (if tx_len s = 0 then s\<lparr>data_objs := 0\<rparr>
      else let s1 = s\<lparr>tx_len := if of_nat CHK_BUF_SIZE_BYTES < tx_len s then of_nat CHK_BUF_SIZE_BYTES else tx_len s\<rparr>;
               s2 = put_chk 0 (replicate CHK_BUF_SIZE_BYTES 0) s1;
               s3 = put_chk 0 (take (unat (tx_len s2)) (tx_buf s2)) s2
           in s3\<lparr>data_objs := ucast (drop_bit 2 (tx_len s3 + 3))\<rparr>)"

definition tch_message_received_entry :: "prl_env \<Rightarrow> prl \<Rightarrow> prl" where
  "tch_message_received_entry env s =
     (let s1 = s\<lparr>rch_flags := insert PRL_FLAGS_MSG_RECEIVED (rch_flags s)\<rparr>;
          s2 = (if PRL_FLAGS_MSG_XMIT \<in> tch_flags s1
                then tell_pe env Pe_report_discard (s1\<lparr>tch_flags := tch_flags s1 - {PRL_FLAGS_MSG_XMIT}\<rparr>) else s1)
      in s2\<lparr>data_objs := 0\<rparr>)"

text \<open>A message received in a state that is not waiting for one goes on to \<open>TCH_MESSAGE_RECEIVED\<close>.\<close>

definition tch_to_message_received :: "prl_env \<Rightarrow> prl \<Rightarrow> prl" where
  "tch_to_message_received env s =
     tch_move env TCH_MESSAGE_RECEIVED (tch_message_received_entry env)
       (s\<lparr>tch_flags := tch_flags s - {PRL_FLAGS_MSG_RECEIVED}\<rparr>)"

text \<open>The size of the next chunk to send.\<close>

definition tx_chunk_bytes :: "u16 \<Rightarrow> u16" where
  "tx_chunk_bytes left =
     (if ucast PD_MAX_EXTENDED_MSG_CHUNK_LEN < left then ucast PD_MAX_EXTENDED_MSG_CHUNK_LEN else left)"

definition tch_construct_chunked_message_entry :: "prl_env \<Rightarrow> prl \<Rightarrow> prl" where
  "tch_construct_chunked_message_entry env s =
     (if PRL_FLAGS_MSG_RECEIVED \<in> tch_flags s then tch_to_message_received env s
      else let num = tx_chunk_bytes (ucast (tx_len s - send_offset s));
               off = unat (send_offset s);
               s1 = put_chk 0 (le16 (PD_EXT_HEADER (chunk_number_to_send s) 0 (tx_len s))) s;
               s2 = clear_chunk s1;
               s3 = put_chk 2 (take (unat num) (drop off (tx_buf s2))) (check (off + unat num \<le> EXTENDED_BUFFER_SIZE) s2)
           in s3\<lparr>send_offset := send_offset s3 + ucast num, data_objs := drop_bit 2 (num + 2 + 3),
                 tx_flags := insert PRL_FLAGS_MSG_XMIT (tx_flags s3)\<rparr>)"

definition tch_wait_chunk_request_entry :: "prl_env \<Rightarrow> prl \<Rightarrow> prl" where
  "tch_wait_chunk_request_entry env s =
     timer_enable env PR_TIMER_CHUNK_SENDER_REQUEST PD_T_CHUNK_SENDER_REQUEST
       (s\<lparr>chunk_number_to_send := chunk_number_to_send s + 1\<rparr>)"

definition tch_after_report :: "prl_env \<Rightarrow> prl \<Rightarrow> prl" where
  "tch_after_report env s =
     (if PRL_FLAGS_MSG_RECEIVED \<in> tch_flags s then tch_to_message_received env s else tch_to_wait env s)"

definition tch_message_sent_entry :: "prl_env \<Rightarrow> prl \<Rightarrow> prl" where
  "tch_message_sent_entry env s = tch_after_report env (tell_pe env Pe_message_sent s)"

definition tch_report_error_entry :: "prl_env \<Rightarrow> prl \<Rightarrow> prl" where
  "tch_report_error_entry env s =
     tch_after_report env (tell_pe env (Pe_report_error (tch_error s) (last_xmit_type s)) s)"

definition tch_entry :: "prl_env \<Rightarrow> usb_tch_state \<Rightarrow> prl \<Rightarrow> prl" where
  "tch_entry env st =
     (case st of
        TCH_WAIT_FOR_MESSAGE_REQUEST_FROM_PE \<Rightarrow> tch_wait_for_message_request_from_pe_entry
      | TCH_WAIT_FOR_TRANSMISSION_COMPLETE \<Rightarrow> (\<lambda>s. s)
      | TCH_CONSTRUCT_CHUNKED_MESSAGE \<Rightarrow> tch_construct_chunked_message_entry env
      | TCH_SENDING_CHUNKED_MESSAGE \<Rightarrow> (\<lambda>s. s)
      | TCH_WAIT_CHUNK_REQUEST \<Rightarrow> tch_wait_chunk_request_entry env
      | TCH_MESSAGE_RECEIVED \<Rightarrow> tch_message_received_entry env
      | TCH_MESSAGE_SENT \<Rightarrow> tch_message_sent_entry env
      | TCH_REPORT_ERROR \<Rightarrow> tch_report_error_entry env)"

definition set_state_tch :: "prl_env \<Rightarrow> usb_tch_state \<Rightarrow> prl \<Rightarrow> prl" where
  "set_state_tch env new_state s = tch_move env new_state (tch_entry env new_state) s"

definition tch_fail :: "prl_env \<Rightarrow> pe_error \<Rightarrow> prl \<Rightarrow> prl" where
  "tch_fail env e s = set_state_tch env TCH_REPORT_ERROR (s\<lparr>tch_error := e\<rparr>)"

definition tch_wait_for_message_request_from_pe_run :: "prl_env \<Rightarrow> prl \<Rightarrow> prl" where
  "tch_wait_for_message_request_from_pe_run env s0 =
     (if PRL_FLAGS_MSG_RECEIVED \<in> tch_flags s0 then tch_to_message_received env s0
      else if PRL_FLAGS_MSG_XMIT \<in> tch_flags s0 then
        (let s = s0\<lparr>tch_flags := tch_flags s0 - {PRL_FLAGS_MSG_XMIT}\<rparr>
         in if rch_state s \<noteq> Some RCH_WAIT_FOR_MESSAGE_FROM_PROTOCOL_LAYER then tch_fail env ERR_TCH_XMIT s
            else if pdmsg_xmit_type_is_rev30 s \<and> ext s \<noteq> 0 \<and> PRL_FLAGS_CHUNKING \<in> tch_flags s
            then set_state_tch env TCH_CONSTRUCT_CHUNKED_MESSAGE (s\<lparr>send_offset := 0, chunk_number_to_send := 0\<rparr>)
            else let s1 = prl_copy_msg_to_buffer s
                 in set_state_tch env TCH_WAIT_FOR_TRANSMISSION_COMPLETE
                      (s1\<lparr>tx_flags := insert PRL_FLAGS_MSG_XMIT (tx_flags s1)\<rparr>))
      else s0)"

definition tch_wait_for_transmission_complete_run :: "prl_env \<Rightarrow> prl \<Rightarrow> prl" where
  "tch_wait_for_transmission_complete_run env s =
     (if PRL_FLAGS_TX_COMPLETE \<in> pdmsg_flags s
      then set_state_tch env TCH_MESSAGE_SENT (s\<lparr>pdmsg_flags := pdmsg_flags s - {PRL_FLAGS_TX_COMPLETE}\<rparr>)
      else if PRL_FLAGS_TX_ERROR \<in> pdmsg_flags s
      then tch_fail env ERR_TCH_XMIT (s\<lparr>pdmsg_flags := pdmsg_flags s - {PRL_FLAGS_TX_ERROR}\<rparr>)
      else if PRL_FLAGS_MSG_RECEIVED \<in> tch_flags s \<and> xmit_status s \<noteq> TCPC_TX_COMPLETE_SUCCESS
      then tch_to_message_received env s
      else s)"

definition tch_construct_chunked_message_run :: "prl_env \<Rightarrow> prl \<Rightarrow> prl" where
  "tch_construct_chunked_message_run env s =
     (if PRL_FLAGS_ABORT \<in> pdmsg_flags s then set_state_tch env TCH_WAIT_FOR_MESSAGE_REQUEST_FROM_PE s
      else set_state_tch env TCH_SENDING_CHUNKED_MESSAGE s)"

definition tch_sending_chunked_message_run :: "prl_env \<Rightarrow> prl \<Rightarrow> prl" where
  "tch_sending_chunked_message_run env s =
     (let sent = s\<lparr>pdmsg_flags := pdmsg_flags s - {PRL_FLAGS_TX_COMPLETE}\<rparr>
      in if PRL_FLAGS_TX_ERROR \<in> pdmsg_flags s then tch_fail env ERR_TCH_XMIT s
         else if tx_len s = send_offset s \<and> PRL_FLAGS_TX_COMPLETE \<in> pdmsg_flags s then set_state_tch env TCH_MESSAGE_SENT sent
         else if PRL_FLAGS_MSG_RECEIVED \<in> tch_flags s then tch_to_message_received env s
         else if send_offset s < tx_len s \<and> PRL_FLAGS_TX_COMPLETE \<in> pdmsg_flags s then set_state_tch env TCH_WAIT_CHUNK_REQUEST sent
         else s)"

definition tch_wait_chunk_request_run :: "prl_env \<Rightarrow> prl \<Rightarrow> prl" where
  "tch_wait_chunk_request_run env s0 =
     (if PRL_FLAGS_MSG_RECEIVED \<in> tch_flags s0 then
        (let s = s0\<lparr>tch_flags := tch_flags s0 - {PRL_FLAGS_MSG_RECEIVED}\<rparr>
         in if PD_HEADER_EXT (rx_header s) \<noteq> 0 \<and> PD_EXT_HEADER_REQ_CHUNK (rx_ext_header s) \<noteq> 0
            then (if PD_EXT_HEADER_CHUNK_NUM (rx_ext_header s) = chunk_number_to_send s
                  then set_state_tch env TCH_CONSTRUCT_CHUNKED_MESSAGE s
                  else tch_fail env ERR_TCH_CHUNKED s)
            else set_state_tch env TCH_MESSAGE_RECEIVED s)
      else let (s1, expired) = timer_expired env PR_TIMER_CHUNK_SENDER_REQUEST s0
           in if expired then set_state_tch env TCH_MESSAGE_SENT s1 else s1)"

definition tch_run :: "prl_env \<Rightarrow> prl \<Rightarrow> prl" where
  "tch_run env s =
     (case tch_state s of None \<Rightarrow> s | Some st \<Rightarrow>
       (case st of
          TCH_WAIT_FOR_MESSAGE_REQUEST_FROM_PE \<Rightarrow> tch_wait_for_message_request_from_pe_run env s
        | TCH_WAIT_FOR_TRANSMISSION_COMPLETE \<Rightarrow> tch_wait_for_transmission_complete_run env s
        | TCH_CONSTRUCT_CHUNKED_MESSAGE \<Rightarrow> tch_construct_chunked_message_run env s
        | TCH_SENDING_CHUNKED_MESSAGE \<Rightarrow> tch_sending_chunked_message_run env s
        | TCH_WAIT_CHUNK_REQUEST \<Rightarrow> tch_wait_chunk_request_run env s
        | TCH_MESSAGE_RECEIVED \<Rightarrow> set_state_tch env TCH_WAIT_FOR_MESSAGE_REQUEST_FROM_PE s
        | TCH_MESSAGE_SENT \<Rightarrow> s
        | TCH_REPORT_ERROR \<Rightarrow> s))"

subsection \<open>Reception\<close>

definition CHK_BUF_SIZE :: u32 where "CHK_BUF_SIZE = 7"

definition PD_PLUG_FROM_DFP_UFP :: u32 where "PD_PLUG_FROM_DFP_UFP = 0"

text \<open>The message of \<open>rx_header\<close> and \<open>rx_chk_buf\<close>, just taken from the cache.\<close>

definition ping :: "u32 \<Rightarrow> u32 \<Rightarrow> bool" where "ping cnt type \<longleftrightarrow> cnt = 0 \<and> type = PD_CTRL_PING"

definition prl_rx_soft_reset :: "prl_env \<Rightarrow> prl \<Rightarrow> prl" where
  "prl_rx_soft_reset env s =
     tell_pe env Pe_got_soft_reset
       (tch_to_wait env (rch_to_wait env (tx_to_phy_layer_reset env (prl_reset_msg_ids (rx_sop s) s))))"

definition prl_rx_route :: "prl_env \<Rightarrow> u32 \<Rightarrow> u32 \<Rightarrow> prl \<Rightarrow> prl" where
  "prl_rx_route env cnt type s =
     (if ping cnt type then (let s1 = s\<lparr>rx_len := 0\<rparr> in tell_pe env (received s1) s1)
      else if tch_state s \<noteq> Some TCH_WAIT_FOR_MESSAGE_REQUEST_FROM_PE \<or> PRL_FLAGS_MSG_XMIT \<in> tch_flags s
      then s\<lparr>tch_flags := insert PRL_FLAGS_MSG_RECEIVED (tch_flags s)\<rparr>
      else s\<lparr>rch_flags := insert PRL_FLAGS_MSG_RECEIVED (rch_flags s)\<rparr>)"

definition prl_rx_new_message :: "prl_env \<Rightarrow> u32 \<Rightarrow> u32 \<Rightarrow> int \<Rightarrow> prl \<Rightarrow> prl" where
  "prl_rx_new_message env cnt type msid s =
     (let s1 = (if \<not> ping cnt type \<and> (xmit_status s \<noteq> TCPC_TX_COMPLETE_SUCCESS \<or> PRL_FLAGS_MSG_XMIT \<in> tx_flags s)
                then set_state_prl_tx env PRL_TX_DISCARD_MESSAGE s else s)
      in prl_rx_route env cnt type (s1\<lparr>rx_msg_id := (rx_msg_id s1)[rx_sop s1 := msid]\<rparr>))"

definition prl_rx_message :: "prl_env \<Rightarrow> prl \<Rightarrow> prl" where
  "prl_rx_message env s =
     (let header = rx_header s; type = PD_HEADER_TYPE header; sop = PD_HEADER_GET_SOP header;
          cnt = (if CHK_BUF_SIZE < PD_HEADER_CNT header then CHK_BUF_SIZE else PD_HEADER_CNT header);
          msid = uint (PD_HEADER_ID header)
      in if sop \<noteq> of_nat TCPCI_MSG_SOP \<and> PD_HEADER_PROLE header = PD_PLUG_FROM_DFP_UFP then s
         else if PRL_FLAGS_IGNORE_DATA_ROLE \<notin> rch_flags s \<and> sop = of_nat TCPCI_MSG_SOP \<and>
                 PD_HEADER_DROLE header = env_data_role env (effects s)
         then emit Tc_error_recovery s
         else if cnt = 0 \<and> type = PD_CTRL_SOFT_RESET then prl_rx_soft_reset env s
         else (let s1 = check (rx_sop s < NUM_SOP_STAR_TYPES) s
               in if rx_msg_id s1 ! rx_sop s1 = msid then s1 else prl_rx_new_message env cnt type msid s1))"

definition prl_rx_wait_for_phy_message :: "prl_env \<Rightarrow> prl \<Rightarrow> prl" where
  "prl_rx_wait_for_phy_message env s =
     (if PRL_FLAGS_MSG_RECEIVED \<in> rch_flags s then s
      else case tcpm_dequeue_message (rx_queue s) of
          (q, None) \<Rightarrow> s\<lparr>rx_queue := q\<rparr>
        | (q, Some (header, payload)) \<Rightarrow>
            prl_rx_message env
              ((fill_rx_chk payload (s\<lparr>rx_queue := q\<rparr>))\<lparr>rx_header := header, rx_sop := unat (PD_HEADER_GET_SOP header)\<rparr>))"

subsection \<open>The layer\<close>

definition prl_init :: "prl_env \<Rightarrow> prl \<Rightarrow> prl" where
  "prl_init env s =
     (let s1 = (emit (Select_rp_ok True) (s\<lparr>tx_flags := {}\<rparr>))
                 \<lparr>last_xmit_type := TCPCI_MSG_SOP, xmit_status := TCPC_TX_UNSET, tch_flags := {}, rch_flags := {},
                  pdmsg_flags := {}, hr_flags := {}\<rparr>;
          s2 = reset_all_msg_ids s1;
          s3 = s2\<lparr>ptimers := pd_timer_disable_range (env_port env) PR_TIMER_RANGE (ptimers s2)\<rparr>;
          s4 = tx_to_phy_layer_reset env (s3\<lparr>tx_state := None\<rparr>);
          s5 = rch_to_wait env (s4\<lparr>rch_state := None\<rparr>);
          s6 = tch_to_wait env (s5\<lparr>tch_state := None\<rparr>)
      in set_state_prl_hr env PRL_HR_WAIT_FOR_REQUEST (s6\<lparr>hr_state := None\<rparr>))"

definition prl_run_enabled :: "prl_env \<Rightarrow> prl \<Rightarrow> prl" where
  "prl_run_enabled env s0 =
     (let s = prl_hr_run env s0
      in if hr_state s = Some PRL_HR_WAIT_FOR_REQUEST
         then tch_run env (prl_tx_run env (tch_run env (rch_run env (prl_rx_wait_for_phy_message env s))))
         else s)"

definition prl_run :: "prl_env \<Rightarrow> bool \<Rightarrow> prl \<Rightarrow> prl" where
  "prl_run env en s =
     (if local_state s = SM_PAUSED \<and> \<not> en then s
      else let s1 = (if local_state s = SM_RUN then s else (prl_init env s)\<lparr>local_state := SM_RUN\<rparr>)
           in if \<not> en then (emit (Rx_enable False) s1)\<lparr>local_state := SM_PAUSED\<rparr> else prl_run_enabled env s1)"

definition pd_transmit_complete :: "u64 \<Rightarrow> tcpc_transmit_complete \<Rightarrow> prl \<Rightarrow> prl" where
  "pd_transmit_complete now status s =
     (if status = TCPC_TX_COMPLETE_SUCCESS then s\<lparr>tcpc_tx_success_ts := now\<rparr> else s)\<lparr>xmit_status := status\<rparr>"

text \<open>The calls of the other tasks and drivers, in any order; each has its own environment.\<close>

datatype prl_op =
    Prl_run prl_env bool
  | Pe_requests prl_env prl_req
  | Partner_hard_reset prl_env
  | Phy_message "ec_error_list + pd_msg"
  | Phy_clear
  | Phy_complete u64 tcpc_transmit_complete

fun prl_exec :: "prl_op \<Rightarrow> prl \<Rightarrow> prl" where
  "prl_exec (Prl_run env en) s = prl_run env en s"
| "prl_exec (Pe_requests env r) s = prl_request env r s"
| "prl_exec (Partner_hard_reset env) s = pd_execute_hard_reset env s"
| "prl_exec (Phy_message m) s = s\<lparr>rx_queue := fst (tcpm_enqueue_message m (rx_queue s))\<rparr>"
| "prl_exec Phy_clear s = s\<lparr>rx_queue := tcpm_clear_pending_messages (rx_queue s)\<rparr>"
| "prl_exec (Phy_complete now status) s = pd_transmit_complete now status s"

end
