(* ===== verification/PrlType.thy ===== *)
theory PrlType
  imports Prl
begin

section \<open>The protocol layer keeps within its buffers\<close>

text \<open>
  \<open>prl_wf\<close>: every array has its size, every index and length is within bounds, and no access
  outside an array has happened. Each operation keeps it, by one rule of \<open>prl_wf_intros\<close> per
  function of the code.
\<close>

named_theorems prl_wf_intros

definition chunking :: "prl \<Rightarrow> bool" where
  "chunking s \<longleftrightarrow> tch_state s \<in> Some ` {TCH_CONSTRUCT_CHUNKED_MESSAGE, TCH_SENDING_CHUNKED_MESSAGE, TCH_WAIT_CHUNK_REQUEST}"

definition pd_msg_ok :: "pd_msg \<Rightarrow> bool" where
  "pd_msg_ok m \<longleftrightarrow> PD_HEADER_GET_SOP (fst m) < 5 \<and> length (snd m) = 28"

definition ids_ok :: "int list \<Rightarrow> u32 list \<Rightarrow> bool" where
  "ids_ok rx tx \<longleftrightarrow> length rx = 5 \<and> length tx = 5 \<and> (\<forall>i\<in>set rx. -1 \<le> i \<and> i \<le> 7) \<and> (\<forall>w\<in>set tx. w \<le> 7)"

definition prl_wf :: "prl \<Rightarrow> bool" where
  "prl_wf s \<longleftrightarrow>
     length (tx_chk_buf s) = 28 \<and> length (rx_chk_buf s) = 28 \<and> length (rx_buf s) = EXTENDED_BUFFER_SIZE \<and> length (tx_buf s) = EXTENDED_BUFFER_SIZE \<and>
     length (pd_rev s) = NUM_SOP_STAR_TYPES \<and> ids_ok (rx_msg_id s) (msg_id_counter s) \<and>
     tx_len s \<le> 260 \<and> rx_len s \<le> 260 \<and> num_bytes_received s \<le> 260 \<and> data_objs s \<le> 7 \<and>
     rx_sop s < NUM_SOP_STAR_TYPES \<and>
     length (tq_buffer (rx_queue s)) = 8 \<and> list_all pd_msg_ok (tq_buffer (rx_queue s)) \<and>
     (chunking s \<longrightarrow> send_offset s \<le> tx_len s) \<and> \<not> fault s"

lemma prl_wf_frame [simp]:
  "prl_wf (s\<lparr>local_state := a1\<rparr>) = prl_wf s"
  "prl_wf (s\<lparr>tx_state := a2\<rparr>) = prl_wf s"
  "prl_wf (s\<lparr>hr_state := a3\<rparr>) = prl_wf s"
  "prl_wf (s\<lparr>rch_state := a4\<rparr>) = prl_wf s"
  "prl_wf (s\<lparr>tx_flags := fl\<rparr>) = prl_wf s"
  "prl_wf (s\<lparr>hr_flags := fl\<rparr>) = prl_wf s"
  "prl_wf (s\<lparr>rch_flags := fl\<rparr>) = prl_wf s"
  "prl_wf (s\<lparr>tch_flags := fl\<rparr>) = prl_wf s"
  "prl_wf (s\<lparr>pdmsg_flags := fl\<rparr>) = prl_wf s"
  "prl_wf (s\<lparr>rch_error := e\<rparr>) = prl_wf s"
  "prl_wf (s\<lparr>tch_error := e\<rparr>) = prl_wf s"
  "prl_wf (s\<lparr>last_xmit_type := n\<rparr>) = prl_wf s"
  "prl_wf (s\<lparr>xmit_status := c\<rparr>) = prl_wf s"
  "prl_wf (s\<lparr>xmit_type := n\<rparr>) = prl_wf s"
  "prl_wf (s\<lparr>msg_type := b\<rparr>) = prl_wf s"
  "prl_wf (s\<lparr>ext := b\<rparr>) = prl_wf s"
  "prl_wf (s\<lparr>chunk_number_expected := w\<rparr>) = prl_wf s"
  "prl_wf (s\<lparr>chunk_number_to_send := w\<rparr>) = prl_wf s"
  "prl_wf (s\<lparr>rx_header := w\<rparr>) = prl_wf s"
  "prl_wf (s\<lparr>tcpc_tx_success_ts := t\<rparr>) = prl_wf s"
  "prl_wf (s\<lparr>ptimers := tm\<rparr>) = prl_wf s"
  "prl_wf (s\<lparr>effects := ef\<rparr>) = prl_wf s"
  by (simp_all add: prl_wf_def chunking_def)

lemma prl_wf_emit [prl_wf_intros]: "prl_wf s \<Longrightarrow> prl_wf (emit e s)"
  by (simp add: emit_def)

lemma prl_wf_timer_enable [prl_wf_intros]: "prl_wf s \<Longrightarrow> prl_wf (timer_enable env t us s)"
  by (simp add: timer_enable_def)

lemma prl_wf_timer_disable [prl_wf_intros]: "prl_wf s \<Longrightarrow> prl_wf (timer_disable env t s)"
  by (simp add: timer_disable_def)

lemma prl_wf_timer_expired [prl_wf_intros]: "prl_wf s \<Longrightarrow> prl_wf (fst (timer_expired env t s))"
  by (simp add: timer_expired_def split: prod.split)

lemma prl_wf_check [prl_wf_intros]: "ok \<Longrightarrow> prl_wf s \<Longrightarrow> prl_wf (check ok s)"
  by (simp add: check_def)

lemma length_put_bytes [simp]: "off + length bs \<le> length buf \<Longrightarrow> length (put_bytes off bs buf) = length buf"
  by (simp add: put_bytes_def)

lemma prl_wf_put_chk [prl_wf_intros]: "off + length bs \<le> 28 \<Longrightarrow> prl_wf s \<Longrightarrow> prl_wf (put_chk off bs s)"
  by (auto simp: put_chk_def check_def prl_wf_def chunking_def)

lemma prl_wf_fill_rx_chk [prl_wf_intros]: "length bs \<le> 28 \<Longrightarrow> prl_wf s \<Longrightarrow> prl_wf (fill_rx_chk bs s)"
  by (auto simp: fill_rx_chk_def check_def prl_wf_def chunking_def)

lemma prl_wf_data_objs [prl_wf_intros]: "n \<le> 7 \<Longrightarrow> prl_wf s \<Longrightarrow> prl_wf (s\<lparr>data_objs := n\<rparr>)"
  by (simp add: prl_wf_def chunking_def)

lemma prl_wf_rx_len [prl_wf_intros]: "n \<le> 260 \<Longrightarrow> prl_wf s \<Longrightarrow> prl_wf (s\<lparr>rx_len := n\<rparr>)"
  by (simp add: prl_wf_def chunking_def)

lemma prl_wf_num_bytes [prl_wf_intros]: "n \<le> 260 \<Longrightarrow> prl_wf s \<Longrightarrow> prl_wf (s\<lparr>num_bytes_received := n\<rparr>)"
  by (simp add: prl_wf_def chunking_def)

lemma ids_ok_update:
  assumes "ids_ok rx tx" "-1 \<le> i" "i \<le> 7" "w \<le> 7"
  shows "ids_ok (rx[n := i]) (tx[m := w])" "ids_ok rx (tx[m := w])" "ids_ok (rx[n := i]) tx"
  using assms set_update_subset_insert [of rx n i] set_update_subset_insert [of tx m w]
  by (auto simp: ids_ok_def)

lemma prl_wf_reset_msg_ids [prl_wf_intros]: "t < 5 \<Longrightarrow> prl_wf s \<Longrightarrow> prl_wf (prl_reset_msg_ids t s)"
  by (auto simp: prl_reset_msg_ids_def check_def prl_wf_def chunking_def NUM_SOP_STAR_TYPES_def intro!: ids_ok_update)

lemma prl_wf_set_rev [prl_wf_intros]: "t < 5 \<Longrightarrow> prl_wf s \<Longrightarrow> prl_wf (prl_set_rev t r s)"
  by (auto simp: prl_set_rev_def check_def prl_wf_def chunking_def NUM_SOP_STAR_TYPES_def)

lemma prl_wf_tch_state [prl_wf_intros]:
  "prl_wf s \<Longrightarrow> st \<notin> {TCH_CONSTRUCT_CHUNKED_MESSAGE, TCH_SENDING_CHUNKED_MESSAGE, TCH_WAIT_CHUNK_REQUEST} \<or>
     send_offset s \<le> tx_len s \<Longrightarrow> prl_wf (s\<lparr>tch_state := Some st\<rparr>)"
  by (auto simp: prl_wf_def chunking_def)

lemma prl_wf_tch_none [prl_wf_intros]: "prl_wf s \<Longrightarrow> prl_wf (s\<lparr>tch_state := None\<rparr>)"
  by (auto simp: prl_wf_def chunking_def)

subsection \<open>Transitions and requests\<close>

text \<open>Rules for a transition whose entry routine keeps \<open>prl_wf\<close>.\<close>

lemma prl_wf_tx_exit [prl_wf_intros]: "prl_wf s \<Longrightarrow> prl_wf (prl_tx_exit env s)"
  by (simp add: prl_tx_exit_def prl_wf_intros)

lemma prl_wf_tx_move [prl_wf_intros]:
  "(\<And>t. prl_wf t \<Longrightarrow> prl_wf (entry t)) \<Longrightarrow> prl_wf s \<Longrightarrow> prl_wf (tx_move env st entry s)"
  by (simp add: tx_move_def prl_wf_intros)

lemma prl_wf_tx_to_wait [prl_wf_intros]: "prl_wf s \<Longrightarrow> prl_wf (tx_to_wait env s)"
  unfolding tx_to_wait_def by (rule prl_wf_tx_move) (simp_all add: prl_tx_wait_for_message_request_entry_def)

lemma prl_wf_tx_to_phy_layer_reset [prl_wf_intros]: "prl_wf s \<Longrightarrow> prl_wf (tx_to_phy_layer_reset env s)"
  unfolding tx_to_phy_layer_reset_def by (rule prl_wf_tx_move) (simp_all add: prl_tx_phy_layer_reset_entry_def prl_wf_intros)

lemma prl_wf_rch_exit [prl_wf_intros]: "prl_wf s \<Longrightarrow> prl_wf (rch_exit env s)"
  by (simp add: rch_exit_def prl_wf_intros)

lemma prl_wf_rch_move [prl_wf_intros]:
  "(\<And>t. prl_wf t \<Longrightarrow> prl_wf (entry t)) \<Longrightarrow> prl_wf s \<Longrightarrow> prl_wf (rch_move env st entry s)"
  by (simp add: rch_move_def prl_wf_intros)

lemma prl_wf_rch_to_wait [prl_wf_intros]: "prl_wf s \<Longrightarrow> prl_wf (rch_to_wait env s)"
  unfolding rch_to_wait_def by (rule prl_wf_rch_move) (simp_all add: rch_wait_for_message_from_protocol_layer_entry_def)

lemma prl_wf_tch_exit [prl_wf_intros]: "prl_wf s \<Longrightarrow> prl_wf (tch_exit env s)"
  by (simp add: tch_exit_def prl_wf_intros)

lemma tch_exit_frame [simp]:
  "send_offset (tch_exit env s) = send_offset s" "tx_len (tch_exit env s) = tx_len s"
  "tch_flags (tch_exit env s) = tch_flags s"
  by (simp_all add: tch_exit_def timer_disable_def)

lemma prl_wf_tch_move [prl_wf_intros]:
  "(\<And>t. prl_wf t \<Longrightarrow> prl_wf (entry t)) \<Longrightarrow> prl_wf s \<Longrightarrow>
   st \<notin> {TCH_CONSTRUCT_CHUNKED_MESSAGE, TCH_SENDING_CHUNKED_MESSAGE, TCH_WAIT_CHUNK_REQUEST} \<or> send_offset s \<le> tx_len s \<Longrightarrow>
   prl_wf (tch_move env st entry s)"
  by (simp add: tch_move_def prl_wf_tch_state prl_wf_tch_exit)

lemma prl_wf_tch_to_wait [prl_wf_intros]: "prl_wf s \<Longrightarrow> prl_wf (tch_to_wait env s)"
  unfolding tch_to_wait_def by (rule prl_wf_tch_move) (simp_all add: tch_wait_for_message_request_from_pe_entry_def)

lemma prl_wf_reset_all_msg_ids [prl_wf_intros]: "prl_wf s \<Longrightarrow> prl_wf (reset_all_msg_ids s)"
  by (simp add: reset_all_msg_ids_def NUM_SOP_STAR_TYPES_def upt_rec prl_wf_intros)

lemma prl_wf_set_default_pd_revision [prl_wf_intros]: "prl_wf s \<Longrightarrow> prl_wf (prl_set_default_pd_revision s)"
  by (simp add: prl_set_default_pd_revision_def prl_wf_def chunking_def)

lemma prl_wf_set_state_prl_hr [prl_wf_intros]: "prl_wf s \<Longrightarrow> prl_wf (set_state_prl_hr env st s)"
  by (cases st)
    (simp_all add: set_state_prl_hr_def prl_hr_exit_def prl_hr_entry_def prl_hr_wait_for_request_entry_def
      prl_hr_reset_layer_entry_def prl_hr_wait_for_phy_hard_reset_complete_entry_def
      prl_hr_wait_for_pe_hard_reset_complete_exit_def Let_def prl_wf_intros)

lemma prl_wf_execute_hard_reset [prl_wf_intros]: "prl_wf s \<Longrightarrow> prl_wf (prl_execute_hard_reset env s)"
  by (simp add: prl_execute_hard_reset_def prl_wf_intros)

lemma prl_wf_pd_execute_hard_reset [prl_wf_intros]: "prl_wf s \<Longrightarrow> prl_wf (pd_execute_hard_reset env s)"
  by (simp add: pd_execute_hard_reset_def prl_wf_intros)

text \<open>What a request must respect: types are SOP* types, and data fits the buffer.\<close>

fun req_ok :: "prl_req \<Rightarrow> bool" where
  "req_ok (Send_data t m bs) = (length bs \<le> 260)"
| "req_ok (Send_ext t m bs) = (length bs \<le> 260)"
| "req_ok (Set_rev t r) = (t < 5)"
| "req_ok (Reset_msg_ids t) = (t < 5)"
| "req_ok _ = True"

fun sends :: "prl_req \<Rightarrow> bool" where
  "sends (Send_ctrl t m) = True"
| "sends (Send_data t m bs) = True"
| "sends (Send_ext t m bs) = True"
| "sends _ = False"

lemma prl_wf_pe_fill: "length bs \<le> 260 \<Longrightarrow> \<not> chunking s \<Longrightarrow> prl_wf s \<Longrightarrow> prl_wf (pe_fill bs s)"
  by (auto simp: pe_fill_def check_def prl_wf_def chunking_def EXTENDED_BUFFER_SIZE_def word_le_nat_alt unat_of_nat
      intro: order_trans [OF mod_less_eq_dividend])

lemma prl_wf_request:
  assumes "prl_wf s" "req_ok r" "sends r \<longrightarrow> \<not> chunking s"
  shows "prl_wf (prl_request env r s)"
proof (cases r)
  case (Send_ctrl t m)
  then show ?thesis using assms by (simp add: prl_request_def prl_send_ctrl_msg_def prl_wf_def chunking_def)
qed (use assms in \<open>simp_all add: prl_request_def prl_send_data_msg_def prl_send_ext_data_msg_def prl_wf_pe_fill
    prl_hard_reset_complete_def prl_reset_soft_def prl_set_data_role_check_def prl_wf_intros\<close>)

text \<open>No request starts a chunked transmission.\<close>

lemma tch_state_frame [simp]:
  "tch_state (emit e s) = tch_state s"
  "tch_state (check ok s) = tch_state s"
  "tch_state (timer_enable env t us s) = tch_state s"
  "tch_state (timer_disable env t s) = tch_state s"
  "tch_state (prl_reset_msg_ids n s) = tch_state s"
  "tch_state (prl_tx_exit env s) = tch_state s"
  "tch_state (rch_exit env s) = tch_state s"
  "tch_state (tch_exit env s) = tch_state s"
  "tch_state (prl_set_default_pd_revision s) = tch_state s"
  by (simp_all add: emit_def check_def timer_enable_def timer_disable_def prl_reset_msg_ids_def prl_tx_exit_def
      rch_exit_def tch_exit_def prl_set_default_pd_revision_def)

lemma tch_state_moves [simp]:
  "tch_state (tx_to_wait env s) = tch_state s"
  "tch_state (tx_to_phy_layer_reset env s) = tch_state s"
  "tch_state (rch_to_wait env s) = tch_state s"
  "tch_state (tch_to_wait env s) = Some TCH_WAIT_FOR_MESSAGE_REQUEST_FROM_PE"
  "tch_state (reset_all_msg_ids s) = tch_state s"
  by (simp_all add: tx_to_wait_def tx_to_phy_layer_reset_def rch_to_wait_def tch_to_wait_def tx_move_def rch_move_def
      tch_move_def prl_tx_wait_for_message_request_entry_def prl_tx_phy_layer_reset_entry_def
      rch_wait_for_message_from_protocol_layer_entry_def tch_wait_for_message_request_from_pe_entry_def
      reset_all_msg_ids_def NUM_SOP_STAR_TYPES_def upt_rec)

lemma tch_state_hr_exit:
  "tch_state (prl_hr_exit env s) =
     (if hr_state s = Some PRL_HR_WAIT_FOR_PE_HARD_RESET_COMPLETE then Some TCH_WAIT_FOR_MESSAGE_REQUEST_FROM_PE else tch_state s)"
  by (simp add: prl_hr_exit_def prl_hr_wait_for_pe_hard_reset_complete_exit_def)

lemma tch_state_hr_entry [simp]: "tch_state (prl_hr_entry env st s) = tch_state s"
  by (cases st) (simp_all add: prl_hr_entry_def prl_hr_wait_for_request_entry_def prl_hr_reset_layer_entry_def
      prl_hr_wait_for_phy_hard_reset_complete_entry_def Let_def)

lemma not_chunking_set_state_prl_hr: "\<not> chunking s \<Longrightarrow> \<not> chunking (set_state_prl_hr env st s)"
  by (auto simp: set_state_prl_hr_def chunking_def tch_state_hr_exit)

lemma not_chunking_request: "\<not> chunking s \<Longrightarrow> \<not> chunking (prl_request env r s)"
proof (cases r)
  case Execute_hard_reset
  assume "\<not> chunking s"
  then have "\<not> chunking (s\<lparr>hr_flags := fl\<rparr>)" for fl by (simp add: chunking_def)
  then show ?thesis
    using \<open>\<not> chunking s\<close> by (simp add: Execute_hard_reset prl_request_def prl_execute_hard_reset_def not_chunking_set_state_prl_hr)
qed (simp_all add: chunking_def prl_request_def prl_send_ctrl_msg_def prl_send_data_msg_def prl_send_ext_data_msg_def
    pe_fill_def prl_hard_reset_complete_def prl_reset_soft_def prl_set_rev_def prl_set_default_pd_revision_def
    prl_set_data_role_check_def)

text \<open>
  What the layer relies on of the policy engine: its requests are well formed, and called back it
  sends nothing, but for the answer to a soft reset.
\<close>

definition pe_ok :: "prl_env \<Rightarrow> bool" where
  "pe_ok env \<longleftrightarrow> (\<forall>h. \<forall>r\<in>set (env_pe env h). req_ok r \<and> (sends r \<longrightarrow> (\<exists>t. h = Pe_got_soft_reset # t)))"

lemma prl_wf_requests:
  assumes "\<forall>r\<in>set rs. req_ok r \<and> (sends r \<longrightarrow> \<not> chunking s)" "prl_wf s"
  shows "prl_wf (fold (prl_request env) rs s)"
  using assms
proof (induction rs arbitrary: s)
  case (Cons r rs)
  have "\<forall>q\<in>set rs. req_ok q \<and> (sends q \<longrightarrow> \<not> chunking (prl_request env r s))"
    using Cons.prems(1) not_chunking_request by auto
  moreover have "prl_wf (prl_request env r s)" using Cons.prems by (intro prl_wf_request) auto
  ultimately have "prl_wf (fold (prl_request env) rs (prl_request env r s))" by (rule Cons.IH)
  then show ?case by simp
qed simp

lemma prl_wf_tell_pe [prl_wf_intros]:
  assumes "pe_ok env" "e \<noteq> Pe_got_soft_reset \<or> \<not> chunking s" "prl_wf s"
  shows "prl_wf (tell_pe env e s)"
  unfolding tell_pe_def Let_def
proof (rule prl_wf_requests)
  show "\<forall>r\<in>set (env_pe env (effects (emit e s))). req_ok r \<and> (sends r \<longrightarrow> \<not> chunking (emit e s))"
    using assms(1,2) by (force simp: pe_ok_def emit_def chunking_def)
qed (use assms(3) prl_wf_emit in blast)

subsection \<open>Transmission and hard reset\<close>

lemma prl_wf_increment [prl_wf_intros]: "prl_wf s \<Longrightarrow> prl_wf (increment_msgid_counter s)"
proof -
  assume wf: "prl_wf s"
  have "(w + 1 :: u32) AND 7 \<le> 7" for w by (simp add: word_and_le1)
  then have "ids_ok (rx_msg_id s) ((msg_id_counter s)[n := (msg_id_counter s ! n + 1) AND 7])" for n
    using wf by (auto simp: prl_wf_def intro!: ids_ok_update(2) [where i = 0])
  then show ?thesis
    using wf by (simp add: increment_msgid_counter_def PD_MESSAGE_ID_COUNT_def prl_wf_def chunking_def)
qed

lemma prl_wf_set_state_prl_tx [prl_wf_intros]: "pe_ok env \<Longrightarrow> prl_wf s \<Longrightarrow> prl_wf (set_state_prl_tx env st s)"
  unfolding set_state_prl_tx_def
  by (rule prl_wf_tx_move, cases st)
    (simp_all add: prl_tx_entry_def prl_tx_phy_layer_reset_entry_def prl_tx_wait_for_message_request_entry_def
      prl_tx_layer_reset_for_transmit_entry_def prl_tx_src_source_tx_entry_def prl_tx_discard_message_entry_def
      NUM_SOP_STAR_TYPES_def prl_wf_intros)

lemma prl_wf_tcpm_transmit [prl_wf_intros]: "prl_wf s \<Longrightarrow> prl_wf (tcpm_transmit env h s)"
  by (simp add: tcpm_transmit_def Let_def prl_wf_intros split: option.split)

lemma prl_wf_construct [prl_wf_intros]: "prl_wf s \<Longrightarrow> prl_wf (prl_tx_construct_message env s)"
  by (simp add: prl_tx_construct_message_def Let_def prl_wf_intros)

lemma prl_wf_send_pending [prl_wf_intros]: "pe_ok env \<Longrightarrow> prl_wf s \<Longrightarrow> prl_wf (send_pending env s)"
  by (simp add: send_pending_def Let_def prl_wf_intros)

lemma prl_wf_leave_ams [prl_wf_intros]: "prl_wf s \<Longrightarrow> prl_wf (leave_ams env s)"
  by (simp add: leave_ams_def Let_def prl_wf_intros)

lemma prl_wf_tx_run [prl_wf_intros]: "pe_ok env \<Longrightarrow> prl_wf s \<Longrightarrow> prl_wf (prl_tx_run env s)"
  by (simp add: prl_tx_run_def prl_tx_wait_for_message_request_run_def
      prl_tx_src_source_tx_run_def prl_tx_snk_start_ams_run_def prl_tx_layer_reset_for_transmit_run_def
      prl_tx_wait_for_phy_response_run_def prl_tx_src_pending_run_def prl_tx_snk_pending_run_def Let_def split_beta
      prl_wf_intros split: option.split usb_prl_tx_state.split)

lemma prl_wf_hr_run [prl_wf_intros]: "pe_ok env \<Longrightarrow> prl_wf s \<Longrightarrow> prl_wf (prl_hr_run env s)"
  by (simp add: prl_hr_run_def prl_hr_wait_for_request_run_def prl_hr_reset_layer_run_def prl_hr_send_msg_to_phy_def
      prl_hr_wait_for_phy_hard_reset_complete_run_def prl_hr_wait_for_pe_hard_reset_complete_run_def Let_def split_beta
      prl_wf_intros split: option.split usb_prl_hr_state.split)

subsection \<open>Chunked reception\<close>

lemma header_cnt_le: "PD_HEADER_CNT h \<le> 7"
  by (simp add: PD_HEADER_CNT_def word_and_le1)

lemma header_cnt_bytes: "unat (PD_HEADER_CNT h * 4) = unat (PD_HEADER_CNT h) * 4" "unat (PD_HEADER_CNT h * 4) \<le> 28"
proof -
  have "unat (PD_HEADER_CNT h) \<le> 7" using header_cnt_le [of h] by (simp add: word_le_nat_alt)
  then show "unat (PD_HEADER_CNT h * 4) = unat (PD_HEADER_CNT h) * 4" "unat (PD_HEADER_CNT h * 4) \<le> 28"
    by (simp_all add: unat_word_ariths)
qed

lemma length_rx_chk_buf: "prl_wf s \<Longrightarrow> length (rx_chk_buf s) = 28"
  by (simp add: prl_wf_def)

lemma prl_wf_copy_chunk_to_ext [prl_wf_intros]:
  assumes "prl_wf s"
  shows "prl_wf (copy_chunk_to_ext s)"
proof -
  have "PD_HEADER_CNT (rx_header s) * 4 \<le> 28" using header_cnt_bytes(2) by (simp add: word_le_nat_alt)
  then have "PD_HEADER_CNT (rx_header s) * 4 \<le> 260" by (rule order_trans) simp
  then show ?thesis
    using assms header_cnt_bytes(2) [of "rx_header s"] length_rx_chk_buf [OF assms]
    by (simp add: copy_chunk_to_ext_def Let_def check_def prl_wf_def chunking_def EXTENDED_BUFFER_SIZE_def)
qed

lemma prl_wf_rch_entry: "pe_ok env \<Longrightarrow> prl_wf s \<Longrightarrow> prl_wf (rch_entry env st s)"
  by (cases st)
    (simp_all add: rch_entry_def rch_wait_for_message_from_protocol_layer_entry_def rch_pass_up_message_entry_def received_def
      rch_requesting_chunk_entry_def rch_report_error_entry_def Let_def le32_def prl_wf_intros)

lemma prl_wf_set_state_rch [prl_wf_intros]: "pe_ok env \<Longrightarrow> prl_wf s \<Longrightarrow> prl_wf (set_state_rch env st s)"
  unfolding set_state_rch_def by (rule prl_wf_rch_move) (simp_all add: prl_wf_rch_entry)

lemma prl_wf_rch_fail [prl_wf_intros]: "pe_ok env \<Longrightarrow> prl_wf s \<Longrightarrow> prl_wf (rch_fail env e s)"
  by (simp add: rch_fail_def prl_wf_intros)

lemma prl_wf_append_chunk:
  assumes "prl_wf s" "b \<le> 26" "num_bytes_received s + b \<le> 260"
  shows "prl_wf (append_chunk b s)"
proof -
  have n: "unat (num_bytes_received s) \<le> 260" "unat b \<le> 26"
    using assms(1,2) by (simp_all add: prl_wf_def word_le_nat_alt)
  have "unat (num_bytes_received s + b) \<le> 260" using assms(3) by (simp add: word_le_nat_alt)
  then have "unat (num_bytes_received s) + unat b \<le> 260" using n by (simp add: unat_word_ariths)
  then show ?thesis
    using assms n length_rx_chk_buf [OF assms(1)]
    by (simp add: append_chunk_def check_def prl_wf_def chunking_def EXTENDED_BUFFER_SIZE_def)
qed

lemma prl_wf_rch_processing:
  assumes "pe_ok env" "prl_wf s"
  shows "prl_wf (rch_processing_extended_message_run env s)"
proof -
  have b: "chunk_bytes l \<le> 26" for l by (auto simp: chunk_bytes_def PD_MAX_EXTENDED_MSG_CHUNK_LEN_def)
  have "num_bytes_received (append_chunk b s) = num_bytes_received s + b" for b by (simp add: append_chunk_def check_def)
  then show ?thesis
    using assms prl_wf_append_chunk [OF assms(2) b]
    by (simp add: rch_processing_extended_message_run_def Let_def EXTENDED_BUFFER_SIZE_def linorder_not_less prl_wf_intros)
qed

lemma prl_wf_rch_run [prl_wf_intros]: "pe_ok env \<Longrightarrow> prl_wf s \<Longrightarrow> prl_wf (rch_run env s)"
  by (simp add: rch_run_def rch_wait_for_message_from_protocol_layer_run_def rch_requesting_chunk_run_def
      rch_waiting_chunk_run_def prl_wf_rch_processing Let_def split_beta prl_wf_intros
      split: option.split usb_rch_state.split)

subsection \<open>Chunked transmission\<close>

lemma prl_wf_tx_len: "n \<le> 260 \<Longrightarrow> \<not> chunking s \<Longrightarrow> prl_wf s \<Longrightarrow> prl_wf (s\<lparr>tx_len := n\<rparr>)"
  by (simp add: prl_wf_def chunking_def)

lemma prl_wf_copy_msg [prl_wf_intros]:
  assumes "\<not> chunking s" "prl_wf s"
  shows "prl_wf (prl_copy_msg_to_buffer s)"
proof (cases "tx_len s = 0")
  case False
  define n where "n = (if 28 < tx_len s then 28 else tx_len s)"
  have n: "n \<le> 28" by (auto simp: n_def)
  then have n': "unat n \<le> 28" "n \<le> 260" "unat (n + 3) = unat n + 3" by (auto simp: word_le_nat_alt unat_word_ariths)
  have "unat (drop_bit 2 (n + 3)) \<le> 7" using n' by (simp add: unat_drop_bit_eq drop_bit_eq_div unat_div)
  then have d: "(ucast (drop_bit 2 (n + 3)) :: u16) \<le> 7"
    by (simp add: word_le_nat_alt unsigned_ucast_eq) (rule order_trans [OF take_bit_nat_less_eq_self])
  define s3 where "s3 = put_chk 0 (take (unat n) (tx_buf s)) (put_chk 0 (replicate CHK_BUF_SIZE_BYTES 0) (s\<lparr>tx_len := n\<rparr>))"
  have "prl_copy_msg_to_buffer s = s3\<lparr>data_objs := ucast (drop_bit 2 (n + 3))\<rparr>"
    using False by (simp add: prl_copy_msg_to_buffer_def s3_def n_def Let_def CHK_BUF_SIZE_BYTES_def put_chk_def check_def)
  moreover have "prl_wf s3"
    unfolding s3_def using assms n'
    by (intro prl_wf_put_chk prl_wf_tx_len) (simp_all add: CHK_BUF_SIZE_BYTES_def)
  ultimately show ?thesis using d by (simp add: prl_wf_data_objs)
qed (use assms in \<open>simp add: prl_copy_msg_to_buffer_def prl_wf_intros\<close>)

lemma prl_wf_tch_message_received [prl_wf_intros]: "pe_ok env \<Longrightarrow> prl_wf s \<Longrightarrow> prl_wf (tch_message_received_entry env s)"
  by (simp add: tch_message_received_entry_def Let_def prl_wf_intros)

lemma prl_wf_tch_to_message_received [prl_wf_intros]: "pe_ok env \<Longrightarrow> prl_wf s \<Longrightarrow> prl_wf (tch_to_message_received env s)"
  by (simp add: tch_to_message_received_def prl_wf_intros)

text \<open>A chunk: its size, and what it leaves.\<close>

lemma chunk_to_send:
  fixes len off :: u32
  assumes "off \<le> len" "len \<le> 260"
  defines "num \<equiv> tx_chunk_bytes (ucast (len - off))"
  shows "unat num = min 26 (unat len - unat off)" "unat (off + ucast num) = unat off + unat num"
    "unat off + unat num \<le> unat len" "drop_bit 2 (num + 2 + 3) \<le> 7"
proof -
  have le: "unat off \<le> unat len" "unat len \<le> 260" using assms(1,2) by (simp_all add: word_le_nat_alt)
  define left where "left = (ucast (len - off) :: u16)"
  have l: "unat left = unat len - unat off"
    using le by (simp add: left_def unsigned_ucast_eq unat_sub [OF assms(1)] take_bit_eq_mod)
  have "unat (ucast PD_MAX_EXTENDED_MSG_CHUNK_LEN :: u16) = 26" by (simp add: PD_MAX_EXTENDED_MSG_CHUNK_LEN_def)
  then show num: "unat num = min 26 (unat len - unat off)" using l by (auto simp: num_def tx_chunk_bytes_def word_less_nat_alt simp flip: left_def)
  then show "unat off + unat num \<le> unat len" using le by simp
  have "unat (ucast num :: u32) = unat num" by (simp add: unsigned_ucast_eq take_bit_eq_mod)
      (use num in simp)
  then show "unat (off + ucast num) = unat off + unat num"
    using le num by (simp add: unat_word_ariths)
  have "unat (num + 2 + 3) = unat num + 5" using num by (simp add: unat_word_ariths)
  then show "drop_bit 2 (num + 2 + 3) \<le> 7"
    using num by (simp add: word_le_nat_alt unat_drop_bit_eq drop_bit_eq_div unat_div)
qed

lemma prl_wf_tch_construct:
  assumes "pe_ok env" "prl_wf s" "send_offset s \<le> tx_len s"
  shows "prl_wf (tch_construct_chunked_message_entry env s)"
proof (cases "PRL_FLAGS_MSG_RECEIVED \<in> tch_flags s")
  case False
  define num where "num = tx_chunk_bytes (ucast (tx_len s - send_offset s))"
  have len: "tx_len s \<le> 260" using assms(2) by (simp add: prl_wf_def)
  note num = chunk_to_send [OF assms(3) len, folded num_def]
  have "unat (tx_len s) \<le> 260" using len by (simp add: word_le_nat_alt)
  then have room: "unat (send_offset s) + unat num \<le> 260" "unat num \<le> 26" using num by simp_all
  have "send_offset s + ucast num \<le> tx_len s" using num by (simp add: word_le_nat_alt)
  then show ?thesis
    using False assms(2) num(4) room
    by (simp add: tch_construct_chunked_message_entry_def Let_def put_chk_def clear_chunk_def check_def le16_def
        prl_wf_def chunking_def EXTENDED_BUFFER_SIZE_def flip: num_def)
qed (use assms in \<open>simp add: tch_construct_chunked_message_entry_def prl_wf_intros\<close>)

lemma prl_wf_chunking: "prl_wf s \<Longrightarrow> chunking s \<Longrightarrow> send_offset s \<le> tx_len s"
  by (simp add: prl_wf_def)

lemma prl_wf_send_offset [prl_wf_intros]: "prl_wf s \<Longrightarrow> prl_wf (s\<lparr>send_offset := 0\<rparr>)"
  by (simp add: prl_wf_def chunking_def)

lemma prl_wf_set_state_tch [prl_wf_intros]:
  assumes "pe_ok env" "prl_wf s"
    and "st \<notin> {TCH_CONSTRUCT_CHUNKED_MESSAGE, TCH_SENDING_CHUNKED_MESSAGE, TCH_WAIT_CHUNK_REQUEST} \<or> send_offset s \<le> tx_len s"
  shows "prl_wf (set_state_tch env st s)"
proof -
  define t where "t = (tch_exit env s)\<lparr>tch_state := Some st\<rparr>"
  have t: "prl_wf t" "tch_state t = Some st" using assms(2,3) by (simp_all add: t_def prl_wf_tch_state prl_wf_tch_exit)
  have "prl_wf (tch_entry env st t)"
  proof (cases st)
    case TCH_CONSTRUCT_CHUNKED_MESSAGE
    then show ?thesis
      using t assms(1) prl_wf_tch_construct prl_wf_chunking by (simp add: tch_entry_def chunking_def)
  qed (use t assms(1) in \<open>simp_all add: tch_entry_def tch_wait_for_message_request_from_pe_entry_def
      tch_wait_chunk_request_entry_def tch_message_sent_entry_def tch_report_error_entry_def tch_after_report_def prl_wf_intros\<close>)
  then show ?thesis using assms(2) by (simp add: set_state_tch_def tch_move_def t_def)
qed

lemma prl_wf_tch_fail [prl_wf_intros]: "pe_ok env \<Longrightarrow> prl_wf s \<Longrightarrow> prl_wf (tch_fail env e s)"
  by (simp add: tch_fail_def prl_wf_intros)

lemma prl_wf_tch_run [prl_wf_intros]:
  assumes "pe_ok env" "prl_wf s"
  shows "prl_wf (tch_run env s)"
proof (cases "tch_state s")
  case (Some st)
  have off: "send_offset s \<le> tx_len s" if "chunking s" using that prl_wf_chunking [OF assms(2)] by blast
  have flags: "chunking (s\<lparr>tch_flags := fl\<rparr>) = chunking s" "chunking (s\<lparr>pdmsg_flags := fl\<rparr>) = chunking s" for fl
    by (simp_all add: chunking_def)
  show ?thesis
  proof (cases st)
    case TCH_WAIT_FOR_MESSAGE_REQUEST_FROM_PE
    then have "\<not> chunking s" using Some by (simp add: chunking_def)
    then show ?thesis
      using assms Some TCH_WAIT_FOR_MESSAGE_REQUEST_FROM_PE
      by (simp add: tch_run_def tch_wait_for_message_request_from_pe_run_def Let_def flags prl_wf_intros)
  next
    case TCH_WAIT_CHUNK_REQUEST
    then have "send_offset s \<le> tx_len s" using Some off by (simp add: chunking_def)
    then show ?thesis
      using assms Some TCH_WAIT_CHUNK_REQUEST
      by (simp add: tch_run_def tch_wait_chunk_request_run_def Let_def split_beta prl_wf_intros)
  next
    case TCH_CONSTRUCT_CHUNKED_MESSAGE
    then have "send_offset s \<le> tx_len s" using Some off by (simp add: chunking_def)
    then show ?thesis
      using assms Some TCH_CONSTRUCT_CHUNKED_MESSAGE
      by (simp add: tch_run_def tch_construct_chunked_message_run_def prl_wf_intros)
  next
    case TCH_SENDING_CHUNKED_MESSAGE
    then have "send_offset s \<le> tx_len s" using Some off by (simp add: chunking_def)
    then show ?thesis
      using assms Some TCH_SENDING_CHUNKED_MESSAGE
      by (simp add: tch_run_def tch_sending_chunked_message_run_def Let_def prl_wf_intros)
  qed (use assms Some in \<open>simp_all add: tch_run_def tch_wait_for_transmission_complete_run_def prl_wf_intros\<close>)
qed (use assms in \<open>simp add: tch_run_def\<close>)

subsection \<open>Reception and the whole layer\<close>

lemma dequeued:
  assumes "tcpm_dequeue_message q = (q', m)"
  shows "tq_buffer q' = tq_buffer q" "m = Some x \<Longrightarrow> length (tq_buffer q) = 8 \<Longrightarrow> x \<in> set (tq_buffer q)"
  using assms by (auto simp: tcpm_dequeue_message_def tq_slot_mod split: if_splits)

lemma prl_wf_rx_message [prl_wf_intros]:
  assumes "pe_ok env" "prl_wf s"
  shows "prl_wf (prl_rx_message env s)"
proof -
  have sop: "rx_sop s < 5" using assms(2) by (simp add: prl_wf_def NUM_SOP_STAR_TYPES_def)
  have "PD_HEADER_ID (rx_header s) \<le> 7" by (simp add: PD_HEADER_ID_def word_and_le1)
  then have ident: "uint (PD_HEADER_ID (rx_header s)) \<le> 7" by (simp add: word_le_def)
  have "prl_wf (t\<lparr>rx_msg_id := (rx_msg_id t)[n := uint (PD_HEADER_ID (rx_header s))]\<rparr>)" if "prl_wf t" for t n
    using that ident
    by (auto simp: prl_wf_def chunking_def intro!: ids_ok_update(3) [where w = 0] order_trans [OF _ uint_ge_0])
  then have new: "prl_wf (prl_rx_new_message env cnt type (uint (PD_HEADER_ID (rx_header s))) s)" for cnt type
    using assms by (simp add: prl_rx_new_message_def prl_rx_route_def Let_def received_def prl_wf_intros)
  have "\<not> chunking (tch_to_wait env t)" for t by (simp add: chunking_def)
  then have "prl_wf (prl_rx_soft_reset env s)" using assms sop by (simp add: prl_rx_soft_reset_def prl_wf_intros)
  moreover have "check (rx_sop s < NUM_SOP_STAR_TYPES) s = s" using sop by (simp add: check_def NUM_SOP_STAR_TYPES_def)
  ultimately show ?thesis using new assms(2) by (simp add: prl_rx_message_def Let_def prl_wf_emit)
qed

lemma prl_wf_rx [prl_wf_intros]:
  assumes "pe_ok env" "prl_wf s"
  shows "prl_wf (prl_rx_wait_for_phy_message env s)"
proof (cases "tcpm_dequeue_message (rx_queue s)")
  case (Pair q m)
  have q: "tq_buffer q = tq_buffer (rx_queue s)" using dequeued(1) [OF Pair] .
  have wf: "prl_wf (s\<lparr>rx_queue := q\<rparr>)" using assms(2) q by (simp add: prl_wf_def chunking_def)
  show ?thesis
  proof (cases m)
    case None
    then show ?thesis using assms wf Pair by (simp add: prl_rx_wait_for_phy_message_def)
  next
    case (Some x)
    obtain header payload where x: "x = (header, payload)" by (cases x)
    have "pd_msg_ok x" using dequeued(2) [OF Pair Some] assms(2) by (auto simp: prl_wf_def list_all_iff)
    then have ok: "PD_HEADER_GET_SOP header < 5" "length payload = 28" by (simp_all add: pd_msg_ok_def x)
    then have sop: "unat (PD_HEADER_GET_SOP header) < 5" by (simp add: word_less_nat_alt)
    have "prl_wf (fill_rx_chk payload (s\<lparr>rx_queue := q\<rparr>))" using ok(2) wf by (intro prl_wf_fill_rx_chk) simp_all
    then have "prl_wf (fill_rx_chk payload (s\<lparr>rx_queue := q\<rparr>)\<lparr>rx_header := header, rx_sop := unat (PD_HEADER_GET_SOP header)\<rparr>)"
      using sop by (simp add: prl_wf_def chunking_def NUM_SOP_STAR_TYPES_def)
    then show ?thesis using assms Pair Some x by (simp add: prl_rx_wait_for_phy_message_def prl_wf_rx_message)
  qed
qed

lemma prl_wf_init [prl_wf_intros]: "prl_wf s \<Longrightarrow> prl_wf (prl_init env s)"
  by (simp add: prl_init_def Let_def prl_wf_intros)

lemma prl_wf_run: "pe_ok env \<Longrightarrow> prl_wf s \<Longrightarrow> prl_wf (prl_run env en s)"
  by (simp add: prl_run_def prl_run_enabled_def Let_def prl_wf_intros)

subsection \<open>Any sequence of calls\<close>

text \<open>
  A call is fair when what the PE asks for is well formed, it hands over no message while one is being
  sent in chunks, and the TCPC driver's messages have 28 bytes and a SOP* type.
\<close>

fun prl_op_ok :: "prl_op \<Rightarrow> prl \<Rightarrow> bool" where
  "prl_op_ok (Prl_run env en) s = pe_ok env"
| "prl_op_ok (Pe_requests env r) s = (req_ok r \<and> (sends r \<longrightarrow> \<not> chunking s))"
| "prl_op_ok (Phy_message (Inr m)) s = pd_msg_ok m"
| "prl_op_ok _ s = True"

primrec prl_ops_ok :: "prl_op list \<Rightarrow> prl \<Rightarrow> bool" where
  "prl_ops_ok [] s = True"
| "prl_ops_ok (x # xs) s = (prl_op_ok x s \<and> prl_ops_ok xs (prl_exec x s))"

lemma prl_wf_exec:
  assumes "prl_op_ok x s" "prl_wf s"
  shows "prl_wf (prl_exec x s)"
proof (cases x)
  case (Phy_message m)
  have "list_all pd_msg_ok ((tq_buffer (rx_queue s))[i := d])" if "pd_msg_ok d" for d i
    using that assms(2) set_update_subset_insert [of "tq_buffer (rx_queue s)" i d]
    by (auto simp: prl_wf_def list_all_iff)
  moreover have "pd_msg_ok (0, replicate 28 0)" by (simp add: pd_msg_ok_def PD_HEADER_GET_SOP_def)
  ultimately show ?thesis
    using assms by (cases m) (auto simp: Phy_message tcpm_enqueue_message_def prl_wf_def chunking_def)
next
  case Phy_clear
  then show ?thesis using assms(2) by (simp add: tcpm_clear_pending_messages_def prl_wf_def chunking_def)
qed (use assms in \<open>simp_all add: prl_wf_run prl_wf_request prl_wf_pd_execute_hard_reset pd_transmit_complete_def\<close>)

lemma prl_wf_execs: "prl_ops_ok xs s \<Longrightarrow> prl_wf s \<Longrightarrow> prl_wf (fold prl_exec xs s)"
  by (induction xs arbitrary: s) (simp_all add: prl_wf_exec)

text \<open>The variables as the C start-up leaves them, all zero; the timers are shared with other layers.\<close>

definition prl_boot :: "pd_timers \<Rightarrow> prl" where
  "prl_boot tm =
     \<lparr>local_state = SM_INIT, tx_state = None, hr_state = None, rch_state = None, tch_state = None, tx_flags = {},
      hr_flags = {}, rch_flags = {}, tch_flags = {}, pdmsg_flags = {}, rch_error = ERR_RCH_CHUNKED,
      tch_error = ERR_RCH_CHUNKED, rx_sop = 0, rx_msg_id = replicate 5 0, last_xmit_type = 0,
      msg_id_counter = replicate 5 0, xmit_status = TCPC_TX_WAIT, xmit_type = 0, msg_type = 0,
      pd_rev = replicate 5 PD_REV10, data_objs = 0, tx_chk_buf = replicate 28 0,
      rx_chk_buf = replicate 28 0, chunk_number_expected = 0,
      num_bytes_received = 0, ext = 0, chunk_number_to_send = 0, send_offset = 0, rx_header = 0, rx_len = 0,
      rx_buf = replicate 260 0, tx_len = 0, tx_buf = replicate 260 0, tcpc_tx_success_ts = 0, ptimers = tm,
      rx_queue = tcpm_queue_init, effects = [], fault = False\<rparr>"

lemma prl_wf_boot: "prl_wf (prl_boot tm)"
  by (simp add: prl_wf_def prl_boot_def EXTENDED_BUFFER_SIZE_def NUM_SOP_STAR_TYPES_def ids_ok_def tcpm_queue_init_def
      pd_msg_ok_def PD_HEADER_GET_SOP_def chunking_def list_all_iff)

text \<open>
  C2: whatever calls the policy engine, the port controller and the port partner make, in any order, the
  protocol layer stays well formed: message ids are within 0 to 7 (or none received), lengths within
  the buffers, object counts within a header, and no access is outside an array but one: the clearing
  of the chunk buffer (\<open>clear_chunk\<close>, \<open>usb_prl_sm.c\<close> line 1960), which always goes two bytes past
  \<open>tx_chk_buf\<close> and is modelled with the effect it has, the first two bytes of \<open>rx_chk_buf\<close> become zero.
  The calls are fair: no message is handed over while one is being sent in chunks, and SOP* types are valid.
\<close>

theorem prl_stays_well_formed:
  assumes "prl_ops_ok xs (prl_boot tm)"
  shows "prl_wf (fold prl_exec xs (prl_boot tm))"
  by (rule prl_wf_execs [OF assms prl_wf_boot])

definition quiet_env :: "u64 \<Rightarrow> prl_env" where
  "quiet_env now = \<lparr>env_port = 0, env_now = \<lambda>_. now, env_local_ams = \<lambda>_. False, env_frs = \<lambda>_. False,
     env_connected = \<lambda>_. True, env_sink_ok = \<lambda>_. True, env_power_role = \<lambda>_. 1, env_data_role = \<lambda>_. 1,
     env_cable_plug = \<lambda>_. 0, env_phy = \<lambda>_. None, env_pe = \<lambda>_. []\<rparr>"

lemma pe_ok_quiet: "pe_ok (quiet_env now)"
  by (simp add: pe_ok_def quiet_env_def)

theorem prl_stays_well_formed_witness:
  "prl_wf (fold prl_exec [Pe_requests (quiet_env 5) (Send_ext 0 2 (replicate 100 7)), Prl_run (quiet_env 6) True,
     Phy_message (Inr (0x8001, replicate 28 0)), Prl_run (quiet_env 7) True] (prl_boot (pd_boot 1)))"
  by (rule prl_stays_well_formed)
    (simp add: pe_ok_quiet pd_msg_ok_def PD_HEADER_GET_SOP_def chunking_def prl_boot_def)

end
