(* ===== verification/PrlSend.thy ===== *)
theory PrlSend
  imports PrlType
begin

section \<open>Sending a message through the protocol layer\<close>

text \<open>
  \<open>prl_idle\<close>: the layer runs, nothing is received, sent or waiting, and no AMS of this port is
  going on.
\<close>

definition prl_idle :: "prl \<Rightarrow> bool" where
  "prl_idle s \<longleftrightarrow>
     local_state s = SM_RUN \<and> hr_state s = Some PRL_HR_WAIT_FOR_REQUEST \<and> hr_flags s = {} \<and>
     rch_state s = Some RCH_WAIT_FOR_MESSAGE_FROM_PROTOCOL_LAYER \<and>
     PRL_FLAGS_MSG_RECEIVED \<notin> rch_flags s \<and> PRL_FLAGS_CHUNKING \<in> rch_flags s \<and>
     tch_state s = Some TCH_WAIT_FOR_MESSAGE_REQUEST_FROM_PE \<and> tch_flags s = {PRL_FLAGS_CHUNKING} \<and>
     tx_state s = Some PRL_TX_WAIT_FOR_MESSAGE_REQUEST \<and> tx_flags s = {} \<and> pdmsg_flags s = {} \<and>
     xmit_status s = TCPC_TX_UNSET \<and> \<not> tcpm_has_pending_message (rx_queue s)"

text \<open>No AMS of this port, no message completing at once, a policy engine that asks for nothing back.\<close>

definition env_calm :: "prl_env \<Rightarrow> bool" where
  "env_calm env \<longleftrightarrow> (\<forall>h. \<not> env_local_ams env h \<and> env_phy env h = None \<and> env_pe env h = [])"

lemma calm_pe_ok: "env_calm env \<Longrightarrow> pe_ok env"
  by (simp add: env_calm_def pe_ok_def)

text \<open>The frame: padded with zeros to the 28 bytes of the buffer, its objects of four bytes counted.\<close>

definition frame :: "u8 list \<Rightarrow> u8 list" where "frame bs = bs @ replicate (28 - length bs) 0"

definition objects :: "u8 list \<Rightarrow> nat" where "objects bs = (length bs + 3) div 4"

definition sop_header :: "prl_env \<Rightarrow> prl \<Rightarrow> nat \<Rightarrow> u8 \<Rightarrow> nat \<Rightarrow> u32" where
  "sop_header env s t m n =
     PD_HEADER (ucast m)
       (if t = 0 then env_power_role env (effects s) else env_cable_plug env (effects s))
       (if t = 0 then env_data_role env (effects s) else 0)
       (msg_id_counter s ! t) (of_nat n) (rev_code (pd_rev s ! t)) 0"

lemma rx_nothing: "\<not> tcpm_has_pending_message (rx_queue s) \<Longrightarrow> prl_rx_wait_for_phy_message env s = s"
  by (simp add: prl_rx_wait_for_phy_message_def tcpm_dequeue_message_def)

lemma hr_run_nothing:
  "hr_state s = Some PRL_HR_WAIT_FOR_REQUEST \<Longrightarrow> hr_flags s = {} \<Longrightarrow> prl_hr_run env s = s"
  by (simp add: prl_hr_run_def prl_hr_wait_for_request_run_def)

lemma rch_run_nothing:
  "rch_state s = Some RCH_WAIT_FOR_MESSAGE_FROM_PROTOCOL_LAYER \<Longrightarrow> PRL_FLAGS_MSG_RECEIVED \<notin> rch_flags s \<Longrightarrow> rch_run env s = s"
  by (simp add: rch_run_def rch_wait_for_message_from_protocol_layer_run_def)

lemmas run_nothing = rx_nothing hr_run_nothing rch_run_nothing

lemma run_enabled_tx:
  assumes "local_state s = SM_RUN" "hr_state s = Some PRL_HR_WAIT_FOR_REQUEST" "hr_flags s = {}"
    "rch_state s = Some RCH_WAIT_FOR_MESSAGE_FROM_PROTOCOL_LAYER" "PRL_FLAGS_MSG_RECEIVED \<notin> rch_flags s"
    "\<not> tcpm_has_pending_message (rx_queue s)"
  shows "prl_run env True s = tch_run env (prl_tx_run env (tch_run env s))"
  using assms by (simp add: prl_run_def prl_run_enabled_def Let_def run_nothing)

lemma put_chk_id:
  assumes "length (tx_chk_buf s) = 28" "off + length bs \<le> 28"
  shows "put_chk off bs s = s\<lparr>tx_chk_buf := put_bytes off bs (tx_chk_buf s)\<rparr>"
  using assms by (cases s) (simp add: put_chk_def check_def)

lemma put_bytes_frame:
  assumes "length c = 28" "length bs \<le> 28"
  shows "put_bytes 0 bs (put_bytes 0 (replicate 28 0) c) = frame bs"
  using assms by (simp add: put_bytes_def frame_def)

text \<open>The message in the chunk buffer.\<close>

lemma copy_msg:
  assumes "prl_wf s" "unat (tx_len s) \<le> 28"
  defines "t \<equiv> prl_copy_msg_to_buffer s" and "bs \<equiv> take (unat (tx_len s)) (tx_buf s)"
  shows "\<exists>c. t = s\<lparr>tx_chk_buf := c, data_objs := of_nat (objects bs)\<rparr> \<and> length c = 28 \<and>
    (bs \<noteq> [] \<longrightarrow> c = frame bs)"
proof (cases "tx_len s = 0")
  case True
  then show ?thesis
    using assms(1) by (intro exI [of _ "tx_chk_buf s"]) (simp add: t_def bs_def prl_copy_msg_to_buffer_def objects_def prl_wf_def)
next
  case False
  have c: "length (tx_chk_buf s) = 28" "length (tx_buf s) = 260" using assms(1) by (simp_all add: prl_wf_def EXTENDED_BUFFER_SIZE_def)
  have l: "length bs = unat (tx_len s)" using assms(2) c by (simp add: bs_def)
  have le: "\<not> 28 < tx_len s" using assms(2) by (simp add: word_less_nat_alt)
  have "unat (drop_bit 2 (tx_len s + 3)) = objects bs"
    using assms(2) l by (simp add: unat_drop_bit_eq drop_bit_eq_div unat_div objects_def unat_word_ariths)
  then have n: "ucast (drop_bit 2 (tx_len s + 3)) = (of_nat (objects bs) :: u16)"
    by (metis of_nat_unat)
  define c2 where "c2 = put_bytes 0 bs (put_bytes 0 (replicate 28 0) (tx_chk_buf s))"
  have "t = s\<lparr>tx_chk_buf := c2, data_objs := of_nat (objects bs)\<rparr>"
    using False le c l n assms(2)
    by (simp add: t_def prl_copy_msg_to_buffer_def Let_def CHK_BUF_SIZE_BYTES_def put_chk_id c2_def bs_def)
  moreover have "length c2 = 28" "c2 = frame bs"
    using c l assms(2) put_bytes_frame [of "tx_chk_buf s" bs] by (simp_all add: c2_def frame_def)
  ultimately show ?thesis by blast
qed

subsection \<open>Runs of the transmission\<close>

lemma leave_no_ams:
  assumes "env_calm env" "PRL_FLAGS_SINK_NG \<notin> tx_flags s" "PRL_FLAGS_WAIT_SINK_OK \<notin> tx_flags s"
  shows "leave_ams env s = s"
  using assms by (cases s) (simp add: leave_ams_def env_calm_def)

lemma tx_send:
  assumes "tx_state s = Some PRL_TX_WAIT_FOR_MESSAGE_REQUEST" "tx_flags s = {PRL_FLAGS_MSG_XMIT}" "env_calm env"
    and "xmit_type s < 5" "\<not> soft_reset_pending s"
  shows "\<exists>tm. prl_tx_run env s = s\<lparr>tx_flags := {}, last_xmit_type := xmit_type s, xmit_status := TCPC_TX_WAIT,
    pdmsg_flags := pdmsg_flags s - {PRL_FLAGS_TX_COMPLETE},
    effects := Transmit (xmit_type s) (get_sop_star_header env s) (tx_chk_buf s) # effects s,
    tx_state := Some PRL_TX_WAIT_FOR_PHY_RESPONSE, ptimers := tm\<rparr>"
proof -
  define s3 where "s3 = s\<lparr>tx_flags := {}, last_xmit_type := xmit_type s, xmit_status := TCPC_TX_WAIT,
    pdmsg_flags := pdmsg_flags s - {PRL_FLAGS_TX_COMPLETE},
    effects := Transmit (xmit_type s) (get_sop_star_header env s) (tx_chk_buf s) # effects s\<rparr>"
  have "get_sop_star_header env (s\<lparr>tx_flags := {}\<rparr>) = get_sop_star_header env s"
    by (simp add: get_sop_star_header_def Let_def)
  moreover have "\<not> soft_reset_pending (s\<lparr>tx_flags := {}\<rparr>)" using assms(5) by (simp add: soft_reset_pending_def)
  moreover have "leave_ams env s = s" using assms by (intro leave_no_ams) simp_all
  ultimately have "prl_tx_run env s = set_state_prl_tx env PRL_TX_WAIT_FOR_PHY_RESPONSE s3"
    using assms by (simp add: prl_tx_run_def prl_tx_wait_for_message_request_run_def env_calm_def send_pending_def Let_def
        prl_tx_construct_message_def NUM_SOP_STAR_TYPES_def tcpm_transmit_def emit_def s3_def)
  then show ?thesis
    using assms(1) by (simp add: set_state_prl_tx_def tx_move_def prl_tx_exit_def prl_tx_entry_def timer_enable_def s3_def) blast
qed

lemma tx_done:
  assumes "tx_state s = Some PRL_TX_WAIT_FOR_PHY_RESPONSE" "last_xmit_type s < 5"
    and "xmit_status s = TCPC_TX_COMPLETE_SUCCESS \<or> xmit_status s = TCPC_TX_COMPLETE_FAILED"
  shows "\<exists>tm. prl_tx_run env s = s\<lparr>tx_state := Some PRL_TX_WAIT_FOR_MESSAGE_REQUEST, xmit_status := TCPC_TX_UNSET,
    pdmsg_flags := insert (if xmit_status s = TCPC_TX_COMPLETE_SUCCESS then PRL_FLAGS_TX_COMPLETE else PRL_FLAGS_TX_ERROR)
      (pdmsg_flags s),
    msg_id_counter := (msg_id_counter s)[last_xmit_type s := (msg_id_counter s ! last_xmit_type s + 1) AND 7], ptimers := tm\<rparr>"
proof -
  obtain tm0 where tm0: "fst (timer_expired env PR_TIMER_TCPC_TX_TIMEOUT s) = s\<lparr>ptimers := tm0\<rparr>"
    by (simp add: timer_expired_def split_beta)
  have enter: "set_state_prl_tx env PRL_TX_WAIT_FOR_MESSAGE_REQUEST u =
      u\<lparr>ptimers := pd_timer_disable (env_port env) PR_TIMER_TCPC_TX_TIMEOUT (ptimers u),
        tx_state := Some PRL_TX_WAIT_FOR_MESSAGE_REQUEST, xmit_status := TCPC_TX_UNSET\<rparr>"
    if "tx_state u = Some PRL_TX_WAIT_FOR_PHY_RESPONSE" for u
    using that by (simp add: set_state_prl_tx_def tx_move_def prl_tx_exit_def timer_disable_def prl_tx_entry_def
        prl_tx_wait_for_message_request_entry_def)
  note defs = prl_tx_run_def prl_tx_wait_for_phy_response_run_def increment_msgid_counter_def NUM_SOP_STAR_TYPES_def
    PD_MESSAGE_ID_COUNT_def Let_def enter split_beta tm0
  show ?thesis
  proof (cases "xmit_status s = TCPC_TX_COMPLETE_SUCCESS")
    case True
    then show ?thesis
      using assms by (intro exI [of _ "pd_timer_disable (env_port env) PR_TIMER_TCPC_TX_TIMEOUT (ptimers s)"]) (simp add: defs)
  next
    case False
    then show ?thesis
      using assms by (intro exI [of _ "pd_timer_disable (env_port env) PR_TIMER_TCPC_TX_TIMEOUT tm0"]) (simp add: defs)
  qed
qed

subsection \<open>Handing over and completing\<close>

definition prl_sending :: "nat \<Rightarrow> prl \<Rightarrow> bool" where
  "prl_sending t s \<longleftrightarrow>
     local_state s = SM_RUN \<and> hr_state s = Some PRL_HR_WAIT_FOR_REQUEST \<and> hr_flags s = {} \<and>
     rch_state s = Some RCH_WAIT_FOR_MESSAGE_FROM_PROTOCOL_LAYER \<and>
     PRL_FLAGS_MSG_RECEIVED \<notin> rch_flags s \<and> PRL_FLAGS_CHUNKING \<in> rch_flags s \<and>
     tch_state s = Some TCH_WAIT_FOR_TRANSMISSION_COMPLETE \<and> tch_flags s = {PRL_FLAGS_CHUNKING} \<and>
     tx_state s = Some PRL_TX_WAIT_FOR_PHY_RESPONSE \<and> tx_flags s = {} \<and> pdmsg_flags s = {} \<and>
     xmit_status s = TCPC_TX_WAIT \<and> last_xmit_type s = t \<and> t < 5 \<and> \<not> tcpm_has_pending_message (rx_queue s)"

text \<open>A message of at most 28 bytes, of a type that is not a soft reset; a control message has no data.\<close>

definition handed_over :: "nat \<Rightarrow> u8 \<Rightarrow> u8 list \<Rightarrow> prl \<Rightarrow> prl \<Rightarrow> bool" where
  "handed_over t m bs s s0 \<longleftrightarrow> (\<exists>b h. length b = 260 \<and> h \<le> 7 \<and> take (length bs) b = bs \<and>
     s0 = s\<lparr>xmit_type := t, msg_type := m, data_objs := h, tx_len := of_nat (length bs), tx_buf := b, ext := 0,
            tch_flags := insert PRL_FLAGS_MSG_XMIT (tch_flags s)\<rparr>)"

lemma handed_over_ctrl: "prl_wf s \<Longrightarrow> handed_over t m [] s (prl_request env (Send_ctrl t m) s)"
  unfolding handed_over_def
  by (intro exI [of _ "tx_buf s"] exI [of _ 0])
    (simp add: prl_request_def prl_send_ctrl_msg_def prl_wf_def EXTENDED_BUFFER_SIZE_def)

lemma handed_over_data:
  assumes "prl_wf s" "length bs \<le> 28"
  shows "handed_over t m bs s (prl_request env (Send_data t m bs) s)"
  unfolding handed_over_def using assms
  by (intro exI [of _ "put_bytes 0 bs (tx_buf s)"] exI [of _ "data_objs s"])
    (simp add: prl_request_def prl_send_data_msg_def pe_fill_def check_def prl_wf_def EXTENDED_BUFFER_SIZE_def put_bytes_def)

lemma send_first_run:
  assumes idle: "prl_idle s" and wf: "prl_wf s" and env: "env_calm env" and over: "handed_over t m bs s s0"
    and "t < 5" "length bs \<le> 28" "bs \<noteq> [] \<or> m \<noteq> 13"
  shows "prl_sending t (prl_run env True s0) \<and> msg_id_counter (prl_run env True s0) = msg_id_counter s \<and>
    (\<exists>data. effects (prl_run env True s0) = Transmit t (sop_header env s t m (objects bs)) data # effects s \<and>
      (bs \<noteq> [] \<longrightarrow> data = frame bs))"
proof -
  obtain b h where b: "length b = 260" "take (length bs) b = bs" "h \<le> 7" and
    s0: "s0 = s\<lparr>xmit_type := t, msg_type := m, data_objs := h, tx_len := of_nat (length bs), tx_buf := b, ext := 0,
            tch_flags := {PRL_FLAGS_CHUNKING, PRL_FLAGS_MSG_XMIT}\<rparr>"
    using over idle by (auto simp: handed_over_def prl_idle_def insert_commute)
  note idle_facts = idle [unfolded prl_idle_def]
  define s1 where "s1 = s0\<lparr>tch_flags := {PRL_FLAGS_CHUNKING}\<rparr>"
  have len: "unat (of_nat (length bs) :: u32) = length bs" using assms(6) by (simp add: unat_of_nat)
  have wf1: "prl_wf s1"
    using wf b assms(6) idle_facts
    by (auto simp: s1_def s0 prl_wf_def chunking_def EXTENDED_BUFFER_SIZE_def word_le_nat_alt len)
  have empty: "tx_len s1 = 0 \<longleftrightarrow> bs = []" using len by (auto simp: s1_def s0 simp flip: unat_eq_0)
  obtain c where c: "prl_copy_msg_to_buffer s1 = s1\<lparr>tx_chk_buf := c, data_objs := of_nat (objects bs)\<rparr>" "length c = 28"
      "bs \<noteq> [] \<longrightarrow> c = frame bs"
    using copy_msg [OF wf1] len b assms(6) by (auto simp: s1_def s0)
  define s2 where "s2 = s1\<lparr>tx_chk_buf := c, data_objs := of_nat (objects bs), tx_flags := {PRL_FLAGS_MSG_XMIT},
      tch_state := Some TCH_WAIT_FOR_TRANSMISSION_COMPLETE\<rparr>"
  have tch1: "tch_run env s0 = s2"
    using idle_facts c(1)
    by (simp add: tch_run_def tch_wait_for_message_request_from_pe_run_def s0 Let_def set_state_tch_def tch_move_def tch_exit_def
        tch_entry_def pdmsg_xmit_type_is_rev30_def s2_def insert_Diff_if) (simp add: s1_def s0)
  have soft: "\<not> soft_reset_pending s2"
  proof -
    have "(ucast m :: u32) = 13 \<longleftrightarrow> m = 13" using ucast_u8_u32_eq [of m 13] by simp
    then show ?thesis
      using assms(7) empty by (auto simp: soft_reset_pending_def PD_CTRL_SOFT_RESET_def s2_def) (auto simp: s1_def s0)
  qed
  define hd' where "hd' = sop_header env s t m (objects bs)"
  have header: "get_sop_star_header env s2 = hd'"
  proof -
    have "(ucast (of_nat (objects bs) :: u16) :: u32) = of_nat (objects bs)"
    proof -
      have "objects bs \<le> 7" using assms(6) by (simp add: objects_def)
      then show ?thesis by (intro word_unat_eq_iff [THEN iffD2]) (simp add: unsigned_ucast_eq unat_of_nat take_bit_eq_mod)
    qed
    then show ?thesis
      by (simp add: get_sop_star_header_def hd'_def sop_header_def TCPCI_MSG_SOP_def s2_def) (simp add: s1_def s0)
  qed
  have st: "tx_state s2 = Some PRL_TX_WAIT_FOR_MESSAGE_REQUEST" "tx_flags s2 = {PRL_FLAGS_MSG_XMIT}" "xmit_type s2 = t"
      "pdmsg_flags s2 = {}" "effects s2 = effects s" "tx_chk_buf s2 = c"
    using idle_facts by (simp_all add: s2_def s1_def s0)
  obtain tm where tx: "prl_tx_run env s2 = s2\<lparr>tx_flags := {}, last_xmit_type := t, xmit_status := TCPC_TX_WAIT, pdmsg_flags := {},
      effects := Transmit t hd' c # effects s, tx_state := Some PRL_TX_WAIT_FOR_PHY_RESPONSE, ptimers := tm\<rparr>"
    using tx_send [OF st(1,2) env _ soft] assms(5) st by (auto simp: header)
  define s3 where "s3 = s2\<lparr>tx_flags := {}, last_xmit_type := t, xmit_status := TCPC_TX_WAIT, pdmsg_flags := {},
      effects := Transmit t hd' c # effects s, tx_state := Some PRL_TX_WAIT_FOR_PHY_RESPONSE, ptimers := tm\<rparr>"
  have final: "prl_run env True s0 = s3"
  proof -
    have "prl_run env True s0 = tch_run env (prl_tx_run env (tch_run env s0))"
      using idle_facts by (intro run_enabled_tx) (simp_all add: s0)
    also have "\<dots> = tch_run env s3" by (simp only: tch1 tx s3_def)
    also have "\<dots> = s3"
      by (simp add: tch_run_def tch_wait_for_transmission_complete_run_def s3_def s2_def s1_def)
    finally show ?thesis .
  qed
  show ?thesis
    using idle_facts c(3) assms(5)
    by (simp add: final prl_sending_def s3_def hd'_def) (simp add: s2_def s1_def s0)
qed

text \<open>The port controller reports the end of the transmission.\<close>

definition completion :: "nat \<Rightarrow> tcpc_transmit_complete \<Rightarrow> prl_effect" where
  "completion t status = (if status = TCPC_TX_COMPLETE_SUCCESS then Pe_message_sent else Pe_report_error ERR_TCH_XMIT t)"

lemma send_second_run:
  fixes now :: u64
  assumes sending: "prl_sending t s" and env: "env_calm env"
    and status: "status = TCPC_TX_COMPLETE_SUCCESS \<or> status = TCPC_TX_COMPLETE_FAILED"
  defines "s2 \<equiv> prl_run env True (pd_transmit_complete now status s)"
  shows "prl_idle s2 \<and> effects s2 = completion t status # effects s \<and>
    msg_id_counter s2 = (msg_id_counter s)[t := (msg_id_counter s ! t + 1) AND 7]"
proof -
  note facts = sending [unfolded prl_sending_def]
  define ids where "ids = (msg_id_counter s)[t := (msg_id_counter s ! t + 1) AND 7]"
  define a where "a = pd_transmit_complete now status s"
  have a: "local_state a = SM_RUN" "hr_state a = Some PRL_HR_WAIT_FOR_REQUEST" "hr_flags a = {}"
      "rch_state a = Some RCH_WAIT_FOR_MESSAGE_FROM_PROTOCOL_LAYER" "PRL_FLAGS_MSG_RECEIVED \<notin> rch_flags a" "PRL_FLAGS_CHUNKING \<in> rch_flags a"
      "tch_state a = Some TCH_WAIT_FOR_TRANSMISSION_COMPLETE" "tch_flags a = {PRL_FLAGS_CHUNKING}"
      "tx_state a = Some PRL_TX_WAIT_FOR_PHY_RESPONSE" "tx_flags a = {}" "pdmsg_flags a = {}"
      "xmit_status a = status" "last_xmit_type a = t" "effects a = effects s" "msg_id_counter a = msg_id_counter s"
      "\<not> tcpm_has_pending_message (rx_queue a)" "t < 5"
    using facts by (simp_all add: a_def pd_transmit_complete_def)
  define flag where "flag = (if status = TCPC_TX_COMPLETE_SUCCESS then PRL_FLAGS_TX_COMPLETE else PRL_FLAGS_TX_ERROR)"
  obtain tm where tx: "prl_tx_run env a = a\<lparr>tx_state := Some PRL_TX_WAIT_FOR_MESSAGE_REQUEST, xmit_status := TCPC_TX_UNSET,
      pdmsg_flags := {flag}, msg_id_counter := ids, ptimers := tm\<rparr>"
    using tx_done [of a env] a status by (auto simp: flag_def ids_def)
  have "tch_run env a = a" using a by (simp add: tch_run_def tch_wait_for_transmission_complete_run_def)
  then have s2: "s2 = tch_run env (a\<lparr>tx_state := Some PRL_TX_WAIT_FOR_MESSAGE_REQUEST, xmit_status := TCPC_TX_UNSET,
      pdmsg_flags := {flag}, msg_id_counter := ids, ptimers := tm\<rparr>)"
    unfolding s2_def a_def [symmetric] using a tx by (subst run_enabled_tx) simp_all
  have tell: "tell_pe env e u = emit e u" for e u
    using env by (simp add: tell_pe_def Let_def env_calm_def)
  show ?thesis
    using a status env
    by (auto simp: s2 tch_run_def tch_wait_for_transmission_complete_run_def flag_def tch_fail_def set_state_tch_def tch_move_def
        tch_exit_def tch_entry_def tch_message_sent_entry_def tch_report_error_entry_def tch_after_report_def tch_to_wait_def
        tch_wait_for_message_request_from_pe_entry_def tell emit_def prl_idle_def completion_def ids_def)
qed

text \<open>
  C3: an idle layer that is handed a message transmits it, once: the next run gives the port controller
  the header with the type, the roles, the count of objects, the revision and the message id of that SOP*
  type, and the data padded to the buffer. When the port controller reports the end, the next run tells the
  policy engine, a success as sent and a failure as a transmission error, the message id is counted on,
  modulo eight, and the layer is idle again.
\<close>

theorem prl_sends_message:
  fixes bs :: "u8 list" and now :: u64 and env :: prl_env
  assumes "prl_idle s" "prl_wf s" "env_calm env1" "env_calm env2" "t < 5" "length bs \<le> 28" "bs \<noteq> [] \<or> m \<noteq> 13"
    and "status = TCPC_TX_COMPLETE_SUCCESS \<or> status = TCPC_TX_COMPLETE_FAILED"
    and "r = (if bs = [] then Send_ctrl t m else Send_data t m bs)"
  defines "s2 \<equiv> fold prl_exec [Pe_requests env r, Prl_run env1 True, Phy_complete now status, Prl_run env2 True] s"
  shows "prl_idle s2 \<and> msg_id_counter s2 = (msg_id_counter s)[t := (msg_id_counter s ! t + 1) AND 7] \<and>
    (\<exists>data. effects s2 = completion t status # Transmit t (sop_header env1 s t m (objects bs)) data # effects s \<and>
      (bs \<noteq> [] \<longrightarrow> data = frame bs))"
proof -
  have over: "handed_over t m bs s (prl_request env r s)"
    using assms(2,6,9) handed_over_ctrl handed_over_data by (cases "bs = []") simp_all
  from send_first_run [OF assms(1-3) over assms(5-7)] show ?thesis
    using send_second_run [OF _ assms(4,8)] by (fastforce simp: s2_def)
qed

text \<open>A layer that has just started, and one message through it.\<close>

definition prl_timers :: pd_timers where
  "prl_timers = \<lparr>timer_active = [0, 0], timer_disabled = [0, 0], timer_expires = [replicate 37 0], timer_count = [0], max_count = [0]\<rparr>"

definition prl_started :: prl where
  "prl_started = fold prl_exec [Pe_requests (quiet_env 1) Set_default_rev, Prl_run (quiet_env 1) True] (prl_boot prl_timers)"

lemma prl_started_ok: "prl_idle prl_started" "prl_wf prl_started"
proof -
  show "prl_idle prl_started" by code_simp
  show "prl_wf prl_started"
    unfolding prl_started_def by (rule prl_wf_execs [OF _ prl_wf_boot]) (simp add: pe_ok_quiet)
qed

lemma env_calm_quiet: "env_calm (quiet_env now)"
  by (simp add: env_calm_def quiet_env_def)

theorem prl_sends_message_witness:
  "prl_idle (fold prl_exec [Pe_requests (quiet_env 2) (Send_data 0 2 [1, 2, 3, 4]), Prl_run (quiet_env 3) True,
     Phy_complete 4 TCPC_TX_COMPLETE_SUCCESS, Prl_run (quiet_env 5) True] prl_started)"
proof -
  have r: "Send_data 0 2 [1, 2, 3, 4] = (if [1, 2, 3, 4 :: u8] = [] then Send_ctrl 0 2 else Send_data 0 2 [1, 2, 3, 4])" by simp
  show ?thesis
    using prl_sends_message [OF prl_started_ok env_calm_quiet env_calm_quiet _ _ _ _ r,
        where status = TCPC_TX_COMPLETE_SUCCESS] by simp
qed

end
