(* ===== verification/PrlReceive.thy ===== *)
theory PrlReceive
  imports PrlSend
begin

section \<open>Receiving a message through the protocol layer\<close>

text \<open>
  One unextended message through the cache, the reception state machine and the chunked reception, up to
  the policy engine, and the same message again, as a partner sends it that missed the GoodCRC.
\<close>

text \<open>A message that is for this port, and neither a soft reset nor a ping; and one that is not extended.\<close>

definition wanted :: "prl_env \<Rightarrow> prl \<Rightarrow> u32 \<Rightarrow> bool" where
  "wanted env s h \<longleftrightarrow>
     (if PD_HEADER_GET_SOP h = 0 then PD_HEADER_DROLE h \<noteq> env_data_role env (effects s) else PD_HEADER_PROLE h \<noteq> 0) \<and>
     \<not> (PD_HEADER_CNT h = 0 \<and> PD_HEADER_TYPE h \<in> {PD_CTRL_SOFT_RESET, PD_CTRL_PING}) \<and> PD_HEADER_GET_SOP h < 5"

definition for_us :: "prl_env \<Rightarrow> prl \<Rightarrow> u32 \<Rightarrow> bool" where
  "for_us env s h \<longleftrightarrow> wanted env s h \<and> PD_HEADER_EXT h = 0"

definition sop_of :: "u32 \<Rightarrow> nat" where "sop_of h = unat (PD_HEADER_GET_SOP h)"

definition msg_ident :: "u32 \<Rightarrow> int" where "msg_ident h = uint (PD_HEADER_ID h)"

definition payload_of :: "u32 \<Rightarrow> u8 list \<Rightarrow> u8 list" where "payload_of h p = take (unat (PD_HEADER_CNT h) * 4) p"

lemma enqueue_dequeue:
  assumes "\<not> tcpm_has_pending_message q" "length (tq_buffer q) = 8"
  shows "\<exists>q'. tcpm_dequeue_message (fst (tcpm_enqueue_message (Inr m) q)) = (q', Some m) \<and>
    \<not> tcpm_has_pending_message q' \<and> tq_buffer q' = (tq_buffer q)[tq_slot (tq_head q) := m]"
  using assms by (simp add: tcpm_has_pending_message_def tcpm_enqueue_message_def CACHE_DEPTH_def tcpm_dequeue_message_def
      tq_slot_mod)

text \<open>What the reception leaves, before the chunked reception runs.\<close>

definition arrived :: "prl \<Rightarrow> tcpm_queue \<Rightarrow> u32 \<Rightarrow> u8 list \<Rightarrow> prl" where
  "arrived s q h p = s\<lparr>rx_queue := q, rx_chk_buf := put_bytes 0 p (rx_chk_buf s), rx_header := h, rx_sop := sop_of h\<rparr>"

lemma rx_take:
  assumes "\<not> tcpm_has_pending_message (rx_queue s)" "PRL_FLAGS_MSG_RECEIVED \<notin> rch_flags s" "prl_wf s" "pd_msg_ok (h, p)"
  shows "\<exists>q. \<not> tcpm_has_pending_message q \<and> prl_wf (arrived s q h p) \<and>
    prl_rx_wait_for_phy_message env (prl_exec (Phy_message (Inr (h, p))) s) = prl_rx_message env (arrived s q h p)"
proof -
  define s0 where "s0 = prl_exec (Phy_message (Inr (h, p))) s"
  obtain q where q: "tcpm_dequeue_message (fst (tcpm_enqueue_message (Inr (h, p)) (rx_queue s))) = (q, Some (h, p))"
      "\<not> tcpm_has_pending_message q" "tq_buffer q = (tq_buffer (rx_queue s))[tq_slot (tq_head (rx_queue s)) := (h, p)]"
    using enqueue_dequeue [of "rx_queue s" "(h, p)"] assms(1,3) by (auto simp: prl_wf_def)
  have "list_all pd_msg_ok (tq_buffer q)"
    using q(3) assms(3,4) set_update_subset_insert [of "tq_buffer (rx_queue s)" _ "(h, p)"]
    by (auto simp: prl_wf_def list_all_iff)
  moreover have "sop_of h < 5" using assms(4) by (simp add: pd_msg_ok_def sop_of_def word_less_nat_alt)
  ultimately have wf: "prl_wf (arrived s q h p)"
    using assms(3,4) q(3) by (simp add: arrived_def prl_wf_def chunking_def NUM_SOP_STAR_TYPES_def pd_msg_ok_def)
  have len: "length (rx_chk_buf s) = 28" "length p = 28" using assms(3,4) by (simp_all add: prl_wf_def pd_msg_ok_def)
  have "fill_rx_chk p (s0\<lparr>rx_queue := q\<rparr>) = s0\<lparr>rx_queue := q, rx_chk_buf := put_bytes 0 p (rx_chk_buf s)\<rparr>"
    using len by (cases s) (simp add: fill_rx_chk_def check_def s0_def)
  then have "prl_rx_wait_for_phy_message env s0 = prl_rx_message env (arrived s q h p)"
    using assms(2) q(1) by (simp add: prl_rx_wait_for_phy_message_def s0_def arrived_def sop_of_def)
  then show ?thesis using q(2) wf by (auto simp: s0_def)
qed

lemma rx_run:
  assumes idle: "prl_idle s" and wf: "prl_wf s" and m: "pd_msg_ok (h, p)"
  shows "\<exists>q. \<not> tcpm_has_pending_message q \<and> prl_run env True (prl_exec (Phy_message (Inr (h, p))) s) =
    tch_run env (prl_tx_run env (tch_run env (rch_run env (prl_rx_message env (arrived s q h p)))))"
proof -
  define s0 where "s0 = prl_exec (Phy_message (Inr (h, p))) s"
  note facts = idle [unfolded prl_idle_def]
  obtain q where q: "\<not> tcpm_has_pending_message q" "prl_rx_wait_for_phy_message env s0 = prl_rx_message env (arrived s q h p)"
    using rx_take [OF _ _ wf m, of env] facts by (auto simp: s0_def)
  have "prl_hr_run env s0 = s0" using facts by (intro hr_run_nothing) (simp_all add: s0_def)
  then show ?thesis
    using facts q by (intro exI [of _ q]) (simp add: prl_run_def prl_run_enabled_def Let_def s0_def)
qed

lemma rx_message_wanted:
  assumes "wanted env s (rx_header s)" "rx_sop s = sop_of (rx_header s)"
  shows "prl_rx_message env s =
    (if rx_msg_id s ! rx_sop s = msg_ident (rx_header s) then s
     else prl_rx_new_message env (PD_HEADER_CNT (rx_header s)) (PD_HEADER_TYPE (rx_header s)) (msg_ident (rx_header s)) s)"
proof -
  have "\<not> CHK_BUF_SIZE < PD_HEADER_CNT (rx_header s)" using header_cnt_le by (simp add: CHK_BUF_SIZE_def linorder_not_less)
  moreover have "check (rx_sop s < NUM_SOP_STAR_TYPES) s = s"
    using assms by (simp add: check_def NUM_SOP_STAR_TYPES_def sop_of_def word_less_nat_alt wanted_def)
  ultimately show ?thesis
    using assms(1) by (auto simp: prl_rx_message_def Let_def wanted_def TCPCI_MSG_SOP_def PD_PLUG_FROM_DFP_UFP_def msg_ident_def
        split: if_splits)
qed

lemma tail_of_run:
  assumes "prl_idle s" "\<And>h. \<not> env_local_ams env h"
  shows "tch_run env (prl_tx_run env (tch_run env s)) = s"
proof -
  note facts = assms(1) [unfolded prl_idle_def]
  have "tch_run env s = s" using facts by (simp add: tch_run_def tch_wait_for_message_request_from_pe_run_def)
  moreover have "leave_ams env s = s" using facts assms(2) by (cases s) (simp add: leave_ams_def)
  then have "prl_tx_run env s = s"
    using facts assms(2) by (simp add: prl_tx_run_def prl_tx_wait_for_message_request_run_def)
  ultimately show ?thesis by simp
qed

lemma arrived_idle: "prl_idle s \<Longrightarrow> \<not> tcpm_has_pending_message q \<Longrightarrow> prl_idle (arrived s q h p)"
  by (simp add: prl_idle_def arrived_def)

definition tx_waiting :: "prl \<Rightarrow> bool" where
  "tx_waiting s \<longleftrightarrow> tx_state s = Some PRL_TX_WAIT_FOR_MESSAGE_REQUEST \<and> tx_flags s = {} \<and> xmit_status s = TCPC_TX_UNSET"

lemma idle_tx_waiting: "prl_idle s \<Longrightarrow> tx_waiting s"
  by (simp add: prl_idle_def tx_waiting_def)

lemma discard_nothing:
  assumes "tx_waiting s"
  shows "set_state_prl_tx env PRL_TX_DISCARD_MESSAGE s = s\<lparr>effects := Rx_enable (env_connected env (effects s)) # effects s\<rparr>"
proof -
  have "set_state_prl_tx env PRL_TX_DISCARD_MESSAGE s =
    s\<lparr>effects := Rx_enable (env_connected env (effects s)) # effects s, tx_state := Some PRL_TX_WAIT_FOR_MESSAGE_REQUEST,
      xmit_status := TCPC_TX_UNSET\<rparr>"
  using assms
  by (simp add: tx_waiting_def set_state_prl_tx_def tx_move_def prl_tx_exit_def prl_tx_entry_def prl_tx_discard_message_entry_def
      tx_to_phy_layer_reset_def prl_tx_phy_layer_reset_entry_def tx_to_wait_def prl_tx_wait_for_message_request_entry_def emit_def)
  also have "\<dots> = s\<lparr>effects := Rx_enable (env_connected env (effects s)) # effects s\<rparr>"
    using assms by (cases s) (simp add: tx_waiting_def)
  finally show ?thesis .
qed

text \<open>A new message with objects, received while nothing is sent.\<close>

lemma rx_new_message:
  assumes "tx_waiting s" "wanted env s (rx_header s)" "rx_sop s = sop_of (rx_header s)"
    and "rx_msg_id s ! rx_sop s \<noteq> msg_ident (rx_header s)"
  shows "prl_rx_message env s =
    (let s1 = s\<lparr>effects := Rx_enable (env_connected env (effects s)) # effects s,
                rx_msg_id := (rx_msg_id s)[rx_sop s := msg_ident (rx_header s)]\<rparr>
     in if tch_state s \<noteq> Some TCH_WAIT_FOR_MESSAGE_REQUEST_FROM_PE \<or> PRL_FLAGS_MSG_XMIT \<in> tch_flags s
        then s1\<lparr>tch_flags := insert PRL_FLAGS_MSG_RECEIVED (tch_flags s)\<rparr>
        else s1\<lparr>rch_flags := insert PRL_FLAGS_MSG_RECEIVED (rch_flags s)\<rparr>)"
proof -
  have "\<not> ping (PD_HEADER_CNT (rx_header s)) (PD_HEADER_TYPE (rx_header s))"
    using assms(2) by (auto simp: wanted_def ping_def)
  moreover have "xmit_status s \<noteq> TCPC_TX_COMPLETE_SUCCESS" using assms(1) by (simp add: tx_waiting_def)
  ultimately show ?thesis
    using assms(4) discard_nothing [OF assms(1), of env]
    by (simp only: rx_message_wanted [OF assms(2,3)] prl_rx_new_message_def prl_rx_route_def Let_def if_False if_True simp_thms)
      simp
qed

text \<open>The chunked reception passes a message up that is flagged as received.\<close>

lemma pass_up:
  assumes "rch_state s = Some RCH_WAIT_FOR_MESSAGE_FROM_PROTOCOL_LAYER" "PRL_FLAGS_MSG_RECEIVED \<in> rch_flags s"
    "PD_HEADER_EXT (rx_header s) = 0" "length (rx_chk_buf s) = 28" "length (rx_buf s) = 260" "env_calm env"
  shows "\<exists>n b. rch_run env s = s\<lparr>rch_flags := {PRL_FLAGS_CHUNKING}, pdmsg_flags := pdmsg_flags s - {PRL_FLAGS_ABORT},
     rch_state := Some RCH_WAIT_FOR_MESSAGE_FROM_PROTOCOL_LAYER, num_bytes_received := n, rx_len := n, rx_buf := b,
     effects := Pe_message_received (rx_header s) (payload_of (rx_header s) (rx_chk_buf s)) # effects s\<rparr>"
proof -
  define n where "n = PD_HEADER_CNT (rx_header s) * 4"
  have n: "unat n \<le> 28" "unat n = unat (PD_HEADER_CNT (rx_header s)) * 4"
    using header_cnt_bytes [of "rx_header s"] by (simp_all add: n_def)
  define b where "b = put_bytes 0 (take (unat n) (rx_chk_buf s)) (rx_buf s)"
  have b: "take (unat n) b = payload_of (rx_header s) (rx_chk_buf s)"
    using n assms(4) by (simp add: b_def put_bytes_def payload_of_def)
  define c where "c = s\<lparr>rch_flags := rch_flags s - {PRL_FLAGS_MSG_RECEIVED}, num_bytes_received := n, rx_buf := b, rx_len := n\<rparr>"
  have copy: "copy_chunk_to_ext (s\<lparr>rch_flags := rch_flags s - {PRL_FLAGS_MSG_RECEIVED}\<rparr>) = c"
    using n(1) by (cases s) (simp add: copy_chunk_to_ext_def Let_def check_def c_def n_def b_def)
  have "rch_run env s = set_state_rch env RCH_PASS_UP_MESSAGE c"
    using assms(1-3) copy by (simp add: rch_run_def rch_wait_for_message_from_protocol_layer_run_def)
  also have "\<dots> = rch_pass_up_message_entry env (c\<lparr>rch_state := Some RCH_PASS_UP_MESSAGE\<rparr>)"
    using assms(1) by (simp add: set_state_rch_def rch_move_def rch_entry_def rch_exit_def c_def)
  also have "\<dots> = s\<lparr>rch_flags := {PRL_FLAGS_CHUNKING}, pdmsg_flags := pdmsg_flags s - {PRL_FLAGS_ABORT},
     rch_state := Some RCH_WAIT_FOR_MESSAGE_FROM_PROTOCOL_LAYER, num_bytes_received := n, rx_len := n, rx_buf := b,
     effects := Pe_message_received (rx_header s) (payload_of (rx_header s) (rx_chk_buf s)) # effects s\<rparr>"
    using assms(6) b
    by (simp add: rch_pass_up_message_entry_def tell_pe_def Let_def emit_def received_def env_calm_def rch_to_wait_def rch_move_def
        rch_exit_def rch_wait_for_message_from_protocol_layer_entry_def c_def)
  finally show ?thesis by blast
qed

lemma receive_new:
  assumes idle: "prl_idle s" and wf: "prl_wf s" and env: "env_calm env" and m: "pd_msg_ok (h, p)"
    and us: "for_us env s h" and new: "rx_msg_id s ! sop_of h \<noteq> msg_ident h"
  defines "t \<equiv> fold prl_exec [Phy_message (Inr (h, p)), Prl_run env True] s"
  shows "prl_idle t \<and> rx_msg_id t = (rx_msg_id s)[sop_of h := msg_ident h] \<and>
    effects t = [Pe_message_received h (payload_of h p), Rx_enable (env_connected env (effects s))] @ effects s"
proof -
  obtain q where q: "\<not> tcpm_has_pending_message q" and
    run: "prl_run env True (prl_exec (Phy_message (Inr (h, p))) s) =
      tch_run env (prl_tx_run env (tch_run env (rch_run env (prl_rx_message env (arrived s q h p)))))"
    using rx_run [OF idle wf m, of env] by auto
  define a where "a = arrived s q h p"
  have len: "length (rx_chk_buf s) = 28" "length p = 28" "length (rx_buf s) = 260"
    using wf m by (simp_all add: prl_wf_def pd_msg_ok_def EXTENDED_BUFFER_SIZE_def)
  have a: "prl_idle a" "rx_header a = h" "rx_sop a = sop_of h" "rx_msg_id a = rx_msg_id s" "effects a = effects s"
      "length (rx_chk_buf a) = 28" "length (rx_buf a) = 260" "rx_chk_buf a = p"
    using arrived_idle [OF idle q, of h p] len by (simp_all add: a_def arrived_def put_bytes_def)
  have us': "wanted env a (rx_header a)" using us a by (simp add: for_us_def wanted_def)
  define b where "b = prl_rx_message env a"
  have b: "b = a\<lparr>effects := Rx_enable (env_connected env (effects s)) # effects s,
      rx_msg_id := (rx_msg_id s)[sop_of h := msg_ident h], rch_flags := insert PRL_FLAGS_MSG_RECEIVED (rch_flags a)\<rparr>"
    using rx_new_message [OF idle_tx_waiting [OF a(1)] us'] new a by (simp add: b_def Let_def) (simp add: prl_idle_def)
  note facts = a(1) [unfolded prl_idle_def]
  have "\<exists>n bf. rch_run env b = b\<lparr>rch_flags := {PRL_FLAGS_CHUNKING}, pdmsg_flags := pdmsg_flags b - {PRL_FLAGS_ABORT},
     rch_state := Some RCH_WAIT_FOR_MESSAGE_FROM_PROTOCOL_LAYER, num_bytes_received := n, rx_len := n, rx_buf := bf,
     effects := Pe_message_received (rx_header b) (payload_of (rx_header b) (rx_chk_buf b)) # effects b\<rparr>"
    using facts a env us by (intro pass_up) (simp_all add: b for_us_def)
  then obtain n bf where r: "rch_run env b = b\<lparr>rch_flags := {PRL_FLAGS_CHUNKING}, pdmsg_flags := pdmsg_flags b - {PRL_FLAGS_ABORT},
     rch_state := Some RCH_WAIT_FOR_MESSAGE_FROM_PROTOCOL_LAYER, num_bytes_received := n, rx_len := n, rx_buf := bf,
     effects := Pe_message_received h (payload_of h p) # effects b\<rparr>"
    using a by (auto simp: b)
  have idle': "prl_idle (rch_run env b)" using facts by (simp add: r prl_idle_def) (simp add: b)
  have "t = rch_run env b"
    using tail_of_run [OF idle'] env run by (simp add: t_def b_def a_def env_calm_def)
  then show ?thesis using idle' by (simp add: r) (simp add: b)
qed

lemma receive_again:
  assumes idle: "prl_idle s" and wf: "prl_wf s" and env: "env_calm env" and m: "pd_msg_ok (h, p)"
    and us: "for_us env s h" and old: "rx_msg_id s ! sop_of h = msg_ident h"
  defines "t \<equiv> fold prl_exec [Phy_message (Inr (h, p)), Prl_run env True] s"
  shows "prl_idle t \<and> rx_msg_id t = rx_msg_id s \<and> effects t = effects s"
proof -
  obtain q where q: "\<not> tcpm_has_pending_message q" and
    run: "prl_run env True (prl_exec (Phy_message (Inr (h, p))) s) =
      tch_run env (prl_tx_run env (tch_run env (rch_run env (prl_rx_message env (arrived s q h p)))))"
    using rx_run [OF idle wf m, of env] by auto
  define a where "a = arrived s q h p"
  have a: "prl_idle a" "rx_header a = h" "rx_sop a = sop_of h" "rx_msg_id a = rx_msg_id s" "effects a = effects s"
    using arrived_idle [OF idle q, of h p] by (simp_all add: a_def arrived_def)
  have "wanted env a (rx_header a)" using us a by (simp add: for_us_def wanted_def)
  then have "prl_rx_message env a = a" using rx_message_wanted [of env a] old a by simp
  moreover have "rch_run env a = a" using a(1) by (intro rch_run_nothing) (simp_all add: prl_idle_def)
  ultimately have "t = a"
    using tail_of_run [OF a(1)] env run by (simp add: t_def a_def env_calm_def)
  then show ?thesis using a by simp
qed

text \<open>A message and its retransmissions, one for each environment.\<close>

definition resent :: "pd_msg \<Rightarrow> prl_env list \<Rightarrow> prl_op list" where
  "resent m es = concat (map (\<lambda>e. [Phy_message (Inr m), Prl_run e True]) es)"

lemma receive_resent:
  assumes "\<forall>e\<in>set es. env_calm e \<and> (\<forall>u. for_us e u h)" "pd_msg_ok (h, p)"
    and "prl_idle s" "prl_wf s" "rx_msg_id s ! sop_of h = msg_ident h"
  shows "prl_idle (fold prl_exec (resent (h, p) es) s) \<and> effects (fold prl_exec (resent (h, p) es) s) = effects s"
  using assms
proof (induction es arbitrary: s)
  case (Cons e es)
  define t where "t = fold prl_exec [Phy_message (Inr (h, p)), Prl_run e True] s"
  have e: "env_calm e" "for_us e s h" using Cons.prems(1) by auto
  have t: "prl_idle t" "rx_msg_id t = rx_msg_id s" "effects t = effects s"
    using receive_again [OF Cons.prems(3,4) e(1) Cons.prems(2) e(2) Cons.prems(5)] by (simp_all add: t_def)
  have "prl_wf t"
    unfolding t_def using e(1) Cons.prems(2,4) by (intro prl_wf_execs) (auto simp: calm_pe_ok)
  then have "prl_idle (fold prl_exec (resent (h, p) es) t) \<and> effects (fold prl_exec (resent (h, p) es) t) = effects t"
    using Cons.prems t by (intro Cons.IH) auto
  moreover have "fold prl_exec (resent (h, p) (e # es)) s = fold prl_exec (resent (h, p) es) t"
    by (simp add: resent_def t_def)
  ultimately show ?case using t(3) by simp
qed (simp add: resent_def)

text \<open>
  C4: a message that an idle layer receives reaches the policy engine in the next run, with its header and
  exactly the bytes that the header counts, and it reaches it once: however often the partner sends it
  again with the same message id, the policy engine hears nothing more, and the layer is idle.
\<close>

theorem prl_receives_once:
  assumes "prl_idle s" "prl_wf s" "pd_msg_ok (h, p)" "rx_msg_id s ! sop_of h \<noteq> msg_ident h"
    and "\<forall>e\<in>set (env # es). env_calm e \<and> (\<forall>u. for_us e u h)"
  defines "t \<equiv> fold prl_exec (resent (h, p) (env # es)) s"
  shows "prl_idle t \<and> effects t = [Pe_message_received h (payload_of h p), Rx_enable (env_connected env (effects s))] @ effects s"
proof -
  define t1 where "t1 = fold prl_exec [Phy_message (Inr (h, p)), Prl_run env True] s"
  have env: "env_calm env" "for_us env s h" using assms(5) by auto
  have t1: "prl_idle t1" "rx_msg_id t1 = (rx_msg_id s)[sop_of h := msg_ident h]"
      "effects t1 = [Pe_message_received h (payload_of h p), Rx_enable (env_connected env (effects s))] @ effects s"
    using receive_new [OF assms(1,2) env(1) assms(3) env(2) assms(4)] by (simp_all add: t1_def)
  have "prl_wf t1"
    unfolding t1_def using env(1) assms(2,3) by (intro prl_wf_execs) (auto simp: calm_pe_ok)
  moreover have "sop_of h < 5" using assms(3) by (simp add: pd_msg_ok_def sop_of_def word_less_nat_alt)
  then have "rx_msg_id t1 ! sop_of h = msg_ident h" using t1(2) assms(2) by (simp add: prl_wf_def ids_ok_def)
  moreover have "t = fold prl_exec (resent (h, p) es) t1" by (simp add: t_def t1_def resent_def)
  ultimately show ?thesis
    using receive_resent [OF _ assms(3) t1(1)] assms(5) t1(3) by simp
qed

lemma for_us_quiet: "for_us (quiet_env now) u 0x1042"
  by (simp add: for_us_def wanted_def quiet_env_def PD_HEADER_GET_SOP_def PD_HEADER_DROLE_def PD_HEADER_CNT_def PD_HEADER_EXT_def)

theorem prl_receives_once_witness:
  "prl_idle (fold prl_exec (resent (0x1042, replicate 28 9) [quiet_env 2, quiet_env 3, quiet_env 4]) prl_started)"
proof -
  have m: "pd_msg_ok (0x1042, replicate 28 9)" by (simp add: pd_msg_ok_def PD_HEADER_GET_SOP_def)
  have new: "rx_msg_id prl_started ! sop_of 0x1042 \<noteq> msg_ident 0x1042" by code_simp
  show ?thesis
    using prl_receives_once [OF prl_started_ok m new, of "quiet_env 2" "[quiet_env 3, quiet_env 4]"] for_us_quiet env_calm_quiet
    by simp
qed

end
