(* ===== verification/PrlHeaders.thy ===== *)
theory PrlHeaders
  imports Prl
begin

section \<open>The headers of messages and of chunks\<close>

text \<open>What is packed into a header comes out of it, for fields within their widths.\<close>

lemma not_bit_above: "w = take_bit k w \<Longrightarrow> k \<le> n \<Longrightarrow> \<not> bit w n" for w :: u32
  by (metis bit_take_bit_iff linorder_not_less)

lemma bit_below_width: "w = take_bit k w \<Longrightarrow> bit w n \<Longrightarrow> n < k" for w :: u32
  using not_bit_above linorder_not_less by blast

lemma small_word: "w < 2 ^ k \<Longrightarrow> k < 32 \<Longrightarrow> w = take_bit k w" for w :: u32
  by (simp add: take_bit_eq_mod mod_word_less)

lemma PD_HEADER_fields:
  assumes "t < 32" "p < 2" "d < 2" "i < 8" "c < 8" "r < 4" "e < 2"
  defines "h \<equiv> PD_HEADER t p d i c r e"
  shows "PD_HEADER_TYPE h = t" "PD_HEADER_PROLE h = p" "PD_HEADER_DROLE h = d" "PD_HEADER_ID h = i"
    "PD_HEADER_CNT h = c" "PD_HEADER_EXT h = e" "PD_HEADER_GET_SOP h = 0"
proof -
  have small: "t = take_bit 5 t" "p = take_bit 1 p" "d = take_bit 1 d" "i = take_bit 3 i" "c = take_bit 3 c"
      "r = take_bit 2 r" "e = take_bit 1 e"
    using assms small_word [of t 5] small_word [of p 1] small_word [of d 1] small_word [of i 3] small_word [of c 3]
      small_word [of r 2] small_word [of e 1] by simp_all
  note up = small [THEN not_bit_above]
  have masks: "(7 :: u32) = mask 3" "(31 :: u32) = mask 5" "(15 :: u32) = mask 4"
    by (simp_all add: mask_eq_exp_minus_1)
  note defs = h_def PD_HEADER_def PD_HEADER_TYPE_def PD_HEADER_PROLE_def PD_HEADER_DROLE_def PD_HEADER_ID_def
      PD_HEADER_CNT_def PD_HEADER_EXT_def PD_HEADER_GET_SOP_def masks
  show "PD_HEADER_TYPE h = t"
    by (rule bit_word_eqI) (auto simp: defs bit_simps bit_1_iff up, rule bit_below_width [OF small(1)])
  show "PD_HEADER_PROLE h = p"
    by (rule bit_word_eqI) (auto simp: defs bit_simps bit_1_iff up; use bit_below_width [OF small(2)] in fastforce)
  show "PD_HEADER_DROLE h = d"
    by (rule bit_word_eqI) (auto simp: defs bit_simps bit_1_iff up; use bit_below_width [OF small(3)] in fastforce)
  show "PD_HEADER_ID h = i"
    by (rule bit_word_eqI) (auto simp: defs bit_simps bit_1_iff up; use bit_below_width [OF small(4)] in fastforce)
  show "PD_HEADER_CNT h = c"
    by (rule bit_word_eqI) (auto simp: defs bit_simps bit_1_iff up; use bit_below_width [OF small(5)] in fastforce)
  show "PD_HEADER_EXT h = e"
    by (rule bit_word_eqI) (auto simp: defs bit_simps bit_1_iff up; use bit_below_width [OF small(7)] in fastforce)
  show "PD_HEADER_GET_SOP h = 0" by (rule bit_word_eqI) (auto simp: defs bit_simps bit_1_iff up)
qed

lemma PD_EXT_HEADER_fields:
  assumes "n < 16" "r < 2" "d < 512"
  defines "h \<equiv> PD_EXT_HEADER n r d"
  shows "PD_EXT_HEADER_CHUNKED h = 1" "PD_EXT_HEADER_CHUNK_NUM h = n" "PD_EXT_HEADER_REQ_CHUNK h = r"
    "PD_EXT_HEADER_DATA_SIZE h = d" "h = take_bit 16 h"
proof -
  have small: "n = take_bit 4 n" "r = take_bit 1 r" "d = take_bit 9 d"
    using assms small_word [of n 4] small_word [of r 1] small_word [of d 9] by simp_all
  note up = small [THEN not_bit_above]
  have masks: "(511 :: u32) = mask 9" "(15 :: u32) = mask 4"
    by (simp_all add: mask_eq_exp_minus_1)
  note defs = h_def PD_EXT_HEADER_def PD_EXT_HEADER_CHUNKED_def PD_EXT_HEADER_CHUNK_NUM_def PD_EXT_HEADER_REQ_CHUNK_def
      PD_EXT_HEADER_DATA_SIZE_def masks
  show "PD_EXT_HEADER_CHUNKED h = 1" by (rule bit_word_eqI) (auto simp: defs bit_simps bit_1_iff up)
  have "drop_bit 11 (push_bit 15 1 OR push_bit 11 n OR push_bit 10 r OR d) = push_bit 4 1 OR n"
    by (rule bit_word_eqI) (auto simp: bit_simps bit_1_iff up, drule bit_below_width [OF small(1)], simp)
  then show "PD_EXT_HEADER_CHUNK_NUM h = n"
    using small(1) by (simp add: h_def PD_EXT_HEADER_def PD_EXT_HEADER_CHUNK_NUM_def masks(2) bit.conj_disj_distrib2
        flip: take_bit_eq_mask)
  show "PD_EXT_HEADER_REQ_CHUNK h = r"
    by (rule bit_word_eqI) (auto simp: defs bit_simps bit_1_iff up; use bit_below_width [OF small(2)] in fastforce)
  have "take_bit 9 (push_bit 15 1 OR push_bit 11 n OR push_bit 10 r OR d) = take_bit 9 d"
    by (rule bit_word_eqI) (auto simp: bit_simps bit_1_iff up)
  then show "PD_EXT_HEADER_DATA_SIZE h = d"
    using small(3) by (simp add: h_def PD_EXT_HEADER_def PD_EXT_HEADER_DATA_SIZE_def masks(1) flip: take_bit_eq_mask)
  show "h = take_bit 16 h" by (rule bit_word_eqI) (auto simp: defs bit_simps bit_1_iff up)
qed

text \<open>The two bytes in front of a chunk are the extended header.\<close>

lemma ext_header_bytes:
  assumes "h = take_bit 16 h"
  shows "(ucast (le16 h ! 0) OR push_bit 8 (ucast (le16 h ! 1)) :: u32) = h"
proof (rule bit_word_eqI)
  fix n assume "n < LENGTH(32)"
  show "bit (ucast (le16 h ! 0) OR push_bit 8 (ucast (le16 h ! 1)) :: u32) n = bit h n"
    using bit_below_width [OF assms, of n] by (auto simp: le16_def bit_simps)
qed

lemma le32_16: "h = take_bit 16 h \<Longrightarrow> le32 h = le16 h @ [0, 0]"
  by (simp add: le32_def le16_def) (intro conjI bit_word_eqI; simp add: bit_simps not_bit_above)

end
