(* ===== verification/PrlChunks.thy ===== *)
theory PrlChunks
  imports PrlReceive PrlHeaders
begin

section \<open>An extended message from one protocol layer to another\<close>

text \<open>
  Two protocol layers and the wire between them: what one hands to its port controller arrives in the
  cache of the other. An extended message of up to 260 bytes goes over in chunks of 26 bytes, the
  receiver requesting each chunk but the first.
\<close>

definition chunk :: "u8 list \<Rightarrow> nat \<Rightarrow> u8 list" where "chunk bs k = take 26 (drop (26 * k) bs)"

definition chunk_header :: "u8 list \<Rightarrow> nat \<Rightarrow> u32" where
  "chunk_header bs k = PD_EXT_HEADER (of_nat k) 0 (of_nat (length bs))"

definition chunk_frame :: "u8 list \<Rightarrow> nat \<Rightarrow> u8 list" where
  "chunk_frame bs k = le16 (chunk_header bs k) @ chunk bs k @ replicate (26 - length (chunk bs k)) 0"

definition chunk_objects :: "u8 list \<Rightarrow> nat \<Rightarrow> nat" where "chunk_objects bs k = (length (chunk bs k) + 5) div 4"

text \<open>The last chunk, and where a chunk ends.\<close>

definition last_chunk :: "u8 list \<Rightarrow> nat" where "last_chunk bs = (length bs - 1) div 26"

definition chunk_end :: "u8 list \<Rightarrow> nat \<Rightarrow> nat" where "chunk_end bs k = min (length bs) (26 * (k + 1))"

lemma chunk_bounds:
  assumes "0 < length bs" "length bs \<le> 260" "k \<le> last_chunk bs"
  shows "26 * k < length bs" "k \<le> 9" "length (chunk bs k) = min 26 (length bs - 26 * k)"
    "chunk_end bs k = 26 * k + length (chunk bs k)" "chunk_end bs k \<le> 260"
    "chunk_end bs k = length bs \<longleftrightarrow> k = last_chunk bs"
    "k < last_chunk bs \<Longrightarrow> chunk_end bs k = 26 * (k + 1)" "1 \<le> chunk_objects bs k" "chunk_objects bs k \<le> 7"
proof -
  have k: "26 * k \<le> length bs - 1" using assms(3) by (simp add: last_chunk_def less_eq_div_iff_mult_less_eq mult.commute)
  then show lt: "26 * k < length bs" using assms(1) by linarith
  then show "k \<le> 9" using assms(2) by linarith
  show len: "length (chunk bs k) = min 26 (length bs - 26 * k)" by (simp add: chunk_def)
  then show "chunk_end bs k = 26 * k + length (chunk bs k)" using lt by (auto simp: chunk_end_def)
  show "chunk_end bs k \<le> 260" using assms(2) by (simp add: chunk_end_def)
  have last: "k < last_chunk bs \<longleftrightarrow> 26 * (k + 1) < length bs"
    using assms(1) less_eq_div_iff_mult_less_eq [of 26 "k + 1" "length bs - 1"] by (auto simp: last_chunk_def)
  then show "chunk_end bs k = length bs \<longleftrightarrow> k = last_chunk bs"
    using assms(3) by (auto simp: chunk_end_def)
  show "chunk_end bs k = 26 * (k + 1)" if "k < last_chunk bs" using last that by (simp add: chunk_end_def)
  show "1 \<le> chunk_objects bs k" "chunk_objects bs k \<le> 7" using len lt by (auto simp: chunk_objects_def)
qed

lemma take_chunk: "take (26 * k) bs @ chunk bs k = take (26 * (k + 1)) bs"
  by (simp add: chunk_def take_add [symmetric] algebra_simps)

lemma le16_length [simp]: "length (le16 w) = 2"
  by (simp add: le16_def)

lemma chunk_frame_length: "length (chunk_frame bs k) = 28"
  by (simp add: chunk_frame_def chunk_def)

text \<open>The sender's chunk in \<open>tx_chk_buf\<close>.\<close>

lemma construct_chunk:
  assumes "0 < length bs" "length bs \<le> 260" "k \<le> last_chunk bs" "PRL_FLAGS_MSG_RECEIVED \<notin> tch_flags s"
    and "tx_len s = of_nat (length bs)" "send_offset s = of_nat (26 * k)" "chunk_number_to_send s = of_nat k"
    and "take (length bs) (tx_buf s) = bs" "length (tx_chk_buf s) = 28" "length (tx_buf s) = 260" "\<not> fault s"
  shows "\<exists>c. tch_construct_chunked_message_entry env s = s\<lparr>tx_chk_buf := chunk_frame bs k, rx_chk_buf := c, send_offset := of_nat (chunk_end bs k),
      data_objs := of_nat (chunk_objects bs k), tx_flags := insert PRL_FLAGS_MSG_XMIT (tx_flags s)\<rparr>"
proof -
  note b = chunk_bounds [OF assms(1-3)]
  have "unat (of_nat n :: u32) = n" if "n \<le> 260" for n using that by (simp only: unat_of_nat) simp
  then have off: "unat (send_offset s) = 26 * k" "unat (tx_len s) = length bs"
    unfolding assms(5,6) using assms(2) b(1) by (simp_all only: less_imp_le [OF less_le_trans])
  define num where "num = tx_chunk_bytes (ucast (tx_len s - send_offset s))"
  have le: "send_offset s \<le> tx_len s" "tx_len s \<le> 260" using off b(1) assms(2) by (simp_all add: word_le_nat_alt)
  note num = chunk_to_send [OF le, folded num_def, unfolded off]
  have n: "unat num = length (chunk bs k)" using num(1) b(3) by simp
  have data: "take (unat num) (drop (26 * k) (tx_buf s)) = chunk bs k"
  proof -
    have "chunk bs k = take (min 26 (length bs - 26 * k)) (drop (26 * k) (tx_buf s))"
      unfolding chunk_def by (subst assms(8) [symmetric]) (simp add: drop_take)
    then show ?thesis using n b(3) by simp
  qed
  have "unat (num + 2 + 3) = length (chunk bs k) + 5" using n b(3) by (simp add: unat_word_ariths)
  then have "unat (drop_bit 2 (num + 2 + 3)) = chunk_objects bs k"
    by (simp add: unat_drop_bit_eq drop_bit_eq_div unat_div chunk_objects_def)
  then have objs: "drop_bit 2 (num + 2 + 3) = of_nat (chunk_objects bs k)" by (rule word_of_unat)
  have new: "send_offset s + ucast num = of_nat (chunk_end bs k)"
    using num(2) n b(4) by (intro word_of_unat) simp
  define c where "c = put_bytes 0 (replicate 2 0) (rx_chk_buf s)"
  have lc: "length (chunk bs k) \<le> 26" by (simp add: chunk_def)
  have frame: "put_bytes 2 (chunk bs k) (put_bytes 2 (replicate 26 0) (put_bytes 0 (le16 (chunk_header bs k)) (tx_chk_buf s)))
      = chunk_frame bs k"
    using assms(9) lc by (simp add: put_bytes_def chunk_frame_def)
  have "tch_construct_chunked_message_entry env s = s\<lparr>tx_chk_buf := chunk_frame bs k, rx_chk_buf := c, send_offset := of_nat (chunk_end bs k),
      data_objs := of_nat (chunk_objects bs k), tx_flags := insert PRL_FLAGS_MSG_XMIT (tx_flags s)\<rparr>"
  proof -
    have "PD_EXT_HEADER (chunk_number_to_send s) 0 (tx_len s) = chunk_header bs k" by (simp add: chunk_header_def assms(5,7))
    then show ?thesis
      using assms(4,9,10,11) lc data b(4,5) n objs new off frame
      by (simp add: tch_construct_chunked_message_entry_def Let_def put_chk_def clear_chunk_def check_def EXTENDED_BUFFER_SIZE_def c_def
          flip: num_def)
  qed
  then show ?thesis by blast
qed

subsection \<open>Runs\<close>

text \<open>A running layer at revision 3 that last sent on SOP; it has taken all messages.\<close>

definition steady :: "prl \<Rightarrow> bool" where
  "steady s \<longleftrightarrow> local_state s = SM_RUN \<and> hr_state s = Some PRL_HR_WAIT_FOR_REQUEST \<and> hr_flags s = {} \<and>
     prl_get_rev 0 s = PD_REV30 \<and> xmit_type s = 0 \<and> \<not> tcpm_has_pending_message (rx_queue s)"

text \<open>One side: no AMS and a fixed data role.\<close>

definition side :: "prl_env \<Rightarrow> u32 \<Rightarrow> bool" where
  "side env d \<longleftrightarrow> env_calm env \<and> d < 2 \<and> (\<forall>h. env_data_role env h = d \<and> env_power_role env h < 2)"

lemma side_calm: "side env d \<Longrightarrow> env_calm env"
  by (simp add: side_def)

lemma run_steady:
  "steady s \<Longrightarrow> prl_run env True s = tch_run env (prl_tx_run env (tch_run env (rch_run env (prl_rx_wait_for_phy_message env s))))"
  by (simp add: prl_run_def prl_run_enabled_def Let_def steady_def hr_run_nothing)

lemma run_steady_message:
  assumes "steady s" "PRL_FLAGS_MSG_RECEIVED \<notin> rch_flags s" "prl_wf s" "pd_msg_ok (h, p)"
  shows "\<exists>q. \<not> tcpm_has_pending_message q \<and> prl_wf (arrived s q h p) \<and> prl_run env True (prl_exec (Phy_message (Inr (h, p))) s) =
    tch_run env (prl_tx_run env (tch_run env (rch_run env (prl_rx_message env (arrived s q h p)))))"
proof -
  define s0 where "s0 = prl_exec (Phy_message (Inr (h, p))) s"
  obtain q where q: "\<not> tcpm_has_pending_message q" "prl_wf (arrived s q h p)"
      "prl_rx_wait_for_phy_message env s0 = prl_rx_message env (arrived s q h p)"
    using rx_take [OF _ assms(2-4), of env] assms(1) by (auto simp: s0_def steady_def)
  have "prl_hr_run env s0 = s0" using assms(1) by (intro hr_run_nothing) (simp_all add: s0_def steady_def)
  then show ?thesis
    using assms(1) q by (intro exI [of _ q]) (simp add: prl_run_def prl_run_enabled_def Let_def s0_def steady_def)
qed

lemma tx_nothing: "tx_waiting s \<Longrightarrow> env_calm env \<Longrightarrow> prl_tx_run env s = s"
  using leave_no_ams [of env s]
  by (simp add: tx_waiting_def prl_tx_run_def prl_tx_wait_for_message_request_run_def env_calm_def)

lemma tch_nothing:
  "tch_state s = Some TCH_WAIT_FOR_MESSAGE_REQUEST_FROM_PE \<Longrightarrow> tch_flags s = {PRL_FLAGS_CHUNKING} \<Longrightarrow> tch_run env s = s"
  by (simp add: tch_run_def tch_wait_for_message_request_from_pe_run_def)

subsection \<open>The sender\<close>

text \<open>The message in \<open>tx_emsg\<close>, and nothing being received.\<close>

definition sender :: "u8 list \<Rightarrow> u8 \<Rightarrow> prl \<Rightarrow> bool" where
  "sender bs m s \<longleftrightarrow> steady s \<and> prl_wf s \<and> rch_state s = Some RCH_WAIT_FOR_MESSAGE_FROM_PROTOCOL_LAYER \<and>
     PRL_FLAGS_MSG_RECEIVED \<notin> rch_flags s \<and> PRL_FLAGS_CHUNKING \<in> rch_flags s \<and>
     msg_type s = m \<and> ext s = 1 \<and> tx_len s = of_nat (length bs) \<and> take (length bs) (tx_buf s) = bs \<and>
     tx_flags s = {} \<and> pdmsg_flags s = {}"

definition ready_chunk :: "u8 list \<Rightarrow> u8 \<Rightarrow> nat \<Rightarrow> prl \<Rightarrow> bool" where
  "ready_chunk bs m k s \<longleftrightarrow> sender bs m s \<and> tch_state s = Some TCH_WAIT_CHUNK_REQUEST \<and> tch_flags s = {PRL_FLAGS_CHUNKING} \<and>
     chunk_number_to_send s = of_nat k \<and> send_offset s = of_nat (26 * k) \<and> tx_waiting s"

definition chunk_msg_header :: "prl_env \<Rightarrow> u8 list \<Rightarrow> u8 \<Rightarrow> nat \<Rightarrow> prl_effect list \<Rightarrow> u32 \<Rightarrow> u32" where
  "chunk_msg_header env bs m k es i =
     PD_HEADER (ucast m) (env_power_role env es) (env_data_role env es) i (of_nat (chunk_objects bs k)) 2 1"

definition sending_chunk :: "prl_env \<Rightarrow> u8 list \<Rightarrow> u8 \<Rightarrow> nat \<Rightarrow> prl_effect list \<Rightarrow> prl \<Rightarrow> bool" where
  "sending_chunk env bs m k es s \<longleftrightarrow> sender bs m s \<and> tch_state s = Some TCH_SENDING_CHUNKED_MESSAGE \<and>
     tch_flags s = {PRL_FLAGS_CHUNKING} \<and> chunk_number_to_send s = of_nat k \<and> send_offset s = of_nat (chunk_end bs k) \<and>
     tx_state s = Some PRL_TX_WAIT_FOR_PHY_RESPONSE \<and> xmit_status s = TCPC_TX_WAIT \<and> last_xmit_type s = 0 \<and>
     effects s = Transmit 0 (chunk_msg_header env bs m k es (msg_id_counter s ! 0)) (chunk_frame bs k) # es"

text \<open>A constructed chunk goes to the port controller in the same run.\<close>

lemma send_constructed:
  assumes env: "env_calm env" and bs: "0 < length bs" "length bs \<le> 260" "k \<le> last_chunk bs" and m: "m \<noteq> 13"
    and s: "sender bs m s" "tch_state s = Some TCH_CONSTRUCT_CHUNKED_MESSAGE" "tch_flags s = {PRL_FLAGS_CHUNKING}"
      "chunk_number_to_send s = of_nat k" "send_offset s = of_nat (26 * k)" "tx_waiting s"
  defines "t \<equiv> tch_run env (prl_tx_run env (tch_construct_chunked_message_entry env s))"
  shows "prl_wf t \<longrightarrow> sending_chunk env bs m k (effects s) t" "msg_id_counter t = msg_id_counter s" "rx_msg_id t = rx_msg_id s"
proof -
  note b = chunk_bounds [OF bs]
  have facts: "length (tx_chk_buf s) = 28" "length (tx_buf s) = 260" "\<not> fault s" "tx_len s = of_nat (length bs)"
    "take (length bs) (tx_buf s) = bs" "msg_type s = m" "ext s = 1" "xmit_type s = 0" "pd_rev s ! 0 = PD_REV30"
    "tx_flags s = {}" "pdmsg_flags s = {}"
    using s(1) by (simp_all add: sender_def prl_wf_def EXTENDED_BUFFER_SIZE_def steady_def prl_get_rev_def)
  obtain c where c: "tch_construct_chunked_message_entry env s = s\<lparr>tx_chk_buf := chunk_frame bs k, rx_chk_buf := c, send_offset := of_nat (chunk_end bs k),
      data_objs := of_nat (chunk_objects bs k), tx_flags := {PRL_FLAGS_MSG_XMIT}\<rparr>"
    using construct_chunk [OF bs, of s env] s facts by auto
  define u where "u = s\<lparr>tx_chk_buf := chunk_frame bs k, rx_chk_buf := c, send_offset := of_nat (chunk_end bs k),
      data_objs := of_nat (chunk_objects bs k), tx_flags := {PRL_FLAGS_MSG_XMIT}\<rparr>"
  have ud: "tx_state u = Some PRL_TX_WAIT_FOR_MESSAGE_REQUEST" "tx_flags u = {PRL_FLAGS_MSG_XMIT}" "xmit_type u = 0"
      "pdmsg_flags u = {}" "effects u = effects s" "tx_chk_buf u = chunk_frame bs k"
    using s(6) facts by (simp_all add: u_def tx_waiting_def)
  have soft: "\<not> soft_reset_pending u"
    using m facts ucast_u8_u32_eq [of m 13] by (simp add: soft_reset_pending_def PD_CTRL_SOFT_RESET_def u_def)
  have "(ucast (of_nat (chunk_objects bs k) :: u16) :: u32) = of_nat (chunk_objects bs k)"
    using b(9) by (intro word_unat_eq_iff [THEN iffD2]) (simp add: unsigned_ucast_eq unat_of_nat take_bit_eq_mod)
  then have h: "get_sop_star_header env u = chunk_msg_header env bs m k (effects s) (msg_id_counter s ! 0)"
    using facts by (simp add: get_sop_star_header_def TCPCI_MSG_SOP_def u_def chunk_msg_header_def rev_code_def)
  obtain tm where tx: "prl_tx_run env u = u\<lparr>tx_flags := {}, last_xmit_type := 0, xmit_status := TCPC_TX_WAIT, pdmsg_flags := {},
      effects := Transmit 0 (chunk_msg_header env bs m k (effects s) (msg_id_counter s ! 0)) (chunk_frame bs k) # effects s,
      tx_state := Some PRL_TX_WAIT_FOR_PHY_RESPONSE, ptimers := tm\<rparr>"
    using tx_send [OF ud(1,2) env _ soft] ud by (auto simp: h)
  have t: "t = u\<lparr>tx_flags := {}, last_xmit_type := 0, xmit_status := TCPC_TX_WAIT, pdmsg_flags := {},
      effects := Transmit 0 (chunk_msg_header env bs m k (effects s) (msg_id_counter s ! 0)) (chunk_frame bs k) # effects s,
      tx_state := Some PRL_TX_WAIT_FOR_PHY_RESPONSE, ptimers := tm, tch_state := Some TCH_SENDING_CHUNKED_MESSAGE\<rparr>"
    using s(2) tx by (simp add: t_def c u_def [symmetric])
      (simp add: tch_run_def tch_construct_chunked_message_run_def set_state_tch_def tch_move_def tch_exit_def tch_entry_def u_def)
  show "prl_wf t \<longrightarrow> sending_chunk env bs m k (effects s) t"
    using s by (simp add: t sending_chunk_def) (simp add: sender_def steady_def u_def prl_get_rev_def)
  show "msg_id_counter t = msg_id_counter s" "rx_msg_id t = rx_msg_id s" by (simp_all add: t) (simp_all add: u_def)
qed

text \<open>Handing the message over sends the first chunk.\<close>

lemma send_first_chunk:
  fixes env0 :: prl_env
  assumes env: "env_calm env" and bs: "0 < length bs" "length bs \<le> 260" and m: "m \<noteq> 13"
    and s: "prl_idle s" "prl_wf s" "prl_get_rev 0 s = PD_REV30"
  defines "t \<equiv> fold prl_exec [Pe_requests env0 (Send_ext 0 m bs), Prl_run env True] s"
  shows "sending_chunk env bs m 0 (effects s) t" "msg_id_counter t = msg_id_counter s" "rx_msg_id t = rx_msg_id s"
proof -
  note facts = s(1) [unfolded prl_idle_def]
  have nc: "\<not> chunking s" using facts by (simp add: chunking_def)
  define s0 where "s0 = prl_request env0 (Send_ext 0 m bs) s"
  have wf0: "prl_wf s0" using s(2) bs(2) nc by (simp add: s0_def prl_wf_request)
  have len: "length (tx_buf s) = 260" using s(2) by (simp add: prl_wf_def EXTENDED_BUFFER_SIZE_def)
  have s0: "s0 = s\<lparr>xmit_type := 0, msg_type := m, ext := 1, tx_len := of_nat (length bs), tx_buf := put_bytes 0 bs (tx_buf s),
      tch_flags := {PRL_FLAGS_CHUNKING, PRL_FLAGS_MSG_XMIT}\<rparr>"
    using facts bs(2) by (cases s)
      (auto simp: s0_def prl_request_def prl_send_ext_data_msg_def pe_fill_def check_def EXTENDED_BUFFER_SIZE_def)
  define u where "u = s0\<lparr>tch_flags := {PRL_FLAGS_CHUNKING}, send_offset := 0, chunk_number_to_send := 0,
      tch_state := Some TCH_CONSTRUCT_CHUNKED_MESSAGE\<rparr>"
  have wfu: "prl_wf u" using wf0 by (simp add: u_def prl_wf_def chunking_def)
  have sender: "sender bs m u"
    using facts s(3) bs(2) len wfu by (simp add: sender_def steady_def) (simp add: u_def s0 prl_get_rev_def put_bytes_def)
  have tch: "tch_run env s0 = tch_construct_chunked_message_entry env u"
    using facts s(3)
    by (simp add: tch_run_def tch_wait_for_message_request_from_pe_run_def s0 Let_def insert_Diff_if pdmsg_xmit_type_is_rev30_def
        NUM_SOP_STAR_TYPES_def prl_get_rev_def set_state_tch_def tch_move_def tch_exit_def tch_entry_def u_def)
  have "t = prl_run env True s0" by (simp add: t_def s0_def)
  also have "\<dots> = tch_run env (prl_tx_run env (tch_run env s0))" using facts by (intro run_enabled_tx) (simp_all add: s0)
  finally have t: "t = tch_run env (prl_tx_run env (tch_construct_chunked_message_entry env u))" by (simp only: tch)
  have "prl_wf t"
    using wf0 env by (simp add: t_def flip: s0_def) (simp add: prl_wf_run calm_pe_ok)
  moreover have "tx_waiting u" using facts by (simp add: tx_waiting_def u_def s0)
  ultimately show "sending_chunk env bs m 0 (effects s) t" "msg_id_counter t = msg_id_counter s" "rx_msg_id t = rx_msg_id s"
    using send_constructed [OF env bs _ m sender, of 0] t by (simp_all add: u_def) (simp_all add: s0)
qed

text \<open>The port controller reports a chunk as sent.\<close>

lemma chunk_sent:
  fixes now :: u64
  assumes env: "env_calm env" and bs: "0 < length bs" "length bs \<le> 260" "k \<le> last_chunk bs"
    and s: "sending_chunk env0 bs m k es s"
  defines "t \<equiv> fold prl_exec [Phy_complete now TCPC_TX_COMPLETE_SUCCESS, Prl_run env True] s"
  shows "k < last_chunk bs \<Longrightarrow> ready_chunk bs m (k + 1) t \<and> effects t = effects s"
    "k = last_chunk bs \<Longrightarrow> prl_idle t \<and> effects t = Pe_message_sent # effects s"
    "msg_id_counter t = (msg_id_counter s)[0 := (msg_id_counter s ! 0 + 1) AND 7]" "rx_msg_id t = rx_msg_id s"
proof -
  note b = chunk_bounds [OF bs]
  note facts = s [unfolded sending_chunk_def sender_def steady_def]
  define ids where "ids = (msg_id_counter s)[0 := (msg_id_counter s ! 0 + 1) AND 7]"
  define a where "a = pd_transmit_complete now TCPC_TX_COMPLETE_SUCCESS s"
  have a: "a = s\<lparr>tcpc_tx_success_ts := now, xmit_status := TCPC_TX_COMPLETE_SUCCESS\<rparr>"
    by (simp add: a_def pd_transmit_complete_def)
  have wf: "prl_wf a" "prl_wf t"
    using facts env by (simp_all add: a t_def prl_wf_run calm_pe_ok pd_transmit_complete_def)
  have len: "tx_len s = send_offset s \<longleftrightarrow> k = last_chunk bs"
    "send_offset s < tx_len s \<longleftrightarrow> k < last_chunk bs" "k < last_chunk bs \<Longrightarrow> send_offset s = of_nat (26 * (k + 1))"
  proof -
    have "unat (of_nat n :: u32) = n" if "n \<le> 260" for n using that by (simp only: unat_of_nat) simp
    then have u: "unat (send_offset s) = chunk_end bs k" "unat (tx_len s) = length bs" using facts b(5) bs(2) by simp_all
    then show "tx_len s = send_offset s \<longleftrightarrow> k = last_chunk bs" using b(6) by (metis word_unat_eq_iff)
    have "chunk_end bs k \<le> length bs" by (simp add: chunk_end_def)
    then have "chunk_end bs k < length bs \<longleftrightarrow> k \<noteq> last_chunk bs" using b(6) by linarith
    then show "send_offset s < tx_len s \<longleftrightarrow> k < last_chunk bs" using u bs(3) by (auto simp: word_less_nat_alt)
    show "send_offset s = of_nat (26 * (k + 1))" if "k < last_chunk bs" using facts b(7) [OF that] by metis
  qed
  obtain tm where tx: "prl_tx_run env a = a\<lparr>tx_state := Some PRL_TX_WAIT_FOR_MESSAGE_REQUEST, xmit_status := TCPC_TX_UNSET,
      pdmsg_flags := {PRL_FLAGS_TX_COMPLETE}, msg_id_counter := ids, ptimers := tm\<rparr>"
    using tx_done [of a env] facts by (auto simp: a ids_def)
  have "tch_run env a = a" using facts by (simp add: tch_run_def tch_sending_chunked_message_run_def a Let_def)
  moreover have "prl_run env True a = tch_run env (prl_tx_run env (tch_run env a))"
    using facts by (intro run_enabled_tx) (simp_all add: a)
  ultimately have t: "t = tch_run env (a\<lparr>tx_state := Some PRL_TX_WAIT_FOR_MESSAGE_REQUEST, xmit_status := TCPC_TX_UNSET,
      pdmsg_flags := {PRL_FLAGS_TX_COMPLETE}, msg_id_counter := ids, ptimers := tm\<rparr>)"
    by (simp add: t_def tx flip: a_def)
  have tell: "tell_pe env e u = emit e u" for e u
    using env by (simp add: tell_pe_def Let_def env_calm_def)
  have "(k < last_chunk bs \<longrightarrow> ready_chunk bs m (k + 1) t \<and> effects t = effects s) \<and>
    (k = last_chunk bs \<longrightarrow> prl_idle t \<and> effects t = Pe_message_sent # effects s) \<and> msg_id_counter t = ids \<and> rx_msg_id t = rx_msg_id s"
  proof (cases "k = last_chunk bs")
    case True
    then show ?thesis
      using facts len
      by (simp add: t tch_run_def tch_sending_chunked_message_run_def set_state_tch_def tch_move_def tch_exit_def tch_entry_def
          tch_message_sent_entry_def tch_after_report_def tch_to_wait_def tch_wait_for_message_request_from_pe_entry_def tell emit_def
          prl_idle_def a)
  next
    case False
    then have k: "k < last_chunk bs" using bs(3) by simp
    have "t = a\<lparr>tx_state := Some PRL_TX_WAIT_FOR_MESSAGE_REQUEST, xmit_status := TCPC_TX_UNSET, pdmsg_flags := {},
        msg_id_counter := ids, tch_state := Some TCH_WAIT_CHUNK_REQUEST, chunk_number_to_send := of_nat k + 1,
        ptimers := pd_timer_enable (env_now env (effects s)) (env_port env) PR_TIMER_CHUNK_SENDER_REQUEST
          PD_T_CHUNK_SENDER_REQUEST tm\<rparr>"
      using facts len k
      by (simp add: t tch_run_def tch_sending_chunked_message_run_def set_state_tch_def tch_move_def tch_exit_def tch_entry_def
          tch_wait_chunk_request_entry_def timer_enable_def a)
    moreover have "send_offset s = of_nat (26 * (k + 1))" using len(3) k by blast
    ultimately show ?thesis
      using facts k wf(2)
      by (simp add: ready_chunk_def sender_def steady_def tx_waiting_def) (simp add: a prl_get_rev_def)
  qed
  then show "k < last_chunk bs \<Longrightarrow> ready_chunk bs m (k + 1) t \<and> effects t = effects s"
    "k = last_chunk bs \<Longrightarrow> prl_idle t \<and> effects t = Pe_message_sent # effects s"
    "msg_id_counter t = (msg_id_counter s)[0 := (msg_id_counter s ! 0 + 1) AND 7]" "rx_msg_id t = rx_msg_id s"
    by (simp_all add: ids_def)
qed

text \<open>The partner requests the next chunk.\<close>

definition chunk_request :: "nat \<Rightarrow> u32" where "chunk_request k = PD_EXT_HEADER (of_nat k) 1 0"

lemma small_nat_word: "k \<le> 9 \<Longrightarrow> of_nat k < (16 :: u32)"
proof -
  assume "k \<le> 9"
  then have "unat (of_nat k :: u32) < 16" by (simp only: unat_of_nat) simp
  then show ?thesis by (simp add: word_less_nat_alt)
qed

lemma chunk_request_fields:
  assumes "k \<le> 9"
  shows "PD_EXT_HEADER_CHUNKED (chunk_request k) = 1" "PD_EXT_HEADER_CHUNK_NUM (chunk_request k) = of_nat k"
    "PD_EXT_HEADER_REQ_CHUNK (chunk_request k) = 1" "chunk_request k = take_bit 16 (chunk_request k)"
  using PD_EXT_HEADER_fields [of "of_nat k" 1 0] small_nat_word [OF assms] by (simp_all add: chunk_request_def)

lemma chunk_header_fields:
  assumes "k \<le> 9" "length bs \<le> 260"
  shows "PD_EXT_HEADER_CHUNKED (chunk_header bs k) = 1" "PD_EXT_HEADER_CHUNK_NUM (chunk_header bs k) = of_nat k"
    "PD_EXT_HEADER_REQ_CHUNK (chunk_header bs k) = 0" "PD_EXT_HEADER_DATA_SIZE (chunk_header bs k) = of_nat (length bs)"
    "chunk_header bs k = take_bit 16 (chunk_header bs k)"
proof -
  have "unat (of_nat (length bs) :: u32) < 512" using assms(2) by (simp only: unat_of_nat) simp
  then have "of_nat (length bs) < (512 :: u32)" by (simp add: word_less_nat_alt)
  then show "PD_EXT_HEADER_CHUNKED (chunk_header bs k) = 1" "PD_EXT_HEADER_CHUNK_NUM (chunk_header bs k) = of_nat k"
    "PD_EXT_HEADER_REQ_CHUNK (chunk_header bs k) = 0" "PD_EXT_HEADER_DATA_SIZE (chunk_header bs k) = of_nat (length bs)"
    "chunk_header bs k = take_bit 16 (chunk_header bs k)"
    using PD_EXT_HEADER_fields [of "of_nat k" 0 "of_nat (length bs)"] small_nat_word [OF assms(1)]
    by (simp_all add: chunk_header_def)
qed

lemma rx_ext_header_le16:
  assumes "take 2 (rx_chk_buf s) = le16 h" "h = take_bit 16 h"
  shows "rx_ext_header s = h"
proof -
  have n: "rx_chk_buf s ! i = le16 h ! i" if "i < 2" for i using that assms(1) by (metis nth_take)
  show ?thesis using n [of 0] n [of 1] ext_header_bytes [OF assms(2)] by (simp add: rx_ext_header_def)
qed

lemma arrived_chk: "length (rx_chk_buf s) = 28 \<Longrightarrow> length p = 28 \<Longrightarrow> rx_chk_buf (arrived s q h p) = p"
  by (simp add: arrived_def put_bytes_def)

lemma chunk_requested:
  assumes env: "env_calm env" and bs: "0 < length bs" "length bs \<le> 260" "k \<le> last_chunk bs" and m: "m \<noteq> 13"
    and s: "ready_chunk bs m k s"
    and h: "wanted env s h" "sop_of h = 0" "PD_HEADER_EXT h = 1" "rx_msg_id s ! 0 \<noteq> msg_ident h"
    and p: "length p = 28" "take 2 p = le16 (chunk_request k)"
  defines "t \<equiv> fold prl_exec [Phy_message (Inr (h, p)), Prl_run env True] s"
  shows "sending_chunk env bs m k (Rx_enable (env_connected env (effects s)) # effects s) t"
    "msg_id_counter t = msg_id_counter s" "rx_msg_id t = (rx_msg_id s)[0 := msg_ident h]"
proof -
  note b = chunk_bounds [OF bs]
  note facts = s [unfolded ready_chunk_def sender_def steady_def]
  have ok: "pd_msg_ok (h, p)" using h(1) p(1) by (simp add: pd_msg_ok_def wanted_def)
  have wf: "prl_wf s" "steady s" using s by (simp_all add: ready_chunk_def sender_def)
  obtain q where q: "\<not> tcpm_has_pending_message q" "prl_wf (arrived s q h p)" and
    run: "t = tch_run env (prl_tx_run env (tch_run env (rch_run env (prl_rx_message env (arrived s q h p)))))"
    using run_steady_message [OF wf(2) _ wf(1) ok, of env] facts by (auto simp: t_def)
  define a where "a = arrived s q h p"
  have chk: "length (rx_chk_buf s) = 28" using wf(1) by (simp add: prl_wf_def)
  have a: "rx_header a = h" "rx_sop a = 0" "rx_msg_id a = rx_msg_id s" "effects a = effects s" "rx_chk_buf a = p"
    using h(2) arrived_chk [OF chk p(1)] by (simp_all add: a_def) (simp_all add: arrived_def)
  define r where "r = a\<lparr>effects := Rx_enable (env_connected env (effects s)) # effects s, rx_msg_id := (rx_msg_id s)[0 := msg_ident h],
      tch_flags := {PRL_FLAGS_MSG_RECEIVED, PRL_FLAGS_CHUNKING}\<rparr>"
  have "tx_waiting a" "wanted env a (rx_header a)" "tch_state a = Some TCH_WAIT_CHUNK_REQUEST" "tch_flags a = {PRL_FLAGS_CHUNKING}"
    using facts h(1) a by (simp_all add: a_def arrived_def tx_waiting_def wanted_def)
  then have rx: "prl_rx_message env a = r" using rx_new_message [of a env] a h by (simp add: Let_def r_def)
  have rch: "rch_run env r = r" using facts by (intro rch_run_nothing) (simp_all add: r_def a_def arrived_def)
  have ext: "rx_ext_header (r\<lparr>tch_flags := fl\<rparr>) = chunk_request k" for fl
  proof (rule rx_ext_header_le16)
    have "rx_chk_buf (r\<lparr>tch_flags := fl\<rparr>) = p" using a(5) by (simp add: r_def)
    then show "take 2 (rx_chk_buf (r\<lparr>tch_flags := fl\<rparr>)) = le16 (chunk_request k)" using p(2) by simp
  qed (use chunk_request_fields(4) [OF b(2)] in simp)
  obtain tm where tm: "timer_disable env PR_TIMER_CHUNK_SENDER_REQUEST (r\<lparr>tch_flags := {PRL_FLAGS_CHUNKING}\<rparr>) =
      r\<lparr>tch_flags := {PRL_FLAGS_CHUNKING}, ptimers := tm\<rparr>"
    by (simp add: timer_disable_def)
  define u where "u = r\<lparr>tch_flags := {PRL_FLAGS_CHUNKING}, ptimers := tm, tch_state := Some TCH_CONSTRUCT_CHUNKED_MESSAGE\<rparr>"
  have tch: "tch_run env r = tch_construct_chunked_message_entry env u"
  proof -
    have "tch_state r = Some TCH_WAIT_CHUNK_REQUEST" "chunk_number_to_send r = of_nat k" "rx_header r = h"
      "tch_flags r = {PRL_FLAGS_MSG_RECEIVED, PRL_FLAGS_CHUNKING}"
      using facts a(1) by (simp_all add: r_def) (simp_all add: a_def arrived_def)
    then show ?thesis
      using h(3) chunk_request_fields(2,3) [OF b(2)] tm
      by (simp add: tch_run_def tch_wait_chunk_request_run_def Let_def insert_Diff_if ext set_state_tch_def tch_move_def
          tch_exit_def tch_entry_def u_def)
  qed
  have t: "t = tch_run env (prl_tx_run env (tch_construct_chunked_message_entry env u))"
    using run rx rch tch by (simp add: a_def)
  have wft: "prl_wf t"
    unfolding t_def using wf(1) ok env by (intro prl_wf_execs) (simp_all add: calm_pe_ok)
  have wfr: "prl_wf r"
    using prl_wf_rx_message [of env a] q(2) env by (simp add: rx calm_pe_ok flip: a_def)
  have "send_offset r = send_offset s" "tx_len r = tx_len s" "send_offset s \<le> tx_len s"
    using s wf(1) by (simp_all add: r_def a_def arrived_def prl_wf_def chunking_def ready_chunk_def)
  then have "prl_wf u" using wfr by (simp add: u_def prl_wf_tch_state)
  then have "sender bs m u"
    using facts q by (simp add: sender_def steady_def) (simp add: u_def r_def a_def arrived_def prl_get_rev_def)
  moreover have "chunk_number_to_send u = of_nat k" "send_offset u = of_nat (26 * k)" "tx_waiting u"
      "tch_state u = Some TCH_CONSTRUCT_CHUNKED_MESSAGE" "tch_flags u = {PRL_FLAGS_CHUNKING}"
    using facts by (simp_all add: u_def r_def a_def arrived_def tx_waiting_def)
  ultimately have "prl_wf t \<longrightarrow> sending_chunk env bs m k (effects u) t" "msg_id_counter t = msg_id_counter u" "rx_msg_id t = rx_msg_id u"
    unfolding t using send_constructed [OF env bs m] by blast+
  moreover have "effects u = Rx_enable (env_connected env (effects s)) # effects s" "msg_id_counter u = msg_id_counter s"
      "rx_msg_id u = (rx_msg_id s)[0 := msg_ident h]"
    by (simp_all add: u_def r_def) (simp_all add: a_def arrived_def)
  ultimately show "sending_chunk env bs m k (Rx_enable (env_connected env (effects s)) # effects s) t"
    "msg_id_counter t = msg_id_counter s" "rx_msg_id t = (rx_msg_id s)[0 := msg_ident h]"
    using wft by simp_all
qed

subsection \<open>The receiver\<close>

definition receiver :: "u8 list \<Rightarrow> u8 \<Rightarrow> nat \<Rightarrow> prl \<Rightarrow> bool" where
  "receiver bs m k s \<longleftrightarrow> steady s \<and> prl_wf s \<and> tch_state s = Some TCH_WAIT_FOR_MESSAGE_REQUEST_FROM_PE \<and>
     tch_flags s = {PRL_FLAGS_CHUNKING} \<and> PRL_FLAGS_MSG_RECEIVED \<notin> rch_flags s \<and> tx_flags s = {} \<and> rx_sop s = 0 \<and>
     msg_type s = m \<and> chunk_number_expected s = of_nat k \<and> num_bytes_received s = of_nat (26 * k) \<and>
     take (26 * k) (rx_buf s) = take (26 * k) bs"

text \<open>Chunk \<open>k\<close> is being processed; it is being requested; its request went out.\<close>

definition processing_chunk :: "u8 list \<Rightarrow> u8 \<Rightarrow> nat \<Rightarrow> prl \<Rightarrow> bool" where
  "processing_chunk bs m k s \<longleftrightarrow> receiver bs m k s \<and> rch_state s = Some RCH_PROCESSING_EXTENDED_MESSAGE \<and>
     pdmsg_flags s = {} \<and> tx_waiting s \<and> rx_chk_buf s = chunk_frame bs k"

definition requesting_chunk :: "u8 list \<Rightarrow> u8 \<Rightarrow> nat \<Rightarrow> prl \<Rightarrow> bool" where
  "requesting_chunk bs m k s \<longleftrightarrow> receiver bs m k s \<and> rch_state s = Some RCH_REQUESTING_CHUNK \<and>
     pdmsg_flags s = {} \<and> tx_state s = Some PRL_TX_WAIT_FOR_PHY_RESPONSE \<and> xmit_status s = TCPC_TX_WAIT \<and> last_xmit_type s = 0"

definition requested_chunk :: "u8 list \<Rightarrow> u8 \<Rightarrow> nat \<Rightarrow> prl \<Rightarrow> bool" where
  "requested_chunk bs m k s \<longleftrightarrow> receiver bs m k s \<and> rch_state s = Some RCH_REQUESTING_CHUNK \<and>
     pdmsg_flags s = {PRL_FLAGS_TX_COMPLETE} \<and> tx_waiting s"

lemma received_chunk:
  assumes bs: "0 < length bs" "length bs \<le> 260" "k \<le> last_chunk bs"
    and s: "receiver bs m k s" "rx_chk_buf s = chunk_frame bs k"
  defines "n \<equiv> chunk_bytes (of_nat (length bs) - num_bytes_received s)"
  shows "\<exists>b. append_chunk n s = s\<lparr>rx_buf := b, chunk_number_expected := of_nat (k + 1), num_bytes_received := of_nat (chunk_end bs k)\<rparr> \<and>
      length b = 260 \<and> take (chunk_end bs k) b = take (chunk_end bs k) bs"
    "num_bytes_received s + n = of_nat (chunk_end bs k)"
proof -
  note b = chunk_bounds [OF bs]
  have u: "unat (of_nat n :: u32) = n" if "n \<le> 260" for n using that by (simp only: unat_of_nat) simp
  have num: "unat (num_bytes_received s) = 26 * k" using s(1) u [of "26 * k"] b(1) bs(2) by (simp add: receiver_def)
  have len: "unat (of_nat (length bs) :: u32) = length bs" using bs(2) by (rule u)
  have "num_bytes_received s \<le> of_nat (length bs)" using num len b(1) by (simp add: word_le_nat_alt)
  then have left: "unat (of_nat (length bs) - num_bytes_received s) = length bs - 26 * k" using num len by (simp add: unat_sub)
  have n: "unat n = length (chunk bs k)"
    using left b(3) by (auto simp: n_def chunk_bytes_def PD_MAX_EXTENDED_MSG_CHUNK_LEN_def word_le_nat_alt)
  have "unat (num_bytes_received s + n) = chunk_end bs k"
    using num n b(4,5) by (simp add: unat_word_ariths)
  then show new: "num_bytes_received s + n = of_nat (chunk_end bs k)" by (rule word_of_unat)
  have lc: "length (chunk bs k) \<le> 26" by (simp add: chunk_def)
  have data: "take (unat n) (drop 2 (rx_chk_buf s)) = chunk bs k" using n s(2) by (simp add: chunk_frame_def)
  have wf: "length (rx_buf s) = 260" "\<not> fault s" using s(1) by (simp_all add: receiver_def prl_wf_def EXTENDED_BUFFER_SIZE_def)
  define c where "c = put_bytes (26 * k) (chunk bs k) (rx_buf s)"
  have "take (chunk_end bs k) c = take (26 * k) (rx_buf s) @ chunk bs k"
    using wf(1) b(4,5) by (simp add: c_def put_bytes_def)
  also have "\<dots> = take (26 * (k + 1)) bs" using s(1) take_chunk [of k bs] by (simp add: receiver_def)
  also have "\<dots> = take (chunk_end bs k) bs" by (simp add: chunk_end_def min_def)
  finally have "take (chunk_end bs k) c = take (chunk_end bs k) bs" .
  moreover have "length c = 260" using wf(1) b(4,5) by (simp add: c_def)
  moreover have "append_chunk n s = s\<lparr>rx_buf := c, chunk_number_expected := of_nat (k + 1), num_bytes_received := of_nat (chunk_end bs k)\<rparr>"
    using s(1) n lc num data new wf(2)
    by (cases s) (simp add: append_chunk_def check_def c_def receiver_def)
  ultimately show "\<exists>b. append_chunk n s = s\<lparr>rx_buf := b, chunk_number_expected := of_nat (k + 1), num_bytes_received := of_nat (chunk_end bs k)\<rparr> \<and>
      length b = 260 \<and> take (chunk_end bs k) b = take (chunk_end bs k) bs" by blast
qed

text \<open>A processed chunk is the last one, and the message goes up, or the next one is requested.\<close>

lemma chunk_frame_ext_header:
  assumes "k \<le> 9" "length bs \<le> 260" "rx_chk_buf s = chunk_frame bs k"
  shows "rx_ext_header s = chunk_header bs k"
  using assms(3) chunk_header_fields(5) [OF assms(1,2)] by (intro rx_ext_header_le16) (simp_all add: chunk_frame_def)

lemma chunk_processed:
  assumes env: "side env d" and bs: "0 < length bs" "length bs \<le> 260" "k \<le> last_chunk bs" and m: "m \<noteq> 13"
    and s: "processing_chunk bs m k s"
  defines "t \<equiv> prl_run env True s"
  shows "k = last_chunk bs \<Longrightarrow> prl_idle t \<and> effects t = Pe_message_received (rx_header s) bs # effects s"
    "k < last_chunk bs \<Longrightarrow> requesting_chunk bs m (k + 1) t \<and> (\<exists>p. length p = 28 \<and> take 2 p = le16 (chunk_request (k + 1)) \<and>
       effects t = Transmit 0 (PD_HEADER (ucast m) (env_power_role env (effects s)) d (msg_id_counter s ! 0) 1 2 1) p # effects s)"
    "msg_id_counter t = msg_id_counter s" "rx_msg_id t = rx_msg_id s"
proof -
  note b = chunk_bounds [OF bs]
  have calm: "env_calm env" using env by (rule side_calm)
  note facts = s [unfolded processing_chunk_def receiver_def steady_def]
  have rcv: "receiver bs m k s" "rx_chk_buf s = chunk_frame bs k" "steady s" "prl_wf s"
    using s by (simp_all add: processing_chunk_def receiver_def)
  have wft: "prl_wf t" using rcv(4) calm by (simp add: t_def prl_wf_run calm_pe_ok)
  note hdr = chunk_header_fields [OF b(2) bs(2)]
  have ext: "rx_ext_header s = chunk_header bs k" by (rule chunk_frame_ext_header [OF b(2) bs(2) rcv(2)])
  have u: "unat (of_nat n :: u32) = n" if "n \<le> 260" for n using that by (simp only: unat_of_nat) simp
  obtain bf where app: "append_chunk (chunk_bytes (of_nat (length bs) - num_bytes_received s)) s =
      s\<lparr>rx_buf := bf, chunk_number_expected := of_nat (k + 1), num_bytes_received := of_nat (chunk_end bs k)\<rparr>"
      and bf: "length bf = 260" "take (chunk_end bs k) bf = take (chunk_end bs k) bs"
    using received_chunk(1) [OF bs rcv(1,2)] by blast
  have room: "num_bytes_received s + chunk_bytes (of_nat (length bs) - num_bytes_received s) = of_nat (chunk_end bs k)"
    by (rule received_chunk(2) [OF bs rcv(1,2)])
  have fits: "\<not> of_nat EXTENDED_BUFFER_SIZE < (of_nat (chunk_end bs k) :: u32)"
    using u [OF b(5)] b(5) by (simp add: EXTENDED_BUFFER_SIZE_def word_less_nat_alt)
  have done': "of_nat (length bs) \<le> (of_nat (chunk_end bs k) :: u32) \<longleftrightarrow> k = last_chunk bs"
    using u [OF b(5)] u [OF bs(2)] b(6) by (auto simp: word_le_nat_alt chunk_end_def)
  define v where "v = s\<lparr>rx_buf := bf, chunk_number_expected := of_nat (k + 1), num_bytes_received := of_nat (chunk_end bs k)\<rparr>"
  have rch: "rch_run env s = (if k = last_chunk bs then set_state_rch env RCH_PASS_UP_MESSAGE (v\<lparr>rx_len := of_nat (length bs)\<rparr>)
      else set_state_rch env RCH_REQUESTING_CHUNK v)"
  proof -
    have "rch_state s = Some RCH_PROCESSING_EXTENDED_MESSAGE" "pdmsg_flags s = {}" "chunk_number_expected s = of_nat k"
      using facts by simp_all
    then have "rch_run env s = (if of_nat (length bs) \<le> num_bytes_received v
        then set_state_rch env RCH_PASS_UP_MESSAGE (v\<lparr>rx_len := num_bytes_received v\<rparr>) else set_state_rch env RCH_REQUESTING_CHUNK v)"
      using fits by (simp add: rch_run_def rch_processing_extended_message_run_def Let_def ext hdr(2,4) app room v_def)
    moreover have "k = last_chunk bs \<Longrightarrow> chunk_end bs k = length bs" using b(6) by simp
    ultimately show ?thesis using done' by (simp add: v_def)
  qed
  have run: "t = tch_run env (prl_tx_run env (tch_run env (rch_run env s)))"
    using run_steady [OF rcv(3), of env] facts by (simp add: t_def rx_nothing)
  have tell: "tell_pe env e u = emit e u" for e u
    using calm by (simp add: tell_pe_def Let_def env_calm_def)
  have "(k = last_chunk bs \<longrightarrow> prl_idle t \<and> effects t = Pe_message_received (rx_header s) bs # effects s) \<and>
    (k < last_chunk bs \<longrightarrow> requesting_chunk bs m (k + 1) t \<and> (\<exists>p. length p = 28 \<and> take 2 p = le16 (chunk_request (k + 1)) \<and>
       effects t = Transmit 0 (PD_HEADER (ucast m) (env_power_role env (effects s)) d (msg_id_counter s ! 0) 1 2 1) p # effects s)) \<and>
    msg_id_counter t = msg_id_counter s \<and> rx_msg_id t = rx_msg_id s"
  proof (cases "k = last_chunk bs")
    case True
    have e: "chunk_end bs k = length bs" using True b(6) by simp
    define w where "w = rch_run env s"
    have w: "w = v\<lparr>rx_len := of_nat (length bs), rch_state := Some RCH_WAIT_FOR_MESSAGE_FROM_PROTOCOL_LAYER,
        rch_flags := {PRL_FLAGS_CHUNKING}, pdmsg_flags := {}, effects := Pe_message_received (rx_header s) bs # effects s\<rparr>"
      using True facts bf(2) e u [OF bs(2)]
      by (simp add: w_def rch set_state_rch_def rch_move_def rch_exit_def rch_entry_def rch_pass_up_message_entry_def tell
          received_def emit_def rch_to_wait_def rch_wait_for_message_from_protocol_layer_entry_def v_def)
    have idle: "prl_idle w" using facts by (simp add: w prl_idle_def tx_waiting_def) (simp add: v_def)
    have "t = w" using tail_of_run [OF idle] calm by (simp add: run env_calm_def flip: w_def)
    then show ?thesis using True idle by (simp add: w) (simp add: v_def)
  next
    case False
    then have k: "k < last_chunk bs" using bs(3) by simp
    have k9: "k + 1 \<le> 9" using chunk_bounds(2) [OF bs(1,2), of "k + 1"] k by simp
    have e: "chunk_end bs k = 26 * (k + 1)" using b(7) k by simp
    define c where "c = put_bytes 0 (le32 (chunk_request (k + 1))) (tx_chk_buf v)"
    have lc: "length (tx_chk_buf v) = 28" using facts by (simp add: v_def prl_wf_def)
    have le32: "le32 (chunk_request (k + 1)) = le16 (chunk_request (k + 1)) @ [0, 0]"
      by (rule le32_16) (rule chunk_request_fields(4) [OF k9])
    have c: "length c = 28" "take 2 c = le16 (chunk_request (k + 1))"
      using lc le32 by (simp_all add: c_def put_bytes_def)
    define w where "w = v\<lparr>rch_state := Some RCH_REQUESTING_CHUNK, tx_chk_buf := c, data_objs := 1, ext := 1, xmit_type := 0,
        tx_flags := {PRL_FLAGS_MSG_XMIT}\<rparr>"
    have w: "rch_run env s = w"
    proof -
      have "rch_state v = Some RCH_PROCESSING_EXTENDED_MESSAGE" "rx_sop v = 0" "tx_flags v = {}" "\<not> fault v"
        using facts by (simp_all add: v_def prl_wf_def)
      moreover have "PD_EXT_HEADER (chunk_number_expected v) 1 0 = chunk_request (k + 1)"
        by (simp add: v_def chunk_request_def)
      moreover have "length (le32 (chunk_request (k + 1))) = 4" by (simp add: le32_def)
      ultimately show ?thesis
        using False lc
        by (simp add: rch set_state_rch_def rch_move_def rch_exit_def rch_entry_def rch_requesting_chunk_entry_def put_chk_def
            check_def w_def c_def)
    qed
    have tch: "tch_run env w = w" using facts by (intro tch_nothing) (simp_all add: w_def v_def)
    have wd: "tx_state w = Some PRL_TX_WAIT_FOR_MESSAGE_REQUEST" "tx_flags w = {PRL_FLAGS_MSG_XMIT}" "xmit_type w = 0"
        "pdmsg_flags w = {}" "effects w = effects s" "tx_chk_buf w = c"
      using facts by (simp_all add: w_def v_def tx_waiting_def)
    have soft: "\<not> soft_reset_pending w"
      using m facts ucast_u8_u32_eq [of m 13] by (simp add: soft_reset_pending_def PD_CTRL_SOFT_RESET_def w_def v_def)
    have hd': "get_sop_star_header env w = PD_HEADER (ucast m) (env_power_role env (effects s)) d (msg_id_counter s ! 0) 1 2 1"
      using facts env by (simp add: get_sop_star_header_def TCPCI_MSG_SOP_def w_def v_def rev_code_def side_def prl_get_rev_def)
    obtain tm where tx: "prl_tx_run env w = w\<lparr>tx_flags := {}, last_xmit_type := 0, xmit_status := TCPC_TX_WAIT, pdmsg_flags := {},
        effects := Transmit 0 (PD_HEADER (ucast m) (env_power_role env (effects s)) d (msg_id_counter s ! 0) 1 2 1) c # effects s,
        tx_state := Some PRL_TX_WAIT_FOR_PHY_RESPONSE, ptimers := tm\<rparr>"
      using tx_send [OF wd(1,2) calm _ soft] wd by (auto simp: hd')
    have t: "t = w\<lparr>tx_flags := {}, last_xmit_type := 0, xmit_status := TCPC_TX_WAIT, pdmsg_flags := {},
        effects := Transmit 0 (PD_HEADER (ucast m) (env_power_role env (effects s)) d (msg_id_counter s ! 0) 1 2 1) c # effects s,
        tx_state := Some PRL_TX_WAIT_FOR_PHY_RESPONSE, ptimers := tm\<rparr>"
      unfolding run w tch tx using facts by (intro tch_nothing) (simp_all add: w_def v_def)
    have "requesting_chunk bs m (k + 1) t"
      using facts wft bf e by (simp add: requesting_chunk_def receiver_def steady_def) (simp add: t w_def v_def prl_get_rev_def)
    moreover have "length c = 28" "take 2 c = le16 (chunk_request (k + 1))" using c by simp_all
    moreover have "effects t = Transmit 0 (PD_HEADER (ucast m) (env_power_role env (effects s)) d (msg_id_counter s ! 0) 1 2 1)
        c # effects s" "msg_id_counter t = msg_id_counter s" "rx_msg_id t = rx_msg_id s"
      by (simp_all add: t) (simp_all add: w_def v_def)
    ultimately show ?thesis using False by blast
  qed
  then show "k = last_chunk bs \<Longrightarrow> prl_idle t \<and> effects t = Pe_message_received (rx_header s) bs # effects s"
    "k < last_chunk bs \<Longrightarrow> requesting_chunk bs m (k + 1) t \<and> (\<exists>p. length p = 28 \<and> take 2 p = le16 (chunk_request (k + 1)) \<and>
       effects t = Transmit 0 (PD_HEADER (ucast m) (env_power_role env (effects s)) d (msg_id_counter s ! 0) 1 2 1) p # effects s)"
    "msg_id_counter t = msg_id_counter s" "rx_msg_id t = rx_msg_id s" by blast+
qed

text \<open>The port controller reports a request as sent.\<close>

lemma request_sent:
  fixes now :: u64
  assumes env: "env_calm env" and s: "requesting_chunk bs m k s"
  defines "t \<equiv> fold prl_exec [Phy_complete now TCPC_TX_COMPLETE_SUCCESS, Prl_run env True] s"
  shows "requested_chunk bs m k t" "effects t = effects s"
    "msg_id_counter t = (msg_id_counter s)[0 := (msg_id_counter s ! 0 + 1) AND 7]" "rx_msg_id t = rx_msg_id s"
proof -
  note facts = s [unfolded requesting_chunk_def receiver_def steady_def]
  define ids where "ids = (msg_id_counter s)[0 := (msg_id_counter s ! 0 + 1) AND 7]"
  define a where "a = pd_transmit_complete now TCPC_TX_COMPLETE_SUCCESS s"
  have a: "a = s\<lparr>tcpc_tx_success_ts := now, xmit_status := TCPC_TX_COMPLETE_SUCCESS\<rparr>"
    by (simp add: a_def pd_transmit_complete_def)
  have wf: "prl_wf t"
    using facts env by (simp add: t_def prl_wf_run calm_pe_ok pd_transmit_complete_def)
  have st: "steady a" using s by (simp add: requesting_chunk_def receiver_def a steady_def prl_get_rev_def)
  obtain tm where tx: "prl_tx_run env a = a\<lparr>tx_state := Some PRL_TX_WAIT_FOR_MESSAGE_REQUEST, xmit_status := TCPC_TX_UNSET,
      pdmsg_flags := {PRL_FLAGS_TX_COMPLETE}, msg_id_counter := ids, ptimers := tm\<rparr>"
    using tx_done [of a env] facts by (auto simp: a ids_def)
  have "rch_run env a = a" using facts by (simp add: rch_run_def rch_requesting_chunk_run_def a)
  moreover have "prl_rx_wait_for_phy_message env a = a" using facts by (intro rx_nothing) (simp add: a)
  moreover have "tch_run env a = a" using facts by (intro tch_nothing) (simp_all add: a)
  ultimately have "t = tch_run env (a\<lparr>tx_state := Some PRL_TX_WAIT_FOR_MESSAGE_REQUEST, xmit_status := TCPC_TX_UNSET,
      pdmsg_flags := {PRL_FLAGS_TX_COMPLETE}, msg_id_counter := ids, ptimers := tm\<rparr>)"
    using run_steady [OF st, of env] by (simp add: t_def tx flip: a_def)
  also have "\<dots> = a\<lparr>tx_state := Some PRL_TX_WAIT_FOR_MESSAGE_REQUEST, xmit_status := TCPC_TX_UNSET,
      pdmsg_flags := {PRL_FLAGS_TX_COMPLETE}, msg_id_counter := ids, ptimers := tm\<rparr>"
    using facts by (intro tch_nothing) (simp_all add: a)
  finally have t: "t = a\<lparr>tx_state := Some PRL_TX_WAIT_FOR_MESSAGE_REQUEST, xmit_status := TCPC_TX_UNSET,
      pdmsg_flags := {PRL_FLAGS_TX_COMPLETE}, msg_id_counter := ids, ptimers := tm\<rparr>" .
  show "requested_chunk bs m k t"
    using facts wf by (simp add: requested_chunk_def receiver_def steady_def) (simp add: t a tx_waiting_def prl_get_rev_def)
  show "effects t = effects s" "msg_id_counter t = (msg_id_counter s)[0 := (msg_id_counter s ! 0 + 1) AND 7]" "rx_msg_id t = rx_msg_id s"
    by (simp_all add: t a ids_def)
qed

text \<open>A chunk that was requested arrives.\<close>

lemma chunk_arrives:
  assumes env: "env_calm env" and bs: "0 < length bs" "length bs \<le> 260" "k \<le> last_chunk bs"
    and s: "requested_chunk bs m k s"
    and h: "wanted env s h" "sop_of h = 0" "PD_HEADER_EXT h = 1" "rx_msg_id s ! 0 \<noteq> msg_ident h"
  defines "t \<equiv> fold prl_exec [Phy_message (Inr (h, chunk_frame bs k)), Prl_run env True, Prl_run env True] s"
  shows "processing_chunk bs m k t" "rx_header t = h" "effects t = Rx_enable (env_connected env (effects s)) # effects s"
    "msg_id_counter t = msg_id_counter s" "rx_msg_id t = (rx_msg_id s)[0 := msg_ident h]"
proof -
  note facts = s [unfolded requested_chunk_def receiver_def steady_def]
  define p where "p = chunk_frame bs k"
  have p: "length p = 28" by (simp add: p_def chunk_frame_length)
  have ok: "pd_msg_ok (h, p)" using h(1) p by (simp add: pd_msg_ok_def wanted_def)
  have wf: "prl_wf s" "steady s" using s by (simp_all add: requested_chunk_def receiver_def)
  define t1 where "t1 = prl_run env True (prl_exec (Phy_message (Inr (h, p))) s)"
  obtain q where q: "\<not> tcpm_has_pending_message q" and
    run: "t1 = tch_run env (prl_tx_run env (tch_run env (rch_run env (prl_rx_message env (arrived s q h p)))))"
    using run_steady_message [OF wf(2) _ wf(1) ok, of env] facts by (auto simp: t1_def)
  define a where "a = arrived s q h p"
  have chk: "length (rx_chk_buf s) = 28" using wf(1) by (simp add: prl_wf_def)
  have a: "rx_header a = h" "rx_sop a = 0" "rx_msg_id a = rx_msg_id s" "effects a = effects s" "rx_chk_buf a = p"
    using h(2) arrived_chk [OF chk p] by (simp_all add: a_def) (simp_all add: arrived_def)
  define r where "r = a\<lparr>effects := Rx_enable (env_connected env (effects s)) # effects s, rx_msg_id := (rx_msg_id s)[0 := msg_ident h],
      rch_flags := insert PRL_FLAGS_MSG_RECEIVED (rch_flags s)\<rparr>"
  have "tx_waiting a" "wanted env a (rx_header a)" "tch_state a = Some TCH_WAIT_FOR_MESSAGE_REQUEST_FROM_PE"
      "tch_flags a = {PRL_FLAGS_CHUNKING}" "rch_flags a = rch_flags s"
    using facts h(1) a by (simp_all add: a_def arrived_def tx_waiting_def wanted_def)
  then have rx: "prl_rx_message env a = r" using rx_new_message [of a env] a h by (simp add: Let_def r_def)
  obtain tm where tm: "timer_enable env PR_TIMER_CHUNK_SENDER_RESPONSE PD_T_CHUNK_SENDER_RESPONSE
      (r\<lparr>pdmsg_flags := {}, rch_state := Some RCH_WAITING_CHUNK\<rparr>) = r\<lparr>pdmsg_flags := {}, rch_state := Some RCH_WAITING_CHUNK, ptimers := tm\<rparr>"
    by (simp add: timer_enable_def)
  define w where "w = r\<lparr>pdmsg_flags := {}, rch_state := Some RCH_WAITING_CHUNK, ptimers := tm\<rparr>"
  have rch: "rch_run env r = w"
  proof -
    have "rch_state r = Some RCH_REQUESTING_CHUNK" "pdmsg_flags r = {PRL_FLAGS_TX_COMPLETE}"
      using facts by (simp_all add: r_def a_def arrived_def)
    then show ?thesis
      using tm by (simp add: rch_run_def rch_requesting_chunk_run_def set_state_rch_def rch_move_def rch_exit_def rch_entry_def w_def)
  qed
  have quiet: "tch_run env u = u" "prl_tx_run env u = u"
    if "tch_state u = tch_state s" "tch_flags u = tch_flags s" "tx_state u = tx_state s" "tx_flags u = tx_flags s"
      "xmit_status u = xmit_status s" for u
    using that facts env by (auto intro!: tch_nothing tx_nothing simp: tx_waiting_def)
  have "tch_run env w = w" "prl_tx_run env w = w" by (intro quiet; simp add: w_def r_def a_def arrived_def)+
  then have t1: "t1 = w" using run rx rch by (simp add: a_def)
  have wfw: "prl_wf w"
    unfolding t1 [symmetric] t1_def using wf(1) ok env
    using prl_wf_execs [of "[Phy_message (Inr (h, p)), Prl_run env True]" s] by (simp add: calm_pe_ok)
  have stw: "steady w" using facts q by (simp add: steady_def) (simp add: w_def r_def a_def arrived_def prl_get_rev_def)
  have msg: "PRL_FLAGS_MSG_RECEIVED \<in> rch_flags w" by (simp add: w_def r_def)
  have t: "t = tch_run env (prl_tx_run env (tch_run env (rch_run env w)))"
  proof -
    have "t = prl_run env True t1" by (simp add: t_def t1_def p_def)
    then show ?thesis using run_steady [OF stw, of env] msg by (simp add: t1 prl_rx_wait_for_phy_message_def)
  qed
  note b = chunk_bounds [OF bs]
  have buf: "rx_chk_buf w = chunk_frame bs k" using a(5) by (simp add: w_def r_def p_def)
  have ext: "rx_ext_header (w\<lparr>pdmsg_flags := {}\<rparr>) = chunk_header bs k"
    using buf by (intro chunk_frame_ext_header [OF b(2) bs(2)]) simp
  obtain tm' where tm': "timer_disable env PR_TIMER_CHUNK_SENDER_RESPONSE (w\<lparr>pdmsg_flags := {}, rch_flags := rch_flags w - {PRL_FLAGS_MSG_RECEIVED}\<rparr>)
      = w\<lparr>pdmsg_flags := {}, rch_flags := rch_flags w - {PRL_FLAGS_MSG_RECEIVED}, ptimers := tm'\<rparr>"
    by (simp add: timer_disable_def)
  define v where "v = w\<lparr>pdmsg_flags := {}, rch_flags := rch_flags w - {PRL_FLAGS_MSG_RECEIVED}, ptimers := tm',
      rch_state := Some RCH_PROCESSING_EXTENDED_MESSAGE\<rparr>"
  have rch2: "rch_run env w = v"
  proof -
    have "rch_state w = Some RCH_WAITING_CHUNK" "pdmsg_flags w = {}" "rx_header w = h"
      using a(1) by (simp_all add: w_def r_def)
    then show ?thesis
      using msg h(3) ext tm' chunk_header_fields(1,3) [OF b(2) bs(2)]
      by (simp add: rch_run_def rch_waiting_chunk_run_def Let_def set_state_rch_def rch_move_def rch_exit_def rch_entry_def v_def)
  qed
  have "tch_run env v = v" "prl_tx_run env v = v" by (intro quiet; simp add: v_def w_def r_def a_def arrived_def)+
  then have tv: "t = v" using t rch2 by simp
  have "prl_wf v" using wfw by (simp add: v_def)
  moreover have "rx_chk_buf v = chunk_frame bs k" using buf by (simp add: v_def)
  moreover have "steady v" using stw by (simp add: v_def steady_def prl_get_rev_def)
  ultimately show "processing_chunk bs m k t"
    using facts by (simp add: tv processing_chunk_def receiver_def) (simp add: v_def w_def r_def a_def arrived_def tx_waiting_def h(2))
  show "rx_header t = h" "effects t = Rx_enable (env_connected env (effects s)) # effects s"
    "msg_id_counter t = msg_id_counter s" "rx_msg_id t = (rx_msg_id s)[0 := msg_ident h]"
    by (simp_all add: tv v_def w_def r_def) (simp_all add: a_def arrived_def)
qed

text \<open>The first chunk arrives at an idle layer.\<close>

lemma first_chunk_arrives:
  assumes env: "env_calm env" and bs: "0 < length bs" "length bs \<le> 260"
    and s: "prl_idle s" "prl_wf s" "prl_get_rev 0 s = PD_REV30" "xmit_type s = 0"
    and h: "wanted env s h" "sop_of h = 0" "PD_HEADER_EXT h = 1" "PD_HEADER_TYPE h = ucast m" "rx_msg_id s ! 0 \<noteq> msg_ident h"
  defines "t \<equiv> fold prl_exec [Phy_message (Inr (h, chunk_frame bs 0)), Prl_run env True] s"
  shows "processing_chunk bs m 0 t" "rx_header t = h" "effects t = Rx_enable (env_connected env (effects s)) # effects s"
    "msg_id_counter t = msg_id_counter s" "rx_msg_id t = (rx_msg_id s)[0 := msg_ident h]"
proof -
  note facts = s(1) [unfolded prl_idle_def]
  define p where "p = chunk_frame bs 0"
  have p: "length p = 28" by (simp add: p_def chunk_frame_length)
  have ok: "pd_msg_ok (h, p)" using h(1) p by (simp add: pd_msg_ok_def wanted_def)
  have st: "steady s" using s facts by (simp add: steady_def)
  obtain q where q: "\<not> tcpm_has_pending_message q" and
    run: "t = tch_run env (prl_tx_run env (tch_run env (rch_run env (prl_rx_message env (arrived s q h p)))))"
    using run_steady_message [OF st _ s(2) ok, of env] facts by (auto simp: t_def p_def)
  define a where "a = arrived s q h p"
  have chk: "length (rx_chk_buf s) = 28" using s(2) by (simp add: prl_wf_def)
  have a: "rx_header a = h" "rx_sop a = 0" "rx_msg_id a = rx_msg_id s" "effects a = effects s" "rx_chk_buf a = p"
    using h(2) arrived_chk [OF chk p] by (simp_all add: a_def) (simp_all add: arrived_def)
  define r where "r = a\<lparr>effects := Rx_enable (env_connected env (effects s)) # effects s, rx_msg_id := (rx_msg_id s)[0 := msg_ident h],
      rch_flags := insert PRL_FLAGS_MSG_RECEIVED (rch_flags s)\<rparr>"
  have "tx_waiting a" "wanted env a (rx_header a)" "tch_state a = Some TCH_WAIT_FOR_MESSAGE_REQUEST_FROM_PE"
      "tch_flags a = {PRL_FLAGS_CHUNKING}" "rch_flags a = rch_flags s"
    using facts h(1) a by (simp_all add: a_def arrived_def tx_waiting_def wanted_def)
  then have rx: "prl_rx_message env a = r" using rx_new_message [of a env] a h by (simp add: Let_def r_def)
  define v where "v = r\<lparr>rch_flags := rch_flags s, chunk_number_expected := 0, num_bytes_received := 0, msg_type := m,
      rch_state := Some RCH_PROCESSING_EXTENDED_MESSAGE\<rparr>"
  have buf: "rx_chk_buf r = chunk_frame bs 0" using a(5) by (simp add: r_def p_def)
  have ext: "rx_ext_header (r\<lparr>rch_flags := fl\<rparr>) = chunk_header bs 0" for fl
    using buf by (intro chunk_frame_ext_header bs(2)) simp_all
  have rch: "rch_run env r = v"
  proof -
    have "rch_state r = Some RCH_WAIT_FOR_MESSAGE_FROM_PROTOCOL_LAYER" "rx_header r = h" "xmit_type r = 0" "pd_rev r ! 0 = PD_REV30"
      "rch_flags r = insert PRL_FLAGS_MSG_RECEIVED (rch_flags s)"
      using facts s a(1) by (simp_all add: r_def) (simp_all add: a_def arrived_def prl_get_rev_def)
    then show ?thesis
      using facts h ext chunk_header_fields(1) [OF _ bs(2), of 0]
      by (simp add: rch_run_def rch_wait_for_message_from_protocol_layer_run_def Let_def pdmsg_xmit_type_is_rev30_def
          NUM_SOP_STAR_TYPES_def prl_get_rev_def set_state_rch_def rch_move_def rch_exit_def rch_entry_def v_def)
  qed
  have "tch_run env v = v" using facts by (intro tch_nothing) (simp_all add: v_def r_def a_def arrived_def)
  moreover have "prl_tx_run env v = v"
    using facts env by (intro tx_nothing) (simp_all add: v_def r_def a_def arrived_def tx_waiting_def)
  ultimately have tv: "t = v" using run rx rch by (simp add: a_def)
  have "prl_wf t"
    unfolding t_def using s(2) ok env by (intro prl_wf_execs) (simp_all add: calm_pe_ok p_def)
  moreover have "rx_chk_buf v = chunk_frame bs 0" using buf by (simp add: v_def)
  moreover have "steady v" using st q by (simp add: steady_def) (simp add: v_def r_def a_def arrived_def prl_get_rev_def)
  ultimately show "processing_chunk bs m 0 t"
    using facts by (simp add: tv processing_chunk_def receiver_def) (simp add: v_def r_def a_def arrived_def tx_waiting_def h(2))
  show "rx_header t = h" "effects t = Rx_enable (env_connected env (effects s)) # effects s"
    "msg_id_counter t = msg_id_counter s" "rx_msg_id t = (rx_msg_id s)[0 := msg_ident h]"
    by (simp_all add: tv v_def r_def) (simp_all add: a_def arrived_def)
qed

end
