(* ===== verification/PrlStuck.thy ===== *)
theory PrlStuck
  imports PrlSend
begin

section \<open>A message that stops reception\<close>

text \<open>
  While a chunk is awaited, \<open>rch_waiting_chunk_run\<close> looks at extended messages only. Any other
  message stays flagged as received: it is neither passed up nor reported, the timeout of the state is
  not looked at again, and \<open>prl_rx_wait_for_phy_message\<close> takes no further message. \<open>stuck\<close> is
  that situation, with the messages passed up so far and the position in the cache.
\<close>

named_theorems stuck_intros

fun reception :: "prl_effect \<Rightarrow> bool" where
  "reception (Pe_message_received h bs) = True"
| "reception _ = False"

definition stuck :: "prl_effect list \<Rightarrow> u32 \<Rightarrow> prl \<Rightarrow> bool" where
  "stuck got taken s \<longleftrightarrow>
     local_state s = SM_RUN \<and> hr_state s = Some PRL_HR_WAIT_FOR_REQUEST \<and>
     PRL_FLAGS_PE_HARD_RESET \<notin> hr_flags s \<and> PRL_FLAGS_PORT_PARTNER_HARD_RESET \<notin> hr_flags s \<and>
     rch_state s = Some RCH_WAITING_CHUNK \<and> PRL_FLAGS_MSG_RECEIVED \<in> rch_flags s \<and>
     PD_HEADER_EXT (rx_header s) = 0 \<and> filter reception (effects s) = got \<and> tq_tail (rx_queue s) = taken"

lemma stuck_frame [simp]:
  "stuck got k (s\<lparr>tx_state := a1\<rparr>) = stuck got k s"
  "stuck got k (s\<lparr>tch_state := a2\<rparr>) = stuck got k s"
  "stuck got k (s\<lparr>tx_flags := fl\<rparr>) = stuck got k s"
  "stuck got k (s\<lparr>tch_flags := fl\<rparr>) = stuck got k s"
  "stuck got k (s\<lparr>pdmsg_flags := fl\<rparr>) = stuck got k s"
  "stuck got k (s\<lparr>rch_error := e\<rparr>) = stuck got k s"
  "stuck got k (s\<lparr>tch_error := e\<rparr>) = stuck got k s"
  "stuck got k (s\<lparr>rx_msg_id := l\<rparr>) = stuck got k s"
  "stuck got k (s\<lparr>msg_id_counter := ws\<rparr>) = stuck got k s"
  "stuck got k (s\<lparr>last_xmit_type := n\<rparr>) = stuck got k s"
  "stuck got k (s\<lparr>xmit_status := c\<rparr>) = stuck got k s"
  "stuck got k (s\<lparr>xmit_type := n\<rparr>) = stuck got k s"
  "stuck got k (s\<lparr>msg_type := b\<rparr>) = stuck got k s"
  "stuck got k (s\<lparr>pd_rev := rs\<rparr>) = stuck got k s"
  "stuck got k (s\<lparr>data_objs := h\<rparr>) = stuck got k s"
  "stuck got k (s\<lparr>tx_chk_buf := bs\<rparr>) = stuck got k s"
  "stuck got k (s\<lparr>rx_chk_buf := bs\<rparr>) = stuck got k s"
  "stuck got k (s\<lparr>ext := b\<rparr>) = stuck got k s"
  "stuck got k (s\<lparr>chunk_number_to_send := w\<rparr>) = stuck got k s"
  "stuck got k (s\<lparr>send_offset := w\<rparr>) = stuck got k s"
  "stuck got k (s\<lparr>tx_len := w\<rparr>) = stuck got k s"
  "stuck got k (s\<lparr>tx_buf := bs\<rparr>) = stuck got k s"
  "stuck got k (s\<lparr>ptimers := tm\<rparr>) = stuck got k s"
  "stuck got k (s\<lparr>fault := ok\<rparr>) = stuck got k s"
  by (simp_all add: stuck_def)

lemma stuck_flag [stuck_intros]:
  "stuck got k s \<Longrightarrow> stuck got k (s\<lparr>rch_flags := insert f (rch_flags s)\<rparr>)"
  "stuck got k s \<Longrightarrow> stuck got k (s\<lparr>rch_flags := rch_flags s - {PRL_FLAGS_IGNORE_DATA_ROLE}\<rparr>)"
  by (simp_all add: stuck_def)

lemma stuck_basics [stuck_intros]:
  assumes "stuck got k s"
  shows "\<not> reception e \<Longrightarrow> stuck got k (emit e s)" "stuck got k (check ok s)" "stuck got k (put_chk n bs s)"
    "stuck got k (fill_rx_chk bs s)" "stuck got k (clear_chunk s)"
    "stuck got k (timer_enable env t us s)" "stuck got k (timer_disable env t s)" "stuck got k (fst (timer_expired env t s))"
    "stuck got k (prl_reset_msg_ids t s)"
  using assms by (simp_all add: emit_def check_def put_chk_def fill_rx_chk_def clear_chunk_def timer_enable_def timer_disable_def timer_expired_def
      prl_reset_msg_ids_def split_beta) (simp add: stuck_def)

lemma stuck_tx_exit [stuck_intros]: "stuck got k s \<Longrightarrow> stuck got k (prl_tx_exit env s)"
  by (simp add: prl_tx_exit_def stuck_intros)

lemma stuck_tx_move [stuck_intros]:
  "(\<And>t. stuck got k t \<Longrightarrow> stuck got k (entry t)) \<Longrightarrow> stuck got k s \<Longrightarrow> stuck got k (tx_move env st entry s)"
  by (simp add: tx_move_def stuck_intros)

lemma stuck_tx_to_wait [stuck_intros]: "stuck got k s \<Longrightarrow> stuck got k (tx_to_wait env s)"
  unfolding tx_to_wait_def by (rule stuck_tx_move) (simp_all add: prl_tx_wait_for_message_request_entry_def)

lemma stuck_tx_to_phy_layer_reset [stuck_intros]: "stuck got k s \<Longrightarrow> stuck got k (tx_to_phy_layer_reset env s)"
  unfolding tx_to_phy_layer_reset_def by (rule stuck_tx_move) (simp_all add: prl_tx_phy_layer_reset_entry_def stuck_intros)

lemma stuck_tch_exit [stuck_intros]: "stuck got k s \<Longrightarrow> stuck got k (tch_exit env s)"
  by (simp add: tch_exit_def stuck_intros)

lemma stuck_tch_move [stuck_intros]:
  "(\<And>t. stuck got k t \<Longrightarrow> stuck got k (entry t)) \<Longrightarrow> stuck got k s \<Longrightarrow> stuck got k (tch_move env st entry s)"
  by (simp add: tch_move_def stuck_intros)

text \<open>The policy engine asks for no reset.\<close>

fun asks_no_reset :: "prl_req \<Rightarrow> bool" where
  "asks_no_reset Execute_hard_reset = False"
| "asks_no_reset Reset_soft = False"
| "asks_no_reset _ = True"

definition pe_patient :: "prl_env \<Rightarrow> bool" where
  "pe_patient env \<longleftrightarrow> (\<forall>h. list_all asks_no_reset (env_pe env h))"

lemma stuck_hr_complete [stuck_intros]: "stuck got k s \<Longrightarrow> stuck got k (prl_hard_reset_complete s)"
  by (simp add: stuck_def prl_hard_reset_complete_def)

lemma stuck_request: "stuck got k s \<Longrightarrow> asks_no_reset r \<Longrightarrow> stuck got k (prl_request env r s)"
  by (cases r) (simp_all add: prl_request_def prl_send_ctrl_msg_def prl_send_data_msg_def prl_send_ext_data_msg_def
      pe_fill_def prl_set_rev_def prl_set_default_pd_revision_def prl_set_data_role_check_def stuck_intros)

lemma stuck_requests: "stuck got k s \<Longrightarrow> list_all asks_no_reset rs \<Longrightarrow> stuck got k (fold (prl_request env) rs s)"
  by (induction rs arbitrary: s) (simp_all add: stuck_request)

lemma stuck_tell_pe [stuck_intros]:
  "pe_patient env \<Longrightarrow> \<not> reception e \<Longrightarrow> stuck got k s \<Longrightarrow> stuck got k (tell_pe env e s)"
  by (simp add: tell_pe_def Let_def pe_patient_def stuck_requests stuck_basics(1))

lemma stuck_set_state_prl_tx [stuck_intros]: "pe_patient env \<Longrightarrow> stuck got k s \<Longrightarrow> stuck got k (set_state_prl_tx env st s)"
  unfolding set_state_prl_tx_def
  by (rule stuck_tx_move, cases st)
    (simp_all add: prl_tx_entry_def prl_tx_phy_layer_reset_entry_def prl_tx_wait_for_message_request_entry_def
      prl_tx_layer_reset_for_transmit_entry_def prl_tx_src_source_tx_entry_def prl_tx_discard_message_entry_def
      increment_msgid_counter_def stuck_intros)

lemma stuck_construct [stuck_intros]: "stuck got k s \<Longrightarrow> stuck got k (prl_tx_construct_message env s)"
  by (simp add: prl_tx_construct_message_def tcpm_transmit_def Let_def stuck_intros split: option.split)

lemma stuck_send_pending [stuck_intros]: "pe_patient env \<Longrightarrow> stuck got k s \<Longrightarrow> stuck got k (send_pending env s)"
  by (simp add: send_pending_def Let_def stuck_intros)

lemma stuck_tx_run [stuck_intros]: "pe_patient env \<Longrightarrow> stuck got k s \<Longrightarrow> stuck got k (prl_tx_run env s)"
  by (simp add: prl_tx_run_def prl_tx_wait_for_message_request_run_def leave_ams_def
      prl_tx_src_source_tx_run_def prl_tx_snk_start_ams_run_def prl_tx_layer_reset_for_transmit_run_def
      prl_tx_wait_for_phy_response_run_def prl_tx_src_pending_run_def prl_tx_snk_pending_run_def Let_def split_beta
      increment_msgid_counter_def stuck_intros split: option.split usb_prl_tx_state.split)

lemma stuck_copy_msg [stuck_intros]: "stuck got k s \<Longrightarrow> stuck got k (prl_copy_msg_to_buffer s)"
  by (simp add: prl_copy_msg_to_buffer_def Let_def stuck_intros)

lemma stuck_tch_message_received [stuck_intros]:
  "pe_patient env \<Longrightarrow> stuck got k s \<Longrightarrow> stuck got k (tch_message_received_entry env s)"
  by (simp add: tch_message_received_entry_def Let_def stuck_intros)

lemma stuck_tch_to_message_received [stuck_intros]:
  "pe_patient env \<Longrightarrow> stuck got k s \<Longrightarrow> stuck got k (tch_to_message_received env s)"
  by (simp add: tch_to_message_received_def stuck_intros)

lemma stuck_tch_entry: "pe_patient env \<Longrightarrow> stuck got k s \<Longrightarrow> stuck got k (tch_entry env st s)"
  by (cases st) (simp_all add: tch_entry_def tch_wait_for_message_request_from_pe_entry_def tch_to_wait_def
      tch_construct_chunked_message_entry_def tch_wait_chunk_request_entry_def tch_message_sent_entry_def
      tch_report_error_entry_def tch_after_report_def Let_def stuck_intros)

lemma stuck_set_state_tch [stuck_intros]: "pe_patient env \<Longrightarrow> stuck got k s \<Longrightarrow> stuck got k (set_state_tch env st s)"
  unfolding set_state_tch_def by (rule stuck_tch_move) (simp_all add: stuck_tch_entry)

lemma stuck_tch_run [stuck_intros]: "pe_patient env \<Longrightarrow> stuck got k s \<Longrightarrow> stuck got k (tch_run env s)"
  by (simp add: tch_run_def tch_wait_for_message_request_from_pe_run_def tch_wait_for_transmission_complete_run_def
      tch_construct_chunked_message_run_def tch_sending_chunked_message_run_def tch_wait_chunk_request_run_def tch_fail_def
      Let_def split_beta stuck_intros split: option.split usb_tch_state.split)

lemma stuck_run: "pe_patient env \<Longrightarrow> stuck got k s \<Longrightarrow> stuck got k (prl_run env True s)"
proof -
  assume pe: "pe_patient env" and s: "stuck got k s"
  have "prl_hr_run env s = s" using s by (simp add: stuck_def prl_hr_run_def prl_hr_wait_for_request_run_def)
  moreover have "prl_rx_wait_for_phy_message env s = s" using s by (simp add: stuck_def prl_rx_wait_for_phy_message_def)
  moreover have "stuck got k (rch_run env s)"
  proof -
    have "rch_run env s = s\<lparr>pdmsg_flags := pdmsg_flags s - {PRL_FLAGS_TX_COMPLETE}\<rparr>"
      using s by (simp add: stuck_def rch_run_def rch_waiting_chunk_run_def Let_def)
    then show ?thesis using s by simp
  qed
  moreover have "local_state s = SM_RUN" "hr_state s = Some PRL_HR_WAIT_FOR_REQUEST" using s by (simp_all add: stuck_def)
  ultimately show ?thesis using pe by (simp add: prl_run_def prl_run_enabled_def Let_def stuck_intros)
qed

text \<open>The calls that do not reset the layer.\<close>

fun no_reset :: "prl_op \<Rightarrow> bool" where
  "no_reset (Prl_run env en) = (en \<and> pe_patient env)"
| "no_reset (Pe_requests env r) = asks_no_reset r"
| "no_reset (Partner_hard_reset env) = False"
| "no_reset Phy_clear = False"
| "no_reset _ = True"

lemma stuck_exec: "no_reset x \<Longrightarrow> stuck got k s \<Longrightarrow> stuck got k (prl_exec x s)"
proof (cases x)
  case (Phy_message m)
  have "tq_tail (fst (tcpm_enqueue_message m q)) = tq_tail q" for q
    by (simp add: tcpm_enqueue_message_def split: sum.split)
  moreover assume "stuck got k s"
  ultimately show ?thesis by (simp add: Phy_message stuck_def)
qed (simp_all add: stuck_run stuck_request pd_transmit_complete_def, simp_all add: stuck_def)

lemma stuck_execs: "list_all no_reset xs \<Longrightarrow> stuck got k s \<Longrightarrow> stuck got k (fold prl_exec xs s)"
  by (induction xs arbitrary: s) (simp_all add: stuck_exec)

text \<open>
  C6: a message that is not an extended one, received while a chunk is awaited, stops reception: however
  long the layer runs, whatever arrives and whatever is sent, as long as nobody asks for a reset, no
  message is passed to the policy engine, none is taken from the cache, and the layer still waits for the
  chunk, although the state has a timeout of 25 ms.
\<close>

theorem prl_reception_stuck:
  assumes "local_state s = SM_RUN" "hr_state s = Some PRL_HR_WAIT_FOR_REQUEST" "hr_flags s = {}"
    and "rch_state s = Some RCH_WAITING_CHUNK" "PRL_FLAGS_MSG_RECEIVED \<in> rch_flags s" "PD_HEADER_EXT (rx_header s) = 0"
    and "list_all no_reset xs"
  defines "t \<equiv> fold prl_exec xs s"
  shows "rch_state t = Some RCH_WAITING_CHUNK \<and> filter reception (effects t) = filter reception (effects s) \<and>
    tq_tail (rx_queue t) = tq_tail (rx_queue s)"
proof -
  have "stuck (filter reception (effects s)) (tq_tail (rx_queue s)) s" using assms(1-6) by (simp add: stuck_def)
  from stuck_execs [OF assms(7) this] show ?thesis by (simp add: stuck_def t_def)
qed

text \<open>
  A first chunk of a message of 100 bytes, the request for the second one, and then a control message.
\<close>

definition first_of_many :: "u32 \<Rightarrow> prl_op" where
  "first_of_many h = Phy_message (Inr (h, [0x64, 0x80] @ replicate 26 7))"

definition stuck_layer :: prl where
  "stuck_layer = fold prl_exec [first_of_many 0xF002, Prl_run (quiet_env 2) True, Prl_run (quiet_env 3) True,
     Phy_complete 4 TCPC_TX_COMPLETE_SUCCESS, Prl_run (quiet_env 4) True, Prl_run (quiet_env 5) True,
     Phy_message (Inr (0x0201, replicate 28 0)), Prl_run (quiet_env 6) True] prl_started"

lemma stuck_layer_ok:
  "local_state stuck_layer = SM_RUN \<and> hr_state stuck_layer = Some PRL_HR_WAIT_FOR_REQUEST \<and> hr_flags stuck_layer = {} \<and>
   rch_state stuck_layer = Some RCH_WAITING_CHUNK \<and> PRL_FLAGS_MSG_RECEIVED \<in> rch_flags stuck_layer \<and>
   PD_HEADER_EXT (rx_header stuck_layer) = 0"
  by code_simp

theorem prl_reception_stuck_witness:
  "rch_state (fold prl_exec [Prl_run (quiet_env 10000000) True, Phy_message (Inr (0x042D, replicate 28 0)),
     Prl_run (quiet_env 20000000) True] stuck_layer) = Some RCH_WAITING_CHUNK"
  using prl_reception_stuck [of stuck_layer "[Prl_run (quiet_env 10000000) True, Phy_message (Inr (0x042D, replicate 28 0)),
     Prl_run (quiet_env 20000000) True]"] stuck_layer_ok
  by (simp add: pe_patient_def quiet_env_def)

end
