(* ===== verification/PrlLink.thy ===== *)
theory PrlLink
  imports PrlChunks PrlStuck
begin

section \<open>Two protocol layers exchange an extended message\<close>

text \<open>
  What a layer transmitted last arrives at the other layer; the port controllers report every
  transmission as successful. One exchange is one chunk, and from the second one on its request.
\<close>

definition wire :: "prl \<Rightarrow> pd_msg" where
  "wire s = (case effects s of Transmit t h p # es \<Rightarrow> (h, p) | _ \<Rightarrow> (0, []))"

definition sent :: "prl_env \<Rightarrow> prl_op list" where
  "sent env = [Phy_complete 0 TCPC_TX_COMPLETE_SUCCESS, Prl_run env True]"

definition first_exchange :: "prl_env \<Rightarrow> prl_env \<Rightarrow> u8 \<Rightarrow> u8 list \<Rightarrow> prl \<times> prl \<Rightarrow> prl \<times> prl" where
  "first_exchange ea eb m bs p =
     (let a1 = fold prl_exec [Pe_requests ea (Send_ext 0 m bs), Prl_run ea True] (fst p)
      in (fold prl_exec (sent ea) a1,
          fold prl_exec [Phy_message (Inr (wire a1)), Prl_run eb True, Prl_run eb True] (snd p)))"

definition next_exchange :: "prl_env \<Rightarrow> prl_env \<Rightarrow> prl \<times> prl \<Rightarrow> prl \<times> prl" where
  "next_exchange ea eb p =
     (let b1 = fold prl_exec (sent eb) (snd p);
          a1 = fold prl_exec [Phy_message (Inr (wire (snd p))), Prl_run ea True] (fst p)
      in (fold prl_exec (sent ea) a1,
          fold prl_exec [Phy_message (Inr (wire a1)), Prl_run eb True, Prl_run eb True, Prl_run eb True] b1))"

definition transfer :: "prl_env \<Rightarrow> prl_env \<Rightarrow> u8 \<Rightarrow> u8 list \<Rightarrow> prl \<times> prl \<Rightarrow> prl \<times> prl" where
  "transfer ea eb m bs p = (next_exchange ea eb ^^ last_chunk bs) (first_exchange ea eb m bs p)"

subsection \<open>Message ids and headers\<close>

text \<open>Neither side has seen the message id that the other uses next.\<close>

definition fresh :: "prl \<Rightarrow> prl \<Rightarrow> bool" where
  "fresh a b \<longleftrightarrow> rx_msg_id b ! 0 \<noteq> uint (msg_id_counter a ! 0)"

lemma next_msg_id: "uint i \<noteq> uint ((i + 1) AND 7)" for i :: u32
proof -
  have "bit ((i + 1) AND 7) 0 \<longleftrightarrow> \<not> bit i 0" by (simp only: bit_and_iff) (simp add: bit_0)
  then have "(i + 1) AND 7 \<noteq> i" by metis
  then show ?thesis by (metis word_uint_eq_iff)
qed

lemma counter_small: "prl_wf s \<Longrightarrow> msg_id_counter s ! 0 < 8"
proof -
  assume "prl_wf s"
  then have "msg_id_counter s ! 0 \<le> 7" by (auto simp: prl_wf_def ids_ok_def)
  then show ?thesis by (rule le_less_trans) simp
qed

lemma rx_id_length: "prl_wf s \<Longrightarrow> (rx_msg_id s)[0 := i] ! 0 = i"
  by (simp add: prl_wf_def ids_ok_def)

lemma header_wanted:
  fixes es :: "prl_effect list"
  assumes "side ea da" "side eb db" "da \<noteq> db" "m < 32" "i < 8" "1 \<le> n" "n \<le> 7"
  defines "h \<equiv> PD_HEADER (ucast m) (env_power_role ea es) da i (of_nat n) 2 1"
  shows "wanted eb s h" "sop_of h = 0" "PD_HEADER_EXT h = 1" "PD_HEADER_TYPE h = ucast (m :: u8)" "msg_ident h = uint i"
proof -
  have m: "(ucast m :: u32) < 32"
    using assms(4) by (simp add: word_less_nat_alt unsigned_ucast_eq take_bit_eq_mod)
  have u: "unat (of_nat n :: u32) = n" using assms(7) by (simp only: unat_of_nat) simp
  then have n: "of_nat n < (8 :: u32)" using assms(7) by (simp add: word_less_nat_alt)
  have nz: "of_nat n \<noteq> (0 :: u32)" using u assms(6) by (metis unat_0 not_one_le_zero)
  note f = PD_HEADER_fields [OF m _ _ assms(5) n, of "env_power_role ea es" da 2 1, folded h_def]
  have h: "PD_HEADER_TYPE h = ucast m" "PD_HEADER_DROLE h = da" "PD_HEADER_ID h = i" "PD_HEADER_CNT h = of_nat n"
      "PD_HEADER_EXT h = 1" "PD_HEADER_GET_SOP h = 0"
    using f assms(1) by (simp_all add: side_def)
  show "wanted eb s h" using h assms(2,3) nz by (simp add: wanted_def side_def)
  show "sop_of h = 0" "PD_HEADER_EXT h = 1" "PD_HEADER_TYPE h = ucast m" "msg_ident h = uint i"
    using h by (simp_all add: sop_of_def msg_ident_def)
qed

subsection \<open>The steps of a transfer\<close>

text \<open>Two sides with different data roles, and an extended message that fits.\<close>

definition link_ok :: "prl_env \<Rightarrow> prl_env \<Rightarrow> u32 \<Rightarrow> u32 \<Rightarrow> u8 \<Rightarrow> u8 list \<Rightarrow> bool" where
  "link_ok ea eb da db m bs \<longleftrightarrow> side ea da \<and> side eb db \<and> da \<noteq> db \<and> m < 32 \<and> m \<noteq> 13 \<and> 0 < length bs \<and> length bs \<le> 260"

lemma link_okD:
  assumes "link_ok ea eb da db m bs"
  shows "side ea da" "side eb db" "da \<noteq> db" "m < 32" "m \<noteq> 13" "0 < length bs" "length bs \<le> 260" "env_calm ea" "env_calm eb"
  using assms side_calm by (auto simp: link_ok_def)

text \<open>Between two exchanges: chunk \<open>k\<close> is requested.\<close>

definition between :: "prl_env \<Rightarrow> u32 \<Rightarrow> u8 \<Rightarrow> u8 list \<Rightarrow> prl_effect list \<Rightarrow> nat \<Rightarrow> prl \<Rightarrow> prl \<Rightarrow> bool" where
  "between eb db m bs got k a b \<longleftrightarrow> ready_chunk bs m k a \<and> requesting_chunk bs m k b \<and> fresh a b \<and> fresh b a \<and>
     filter reception (effects b) = got \<and>
     (\<exists>p es. length p = 28 \<and> take 2 p = le16 (chunk_request k) \<and>
       wire b = (PD_HEADER (ucast m) (env_power_role eb es) db (msg_id_counter b ! 0) (of_nat 1) 2 1, p))"

definition arrived_whole :: "u8 \<Rightarrow> u8 list \<Rightarrow> prl_effect list \<Rightarrow> prl \<Rightarrow> prl \<Rightarrow> bool" where
  "arrived_whole m bs got a b \<longleftrightarrow> prl_idle a \<and> prl_idle b \<and> (\<exists>es. effects a = Pe_message_sent # es) \<and>
     (\<exists>h. filter reception (effects b) = Pe_message_received h bs # got \<and> PD_HEADER_TYPE h = ucast m \<and> PD_HEADER_EXT h = 1)"

lemma sent_chunk_wire:
  assumes L: "link_ok ea eb da db m bs" and A: "sending_chunk ea bs m k es a" "k \<le> last_chunk bs"
  defines "h \<equiv> PD_HEADER (ucast m) (env_power_role ea es) da (msg_id_counter a ! 0) (of_nat (chunk_objects bs k)) 2 1"
  shows "wire a = (h, chunk_frame bs k)" "wanted eb s h" "sop_of h = 0" "PD_HEADER_EXT h = 1" "PD_HEADER_TYPE h = ucast m"
    "msg_ident h = uint (msg_id_counter a ! 0)"
proof -
  note sides = link_okD(1-3) [OF L] and message = link_okD(4-7) [OF L]
  note b = chunk_bounds [OF message(3,4) A(2)]
  have "prl_wf a" using A(1) by (simp add: sending_chunk_def sender_def)
  then have i: "msg_id_counter a ! 0 < 8" by (rule counter_small)
  show "wire a = (h, chunk_frame bs k)"
    using A(1) sides(1) by (simp add: wire_def sending_chunk_def chunk_msg_header_def side_def h_def)
  show "wanted eb s h" "sop_of h = 0" "PD_HEADER_EXT h = 1" "PD_HEADER_TYPE h = ucast m"
    "msg_ident h = uint (msg_id_counter a ! 0)"
    unfolding h_def by (rule header_wanted [OF sides message(1) i b(8,9)])+
qed

text \<open>Once a chunk is processed, the port controller of the sender having reported it.\<close>

lemma chunk_over:
  assumes L: "link_ok ea eb da db m bs" and k: "k \<le> last_chunk bs" and a: "sending_chunk ea bs m k es a" and b: "processing_chunk bs m k b"
    and h: "PD_HEADER_TYPE (rx_header b) = ucast m" "PD_HEADER_EXT (rx_header b) = 1"
    and ids: "rx_msg_id b ! 0 = uint (msg_id_counter a ! 0)" "fresh b a"
    and got: "filter reception (effects b) = got"
  defines "a' \<equiv> fold prl_exec (sent ea) a" and "b' \<equiv> prl_run eb True b"
  shows "if k = last_chunk bs then arrived_whole m bs got a' b' else between eb db m bs got (k + 1) a' b'"
proof -
  note sides = link_okD(1-3) [OF L] and message = link_okD(4,5,6,7) [OF L] and calm = link_okD(8,9) [OF L]
  note A = chunk_sent [OF calm(1) message(3,4) k a, of 0, folded sent_def a'_def]
  note B = chunk_processed [OF sides(2) message(3,4) k message(2) b, folded b'_def]
  have wf: "prl_wf a" "prl_wf b"
    using a b by (simp_all add: sending_chunk_def sender_def processing_chunk_def receiver_def)
  have len: "0 < length (msg_id_counter a)" using wf(1) by (simp add: prl_wf_def ids_ok_def)
  show ?thesis
  proof (cases "k = last_chunk bs")
    case True
    then show ?thesis using A(2) B(1) got h by (simp add: arrived_whole_def)
  next
    case False
    then have lt: "k < last_chunk bs" using k by simp
    obtain p where p: "length p = 28" "take 2 p = le16 (chunk_request (k + 1))"
      "effects b' = Transmit 0 (PD_HEADER (ucast m) (env_power_role eb (effects b)) db (msg_id_counter b ! 0) 1 2 1) p # effects b"
      using B(2) lt by blast
    have "fresh a' b'" using A(3) B(4) ids(1) len next_msg_id by (simp add: fresh_def)
    moreover have "fresh b' a'" using A(4) B(3) ids(2) by (simp add: fresh_def)
    moreover have "wire b' = (PD_HEADER (ucast m) (env_power_role eb (effects b)) db (msg_id_counter b' ! 0) (of_nat 1) 2 1, p)"
      using p(3) B(3) by (simp add: wire_def)
    moreover have "filter reception (effects b') = got" using got p(3) by simp
    ultimately have "between eb db m bs got (k + 1) a' b'"
      using A(1) B(2) lt p(1,2) unfolding between_def by blast
    then show ?thesis using False by simp
  qed
qed

lemma first_step:
  assumes L: "link_ok ea eb da db m bs" and a: "prl_idle a" "prl_wf a" "prl_get_rev 0 a = PD_REV30"
    and b: "prl_idle b" "prl_wf b" "prl_get_rev 0 b = PD_REV30" "xmit_type b = 0" and ids: "fresh a b" "fresh b a"
  defines "p \<equiv> first_exchange ea eb m bs (a, b)"
  shows "if last_chunk bs = 0 then arrived_whole m bs (filter reception (effects b)) (fst p) (snd p)
    else between eb db m bs (filter reception (effects b)) 1 (fst p) (snd p)"
proof -
  note message = link_okD(4,5,6,7) [OF L] and calm = link_okD(8,9) [OF L]
  define a1 where "a1 = fold prl_exec [Pe_requests ea (Send_ext 0 m bs), Prl_run ea True] a"
  note A = send_first_chunk [OF calm(1) message(3,4,2) a, of ea, folded a1_def]
  note W = sent_chunk_wire [OF L A(1) le0]
  have new: "rx_msg_id b ! 0 \<noteq> uint (msg_id_counter a1 ! 0)" using ids(1) A(2) by (simp add: fresh_def)
  define b1 where "b1 = fold prl_exec [Phy_message (Inr (wire a1)), Prl_run eb True] b"
  note B = first_chunk_arrives [OF calm(2) message(3,4) b W(2-5) new [folded W(6)], folded W(1) b1_def]
  have "rx_msg_id b1 ! 0 = uint (msg_id_counter a1 ! 0)" using B(5) W(6) rx_id_length [OF b(2)] by simp
  moreover have "fresh b1 a1" using ids(2) A(3) B(4) by (simp add: fresh_def)
  moreover have "filter reception (effects b1) = filter reception (effects b)" using B(3) by simp
  moreover have "PD_HEADER_TYPE (rx_header b1) = ucast m" "PD_HEADER_EXT (rx_header b1) = 1" using B(2) W(4,5) by simp_all
  ultimately have "if 0 = last_chunk bs then arrived_whole m bs (filter reception (effects b)) (fold prl_exec (sent ea) a1) (prl_run eb True b1)
      else between eb db m bs (filter reception (effects b)) (0 + 1) (fold prl_exec (sent ea) a1) (prl_run eb True b1)"
    using chunk_over [OF L le0 A(1) B(1)] by blast
  moreover have "fst p = fold prl_exec (sent ea) a1" "snd p = prl_run eb True b1"
    by (simp_all add: p_def first_exchange_def Let_def a1_def b1_def)
  ultimately show ?thesis by (auto split: if_splits)
qed

lemma next_step:
  assumes L: "link_ok ea eb da db m bs" and k: "k \<le> last_chunk bs" and ab: "between eb db m bs got k a b"
  defines "p \<equiv> next_exchange ea eb (a, b)"
  shows "if k = last_chunk bs then arrived_whole m bs got (fst p) (snd p) else between eb db m bs got (k + 1) (fst p) (snd p)"
proof -
  note sides = link_okD(1-3) [OF L] and message = link_okD(4,5,6,7) [OF L] and calm = link_okD(8,9) [OF L]
  obtain q es where q: "length q = 28" "take 2 q = le16 (chunk_request k)"
      "wire b = (PD_HEADER (ucast m) (env_power_role eb es) db (msg_id_counter b ! 0) (of_nat 1) 2 1, q)"
    using ab by (auto simp: between_def)
  have ready: "ready_chunk bs m k a" and req: "requesting_chunk bs m k b" and ids: "fresh a b" "fresh b a"
      and got: "filter reception (effects b) = got"
    using ab by (simp_all add: between_def)
  have wf: "prl_wf a" "prl_wf b"
    using ready req by (simp_all add: ready_chunk_def sender_def requesting_chunk_def receiver_def)
  define h where "h = PD_HEADER (ucast m) (env_power_role eb es) db (msg_id_counter b ! 0) (of_nat 1) 2 1"
  have W: "wanted ea u h" "sop_of h = 0" "PD_HEADER_EXT h = 1" "msg_ident h = uint (msg_id_counter b ! 0)" for u
    unfolding h_def using header_wanted [OF sides(2,1) sides(3) [symmetric] message(1) counter_small [OF wf(2)], of 1] by simp_all
  define a1 where "a1 = fold prl_exec [Phy_message (Inr (wire b)), Prl_run ea True] a"
  have new: "rx_msg_id a ! 0 \<noteq> msg_ident h" using ids(2) W(4) by (simp add: fresh_def)
  note A = chunk_requested [OF calm(1) message(3,4) k message(2) ready W(1-3) new q(1,2), folded q(3) [folded h_def], folded a1_def]
  define b1 where "b1 = fold prl_exec (sent eb) b"
  note B1 = request_sent [OF calm(2) req, of 0, folded sent_def b1_def]
  note V = sent_chunk_wire [OF L A(1) k]
  have new1: "rx_msg_id b1 ! 0 \<noteq> uint (msg_id_counter a1 ! 0)" using ids(1) A(2) B1(4) by (simp add: fresh_def)
  define b2 where "b2 = fold prl_exec [Phy_message (Inr (wire a1)), Prl_run eb True, Prl_run eb True] b1"
  note B2 = chunk_arrives [OF calm(2) message(3,4) k B1(1) V(2-4) new1 [folded V(6)], folded V(1), folded b2_def]
  have wf1: "prl_wf b1" using B1(1) by (simp add: requested_chunk_def receiver_def)
  have "rx_msg_id b2 ! 0 = uint (msg_id_counter a1 ! 0)" using B2(5) V(6) rx_id_length [OF wf1] by simp
  moreover have "fresh b2 a1"
  proof -
    have "0 < length (msg_id_counter b)" using wf(2) by (simp add: prl_wf_def ids_ok_def)
    then show ?thesis
      using A(3) W(4) rx_id_length [OF wf(1)] B1(3) B2(4) next_msg_id by (simp add: fresh_def)
  qed
  moreover have "filter reception (effects b2) = got" using B2(3) B1(2) got by simp
  moreover have "PD_HEADER_TYPE (rx_header b2) = ucast m" "PD_HEADER_EXT (rx_header b2) = 1" using B2(2) V(4,5) by simp_all
  ultimately have "if k = last_chunk bs then arrived_whole m bs got (fold prl_exec (sent ea) a1) (prl_run eb True b2)
      else between eb db m bs got (k + 1) (fold prl_exec (sent ea) a1) (prl_run eb True b2)"
    using chunk_over [OF L k A(1) B2(1)] by blast
  moreover have "fst p = fold prl_exec (sent ea) a1" "snd p = prl_run eb True b2"
    by (simp_all add: p_def next_exchange_def Let_def a1_def b1_def b2_def)
  ultimately show ?thesis by (simp only:)
qed

lemma next_steps:
  assumes L: "link_ok ea eb da db m bs" and "0 < last_chunk bs"
    and first: "between eb db m bs got 1 (fst p) (snd p)" and "j < last_chunk bs"
  shows "between eb db m bs got (j + 1) (fst ((next_exchange ea eb ^^ j) p)) (snd ((next_exchange ea eb ^^ j) p))"
  using assms(4)
proof (induction j)
  case (Suc j)
  define r where "r = (next_exchange ea eb ^^ j) p"
  have "between eb db m bs got (j + 1) (fst r) (snd r)" using Suc by (simp add: r_def)
  from next_step [OF L _ this] Suc.prems
  have "between eb db m bs got (Suc j + 1) (fst (next_exchange ea eb (fst r, snd r))) (snd (next_exchange ea eb (fst r, snd r)))"
    by (simp split: if_splits)
  then show ?case by (simp add: r_def)
qed (use first in simp)

lemma transfer_arrives:
  assumes L: "link_ok ea eb da db m bs"
    and a: "prl_idle a" "prl_wf a" "prl_get_rev 0 a = PD_REV30"
    and b: "prl_idle b" "prl_wf b" "prl_get_rev 0 b = PD_REV30" "xmit_type b = 0" and ids: "fresh a b" "fresh b a"
  defines "p \<equiv> transfer ea eb m bs (a, b)"
  shows "arrived_whole m bs (filter reception (effects b)) (fst p) (snd p)"
proof (cases "last_chunk bs")
  case 0
  then show ?thesis using first_step [OF L a b ids] by (simp add: p_def transfer_def)
next
  case (Suc j)
  define r where "r = (next_exchange ea eb ^^ j) (first_exchange ea eb m bs (a, b))"
  have "between eb db m bs (filter reception (effects b)) 1 (fst (first_exchange ea eb m bs (a, b))) (snd (first_exchange ea eb m bs (a, b)))"
    using first_step [OF L a b ids] Suc by simp
  then have "between eb db m bs (filter reception (effects b)) (j + 1) (fst r) (snd r)"
    unfolding r_def using next_steps [OF L] Suc by simp
  from next_step [OF L _ this] Suc
  have "arrived_whole m bs (filter reception (effects b)) (fst (next_exchange ea eb r)) (snd (next_exchange ea eb r))" by simp
  then show ?thesis using Suc by (simp add: p_def transfer_def r_def)
qed

text \<open>
  C1: an extended message of 1 to 260 bytes that the policy engine hands to one protocol layer reaches
  the policy engine of the other one whole: after the chunks and their requests went over the wire, the
  receiver has heard of one message more, with these bytes, this type and the extended bit, the sender
  was told that the message is sent, and both layers are idle.
\<close>

theorem prl_extended_message_arrives:
  assumes "side ea da" "side eb db" "da \<noteq> db" "m < 32" "m \<noteq> 13" "0 < length bs" "length bs \<le> 260"
    and "prl_idle a" "prl_wf a" "prl_get_rev 0 a = PD_REV30"
    and "prl_idle b" "prl_wf b" "prl_get_rev 0 b = PD_REV30" "xmit_type b = 0"
    and "rx_msg_id b ! 0 \<noteq> uint (msg_id_counter a ! 0)" "rx_msg_id a ! 0 \<noteq> uint (msg_id_counter b ! 0)"
    and "transfer ea eb m bs (a, b) = (a', b')"
  shows "prl_idle a' \<and> prl_idle b' \<and> hd (effects a') = Pe_message_sent \<and>
    (\<exists>h. filter reception (effects b') = Pe_message_received h bs # filter reception (effects b) \<and>
      PD_HEADER_TYPE h = ucast m \<and> PD_HEADER_EXT h = 1)"
proof -
  have "link_ok ea eb da db m bs" using assms(1-7) by (simp add: link_ok_def)
  from transfer_arrives [OF this assms(8-14)] show ?thesis
    using assms(15-17) by (auto simp: arrived_whole_def fresh_def)
qed

text \<open>A source and a sink that have just started, and a message of 60 bytes, three chunks.\<close>

definition sink_env :: prl_env where
  "sink_env = (quiet_env 5)\<lparr>env_data_role := \<lambda>_. 0, env_power_role := \<lambda>_. 0\<rparr>"

lemma demo_sides: "side (quiet_env 5) 1" "side sink_env 0"
  by (simp_all add: side_def env_calm_quiet sink_env_def env_calm_def) (simp_all add: quiet_env_def)

theorem prl_extended_message_arrives_witness:
  "\<exists>a b h. transfer (quiet_env 5) sink_env 5 (replicate 60 7) (prl_started, prl_started) = (a, b) \<and> prl_idle a \<and> prl_idle b \<and>
     filter reception (effects b) = Pe_message_received h (replicate 60 7) # filter reception (effects prl_started)"
proof -
  obtain a b where t: "transfer (quiet_env 5) sink_env 5 (replicate 60 7) (prl_started, prl_started) = (a, b)" by fastforce
  have rev: "prl_get_rev 0 prl_started = PD_REV30" by code_simp
  have xt: "xmit_type prl_started = 0" by code_simp
  have fresh: "rx_msg_id prl_started ! 0 \<noteq> uint (msg_id_counter prl_started ! 0)" by code_simp
  show ?thesis
    using prl_extended_message_arrives [OF demo_sides _ _ _ _ _ prl_started_ok rev prl_started_ok rev xt fresh fresh t] t by auto
qed

end
