(* ===== verification/PrlReset.thy ===== *)
theory PrlReset
  imports PrlSend
begin

section \<open>A hard reset of the protocol layer\<close>

text \<open>
  The policy engine asks for a hard reset: the layer resets, signals the reset to the partner, waits for
  its timer, tells the policy engine and is initialised again when the policy engine starts over. The
  timers are those of \<open>PdTimer\<close>, for \<open>P\<close> ports.
\<close>

definition at_time :: "nat \<Rightarrow> u64 \<Rightarrow> prl_env \<Rightarrow> bool" where
  "at_time p t env \<longleftrightarrow> env_calm env \<and> env_port env = p \<and> (\<forall>h. env_now env h = t)"

definition timer_of :: "prl \<Rightarrow> nat \<Rightarrow> nat \<Rightarrow> pd_view" where "timer_of s p t = timer_view (ptimers s) p t"

definition ids_reset :: "prl \<Rightarrow> bool" where
  "ids_reset s \<longleftrightarrow> msg_id_counter s = replicate 5 0 \<and> rx_msg_id s = replicate 5 (-1) \<and> pd_rev s = replicate 5 PD_REV30"

lemma reset_all_ids:
  assumes "prl_wf s"
  shows "reset_all_msg_ids s = s\<lparr>msg_id_counter := replicate 5 0, rx_msg_id := replicate 5 (-1)\<rparr>"
proof -
  have l: "length (msg_id_counter s) = 5" "length (rx_msg_id s) = 5" using assms by (simp_all add: prl_wf_def ids_ok_def)
  have five: "xs = [xs ! 0, xs ! 1, xs ! 2, xs ! 3, xs ! 4]" if "length xs = 5" for xs :: "'a list"
    by (rule nth_equalityI) (use that in \<open>auto simp: nth_Cons numeral_eq_Suc split: nat.splits\<close>)
  have upd: "xs[0 := v, 1 := v, 2 := v, 3 := v, 4 := v] = replicate 5 v" if "length xs = 5" for xs :: "'a list" and v
    by (subst five [OF that]) (simp add: numeral_eq_Suc)
  have "check ok u = u" if "ok" for ok u using that by (cases u) (simp add: check_def)
  then have "prl_reset_msg_ids t u = u\<lparr>msg_id_counter := (msg_id_counter u)[t := 0], rx_msg_id := (rx_msg_id u)[t := -1]\<rparr>"
    if "t < 5" for t u
    using that by (simp add: prl_reset_msg_ids_def NUM_SOP_STAR_TYPES_def)
  then show ?thesis
    using upd [OF l(1), of 0] upd [OF l(2), of "-1"]
    by (simp add: reset_all_msg_ids_def NUM_SOP_STAR_TYPES_def upt_rec) (simp add: numeral_eq_Suc)
qed

subsection \<open>Timers of the layer\<close>

lemma ptimers_inv:
  assumes "pd_inv P (ptimers s)" "env_port env < P" "t < PD_TIMER_COUNT"
  shows "pd_inv P (ptimers (timer_disable env t s))" "pd_inv P (ptimers (timer_enable env t us s))"
    "timer_of (timer_enable env t us s) (env_port env) t = Timer_Running (env_now env (effects s) + ucast us)"
  using disable_step [OF assms] enable_step [OF assms, of "env_now env (effects s)" us] assms(2,3)
  by (simp_all add: timer_disable_def timer_enable_def step_to_def same_view_def view_upd_def timer_of_def)

lemma tx_exit_inv: "pd_inv P (ptimers s) \<Longrightarrow> env_port env < P \<Longrightarrow> pd_inv P (ptimers (prl_tx_exit env s))"
  by (simp add: prl_tx_exit_def ptimers_inv(1) PD_TIMER_COUNT_def PR_TIMER_TCPC_TX_TIMEOUT_def PR_TIMER_SINK_TX_def)

lemma tx_to_wait_facts:
  "tx_state (tx_to_wait env s) = Some PRL_TX_WAIT_FOR_MESSAGE_REQUEST" "effects (tx_to_wait env s) = effects s"
  "local_state (tx_to_wait env s) = local_state s" "hr_state (tx_to_wait env s) = hr_state s"
  "hr_flags (tx_to_wait env s) = hr_flags s" "pdmsg_flags (tx_to_wait env s) = pdmsg_flags s"
  "msg_id_counter (tx_to_wait env s) = msg_id_counter s" "rx_msg_id (tx_to_wait env s) = rx_msg_id s"
  "pd_rev (tx_to_wait env s) = pd_rev s" "rx_queue (tx_to_wait env s) = rx_queue s"
  by (simp_all add: tx_to_wait_def tx_move_def prl_tx_exit_def timer_disable_def prl_tx_wait_for_message_request_entry_def)

lemma tx_to_wait_inv: "pd_inv P (ptimers s) \<Longrightarrow> env_port env < P \<Longrightarrow> pd_inv P (ptimers (tx_to_wait env s))"
  using tx_exit_inv by (simp add: tx_to_wait_def tx_move_def prl_tx_wait_for_message_request_entry_def)

subsection \<open>The steps\<close>

definition resetting :: "nat \<Rightarrow> nat \<Rightarrow> prl \<Rightarrow> bool" where
  "resetting P p s \<longleftrightarrow> local_state s = SM_RUN \<and> PRL_FLAGS_PE_HARD_RESET \<in> hr_flags s \<and> PRL_FLAGS_TX_COMPLETE \<notin> pdmsg_flags s \<and>
     ids_reset s \<and> prl_wf s \<and> pd_inv P (ptimers s) \<and> p < P \<and> \<not> tcpm_has_pending_message (rx_queue s)"

lemma reset_requested:
  assumes s: "local_state s = SM_RUN" "hr_state s = Some PRL_HR_WAIT_FOR_REQUEST" "prl_wf s" "pd_inv P (ptimers s)"
      "\<not> tcpm_has_pending_message (rx_queue s)"
    and env: "env_port env = p" "p < P"
  defines "t \<equiv> prl_request env Execute_hard_reset s"
  shows "resetting P p t \<and> hr_state t = Some PRL_HR_RESET_LAYER \<and> effects t = [Notify_hard_reset, Rx_enable False] @ effects s"
proof -
  have wf: "prl_wf t" using s(3) by (simp add: t_def prl_wf_request)
  define u where "u = s\<lparr>hr_flags := insert PRL_FLAGS_PE_HARD_RESET (hr_flags s), hr_state := Some PRL_HR_RESET_LAYER,
      tch_flags := {}, rch_flags := {}, pdmsg_flags := {}\<rparr>"
  have "prl_wf u" using s(3) by (simp add: u_def)
  define v where "v = u\<lparr>msg_id_counter := replicate 5 0, rx_msg_id := replicate 5 (-1), pd_rev := replicate 5 PD_REV30,
      effects := [Notify_hard_reset, Rx_enable False] @ effects s\<rparr>"
  have t: "t = tx_to_wait env v"
    using s(1,2) reset_all_ids [OF \<open>prl_wf u\<close>]
    by (simp add: t_def prl_request_def prl_execute_hard_reset_def prl_is_running_def set_state_prl_hr_def prl_hr_exit_def prl_hr_entry_def
        prl_hr_reset_layer_entry_def Let_def emit_def prl_set_default_pd_revision_def NUM_SOP_STAR_TYPES_def v_def) (simp add: u_def)
  have "pd_inv P (ptimers t)" unfolding t using s(4) env by (intro tx_to_wait_inv) (simp_all add: v_def u_def)
  then show ?thesis
    using wf s env by (simp add: resetting_def ids_reset_def) (simp add: t tx_to_wait_facts v_def u_def)
qed

lemma reset_signalled:
  assumes s: "resetting P p s" "hr_state s = Some PRL_HR_RESET_LAYER" and env: "at_time p now env"
  defines "t \<equiv> prl_run env True s"
  shows "resetting P p t \<and> hr_state t = Some PRL_HR_WAIT_FOR_PHY_HARD_RESET_COMPLETE \<and>
    timer_of t p PR_TIMER_HARD_RESET_COMPLETE = Timer_Running (now + 25000) \<and>
    effects t = Transmit TCPCI_MSG_TX_HARD_RESET 0 (tx_chk_buf s) # effects s"
proof -
  note facts = s(1) [unfolded resetting_def]
  have calm: "env_calm env" using env by (simp add: at_time_def)
  have wf: "prl_wf t" using facts calm by (simp add: t_def prl_wf_run calm_pe_ok)
  define u where "u = s\<lparr>xmit_type := TCPCI_MSG_TX_HARD_RESET, xmit_status := TCPC_TX_UNSET,
      pdmsg_flags := pdmsg_flags s - {PRL_FLAGS_TX_COMPLETE}, hr_state := Some PRL_HR_WAIT_FOR_PHY_HARD_RESET_COMPLETE,
      effects := Transmit TCPCI_MSG_TX_HARD_RESET 0 (tx_chk_buf s) # effects s\<rparr>"
  have t: "t = timer_enable env PR_TIMER_HARD_RESET_COMPLETE PD_T_PS_HARD_RESET u"
    using facts s(2) calm
    by (simp add: t_def prl_run_def prl_run_enabled_def Let_def prl_hr_run_def prl_hr_reset_layer_run_def prl_hr_send_msg_to_phy_def
        tcpm_transmit_def emit_def env_calm_def set_state_prl_hr_def prl_hr_exit_def prl_hr_entry_def
        prl_hr_wait_for_phy_hard_reset_complete_entry_def u_def timer_enable_def)
  have "pd_inv P (ptimers u)" "env_port env < P" "PR_TIMER_HARD_RESET_COMPLETE < PD_TIMER_COUNT"
    using facts env by (simp_all add: u_def at_time_def PR_TIMER_HARD_RESET_COMPLETE_def PD_TIMER_COUNT_def)
  note tm = ptimers_inv [OF this]
  have "timer_of t p PR_TIMER_HARD_RESET_COMPLETE = Timer_Running (now + 25000)"
    using tm(3) [of PD_T_PS_HARD_RESET] env by (simp add: t at_time_def PD_T_PS_HARD_RESET_def)
  moreover have "pd_inv P (ptimers t)" using tm(2) by (simp add: t)
  ultimately show ?thesis
    using wf facts by (simp add: resetting_def ids_reset_def) (simp add: t timer_enable_def u_def)
qed

text \<open>While the timer runs, runs and completions of the port controller change nothing but the status.\<close>

definition waiting_phy :: "nat \<Rightarrow> nat \<Rightarrow> u64 \<Rightarrow> prl \<Rightarrow> bool" where
  "waiting_phy P p e s \<longleftrightarrow> resetting P p s \<and> hr_state s = Some PRL_HR_WAIT_FOR_PHY_HARD_RESET_COMPLETE \<and>
     timer_of s p PR_TIMER_HARD_RESET_COMPLETE = Timer_Running e"

definition early :: "nat \<Rightarrow> u64 \<Rightarrow> prl_op \<Rightarrow> bool" where
  "early p e x \<longleftrightarrow> (\<exists>env t. x = Prl_run env True \<and> at_time p t env \<and> t < e) \<or> (\<exists>t st. x = Phy_complete t st)"

lemma waiting_run:
  assumes "waiting_phy P p e s" "at_time p t env" "t < e"
  shows "prl_run env True s = s"
proof -
  have nt: "\<not> snd (pd_timer_is_expired t p PR_TIMER_HARD_RESET_COMPLETE (ptimers s))"
    using assms by (simp add: is_expired_result waiting_phy_def timer_of_def due_def)
  moreover have "fst (pd_timer_is_expired t p PR_TIMER_HARD_RESET_COMPLETE (ptimers s)) = ptimers s"
    using nt by (auto simp: pd_timer_is_expired_def split: if_splits)
  ultimately have "timer_expired env PR_TIMER_HARD_RESET_COMPLETE s = (s, False)"
    using assms(2) by (cases s) (simp add: timer_expired_def split_beta at_time_def)
  then show ?thesis
    using assms(1) by (simp add: prl_run_def prl_run_enabled_def Let_def prl_hr_run_def
        prl_hr_wait_for_phy_hard_reset_complete_run_def waiting_phy_def resetting_def)
qed

lemma waiting_early:
  "waiting_phy P p e s \<Longrightarrow> early p e x \<Longrightarrow> waiting_phy P p e (prl_exec x s) \<and> effects (prl_exec x s) = effects s"
  using waiting_run [of P p e s]
  by (auto simp: early_def pd_transmit_complete_def) (simp_all add: waiting_phy_def resetting_def ids_reset_def timer_of_def)

lemma waiting_all_early:
  "waiting_phy P p e s \<Longrightarrow> \<forall>x\<in>set xs. early p e x \<Longrightarrow>
   waiting_phy P p e (fold prl_exec xs s) \<and> effects (fold prl_exec xs s) = effects s"
  by (induction xs arbitrary: s) (use waiting_early in auto)

lemma reset_over:
  assumes s: "waiting_phy P p e s" and env: "at_time p now env" and due: "e \<le> now"
  defines "t \<equiv> prl_run env True s"
  shows "prl_wf t \<and> ids_reset t \<and> \<not> tcpm_has_pending_message (rx_queue t) \<and> effects t = Pe_hard_reset_sent # effects s"
proof -
  note facts = s [unfolded waiting_phy_def resetting_def]
  have calm: "env_calm env" using env by (simp add: at_time_def)
  have wf: "prl_wf t" using facts calm by (simp add: t_def prl_wf_run calm_pe_ok)
  have exp: "snd (timer_expired env PR_TIMER_HARD_RESET_COMPLETE s)"
    using s env due is_expired_result [of now p PR_TIMER_HARD_RESET_COMPLETE "ptimers s"]
    by (simp add: timer_expired_def split_beta at_time_def waiting_phy_def timer_of_def due_def)
  obtain tm where tm: "fst (timer_expired env PR_TIMER_HARD_RESET_COMPLETE s) = s\<lparr>ptimers := tm\<rparr>"
    by (simp add: timer_expired_def split_beta)
  have "t = set_state_prl_hr env PRL_HR_WAIT_FOR_PE_HARD_RESET_COMPLETE (emit Pe_hard_reset_sent (s\<lparr>ptimers := tm\<rparr>))"
    using facts calm exp tm
    by (simp add: t_def prl_run_def prl_run_enabled_def Let_def prl_hr_run_def prl_hr_wait_for_phy_hard_reset_complete_run_def
        split_beta tell_pe_def env_calm_def emit_def set_state_prl_hr_def prl_hr_entry_def prl_hr_exit_def timer_disable_def)
  then show ?thesis
    using facts wf by (simp add: set_state_prl_hr_def prl_hr_exit_def prl_hr_entry_def timer_disable_def emit_def ids_reset_def)
qed

text \<open>Initialisation, from any state.\<close>

lemma init_result:
  assumes "prl_wf s"
  shows "\<exists>tm. prl_init env s = s\<lparr>tx_flags := {}, last_xmit_type := 0, xmit_status := TCPC_TX_UNSET, tch_flags := {PRL_FLAGS_CHUNKING},
      rch_flags := {PRL_FLAGS_CHUNKING}, pdmsg_flags := {}, hr_flags := {}, msg_id_counter := replicate 5 0,
      rx_msg_id := replicate 5 (-1), ptimers := tm, tx_state := Some PRL_TX_WAIT_FOR_MESSAGE_REQUEST,
      rch_state := Some RCH_WAIT_FOR_MESSAGE_FROM_PROTOCOL_LAYER, tch_state := Some TCH_WAIT_FOR_MESSAGE_REQUEST_FROM_PE,
      hr_state := Some PRL_HR_WAIT_FOR_REQUEST,
      effects := [Rx_enable (env_connected env (Select_rp_ok True # effects s)), Select_rp_ok True] @ effects s\<rparr>"
proof -
  define u where "u = s\<lparr>tx_flags := {}, effects := Select_rp_ok True # effects s, last_xmit_type := 0, xmit_status := TCPC_TX_UNSET,
      tch_flags := {}, rch_flags := {}, pdmsg_flags := {}, hr_flags := {}\<rparr>"
  have "prl_wf u" using assms by (simp add: u_def)
  then show ?thesis
    unfolding prl_init_def Let_def emit_def TCPCI_MSG_SOP_def
    by (intro exI [of _ "pd_timer_disable_range (env_port env) PR_TIMER_RANGE (ptimers s)"])
      (simp add: reset_all_ids [OF \<open>prl_wf u\<close>] flip: u_def,
       simp add: tx_to_phy_layer_reset_def tx_move_def prl_tx_exit_def prl_tx_phy_layer_reset_entry_def emit_def tx_to_wait_def
        prl_tx_wait_for_message_request_entry_def rch_to_wait_def rch_move_def rch_exit_def
        rch_wait_for_message_from_protocol_layer_entry_def tch_to_wait_def tch_move_def tch_exit_def
        tch_wait_for_message_request_from_pe_entry_def set_state_prl_hr_def prl_hr_exit_def prl_hr_entry_def
        prl_hr_wait_for_request_entry_def u_def)
qed

lemma restarted:
  fixes e0 :: prl_env
  assumes s: "prl_wf s" "ids_reset s" "\<not> tcpm_has_pending_message (rx_queue s)" and env: "env_calm env"
  defines "t \<equiv> fold prl_exec [Pe_requests e0 Hard_reset_done, Pe_requests e0 Reset_soft, Prl_run env True] s"
  shows "prl_idle t \<and> ids_reset t \<and>
    effects t = [Rx_enable (env_connected env (Select_rp_ok True # effects s)), Select_rp_ok True] @ effects s"
proof -
  define u where "u = s\<lparr>hr_flags := insert PRL_FLAGS_HARD_RESET_COMPLETE (hr_flags s), local_state := SM_INIT\<rparr>"
  have "prl_wf u" using s(1) by (simp add: u_def)
  from init_result [OF this, of env] obtain v where v: "prl_init env u = v" "prl_idle (v\<lparr>local_state := SM_RUN\<rparr>)" "ids_reset v"
      "effects v = [Rx_enable (env_connected env (Select_rp_ok True # effects s)), Select_rp_ok True] @ effects s"
    using s(2,3) by (auto simp: prl_idle_def ids_reset_def u_def)
  define w where "w = v\<lparr>local_state := SM_RUN\<rparr>"
  have idle: "prl_idle w" using v(2) by (simp add: w_def)
  note facts = idle [unfolded prl_idle_def]
  have "prl_rx_wait_for_phy_message env w = w" "prl_hr_run env w = w" "rch_run env w = w"
    using facts by (simp_all add: run_nothing)
  moreover have "tch_run env w = w" using facts by (simp add: tch_run_def tch_wait_for_message_request_from_pe_run_def)
  moreover have "prl_tx_run env w = w"
    using facts env leave_no_ams [OF env, of w] by (simp add: prl_tx_run_def prl_tx_wait_for_message_request_run_def env_calm_def)
  moreover have "t = prl_run_enabled env w"
    by (simp add: t_def prl_request_def prl_hard_reset_complete_def prl_reset_soft_def prl_run_def Let_def w_def u_def
        flip: v(1))
  ultimately have "t = w" using facts by (simp add: prl_run_enabled_def Let_def)
  then show ?thesis using idle v(3,4) by (simp add: w_def ids_reset_def)
qed

text \<open>
  C5: a hard reset that the policy engine asks for, whatever the layer is doing, resets the message ids
  and revisions of all SOP* types, goes to the port controller at the next run, is waited out, and
  reported to the policy engine by the first run that is 25 ms later or more; no run before does
  anything, not even when the port controller reports the reset as sent. After the policy engine's soft reset of
  the layer the layer is idle.
\<close>

theorem prl_hard_reset_completes:
  fixes e0 e3 :: prl_env
  assumes "local_state s = SM_RUN" "hr_state s = Some PRL_HR_WAIT_FOR_REQUEST" "prl_wf s" "pd_inv P (ptimers s)"
      "\<not> tcpm_has_pending_message (rx_queue s)"
    and "env_port e0 = p" "p < P" "at_time p t1 e1" "at_time p t2 e2" "env_calm e4"
    and "\<forall>x\<in>set xs. early p (t1 + 25000) x" "t1 + 25000 \<le> t2"
  defines "u \<equiv> fold prl_exec ([Pe_requests e0 Execute_hard_reset, Prl_run e1 True] @ xs) s"
  defines "v \<equiv> prl_run e2 True u"
  defines "w \<equiv> fold prl_exec [Pe_requests e3 Hard_reset_done, Pe_requests e3 Reset_soft, Prl_run e4 True] v"
  shows "(\<exists>d. effects u = [Transmit TCPCI_MSG_TX_HARD_RESET 0 d, Notify_hard_reset, Rx_enable False] @ effects s) \<and>
    ids_reset u \<and> effects v = Pe_hard_reset_sent # effects u \<and> prl_idle w \<and> ids_reset w"
proof -
  define s1 where "s1 = prl_request e0 Execute_hard_reset s"
  define s2 where "s2 = prl_run e1 True s1"
  have s1: "resetting P p s1" "hr_state s1 = Some PRL_HR_RESET_LAYER" "effects s1 = [Notify_hard_reset, Rx_enable False] @ effects s"
    using reset_requested [OF assms(1-5,6,7)] by (simp_all add: s1_def)
  have s2: "waiting_phy P p (t1 + 25000) s2" "effects s2 = Transmit TCPCI_MSG_TX_HARD_RESET 0 (tx_chk_buf s1) # effects s1"
    using reset_signalled [OF s1(1,2) assms(8)] by (simp_all add: s2_def waiting_phy_def)
  have "u = fold prl_exec xs s2" by (simp add: u_def s1_def s2_def)
  then have u: "waiting_phy P p (t1 + 25000) u" "effects u = effects s2"
    using waiting_all_early [OF s2(1) assms(11)] by simp_all
  have v: "prl_wf v" "ids_reset v" "\<not> tcpm_has_pending_message (rx_queue v)" "effects v = Pe_hard_reset_sent # effects u"
    using reset_over [OF u(1) assms(9,12)] by (simp_all add: v_def)
  have "prl_idle w \<and> ids_reset w" using restarted [OF v(1-3) assms(10), of e3] by (simp add: w_def)
  moreover have "ids_reset u" using u(1) by (simp add: waiting_phy_def resetting_def)
  ultimately show ?thesis using u(2) s2(2) s1(3) v(4) by simp
qed

lemma quiet_at_time: "at_time 0 now (quiet_env now)"
  using env_calm_quiet by (simp add: at_time_def) (simp add: quiet_env_def)

theorem prl_hard_reset_completes_witness:
  "prl_idle (fold prl_exec [Pe_requests (quiet_env 9) Execute_hard_reset, Prl_run (quiet_env 10) True,
     Phy_complete 15 TCPC_TX_COMPLETE_SUCCESS, Prl_run (quiet_env 20) True, Prl_run (quiet_env 30000) True,
     Pe_requests (quiet_env 30001) Hard_reset_done, Pe_requests (quiet_env 30001) Reset_soft,
     Prl_run (quiet_env 30002) True] (prl_started\<lparr>ptimers := pd_boot 1\<rparr>))"
proof -
  define s where "s = prl_started\<lparr>ptimers := pd_boot 1\<rparr>"
  have s: "local_state s = SM_RUN" "hr_state s = Some PRL_HR_WAIT_FOR_REQUEST" "prl_wf s" "pd_inv 1 (ptimers s)"
      "\<not> tcpm_has_pending_message (rx_queue s)"
    using prl_started_ok pd_boot_inv by (simp_all add: s_def prl_idle_def)
  have xs: "\<forall>x\<in>set [Phy_complete 15 TCPC_TX_COMPLETE_SUCCESS, Prl_run (quiet_env 20) True]. early 0 (10 + 25000) x"
    using quiet_at_time [of 20] by (auto simp: early_def)
  have port: "env_port (quiet_env 9) = 0" by (simp add: quiet_env_def)
  show ?thesis
    unfolding s_def [symmetric]
    using prl_hard_reset_completes [OF s port _ quiet_at_time quiet_at_time env_calm_quiet xs, of 30000 "quiet_env 30001" 30002]
    by simp
qed

end
