(* ===== verification/PrlDefects.thy ===== *)
theory PrlDefects
  imports PrlChunks PrlStuck
begin

section \<open>Runs of the protocol layer that show defects\<close>

text \<open>
  Short runs of the model, each with a policy engine that only listens, in which messages or errors get
  lost. They are evaluated by the kernel.
\<close>

text \<open>
  The transmission error of a chunk request stays flagged, and the next message is reported as failed
  in the run that hands it to the port controller.
\<close>

lemma stale_transmission_error:
  "take 3 (effects (fold prl_exec [first_of_many 0xF002, Prl_run (quiet_env 2) True, Prl_run (quiet_env 3) True,
     Phy_complete 4 TCPC_TX_COMPLETE_FAILED, Prl_run (quiet_env 4) True, Prl_run (quiet_env 5) True, Prl_run (quiet_env 6) True,
     Pe_requests (quiet_env 7) (Send_ctrl 0 3), Prl_run (quiet_env 7) True] prl_started)) =
   [Pe_report_error ERR_TCH_XMIT 0, Transmit 0 931 ([0, 140] @ replicate 26 0), Pe_report_error ERR_RCH_CHUNKED 0]"
  by code_simp

text \<open>
  A message whose transmission fails while another one arrives is neither reported as failed nor as
  discarded, and the next message goes out with the same message id.
\<close>

lemma failed_and_received:
  "filter (\<lambda>e. case e of Rx_enable b \<Rightarrow> False | _ \<Rightarrow> True) (effects (fold prl_exec [Pe_requests (quiet_env 7) (Send_ctrl 0 3),
     Prl_run (quiet_env 7) True, Phy_complete 8 TCPC_TX_COMPLETE_FAILED, Phy_message (Inr (0x1042, replicate 28 9)),
     Prl_run (quiet_env 9) True, Prl_run (quiet_env 10) True, Pe_requests (quiet_env 11) (Send_ctrl 0 4),
     Prl_run (quiet_env 11) True] prl_started)) =
   [Transmit 0 420 (replicate 28 0), Pe_message_received 0x1042 [9, 9, 9, 9], Transmit 0 419 (replicate 28 0), Select_rp_ok True]"
  by code_simp

lemma same_message_id: "PD_HEADER_ID 420 = PD_HEADER_ID 419"
  by code_simp

text \<open>A message that arrives in the run that leaves \<open>RCH_REPORT_ERROR\<close> is acknowledged and lost.\<close>

lemma message_after_error_lost:
  "filter reception (effects (fold prl_exec [Phy_message (Inr (0xF002, [0x64, 0x88] @ replicate 26 7)), Prl_run (quiet_env 2) True,
     Prl_run (quiet_env 3) True, Phy_message (Inr (0x1242, replicate 28 9)), Prl_run (quiet_env 4) True, Prl_run (quiet_env 5) True,
     Prl_run (quiet_env 6) True] prl_started)) = []"
  by code_simp

text \<open>
  The request for a chunk of a Country_Info message, whose type is the number of a soft reset, resets
  the message ids when the last message sent had no data.
\<close>

lemma country_info_resets_ids:
  "let s = fold prl_exec [first_of_many 0xF00D, Prl_run (quiet_env 2) True, Prl_run (quiet_env 3) True] prl_started
   in tx_state s = Some PRL_TX_LAYER_RESET_FOR_TRANSMIT \<and> rx_msg_id s ! 0 = -1"
  by code_simp

text \<open>Clearing the chunk buffer behind its header also clears the first two bytes of the receive buffer.\<close>

lemma construct_clears_rx:
  assumes "PRL_FLAGS_MSG_RECEIVED \<notin> tch_flags s" "length (rx_chk_buf s) = 28"
  shows "take 2 (rx_chk_buf (tch_construct_chunked_message_entry env s)) = [0, 0]"
proof -
  define num where "num = tx_chunk_bytes (ucast (tx_len s - send_offset s))"
  have n: "unat num \<le> 26" by (simp add: num_def tx_chunk_bytes_def PD_MAX_EXTENDED_MSG_CHUNK_LEN_def word_less_nat_alt)
  show ?thesis
    using assms n
    by (simp add: tch_construct_chunked_message_entry_def Let_def put_chk_def clear_chunk_def check_def put_bytes_def
        numeral_2_eq_2 flip: num_def)
qed

end
