(* ===== verification/HostCommand.thy ===== *)
theory HostCommand
  imports Prelude
begin

section \<open>Host commands, common/host_command_task.c and common/host_command.c\<close>

text \<open>
  Requests and responses of version 3 of the host protocol: a packet from the interface driver is
  checked, its command waits for the host command task, the task runs the handler, and the response is
  put into the response buffer with a checksum. Configuration: a sorted command table
  (\<open>CONFIG_HOSTCMD_SECTION_SORTED\<close>; the linear search is modelled too), safe mode, the status of
  slow commands (\<open>CONFIG_HOST_COMMAND_STATUS\<close>), a memory map in RAM, no PD coprocessor and no
  suppressed commands. Debug output is left out.

  One interface driver sends the packets and keeps one response buffer, as the SPI, LPC and I2C drivers
  do, so \<open>response\<close> is the buffer of \<open>pkt0\<close>, and \<open>args0.response\<close> is that buffer from
  its ninth byte on. A handler works on the state with its arguments in \<open>args0\<close>; it may ask for the
  versions of a command. The driver and the reset of the system are seen in \<open>hc_effects\<close>, the
  newest first. \<open>None\<close> is an access outside a buffer, a failed assertion, or a shift by more than
  the width of a word.
\<close>

subsection \<open>Codes and structures\<close>

definition res_code :: "ec_status \<Rightarrow> u16" where
  "res_code r =
     (case r of
        EC_RES_SUCCESS \<Rightarrow> 0
      | EC_RES_INVALID_COMMAND \<Rightarrow> 1
      | EC_RES_ERROR \<Rightarrow> 2
      | EC_RES_INVALID_PARAM \<Rightarrow> 3
      | EC_RES_ACCESS_DENIED \<Rightarrow> 4
      | EC_RES_INVALID_VERSION \<Rightarrow> 6
      | EC_RES_INVALID_CHECKSUM \<Rightarrow> 7
      | EC_RES_IN_PROGRESS \<Rightarrow> 8
      | EC_RES_UNAVAILABLE \<Rightarrow> 9
      | EC_RES_INVALID_HEADER \<Rightarrow> 12
      | EC_RES_REQUEST_TRUNCATED \<Rightarrow> 13
      | EC_RES_RESPONSE_TOO_BIG \<Rightarrow> 14
      | EC_RES_BUSY \<Rightarrow> 16)"

definition EC_HOST_REQUEST_VERSION :: u8 where "EC_HOST_REQUEST_VERSION = 3"
definition EC_HOST_RESPONSE_VERSION :: u8 where "EC_HOST_RESPONSE_VERSION = 3"
definition EC_PROTO_VERSION :: u32 where "EC_PROTO_VERSION = 2"
definition EC_CMD_REBOOT :: u16 where "EC_CMD_REBOOT = 0xD1"
definition EC_CMD_GET_COMMS_STATUS :: u16 where "EC_CMD_GET_COMMS_STATUS = 9"
definition EC_COMMS_STATUS_PROCESSING :: u32 where "EC_COMMS_STATUS_PROCESSING = 1"
definition EC_MEMMAP_SIZE :: nat where "EC_MEMMAP_SIZE = 255"
definition EC_MEMMAP_ID :: nat where "EC_MEMMAP_ID = 0x20"
definition EC_MEMMAP_ID_VERSION :: nat where "EC_MEMMAP_ID_VERSION = 0x22"
definition EC_MEMMAP_SWITCHES_VERSION :: nat where "EC_MEMMAP_SWITCHES_VERSION = 0x25"
definition EC_MEMMAP_EVENTS_VERSION :: nat where "EC_MEMMAP_EVENTS_VERSION = 0x26"
definition EC_MEMMAP_SWITCHES :: nat where "EC_MEMMAP_SWITCHES = 0x30"

record host_packet =
  request :: "u8 list"
  request_temp :: "u8 list option"
  request_max :: u16
  request_size :: u16
  response_room :: u16
  driver_result :: u16

record hc_args =
  a_command :: u16
  a_version :: u8
  params :: "u8 list"
  params_size :: u16
  response_max :: u16
  response_size :: u16
  a_result :: u16

datatype hc_effect = Sent "u8 list" u16 | System_reset | Interface_ready

record hc_state =
  args0 :: hc_args
  pkt_room :: u16
  response :: "u8 list"
  pending_args :: bool
  cmd_event :: bool
  command_pending :: bool
  saved_result :: u8
  memmap :: "u8 list"
  hc_effects :: "hc_effect list"

type_synonym hc_handler = "(int \<Rightarrow> u32 option) \<Rightarrow> hc_state \<Rightarrow> (hc_state \<times> u16) option"

record host_command =
  handler :: hc_handler
  cmd_code :: int
  version_mask :: u32

record hc_env =
  hcmds :: "host_command list"
  safe_mode_allows :: "int \<Rightarrow> bool"

definition upd_args :: "(hc_args \<Rightarrow> hc_args) \<Rightarrow> hc_state \<Rightarrow> hc_state" where
  "upd_args f s = s\<lparr>args0 := f (args0 s)\<rparr>"

text \<open>\<open>csum\<close> of the code is an \<open>int\<close> to which bytes are added.\<close>

definition csum :: "u8 list \<Rightarrow> int" where "csum bs = sum_list (map uint bs)"

subsection \<open>Finding a command\<close>

function find_sorted :: "host_command list \<Rightarrow> int \<Rightarrow> int \<Rightarrow> int \<Rightarrow> host_command option" where
  "find_sorted cmds c l r =
     (if r < l then None
      else let m = l + (r - l) div 2;
               cmd = cmds ! nat m
           in if cmd_code cmd < c then find_sorted cmds c (m + 1) r
              else if c < cmd_code cmd then find_sorted cmds c l (m - 1)
              else Some cmd)"
  by pat_completeness auto

termination find_sorted
  by (relation "measure (\<lambda>(cmds, c, l, r). nat (r - l + 1))") auto

definition find_host_command :: "hc_env \<Rightarrow> int \<Rightarrow> host_command option" where
  "find_host_command env c =
     (if \<not> safe_mode_allows env c then None
      else find_sorted (hcmds env) c 0 (int (length (hcmds env)) - 1))"

text \<open>Without \<open>CONFIG_HOSTCMD_SECTION_SORTED\<close> the table is searched from its start.\<close>

fun find_first :: "host_command list \<Rightarrow> int \<Rightarrow> host_command option" where
  "find_first [] c = None"
| "find_first (cmd # cmds) c = (if c = cmd_code cmd then Some cmd else find_first cmds c)"

subsection \<open>Responses\<close>

definition host_packet_respond :: "hc_state \<Rightarrow> hc_state option" where
  "host_packet_respond s =
     (let a = args0 s;
          a1 = (if a_result a \<noteq> 0 then a\<lparr>response_size := 0\<rparr>
                else if ucast (pkt_room s) - (8 :: u32) < ucast (response_size a)
                then a\<lparr>a_result := res_code EC_RES_RESPONSE_TOO_BIG, response_size := 0\<rparr>
                else a);
          header = [EC_HOST_RESPONSE_VERSION, 0] @ le16 (ucast (a_result a1)) @ le16 (ucast (response_size a1)) @ [0, 0]
      in do {
        buf \<leftarrow> mem_write (response s) 0 header;
        data \<leftarrow> mem_read buf 8 (unat (response_size a1));
        buf1 \<leftarrow> store buf 1 (word_of_int (- csum (header @ data)));
        out \<leftarrow> mem_read buf1 0 (unat (8 + response_size a1));
        Some (s\<lparr>args0 := a1, response := buf1, hc_effects := Sent out (a_result a1) # hc_effects s\<rparr>)
      })"

text \<open>\<open>irq\<close>: called in interrupt context.\<close>

definition host_send_response :: "bool \<Rightarrow> hc_state \<Rightarrow> hc_state option" where
  "host_send_response irq s =
     (if \<not> irq \<and> command_pending s
      then Some (s\<lparr>saved_result := if response_size (args0 s) \<noteq> 0 then ucast (res_code EC_RES_UNAVAILABLE)
                                   else ucast (a_result (args0 s)),
                   command_pending := False\<rparr>)
      else host_packet_respond
             (if \<not> irq \<and> a_result (args0 s) = res_code EC_RES_IN_PROGRESS then s\<lparr>command_pending := True\<rparr> else s))"

subsection \<open>Dispatch\<close>

definition host_command_process :: "hc_env \<Rightarrow> hc_state \<Rightarrow> (hc_state \<times> u16) option" where
  "host_command_process env s =
     do {
       buf \<leftarrow> mem_write (response s) 8 (replicate (unat (response_max (args0 s))) 0);
       let s1 = s\<lparr>response := buf\<rparr>;
       (case find_host_command env (uint (a_command (args0 s1))) of
          None \<Rightarrow> Some (s1, res_code EC_RES_INVALID_COMMAND)
        | Some cmd \<Rightarrow>
            if 32 \<le> a_version (args0 s1) then None
            else if \<not> bit (version_mask cmd) (unat (a_version (args0 s1))) then Some (s1, res_code EC_RES_INVALID_VERSION)
            else handler cmd (\<lambda>c. map_option version_mask (find_host_command env c)) s1)
     }"

definition host_command_received :: "hc_env \<Rightarrow> bool \<Rightarrow> hc_state \<Rightarrow> hc_state option" where
  "host_command_received env irq s =
     (let s1 = (if a_command (args0 s) = EC_CMD_REBOOT
                then upd_args (\<lambda>a. a\<lparr>a_result := res_code EC_RES_ERROR\<rparr>) (s\<lparr>hc_effects := System_reset # hc_effects s\<rparr>)
                else s)
      in if a_result (args0 s1) \<noteq> 0 then host_send_response irq s1
         else if a_command (args0 s1) = EC_CMD_GET_COMMS_STATUS then
           do { (s2, rv) \<leftarrow> host_command_process env s1; host_send_response irq (upd_args (\<lambda>a. a\<lparr>a_result := rv\<rparr>) s2) }
         else Some (s1\<lparr>pending_args := True, cmd_event := True\<rparr>))"

subsection \<open>Requests\<close>

text \<open>
  \<open>args0\<close> after the checks of a packet, from what it was before: on the left for a bad packet,
  with the error in \<open>a_result\<close>, on the right for the arguments of a command.
\<close>

definition packet_bad :: "hc_args \<Rightarrow> u16 \<Rightarrow> (hc_args + hc_args) option" where
  "packet_bad a0 e = Some (Inl (a0\<lparr>a_result := e\<rparr>))"

definition packet_args :: "hc_args \<Rightarrow> host_packet \<Rightarrow> (hc_args + hc_args) option" where
  "packet_args a0 pkt =
     (if driver_result pkt \<noteq> 0 then packet_bad a0 (driver_result pkt)
      else if request_size pkt < 8 then packet_bad a0 (res_code EC_RES_REQUEST_TRUNCATED)
      else if request_max pkt < request_size pkt then packet_bad a0 (res_code EC_RES_REQUEST_TRUNCATED)
      else if response_room pkt < 8 then None
      else do {
        header \<leftarrow> mem_read (request pkt) 0 8;
        temp \<leftarrow> (case request_temp pkt of None \<Rightarrow> Some None | Some t \<Rightarrow> map_option Some (mem_write t 0 header));
        let len = get16 (drop 6 header);
        (if header ! 0 \<noteq> EC_HOST_REQUEST_VERSION then packet_bad a0 (res_code EC_RES_INVALID_HEADER)
         else if (ucast (request_size pkt) :: u32) < 8 + len then packet_bad a0 (res_code EC_RES_REQUEST_TRUNCATED)
         else do {
           data \<leftarrow> mem_read (request pkt) 8 (unat len);
           ps \<leftarrow> (case temp of None \<Rightarrow> Some (drop 8 (request pkt)) | Some t \<Rightarrow> map_option (drop 8) (mem_write t 8 data));
           (if (word_of_int (csum (header @ data)) :: u8) \<noteq> 0 then packet_bad (a0\<lparr>params := ps\<rparr>) (res_code EC_RES_INVALID_CHECKSUM)
            else Some (Inr \<lparr>a_command = ucast (get16 (drop 2 header)), a_version = header ! 4, params = ps,
                            params_size = ucast len, response_max = response_room pkt - 8, response_size = 0,
                            a_result = res_code EC_RES_SUCCESS\<rparr>))
         })
      })"

definition host_packet_receive :: "hc_env \<Rightarrow> bool \<Rightarrow> host_packet \<Rightarrow> hc_state \<Rightarrow> hc_state option" where
  "host_packet_receive env irq pkt s =
     (let s1 = s\<lparr>pkt_room := response_room pkt\<rparr>
      in do {
        r \<leftarrow> packet_args (args0 s) pkt;
        (case r of
           Inl a \<Rightarrow> host_packet_respond (s1\<lparr>args0 := a\<rparr>)
         | Inr a \<Rightarrow> host_command_received env irq (s1\<lparr>args0 := a\<rparr>))
      })"

definition host_request_expected_size :: "u8 list \<Rightarrow> nat option" where
  "host_request_expected_size r =
     do {
       header \<leftarrow> mem_read r 0 8;
       Some (if header ! 0 \<noteq> EC_HOST_REQUEST_VERSION then 0
             else if header ! 5 \<noteq> 0 then 0
             else 8 + unat (get16 (drop 6 header)))
     }"

subsection \<open>The task\<close>

definition host_command_init :: "hc_state \<Rightarrow> hc_state option" where
  "host_command_init s =
     do {
       m1 \<leftarrow> store (memmap s) EC_MEMMAP_ID 0x45;
       m2 \<leftarrow> store m1 (EC_MEMMAP_ID + 1) 0x43;
       m3 \<leftarrow> store m2 EC_MEMMAP_ID_VERSION 1;
       m4 \<leftarrow> store m3 EC_MEMMAP_EVENTS_VERSION 1;
       Some (s\<lparr>memmap := m4, hc_effects := Interface_ready # hc_effects s\<rparr>)
     }"

text \<open>What the task does when it wakes up with its events.\<close>

definition host_command_task :: "hc_env \<Rightarrow> hc_state \<Rightarrow> hc_state option" where
  "host_command_task env s0 =
     (let s = s0\<lparr>cmd_event := False\<rparr>
      in if cmd_event s0 \<and> pending_args s then
           do { (s1, rv) \<leftarrow> host_command_process env s; host_send_response False (upd_args (\<lambda>a. a\<lparr>a_result := rv\<rparr>) s1) }
         else Some s)"

text \<open>
  The rate limit: the times \<open>t1\<close> and \<open>t_recess\<close>, the clock before and after the command, the
  least rest and the period of the configuration. The result says whether the task sleeps.
\<close>

definition rate_limit :: "u64 \<Rightarrow> u64 \<Rightarrow> u64 \<Rightarrow> u64 \<Rightarrow> u64 \<times> u64 \<Rightarrow> (u64 \<times> u64) \<times> bool" where
  "rate_limit min_rest period now0 now1 ts =
     (let (t1, t_recess) = ts;
          t_recess1 = (if min_rest < now0 - t1 then now0 else t_recess)
      in ((now1, t_recess1), period < now1 - t_recess1))"

subsection \<open>Handlers\<close>

text \<open>A response structure at the start of the response data.\<close>

definition put_response :: "u8 list \<Rightarrow> nat \<Rightarrow> hc_state \<Rightarrow> hc_state option" where
  "put_response bs n s =
     map_option (\<lambda>buf. upd_args (\<lambda>a. a\<lparr>response_size := of_nat n\<rparr>) (s\<lparr>response := buf\<rparr>)) (mem_write (response s) 8 bs)"

definition done_with :: "u16 \<Rightarrow> hc_state option \<Rightarrow> (hc_state \<times> u16) option" where
  "done_with rv r = map_option (\<lambda>s. (s, rv)) r"

definition host_command_proto_version :: hc_handler where
  "host_command_proto_version look s = done_with 0 (put_response (le32 EC_PROTO_VERSION) 4 s)"

definition host_command_hello :: hc_handler where
  "host_command_hello look s =
     do { d \<leftarrow> mem_read (params (args0 s)) 0 4; done_with 0 (put_response (le32 (get32 d + 0x01020304)) 4 s) }"

definition host_command_read_memmap :: hc_handler where
  "host_command_read_memmap look s =
     do {
       p \<leftarrow> mem_read (params (args0 s)) 0 2;
       let offset = unat (p ! 0);
       let n = unat (p ! 1);
       (if EC_MEMMAP_SIZE < n \<or> EC_MEMMAP_SIZE < offset \<or> EC_MEMMAP_SIZE < offset + n \<or>
           unat (response_max (args0 s)) < n
        then Some (s, res_code EC_RES_INVALID_PARAM)
        else do {
          v \<leftarrow> load (memmap s) EC_MEMMAP_SWITCHES_VERSION;
          (if offset = EC_MEMMAP_SWITCHES \<and> v = 0 then Some (s, res_code EC_RES_UNAVAILABLE)
           else do { bs \<leftarrow> mem_read (memmap s) offset n; done_with 0 (put_response bs n s) })
        })
     }"

definition host_command_get_cmd_versions :: hc_handler where
  "host_command_get_cmd_versions look s =
     do {
       c \<leftarrow> (if a_version (args0 s) = 1 then map_option (\<lambda>b. uint (get16 b)) (mem_read (params (args0 s)) 0 2)
             else map_option (\<lambda>b. uint (b ! 0)) (mem_read (params (args0 s)) 0 1));
       (case look c of
          None \<Rightarrow> Some (s, res_code EC_RES_INVALID_PARAM)
        | Some m \<Rightarrow> done_with 0 (put_response (le32 m) 4 s))
     }"

definition host_command_test_protocol :: hc_handler where
  "host_command_test_protocol look s =
     do {
       p \<leftarrow> mem_read (params (args0 s)) 0 40;
       let copy_len = (if 32 < get32 (drop 4 p) then 32 else unat (get32 (drop 4 p)));
       done_with (ucast (get32 p)) (put_response (take copy_len (drop 8 p) @ replicate (32 - copy_len) 0) copy_len s)
     }"

definition host_command_get_comms_status :: hc_handler where
  "host_command_get_comms_status look s =
     done_with 0 (put_response (le32 (if command_pending s then EC_COMMS_STATUS_PROCESSING else 0)) 4 s)"

definition host_command_get_saved_result :: "hc_state \<Rightarrow> hc_state \<times> u8" where
  "host_command_get_saved_result s = (s\<lparr>saved_result := ucast (res_code EC_RES_UNAVAILABLE)\<rparr>, saved_result s)"

definition host_command_resend_response :: hc_handler where
  "host_command_resend_response look s =
     (let (s1, result) = host_command_get_saved_result s
      in Some (upd_args (\<lambda>a. a\<lparr>response_size := 0, a_result := ucast result\<rparr>) s1, res_code EC_RES_SUCCESS))"

definition host_command_ap_fw_state :: hc_handler where
  "host_command_ap_fw_state look s = done_with 0 (Some (upd_args (\<lambda>a. a\<lparr>response_size := 0\<rparr>) s))"

end
