(* ===== verification/HostCommandProps.thy ===== *)
theory HostCommandProps
  imports HostCommand
begin

section \<open>What the host command layer does\<close>

text \<open>
  Encoded requests and responses, the requests that are accepted, the search of the command table, the
  answer to every request, and runs that show defects.
\<close>

lemma csum_byte: "(word_of_int (csum bs) :: u8) = sum_list bs"
  by (induction bs) (simp_all add: csum_def flip: wi_hom_add)

lemma get16_le16: "get16 (le16 w @ bs) = take_bit 16 w"
  by (rule bit_word_eqI) (auto simp: get16_def le16_def bit_simps)

lemma le16_get16: "length bs = 2 \<Longrightarrow> le16 (get16 bs) = bs"
  by (cases bs; cases "tl bs") (auto simp: get16_def le16_def bit_simps not_bit_word intro!: bit_word_eqI)

lemma get16_less: "get16 bs < 2 ^ 16"
proof -
  have "get16 bs = take_bit 16 (get16 bs)"
    by (rule bit_word_eqI) (auto simp: get16_def bit_simps not_bit_word)
  then have "unat (get16 bs) < 2 ^ 16" by (metis take_bit_nat_less_exp unsigned_take_bit_eq)
  then show ?thesis by (simp add: word_less_nat_alt)
qed
lemma sum_list_upd: "k < length bs \<Longrightarrow> sum_list (bs[k := x]) = sum_list bs - bs ! k + x" for bs :: "u8 list"
  by (induction bs arbitrary: k) (auto simp: nth_Cons' split: nat.split)

text \<open>A packet of the host protocol: the header, with the checksum in its second byte, and the data.\<close>

definition with_checksum :: "u8 list \<Rightarrow> u8 list" where "with_checksum bs = bs[1 := - sum_list (bs[1 := 0])]"

definition request_bytes :: "u16 \<Rightarrow> u8 \<Rightarrow> u8 \<Rightarrow> u8 list \<Rightarrow> u8 list" where
  "request_bytes cmd ver res data = with_checksum ([3, 0] @ le16 (ucast cmd) @ [ver, res] @ le16 (of_nat (length data)) @ data)"

definition response_bytes :: "u16 \<Rightarrow> u8 list \<Rightarrow> u8 list" where
  "response_bytes res data = with_checksum ([3, 0] @ le16 (ucast res) @ le16 (of_nat (length data)) @ [0, 0] @ data)"

lemma with_checksum_sum: "1 < length bs \<Longrightarrow> sum_list (with_checksum bs) = 0"
  by (simp add: with_checksum_def sum_list_upd)

lemma with_checksum_iff: "1 < length bs \<Longrightarrow> sum_list bs = 0 \<Longrightarrow> with_checksum bs = bs"
  by (simp add: with_checksum_def sum_list_upd)

lemma length_request_bytes [simp]: "length (request_bytes cmd ver res data) = 8 + length data"
  by (simp add: request_bytes_def with_checksum_def le16_def)

lemma request_bytes_nth:
  "request_bytes cmd ver res data ! 0 = 3"
  "take 2 (drop 2 (request_bytes cmd ver res data)) = le16 (ucast cmd)"
  "request_bytes cmd ver res data ! 4 = ver"
  "take 2 (drop 6 (request_bytes cmd ver res data)) = le16 (of_nat (length data))"
  "drop 8 (request_bytes cmd ver res data) = data"
  by (simp_all add: request_bytes_def with_checksum_def le16_def numeral_eq_Suc)

lemma le16_len: "length (le16 w) = 2" by (simp add: le16_def)

lemma eight_bytes: "length bs = 8 \<Longrightarrow> bs = [bs ! 0, bs ! 1] @ take 2 (drop 2 bs) @ [bs ! 4, bs ! 5] @ take 2 (drop 6 bs)"
  by (auto simp: list_eq_iff_nth_eq nth_append nth_Cons less_Suc_eq numeral_eq_Suc split: nat.splits)

lemma get16_take: "2 \<le> n \<Longrightarrow> get16 (take n bs) = get16 bs"
  by (simp add: get16_def)

text \<open>Bytes that sum to zero, of version 3 and with the length of the rest, are a request.\<close>

lemma request_bytesI:
  assumes "length h = 8" "h ! 0 = 3" "unat (get16 (drop 6 h)) = length d" "sum_list (h @ d) = 0"
  shows "h @ d = request_bytes (ucast (get16 (drop 2 h))) (h ! 4) (h ! 5) d"
proof -
  have l: "length d < 2 ^ 16" using get16_less [of "drop 6 h"] assms(3) by (simp add: word_less_nat_alt)
  have c: "le16 (ucast (ucast (get16 (drop 2 h)) :: u16)) = take 2 (drop 2 h)"
  proof -
    have "le16 (ucast (ucast (get16 (drop 2 h)) :: u16)) = le16 (get16 (take 2 (drop 2 h)))"
      using get16_less [of "drop 2 h"]
      by (auto simp: get16_take le16_def bit_simps intro!: bit_word_eqI)
    also have "\<dots> = take 2 (drop 2 h)" using assms(1) by (intro le16_get16) simp
    finally show ?thesis .
  qed
  have e: "le16 (of_nat (length d)) = take 2 (drop 6 h)"
  proof -
    have "of_nat (length d) = get16 (take 2 (drop 6 h))" using assms(3) by (simp add: get16_take flip: assms(3))
    then show ?thesis using assms(1) by (simp only: le16_get16 length_take length_drop)
  qed
  let ?b = "[3, 0] @ le16 (ucast (ucast (get16 (drop 2 h)) :: u16)) @ [h ! 4, h ! 5] @ le16 (of_nat (length d)) @ d"
  have b: "?b = (h @ d)[1 := 0]"
    unfolding c e using assms(1,2) by (subst (5) eight_bytes) simp_all
  have "request_bytes (ucast (get16 (drop 2 h))) (h ! 4) (h ! 5) d = with_checksum ((h @ d)[1 := 0])"
    unfolding request_bytes_def b ..
  also have "\<dots> = with_checksum (h @ d)" by (simp add: with_checksum_def)
  also have "\<dots> = h @ d" using assms(1,4) by (intro with_checksum_iff) simp_all
  finally show ?thesis by simp
qed

definition packet_fits :: "host_packet \<Rightarrow> bool" where
  "packet_fits pkt \<longleftrightarrow> unat (request_max pkt) \<le> length (request pkt) \<and>
     (case request_temp pkt of None \<Rightarrow> True | Some t \<Rightarrow> unat (request_max pkt) \<le> length t) \<and> 8 \<le> response_room pkt"

definition received_bytes :: "host_packet \<Rightarrow> u8 list" where
  "received_bytes pkt = take (unat (request_size pkt)) (request pkt)"

lemma take_bit_ucast16: "take_bit 16 (ucast (w :: u16) :: u32) = ucast w"
  using bit_imp_le_length [of w] by (intro bit_word_eqI) (auto simp: bit_simps)

text \<open>What becomes of a header and its data.\<close>

definition request_verdict :: "hc_args \<Rightarrow> host_packet \<Rightarrow> u8 list \<Rightarrow> u8 list \<Rightarrow> u8 list \<Rightarrow> hc_args + hc_args" where
  "request_verdict a0 pkt h d ps =
     (if h ! 0 \<noteq> 3 then Inl (a0\<lparr>a_result := res_code EC_RES_INVALID_HEADER\<rparr>)
      else if unat (request_size pkt) < 8 + unat (get16 (drop 6 h)) then Inl (a0\<lparr>a_result := res_code EC_RES_REQUEST_TRUNCATED\<rparr>)
      else if sum_list (h @ d) \<noteq> 0 then Inl (a0\<lparr>params := ps, a_result := res_code EC_RES_INVALID_CHECKSUM\<rparr>)
      else Inr \<lparr>a_command = ucast (get16 (drop 2 h)), a_version = h ! 4, params = ps,
                params_size = ucast (get16 (drop 6 h)), response_max = response_room pkt - 8, response_size = 0, a_result = 0\<rparr>)"

lemma unat_u16_u32: "unat (ucast (w :: u16) :: u32) = unat w"
proof -
  have "unat w < 2 ^ 32" using unat_lt2p [of w] by simp
  then show ?thesis by (simp add: unsigned_ucast_eq take_bit_nat_eq_self)
qed

lemma packet_args_header:
  assumes "packet_fits pkt" "driver_result pkt = 0" "request_size pkt \<le> request_max pkt" "8 \<le> request_size pkt"
  defines "h \<equiv> take 8 (request pkt)"
  defines "len \<equiv> unat (get16 (drop 6 h))"
  defines "d \<equiv> take len (drop 8 (request pkt))"
  shows "\<exists>ps. packet_args a0 pkt = Some
     (request_verdict a0 pkt h d ps) \<and>
     (unat (request_size pkt) \<ge> 8 + len \<longrightarrow> take len ps = d)"
proof -
  have sz: "8 \<le> unat (request_size pkt)" "unat (request_size pkt) \<le> length (request pkt)"
    using assms(1,3,4) by (auto simp: packet_fits_def word_le_nat_alt)
  have room: "\<not> response_room pkt < 8" "\<not> request_size pkt < 8" "\<not> request_max pkt < request_size pkt"
    using assms by (auto simp: packet_fits_def)
  have rd: "mem_read (request pkt) 0 8 = Some h" using sz by (simp add: mem_read_def h_def)
  have cmp: "(ucast (request_size pkt) :: u32) < 8 + get16 (drop 6 h) \<longleftrightarrow> unat (request_size pkt) < 8 + len"
  proof -
    have "unat (8 + get16 (drop 6 h)) = 8 + len"
      using get16_less [of "drop 6 h"] by (simp add: len_def unat_word_ariths word_less_nat_alt)
    then show ?thesis by (simp add: word_less_nat_alt unat_u16_u32)
  qed
  have d: "mem_read (request pkt) 8 len = Some d" if "\<not> unat (request_size pkt) < 8 + len"
    using that sz by (simp add: mem_read_def d_def)
  show ?thesis
  proof (cases "unat (request_size pkt) < 8 + len")
    case True
    have t: "\<exists>t'. (case request_temp pkt of None \<Rightarrow> Some None | Some t \<Rightarrow> map_option Some (mem_write t 0 h)) = Some t'"
      using sz assms(1,3) by (auto simp: packet_fits_def mem_write_def h_def word_le_nat_alt split: option.splits)
    then obtain t' where "(case request_temp pkt of None \<Rightarrow> Some None | Some t \<Rightarrow> map_option Some (mem_write t 0 h)) = Some t'" ..
    then show ?thesis
      using True room cmp by (simp add: packet_args_def packet_bad_def assms(2) rd request_verdict_def EC_HOST_REQUEST_VERSION_def Let_def len_def)
  next
    case False
    note rd8 = d [OF False] and basic = packet_args_def packet_bad_def assms(2) rd request_verdict_def EC_HOST_REQUEST_VERSION_def Let_def csum_byte
    show ?thesis
    proof (cases "request_temp pkt")
      case None
      then show ?thesis
        using False room cmp rd8 by (intro exI [of _ "drop 8 (request pkt)"]) (simp add: basic len_def res_code_def d_def)
    next
      case (Some t)
      have h8: "length h = 8" and dl: "length d = len" using sz False by (simp_all add: h_def d_def)
      have t: "mem_write t 0 h = Some (h @ drop 8 t)"
        using sz assms(1,3) by (simp add: Some packet_fits_def mem_write_def h_def word_le_nat_alt)
      have t2: "mem_write (h @ drop 8 t) 8 d = Some (h @ d @ drop (len + 8) t)"
        using False sz assms(1,3) h8 dl by (simp add: Some packet_fits_def mem_write_def word_le_nat_alt)
      show ?thesis
        using False room cmp rd8 dl h8 t2
          by (intro exI [of _ "d @ drop (len + 8) t"]) (simp add: basic Some t len_def res_code_def)
    qed
  qed
qed

text \<open>Requests that are too short or too long, or that the driver reports as wrong.\<close>

lemma packet_args_refused:
  assumes "driver_result pkt \<noteq> 0 \<or> request_size pkt < 8 \<or> request_max pkt < request_size pkt"
  shows "\<exists>a. a_result a \<noteq> 0 \<and> packet_args a0 pkt = Some (Inl a)"
  using assms by (auto simp: packet_args_def packet_bad_def res_code_def)

lemma packet_args_total:
  assumes "packet_fits pkt"
  shows "(\<exists>a. a_result a \<noteq> 0 \<and> packet_args a0 pkt = Some (Inl a)) \<or> (\<exists>a. packet_args a0 pkt = Some (Inr a))"
proof (cases "driver_result pkt \<noteq> 0 \<or> request_size pkt < 8 \<or> request_max pkt < request_size pkt")
  case False
  then show ?thesis
    using packet_args_header [OF assms, of a0] by (auto simp: request_verdict_def res_code_def not_less split: if_splits)
qed (use packet_args_refused in blast)

lemma packet_args_Inr:
  assumes "packet_fits pkt" "packet_args a0 pkt = Some (Inr a)"
  shows "\<exists>res data pad. received_bytes pkt = request_bytes (a_command a) (a_version a) res data @ pad \<and>
    driver_result pkt = 0 \<and> request_size pkt \<le> request_max pkt"
proof -
  have ok: "driver_result pkt = 0" "request_size pkt \<le> request_max pkt" "8 \<le> request_size pkt"
    using packet_args_refused [of pkt a0] assms(2) by (fastforce simp: not_less)+
  define h where "h = take 8 (request pkt)"
  define len where "len = unat (get16 (drop 6 h))"
  define d where "d = take len (drop 8 (request pkt))"
  obtain ps where "packet_args a0 pkt = Some (request_verdict a0 pkt h d ps)"
    using packet_args_header [OF assms(1) ok] by (auto simp: h_def d_def len_def)
  then have a: "request_verdict a0 pkt h d ps = Inr a" using assms(2) by simp
  have v: "h ! 0 = 3" "8 + len \<le> unat (request_size pkt)" "sum_list (h @ d) = 0"
      "a_command a = ucast (get16 (drop 2 h))" "a_version a = h ! 4"
    using a by (auto simp: request_verdict_def len_def split: if_splits)
  have sz: "unat (request_size pkt) \<le> length (request pkt)"
    using assms(1) ok(2) by (auto simp: packet_fits_def word_le_nat_alt)
  have len: "length h = 8" "length d = len" using v(2) sz by (simp_all add: h_def d_def)
  have "h @ d = request_bytes (a_command a) (a_version a) (h ! 5) d"
    using request_bytesI [OF len(1) v(1) _ v(3)] len(2) v(4,5) by (simp add: len_def)
  moreover have "received_bytes pkt = (h @ d) @ drop (8 + len) (received_bytes pkt)"
    using v(2) append_take_drop_id [of "8 + len" "received_bytes pkt"]
    by (simp add: received_bytes_def h_def d_def take_add [symmetric] min_def)
  ultimately show ?thesis using ok by metis
qed

lemma packet_args_request:
  assumes "packet_fits pkt" "driver_result pkt = 0" "request_size pkt \<le> request_max pkt"
    and "received_bytes pkt = request_bytes cmd ver res data @ pad"
  shows "\<exists>ps. packet_args a0 pkt = Some (Inr \<lparr>a_command = cmd, a_version = ver, params = ps, params_size = of_nat (length data),
      response_max = response_room pkt - 8, response_size = 0, a_result = 0\<rparr>) \<and> take (length data) ps = data"
proof -
  have sz: "unat (request_size pkt) \<le> length (request pkt)"
    using assms(1,3) by (auto simp: packet_fits_def word_le_nat_alt)
  then have n: "unat (request_size pkt) = 8 + length data + length pad"
    using arg_cong [OF assms(4), of length] by (simp add: received_bytes_def)
  then have 8: "8 \<le> request_size pkt" by (simp add: word_le_nat_alt)
  have small: "length data < 2 ^ 16" using n unat_lt2p [of "request_size pkt"] by simp
  let ?r = "request_bytes cmd ver res data"
  define h where "h = take 8 (request pkt)"
  have h: "h = take 8 ?r"
    using arg_cong [OF assms(4), of "take 8"] n by (simp add: h_def received_bytes_def min_def)
  have fields: "h ! 0 = 3" "h ! 4 = ver" "get16 (drop 2 h) = ucast cmd" "get16 (drop 6 h) = of_nat (length data)"
  proof -
    show "h ! 0 = 3" "h ! 4 = ver" by (simp_all add: h request_bytes_nth)
    have "get16 (drop 2 h) = get16 (take 2 (drop 2 ?r))" by (simp add: h get16_def)
    also have "\<dots> = ucast cmd"
      using get16_le16 [of "ucast cmd" "[]"] by (simp add: request_bytes_nth take_bit_ucast16)
    finally show "get16 (drop 2 h) = ucast cmd" .
    have "get16 (drop 6 h) = get16 (take 2 (drop 6 ?r))" by (simp add: h get16_def)
    also have "\<dots> = of_nat (length data)"
      using get16_le16 [of "of_nat (length data)" "[]"] small
      by (simp add: request_bytes_nth take_bit_of_nat take_bit_nat_eq_self)
    finally show "get16 (drop 6 h) = of_nat (length data)" .
  qed
  have len: "unat (get16 (drop 6 h)) = length data" using fields(4) small by (simp add: unat_of_nat_small)
  have d: "take (length data) (drop 8 (request pkt)) = data"
  proof -
    have "take (length data) (drop 8 (received_bytes pkt)) = data" by (simp add: assms(4) request_bytes_nth)
    then show ?thesis using n by (simp add: received_bytes_def drop_take min_def)
  qed
  have sum: "sum_list (h @ data) = 0"
  proof -
    have "h @ data = ?r" using append_take_drop_id [of 8 ?r] by (simp add: h request_bytes_nth del: append_take_drop_id)
    then show ?thesis using with_checksum_sum by (simp add: request_bytes_def le16_def)
  qed
  obtain ps where "packet_args a0 pkt = Some (request_verdict a0 pkt h data ps)" "take (length data) ps = data"
    using packet_args_header [OF assms(1-3) 8, folded h_def] len d n by auto
  moreover have "request_verdict a0 pkt h data ps = Inr \<lparr>a_command = cmd, a_version = ver, params = ps,
      params_size = of_nat (length data), response_max = response_room pkt - 8, response_size = 0, a_result = 0\<rparr>"
    using fields len n sum by (simp add: request_verdict_def) (auto intro!: bit_word_eqI simp: bit_simps)
  ultimately show ?thesis by auto
qed

definition carries :: "host_packet \<Rightarrow> u16 \<Rightarrow> u8 \<Rightarrow> u8 list \<Rightarrow> bool" where
  "carries pkt cmd ver data \<longleftrightarrow> driver_result pkt = 0 \<and> request_size pkt \<le> request_max pkt \<and>
     (\<exists>res pad. received_bytes pkt = request_bytes cmd ver res data @ pad)"

text \<open>The response buffer is at least as large as the driver says.\<close>

definition room_ok :: "hc_state \<Rightarrow> bool" where
  "room_ok s \<longleftrightarrow> 8 \<le> pkt_room s \<and> unat (pkt_room s) \<le> length (response s)"

definition response_for :: "hc_state \<Rightarrow> u16 \<times> u8 list" where
  "response_for s =
     (if a_result (args0 s) \<noteq> 0 then (a_result (args0 s), [])
      else if unat (pkt_room s) < 8 + unat (response_size (args0 s)) then (res_code EC_RES_RESPONSE_TOO_BIG, [])
      else (0, take (unat (response_size (args0 s))) (drop 8 (response s))))"

lemma response_bytes_sum: "sum_list (response_bytes res data) = 0"
  using with_checksum_sum by (simp add: response_bytes_def le16_def)

lemma respond_exact:
  assumes "room_ok s" "response_for s = (st, out)"
  shows "\<exists>a buf. host_packet_respond s = Some (s\<lparr>args0 := a, response := buf, hc_effects := Sent (response_bytes st out) st # hc_effects s\<rparr>) \<and>
    length buf = length (response s)"
proof -
  have room: "8 \<le> unat (pkt_room s)" "unat (pkt_room s) \<le> length (response s)"
    using assms(1) by (simp_all add: room_ok_def word_le_nat_alt)
  have cmp: "ucast (pkt_room s) - (8 :: u32) < ucast (response_size (args0 s)) \<longleftrightarrow>
      unat (pkt_room s) < 8 + unat (response_size (args0 s))"
  proof -
    have "unat (ucast (pkt_room s) - (8 :: u32)) = unat (pkt_room s) - 8"
      using room(1) by (simp add: unat_sub word_le_nat_alt unat_u16_u32)
    then show ?thesis using room(1) by (auto simp: word_less_nat_alt unat_u16_u32)
  qed
  define n where "n = length out"
  define a1 where "a1 = (if a_result (args0 s) \<noteq> 0 then (args0 s)\<lparr>response_size := 0\<rparr>
                else if ucast (pkt_room s) - (8 :: u32) < ucast (response_size (args0 s))
                then (args0 s)\<lparr>a_result := res_code EC_RES_RESPONSE_TOO_BIG, response_size := 0\<rparr> else args0 s)"
  have a1: "a_result a1 = st" "unat (response_size a1) = n" "8 + n \<le> unat (pkt_room s)" "out = take n (drop 8 (response s))"
    using assms(2) room by (auto simp: a1_def response_for_def cmp n_def split: if_splits)
  have size: "unat (8 + response_size a1) = 8 + n"
    using a1(2,3) unat_lt2p [of "pkt_room s"] by (simp add: unat_word_ariths)
  have n: "ucast (response_size a1) = (of_nat n :: u32)" by (metis a1(2) of_nat_unat)
  define h :: "u8 list" where "h = [3, 0] @ le16 (ucast st) @ le16 (of_nat n) @ [0, 0]"
  have hd: "[EC_HOST_RESPONSE_VERSION, 0] @ le16 (ucast st) @ le16 (ucast (response_size a1)) @ [0, 0] = h"
    by (simp add: h_def a1(1) n EC_HOST_RESPONSE_VERSION_def)
  have h: "length h = 8" "h ! 1 = 0" by (simp_all add: h_def le16_def)
  have w: "mem_write (response s) 0 h = Some (h @ drop 8 (response s))"
    using room by (simp add: mem_write_def h)
  have d: "mem_read (h @ drop 8 (response s)) 8 n = Some out"
    using room a1(3,4) by (simp add: mem_read_def h)
  let ?buf = "(h @ drop 8 (response s))[1 := - sum_list (h @ out)]"
  have c: "(word_of_int (- csum (h @ out)) :: u8) = - sum_list (h @ out)"
    by (simp only: csum_byte flip: wi_hom_neg)
  have st: "store (h @ drop 8 (response s)) 1 (- sum_list (h @ out)) = Some ?buf"
    by (simp add: store_def h)
  have rb: "response_bytes st out = (h @ out)[1 := - sum_list (h @ out)]"
    using h by (simp add: response_bytes_def with_checksum_def h_def n_def list_update_append le16_def)
  have "take (8 + n) (h @ drop 8 (response s)) = h @ out" using h a1(4) by simp
  then have "take (8 + n) ?buf = (h @ out)[1 := - sum_list (h @ out)]" by (simp only: take_update_swap)
  then have o: "mem_read ?buf 0 (8 + n) = Some (response_bytes st out)"
    using room a1(3) h by (simp add: mem_read_def rb)
  have "host_packet_respond s = Some (s\<lparr>args0 := a1, response := ?buf, hc_effects := Sent (response_bytes st out) st # hc_effects s\<rparr>)"
    unfolding host_packet_respond_def Let_def a1_def [symmetric] a1(1,2) hd w bind.bind_lunit d c st size o ..
  moreover have "length ?buf = length (response s)" using room h by simp
  ultimately show ?thesis by blast
qed

definition refused :: "hc_env \<Rightarrow> host_packet \<Rightarrow> hc_state \<Rightarrow> bool" where
  "refused env pkt s \<longleftrightarrow> (\<exists>e s'. e \<noteq> 0 \<and> host_packet_receive env True pkt s = Some s' \<and>
     hc_effects s' = Sent (response_bytes e []) e # hc_effects s \<and> cmd_event s' = cmd_event s)"

definition accepted_state :: "host_packet \<Rightarrow> u16 \<Rightarrow> u8 \<Rightarrow> u8 list \<Rightarrow> u8 list \<Rightarrow> hc_state \<Rightarrow> hc_state" where
  "accepted_state pkt cmd ver data ps s =
     s\<lparr>pkt_room := response_room pkt,
       args0 := \<lparr>a_command = cmd, a_version = ver, params = ps, params_size = of_nat (length data),
                response_max = response_room pkt - 8, response_size = 0, a_result = 0\<rparr>, pending_args := True, cmd_event := True\<rparr>"

lemma receive_refused:
  assumes "packet_fits pkt" "unat (response_room pkt) \<le> length (response s)" "\<nexists>cmd ver data. carries pkt cmd ver data"
  shows "refused env pkt s"
proof -
  obtain e where e: "a_result e \<noteq> 0" "packet_args (args0 s) pkt = Some (Inl e)"
    using packet_args_total [OF assms(1), of "args0 s"] packet_args_Inr [OF assms(1), of "args0 s"] assms(3)
    by (auto simp: carries_def)
  let ?s = "s\<lparr>pkt_room := response_room pkt, args0 := e\<rparr>"
  have "room_ok ?s" using assms(1,2) by (simp add: room_ok_def packet_fits_def upd_args_def)
  moreover have "response_for ?s = (a_result e, [])" using e(1) by (simp add: response_for_def)
  ultimately obtain a buf where
    "host_packet_respond ?s = Some (?s\<lparr>args0 := a, response := buf, hc_effects := Sent (response_bytes (a_result e) []) (a_result e) # hc_effects ?s\<rparr>)"
    using respond_exact by blast
  then show ?thesis
    using e by (auto simp: refused_def host_packet_receive_def)
qed

lemma receive_accepted:
  assumes "packet_fits pkt" "carries pkt cmd ver data" "cmd \<noteq> EC_CMD_REBOOT" "cmd \<noteq> EC_CMD_GET_COMMS_STATUS"
  shows "\<exists>ps. host_packet_receive env irq pkt s = Some (accepted_state pkt cmd ver data ps s) \<and> take (length data) ps = data"
proof -
  obtain ps where "packet_args (args0 s) pkt = Some (Inr \<lparr>a_command = cmd, a_version = ver, params = ps, params_size = of_nat (length data),
      response_max = response_room pkt - 8, response_size = 0, a_result = 0\<rparr>)" "take (length data) ps = data"
    using packet_args_request [OF assms(1)] assms(2) unfolding carries_def by metis
  then show ?thesis
    using assms(3,4) by (intro exI [of _ ps]) (simp add: host_packet_receive_def host_command_received_def accepted_state_def Let_def)
qed

text \<open>
  C7: a packet of the interface driver, in buffers of the sizes that it says, is accepted exactly when it
  carries an encoded request, perhaps padded: then the command, its version and its data wait for the task
  as the host encoded them, and nothing is sent. Any other packet is answered at once with an error
  response, and no command waits because of it.
\<close>

theorem hc_receive_exact:
  assumes "packet_fits pkt" "unat (response_room pkt) \<le> length (response s)"
  shows "(\<forall>cmd ver data. carries pkt cmd ver data \<and> cmd \<noteq> EC_CMD_REBOOT \<and> cmd \<noteq> EC_CMD_GET_COMMS_STATUS \<longrightarrow>
      (\<exists>ps. host_packet_receive env True pkt s = Some (accepted_state pkt cmd ver data ps s) \<and> take (length data) ps = data)) \<and>
    ((\<nexists>cmd ver data. carries pkt cmd ver data) \<longrightarrow> refused env pkt s)"
  using receive_accepted [OF assms(1)] receive_refused [OF assms] by blast

lemma request_prefix_unique:
  assumes "length bs = 8 + length data" "take 2 (drop 6 bs) = le16 (of_nat (length data))" "length data < 2 ^ 16"
    and "bs @ pad = request_bytes cmd ver res d @ pad'" "length d < 2 ^ 16"
  shows "bs = request_bytes cmd ver res d"
proof -
  let ?r = "request_bytes cmd ver res d"
  have "take 2 (drop 6 (bs @ pad)) = take 2 (drop 6 bs)" using assms(1) by simp
  moreover have "take 2 (drop 6 (?r @ pad')) = le16 (of_nat (length d))" by (simp add: request_bytes_nth)
  ultimately have "le16 (of_nat (length data)) = le16 (of_nat (length d))" using assms(2,4) by metis
  then have "take_bit 16 (of_nat (length data) :: u32) = take_bit 16 (of_nat (length d))"
    using get16_le16 [of _ "[]"] by (metis append_Nil2)
  then have "unat (take_bit 16 (of_nat (length data) :: u32)) = unat (take_bit 16 (of_nat (length d) :: u32))" by simp
  then have "length data = length d"
    using assms(3,5) by (simp add: take_bit_of_nat take_bit_nat_eq_self unat_of_nat_small)
  then show ?thesis using assms(1,4) by simp
qed

text \<open>
  C8: a request in which one byte was changed on its way, any byte but the two of the length, is refused
  with an error response, whatever padding follows it; the command is not run.
\<close>

theorem hc_detects_corruption:
  assumes "packet_fits pkt" "unat (response_room pkt) \<le> length (response s)"
    and "received_bytes pkt = (request_bytes cmd ver res data)[i := x] @ pad"
    and "i < 8 + length data" "i \<noteq> 6" "i \<noteq> 7" "x \<noteq> request_bytes cmd ver res data ! i"
  shows "refused env pkt s"
proof (rule receive_refused [OF assms(1,2)], rule notI)
  let ?r = "request_bytes cmd ver res data"
  assume "\<exists>c v d. carries pkt c v d"
  then obtain c v r d pad' where e: "?r[i := x] @ pad = request_bytes c v r d @ pad'"
    using assms(3) by (auto simp: carries_def)
  have small: "length data < 2 ^ 16" "length d < 2 ^ 16"
  proof -
    have "length (received_bytes pkt) < 2 ^ 16" using unat_lt2p [of "request_size pkt"] by (simp add: received_bytes_def min_def)
    then show "length data < 2 ^ 16" "length d < 2 ^ 16"
      using arg_cong [OF e, of length] by (simp_all add: assms(3))
  qed
  have "take 2 (drop 6 (?r[i := x])) = take 2 (drop 6 ?r)"
  proof (cases "i < 6")
    case False
    then show ?thesis using assms(5,6) by (simp add: drop_update_swap take_update_cancel)
  qed simp
  then have "?r[i := x] = request_bytes c v r d"
    using request_prefix_unique [OF _ _ small(1) e small(2)] by (simp add: request_bytes_nth)
  then have "sum_list (?r[i := x]) = 0" using with_checksum_sum by (simp add: request_bytes_def le16_def)
  moreover have "sum_list ?r = 0" using with_checksum_sum by (simp add: request_bytes_def le16_def)
  ultimately show False using assms(4,7) by (simp add: sum_list_upd)
qed

declare find_sorted.simps [simp del]

definition sorted_cmds :: "host_command list \<Rightarrow> bool" where "sorted_cmds cmds \<longleftrightarrow> sorted_wrt (<) (map cmd_code cmds)"

lemma sorted_cmds_less: "sorted_cmds cmds \<Longrightarrow> i < j \<Longrightarrow> j < length cmds \<Longrightarrow> cmd_code (cmds ! i) < cmd_code (cmds ! j)"
  using sorted_wrt_nth_less [of "(<)" "map cmd_code cmds" i j] by (simp add: sorted_cmds_def)

lemma find_first_iff: "find_first cmds c = None \<longleftrightarrow> c \<notin> cmd_code ` set cmds"
  by (induction cmds) auto

lemma find_first_nth:
  "sorted_cmds cmds \<Longrightarrow> i < length cmds \<Longrightarrow> cmd_code (cmds ! i) = c \<Longrightarrow> find_first cmds c = Some (cmds ! i)"
proof (induction cmds arbitrary: i)
  case (Cons a cmds)
  then show ?case
    by (cases i) (fastforce simp: sorted_cmds_def dest: nth_mem)+
qed simp

lemma find_sorted_first:
  "sorted_cmds cmds \<Longrightarrow> 0 \<le> l \<Longrightarrow> r < int (length cmds) \<Longrightarrow>
   (\<And>i. i < length cmds \<Longrightarrow> cmd_code (cmds ! i) = c \<Longrightarrow> l \<le> int i \<and> int i \<le> r) \<Longrightarrow>
   find_sorted cmds c l r = find_first cmds c"
proof (induction cmds c l r rule: find_sorted.induct)
  case (1 cmds c l r)
  show ?case
  proof (cases "r < l")
    case True
    then have "c \<notin> cmd_code ` set cmds" using 1(6) by (force simp: in_set_conv_nth)
    then show ?thesis using True by (simp add: find_sorted.simps find_first_iff [symmetric])
  next
    case False
    define m where "m = l + (r - l) div 2"
    have m: "l \<le> m" "m \<le> r" using False by (simp_all add: m_def)
    then have i: "nat m < length cmds" "int (nat m) = m" using 1(4,5) by simp_all
    have le: "int j \<le> m" if "j < length cmds" "cmd_code (cmds ! j) \<le> cmd_code (cmds ! nat m)" for j
      using sorted_cmds_less [OF 1(3), of "nat m" j] that i by (cases "nat m < j") (simp, linarith)
    have ge: "m \<le> int j" if "j < length cmds" "cmd_code (cmds ! nat m) \<le> cmd_code (cmds ! j)" for j
      using sorted_cmds_less [OF 1(3), of j "nat m"] that i by (cases "j < nat m") (simp, linarith)
    consider "cmd_code (cmds ! nat m) < c" | "c < cmd_code (cmds ! nat m)" | "cmd_code (cmds ! nat m) = c" by linarith
    then show ?thesis
    proof cases
      case 1
      have "find_sorted cmds c (m + 1) r = find_first cmds c"
      proof (rule "1.IH"(1) [OF False m_def refl 1])
        fix j assume j: "j < length cmds" "cmd_code (cmds ! j) = c"
        then show "m + 1 \<le> int j \<and> int j \<le> r" using ge [OF j(1)] 1 "1.prems"(4) [OF j] by (cases "int j = m") auto
      qed (use "1.prems" m in auto)
      then show ?thesis using False 1 by (simp add: find_sorted.simps [of cmds c l r] m_def Let_def)
    next
      case 2
      have "find_sorted cmds c l (m - 1) = find_first cmds c"
      proof (rule "1.IH"(2) [OF False m_def refl _ 2])
        fix j assume j: "j < length cmds" "cmd_code (cmds ! j) = c"
        then show "l \<le> int j \<and> int j \<le> m - 1" using le [OF j(1)] 2 "1.prems"(4) [OF j] by (cases "int j = m") auto
      qed (use "1.prems" m 2 in auto)
      then show ?thesis using False 2 by (simp add: find_sorted.simps [of cmds c l r] m_def Let_def)
    next
      case 3
      then show ?thesis
        using find_first_nth [OF "1.prems"(1) i(1) 3] False by (simp add: find_sorted.simps [of cmds c l r] m_def Let_def)
    qed
  qed
qed

text \<open>
  C10: the binary search finds in a sorted command table what the search from the start finds, for every
  command code, and so agrees with the other configuration of the firmware.
\<close>

theorem hc_search_agrees:
  assumes "sorted_cmds (hcmds env)"
  shows "find_host_command env c = (if safe_mode_allows env c then find_first (hcmds env) c else None)"
  using find_sorted_first [OF assms, of 0 "int (length (hcmds env)) - 1" c]
  by (simp add: find_host_command_def)

definition hello_cmd :: host_command where
  "hello_cmd = \<lparr>handler = host_command_hello, cmd_code = 1, version_mask = 1\<rparr>"

definition demo_cmds :: "host_command list" where
  "demo_cmds = [\<lparr>handler = host_command_proto_version, cmd_code = 0, version_mask = 1\<rparr>, hello_cmd,
     \<lparr>handler = host_command_read_memmap, cmd_code = 7, version_mask = 1\<rparr>,
     \<lparr>handler = host_command_get_cmd_versions, cmd_code = 8, version_mask = 3\<rparr>,
     \<lparr>handler = host_command_test_protocol, cmd_code = 10, version_mask = 1\<rparr>]"

definition demo_hc_env :: hc_env where "demo_hc_env = \<lparr>hcmds = demo_cmds, safe_mode_allows = \<lambda>_. True\<rparr>"

lemma demo_cmds_sorted: "sorted_cmds (hcmds demo_hc_env)"
  by (simp add: sorted_cmds_def demo_hc_env_def demo_cmds_def hello_cmd_def)

theorem hc_search_agrees_witness: "find_host_command demo_hc_env 7 = find_first demo_cmds 7"
  using hc_search_agrees [OF demo_cmds_sorted, of 7] by (simp add: demo_hc_env_def)










text \<open>A host that says hello, and gets its number back, plus 0x01020304.\<close>

definition demo_hc :: hc_state where
  "demo_hc = \<lparr>args0 = \<lparr>a_command = 0, a_version = 0, params = [], params_size = 0, response_max = 0, response_size = 0, a_result = 0\<rparr>,
     pkt_room = 0, response = replicate 64 0, pending_args = False, cmd_event = False, command_pending = False,
     saved_result = 9, memmap = replicate 255 0, hc_effects = []\<rparr>"

definition hello_packet :: host_packet where
  "hello_packet = \<lparr>request = request_bytes 1 0 0 [1, 2, 3, 4] @ replicate 52 0, request_temp = None, request_max = 64,
     request_size = 12, response_room = 64, driver_result = 0\<rparr>"

lemma hello_carried: "packet_fits hello_packet" "carries hello_packet 1 0 [1, 2, 3, 4]"
proof -
  show "packet_fits hello_packet" by (simp add: packet_fits_def hello_packet_def)
  show "carries hello_packet 1 0 [1, 2, 3, 4]"
    by (simp add: carries_def received_bytes_def hello_packet_def) (intro exI [of _ 0] exI [of _ "[]"], simp)
qed

theorem hc_receive_exact_witness:
  "\<exists>ps. host_packet_receive demo_hc_env True hello_packet demo_hc = Some (accepted_state hello_packet 1 0 [1, 2, 3, 4] ps demo_hc)"
proof -
  have "unat (response_room hello_packet) \<le> length (response demo_hc)" by (simp add: hello_packet_def demo_hc_def)
  moreover have "(1 :: u16) \<noteq> EC_CMD_REBOOT" "(1 :: u16) \<noteq> EC_CMD_GET_COMMS_STATUS"
    by (simp_all add: EC_CMD_REBOOT_def EC_CMD_GET_COMMS_STATUS_def)
  ultimately show ?thesis using hc_receive_exact [OF hello_carried(1)] hello_carried(2) by blast
qed

theorem hc_detects_corruption_witness:
  "refused demo_hc_env (hello_packet\<lparr>request := (request (hello_packet))[9 := 7]\<rparr>) demo_hc"
proof -
  let ?p = "hello_packet\<lparr>request := (request (hello_packet))[9 := 7]\<rparr>"
  have "packet_fits ?p" "unat (response_room ?p) \<le> length (response demo_hc)"
    by (simp_all add: packet_fits_def hello_packet_def demo_hc_def)
  moreover have "received_bytes ?p = (request_bytes 1 0 0 [1, 2, 3, 4])[9 := 7] @ []"
    by (simp add: received_bytes_def hello_packet_def list_update_append)
  moreover have "7 \<noteq> request_bytes 1 0 0 [1, 2, 3, 4] ! 9"
    by (simp add: request_bytes_def with_checksum_def le16_def)
  ultimately show ?thesis using hc_detects_corruption [where i = 9 and x = 7 and pad = "[]"] by simp
qed



subsection \<open>Runs that show defects\<close>

text \<open>
  A slow command that failed with error 2 after it was reported as in progress. The host asks for the
  result with \<open>EC_CMD_RESEND_RESPONSE\<close>: the handler stores it in \<open>args->result\<close> and returns
  success, and \<open>host_command_task\<close> overwrites the result with what the handler returned.
\<close>

definition resend_env :: hc_env where
  "resend_env = \<lparr>hcmds = [\<lparr>handler = host_command_resend_response, cmd_code = 0xDB, version_mask = 1\<rparr>], safe_mode_allows = \<lambda>_. True\<rparr>"

lemma resend_result_lost:
  "map_option hc_effects (Option.bind
     (host_packet_receive resend_env True (hello_packet\<lparr>request := request_bytes 0xDB 0 0 [] @ replicate 56 0, request_size := 8\<rparr>)
        (demo_hc\<lparr>saved_result := 2\<rparr>)) (host_command_task resend_env)) = Some [Sent (response_bytes 0 []) 0]"
  by code_simp

text \<open>A command version of 32 or more, which the host is free to send, shifts a 32-bit word too far.\<close>

lemma version_shift_undefined:
  "Option.bind (host_packet_receive demo_hc_env True (hello_packet\<lparr>request := request_bytes 1 32 0 [1, 2, 3, 4] @ replicate 52 0\<rparr>) demo_hc)
     (host_command_task demo_hc_env) = None"
  by code_simp

text \<open>\<open>EC_CMD_TEST_PROTOCOL\<close> clears 32 bytes whatever room the response has.\<close>

lemma test_protocol_overflow:
  "host_command_test_protocol (\<lambda>_. None) (demo_hc\<lparr>response := replicate 20 0, args0 := (args0 demo_hc)\<lparr>params := replicate 40 0\<rparr>\<rparr>) = None"
  by code_simp

end
