(* ===== verification/ChargeManager.thy ===== *)
theory ChargeManager
  imports Prelude
begin

section \<open>The charge manager of common/charge_manager.c\<close>

text \<open>
  Which port and supplier charge the system, and at which current. Ports and suppliers are C
  \<open>int\<close>s, with -1 for none, and the arrays are functions of them; an access outside an
  array, where the code makes one, is \<open>None\<close>. Currents and voltages are integers, whose
  products stay far below \<open>INT_MAX\<close>. The configuration has BC1.2 and a dedicated charge
  port, batteries, dynamic PDO selection, TCPMv2 and safe mode, and no dual-role charging, charge
  ramp or PD logging. The record \<open>cm_env\<close> holds what the file reads of the board, the PD
  stack, the battery and the clock. Calls that leave the file are recorded in \<open>effects\<close>,
  the newest first.
\<close>

subsection \<open>State\<close>

record charge_port_info =
  cur_ma :: int
  vol_mv :: int

datatype dualrole_capabilities = CAP_UNKNOWN | CAP_DUALROLE | CAP_DEDICATED

datatype ceil_requestor = CEIL_REQUESTOR_PD | CEIL_REQUESTOR_HOST

datatype battery_present = BP_NOT_INIT | BP_NO | BP_YES | BP_NOT_SURE

datatype cm_effect =
    Call_Refresh
  | Call_Override_Timeout int
  | Call_Debounced int
  | Board_Set_Active_Port int
  | Board_Set_Charge_Limit int int int int int
  | Board_Check_Extpower
  | Pd_Request_Power_Swap int
  | Pd_New_Power_Request int
  | Pd_External_Voltage_Limit int int
  | Notify_Power_Supply_Change
  | Send_Power_Change

record charge_mgr =
  available_charge :: "int \<Rightarrow> int \<Rightarrow> charge_port_info"
  registration_time :: "int \<Rightarrow> u64"
  charge_ceil :: "int \<Rightarrow> ceil_requestor \<Rightarrow> int"
  dualrole_capability :: "int \<Rightarrow> dualrole_capabilities"
  charge_port :: int
  charge_current :: int
  charge_current_uncapped :: int
  charge_voltage :: int
  charge_supplier :: int
  charge_pd_current_uncapped :: int
  override_port :: int
  delayed_override_port :: int
  delayed_override_deadline :: u64
  left_safe_mode :: bool
  is_seeded :: bool
  active_charge_port_initialized :: bool
  effects :: "cm_effect list"

record cm_env =
  pd_port_max_count :: int
  dedicated_port_count :: int
  usb_pd_port_count :: int
  pd_role_sink :: "int \<Rightarrow> bool"
  pd_connected :: "int \<Rightarrow> bool"
  ro_and_locked :: bool
  dps_on :: bool
  dps_port :: int
  battery_is_present :: battery_present
  battery_cutoff_normal :: bool
  port_accepted :: "int \<Rightarrow> bool"
  requested_voltage :: "int \<Rightarrow> int"
  requested_current :: "int \<Rightarrow> int"
  max_pdo_current :: "int \<Rightarrow> int"
  max_pdo_voltage :: "int \<Rightarrow> int"
  vbus_voltage :: "int \<Rightarrow> int"
  dpm_source_current :: "int \<Rightarrow> int"
  dedicated_charge_port :: int
  get_time :: u64

definition CHARGE_PORT_NONE :: int where "CHARGE_PORT_NONE = -1"
definition CHARGE_CEIL_NONE :: int where "CHARGE_CEIL_NONE = -1"
definition CHARGE_CURRENT_UNINITIALIZED :: int where "CHARGE_CURRENT_UNINITIALIZED = -1"
definition CHARGE_VOLTAGE_UNINITIALIZED :: int where "CHARGE_VOLTAGE_UNINITIALIZED = -1"
definition OVERRIDE_OFF :: int where "OVERRIDE_OFF = -1"
definition OVERRIDE_DONT_CHARGE :: int where "OVERRIDE_DONT_CHARGE = -2"
definition CHARGE_DETECT_DELAY :: int where "CHARGE_DETECT_DELAY = 2000000"
definition POWER_SWAP_TIMEOUT :: int where "POWER_SWAP_TIMEOUT = 1000000 + 275000 + 650000 + 500 * 1000"

definition CHARGE_SUPPLIER_NONE :: int where "CHARGE_SUPPLIER_NONE = -1"
definition CHARGE_SUPPLIER_PD :: int where "CHARGE_SUPPLIER_PD = 0"
definition CHARGE_SUPPLIER_TYPEC :: int where "CHARGE_SUPPLIER_TYPEC = 1"
definition CHARGE_SUPPLIER_TYPEC_DTS :: int where "CHARGE_SUPPLIER_TYPEC_DTS = 2"
definition CHARGE_SUPPLIER_BC12_DCP :: int where "CHARGE_SUPPLIER_BC12_DCP = 3"
definition CHARGE_SUPPLIER_BC12_CDP :: int where "CHARGE_SUPPLIER_BC12_CDP = 4"
definition CHARGE_SUPPLIER_BC12_SDP :: int where "CHARGE_SUPPLIER_BC12_SDP = 5"
definition CHARGE_SUPPLIER_PROPRIETARY :: int where "CHARGE_SUPPLIER_PROPRIETARY = 6"
definition CHARGE_SUPPLIER_TYPEC_UNDER_1_5A :: int where "CHARGE_SUPPLIER_TYPEC_UNDER_1_5A = 7"
definition CHARGE_SUPPLIER_VBUS :: int where "CHARGE_SUPPLIER_VBUS = 9"
definition CHARGE_SUPPLIER_DEDICATED :: int where "CHARGE_SUPPLIER_DEDICATED = 10"
definition CHARGE_SUPPLIER_COUNT :: int where "CHARGE_SUPPLIER_COUNT = 11"

definition suppliers :: "int list" where "suppliers = [0..CHARGE_SUPPLIER_COUNT - 1]"

definition supplier_priority :: "int \<Rightarrow> int" where
  "supplier_priority s =
     (if s = CHARGE_SUPPLIER_DEDICATED then 0 else if s = CHARGE_SUPPLIER_PD then 1
      else if s \<in> {CHARGE_SUPPLIER_TYPEC, CHARGE_SUPPLIER_TYPEC_DTS} then 2
      else if s \<in> {CHARGE_SUPPLIER_PROPRIETARY, CHARGE_SUPPLIER_BC12_DCP, CHARGE_SUPPLIER_BC12_CDP,
                   CHARGE_SUPPLIER_BC12_SDP} then 3
      else 4)"

definition CHARGE_PORT_COUNT :: "cm_env \<Rightarrow> int" where
  "CHARGE_PORT_COUNT env = pd_port_max_count env + dedicated_port_count env"

definition charge_ports :: "cm_env \<Rightarrow> int list" where
  "charge_ports env = [0..CHARGE_PORT_COUNT env - 1]"

definition POWER :: "charge_port_info \<Rightarrow> int" where "POWER c = cur_ma c * vol_mv c"

definition cm_emit :: "cm_effect \<Rightarrow> charge_mgr \<Rightarrow> charge_mgr" where
  "cm_emit e m = m\<lparr>effects := e # effects m\<rparr>"

definition set_available :: "int \<Rightarrow> int \<Rightarrow> charge_port_info \<Rightarrow> charge_mgr \<Rightarrow> charge_mgr" where
  "set_available s p c m = m\<lparr>available_charge := (available_charge m)(s := (available_charge m s)(p := c))\<rparr>"

subsection \<open>Ports\<close>

definition is_pd_port :: "cm_env \<Rightarrow> int \<Rightarrow> bool" where
  "is_pd_port env port = (0 \<le> port \<and> port < usb_pd_port_count env)"

definition board_charge_port_is_sink :: "int \<Rightarrow> bool" where "board_charge_port_is_sink port = True"
definition board_charge_port_is_connected :: "int \<Rightarrow> bool" where "board_charge_port_is_connected port = True"

definition is_sink :: "cm_env \<Rightarrow> int \<Rightarrow> bool" where
  "is_sink env port =
     (if \<not> is_pd_port env port then board_charge_port_is_sink port else pd_role_sink env port)"

definition is_valid_port :: "cm_env \<Rightarrow> int \<Rightarrow> bool" where
  "is_valid_port env port =
     (if port < 0 \<or> CHARGE_PORT_COUNT env \<le> port then False
      else if usb_pd_port_count env \<le> port \<and> port < pd_port_max_count env then False
      else True)"

definition is_valid_override_port :: "cm_env \<Rightarrow> int \<Rightarrow> bool" where
  "is_valid_override_port env port = (OVERRIDE_DONT_CHARGE \<le> port \<and> port < CHARGE_PORT_COUNT env)"

definition is_connected :: "cm_env \<Rightarrow> int \<Rightarrow> bool" where
  "is_connected env port =
     (if \<not> is_pd_port env port then board_charge_port_is_connected port else pd_connected env port)"

definition charge_manager_spoof_dualrole_capability :: "cm_env \<Rightarrow> charge_mgr \<Rightarrow> bool" where
  "charge_manager_spoof_dualrole_capability env m = (ro_and_locked env \<or> \<not> left_safe_mode m)"

definition charge_manager_init :: "cm_env \<Rightarrow> charge_mgr \<Rightarrow> charge_mgr" where
  "charge_manager_init env m =
     fold (\<lambda>i m.
       if \<not> is_valid_port env i then m
       else let m1 = fold (\<lambda>j m. set_available j i
                  \<lparr>cur_ma = CHARGE_CURRENT_UNINITIALIZED, vol_mv = CHARGE_VOLTAGE_UNINITIALIZED\<rparr> m) suppliers m;
                m2 = m1\<lparr>charge_ceil := (charge_ceil m1)(i := \<lambda>_. CHARGE_CEIL_NONE)\<rparr>
            in if \<not> is_pd_port env i
               then m2\<lparr>dualrole_capability := (dualrole_capability m2)(i := CAP_DEDICATED)\<rparr> else m2)
     (charge_ports env) m"

definition charge_manager_is_seeded :: "cm_env \<Rightarrow> charge_mgr \<Rightarrow> charge_mgr \<times> bool" where
  "charge_manager_is_seeded env m =
     (if is_seeded m then (m, True)
      else if list_ex (\<lambda>i. list_ex (\<lambda>j. is_valid_port env j \<and>
                  (cur_ma (available_charge m i j) = CHARGE_CURRENT_UNINITIALIZED \<or>
                   vol_mv (available_charge m i j) = CHARGE_VOLTAGE_UNINITIALIZED))
                (charge_ports env)) suppliers
      then (m, False)
      else (m\<lparr>is_seeded := True\<rparr>, True))"

definition refresh_if_seeded :: "cm_env \<Rightarrow> charge_mgr \<Rightarrow> charge_mgr" where
  "refresh_if_seeded env m =
     (let (m1, seeded) = charge_manager_is_seeded env m in if seeded then cm_emit Call_Refresh m1 else m1)"

subsection \<open>Choosing a supplier and a port\<close>

definition find_step :: "charge_mgr \<Rightarrow> int \<Rightarrow> int \<Rightarrow> int \<Rightarrow> int \<Rightarrow> int" where
  "find_step m port min_cur i sp =
     (if cur_ma (available_charge m i port) \<le> min_cur \<or> vol_mv (available_charge m i port) \<le> 0 then sp
      else if sp = CHARGE_SUPPLIER_NONE then i
      else if supplier_priority sp < supplier_priority i then sp
      else if supplier_priority i < supplier_priority sp then i
      else if POWER (available_charge m sp port) < POWER (available_charge m i port) then i
      else sp)"

definition find_supplier :: "charge_mgr \<Rightarrow> int \<Rightarrow> int \<Rightarrow> int \<Rightarrow> int" where
  "find_supplier m port sp min_cur = fold (find_step m port min_cur) suppliers sp"

definition get_current_supplier :: "charge_mgr \<Rightarrow> int \<Rightarrow> int" where
  "get_current_supplier m port =
     (if port = charge_port m then charge_supplier m
      else let supplier = find_supplier m port CHARGE_SUPPLIER_NONE 0
           in if supplier = CHARGE_SUPPLIER_NONE then find_supplier m port supplier (-1) else supplier)"

definition charge_manager_switch_to_source :: "cm_env \<Rightarrow> int \<Rightarrow> charge_mgr \<Rightarrow> charge_mgr" where
  "charge_manager_switch_to_source env port m =
     (if \<not> is_pd_port env port then m
      else if dualrole_capability m port = CAP_DUALROLE \<and> is_sink env port
      then cm_emit (Pd_Request_Power_Swap port) m else m)"

definition ceil_step :: "int \<Rightarrow> int \<Rightarrow> int" where
  "ceil_step val ceil =
     (if val \<noteq> CHARGE_CEIL_NONE \<and> (ceil = CHARGE_CEIL_NONE \<or> val < ceil) then val else ceil)"

definition charge_manager_get_ceil :: "cm_env \<Rightarrow> charge_mgr \<Rightarrow> int \<Rightarrow> int" where
  "charge_manager_get_ceil env m port =
     (if \<not> is_valid_port env port then CHARGE_CEIL_NONE
      else fold ceil_step (map (charge_ceil m port) [CEIL_REQUESTOR_PD, CEIL_REQUESTOR_HOST]) CHARGE_CEIL_NONE)"

text \<open>
  The search for the best port: the guards that skip a port, the conditions that prefer it to
  the best so far (a supplier, a port and its power), and the loop over the ports with its break.
\<close>

type_synonym best = "int \<times> int \<times> int"

definition best_skip :: "cm_env \<Rightarrow> charge_mgr \<Rightarrow> int \<Rightarrow> int \<Rightarrow> int \<Rightarrow> bool" where
  "best_skip env m i j port \<longleftrightarrow>
     \<not> is_valid_port env j \<or>
     cur_ma (available_charge m i j) = 0 \<or> vol_mv (available_charge m i j) = 0 \<or>
     override_port m \<noteq> OVERRIDE_OFF \<and> override_port m = port \<and> override_port m \<noteq> j \<or>
     dualrole_capability m j \<noteq> CAP_DEDICATED \<and> override_port m \<noteq> j \<and>
       \<not> charge_manager_spoof_dualrole_capability env m"

definition best_better :: "charge_mgr \<Rightarrow> int \<Rightarrow> int \<Rightarrow> best \<Rightarrow> bool" where
  "best_better m i j = (\<lambda>(supplier, port, best_port_power).
     let candidate_port_power = POWER (available_charge m i j)
     in supplier = CHARGE_SUPPLIER_NONE \<or>
        supplier_priority i < supplier_priority supplier \<or>
        (j = override_port m \<and> port \<noteq> override_port m) \<or>
        (supplier_priority i = supplier_priority supplier \<and>
          (best_port_power < candidate_port_power \<or>
           candidate_port_power = best_port_power \<and> charge_port m = j)))"

fun best_ports :: "cm_env \<Rightarrow> charge_mgr \<Rightarrow> int \<Rightarrow> int list \<Rightarrow> best \<Rightarrow> best" where
  "best_ports env m i [] b = b"
| "best_ports env m i (j # js) b =
     (case b of (supplier, port, pw) \<Rightarrow>
        (if best_skip env m i j port then best_ports env m i js b
         else if override_port m = OVERRIDE_OFF \<and> i = CHARGE_SUPPLIER_PD \<and> j = dps_port env
         then (i, j, pw)
         else if best_better m i j b
         then best_ports env m i js (i, j, POWER (available_charge m i j))
         else best_ports env m i js b))"

definition charge_manager_get_best_port :: "cm_env \<Rightarrow> charge_mgr \<Rightarrow> int \<times> int" where
  "charge_manager_get_best_port env m =
     (if override_port m = OVERRIDE_DONT_CHARGE then (CHARGE_PORT_NONE, CHARGE_SUPPLIER_NONE)
      else
        let (supplier, port, _) = fold (\<lambda>i. best_ports env m i (charge_ports env)) suppliers
                                    (CHARGE_SUPPLIER_NONE, CHARGE_PORT_NONE, -1)
        in if charge_port m \<noteq> CHARGE_PORT_NONE \<and> charge_port m \<noteq> port \<and>
              (battery_is_present env = BP_NO \<or>
               battery_is_present env = BP_YES \<and> \<not> battery_cutoff_normal env)
           then (charge_port m, charge_supplier m) else (port, supplier))"

subsection \<open>Refreshing the charge port\<close>

definition clear_port :: "int \<Rightarrow> charge_mgr \<Rightarrow> charge_mgr" where
  "clear_port port m = fold (\<lambda>i m. set_available i port \<lparr>cur_ma = 0, vol_mv = 0\<rparr> m) suppliers m"

text \<open>
  The hunt for an acceptable port, with fuel. The value is \<open>None\<close> when the fuel is out or
  the board refuses \<open>CHARGE_PORT_NONE\<close> (an assertion of the code), a state alone when
  the function returns early in safe mode, and else the port and supplier chosen.
\<close>

fun hunt :: "nat \<Rightarrow> cm_env \<Rightarrow> charge_mgr \<Rightarrow> (charge_mgr \<times> (int \<times> int) option) option" where
  "hunt 0 env m = None"
| "hunt (Suc n) env m =
     (let (new_port, new_supplier) = charge_manager_get_best_port env m
      in if \<not> left_safe_mode m \<and> new_port = CHARGE_PORT_NONE then Some (m, None)
         else if active_charge_port_initialized m \<and> new_port = charge_port m \<and> new_supplier = charge_supplier m
         then Some (m, Some (new_port, new_supplier))
         else let m1 = cm_emit (Board_Set_Active_Port new_port) m
              in if port_accepted env new_port
                 then Some (cm_emit Board_Check_Extpower m1, Some (new_port, new_supplier))
                 else if new_port = CHARGE_PORT_NONE then None
                 else hunt n env (clear_port new_port m1))"

definition new_charge :: "cm_env \<Rightarrow> charge_mgr \<Rightarrow> int \<Rightarrow> int \<Rightarrow> int \<times> int \<times> int" where
  "new_charge env m new_port new_supplier =
     (if new_supplier = CHARGE_SUPPLIER_NONE then (0, 0, 0)
      else let uncapped = cur_ma (available_charge m new_supplier new_port);
               ceil = charge_manager_get_ceil env m new_port;
               current = (if left_safe_mode m \<and> ceil \<noteq> CHARGE_CEIL_NONE then min ceil uncapped else uncapped)
           in (current, uncapped, vol_mv (available_charge m new_supplier new_port)))"

definition request_new_power :: "cm_env \<Rightarrow> int \<Rightarrow> charge_mgr \<Rightarrow> charge_mgr" where
  "request_new_power env port m =
     (if \<not> is_pd_port env port then m
      else let new_req = (requested_voltage env port \<noteq> charge_voltage m \<or>
                          requested_current env port \<noteq> charge_current_uncapped m);
               new_req1 = (if dps_on env then new_req
                           else new_req \<or> charge_voltage m \<noteq> max_pdo_voltage env port \<or>
                                charge_current_uncapped m \<noteq> max_pdo_current env port)
           in if new_req1 then cm_emit (Pd_New_Power_Request port) m else m)"

text \<open>The parts of a refresh after the hunt, in order.\<close>

definition refresh_override :: "int \<Rightarrow> charge_mgr \<Rightarrow> charge_mgr" where
  "refresh_override new_port m =
     (let m1 = m\<lparr>active_charge_port_initialized := True\<rparr>
      in if 0 \<le> override_port m1 \<and> override_port m1 \<noteq> new_port
         then m1\<lparr>override_port := OVERRIDE_OFF\<rparr> else m1)"

definition refresh_limit :: "bool \<Rightarrow> int \<Rightarrow> int \<Rightarrow> int \<Rightarrow> int \<Rightarrow> int \<Rightarrow> charge_mgr \<Rightarrow> charge_mgr" where
  "refresh_limit changed new_port new_supplier current uncapped voltage m =
     (if changed
      then cm_emit Board_Check_Extpower
             (cm_emit (Board_Set_Charge_Limit new_port new_supplier current uncapped voltage) m)
      else m)"

definition updated_new_port :: "int \<Rightarrow> int \<Rightarrow> int \<Rightarrow> charge_mgr \<Rightarrow> int" where
  "updated_new_port new_port uncapped voltage m =
     (if new_port \<noteq> CHARGE_PORT_NONE \<and>
         (new_port \<noteq> charge_port m \<or> uncapped \<noteq> charge_current_uncapped m \<or> voltage \<noteq> charge_voltage m)
      then new_port else CHARGE_PORT_NONE)"

definition refresh_old_port :: "cm_env \<Rightarrow> int \<Rightarrow> charge_mgr \<Rightarrow> charge_mgr \<times> int" where
  "refresh_old_port env new_port m =
     (if charge_port m \<noteq> new_port \<and> charge_port m \<noteq> CHARGE_PORT_NONE
      then (charge_manager_switch_to_source env (charge_port m) m, charge_port m)
      else (m, CHARGE_PORT_NONE))"

definition refresh_notify :: "cm_env \<Rightarrow> bool \<Rightarrow> int \<Rightarrow> int \<Rightarrow> charge_mgr \<Rightarrow> charge_mgr" where
  "refresh_notify env changed new_updated old_updated m =
     (let m1 = request_new_power env new_updated m;
          m2 = (if is_pd_port env old_updated then cm_emit (Pd_New_Power_Request old_updated) m1 else m1)
      in if changed then cm_emit Send_Power_Change (cm_emit Notify_Power_Supply_Change m2) else m2)"

definition refresh_apply :: "cm_env \<Rightarrow> int \<Rightarrow> int \<Rightarrow> charge_mgr \<Rightarrow> charge_mgr" where
  "refresh_apply env new_port new_supplier m0 =
     (let m2 = refresh_override new_port m0;
          (current, uncapped, voltage) = new_charge env m2 new_port new_supplier;
          m3 = m2\<lparr>charge_pd_current_uncapped :=
                  (if new_supplier = CHARGE_SUPPLIER_PD then uncapped else CHARGE_CURRENT_UNINITIALIZED)\<rparr>;
          changed = (new_port \<noteq> charge_port m3 \<or> current \<noteq> charge_current m3 \<or>
                     new_supplier \<noteq> charge_supplier m3);
          m4 = refresh_limit changed new_port new_supplier current uncapped voltage m3;
          new_updated = updated_new_port new_port uncapped voltage m4;
          (m5, old_updated) = refresh_old_port env new_port m4
      in refresh_notify env changed new_updated old_updated
           (m5\<lparr>charge_current := current, charge_current_uncapped := uncapped,
               charge_voltage := voltage, charge_supplier := new_supplier, charge_port := new_port\<rparr>))"

definition charge_manager_refresh :: "nat \<Rightarrow> cm_env \<Rightarrow> charge_mgr \<Rightarrow> charge_mgr option" where
  "charge_manager_refresh n env m =
     (case hunt n env m of
        None \<Rightarrow> None
      | Some (m1, None) \<Rightarrow> Some m1
      | Some (m1, Some (new_port, new_supplier)) \<Rightarrow> Some (refresh_apply env new_port new_supplier m1))"

definition charge_override_timeout :: "charge_mgr \<Rightarrow> charge_mgr" where
  "charge_override_timeout m = cm_emit Send_Power_Change (m\<lparr>delayed_override_port := OVERRIDE_OFF\<rparr>)"

definition charger_detect_debounced :: "charge_mgr \<Rightarrow> charge_mgr" where
  "charger_detect_debounced m = cm_emit Send_Power_Change m"

subsection \<open>Changes\<close>

definition charge_manager_set_override :: "cm_env \<Rightarrow> int \<Rightarrow> charge_mgr \<Rightarrow> charge_mgr \<times> ec_error_list" where
  "charge_manager_set_override env port m =
     (if delayed_override_port m \<noteq> OVERRIDE_OFF then (m, EC_ERROR_BUSY)
      else if port < 0 \<or> is_sink env port
      then (if override_port m \<noteq> port then refresh_if_seeded env (m\<lparr>override_port := port\<rparr>) else m,
            EC_SUCCESS)
      else if \<not> is_sink env port \<and> dualrole_capability m port = CAP_DUALROLE
      then (cm_emit (Pd_Request_Power_Swap port) (cm_emit (Call_Override_Timeout POWER_SWAP_TIMEOUT)
              (m\<lparr>delayed_override_deadline := get_time env + of_int POWER_SWAP_TIMEOUT,
                 delayed_override_port := port\<rparr>)),
            EC_SUCCESS)
      else (m, EC_ERROR_INVAL))"

datatype charge_manager_change_type = CHANGE_CHARGE | CHANGE_DUALROLE

text \<open>The guards of a change: whether to go on, and whether to clear the override.\<close>

definition change_affects ::
    "charge_manager_change_type \<Rightarrow> int \<Rightarrow> int \<Rightarrow> charge_port_info \<Rightarrow> charge_mgr \<Rightarrow> bool option" where
  "change_affects change supplier port charge m =
     (case change of
        CHANGE_CHARGE \<Rightarrow>
          (if cur_ma (available_charge m supplier port) = cur_ma charge \<and>
              vol_mv (available_charge m supplier port) = vol_mv charge then None
           else Some (0 < cur_ma charge \<and> cur_ma (available_charge m supplier port) = 0))
      | CHANGE_DUALROLE \<Rightarrow>
          (if dualrole_capability m port \<noteq> CAP_DEDICATED then None
           else if list_ex (\<lambda>i. 0 < cur_ma (available_charge m i port)) suppliers then Some True
           else None))"

definition drop_override :: "bool \<Rightarrow> int \<Rightarrow> charge_mgr \<Rightarrow> charge_mgr" where
  "drop_override clear_override port m =
     (if clear_override \<and> override_port m \<noteq> port \<and> override_port m \<noteq> OVERRIDE_DONT_CHARGE \<and>
         dualrole_capability m port = CAP_DEDICATED
      then let m1 = m\<lparr>override_port := OVERRIDE_OFF\<rparr>
           in if delayed_override_port m1 \<noteq> OVERRIDE_OFF
              then cm_emit (Call_Override_Timeout (-1)) (m1\<lparr>delayed_override_port := OVERRIDE_OFF\<rparr>) else m1
      else m)"

definition record_charge :: "cm_env \<Rightarrow> int \<Rightarrow> int \<Rightarrow> charge_port_info \<Rightarrow> charge_mgr \<Rightarrow> charge_mgr" where
  "record_charge env supplier port charge m =
     (let m1 = set_available supplier port charge m;
          m2 = m1\<lparr>registration_time := (registration_time m1)(port := get_time env)\<rparr>;
          m3 = (if 0 < cur_ma charge then cm_emit (Call_Debounced CHARGE_DETECT_DELAY) m2 else m2)
      in if port = delayed_override_port m3 \<and> 0 < cur_ma charge \<and>
            is_sink env (delayed_override_port m3) \<and> get_time env < delayed_override_deadline m3
         then fst (charge_manager_set_override env port
                (cm_emit (Call_Override_Timeout (-1)) (m3\<lparr>delayed_override_port := OVERRIDE_OFF\<rparr>)))
         else m3)"

definition charge_manager_make_change ::
    "cm_env \<Rightarrow> charge_manager_change_type \<Rightarrow> int \<Rightarrow> int \<Rightarrow> charge_port_info \<Rightarrow> charge_mgr \<Rightarrow> charge_mgr" where
  "charge_manager_make_change env change supplier port charge m =
     (if \<not> is_valid_port env port then m
      else case change_affects change supplier port charge m of
        None \<Rightarrow> m
      | Some clear_override \<Rightarrow>
          (let m1 = drop_override clear_override port m;
               m2 = (if change = CHANGE_CHARGE then record_charge env supplier port charge m1 else m1)
           in refresh_if_seeded env m2))"

definition charge_manager_update_charge ::
    "cm_env \<Rightarrow> int \<Rightarrow> int \<Rightarrow> charge_port_info option \<Rightarrow> charge_mgr \<Rightarrow> charge_mgr" where
  "charge_manager_update_charge env supplier port charge m =
     charge_manager_make_change env CHANGE_CHARGE supplier port
       (case charge of None \<Rightarrow> \<lparr>cur_ma = 0, vol_mv = 0\<rparr> | Some c \<Rightarrow> c) m"

definition charge_manager_update_dualrole ::
    "cm_env \<Rightarrow> int \<Rightarrow> dualrole_capabilities \<Rightarrow> charge_mgr \<Rightarrow> charge_mgr" where
  "charge_manager_update_dualrole env port cap m =
     (if \<not> is_pd_port env port then m
      else if cap \<noteq> dualrole_capability m port
      then charge_manager_make_change env CHANGE_DUALROLE 0 port \<lparr>cur_ma = 0, vol_mv = 0\<rparr>
             (m\<lparr>dualrole_capability := (dualrole_capability m)(port := cap)\<rparr>)
      else m)"

definition pd_set_input_current_limit :: "cm_env \<Rightarrow> int \<Rightarrow> u32 \<Rightarrow> u32 \<Rightarrow> charge_mgr \<Rightarrow> charge_mgr" where
  "pd_set_input_current_limit env port max_ma supply_voltage m =
     charge_manager_update_charge env CHARGE_SUPPLIER_PD port
       (Some \<lparr>cur_ma = sint max_ma, vol_mv = sint supply_voltage\<rparr>) m"

definition typec_suppliers :: "int list" where
  "typec_suppliers = [CHARGE_SUPPLIER_TYPEC, CHARGE_SUPPLIER_TYPEC_DTS, CHARGE_SUPPLIER_TYPEC_UNDER_1_5A]"

definition typec_charge :: "u32 \<Rightarrow> u32 \<Rightarrow> int \<times> charge_port_info" where
  "typec_charge max_ma supply_voltage =
     (let dts = bit max_ma 31;
          cur = uint (max_ma AND NOT (push_bit 31 1));
          cur1 = (if dts then min cur 500 else cur);
          supplier = (if dts then CHARGE_SUPPLIER_TYPEC_DTS else CHARGE_SUPPLIER_TYPEC)
      in (if cur1 < 1500 then CHARGE_SUPPLIER_TYPEC_UNDER_1_5A else supplier,
          \<lparr>cur_ma = cur1, vol_mv = sint supply_voltage\<rparr>))"

definition typec_set_input_current_limit :: "cm_env \<Rightarrow> int \<Rightarrow> u32 \<Rightarrow> u32 \<Rightarrow> charge_mgr \<Rightarrow> charge_mgr" where
  "typec_set_input_current_limit env port max_ma supply_voltage m =
     (let (supplier, charge) = typec_charge max_ma supply_voltage;
          m1 = charge_manager_update_charge env supplier port (Some charge) m
      in fold (\<lambda>s m. if supplier \<noteq> s then charge_manager_update_charge env s port None m else m)
           typec_suppliers m1)"

definition charge_manager_leave_safe_mode :: "cm_env \<Rightarrow> charge_mgr \<Rightarrow> charge_mgr" where
  "charge_manager_leave_safe_mode env m =
     (if left_safe_mode m then m else refresh_if_seeded env (m\<lparr>left_safe_mode := True\<rparr>))"

definition charge_manager_set_ceil :: "cm_env \<Rightarrow> int \<Rightarrow> ceil_requestor \<Rightarrow> int \<Rightarrow> charge_mgr \<Rightarrow> charge_mgr" where
  "charge_manager_set_ceil env port requestor ceil m =
     (if \<not> is_valid_port env port then m
      else if charge_ceil m port requestor \<noteq> ceil
      then let m1 = m\<lparr>charge_ceil := (charge_ceil m)(port := (charge_ceil m port)(requestor := ceil))\<rparr>
           in if port = charge_port m1 then refresh_if_seeded env m1 else m1
      else m)"

definition charge_manager_force_ceil :: "cm_env \<Rightarrow> int \<Rightarrow> int \<Rightarrow> charge_mgr \<Rightarrow> charge_mgr" where
  "charge_manager_force_ceil env port ceil m =
     (if left_safe_mode m \<and> port = charge_port m \<and> ceil < charge_current m
      then let m1 = cm_emit (Board_Set_Charge_Limit port CHARGE_SUPPLIER_PD ceil
                            (charge_current_uncapped m) (charge_voltage m)) m
           in m1\<lparr>charge_current := ceil,
                 charge_ceil := (charge_ceil m1)(port := (charge_ceil m1 port)(CEIL_REQUESTOR_PD := ceil))\<rparr>
      else charge_manager_set_ceil env port CEIL_REQUESTOR_PD ceil m)"

subsection \<open>Queries and host commands\<close>

datatype usb_power_roles =
    USB_PD_PORT_POWER_DISCONNECTED
  | USB_PD_PORT_POWER_SOURCE
  | USB_PD_PORT_POWER_SINK
  | USB_PD_PORT_POWER_SINK_NOT_CHARGING

datatype usb_chg_type =
    USB_CHG_TYPE_NONE | USB_CHG_TYPE_PD | USB_CHG_TYPE_C | USB_CHG_TYPE_PROPRIETARY
  | USB_CHG_TYPE_BC12_DCP | USB_CHG_TYPE_BC12_CDP | USB_CHG_TYPE_BC12_SDP | USB_CHG_TYPE_OTHER
  | USB_CHG_TYPE_VBUS | USB_CHG_TYPE_UNKNOWN | USB_CHG_TYPE_DEDICATED

record power_info =
  pi_role :: usb_power_roles
  pi_type :: usb_chg_type
  pi_dualrole :: bool
  pi_voltage_max :: u16
  pi_voltage_now :: u16
  pi_current_max :: u16
  pi_current_lim :: u16
  pi_max_power :: u32

definition get_current_power_role :: "cm_env \<Rightarrow> charge_mgr \<Rightarrow> int \<Rightarrow> int \<Rightarrow> usb_power_roles" where
  "get_current_power_role env m port supplier =
     (if charge_port m = port then USB_PD_PORT_POWER_SINK
      else if is_connected env port \<and> \<not> is_sink env port then USB_PD_PORT_POWER_SOURCE
      else if supplier \<noteq> CHARGE_SUPPLIER_NONE then USB_PD_PORT_POWER_SINK_NOT_CHARGING
      else USB_PD_PORT_POWER_DISCONNECTED)"

definition get_vbus_voltage :: "cm_env \<Rightarrow> int \<Rightarrow> usb_power_roles \<Rightarrow> int" where
  "get_vbus_voltage env port current_role =
     (if current_role = USB_PD_PORT_POWER_SINK_NOT_CHARGING then 5000 else vbus_voltage env port)"

definition charge_manager_get_vbus_voltage :: "cm_env \<Rightarrow> charge_mgr \<Rightarrow> int \<Rightarrow> int" where
  "charge_manager_get_vbus_voltage env m port =
     get_vbus_voltage env port (get_current_power_role env m port (get_current_supplier m port))"

definition supplier_type :: "int \<Rightarrow> usb_chg_type" where
  "supplier_type s =
     (if s = CHARGE_SUPPLIER_PD then USB_CHG_TYPE_PD
      else if s \<in> {CHARGE_SUPPLIER_TYPEC, CHARGE_SUPPLIER_TYPEC_DTS} then USB_CHG_TYPE_C
      else if s = CHARGE_SUPPLIER_PROPRIETARY then USB_CHG_TYPE_PROPRIETARY
      else if s = CHARGE_SUPPLIER_BC12_DCP then USB_CHG_TYPE_BC12_DCP
      else if s = CHARGE_SUPPLIER_BC12_CDP then USB_CHG_TYPE_BC12_CDP
      else if s = CHARGE_SUPPLIER_BC12_SDP then USB_CHG_TYPE_BC12_SDP
      else if s = CHARGE_SUPPLIER_VBUS then USB_CHG_TYPE_VBUS
      else if s = CHARGE_SUPPLIER_DEDICATED then USB_CHG_TYPE_DEDICATED
      else USB_CHG_TYPE_OTHER)"

definition board_fill_source_power_info :: "power_info \<Rightarrow> power_info" where
  "board_fill_source_power_info r = r\<lparr>pi_voltage_now := 0, pi_voltage_max := 0, pi_current_max := 0,
     pi_current_lim := 0, pi_max_power := 0\<rparr>"

text \<open>The report on a port; \<open>None\<close> when it reads an array outside its bounds.\<close>

definition charge_manager_fill_power_info ::
    "cm_env \<Rightarrow> charge_mgr \<Rightarrow> int \<Rightarrow> power_info \<Rightarrow> power_info option" where
  "charge_manager_fill_power_info env m port r =
     (let supplier = get_current_supplier m port;
          role = get_current_power_role env m port supplier
      in if port < 0 \<or> CHARGE_PORT_COUNT env \<le> port then None
         else
           let r1 = r\<lparr>pi_role := role, pi_dualrole := (dualrole_capability m port = CAP_DUALROLE)\<rparr>
           in if supplier = CHARGE_SUPPLIER_NONE \<or> role = USB_PD_PORT_POWER_SOURCE
              then Some (if is_pd_port env port
                then r1\<lparr>pi_type := USB_CHG_TYPE_NONE, pi_voltage_max := 0,
                        pi_voltage_now := (if role = USB_PD_PORT_POWER_SOURCE then 5000 else 0),
                        pi_current_max := of_int (dpm_source_current env port), pi_max_power := 0\<rparr>
                else board_fill_source_power_info (r1\<lparr>pi_type := USB_CHG_TYPE_NONE\<rparr>))
              else
                let (max_mv, max_ma) =
                      (if dps_on env \<and> supplier = CHARGE_SUPPLIER_PD
                       then (max_pdo_voltage env port, max_pdo_current env port)
                       else (vol_mv (available_charge m supplier port), cur_ma (available_charge m supplier port)));
                    ty = (if get_time env < registration_time m port + of_int CHARGE_DETECT_DELAY
                          then USB_CHG_TYPE_UNKNOWN else supplier_type supplier);
                    r2 = r1\<lparr>pi_type := ty, pi_voltage_max := of_int max_mv,
                            pi_current_max := of_int max_ma, pi_current_lim := of_int max_ma\<rparr>
                in Some (r2\<lparr>pi_max_power := ucast (pi_current_max r2) * ucast (pi_voltage_max r2),
                            pi_voltage_now := of_int (get_vbus_voltage env port role)\<rparr>))"

definition PD_POWER_CHARGING_PORT :: u8 where "PD_POWER_CHARGING_PORT = 0xff"

definition hc_pd_power_info ::
    "cm_env \<Rightarrow> u8 \<Rightarrow> charge_mgr \<Rightarrow> power_info \<Rightarrow> (power_info \<times> ec_status) option" where
  "hc_pd_power_info env p_port m r =
     (let port = (if p_port = PD_POWER_CHARGING_PORT then charge_port m else uint p_port)
      in if CHARGE_PORT_COUNT env \<le> port then Some (r, EC_RES_INVALID_PARAM)
         else map_option (\<lambda>r'. (r', EC_RES_SUCCESS)) (charge_manager_fill_power_info env m port r))"

definition hc_charge_port_count :: "cm_env \<Rightarrow> u8" where
  "hc_charge_port_count env = of_int (CHARGE_PORT_COUNT env)"

definition hc_charge_port_override :: "cm_env \<Rightarrow> u16 \<Rightarrow> charge_mgr \<Rightarrow> charge_mgr \<times> ec_status" where
  "hc_charge_port_override env p_override_port m =
     (let op = sint p_override_port
      in if \<not> is_valid_override_port env op then (m, EC_RES_INVALID_PARAM)
         else let (m1, rv) = charge_manager_set_override env op m
              in (m1, if rv = EC_SUCCESS then EC_RES_SUCCESS else EC_RES_ERROR))"

definition hc_override_dedicated_charger_limit ::
    "cm_env \<Rightarrow> u16 \<Rightarrow> u16 \<Rightarrow> charge_mgr \<Rightarrow> charge_mgr \<times> ec_status" where
  "hc_override_dedicated_charger_limit env current_lim voltage_lim m =
     (if charge_port m \<noteq> dedicated_charge_port env then (m, EC_RES_UNAVAILABLE)
      else (charge_manager_update_charge env CHARGE_SUPPLIER_DEDICATED (dedicated_charge_port env)
              (Some \<lparr>cur_ma = uint current_lim, vol_mv = uint voltage_lim\<rparr>) m, EC_RES_SUCCESS))"

definition EC_POWER_LIMIT_NONE :: int where "EC_POWER_LIMIT_NONE = 0xffff"

definition charge_manager_set_external_power_limit ::
    "cm_env \<Rightarrow> int \<Rightarrow> int \<Rightarrow> int \<Rightarrow> charge_mgr \<Rightarrow> charge_mgr" where
  "charge_manager_set_external_power_limit env pd_max_voltage_mv current_lim voltage_lim m =
     (let cur = (if current_lim = EC_POWER_LIMIT_NONE then CHARGE_CEIL_NONE else current_lim);
          vol = (if voltage_lim = EC_POWER_LIMIT_NONE then pd_max_voltage_mv else voltage_lim)
      in fold (\<lambda>port m. cm_emit (Pd_External_Voltage_Limit port vol)
                 (charge_manager_set_ceil env port CEIL_REQUESTOR_HOST cur m))
           [0..usb_pd_port_count env - 1] m)"

definition charge_manager_external_power_limit_off :: "cm_env \<Rightarrow> int \<Rightarrow> charge_mgr \<Rightarrow> charge_mgr" where
  "charge_manager_external_power_limit_off env pd_max_voltage_mv m =
     charge_manager_set_external_power_limit env pd_max_voltage_mv EC_POWER_LIMIT_NONE EC_POWER_LIMIT_NONE m"

definition hc_external_power_limit :: "cm_env \<Rightarrow> int \<Rightarrow> u16 \<Rightarrow> u16 \<Rightarrow> charge_mgr \<Rightarrow> charge_mgr \<times> ec_status" where
  "hc_external_power_limit env pd_max_voltage_mv current_lim voltage_lim m =
     (charge_manager_set_external_power_limit env pd_max_voltage_mv (uint current_lim) (uint voltage_lim) m,
      EC_RES_SUCCESS)"

definition charge_manager_get_selected_charge_port :: "cm_env \<Rightarrow> charge_mgr \<Rightarrow> int" where
  "charge_manager_get_selected_charge_port env m = fst (charge_manager_get_best_port env m)"

definition charge_manager_get_power_limit_uw :: "charge_mgr \<Rightarrow> int" where
  "charge_manager_get_power_limit_uw m =
     (if charge_current m = CHARGE_CURRENT_UNINITIALIZED \<or> charge_voltage m = CHARGE_VOLTAGE_UNINITIALIZED
      then 0 else charge_current m * charge_voltage m)"

definition charge_manager_get_override :: "charge_mgr \<Rightarrow> int" where
  "charge_manager_get_override m = override_port m"

definition charge_manager_get_active_charge_port :: "charge_mgr \<Rightarrow> int" where
  "charge_manager_get_active_charge_port m = charge_port m"

definition charge_manager_get_charger_current :: "charge_mgr \<Rightarrow> int" where
  "charge_manager_get_charger_current m = charge_current m"

definition charge_manager_get_charger_voltage :: "charge_mgr \<Rightarrow> int" where
  "charge_manager_get_charger_voltage m = charge_voltage m"

definition charge_manager_get_supplier :: "charge_mgr \<Rightarrow> int" where
  "charge_manager_get_supplier m = charge_supplier m"

definition charge_manager_get_pd_current_uncapped :: "charge_mgr \<Rightarrow> int" where
  "charge_manager_get_pd_current_uncapped m = charge_pd_current_uncapped m"

end
