(* ===== verification/Selection.thy ===== *)
theory Selection
  imports Prelude "HOL-Library.Product_Lexorder"
begin

section \<open>Picking the best of a list\<close>

text \<open>
  Loops that keep the best candidate seen so far. Their contract is a key to minimise and a test
  \<open>wins\<close> that says when a candidate replaces the best: it must when its key is smaller,
  it must not when its key is larger, and may when they are equal. Under this contract the result
  is a candidate of minimal key, whatever the order of the list.
\<close>

definition pick_step :: "('a \<Rightarrow> bool) \<Rightarrow> ('a \<Rightarrow> 'a \<Rightarrow> bool) \<Rightarrow> 'a \<Rightarrow> 'a option \<Rightarrow> 'a option" where
  "pick_step cand wins x b =
     (if \<not> cand x then b
      else case b of None \<Rightarrow> Some x | Some y \<Rightarrow> if wins x y then Some x else b)"

definition pick :: "('a \<Rightarrow> bool) \<Rightarrow> ('a \<Rightarrow> 'a \<Rightarrow> bool) \<Rightarrow> 'a list \<Rightarrow> 'a option" where
  "pick cand wins xs = fold (pick_step cand wins) xs None"

lemma pick_Nil [simp]: "pick cand wins [] = None"
  by (simp add: pick_def)

lemma pick_snoc: "pick cand wins (xs @ [x]) = pick_step cand wins x (pick cand wins xs)"
  by (simp add: pick_def)

locale best_pick =
  fixes key :: "'a \<Rightarrow> 'k::linorder"
    and wins :: "'a \<Rightarrow> 'a \<Rightarrow> bool"
  assumes wins_less: "key x < key y \<Longrightarrow> wins x y"
    and wins_le: "wins x y \<Longrightarrow> key x \<le> key y"
begin

lemma pick_best:
  "case pick cand wins xs of
     None \<Rightarrow> \<forall>x \<in> set xs. \<not> cand x
   | Some y \<Rightarrow> y \<in> set xs \<and> cand y \<and> (\<forall>x \<in> set xs. cand x \<longrightarrow> key y \<le> key x)"
proof (induction xs rule: rev_induct)
  case (snoc x xs)
  show ?case
  proof (cases "pick cand wins xs")
    case None
    then show ?thesis using snoc by (auto simp: pick_snoc pick_step_def)
  next
    case (Some y)
    show ?thesis
    proof (cases "cand x \<and> wins x y")
      case True
      then have "key x \<le> key y" by (simp add: wins_le)
      then show ?thesis using snoc Some True by (auto simp: pick_snoc pick_step_def)
    next
      case False
      then have "cand x \<longrightarrow> key y \<le> key x" using wins_less [of x y] by (meson not_le)
      then show ?thesis using snoc Some False by (auto simp: pick_snoc pick_step_def)
    qed
  qed
qed simp

lemma pick_None: "pick cand wins xs = None \<longleftrightarrow> (\<forall>x \<in> set xs. \<not> cand x)"
  using pick_best [where cand = cand and xs = xs] by (auto split: option.splits)

lemma pick_Some:
  assumes "pick cand wins xs = Some y"
  shows "y \<in> set xs" and "cand y" and "\<And>x. x \<in> set xs \<Longrightarrow> cand x \<Longrightarrow> key y \<le> key x"
  using pick_best [where cand = cand and xs = xs] assms by auto

end

end
