(* ===== verification/ChargeManagerProps.thy ===== *)
theory ChargeManagerProps
  imports ChargeManager Selection
begin

section \<open>What the charge manager chooses and enforces\<close>

text \<open>
  The searches of \<open>common/charge_manager.c\<close> are instances of \<open>best_pick\<close>: the
  supplier of a port, the ceiling of a port, and the port, whose key is the supplier's priority,
  then the power, then whether the port is active. On them rest the choice of the port, the
  override, the termination of the hunt and the limits that a refresh enforces.
\<close>

subsection \<open>The ceiling\<close>

interpretation ceil_pick: best_pick "\<lambda>x::int. x" "\<lambda>x y. x < y"
  by unfold_locales simp_all

lemma ceil_fold:
  "fold ceil_step xs b = (case fold (pick_step (\<lambda>x. x \<noteq> CHARGE_CEIL_NONE) (\<lambda>x y. x < y)) xs
     (if b = CHARGE_CEIL_NONE then None else Some b) of None \<Rightarrow> CHARGE_CEIL_NONE | Some c \<Rightarrow> c)"
  by (induction xs arbitrary: b) (auto simp: ceil_step_def pick_step_def CHARGE_CEIL_NONE_def)

lemma get_ceil_min:
  assumes "is_valid_port env p"
  shows "if \<forall>r. charge_ceil m p r = CHARGE_CEIL_NONE then charge_manager_get_ceil env m p = CHARGE_CEIL_NONE
    else charge_manager_get_ceil env m p \<noteq> CHARGE_CEIL_NONE \<and>
      (\<forall>r. charge_ceil m p r \<noteq> CHARGE_CEIL_NONE \<longrightarrow> charge_manager_get_ceil env m p \<le> charge_ceil m p r)"
proof -
  let ?xs = "map (charge_ceil m p) [CEIL_REQUESTOR_PD, CEIL_REQUESTOR_HOST]"
  let ?c = "pick (\<lambda>x. x \<noteq> CHARGE_CEIL_NONE) (\<lambda>x y. x < y) ?xs"
  have all: "charge_ceil m p r \<in> set ?xs" for r by (cases r) auto
  have g: "charge_manager_get_ceil env m p = (case ?c of None \<Rightarrow> CHARGE_CEIL_NONE | Some c \<Rightarrow> c)"
    unfolding charge_manager_get_ceil_def ceil_fold pick_def using assms by simp
  show ?thesis
  proof (cases ?c)
    case None
    then have "charge_ceil m p r = CHARGE_CEIL_NONE" for r
      using all [of r] unfolding ceil_pick.pick_None by blast
    then show ?thesis using None by (simp add: g)
  next
    case (Some c)
    note ceil_pick.pick_Some [OF Some]
    then show ?thesis using g Some all by auto
  qed
qed

subsection \<open>The best port\<close>

type_synonym offer = "int \<times> int"

definition port_key :: "charge_mgr \<Rightarrow> offer \<Rightarrow> int \<times> int \<times> bool" where
  "port_key m = (\<lambda>(i, j). (supplier_priority i, - POWER (available_charge m i j), j \<noteq> charge_port m))"

definition port_prefer :: "charge_mgr \<Rightarrow> offer \<Rightarrow> offer \<Rightarrow> bool" where
  "port_prefer m = (\<lambda>(i, j) (s, p).
     supplier_priority i < supplier_priority s \<or>
     supplier_priority i = supplier_priority s \<and>
       (POWER (available_charge m s p) < POWER (available_charge m i j) \<or>
        POWER (available_charge m i j) = POWER (available_charge m s p) \<and> charge_port m = j))"

interpretation port_pick: best_pick "port_key m" "port_prefer m" for m
  by unfold_locales (auto simp: port_key_def port_prefer_def less_prod_def less_eq_prod_def split: prod.splits)

text \<open>What the ports offer: some charge, from a port that may charge the system.\<close>

definition charged :: "charge_mgr \<Rightarrow> offer \<Rightarrow> bool" where
  "charged m = (\<lambda>(i, j). cur_ma (available_charge m i j) \<noteq> 0 \<and> vol_mv (available_charge m i j) \<noteq> 0)"

definition offered :: "cm_env \<Rightarrow> charge_mgr \<Rightarrow> offer \<Rightarrow> bool" where
  "offered env m = (\<lambda>(i, j). is_valid_port env j \<and> charged m (i, j) \<and>
     (dualrole_capability m j = CAP_DEDICATED \<or> charge_manager_spoof_dualrole_capability env m))"

definition offers :: "cm_env \<Rightarrow> offer list" where
  "offers env = concat (map (\<lambda>i. map (Pair i) (charge_ports env)) suppliers)"

definition best_of :: "charge_mgr \<Rightarrow> offer option \<Rightarrow> best" where
  "best_of m b = (case b of None \<Rightarrow> (CHARGE_SUPPLIER_NONE, CHARGE_PORT_NONE, -1)
     | Some (i, j) \<Rightarrow> (i, j, POWER (available_charge m i j)))"

definition best_search :: "cm_env \<Rightarrow> charge_mgr \<Rightarrow> best" where
  "best_search env m = fold (\<lambda>i. best_ports env m i (charge_ports env)) suppliers
     (CHARGE_SUPPLIER_NONE, CHARGE_PORT_NONE, -1)"

lemma set_offers: "(i, j) \<in> set (offers env) \<longleftrightarrow> i \<in> set suppliers \<and> j \<in> set (charge_ports env)"
  by (auto simp: offers_def)

lemma suppliers_nonneg: "i \<in> set suppliers \<Longrightarrow> 0 \<le> i"
  by (simp add: suppliers_def)

lemma charge_ports_nonneg: "j \<in> set (charge_ports env) \<Longrightarrow> 0 \<le> j"
  by (simp add: charge_ports_def)

lemma valid_in_ports: "is_valid_port env j \<Longrightarrow> j \<in> set (charge_ports env)"
  by (auto simp: is_valid_port_def charge_ports_def split: if_splits)

lemma best_ports_plain:
  assumes "override_port m = OVERRIDE_OFF" and "dps_port env < 0" and "i \<in> set suppliers"
    and "\<forall>j \<in> set js. 0 \<le> j" and "\<forall>y. b = Some y \<longrightarrow> fst y \<in> set suppliers"
  shows "best_ports env m i js (best_of m b) =
    best_of m (fold (\<lambda>j. pick_step (offered env m) (port_prefer m) (i, j)) js b)"
  using assms(4,5)
proof (induction js arbitrary: b)
  case (Cons j js)
  obtain s p pw where b: "best_of m b = (s, p, pw)" by (cases "best_of m b") auto
  have skip: "best_skip env m i j p \<longleftrightarrow> \<not> offered env m (i, j)"
    using assms(1) Cons.prems(1)
    by (auto simp: best_skip_def offered_def charged_def OVERRIDE_OFF_def)
  have better: "best_better m i j (best_of m b) \<longleftrightarrow> (case b of None \<Rightarrow> True | Some y \<Rightarrow> port_prefer m (i, j) y)"
  proof (cases b)
    case (Some y)
    then have "fst y \<noteq> CHARGE_SUPPLIER_NONE"
      using Cons.prems(2) suppliers_nonneg by (force simp: CHARGE_SUPPLIER_NONE_def)
    then show ?thesis using Some assms(1) Cons.prems(1)
      by (auto simp: best_better_def best_of_def port_prefer_def OVERRIDE_OFF_def Let_def split: prod.splits)
  qed (simp add: best_better_def best_of_def Let_def)
  let ?b' = "pick_step (offered env m) (port_prefer m) (i, j) b"
  have step: "best_ports env m i (j # js) (best_of m b) = best_ports env m i js (best_of m ?b')"
    using skip better assms(2) Cons.prems(1) b
    by (auto simp: pick_step_def best_of_def split: option.splits prod.splits)
  have "\<forall>y. ?b' = Some y \<longrightarrow> fst y \<in> set suppliers"
    using Cons.prems(2) assms(3) by (auto simp: pick_step_def split: option.splits if_splits)
  then show ?case using Cons.IH [of ?b'] Cons.prems(1) step by simp
qed simp

lemma pick_kept:
  assumes "\<forall>y. b = Some y \<longrightarrow> fst y \<in> S" and "i \<in> S"
  shows "\<forall>y. fold (pick_step c w) (map (Pair i) js) b = Some y \<longrightarrow> fst y \<in> S"
  using assms(1)
proof (induction js arbitrary: b)
  case (Cons j js)
  have "\<forall>y. pick_step c w (i, j) b = Some y \<longrightarrow> fst y \<in> S"
    using Cons.prems assms(2) by (auto simp: pick_step_def split: option.splits if_splits)
  then show ?case using Cons.IH by simp
qed simp

lemma best_search_plain:
  assumes "override_port m = OVERRIDE_OFF" and "dps_port env < 0"
  shows "best_search env m = best_of m (pick (offered env m) (port_prefer m) (offers env))"
proof -
  have "fold (\<lambda>i. best_ports env m i (charge_ports env)) is (best_of m b) =
      best_of m (fold (pick_step (offered env m) (port_prefer m)) (concat (map (\<lambda>i. map (Pair i) (charge_ports env)) is)) b)"
    if "set is \<subseteq> set suppliers" "\<forall>y. b = Some y \<longrightarrow> fst y \<in> set suppliers" for "is" b
    using that
  proof (induction "is" arbitrary: b)
    case (Cons i "is")
    let ?b = "fold (pick_step (offered env m) (port_prefer m)) (map (Pair i) (charge_ports env)) b"
    have kept: "\<forall>y. ?b = Some y \<longrightarrow> fst y \<in> set suppliers"
      by (rule pick_kept [OF Cons.prems(2)]) (use Cons.prems(1) in simp)
    have "best_ports env m i (charge_ports env) (best_of m b) = best_of m ?b"
      using best_ports_plain [OF assms, of i "charge_ports env" b] Cons.prems charge_ports_nonneg
      by (simp add: fold_map comp_def)
    then have "fold (\<lambda>i. best_ports env m i (charge_ports env)) (i # is) (best_of m b) =
        fold (\<lambda>i. best_ports env m i (charge_ports env)) is (best_of m ?b)"
      by simp
    also have "\<dots> = best_of m (fold (pick_step (offered env m) (port_prefer m))
        (concat (map (\<lambda>i. map (Pair i) (charge_ports env)) is)) ?b)"
      using Cons.prems(1) kept by (intro Cons.IH) simp_all
    finally show ?case by simp
  qed simp
  from this [of suppliers None] show ?thesis
    by (simp add: best_search_def best_of_def pick_def offers_def)
qed

text \<open>The battery does not hold the charge port.\<close>

definition free_choice :: "cm_env \<Rightarrow> charge_mgr \<Rightarrow> bool" where
  "free_choice env m \<longleftrightarrow> charge_port m = CHARGE_PORT_NONE \<or> battery_is_present env = BP_NOT_SURE \<or>
     battery_is_present env = BP_YES \<and> battery_cutoff_normal env"

lemma get_best_port_search:
  assumes "override_port m \<noteq> OVERRIDE_DONT_CHARGE" and "free_choice env m"
  shows "charge_manager_get_best_port env m = (case best_search env m of (supplier, port, _) \<Rightarrow> (port, supplier))"
  using assms by (auto simp: charge_manager_get_best_port_def best_search_def free_choice_def split: prod.splits)

subsection \<open>A board to try the results on\<close>

text \<open>
  Two PD ports and a dedicated one. Port 0 has a PD offer of 15 V and 3 A, port 1 a type-C offer of
  5 V and 3 A; port 0 has a host ceiling of 2 A.
\<close>

definition cm_demo_env :: cm_env where
  "cm_demo_env = \<lparr>pd_port_max_count = 2, dedicated_port_count = 1, usb_pd_port_count = 2,
     pd_role_sink = \<lambda>_. True, pd_connected = \<lambda>_. True, ro_and_locked = False, dps_on = False,
     dps_port = -1, battery_is_present = BP_YES, battery_cutoff_normal = True,
     port_accepted = \<lambda>p. p \<noteq> 1, requested_voltage = \<lambda>_. 0, requested_current = \<lambda>_. 0,
     max_pdo_current = \<lambda>_. 3000, max_pdo_voltage = \<lambda>_. 15000, vbus_voltage = \<lambda>_. 5000,
     dpm_source_current = \<lambda>_. 1500, dedicated_charge_port = 2, get_time = 0\<rparr>"

definition demo_offers :: "int \<Rightarrow> int \<Rightarrow> charge_port_info" where
  "demo_offers i j =
     (if i = CHARGE_SUPPLIER_PD \<and> j = 0 then \<lparr>cur_ma = 3000, vol_mv = 15000\<rparr>
      else if i = CHARGE_SUPPLIER_TYPEC \<and> j = 1 then \<lparr>cur_ma = 3000, vol_mv = 5000\<rparr>
      else \<lparr>cur_ma = 0, vol_mv = 0\<rparr>)"

definition demo_mgr :: charge_mgr where
  "demo_mgr = \<lparr>available_charge = demo_offers, registration_time = \<lambda>_. 0,
     charge_ceil = \<lambda>p r. if p = 0 \<and> r = CEIL_REQUESTOR_HOST then 2000 else CHARGE_CEIL_NONE,
     dualrole_capability = \<lambda>_. CAP_DEDICATED, charge_port = CHARGE_PORT_NONE,
     charge_current = CHARGE_CURRENT_UNINITIALIZED,
     charge_current_uncapped = CHARGE_CURRENT_UNINITIALIZED,
     charge_voltage = CHARGE_VOLTAGE_UNINITIALIZED, charge_supplier = CHARGE_SUPPLIER_NONE,
     charge_pd_current_uncapped = CHARGE_CURRENT_UNINITIALIZED, override_port = OVERRIDE_OFF,
     delayed_override_port = OVERRIDE_OFF, delayed_override_deadline = 0, left_safe_mode = True,
     is_seeded = True, active_charge_port_initialized = False, effects = []\<rparr>"

text \<open>
  C22: The port chosen is the best one offered. Without override and dynamic PDO selection, and
  unless a missing or cut off battery holds the current port, the port and supplier chosen are an
  offer (a valid port with current and voltage whose partner is dedicated or counted as such) of
  the highest supplier priority, among those of the highest power, and among those on the active
  port if it ties; and there is none exactly when nothing is offered.
\<close>

theorem cm_best_port_optimal:
  assumes "override_port m = OVERRIDE_OFF" and "dps_port env < 0" and "free_choice env m"
    and "charge_manager_get_best_port env m = (port, supplier)"
  shows "(if \<forall>(i, j) \<in> set (offers env). \<not> offered env m (i, j)
      then port = CHARGE_PORT_NONE \<and> supplier = CHARGE_SUPPLIER_NONE
      else offered env m (supplier, port) \<and>
        (\<forall>(i, j) \<in> set (offers env). offered env m (i, j) \<longrightarrow>
          supplier_priority supplier < supplier_priority i \<or>
          supplier_priority supplier = supplier_priority i \<and>
            (POWER (available_charge m i j) < POWER (available_charge m supplier port) \<or>
             POWER (available_charge m i j) = POWER (available_charge m supplier port) \<and>
               (j = charge_port m \<longrightarrow> port = charge_port m))))"
proof -
  let ?b = "pick (offered env m) (port_prefer m) (offers env)"
  have r: "(case best_of m ?b of (s, p, _) \<Rightarrow> (p, s)) = (port, supplier)"
    using assms best_search_plain [OF assms(1,2)] get_best_port_search [of m env]
    by (simp add: OVERRIDE_OFF_def OVERRIDE_DONT_CHARGE_def)
  show ?thesis
  proof (cases ?b)
    case None
    then show ?thesis using r port_pick.pick_None [where cand = "offered env m" and xs = "offers env"]
      by (auto simp: best_of_def)
  next
    case (Some y)
    then have y: "y = (supplier, port)" using r by (auto simp: best_of_def split: prod.splits)
    note p = port_pick.pick_Some [OF Some [unfolded y]]
    have "supplier_priority supplier < supplier_priority i \<or>
        supplier_priority supplier = supplier_priority i \<and>
          (POWER (available_charge m i j) < POWER (available_charge m supplier port) \<or>
           POWER (available_charge m i j) = POWER (available_charge m supplier port) \<and>
             (j = charge_port m \<longrightarrow> port = charge_port m))"
      if "(i, j) \<in> set (offers env)" "offered env m (i, j)" for i j
      using p(3) [OF that] by (auto simp: port_key_def less_eq_prod_def)
    then show ?thesis using p(1,2) by auto
  qed
qed

subsection \<open>The override\<close>

theorem cm_best_port_optimal_witness:
  "charge_manager_get_best_port cm_demo_env demo_mgr = (0, CHARGE_SUPPLIER_PD) \<and>
    supplier_priority CHARGE_SUPPLIER_PD < supplier_priority CHARGE_SUPPLIER_TYPEC"
proof -
  have b: "charge_manager_get_best_port cm_demo_env demo_mgr = (0, CHARGE_SUPPLIER_PD)" by code_simp
  have c: "override_port demo_mgr = OVERRIDE_OFF" "dps_port cm_demo_env < 0" "free_choice cm_demo_env demo_mgr"
    by (simp_all add: demo_mgr_def cm_demo_env_def free_choice_def)
  have o: "(CHARGE_SUPPLIER_TYPEC, 1) \<in> set (offers cm_demo_env)" by code_simp
  have o': "offered cm_demo_env demo_mgr (CHARGE_SUPPLIER_TYPEC, 1)" by code_simp
  have "supplier_priority CHARGE_SUPPLIER_PD \<noteq> supplier_priority CHARGE_SUPPLIER_TYPEC" by code_simp
  then show ?thesis using cm_best_port_optimal [OF c b] o o' b by (fastforce split: if_splits)
qed

definition override_best :: "charge_mgr \<Rightarrow> int \<Rightarrow> int list \<Rightarrow> int \<Rightarrow> bool" where
  "override_best m p is s \<longleftrightarrow> s \<in> set is \<and> charged m (s, p) \<and>
     (\<forall>i \<in> set is. charged m (i, p) \<longrightarrow>
       supplier_priority s < supplier_priority i \<or>
       supplier_priority s = supplier_priority i \<and> POWER (available_charge m i p) \<le> POWER (available_charge m s p))"

text \<open>\<open>is\<close> are the suppliers whose offer on the override port has been seen.\<close>

definition override_inv :: "charge_mgr \<Rightarrow> int list \<Rightarrow> best \<Rightarrow> bool" where
  "override_inv m is = (\<lambda>(s, p, pw).
     if \<exists>i \<in> set is. charged m (i, override_port m)
     then p = override_port m \<and> pw = POWER (available_charge m s p) \<and> override_best m p is s \<and> 0 \<le> s
     else p \<noteq> override_port m)"

lemma override_ports:
  assumes o: "0 \<le> override_port m" "is_valid_port env (override_port m)" and i: "0 \<le> i" "i \<notin> set is"
    and "distinct js" and "override_inv m is b \<and> override_port m \<in> set js \<or>
      override_inv m (is @ [i]) b \<and> override_port m \<notin> set js"
  shows "override_inv m (is @ [i]) (best_ports env m i js b)"
  using assms(5,6)
proof (induction js arbitrary: b)
  case (Cons j js)
  obtain s p pw where b: "b = (s, p, pw)" by (cases b) auto
  have off: "override_port m \<noteq> OVERRIDE_OFF" using o(1) by (simp add: OVERRIDE_OFF_def)
  show ?case
  proof (cases "j = override_port m")
    case True
    then have inv: "override_inv m is (s, p, pw)" using Cons.prems b by auto
    have skip: "best_skip env m i j p \<longleftrightarrow> \<not> charged m (i, j)"
      using True o(2) by (auto simp: best_skip_def charged_def)
    define b' where "b' = (if best_skip env m i j p then b
      else if best_better m i j b then (i, j, POWER (available_charge m i j)) else b)"
    have "override_inv m (is @ [i]) b'"
    proof (cases "charged m (i, j)")
      case nc: False
      then show ?thesis using inv skip True b
        by (cases "\<exists>i \<in> set is. charged m (i, override_port m)")
          (auto simp: b'_def override_inv_def override_best_def)
    next
      case ch: True
      show ?thesis
      proof (cases "\<exists>i \<in> set is. charged m (i, override_port m)")
        case False
        then have "p \<noteq> override_port m" using inv by (simp add: override_inv_def)
        then have "b' = (i, j, POWER (available_charge m i j))"
          using skip ch True b by (simp add: b'_def best_better_def Let_def)
        then show ?thesis using ch True False i
          by (auto simp: override_inv_def override_best_def)
      next
        case some: True
        then have p: "p = override_port m" "pw = POWER (available_charge m s p)" "override_best m p is s" "0 \<le> s"
          using inv by (auto simp: override_inv_def)
        have better: "best_better m i j b \<longleftrightarrow> supplier_priority i < supplier_priority s \<or>
            supplier_priority i = supplier_priority s \<and>
              (pw < POWER (available_charge m i j) \<or> POWER (available_charge m i j) = pw \<and> charge_port m = j)"
          using p(1,4) b by (auto simp: best_better_def Let_def CHARGE_SUPPLIER_NONE_def)
        show ?thesis
          using some ch skip True p i better b
          by (auto simp: b'_def override_inv_def override_best_def not_less)
      qed
    qed
    moreover have "best_ports env m i (j # js) b = best_ports env m i js b'"
      using off b by (simp add: b'_def)
    ultimately show ?thesis using Cons.IH [of b'] Cons.prems(1) True by simp
  next
    case False
    define b' where "b' = (if best_skip env m i j p then b
      else if best_better m i j b then (i, j, POWER (available_charge m i j)) else b)"
    have "override_inv m ks b'" if "override_inv m ks b" for ks
      using that False off b
      by (cases "\<exists>i \<in> set ks. charged m (i, override_port m)") (auto simp: b'_def override_inv_def best_skip_def)
    moreover have "best_ports env m i (j # js) b = best_ports env m i js b'"
      using off b by (simp add: b'_def)
    ultimately show ?thesis using Cons.IH [of b'] Cons.prems False by auto
  qed
qed simp

lemma override_search:
  assumes o: "0 \<le> override_port m" "is_valid_port env (override_port m)"
  shows "override_inv m suppliers (best_search env m)"
proof -
  have "override_inv m (ks @ is) (fold (\<lambda>i. best_ports env m i (charge_ports env)) is b)"
    if "override_inv m ks b" "distinct (ks @ is)" "\<forall>i \<in> set is. 0 \<le> i" for ks "is" b
    using that
  proof (induction "is" arbitrary: ks b)
    case (Cons i "is")
    have "override_inv m (ks @ [i]) (best_ports env m i (charge_ports env) b)"
      using Cons.prems valid_in_ports [OF o(2)] by (intro override_ports [OF o]) (auto simp: charge_ports_def)
    then show ?case using Cons.IH [of "ks @ [i]"] Cons.prems by simp
  qed simp
  from this [of "[]" _ suppliers] show ?thesis
    using o(1) suppliers_nonneg
    by (simp add: best_search_def override_inv_def CHARGE_PORT_NONE_def suppliers_def)
qed

text \<open>
  A charged override port is charged from. When the override names a valid port on which some
  supplier offers current and voltage, that port is chosen whatever the other ports offer, whatever
  its partner's dual-role capability is and whatever dynamic PDO selection prefers, with the best
  supplier of that port; \<open>OVERRIDE_DONT_CHARGE\<close> chooses no port.
\<close>

lemma cm_override_honoured:
  assumes "free_choice env m"
  shows "(override_port m = OVERRIDE_DONT_CHARGE \<longrightarrow>
      charge_manager_get_best_port env m = (CHARGE_PORT_NONE, CHARGE_SUPPLIER_NONE)) \<and>
    (\<forall>i. 0 \<le> override_port m \<and> is_valid_port env (override_port m) \<and> i \<in> set suppliers \<and>
      charged m (i, override_port m) \<longrightarrow>
      (\<exists>s. charge_manager_get_best_port env m = (override_port m, s) \<and>
        override_best m (override_port m) suppliers s))"
proof -
  have "\<exists>s. charge_manager_get_best_port env m = (override_port m, s) \<and> override_best m (override_port m) suppliers s"
    if "0 \<le> override_port m" "is_valid_port env (override_port m)" "i \<in> set suppliers" "charged m (i, override_port m)"
    for i
  proof -
    obtain s p pw where b: "best_search env m = (s, p, pw)" by (cases "best_search env m") auto
    have "p = override_port m \<and> override_best m p suppliers s"
      using override_search [OF that(1,2)] b that(3,4) by (auto simp: override_inv_def split: if_splits)
    moreover have "override_port m \<noteq> OVERRIDE_DONT_CHARGE" using that(1) by (simp add: OVERRIDE_DONT_CHARGE_def)
    ultimately show ?thesis using get_best_port_search [OF _ assms] b by auto
  qed
  then show ?thesis by (auto simp: charge_manager_get_best_port_def)
qed

lemma cm_override_honoured_witness:
  "\<exists>s. charge_manager_get_best_port cm_demo_env (demo_mgr\<lparr>override_port := 1\<rparr>) = (1, s)"
proof -
  let ?m = "demo_mgr\<lparr>override_port := 1\<rparr>"
  have f: "free_choice cm_demo_env ?m" by (simp add: demo_mgr_def cm_demo_env_def free_choice_def)
  have v: "is_valid_port cm_demo_env 1" by code_simp
  have i: "CHARGE_SUPPLIER_TYPEC \<in> set suppliers" by code_simp
  have c: "charged ?m (CHARGE_SUPPLIER_TYPEC, 1)" by code_simp
  show ?thesis using cm_override_honoured [OF f] v i c by fastforce
qed

subsection \<open>The hunt ends\<close>

lemma set_available_fold:
  "available_charge (fold (\<lambda>i m. set_available i p c m) is m) i j =
     (if j = p \<and> i \<in> set is then c else available_charge m i j)"
  by (induction "is" arbitrary: m) (auto simp: set_available_def)

lemma clear_port_available:
  "available_charge (clear_port p m) i j =
     (if j = p \<and> i \<in> set suppliers then \<lparr>cur_ma = 0, vol_mv = 0\<rparr> else available_charge m i j)"
  by (simp add: clear_port_def set_available_fold)

text \<open>The state up to what a hunt changes: the offers and the record of effects.\<close>

definition same_but_offers :: "charge_mgr \<Rightarrow> charge_mgr \<Rightarrow> bool" where
  "same_but_offers m m' \<longleftrightarrow> (\<exists>a e. m' = m\<lparr>available_charge := a, effects := e\<rparr>)"

lemma same_but_offersI: "m' = m\<lparr>available_charge := a, effects := e\<rparr> \<Longrightarrow> same_but_offers m m'"
  by (auto simp: same_but_offers_def)

lemma same_but_offers_refl [simp]: "same_but_offers m m"
  by (rule same_but_offersI [where a = "available_charge m" and e = "effects m"]) simp

lemma same_but_offers_trans: "same_but_offers m m1 \<Longrightarrow> same_but_offers m1 m2 \<Longrightarrow> same_but_offers m m2"
  by (auto simp: same_but_offers_def) blast

lemma same_but_offers_fields:
  assumes "same_but_offers m m'"
  shows "charge_port m' = charge_port m" "charge_supplier m' = charge_supplier m"
    "left_safe_mode m' = left_safe_mode m" "override_port m' = override_port m"
    "charge_ceil m' = charge_ceil m" "active_charge_port_initialized m' = active_charge_port_initialized m"
    "charge_current m' = charge_current m" "dualrole_capability m' = dualrole_capability m"
  using assms by (auto simp: same_but_offers_def)

lemma set_available_same: "same_but_offers m (fold (\<lambda>i m. set_available i p c m) is m)"
proof (induction "is" arbitrary: m)
  case (Cons i "is")
  have "same_but_offers m (set_available i p c m)"
    by (rule same_but_offersI [where e = "effects m"]) (simp add: set_available_def)
  then show ?case using Cons same_but_offers_trans by fastforce
qed simp

lemma cm_emit_same: "same_but_offers m (cm_emit e m)"
  by (rule same_but_offersI [where a = "available_charge m"]) (simp add: cm_emit_def)

lemma best_search_charged:
  "case best_search env m of (s, p, pw) \<Rightarrow>
     s = CHARGE_SUPPLIER_NONE \<and> p = CHARGE_PORT_NONE \<or>
     s \<in> set suppliers \<and> p \<in> set (charge_ports env) \<and> charged m (s, p)"
proof -
  define ok where "ok = (\<lambda>(s, p, pw::int). s = CHARGE_SUPPLIER_NONE \<and> p = CHARGE_PORT_NONE \<or>
     s \<in> set suppliers \<and> p \<in> set (charge_ports env) \<and> charged m (s, p))"
  have ports: "ok (best_ports env m i js b)"
    if "i \<in> set suppliers" "set js \<subseteq> set (charge_ports env)" "ok b" for i js b
    using that(2,3)
  proof (induction js arbitrary: b)
    case (Cons j js)
    obtain s p pw where b: "b = (s, p, pw)" by (cases b) auto
    show ?case
    proof (cases "best_skip env m i j p")
      case True
      then show ?thesis using Cons b by simp
    next
      case False
      then have "charged m (i, j)" by (auto simp: best_skip_def charged_def)
      then have "ok (i, j, w)" for w using that(1) Cons.prems(1) by (simp add: ok_def)
      then show ?thesis using Cons False b by auto
    qed
  qed simp
  have "ok (fold (\<lambda>i. best_ports env m i (charge_ports env)) is b)" if "set is \<subseteq> set suppliers" "ok b" for "is" b
    using that by (induction "is" arbitrary: b) (auto simp: ports)
  from this [of suppliers "(CHARGE_SUPPLIER_NONE, CHARGE_PORT_NONE, -1)"] show ?thesis
    by (simp add: ok_def best_search_def)
qed

lemma best_port_effects:
  "charge_manager_get_best_port env (m\<lparr>effects := e\<rparr>) = charge_manager_get_best_port env m"
proof -
  have skip: "best_skip env (m\<lparr>effects := e\<rparr>) i j p = best_skip env m i j p" for i j p
    by (simp add: best_skip_def charge_manager_spoof_dualrole_capability_def)
  have "best_ports env (m\<lparr>effects := e\<rparr>) i js b = best_ports env m i js b" for i js b
    by (induction js arbitrary: b) (auto simp: skip best_better_def)
  then have "best_ports env (m\<lparr>effects := e\<rparr>) = best_ports env m" by (intro ext)
  then have "best_search env (m\<lparr>effects := e\<rparr>) = best_search env m" by (simp add: best_search_def)
  then show ?thesis
    unfolding charge_manager_get_best_port_def best_search_def [symmetric]
    by (cases "best_search env m") simp
qed

definition live_ports :: "cm_env \<Rightarrow> charge_mgr \<Rightarrow> int set" where
  "live_ports env m = {j \<in> set (charge_ports env). \<exists>i \<in> set suppliers. charged m (i, j)}"

lemma best_port_cases:
  assumes "charge_manager_get_best_port env m = (p, s)"
  obtains "p = CHARGE_PORT_NONE" and "s = CHARGE_SUPPLIER_NONE"
  | "p = charge_port m" and "s = charge_supplier m" and "p \<noteq> CHARGE_PORT_NONE"
  | "s \<in> set suppliers" and "charged m (s, p)" and "p \<in> live_ports env m"
  using assms best_search_charged [of env m]
  by (auto simp: charge_manager_get_best_port_def live_ports_def best_search_def Let_def split: prod.splits if_splits)

lemma live_clear:
  assumes "p \<in> live_ports env m"
  shows "card (live_ports env (clear_port p (cm_emit e m))) < card (live_ports env m)"
proof -
  have "live_ports env (clear_port p (cm_emit e m)) \<subset> live_ports env m"
    using assms by (auto simp: live_ports_def charged_def clear_port_available cm_emit_def)
  then show ?thesis by (rule psubset_card_mono [rotated]) (simp add: live_ports_def)
qed

lemma hunt_result:
  assumes "port_accepted env CHARGE_PORT_NONE"
  shows "charge_port m \<noteq> CHARGE_PORT_NONE \<longrightarrow> active_charge_port_initialized m \<Longrightarrow>
    card (live_ports env m) < n \<Longrightarrow>
    \<exists>m' r. hunt n env m = Some (m', r) \<and> same_but_offers m m' \<and>
      (case r of None \<Rightarrow> \<not> left_safe_mode m
       | Some (p, s) \<Rightarrow> charge_manager_get_best_port env m' = (p, s) \<and>
           (port_accepted env p \<or> p = charge_port m \<and> s = charge_supplier m))"
proof (induction n arbitrary: m)
  case (Suc n)
  obtain p s where b: "charge_manager_get_best_port env m = (p, s)" by (cases "charge_manager_get_best_port env m")
  let ?stay = "active_charge_port_initialized m \<and> p = charge_port m \<and> s = charge_supplier m"
  show ?case
  proof (cases "(\<not> left_safe_mode m \<and> p = CHARGE_PORT_NONE) \<or> ?stay")
    case True
    then show ?thesis using b by auto
  next
    case go: False
    show ?thesis
    proof (cases "port_accepted env p")
      case True
      let ?m = "cm_emit Board_Check_Extpower (cm_emit (Board_Set_Active_Port p) m)"
      have "charge_manager_get_best_port env ?m = charge_manager_get_best_port env m"
        by (simp add: cm_emit_def best_port_effects)
      moreover have "same_but_offers m ?m" using cm_emit_same same_but_offers_trans by blast
      ultimately show ?thesis using go b True by auto
    next
      case False
      then have "p \<noteq> CHARGE_PORT_NONE" using assms by auto
      have live: "p \<in> live_ports env m"
        using b go Suc.prems(1) \<open>p \<noteq> CHARGE_PORT_NONE\<close> by (rule_tac best_port_cases) auto
      let ?m = "clear_port p (cm_emit (Board_Set_Active_Port p) m)"
      have same: "same_but_offers m ?m"
        unfolding clear_port_def using cm_emit_same set_available_same same_but_offers_trans by blast
      have "card (live_ports env ?m) < n" using live_clear [OF live] Suc.prems(2) by (meson less_Suc_eq_le less_le_trans)
      then obtain m' r where h: "hunt n env ?m = Some (m', r)" "same_but_offers ?m m'"
        "case r of None \<Rightarrow> \<not> left_safe_mode ?m
         | Some (p, s) \<Rightarrow> charge_manager_get_best_port env m' = (p, s) \<and>
           (port_accepted env p \<or> p = charge_port ?m \<and> s = charge_supplier ?m)"
        using Suc.IH [of ?m] Suc.prems(1) same_but_offers_fields [OF same] by auto
      have "hunt (Suc n) env m = hunt n env ?m" using go False b \<open>p \<noteq> CHARGE_PORT_NONE\<close> by auto
      then show ?thesis using h same_but_offers_trans [OF same h(2)] same_but_offers_fields [OF same]
        by (auto split: option.splits)
    qed
  qed
qed simp

subsection \<open>What a refresh sets\<close>

definition eff :: "charge_mgr \<Rightarrow> charge_mgr \<Rightarrow> bool" where
  "eff m m' \<longleftrightarrow> (\<exists>e. m' = m\<lparr>effects := e\<rparr>)"

lemma eff_refl: "eff m m"
  unfolding eff_def by (rule exI [of _ "effects m"]) simp

lemma eff_emit: "eff m m' \<Longrightarrow> eff m (cm_emit x m')"
  by (auto simp: eff_def cm_emit_def)

lemma eff_switch: "eff m m' \<Longrightarrow> eff m (charge_manager_switch_to_source env p m')"
  by (simp add: charge_manager_switch_to_source_def eff_emit)

lemma eff_request: "eff m m' \<Longrightarrow> eff m (request_new_power env p m')"
  by (simp add: request_new_power_def eff_emit Let_def)

lemma eff_if: "eff m m' \<Longrightarrow> eff m m'' \<Longrightarrow> eff m (if c then m' else m'')"
  by simp

lemmas eff_intros = eff_refl eff_emit eff_switch eff_request eff_if

lemma refresh_apply_fields:
  assumes "refresh_apply env p s m = m'" and "new_charge env m p s = (current, uncapped, voltage)"
  shows "charge_port m' = p" and "charge_supplier m' = s" and "charge_current m' = current"
    and "charge_current_uncapped m' = uncapped" and "charge_voltage m' = voltage"
    and "charge_pd_current_uncapped m' = (if s = CHARGE_SUPPLIER_PD then uncapped else CHARGE_CURRENT_UNINITIALIZED)"
    and "override_port m' = (if 0 \<le> override_port m \<and> override_port m \<noteq> p then OVERRIDE_OFF else override_port m)"
    and "available_charge m' = available_charge m" and "charge_ceil m' = charge_ceil m"
    and "left_safe_mode m' = left_safe_mode m" and "active_charge_port_initialized m'"
proof -
  define m2 where "m2 = refresh_override p m"
  have m2: "left_safe_mode m2 = left_safe_mode m" "available_charge m2 = available_charge m"
    "charge_ceil m2 = charge_ceil m" "active_charge_port_initialized m2"
    "override_port m2 = (if 0 \<le> override_port m \<and> override_port m \<noteq> p then OVERRIDE_OFF else override_port m)"
    by (simp_all add: m2_def refresh_override_def Let_def)
  then have "charge_manager_get_ceil env m2 p = charge_manager_get_ceil env m p"
    by (simp add: charge_manager_get_ceil_def)
  then have "new_charge env m2 p s = new_charge env m p s" by (simp only: new_charge_def m2)
  then have nc: "new_charge env (refresh_override p m) p s = (current, uncapped, voltage)"
    using assms(2) by (simp add: m2_def)
  define m3 where "m3 = m2\<lparr>charge_pd_current_uncapped := (if s = CHARGE_SUPPLIER_PD then uncapped else CHARGE_CURRENT_UNINITIALIZED)\<rparr>"
  obtain changed new_updated m4 m5 old_updated where m4: "m4 = refresh_limit changed p s current uncapped voltage m3"
    and m5: "refresh_old_port env p m4 = (m5, old_updated)"
    and fin: "m' = refresh_notify env changed new_updated old_updated
      (m5\<lparr>charge_current := current, charge_current_uncapped := uncapped,
        charge_voltage := voltage, charge_supplier := s, charge_port := p\<rparr>)"
    using assms(1) unfolding refresh_apply_def m3_def m2_def
    by (simp only: Let_def nc prod.case split: prod.splits) blast
  have "eff m3 m4" unfolding m4 refresh_limit_def by (intro eff_intros)
  then have "eff m3 m5" using m5 by (auto simp: refresh_old_port_def eff_switch split: if_splits)
  then obtain e where e: "m5 = m3\<lparr>effects := e\<rparr>" by (auto simp: eff_def)
  let ?m6 = "m5\<lparr>charge_current := current, charge_current_uncapped := uncapped,
    charge_voltage := voltage, charge_supplier := s, charge_port := p\<rparr>"
  have "eff ?m6 m'" unfolding fin refresh_notify_def Let_def by (intro eff_intros)
  then obtain e' where m': "m' = ?m6\<lparr>effects := e'\<rparr>" by (auto simp: eff_def)
  show "charge_port m' = p" "charge_supplier m' = s" "charge_current m' = current"
    "charge_current_uncapped m' = uncapped" "charge_voltage m' = voltage" by (simp_all add: m')
  show "charge_pd_current_uncapped m' = (if s = CHARGE_SUPPLIER_PD then uncapped else CHARGE_CURRENT_UNINITIALIZED)"
    by (simp add: m' e m3_def)
  show "override_port m' = (if 0 \<le> override_port m \<and> override_port m \<noteq> p then OVERRIDE_OFF else override_port m)"
    "available_charge m' = available_charge m" "charge_ceil m' = charge_ceil m"
    "left_safe_mode m' = left_safe_mode m" "active_charge_port_initialized m'"
    by (simp_all add: m' e m3_def m2)
qed

text \<open>
  C23: A refresh returns, on an acceptable port. If the board accepts \<open>CHARGE_PORT_NONE\<close>
  and an active port was set by a refresh, the hunt ends within one round per charge port and one
  more, since each refused port loses its offers. Out of safe mode, the port and supplier then
  recorded are the best under the offers that are left, and the port was accepted by the board or
  was already active; the override is gone unless its port is charging.
\<close>

theorem cm_refresh_returns:
  assumes "port_accepted env CHARGE_PORT_NONE" and "charge_port m \<noteq> CHARGE_PORT_NONE \<longrightarrow> active_charge_port_initialized m"
    and "nat (CHARGE_PORT_COUNT env) < n"
  shows "\<exists>m' m1. charge_manager_refresh n env m = Some m' \<and> same_but_offers m m1 \<and>
    (left_safe_mode m \<longrightarrow> available_charge m' = available_charge m1 \<and>
      charge_manager_get_best_port env m1 = (charge_port m', charge_supplier m') \<and>
      (port_accepted env (charge_port m') \<or> charge_port m' = charge_port m) \<and>
      (0 \<le> override_port m' \<longrightarrow> override_port m' = charge_port m'))"
proof -
  have "live_ports env m \<subseteq> set (charge_ports env)" by (auto simp: live_ports_def)
  then have "card (live_ports env m) \<le> nat (CHARGE_PORT_COUNT env)"
    using card_mono [of "set (charge_ports env)" "live_ports env m"] by (simp add: charge_ports_def)
  then obtain m1 r where h: "hunt n env m = Some (m1, r)" "same_but_offers m m1"
    "case r of None \<Rightarrow> \<not> left_safe_mode m
     | Some (p, s) \<Rightarrow> charge_manager_get_best_port env m1 = (p, s) \<and>
         (port_accepted env p \<or> p = charge_port m \<and> s = charge_supplier m)"
    using hunt_result [OF assms(1,2), of n] assms(3) by auto
  show ?thesis
  proof (cases r)
    case None
    then show ?thesis using h by (auto simp: charge_manager_refresh_def)
  next
    case (Some ps)
    obtain p s where ps: "ps = (p, s)" by (cases ps)
    obtain c u v where nc: "new_charge env m1 p s = (c, u, v)" by (cases "new_charge env m1 p s") auto
    note f = refresh_apply_fields [OF refl nc]
    have "charge_manager_refresh n env m = Some (refresh_apply env p s m1)"
      using h(1) Some ps by (simp add: charge_manager_refresh_def)
    then show ?thesis using h(2,3) Some ps f(1,2,7,8) by (intro exI conjI) (auto simp: OVERRIDE_OFF_def)
  qed
qed

theorem cm_refresh_returns_witness: "\<exists>m'. charge_manager_refresh 4 cm_demo_env demo_mgr = Some m'"
proof -
  have a: "port_accepted cm_demo_env CHARGE_PORT_NONE" by code_simp
  have b: "charge_port demo_mgr \<noteq> CHARGE_PORT_NONE \<longrightarrow> active_charge_port_initialized demo_mgr" by code_simp
  have c: "nat (CHARGE_PORT_COUNT cm_demo_env) < 4" by code_simp
  show ?thesis using cm_refresh_returns [OF a b c] by blast
qed

lemma hunt_same:
  "hunt n env m = Some (m', r) \<Longrightarrow> same_but_offers m m' \<and> (r = None \<longrightarrow> \<not> left_safe_mode m)"
proof (induction n arbitrary: m)
  case (Suc n)
  obtain p s where b: "charge_manager_get_best_port env m = (p, s)" by (cases "charge_manager_get_best_port env m")
  let ?m = "clear_port p (cm_emit (Board_Set_Active_Port p) m)"
  have same: "same_but_offers m ?m"
    unfolding clear_port_def using cm_emit_same set_available_same same_but_offers_trans by blast
  have acc: "same_but_offers m (cm_emit Board_Check_Extpower (cm_emit (Board_Set_Active_Port p) m))"
    using cm_emit_same same_but_offers_trans by blast
  have "same_but_offers m m' \<and> (r = None \<longrightarrow> \<not> left_safe_mode m)" if "hunt n env ?m = Some (m', r)"
    using Suc.IH [OF that] same_but_offers_trans [OF same] same_but_offers_fields(3) [OF same] by simp
  then show ?case using Suc.prems b acc by (auto simp: Let_def split: if_splits)
qed simp

text \<open>
  C24: A refresh enforces every ceiling. After a refresh that chose a supplier out of safe mode,
  the recorded charge current is at most the current the supplier offers on the port and at most
  every ceiling set for the port, equals one of them, and the uncapped current and the voltage
  are the supplier's; only a PD supplier's current is recorded as the PD limit.
\<close>

theorem cm_refresh_limits:
  assumes "charge_manager_refresh n env m = Some m'" and "left_safe_mode m"
    and "is_valid_port env (charge_port m')" and "charge_supplier m' \<noteq> CHARGE_SUPPLIER_NONE"
  shows "charge_current_uncapped m' = cur_ma (available_charge m' (charge_supplier m') (charge_port m')) \<and>
    charge_voltage m' = vol_mv (available_charge m' (charge_supplier m') (charge_port m')) \<and>
    charge_current m' \<le> charge_current_uncapped m' \<and>
    (\<forall>r. charge_ceil m' (charge_port m') r \<noteq> CHARGE_CEIL_NONE \<longrightarrow>
      charge_current m' \<le> charge_ceil m' (charge_port m') r) \<and>
    (charge_current m' = charge_current_uncapped m' \<or>
      charge_current m' = charge_manager_get_ceil env m' (charge_port m')) \<and>
    charge_pd_current_uncapped m' = (if charge_supplier m' = CHARGE_SUPPLIER_PD then charge_current_uncapped m'
      else CHARGE_CURRENT_UNINITIALIZED)"
proof -
  obtain m1 p s where h: "hunt n env m = Some (m1, Some (p, s))" "m' = refresh_apply env p s m1" "left_safe_mode m1"
    using assms(1,2) hunt_same [of n env m] same_but_offers_fields(3)
    by (fastforce simp: charge_manager_refresh_def split: option.splits)
  obtain c u v where nc: "new_charge env m1 p s = (c, u, v)" by (cases "new_charge env m1 p s") auto
  note f = refresh_apply_fields [OF h(2) [symmetric] nc]
  have val: "is_valid_port env p" "s \<noteq> CHARGE_SUPPLIER_NONE" using assms(3,4) f(1,2) by simp_all
  have ceil: "charge_manager_get_ceil env m1 p = charge_manager_get_ceil env m' p"
    by (simp add: charge_manager_get_ceil_def f(9))
  show ?thesis using nc val h(3) get_ceil_min [OF val(1), of m'] f
    by (auto simp: new_charge_def ceil Let_def split: if_splits)
qed

theorem cm_refresh_limits_witness:
  "case charge_manager_refresh 4 cm_demo_env demo_mgr of None \<Rightarrow> False
   | Some m' \<Rightarrow> charge_port m' = 0 \<and> charge_current m' \<le> 2000"
proof -
  obtain m' where m': "charge_manager_refresh 4 cm_demo_env demo_mgr = Some m'"
    and f: "charge_port m' = 0" "charge_supplier m' = CHARGE_SUPPLIER_PD" "charge_ceil m' 0 CEIL_REQUESTOR_HOST = 2000"
  proof -
    have "case charge_manager_refresh 4 cm_demo_env demo_mgr of None \<Rightarrow> False
      | Some m' \<Rightarrow> charge_port m' = 0 \<and> charge_supplier m' = CHARGE_SUPPLIER_PD \<and>
          charge_ceil m' 0 CEIL_REQUESTOR_HOST = 2000" by code_simp
    then show ?thesis by (auto split: option.splits intro: that)
  qed
  have l: "left_safe_mode demo_mgr" by (simp add: demo_mgr_def)
  have v: "is_valid_port cm_demo_env (charge_port m')" unfolding f(1) by code_simp
  have n: "charge_supplier m' \<noteq> CHARGE_SUPPLIER_NONE" unfolding f(2) by code_simp
  have "charge_ceil m' (charge_port m') CEIL_REQUESTOR_HOST \<noteq> CHARGE_CEIL_NONE"
    by (simp add: f CHARGE_CEIL_NONE_def)
  then have "charge_current m' \<le> 2000" using cm_refresh_limits [OF m' l v n] f by metis
  then show ?thesis using m' f(1) by simp
qed

end
