(* ===== verification/ChargeManagerOffers.thy ===== *)
theory ChargeManagerOffers
  imports ChargeManagerProps
begin

section \<open>What reports and changes do to the offers of the charge manager\<close>

text \<open>
  The effect of a change on the table of offers, the exclusion between the type-C suppliers of a
  port, and the arrays read by the report of a port.
\<close>

lemma set_available_at:
  "available_charge (set_available s p c m) i j = (if i = s \<and> j = p then c else available_charge m i j)"
  by (simp add: set_available_def)

lemma is_seeded_available: "available_charge (fst (charge_manager_is_seeded env m)) = available_charge m"
  by (simp add: charge_manager_is_seeded_def)

lemma refresh_if_seeded_available: "available_charge (refresh_if_seeded env m) = available_charge m"
  using is_seeded_available [of env m] by (auto simp: refresh_if_seeded_def cm_emit_def split: prod.splits)

lemma set_override_available: "available_charge (fst (charge_manager_set_override env p m)) = available_charge m"
  by (simp add: charge_manager_set_override_def refresh_if_seeded_available cm_emit_def)

lemma drop_override_available: "available_charge (drop_override b p m) = available_charge m"
  by (simp add: drop_override_def cm_emit_def Let_def)

lemma record_charge_available:
  "available_charge (record_charge env s p c m) i j = (if i = s \<and> j = p then c else available_charge m i j)"
  by (simp add: record_charge_def Let_def set_override_available cm_emit_def set_available_def)

lemma update_charge_available:
  "available_charge (charge_manager_update_charge env s p c m) i j =
     (if is_valid_port env p \<and> i = s \<and> j = p
      then (case c of None \<Rightarrow> \<lparr>cur_ma = 0, vol_mv = 0\<rparr> | Some c \<Rightarrow> c) else available_charge m i j)"
proof -
  let ?c = "case c of None \<Rightarrow> \<lparr>cur_ma = 0, vol_mv = 0\<rparr> | Some c \<Rightarrow> c"
  show ?thesis
  proof (cases "change_affects CHANGE_CHARGE s p ?c m")
    case None
    then have "cur_ma (available_charge m s p) = cur_ma ?c" "vol_mv (available_charge m s p) = vol_mv ?c"
      by (auto simp: change_affects_def split: if_splits)
    then have "available_charge m s p = ?c" by simp
    then show ?thesis using None
      by (simp add: charge_manager_update_charge_def charge_manager_make_change_def)
  next
    case (Some b)
    then show ?thesis
      by (simp add: charge_manager_update_charge_def charge_manager_make_change_def Let_def
          refresh_if_seeded_available record_charge_available drop_override_available)
  qed
qed

lemma typec_charge_supplier: "typec_charge a v = (s, c) \<Longrightarrow> s \<in> set typec_suppliers"
  by (auto simp: typec_charge_def typec_suppliers_def Let_def split: if_splits)

text \<open>
  A port has one type-C supplier. A type-C advertisement on a valid port leaves exactly the
  supplier chosen by its accessory bit and current with the advertised charge on that port and
  zeroes the other type-C suppliers there; every other offer, and on an invalid port every offer,
  is unchanged.
\<close>

lemma cm_typec_exclusive:
  assumes "typec_charge max_ma supply_voltage = (supplier, charge)"
  shows "available_charge (typec_set_input_current_limit env port max_ma supply_voltage m) i j =
    (if is_valid_port env port \<and> j = port
     then (if i = supplier then charge
           else if i \<in> set typec_suppliers then \<lparr>cur_ma = 0, vol_mv = 0\<rparr> else available_charge m i j)
     else available_charge m i j)"
proof -
  have "supplier \<in> set typec_suppliers" by (rule typec_charge_supplier [OF assms])
  then show ?thesis
    by (auto simp: typec_set_input_current_limit_def assms typec_suppliers_def update_charge_available
        CHARGE_SUPPLIER_TYPEC_def CHARGE_SUPPLIER_TYPEC_DTS_def CHARGE_SUPPLIER_TYPEC_UNDER_1_5A_def)
qed

lemma cm_typec_exclusive_witness:
  "available_charge (typec_set_input_current_limit cm_demo_env 1 900 5000 demo_mgr) CHARGE_SUPPLIER_TYPEC 1
     = \<lparr>cur_ma = 0, vol_mv = 0\<rparr>"
proof -
  have c: "typec_charge 900 5000 = (CHARGE_SUPPLIER_TYPEC_UNDER_1_5A, \<lparr>cur_ma = 900, vol_mv = 5000\<rparr>)" by code_simp
  have v: "is_valid_port cm_demo_env 1" by code_simp
  show ?thesis unfolding cm_typec_exclusive [OF c]
    by (simp add: v typec_suppliers_def CHARGE_SUPPLIER_TYPEC_def CHARGE_SUPPLIER_TYPEC_UNDER_1_5A_def)
qed

text \<open>
  Asking for the charging port reads outside the array when nothing charges. The power report
  reads within its arrays exactly unless it asks for the charging port while there is none: the
  bound is only checked from above, and \<open>dualrole_capability[-1]\<close> is read.
\<close>

lemma cm_power_info_out_of_bounds:
  assumes "0 \<le> CHARGE_PORT_COUNT env" and "CHARGE_PORT_NONE \<le> charge_port m"
  shows "hc_pd_power_info env p_port m r = None \<longleftrightarrow>
    p_port = PD_POWER_CHARGING_PORT \<and> charge_port m = CHARGE_PORT_NONE"
proof -
  have "uint p_port \<ge> 0" by simp
  moreover have "charge_manager_fill_power_info env m p r = None \<longleftrightarrow> p < 0 \<or> CHARGE_PORT_COUNT env \<le> p" for p
    by (simp add: charge_manager_fill_power_info_def Let_def split: prod.splits)
  ultimately show ?thesis using assms by (auto simp: hc_pd_power_info_def CHARGE_PORT_NONE_def Let_def)
qed

lemma cm_power_info_out_of_bounds_witness:
  "hc_pd_power_info cm_demo_env 0xff demo_mgr
     \<lparr>pi_role = USB_PD_PORT_POWER_SINK, pi_type = USB_CHG_TYPE_NONE, pi_dualrole = False, pi_voltage_max = 0,
      pi_voltage_now = 0, pi_current_max = 0, pi_current_lim = 0, pi_max_power = 0\<rparr> = None"
proof -
  have a: "0 \<le> CHARGE_PORT_COUNT cm_demo_env" "CHARGE_PORT_NONE \<le> charge_port demo_mgr" by code_simp+
  have b: "charge_port demo_mgr = CHARGE_PORT_NONE" by code_simp
  show ?thesis using cm_power_info_out_of_bounds [OF a] b by (simp add: PD_POWER_CHARGING_PORT_def)
qed

text \<open>
  The search prefers the port of dynamic PDO selection among PD offers only: an offer of a dedicated
  supplier, of a higher priority and later in the search, replaces it.
\<close>

lemma cm_dps_port_overtaken:
  "charge_manager_get_best_port (cm_demo_env\<lparr>dps_port := 0\<rparr>)
     (set_available CHARGE_SUPPLIER_DEDICATED 2 \<lparr>cur_ma = 1000, vol_mv = 5000\<rparr> demo_mgr) =
   (2, CHARGE_SUPPLIER_DEDICATED)"
  by code_simp

end
