(* ===== verification/ChargeRamp.thy ===== *)
theory ChargeRamp
  imports ChargeManager
begin

section \<open>The charge ramp, common/charge_ramp_sw.c and common/charge_ramp.c\<close>

text \<open>
  A charger of unknown strength is tried with rising input currents until its voltage sags or it
  switches off. The record \<open>ramp\<close> holds the statics of the file and the locals of the task that
  outlive a round of its loop; the arrays have one entry per PD port, and an access outside them is
  \<open>None\<close>. Currents are integers. One reading of the clock serves a call. The board, the battery, the
  BC1.2 driver (\<open>CONFIG_USB_CHARGER\<close>) and the clock are the record \<open>ramp_env\<close>, one for each
  call; what the task does to the board is in \<open>ramp_effects\<close>, the newest first. Printing and PD
  logging are left out.
\<close>

subsection \<open>State\<close>

definition RAMP_COUNT :: nat where "RAMP_COUNT = 3"
definition SECOND_US :: int where "SECOND_US = 1000000"
definition OC_RECOVER_MAX_TIME :: u64 where "OC_RECOVER_MAX_TIME = 1000000"
definition CURRENT_DRAW_DELAY :: int where "CURRENT_DRAW_DELAY = 5 * SECOND_US"
definition RAMP_CURR_INCR_MA :: int where "RAMP_CURR_INCR_MA = 64"
definition RAMP_CURR_DELAY :: int where "RAMP_CURR_DELAY = 500000"
definition RAMP_CURR_START_MA :: int where "RAMP_CURR_START_MA = 500"
definition RAMP_ICL_BACKOFF :: int where "RAMP_ICL_BACKOFF = 2 * RAMP_CURR_INCR_MA"
definition STABLE_VBUS_MONITOR_INTERVAL :: int where "STABLE_VBUS_MONITOR_INTERVAL = SECOND_US"
definition STABLIZE_DELAY :: int where "STABLIZE_DELAY = 5 * SECOND_US"

datatype chg_ramp_state =
    CHG_RAMP_DISCONNECTED
  | CHG_RAMP_CHARGE_DETECT_DELAY
  | CHG_RAMP_OVERCURRENT_DETECT
  | CHG_RAMP_RAMP
  | CHG_RAMP_STABILIZE
  | CHG_RAMP_STABLE

datatype chg_ramp_vbus_state = CHG_RAMP_VBUS_RAMPING | CHG_RAMP_VBUS_STABLE

record oc_info =
  oc_ts :: u64
  oc_detected :: bool
  oc_sup :: int
  oc_icl :: int

datatype ramp_effect =
    Ramp_Set_Limit int int int int
  | Ramp_Wake
  | Ramp_Power_Change
  | Ramp_Sleep int
  | Ramp_Wait int

record ramp =
  ramp_st :: chg_ramp_state
  oc_infos :: "oc_info list list"
  oc_info_idx :: "nat list"
  active_port :: int
  active_sup :: int
  active_icl :: int
  active_vtg :: int
  reg_time :: u64
  stablize_port :: int
  stablize_sup :: int
  max_icl :: int
  min_icl :: int
  task_wait_time :: int
  detect_end_time_us :: u64
  last_active_port :: int
  ramp_st_prev :: chg_ramp_state
  ramp_effects :: "ramp_effect list"

record ramp_env =
  ramp_ro_locked :: bool
  bc12_ramp_allowed :: "int \<Rightarrow> int \<Rightarrow> bool"
  bc12_ramp_max :: "int \<Rightarrow> int \<Rightarrow> int \<Rightarrow> int"
  full_input_current :: bool
  vbus_too_low :: "int \<Rightarrow> chg_ramp_vbus_state \<Rightarrow> bool"
  ramp_now :: u64

definition ramp_emit :: "ramp_effect \<Rightarrow> ramp \<Rightarrow> ramp" where
  "ramp_emit e s = s\<lparr>ramp_effects := e # ramp_effects s\<rparr>"

subsection \<open>Who may ramp\<close>

definition chg_ramp_allowed :: "ramp_env \<Rightarrow> int \<Rightarrow> int \<Rightarrow> bool" where
  "chg_ramp_allowed env port supplier =
     (if ramp_ro_locked env then False
      else if supplier = CHARGE_SUPPLIER_TYPEC_DTS then True
      else if supplier \<in> {CHARGE_SUPPLIER_PD, CHARGE_SUPPLIER_TYPEC} then False
      else bc12_ramp_allowed env port supplier)"

definition chg_ramp_max :: "ramp_env \<Rightarrow> int \<Rightarrow> int \<Rightarrow> int \<Rightarrow> int" where
  "chg_ramp_max env port supplier sup_curr =
     (if supplier \<in> {CHARGE_SUPPLIER_PD, CHARGE_SUPPLIER_TYPEC} then 0
      else if supplier = CHARGE_SUPPLIER_TYPEC_DTS then sup_curr
      else bc12_ramp_max env port supplier sup_curr)"

subsection \<open>The record of over-currents\<close>

definition oc_get :: "ramp \<Rightarrow> int \<Rightarrow> nat \<Rightarrow> oc_info option" where
  "oc_get s port i = do { row \<leftarrow> load (oc_infos s) (nat port); load row i }"

definition oc_put :: "int \<Rightarrow> nat \<Rightarrow> (oc_info \<Rightarrow> oc_info) \<Rightarrow> ramp \<Rightarrow> ramp option" where
  "oc_put port i f s =
     do { row \<leftarrow> load (oc_infos s) (nat port);
          x \<leftarrow> load row i;
          Some (s\<lparr>oc_infos := (oc_infos s)[nat port := row[i := f x]]\<rparr>) }"

text \<open>\<open>ACTIVE_OC_INFO\<close>\<close>

definition active_oc :: "ramp \<Rightarrow> oc_info option" where
  "active_oc s = (if active_port s < 0 then None else do { i \<leftarrow> load (oc_info_idx s) (nat (active_port s)); oc_get s (active_port s) i })"

definition put_active_oc :: "(oc_info \<Rightarrow> oc_info) \<Rightarrow> ramp \<Rightarrow> ramp option" where
  "put_active_oc f s =
     (if active_port s < 0 then None
      else do { i \<leftarrow> load (oc_info_idx s) (nat (active_port s)); oc_put (active_port s) i f s })"

text \<open>The last active port was left: this may have been an over-current.\<close>

definition record_oc :: "u64 \<Rightarrow> ramp \<Rightarrow> ramp option" where
  "record_oc now s =
     (if active_port s < 0 then None
      else do {
        i \<leftarrow> load (oc_info_idx s) (nat (active_port s));
        put_active_oc (\<lambda>x. x\<lparr>oc_ts := now, oc_sup := active_sup s, oc_icl := active_icl s\<rparr>)
          (s\<lparr>oc_info_idx := (oc_info_idx s)[nat (active_port s) := if i = RAMP_COUNT - 1 then 0 else i + 1]\<rparr>)
      })"

subsection \<open>A change of the supplier\<close>

definition chg_ramp_charge_supplier_change :: "ramp_env \<Rightarrow> int \<Rightarrow> int \<Rightarrow> int \<Rightarrow> u64 \<Rightarrow> int \<Rightarrow> ramp \<Rightarrow> ramp option" where
  "chg_ramp_charge_supplier_change env port supplier current registered voltage s0 =
     do {
       s \<leftarrow> (if active_port s0 \<noteq> CHARGE_PORT_NONE \<and> port \<noteq> active_port s0 then record_oc (ramp_now env) s0 else Some s0);
       let s1 = s\<lparr>active_port := port, active_sup := supplier, active_vtg := voltage\<rparr>;
       let s2 = (if chg_ramp_allowed env port supplier
                 then s1\<lparr>min_icl := RAMP_CURR_START_MA, max_icl := chg_ramp_max env port supplier current\<rparr>
                 else s1\<lparr>min_icl := current, max_icl := current\<rparr>);
       let s3 = s2\<lparr>reg_time := registered\<rparr>;
       Some (if ramp_st s3 \<noteq> CHG_RAMP_STABILIZE
             then ramp_emit Ramp_Wake
                    (s3\<lparr>ramp_st := if port = CHARGE_PORT_NONE then CHG_RAMP_DISCONNECTED else CHG_RAMP_CHARGE_DETECT_DELAY\<rparr>)
             else s3)
     }"

definition chg_ramp_get_current_limit :: "ramp \<Rightarrow> int" where
  "chg_ramp_get_current_limit s =
     (if ramp_st s \<in> {CHG_RAMP_RAMP, CHG_RAMP_STABILIZE, CHG_RAMP_STABLE} then active_icl s else min_icl s)"

definition chg_ramp_is_detected :: "ramp \<Rightarrow> bool" where
  "chg_ramp_is_detected s \<longleftrightarrow> ramp_st s \<notin> {CHG_RAMP_DISCONNECTED, CHG_RAMP_CHARGE_DETECT_DELAY}"

definition chg_ramp_is_stable :: "ramp \<Rightarrow> bool" where
  "chg_ramp_is_stable s \<longleftrightarrow> ramp_st s = CHG_RAMP_STABLE"

subsection \<open>The states of the task\<close>

text \<open>A state gives the new state of the machine and the new \<open>active_icl\<close>.\<close>

type_synonym ramp_next = "ramp \<times> chg_ramp_state \<times> int"

definition oc_threshold_found :: "ramp \<Rightarrow> bool option" where
  "oc_threshold_found s =
     do { row \<leftarrow> (if active_port s < 0 then None else load (oc_infos s) (nat (active_port s)));
          Some (list_all (\<lambda>x. oc_sup x = active_sup s \<and> oc_detected x) row) }"

definition ramp_overcurrent_detect :: "ramp_env \<Rightarrow> ramp \<Rightarrow> ramp_next option" where
  "ramp_overcurrent_detect env s0 =
     (let s = s0\<lparr>task_wait_time := SECOND_US\<rparr>
      in if \<not> chg_ramp_allowed env (active_port s) (active_sup s) then Some (s, CHG_RAMP_STABLE, min_icl s)
         else if \<not> full_input_current env
         then Some (s\<lparr>task_wait_time := CURRENT_DRAW_DELAY\<rparr>, CHG_RAMP_OVERCURRENT_DETECT, active_icl s)
         else do {
           found \<leftarrow> oc_threshold_found s;
           (if found then do { x \<leftarrow> active_oc s; Some (s, CHG_RAMP_STABLE, oc_icl x - RAMP_ICL_BACKOFF) }
            else Some (s, CHG_RAMP_RAMP, min_icl s))
         })"

definition ramp_detect_delay :: "ramp_env \<Rightarrow> ramp \<Rightarrow> ramp_next option" where
  "ramp_detect_delay env s =
     (if ramp_st_prev s \<noteq> ramp_st s \<or> active_port s \<noteq> last_active_port s then do {
        let s1 = s\<lparr>last_active_port := active_port s\<rparr>;
        x \<leftarrow> active_oc s1;
        s2 \<leftarrow> (if reg_time s1 < oc_ts x + OC_RECOVER_MAX_TIME then put_active_oc (\<lambda>x. x\<lparr>oc_detected := True\<rparr>) s1
               else Some (s1\<lparr>oc_infos := (oc_infos s1)[nat (active_port s1) :=
                              map (\<lambda>x. x\<lparr>oc_detected := False\<rparr>) (oc_infos s1 ! nat (active_port s1))]\<rparr>));
        Some (s2\<lparr>detect_end_time_us := ramp_now env + word_of_int CHARGE_DETECT_DELAY, task_wait_time := CHARGE_DETECT_DELAY\<rparr>,
              CHG_RAMP_CHARGE_DETECT_DELAY, active_icl s2)
      }
      else if ramp_now env < detect_end_time_us s
      then Some (s\<lparr>task_wait_time := sint (ucast (detect_end_time_us s - ramp_now env) :: u32)\<rparr>, CHG_RAMP_CHARGE_DETECT_DELAY, active_icl s)
      else ramp_overcurrent_detect env (ramp_emit Ramp_Power_Change s))"

definition ramp_ramp :: "ramp_env \<Rightarrow> ramp \<Rightarrow> ramp_next" where
  "ramp_ramp env s0 =
     (let s = s0\<lparr>task_wait_time := RAMP_CURR_DELAY\<rparr>
      in if \<not> full_input_current env then (s\<lparr>task_wait_time := CURRENT_DRAW_DELAY\<rparr>, CHG_RAMP_RAMP, active_icl s)
         else if vbus_too_low env (active_port s) CHG_RAMP_VBUS_RAMPING
         then (s\<lparr>task_wait_time := STABLIZE_DELAY, stablize_port := active_port s, stablize_sup := active_sup s\<rparr>,
               CHG_RAMP_STABILIZE, max (min_icl s) (active_icl s - RAMP_ICL_BACKOFF))
         else if active_icl s = max_icl s then (s, CHG_RAMP_STABLE, active_icl s)
         else if max_icl s < active_icl s + RAMP_CURR_INCR_MA then (s, CHG_RAMP_RAMP, max_icl s)
         else (s, CHG_RAMP_RAMP, active_icl s + RAMP_CURR_INCR_MA))"

definition ramp_stabilize :: "ramp \<Rightarrow> ramp_next" where
  "ramp_stabilize s =
     (s\<lparr>task_wait_time := SECOND_US\<rparr>,
      if active_port s = stablize_port s \<and> active_sup s = stablize_sup s then CHG_RAMP_STABLE
      else if active_port s = CHARGE_PORT_NONE then CHG_RAMP_DISCONNECTED else CHG_RAMP_CHARGE_DETECT_DELAY,
      active_icl s)"

definition ramp_stable :: "ramp_env \<Rightarrow> ramp \<Rightarrow> ramp_next" where
  "ramp_stable env s0 =
     (let s = (if ramp_st_prev s0 \<noteq> ramp_st s0 then ramp_emit Ramp_Power_Change s0 else s0)
                \<lparr>task_wait_time := STABLE_VBUS_MONITOR_INTERVAL\<rparr>
      in if chg_ramp_allowed env (active_port s) (active_sup s) \<and> vbus_too_low env (active_port s) CHG_RAMP_VBUS_STABLE
         then (s\<lparr>max_icl := max (min_icl s) (max_icl s - RAMP_ICL_BACKOFF)\<rparr>, CHG_RAMP_RAMP, min_icl s)
         else (s, CHG_RAMP_STABLE, active_icl s))"

definition ramp_state_run :: "ramp_env \<Rightarrow> ramp \<Rightarrow> ramp_next option" where
  "ramp_state_run env s =
     (case ramp_st s of
        CHG_RAMP_DISCONNECTED \<Rightarrow> Some (s\<lparr>task_wait_time := -1\<rparr>, CHG_RAMP_DISCONNECTED, active_icl s)
      | CHG_RAMP_CHARGE_DETECT_DELAY \<Rightarrow> ramp_detect_delay env s
      | CHG_RAMP_OVERCURRENT_DETECT \<Rightarrow> ramp_overcurrent_detect env s
      | CHG_RAMP_RAMP \<Rightarrow> Some (ramp_ramp env s)
      | CHG_RAMP_STABILIZE \<Rightarrow> Some (ramp_stabilize s)
      | CHG_RAMP_STABLE \<Rightarrow> Some (ramp_stable env s))"

text \<open>
  One round of the loop of the task: the state is run, then the new state and limit are stored and the
  board is told. Another task may call \<open>chg_ramp_charge_supplier_change\<close> between the two.
\<close>

definition ramp_commit :: "ramp_next \<Rightarrow> ramp" where
  "ramp_commit r =
     (let (s1, ramp_st_new, active_icl_new) = r;
          s2 = s1\<lparr>ramp_st_prev := ramp_st s1, ramp_st := ramp_st_new, active_icl := active_icl_new\<rparr>;
          s3 = (if ramp_st_prev s2 \<noteq> CHG_RAMP_STABLE \<or> ramp_st s2 \<noteq> CHG_RAMP_STABLE
                then ramp_emit (Ramp_Set_Limit (active_port s2) (active_sup s2) (chg_ramp_get_current_limit s2) (active_vtg s2)) s2
                else s2)
      in ramp_emit (if ramp_st s3 = CHG_RAMP_STABILIZE then Ramp_Sleep (task_wait_time s3) else Ramp_Wait (task_wait_time s3)) s3)"

text \<open>
  A round of the task that nothing interrupts. The charge manager can run between its two halves,
  \<open>ramp_state_run\<close> and \<open>ramp_commit\<close>, and the change it makes is then lost (\<open>change_lost_in_round\<close>);
  what is proved of rounds is about changes between them.
\<close>

definition chg_ramp_round :: "ramp_env \<Rightarrow> ramp \<Rightarrow> ramp option" where
  "chg_ramp_round env s = map_option ramp_commit (ramp_state_run env s)"

text \<open>The start of the task.\<close>

definition chg_ramp_start :: "nat \<Rightarrow> ramp \<Rightarrow> ramp" where
  "chg_ramp_start ports s =
     s\<lparr>oc_infos := map (\<lambda>row. row[0 := (row ! 0)\<lparr>oc_sup := CHARGE_SUPPLIER_NONE\<rparr>]) (take ports (oc_infos s)) @ drop ports (oc_infos s),
       task_wait_time := -1, detect_end_time_us := 0, last_active_port := CHARGE_PORT_NONE,
       ramp_st_prev := CHG_RAMP_DISCONNECTED\<rparr>"

end
