(* ===== verification/ChargeRampProps.thy ===== *)
theory ChargeRampProps
  imports ChargeRamp
begin

section \<open>Correctness of the charge ramp\<close>

text \<open>
  Two results: whatever the charge manager and the rounds of the task do, no array of the ramp is
  read or written outside its bounds and the current tried stays between the limits of the charger;
  and for a charger whose voltage sags from some current on, the ramp settles below that current and
  within two back-offs of it. Three runs at the end show where the limits are not kept.
\<close>

subsection \<open>Runs\<close>

definition ramp_boot :: "nat \<Rightarrow> ramp" where
  "ramp_boot n = chg_ramp_start n
     \<lparr>ramp_st = CHG_RAMP_DISCONNECTED,
      oc_infos = replicate n (replicate RAMP_COUNT \<lparr>oc_ts = 0, oc_detected = False, oc_sup = 0, oc_icl = 0\<rparr>),
      oc_info_idx = replicate n 0, active_port = CHARGE_PORT_NONE, active_sup = 0, active_icl = 0,
      active_vtg = 0, reg_time = 0, stablize_port = 0, stablize_sup = 0, max_icl = 0, min_icl = 0,
      task_wait_time = -1, detect_end_time_us = 0, last_active_port = CHARGE_PORT_NONE,
      ramp_st_prev = CHG_RAMP_DISCONNECTED, ramp_effects = []\<rparr>"

datatype ramp_step =
    Ramp_Change ramp_env int int int u64 int
  | Ramp_Round ramp_env

fun do_ramp_step :: "ramp_step \<Rightarrow> ramp \<Rightarrow> ramp option" where
  "do_ramp_step (Ramp_Change env port sp cur t vtg) s = chg_ramp_charge_supplier_change env port sp cur t vtg s"
| "do_ramp_step (Ramp_Round env) s = chg_ramp_round env s"

fun ramp_run :: "ramp_step list \<Rightarrow> ramp \<Rightarrow> ramp option" where
  "ramp_run [] s = Some s"
| "ramp_run (x # xs) s = do { s1 \<leftarrow> do_ramp_step x s; ramp_run xs s1 }"

fun names_port :: "nat \<Rightarrow> ramp_step \<Rightarrow> bool" where
  "names_port n (Ramp_Change env port sp cur t vtg) = (-1 \<le> port \<and> port < int n)"
| "names_port n (Ramp_Round env) = True"

subsection \<open>The invariant\<close>

definition between_limits :: "ramp \<Rightarrow> int \<Rightarrow> bool" where
  "between_limits s i \<longleftrightarrow> min (min_icl s) (max_icl s) \<le> i \<and> i \<le> max (min_icl s) (max_icl s)"

definition ramp_arrays :: "nat \<Rightarrow> ramp \<Rightarrow> bool" where
  "ramp_arrays n s \<longleftrightarrow> length (oc_infos s) = n \<and> list_all (\<lambda>row. length row = RAMP_COUNT) (oc_infos s)
     \<and> length (oc_info_idx s) = n \<and> list_all (\<lambda>i. i < RAMP_COUNT) (oc_info_idx s)
     \<and> -1 \<le> active_port s \<and> active_port s < int n"

definition ramp_wf :: "nat \<Rightarrow> ramp \<Rightarrow> bool" where
  "ramp_wf n s \<longleftrightarrow> ramp_arrays n s
     \<and> (ramp_st s = CHG_RAMP_DISCONNECTED \<longrightarrow> active_port s = CHARGE_PORT_NONE)
     \<and> (active_port s = CHARGE_PORT_NONE \<longrightarrow> ramp_st s \<in> {CHG_RAMP_DISCONNECTED, CHG_RAMP_STABILIZE})
     \<and> (ramp_st s = CHG_RAMP_STABILIZE \<longrightarrow> stablize_port s \<noteq> CHARGE_PORT_NONE)
     \<and> (ramp_st s = CHG_RAMP_RAMP \<longrightarrow> between_limits s (active_icl s))"

lemma ramp_arrays_row:
  assumes "ramp_arrays n s" and "0 \<le> active_port s"
  shows "nat (active_port s) < length (oc_infos s)" and "nat (active_port s) < length (oc_info_idx s)"
    and "length (oc_infos s ! nat (active_port s)) = RAMP_COUNT" and "oc_info_idx s ! nat (active_port s) < RAMP_COUNT"
  using assms by (auto simp: ramp_arrays_def list_all_length)

lemma active_oc_exists:
  assumes "ramp_arrays n s" and "0 \<le> active_port s"
  shows "\<exists>x. active_oc s = Some x"
  using ramp_arrays_row [OF assms] assms(2) by (simp add: active_oc_def oc_get_def load_def)

lemma put_active_oc_exists:
  assumes "ramp_arrays n s" and "0 \<le> active_port s"
  shows "\<exists>s1. put_active_oc f s = Some s1 \<and> ramp_arrays n s1
           \<and> (\<exists>infos. s1 = s\<lparr>oc_infos := infos\<rparr>)"
  using ramp_arrays_row [OF assms] assms
  by (auto simp: put_active_oc_def oc_put_def load_def ramp_arrays_def list_all_length nth_list_update)

lemma record_oc_exists:
  assumes "ramp_arrays n s" and "0 \<le> active_port s"
  shows "\<exists>s1. record_oc now s = Some s1 \<and> ramp_arrays n s1
           \<and> (\<exists>infos idx. s1 = s\<lparr>oc_info_idx := idx, oc_infos := infos\<rparr>)"
proof -
  let ?p = "nat (active_port s)"
  let ?s = "s\<lparr>oc_info_idx := (oc_info_idx s)[?p := if oc_info_idx s ! ?p = RAMP_COUNT - 1 then 0 else oc_info_idx s ! ?p + 1]\<rparr>"
  have a: "ramp_arrays n ?s"
    using assms ramp_arrays_row [OF assms] by (auto simp: ramp_arrays_def list_all_length nth_list_update RAMP_COUNT_def)
  obtain s1 infos where "put_active_oc (\<lambda>x. x\<lparr>oc_ts := now, oc_sup := active_sup s, oc_icl := active_icl s\<rparr>) ?s = Some s1"
      "ramp_arrays n s1" "s1 = ?s\<lparr>oc_infos := infos\<rparr>"
    using put_active_oc_exists [OF a] assms(2) by fastforce
  then show ?thesis
    using assms(2) ramp_arrays_row [OF assms] by (auto simp: record_oc_def load_def)
qed

lemma change_wf:
  assumes "ramp_wf n s" and "-1 \<le> port" and "port < int n"
  shows "\<exists>s1. chg_ramp_charge_supplier_change env port sp cur t vtg s = Some s1 \<and> ramp_wf n s1"
proof -
  have a: "ramp_arrays n s" using assms(1) by (simp add: ramp_wf_def)
  have "\<exists>s1. (if active_port s \<noteq> CHARGE_PORT_NONE \<and> port \<noteq> active_port s then record_oc (ramp_now env) s else Some s) = Some s1
          \<and> ramp_arrays n s1 \<and> (\<exists>infos idx. s1 = s\<lparr>oc_info_idx := idx, oc_infos := infos\<rparr>)"
  proof (cases "active_port s \<noteq> CHARGE_PORT_NONE \<and> port \<noteq> active_port s")
    case True
    then have "0 \<le> active_port s" using a by (auto simp: ramp_arrays_def CHARGE_PORT_NONE_def)
    from record_oc_exists [OF a this] True show ?thesis by auto
  next
    case False
    have "s = s\<lparr>oc_info_idx := oc_info_idx s, oc_infos := oc_infos s\<rparr>" by simp
    then have "\<exists>infos idx. s = s\<lparr>oc_info_idx := idx, oc_infos := infos\<rparr>" by (intro exI)
    then show ?thesis using False a by auto
  qed
  then obtain infos idx where
    r: "(if active_port s \<noteq> CHARGE_PORT_NONE \<and> port \<noteq> active_port s then record_oc (ramp_now env) s else Some s)
          = Some (s\<lparr>oc_info_idx := idx, oc_infos := infos\<rparr>)"
    and b: "ramp_arrays n (s\<lparr>oc_info_idx := idx, oc_infos := infos\<rparr>)" by auto
  show ?thesis
    unfolding chg_ramp_charge_supplier_change_def r Let_def
    using b assms by (auto simp: ramp_wf_def ramp_arrays_def ramp_emit_def)
qed

lemma detect_delay_exists:
  assumes "ramp_arrays n s" and "0 \<le> active_port s"
  shows "\<exists>r. ramp_overcurrent_detect env s = Some r
           \<and> (\<exists>w. fst r = s\<lparr>task_wait_time := w\<rparr>)
           \<and> (fst (snd r) \<in> {CHG_RAMP_STABLE, CHG_RAMP_OVERCURRENT_DETECT} \<or> fst (snd r) = CHG_RAMP_RAMP \<and> snd (snd r) = min_icl s)"
proof -
  have a: "ramp_arrays n (s\<lparr>task_wait_time := SECOND_US\<rparr>)" using assms(1) by (simp add: ramp_arrays_def)
  obtain x where x: "active_oc (s\<lparr>task_wait_time := SECOND_US\<rparr>) = Some x"
    using active_oc_exists [OF a] assms(2) by auto
  show ?thesis
    using assms(2) ramp_arrays_row [OF assms] x
    by (auto simp: ramp_overcurrent_detect_def oc_threshold_found_def load_def Let_def)
qed

text \<open>What a state other than the limits and the sleeping state changes.\<close>

definition same_place :: "ramp \<Rightarrow> ramp \<Rightarrow> bool" where
  "same_place s s1 \<longleftrightarrow> active_port s1 = active_port s \<and> min_icl s1 = min_icl s"

lemma state_run_wf:
  assumes "ramp_wf n s"
  shows "\<exists>s1 st icl. ramp_state_run env s = Some (s1, st, icl) \<and> ramp_arrays n s1 \<and> same_place s s1
           \<and> (st = CHG_RAMP_DISCONNECTED \<longrightarrow> active_port s = CHARGE_PORT_NONE)
           \<and> (active_port s = CHARGE_PORT_NONE \<longrightarrow> st = CHG_RAMP_DISCONNECTED)
           \<and> (st = CHG_RAMP_STABILIZE \<longrightarrow> stablize_port s1 \<noteq> CHARGE_PORT_NONE)
           \<and> (st = CHG_RAMP_RAMP \<longrightarrow> between_limits s1 icl)"
proof -
  have a: "ramp_arrays n s" using assms by (simp add: ramp_wf_def)
  show ?thesis
  proof (cases "ramp_st s")
    case CHG_RAMP_DISCONNECTED
    then show ?thesis using assms a
      by (simp add: ramp_state_run_def ramp_wf_def same_place_def) (simp add: ramp_arrays_def)
  next
    case CHG_RAMP_CHARGE_DETECT_DELAY
    then have p: "active_port s \<noteq> CHARGE_PORT_NONE" "0 \<le> active_port s"
      using assms by (auto simp: ramp_wf_def ramp_arrays_def CHARGE_PORT_NONE_def)
    let ?s1 = "s\<lparr>last_active_port := active_port s\<rparr>"
    have a1: "ramp_arrays n ?s1" using a by (simp add: ramp_arrays_def)
    obtain x where x: "active_oc ?s1 = Some x" using active_oc_exists [OF a1] p(2) by auto
    obtain infos where pu: "put_active_oc (\<lambda>x. x\<lparr>oc_detected := True\<rparr>) ?s1 = Some (?s1\<lparr>oc_infos := infos\<rparr>)"
        and pa: "ramp_arrays n (?s1\<lparr>oc_infos := infos\<rparr>)"
      using put_active_oc_exists [OF a1] p(2) by force
    have cl: "ramp_arrays n (?s1\<lparr>oc_infos := (oc_infos s)[nat (active_port s) :=
                 map (\<lambda>x. x\<lparr>oc_detected := False\<rparr>) (oc_infos s ! nat (active_port s))]\<rparr>)"
      using a1 ramp_arrays_row [OF a p(2)] by (auto simp: ramp_arrays_def list_all_length nth_list_update)
    have e: "ramp_arrays n (ramp_emit Ramp_Power_Change s)" "0 \<le> active_port (ramp_emit Ramp_Power_Change s)"
      using a p(2) by (simp_all add: ramp_emit_def ramp_arrays_def)
    obtain r w where "ramp_overcurrent_detect env (ramp_emit Ramp_Power_Change s) = Some r"
        "fst r = (ramp_emit Ramp_Power_Change s)\<lparr>task_wait_time := w\<rparr>"
        "fst (snd r) \<in> {CHG_RAMP_STABLE, CHG_RAMP_OVERCURRENT_DETECT}
           \<or> fst (snd r) = CHG_RAMP_RAMP \<and> snd (snd r) = min_icl (ramp_emit Ramp_Power_Change s)"
      using detect_delay_exists [OF e] by blast
    note o = this
    consider (entry) "ramp_st_prev s \<noteq> ramp_st s \<or> active_port s \<noteq> last_active_port s"
      | (wait) "ramp_st_prev s = ramp_st s" "active_port s = last_active_port s" "ramp_now env < detect_end_time_us s"
      | (over) "ramp_st_prev s = ramp_st s" "active_port s = last_active_port s" "\<not> ramp_now env < detect_end_time_us s"
      by blast
    then show ?thesis
    proof cases
      case entry
      then show ?thesis
        using CHG_RAMP_CHARGE_DETECT_DELAY p x pu pa cl
        by (auto simp: ramp_state_run_def ramp_detect_delay_def same_place_def Let_def ramp_arrays_def)
    next
      case wait
      then show ?thesis
        using CHG_RAMP_CHARGE_DETECT_DELAY p a
        by (simp add: ramp_state_run_def ramp_detect_delay_def same_place_def ramp_arrays_def)
    next
      case over
      then show ?thesis
        using CHG_RAMP_CHARGE_DETECT_DELAY p a o
        by (cases r) (auto simp: ramp_state_run_def ramp_detect_delay_def same_place_def ramp_emit_def between_limits_def ramp_arrays_def)
    qed
  next
    case CHG_RAMP_OVERCURRENT_DETECT
    then have p: "active_port s \<noteq> CHARGE_PORT_NONE" "0 \<le> active_port s"
      using assms by (auto simp: ramp_wf_def ramp_arrays_def CHARGE_PORT_NONE_def)
    obtain r w where "ramp_overcurrent_detect env s = Some r" "fst r = s\<lparr>task_wait_time := w\<rparr>"
        "fst (snd r) \<in> {CHG_RAMP_STABLE, CHG_RAMP_OVERCURRENT_DETECT} \<or> fst (snd r) = CHG_RAMP_RAMP \<and> snd (snd r) = min_icl s"
      using detect_delay_exists [OF a p(2)] by blast
    then show ?thesis
      using CHG_RAMP_OVERCURRENT_DETECT p a
      by (cases r) (auto simp: ramp_state_run_def same_place_def between_limits_def ramp_arrays_def)
  next
    case CHG_RAMP_RAMP
    then have "active_port s \<noteq> CHARGE_PORT_NONE" "between_limits s (active_icl s)"
      using assms by (auto simp: ramp_wf_def)
    then show ?thesis
      using CHG_RAMP_RAMP a
      by (auto simp: ramp_state_run_def ramp_ramp_def same_place_def between_limits_def ramp_arrays_def Let_def RAMP_CURR_INCR_MA_def)
  next
    case CHG_RAMP_STABILIZE
    then show ?thesis
      using assms a by (auto simp: ramp_state_run_def ramp_stabilize_def same_place_def ramp_wf_def ramp_arrays_def)
  next
    case CHG_RAMP_STABLE
    then have "active_port s \<noteq> CHARGE_PORT_NONE" using assms by (auto simp: ramp_wf_def)
    then show ?thesis
      using CHG_RAMP_STABLE a
      by (auto simp: ramp_state_run_def ramp_stable_def same_place_def between_limits_def ramp_arrays_def ramp_emit_def Let_def)
  qed
qed

lemma commit_fields [simp]:
  "ramp_st (ramp_commit (s, st, icl)) = st" "ramp_st_prev (ramp_commit (s, st, icl)) = ramp_st s"
  "active_icl (ramp_commit (s, st, icl)) = icl" "active_port (ramp_commit (s, st, icl)) = active_port s"
  "min_icl (ramp_commit (s, st, icl)) = min_icl s" "max_icl (ramp_commit (s, st, icl)) = max_icl s"
  "oc_infos (ramp_commit (s, st, icl)) = oc_infos s" "oc_info_idx (ramp_commit (s, st, icl)) = oc_info_idx s"
  "stablize_port (ramp_commit (s, st, icl)) = stablize_port s" "stablize_sup (ramp_commit (s, st, icl)) = stablize_sup s"
  "active_sup (ramp_commit (s, st, icl)) = active_sup s"
  by (simp_all add: ramp_commit_def ramp_emit_def Let_def)

lemma round_wf:
  assumes "ramp_wf n s"
  shows "\<exists>s1. chg_ramp_round env s = Some s1 \<and> ramp_wf n s1"
proof -
  obtain s1 st icl where r: "ramp_state_run env s = Some (s1, st, icl)" "ramp_arrays n s1" "same_place s s1"
      "st = CHG_RAMP_DISCONNECTED \<longrightarrow> active_port s = CHARGE_PORT_NONE"
      "active_port s = CHARGE_PORT_NONE \<longrightarrow> st = CHG_RAMP_DISCONNECTED"
      "st = CHG_RAMP_STABILIZE \<longrightarrow> stablize_port s1 \<noteq> CHARGE_PORT_NONE"
      "st = CHG_RAMP_RAMP \<longrightarrow> between_limits s1 icl"
    using state_run_wf [OF assms, of env] by blast
  then have "ramp_wf n (ramp_commit (s1, st, icl))"
    by (simp add: ramp_wf_def ramp_arrays_def same_place_def between_limits_def)
  then show ?thesis using r(1) by (simp add: chg_ramp_round_def)
qed

lemma step_wf:
  assumes "ramp_wf n s" and "names_port n x"
  shows "\<exists>s1. do_ramp_step x s = Some s1 \<and> ramp_wf n s1"
  using assms change_wf round_wf by (cases x) auto

lemma run_wf: "ramp_wf n s \<Longrightarrow> list_all (names_port n) xs \<Longrightarrow> \<exists>s1. ramp_run xs s = Some s1 \<and> ramp_wf n s1"
proof (induction xs arbitrary: s)
  case (Cons x xs)
  from Cons.prems step_wf [of n s x] obtain s1 where "do_ramp_step x s = Some s1" "ramp_wf n s1" by auto
  then show ?case using Cons by simp
qed simp

lemma boot_wf: "ramp_wf n (ramp_boot n)"
  by (auto simp: ramp_wf_def ramp_arrays_def ramp_boot_def chg_ramp_start_def list_all_length CHARGE_PORT_NONE_def RAMP_COUNT_def nth_append)

text \<open>
  C26: For every sequence of supplier changes on the ports of the ramp and rounds of its task, the changes
  falling between the rounds (a change inside a round is lost, \<open>change_lost_in_round\<close> below), with any
  answers of the board, the battery and the clock, no array is accessed outside its bounds; the task is
  idle exactly if no port is active (save in the stabilize state, which ends by itself), and while it
  ramps, the limit lies between the limits of the charger.
\<close>
theorem ramp_run_safe:
  assumes "list_all (names_port n) xs"
  shows "\<exists>s. ramp_run xs (ramp_boot n) = Some s \<and> ramp_wf n s"
  using run_wf [OF boot_wf assms] .

definition ramp_env0 :: "u64 \<Rightarrow> bool \<Rightarrow> ramp_env" where
  "ramp_env0 now low = \<lparr>ramp_ro_locked = False, bc12_ramp_allowed = \<lambda>port sp. True,
     bc12_ramp_max = \<lambda>port sp cur. cur, full_input_current = True,
     vbus_too_low = \<lambda>port st. low, ramp_now = now\<rparr>"

theorem ramp_run_safe_witness:
  "\<exists>s. ramp_run [Ramp_Change (ramp_env0 0 False) 1 CHARGE_SUPPLIER_BC12_DCP 2000 0 5000, Ramp_Round (ramp_env0 0 False),
      Ramp_Round (ramp_env0 2000000 False), Ramp_Round (ramp_env0 2500000 True),
      Ramp_Change (ramp_env0 0 False) (-1) CHARGE_SUPPLIER_NONE 0 0 0, Ramp_Round (ramp_env0 3000000 False)] (ramp_boot 2) = Some s
      \<and> ramp_wf 2 s"
  by (rule ramp_run_safe) simp

subsection \<open>The limit is found\<close>

text \<open>A charger whose voltage sags as soon as \<open>v\<close> mA are drawn, and a system that draws all it may.\<close>

definition charger :: "int \<Rightarrow> ramp_env \<Rightarrow> ramp \<Rightarrow> ramp_env" where
  "charger v env s = env\<lparr>full_input_current := True, vbus_too_low := \<lambda>port st. v \<le> active_icl s\<rparr>"

fun ramp_rounds :: "(ramp \<Rightarrow> ramp_env) \<Rightarrow> nat \<Rightarrow> ramp \<Rightarrow> ramp option" where
  "ramp_rounds f 0 s = Some s"
| "ramp_rounds f (Suc k) s = do { s1 \<leftarrow> chg_ramp_round (f s) s; ramp_rounds f k s1 }"

text \<open>The limit the board was told last.\<close>

fun limit_told :: "ramp_effect list \<Rightarrow> int option" where
  "limit_told [] = None"
| "limit_told (e # es) = (case e of Ramp_Set_Limit port sp lim vtg \<Rightarrow> Some lim | _ \<Rightarrow> limit_told es)"

lemma ramp_rounds_add: "ramp_rounds f (j + k) s = Option.bind (ramp_rounds f j s) (ramp_rounds f k)"
proof (induction j arbitrary: s)
  case (Suc j)
  then show ?case by (cases "chg_ramp_round (f s) s") simp_all
qed simp

lemma commit_told:
  "ramp_st s \<noteq> CHG_RAMP_STABLE \<Longrightarrow> st \<in> {CHG_RAMP_RAMP, CHG_RAMP_STABILIZE, CHG_RAMP_STABLE}
     \<Longrightarrow> limit_told (ramp_effects (ramp_commit (s, st, icl))) = Some icl"
  by (auto simp: ramp_commit_def ramp_emit_def Let_def chg_ramp_get_current_limit_def)

lemma commit_told_stable:
  "ramp_st s = CHG_RAMP_STABLE \<Longrightarrow> limit_told (ramp_effects (ramp_commit (s, CHG_RAMP_STABLE, icl))) = limit_told (ramp_effects s)"
  by (auto simp: ramp_commit_def ramp_emit_def Let_def)

definition settled :: "int \<Rightarrow> int \<Rightarrow> ramp \<Rightarrow> bool" where
  "settled v lim s \<longleftrightarrow> ramp_st s = CHG_RAMP_STABLE \<and> active_icl s = lim \<and> lim < v \<and> limit_told (ramp_effects s) = Some lim"

lemma settled_step:
  assumes "settled v lim s"
  shows "\<exists>s1. chg_ramp_round (charger v env s) s = Some s1 \<and> settled v lim s1"
  using assms
  by (auto simp: settled_def chg_ramp_round_def ramp_state_run_def ramp_stable_def charger_def Let_def ramp_emit_def
      commit_told_stable)

lemma settled_stays:
  "settled v lim s \<Longrightarrow> \<exists>s1. ramp_rounds (charger v env) k s = Some s1 \<and> settled v lim s1"
proof (induction k arbitrary: s)
  case (Suc k)
  from settled_step [OF Suc.prems] obtain s1 where "chg_ramp_round (charger v env s) s = Some s1" "settled v lim s1" by blast
  then show ?case using Suc.IH by simp
qed simp

lemma sagged_settles:
  assumes "ramp_st s = CHG_RAMP_RAMP" and "v \<le> active_icl s" and "min_icl s < v" and "active_icl s < v + RAMP_CURR_INCR_MA"
  shows "\<exists>s1. ramp_rounds (charger v env) 2 s = Some s1 \<and> settled v (max (min_icl s) (active_icl s - RAMP_ICL_BACKOFF)) s1"
proof -
  let ?s1 = "ramp_commit (ramp_ramp (charger v env s) s)"
  have 1: "chg_ramp_round (charger v env s) s = Some ?s1"
    using assms(1) by (simp add: chg_ramp_round_def ramp_state_run_def)
  have r: "ramp_ramp (charger v env s) s =
      (s\<lparr>task_wait_time := STABLIZE_DELAY, stablize_port := active_port s, stablize_sup := active_sup s\<rparr>,
       CHG_RAMP_STABILIZE, max (min_icl s) (active_icl s - RAMP_ICL_BACKOFF))"
    using assms(2) by (simp add: ramp_ramp_def charger_def Let_def)
  let ?s2 = "ramp_commit (ramp_stabilize ?s1)"
  have 2: "chg_ramp_round (charger v env ?s1) ?s1 = Some ?s2"
    unfolding r by (simp add: chg_ramp_round_def ramp_state_run_def)
  have "settled v (max (min_icl s) (active_icl s - RAMP_ICL_BACKOFF)) ?s2"
    unfolding r ramp_stabilize_def using assms(3,4)
    by (simp add: settled_def commit_told RAMP_ICL_BACKOFF_def RAMP_CURR_INCR_MA_def)
  then show ?thesis using 1 2 by (simp add: numeral_2_eq_2)
qed

lemma ramp_up:
  assumes "ramp_st s = CHG_RAMP_RAMP" and "active_icl s < v" and "active_icl s < max_icl s"
  shows "\<exists>s1. chg_ramp_round (charger v env s) s = Some s1 \<and> ramp_st s1 = CHG_RAMP_RAMP \<and> min_icl s1 = min_icl s
           \<and> max_icl s1 = max_icl s \<and> active_icl s1 = min (active_icl s + RAMP_CURR_INCR_MA) (max_icl s)"
  using assms by (auto simp: chg_ramp_round_def ramp_state_run_def ramp_ramp_def charger_def Let_def)

lemma ramp_top:
  assumes "ramp_st s = CHG_RAMP_RAMP" and "active_icl s < v" and "active_icl s = max_icl s"
  shows "\<exists>s1. chg_ramp_round (charger v env s) s = Some s1 \<and> settled v (max_icl s) s1"
  using assms by (auto simp: chg_ramp_round_def ramp_state_run_def ramp_ramp_def charger_def Let_def settled_def commit_told)

text \<open>The limit the ramp finds: the greatest, or less than two back-offs below the sagging current.\<close>

definition limit_found :: "int \<Rightarrow> int \<Rightarrow> int \<Rightarrow> int \<Rightarrow> bool" where
  "limit_found v lo hi lim \<longleftrightarrow> lim < v \<and> lo \<le> lim \<and> lim \<le> hi
     \<and> (if hi < v then lim = hi else lim = lo \<or> v - RAMP_ICL_BACKOFF \<le> lim)"

lemma ramp_settles:
  assumes "ramp_st s = CHG_RAMP_RAMP" and "min_icl s < v" and "min_icl s \<le> active_icl s" and "active_icl s \<le> max_icl s"
    and "active_icl s < v + RAMP_CURR_INCR_MA" and "max_icl s - active_icl s \<le> int n * RAMP_CURR_INCR_MA"
  shows "\<exists>k lim s1. k \<le> n + 2 \<and> ramp_rounds (charger v env) k s = Some s1 \<and> settled v lim s1
           \<and> limit_found v (min_icl s) (max_icl s) lim"
  using assms
proof (induction n arbitrary: s)
  case (Suc n)
  consider "v \<le> active_icl s" | "active_icl s < v" "active_icl s = max_icl s" | "active_icl s < v" "active_icl s < max_icl s"
    using Suc.prems(4) by linarith
  then show ?case
  proof cases
    case 1
    with sagged_settles [of s v env] Suc.prems show ?thesis
      by (intro exI [of _ "2 :: nat"] exI [of _ "max (min_icl s) (active_icl s - RAMP_ICL_BACKOFF)"])
         (auto simp: limit_found_def RAMP_ICL_BACKOFF_def RAMP_CURR_INCR_MA_def)
  next
    case 2
    with ramp_top [of s v env] Suc.prems show ?thesis
      by (intro exI [of _ "1 :: nat"]) (auto simp: limit_found_def)
  next
    case 3
    from ramp_up [OF Suc.prems(1) 3, of env] obtain s1 where
      s1: "chg_ramp_round (charger v env s) s = Some s1" "ramp_st s1 = CHG_RAMP_RAMP" "min_icl s1 = min_icl s"
        "max_icl s1 = max_icl s" "active_icl s1 = min (active_icl s + RAMP_CURR_INCR_MA) (max_icl s)" by blast
    have "\<exists>k lim s2. k \<le> n + 2 \<and> ramp_rounds (charger v env) k s1 = Some s2 \<and> settled v lim s2
            \<and> limit_found v (min_icl s1) (max_icl s1) lim"
      using Suc.prems 3 s1 by (intro Suc.IH) (auto simp: RAMP_CURR_INCR_MA_def)
    then obtain k lim s2 where "k \<le> n + 2" "ramp_rounds (charger v env) k s1 = Some s2" "settled v lim s2"
        "limit_found v (min_icl s) (max_icl s) lim" using s1 by auto
    then show ?thesis using s1(1) by (intro exI [of _ "Suc k"] exI [of _ lim] exI [of _ s2]) simp
  qed
next
  case 0
  then have "active_icl s = max_icl s" by simp
  with 0 show ?case
  proof (cases "v \<le> active_icl s")
    case True
    with sagged_settles [of s v env] 0 show ?thesis
      by (intro exI [of _ "2 :: nat"] exI [of _ "max (min_icl s) (active_icl s - RAMP_ICL_BACKOFF)"])
         (auto simp: limit_found_def RAMP_ICL_BACKOFF_def RAMP_CURR_INCR_MA_def)
  next
    case False
    with ramp_top [of s v env] 0 \<open>active_icl s = max_icl s\<close> show ?thesis
      by (intro exI [of _ "1 :: nat"]) (auto simp: limit_found_def)
  qed
qed

text \<open>
  C25: A charger that can take the least current but whose voltage sags from \<open>v\<close> mA on makes the ramp,
  started at the least current, come to rest: after one round for every 64 mA between the limits and
  three more, the task is in the stable state for good, the limit is below \<open>v\<close>, is the greatest
  allowed if the charger can take that, and otherwise lies within two back-off steps below \<open>v\<close> (or at the
  least); the board was told this limit.
\<close>
theorem ramp_finds_limit:
  assumes "ramp_st s = CHG_RAMP_RAMP" and "active_icl s = min_icl s" and "min_icl s \<le> max_icl s" and "min_icl s < v"
  shows "\<exists>lim. limit_found v (min_icl s) (max_icl s) lim
     \<and> (\<forall>k. nat ((max_icl s - min_icl s) div RAMP_CURR_INCR_MA) + 3 \<le> k
           \<longrightarrow> (\<exists>s1. ramp_rounds (charger v env) k s = Some s1 \<and> ramp_st s1 = CHG_RAMP_STABLE
                  \<and> active_icl s1 = lim \<and> limit_told (ramp_effects s1) = Some lim))"
proof -
  let ?n = "nat ((max_icl s - min_icl s) div RAMP_CURR_INCR_MA) + 1"
  have "max_icl s - active_icl s \<le> int ?n * RAMP_CURR_INCR_MA"
  proof -
    have "0 \<le> (max_icl s - min_icl s) div 64" using assms(3) by (simp add: pos_imp_zdiv_nonneg_iff)
    then have "int ?n = (max_icl s - min_icl s) div 64 + 1" by (simp add: RAMP_CURR_INCR_MA_def)
    then show ?thesis using assms(2) by (simp add: RAMP_CURR_INCR_MA_def)
  qed
  with ramp_settles [of s v ?n env] assms obtain j lim s1 where
    j: "j \<le> ?n + 2" "ramp_rounds (charger v env) j s = Some s1" "settled v lim s1" "limit_found v (min_icl s) (max_icl s) lim"
    by (auto simp: RAMP_CURR_INCR_MA_def)
  have "\<exists>s2. ramp_rounds (charger v env) k s = Some s2 \<and> settled v lim s2" if "?n + 2 \<le> k" for k
  proof -
    have "ramp_rounds (charger v env) (j + (k - j)) s = ramp_rounds (charger v env) (k - j) s1"
      using j(2) by (simp only: ramp_rounds_add) simp
    with settled_stays [OF j(3), of env "k - j"] that j(1) show ?thesis by simp
  qed
  then have "\<forall>k. nat ((max_icl s - min_icl s) div RAMP_CURR_INCR_MA) + 3 \<le> k
      \<longrightarrow> (\<exists>s2. ramp_rounds (charger v env) k s = Some s2 \<and> settled v lim s2)"
    by (simp add: add.commute)
  then show ?thesis using j(4) unfolding settled_def by blast
qed

definition ramp_example :: ramp where
  "ramp_example = (ramp_boot 1)\<lparr>ramp_st := CHG_RAMP_RAMP, active_port := 0, active_sup := CHARGE_SUPPLIER_BC12_DCP,
     active_icl := 500, min_icl := 500, max_icl := 3000\<rparr>"

theorem ramp_finds_limit_witness:
  "\<exists>lim. limit_found 1500 500 3000 lim
     \<and> (\<exists>s1. ramp_rounds (charger 1500 (ramp_env0 0 False)) 42 ramp_example = Some s1 \<and> active_icl s1 = lim)"
  using ramp_finds_limit [of ramp_example 1500 "ramp_env0 0 False"]
  by (auto simp: ramp_example_def RAMP_CURR_INCR_MA_def)

subsection \<open>Limits that are not kept\<close>

text \<open>
  A debug accessory that lowers its current while the ramp rests in the stabilize state is the same
  supplier on the same port: the limit found for the old current becomes stable, above the new one.
\<close>

lemma dts_lowered_in_stabilize:
  "map_option (\<lambda>s. (ramp_st s, max_icl s, limit_told (ramp_effects s)))
     (ramp_run ([Ramp_Change (ramp_env0 0 False) 0 CHARGE_SUPPLIER_TYPEC_DTS 3000 0 5000, Ramp_Round (ramp_env0 0 False)]
        @ replicate 20 (Ramp_Round (ramp_env0 2000000 False))
        @ [Ramp_Round (ramp_env0 2000000 True), Ramp_Change (ramp_env0 0 False) 0 CHARGE_SUPPLIER_TYPEC_DTS 1500 0 5000,
           Ramp_Round (ramp_env0 2000000 False)]) (ramp_boot 1))
   = Some (CHG_RAMP_STABLE, 1500, Some 1588)"
  by code_simp

text \<open>
  A port that is left before it ramped records the limit of the port used before it as the limit of the
  over-current. After three quick replugs this is taken for the limit of the charger, above its maximum.
\<close>

lemma stale_limit_recorded:
  "map_option (\<lambda>s. (ramp_st s, active_port s, max_icl s, limit_told (ramp_effects s)))
     (ramp_run
       ([Ramp_Change (ramp_env0 0 False) 0 CHARGE_SUPPLIER_BC12_DCP 2000 0 5000, Ramp_Round (ramp_env0 0 False)]
        @ replicate 27 (Ramp_Round (ramp_env0 2000000 False))
        @ concat (replicate 3
            [Ramp_Change (ramp_env0 20000000 False) 1 CHARGE_SUPPLIER_PROPRIETARY 1000 20000000 5000, Ramp_Round (ramp_env0 20000000 False),
             Ramp_Change (ramp_env0 20000000 False) (-1) CHARGE_SUPPLIER_NONE 0 20000000 0, Ramp_Round (ramp_env0 20000000 False)])
        @ [Ramp_Change (ramp_env0 20000000 False) 1 CHARGE_SUPPLIER_PROPRIETARY 1000 20000000 5000, Ramp_Round (ramp_env0 20000000 False),
           Ramp_Round (ramp_env0 22000000 False)]) (ramp_boot 2))
   = Some (CHG_RAMP_STABLE, 1, 1000, Some 1872)"
  by code_simp

text \<open>
  A supplier change between the evaluation of a state and its end is overwritten: the charger is gone, but
  the ramp goes on with its old limit, on no port.
\<close>

lemma change_lost_in_round:
  "map_option (\<lambda>s. (ramp_st s, active_port s, limit_told (ramp_effects s)))
     (do { s \<leftarrow> ramp_run [Ramp_Change (ramp_env0 0 False) 0 CHARGE_SUPPLIER_BC12_DCP 2000 0 5000, Ramp_Round (ramp_env0 0 False),
               Ramp_Round (ramp_env0 2000000 False)] (ramp_boot 1);
           (s1, st, icl) \<leftarrow> ramp_state_run (ramp_env0 2500000 False) s;
           s2 \<leftarrow> chg_ramp_charge_supplier_change (ramp_env0 2500000 False) (-1) CHARGE_SUPPLIER_NONE 0 0 0 s1;
           Some (ramp_commit (s2, st, icl)) })
   = Some (CHG_RAMP_RAMP, -1, Some 564)"
  by code_simp

end
