(* ===== verification/Pdo.thy ===== *)
theory Pdo
  imports ChargeManager
begin

section \<open>Power data objects, common/usb_pd_dual_role.c and common/usb_common.c\<close>

text \<open>
  What a sink asks of a source: the choice among the power data objects (PDO) the source offers, the
  power an object stands for, the request data object (RDO) built from the choice, and the check of
  the request on the side of the source. The constants of the board and the configuration
  (\<open>PD_MAX_VOLTAGE_MV\<close> \<dots>, \<open>CONFIG_USB_PD_ONLY_FIXED_PDOS\<close>, the preferred voltage,
  \<open>CONFIG_USB_PD_EPR\<close>) are the record \<open>pd_board\<close>; \<open>CONFIG_USB_PD_GIVE_BACK\<close> is not set.
  Objects are 32-bit words, voltages, currents and powers integers: all products fit an \<open>int\<close>.
  The charge manager, DPS and the policy engine answer through the record \<open>pd_request_env\<close>.
\<close>

subsection \<open>Fields of the objects\<close>

definition PDO_TYPE_FIXED :: u32 where "PDO_TYPE_FIXED = push_bit 30 0"
definition PDO_TYPE_BATTERY :: u32 where "PDO_TYPE_BATTERY = push_bit 30 1"
definition PDO_TYPE_VARIABLE :: u32 where "PDO_TYPE_VARIABLE = push_bit 30 2"
definition PDO_TYPE_AUGMENTED :: u32 where "PDO_TYPE_AUGMENTED = push_bit 30 3"
definition PDO_TYPE_MASK :: u32 where "PDO_TYPE_MASK = push_bit 30 3"
definition PDO_FIXED_COMM_CAP :: u32 where "PDO_FIXED_COMM_CAP = push_bit 26 1"

text \<open>\<open>(p >> off) & mask\<close>, as the unsigned number the macros multiply.\<close>

definition pdo_field :: "nat \<Rightarrow> u32 \<Rightarrow> u32 \<Rightarrow> int" where
  "pdo_field off m p = uint (drop_bit off p AND m)"

definition PDO_FIXED_VOLTAGE :: "u32 \<Rightarrow> int" where "PDO_FIXED_VOLTAGE p = pdo_field 10 0x3FF p * 50"
definition PDO_FIXED_CURRENT :: "u32 \<Rightarrow> int" where "PDO_FIXED_CURRENT p = pdo_field 0 0x3FF p * 10"
definition PDO_BATT_MAX_VOLTAGE :: "u32 \<Rightarrow> int" where "PDO_BATT_MAX_VOLTAGE p = pdo_field 20 0x3FF p * 50"
definition PDO_BATT_MIN_VOLTAGE :: "u32 \<Rightarrow> int" where "PDO_BATT_MIN_VOLTAGE p = pdo_field 10 0x3FF p * 50"
definition PDO_BATT_MAX_POWER :: "u32 \<Rightarrow> int" where "PDO_BATT_MAX_POWER p = pdo_field 0 0x3FF p * 250"
definition PDO_VAR_MAX_VOLTAGE :: "u32 \<Rightarrow> int" where "PDO_VAR_MAX_VOLTAGE p = pdo_field 20 0x3FF p * 50"
definition PDO_VAR_MIN_VOLTAGE :: "u32 \<Rightarrow> int" where "PDO_VAR_MIN_VOLTAGE p = pdo_field 10 0x3FF p * 50"
definition PDO_VAR_MAX_CURRENT :: "u32 \<Rightarrow> int" where "PDO_VAR_MAX_CURRENT p = pdo_field 0 0x3FF p * 10"
definition PDO_AUG_MAX_VOLTAGE :: "u32 \<Rightarrow> int" where "PDO_AUG_MAX_VOLTAGE p = pdo_field 17 0xFF p * 100"
definition PDO_AUG_MIN_VOLTAGE :: "u32 \<Rightarrow> int" where "PDO_AUG_MIN_VOLTAGE p = pdo_field 8 0xFF p * 100"
definition PDO_AUG_MAX_CURRENT :: "u32 \<Rightarrow> int" where "PDO_AUG_MAX_CURRENT p = pdo_field 0 0x7F p * 50"

text \<open>\<open>PDO_FIXED_GET_VOLT\<close> and \<open>PDO_FIXED_GET_CURR\<close>, used on objects of every type.\<close>

definition PDO_FIXED_GET_VOLT :: "u32 \<Rightarrow> int" where "PDO_FIXED_GET_VOLT p = pdo_field 10 0x3FF p * 50"
definition PDO_FIXED_GET_CURR :: "u32 \<Rightarrow> int" where "PDO_FIXED_GET_CURR p = pdo_field 0 0x3FF p * 10"

definition RDO_CAP_MISMATCH :: u32 where "RDO_CAP_MISMATCH = push_bit 26 1"
definition RDO_COMM_CAP :: u32 where "RDO_COMM_CAP = push_bit 25 1"
definition RDO_NO_SUSPEND :: u32 where "RDO_NO_SUSPEND = push_bit 24 1"
definition RDO_EPR_MODE_CAPABLE :: u32 where "RDO_EPR_MODE_CAPABLE = push_bit 22 1"
definition RDO_POS :: "u32 \<Rightarrow> int" where "RDO_POS r = pdo_field 28 0xF r"

definition rdo_fields :: "int \<Rightarrow> int \<Rightarrow> int \<Rightarrow> int \<Rightarrow> u32 \<Rightarrow> u32" where
  "rdo_fields units n op_val max_val flags =
     (push_bit 28 (word_of_int n AND 0xF) OR flags OR push_bit 10 (word_of_int (op_val div units) AND 0x3FF)
        OR (word_of_int (max_val div units) AND 0x3FF))"

definition RDO_FIXED :: "int \<Rightarrow> int \<Rightarrow> int \<Rightarrow> u32 \<Rightarrow> u32" where
  "RDO_FIXED n op_ma max_ma_val flags = rdo_fields 10 n op_ma max_ma_val flags"

definition RDO_BATT :: "int \<Rightarrow> int \<Rightarrow> int \<Rightarrow> u32 \<Rightarrow> u32" where
  "RDO_BATT n op_mw max_mw flags = rdo_fields 250 n op_mw max_mw flags"

definition VPD_VDO_MAX_VBUS :: "u32 \<Rightarrow> int" where "VPD_VDO_MAX_VBUS v = pdo_field 15 0x3 v"
definition VPD_VDO_VBUS_IMP :: "u32 \<Rightarrow> int" where "VPD_VDO_VBUS_IMP v = pdo_field 7 0x3F v"
definition VPD_VDO_GND_IMP :: "u32 \<Rightarrow> int" where "VPD_VDO_GND_IMP v = pdo_field 1 0x3F v"

definition PD_MAX_SPR_VOLTAGE :: int where "PD_MAX_SPR_VOLTAGE = 20000"

subsection \<open>The board\<close>

datatype pd_prefer_type = PD_PREFER_BUCK | PD_PREFER_BOOST

datatype pd_preference =
    Prefer_Power
  | PD_PREFER_LOW_VOLTAGE
  | PD_PREFER_HIGH_VOLTAGE
  | CONFIG_USB_PD_PREFER_MV pd_prefer_type int

record pd_board =
  PD_MAX_VOLTAGE_MV :: int
  PD_MAX_CURRENT_MA :: int
  PD_MAX_POWER_MW :: int
  PD_OPERATING_POWER_MW :: int
  ONLY_FIXED_PDOS :: bool
  pd_preference :: pd_preference
  PD_EPR :: bool
  pd_is_valid_input_voltage :: "int \<Rightarrow> bool"
  plt_plus_bat_desired_mw :: int

subsection \<open>The choice among the offers\<close>

text \<open>Power and voltage of an offer the board may use.\<close>

definition pdo_offer :: "pd_board \<Rightarrow> int \<Rightarrow> nat \<Rightarrow> u32 \<Rightarrow> (int \<times> int) option" where
  "pdo_offer b max_mv i pdo =
     (let mv = PDO_FIXED_GET_VOLT pdo
      in if ONLY_FIXED_PDOS b \<and> pdo AND PDO_TYPE_MASK \<noteq> PDO_TYPE_FIXED then None
         else if pdo AND PDO_TYPE_MASK = PDO_TYPE_AUGMENTED then None
         else if mv = 0 then None
         else if i < 7 \<and> PD_MAX_SPR_VOLTAGE < mv then None
         else if \<not> pd_is_valid_input_voltage b mv then None
         else let uw = (if pdo AND PDO_TYPE_MASK = PDO_TYPE_BATTERY then 250000 * pdo_field 0 0x3FF pdo
                        else min (PDO_FIXED_GET_CURR pdo) (PD_MAX_CURRENT_MA b) * mv)
              in if max_mv < mv then None
                 else Some (min uw (PD_MAX_POWER_MW b * 1000), mv))"

text \<open>Whether an offer displaces the current choice.\<close>

definition prefer_mv_cur :: "pd_prefer_type \<Rightarrow> int \<Rightarrow> int \<Rightarrow> int \<Rightarrow> int \<Rightarrow> int \<Rightarrow> int \<Rightarrow> bool" where
  "prefer_mv_cur ty prefer_mv desired_uw cur_uw cur_mv uw mv =
     (if desired_uw \<le> uw then
        (if cur_uw < desired_uw then True
         else if ty = PD_PREFER_BUCK
         then (if prefer_mv \<le> mv \<and> mv < cur_mv then True else cur_mv < prefer_mv \<and> cur_mv < mv)
         else (if mv \<le> prefer_mv \<and> cur_mv < mv then True else prefer_mv < cur_mv \<and> mv < cur_mv))
      else cur_uw = 0 \<or> cur_uw < uw)"

definition has_preferred_pdo :: "pd_board \<Rightarrow> int \<Rightarrow> int \<Rightarrow> int \<Rightarrow> int \<Rightarrow> bool" where
  "has_preferred_pdo b cur_uw cur_mv uw mv =
     (case pd_preference b of
        Prefer_Power \<Rightarrow> cur_uw < uw
      | PD_PREFER_LOW_VOLTAGE \<Rightarrow> uw = cur_uw \<and> mv < cur_mv \<or> cur_uw < uw
      | PD_PREFER_HIGH_VOLTAGE \<Rightarrow> uw = cur_uw \<and> cur_mv < mv \<or> cur_uw < uw
      | CONFIG_USB_PD_PREFER_MV ty prefer_mv \<Rightarrow>
          prefer_mv_cur ty prefer_mv (plt_plus_bat_desired_mw b * 1000) cur_uw cur_mv uw mv)"

fun pdo_loop :: "pd_board \<Rightarrow> int \<Rightarrow> nat \<Rightarrow> u32 list \<Rightarrow> nat \<times> int \<times> int \<Rightarrow> nat \<times> int \<times> int" where
  "pdo_loop b max_mv i [] cur = cur"
| "pdo_loop b max_mv i (pdo # pdos) (ret, cur_uw, cur_mv) =
     pdo_loop b max_mv (i + 1) pdos
       (case pdo_offer b max_mv i pdo of
          None \<Rightarrow> (ret, cur_uw, cur_mv)
        | Some (uw, mv) \<Rightarrow> if has_preferred_pdo b cur_uw cur_mv uw mv then (i, uw, mv) else (ret, cur_uw, cur_mv))"

text \<open>The index and the object; reading an object outside the array is \<open>None\<close>.\<close>

definition pd_find_pdo_index :: "pd_board \<Rightarrow> nat \<Rightarrow> u32 list \<Rightarrow> int \<Rightarrow> (nat \<times> u32) option" where
  "pd_find_pdo_index b src_cap_cnt src_caps max_mv =
     (if length src_caps < src_cap_cnt then None
      else let (ret, uw, mv) = pdo_loop b (min max_mv (PD_MAX_VOLTAGE_MV b)) 0 (take src_cap_cnt src_caps) (0, 0, 0)
           in do { pdo \<leftarrow> load src_caps ret; Some (ret, pdo) })"

subsection \<open>The power of an object\<close>

definition PROCESS_ZERO_DIVISOR :: "int \<Rightarrow> int" where
  "PROCESS_ZERO_DIVISOR x = (if x = 0 then 1 else x)"

definition pdo_voltages :: "u32 \<Rightarrow> int \<times> int" where
  "pdo_voltages pdo =
     (if pdo AND PDO_TYPE_MASK = PDO_TYPE_FIXED then (PDO_FIXED_VOLTAGE pdo, PDO_FIXED_VOLTAGE pdo)
      else if pdo AND PDO_TYPE_MASK = PDO_TYPE_AUGMENTED then (PDO_AUG_MAX_VOLTAGE pdo, PDO_AUG_MIN_VOLTAGE pdo)
      else if pdo AND PDO_TYPE_MASK = PDO_TYPE_VARIABLE then (PDO_VAR_MAX_VOLTAGE pdo, PDO_VAR_MIN_VOLTAGE pdo)
      else (PDO_BATT_MAX_VOLTAGE pdo, PDO_BATT_MIN_VOLTAGE pdo))"

definition pdo_current :: "u32 \<Rightarrow> int \<Rightarrow> int" where
  "pdo_current pdo min_mv =
     (if pdo AND PDO_TYPE_MASK = PDO_TYPE_FIXED then PDO_FIXED_CURRENT pdo
      else if pdo AND PDO_TYPE_MASK = PDO_TYPE_AUGMENTED then PDO_AUG_MAX_CURRENT pdo
      else if pdo AND PDO_TYPE_MASK = PDO_TYPE_VARIABLE then PDO_VAR_MAX_CURRENT pdo
      else 1000 * PDO_BATT_MAX_POWER pdo div PROCESS_ZERO_DIVISOR min_mv)"

text \<open>\<open>(ma, max_mv, min_mv)\<close>\<close>

definition pd_extract_pdo_power :: "pd_board \<Rightarrow> u32 \<Rightarrow> int \<times> int \<times> int" where
  "pd_extract_pdo_power b pdo =
     (let (max_mv, min_mv) = pdo_voltages pdo
      in if max_mv = 0 then (0, 0, 0)
         else (min (min (pdo_current pdo min_mv) (PD_MAX_POWER_MW b * 1000 div PROCESS_ZERO_DIVISOR min_mv))
                   (PD_MAX_CURRENT_MA b), max_mv, min_mv))"

subsection \<open>The request\<close>

datatype pd_power_role = PD_ROLE_SINK | PD_ROLE_SOURCE

record pd_request_env =
  pd_src_cap_cnt :: nat
  pd_src_caps :: "u32 list"
  selected_charge_port :: int
  pd_is_max_request_allowed :: bool
  pd_get_max_voltage :: int
  dps_dynamic_voltage :: "int option"
  own_fixed_pdo :: u32
  pd_get_power_role :: pd_power_role

definition max_request :: "pd_request_env \<Rightarrow> int" where
  "max_request env =
     (case dps_dynamic_voltage env of None \<Rightarrow> pd_get_max_voltage env | Some mv \<Rightarrow> min (pd_get_max_voltage env) mv)"

text \<open>The object the request is for, and its index.\<close>

definition request_pdo :: "pd_board \<Rightarrow> pd_request_env \<Rightarrow> int \<Rightarrow> (nat \<times> u32) option" where
  "request_pdo b env port =
     (if (selected_charge_port env = port \<or> selected_charge_port env = CHARGE_PORT_NONE) \<and> pd_is_max_request_allowed env
      then pd_find_pdo_index b (pd_src_cap_cnt env) (pd_src_caps env) (max_request env)
      else do { pdo \<leftarrow> load (pd_src_caps env) 0; Some (0, pdo) })"

text \<open>Current and voltage behind a charge-through VCONN powered device.\<close>

definition vpd_adjust :: "u32 \<Rightarrow> int \<times> int \<Rightarrow> int \<times> int" where
  "vpd_adjust vpd_vdo = (\<lambda>(ma, mv).
     if 0 < sint vpd_vdo
     then (750000 div ((if 3000 < ma then 150 else 250) + 2 * VPD_VDO_VBUS_IMP vpd_vdo + VPD_VDO_GND_IMP vpd_vdo),
           min mv (20000 + VPD_VDO_MAX_VBUS vpd_vdo * 10000))
     else (ma, mv))"

definition pd_get_usb_comm_capable :: "pd_request_env \<Rightarrow> bool" where
  "pd_get_usb_comm_capable env \<longleftrightarrow> own_fixed_pdo env AND PDO_FIXED_COMM_CAP \<noteq> 0"

text \<open>\<open>(rdo, ma, mv)\<close>\<close>

definition pd_build_request :: "pd_board \<Rightarrow> pd_request_env \<Rightarrow> u32 \<Rightarrow> int \<Rightarrow> (u32 \<times> int \<times> int) option" where
  "pd_build_request b env vpd_vdo port =
     do {
       (pdo_index, pdo) \<leftarrow> request_pdo b env port;
       let (ma0, mv0, min_mv) = pd_extract_pdo_power b pdo;
       let (ma, mv) = vpd_adjust vpd_vdo (ma0, mv0);
       let uw = ma * mv;
       let flags = (if uw < 1000 * PD_OPERATING_POWER_MW b then RDO_CAP_MISMATCH else 0)
                   OR (if PD_EPR b then RDO_EPR_MODE_CAPABLE else 0);
       let rdo = (if pdo AND PDO_TYPE_MASK = PDO_TYPE_BATTERY
                  then RDO_BATT (int pdo_index + 1) (uw div 1000) (uw div 1000) flags
                  else RDO_FIXED (int pdo_index + 1) ma ma flags);
       Some (if pd_get_usb_comm_capable env
             then rdo OR RDO_COMM_CAP OR (if pd_get_power_role env = PD_ROLE_SINK then RDO_NO_SUSPEND else 0)
             else rdo, ma, mv)
     }"

text \<open>The offers of a source arrive: the charge manager is told the power to come.\<close>

definition pd_process_source_cap :: "pd_board \<Rightarrow> pd_request_env \<Rightarrow> cm_env \<Rightarrow> int \<Rightarrow> u32 list \<Rightarrow> charge_mgr \<Rightarrow> charge_mgr option" where
  "pd_process_source_cap b env cenv port src_caps m =
     do {
       (i, pdo) \<leftarrow> pd_find_pdo_index b (length src_caps) src_caps (max_request env);
       let (ma, mv, min_mv) = pd_extract_pdo_power b pdo;
       Some (pd_set_input_current_limit cenv port (word_of_int ma) (word_of_int mv) m)
     }"

subsection \<open>The source checks the request\<close>

definition pd_check_requested_voltage :: "(u32 \<Rightarrow> int \<Rightarrow> bool) \<Rightarrow> u32 list \<Rightarrow> u32 \<Rightarrow> ec_error_list" where
  "pd_check_requested_voltage pd_board_check_request src_pdo rdo =
     (let max_val = pdo_field 0 0x3FF rdo;
          op_val = pdo_field 10 0x3FF rdo;
          idx = RDO_POS rdo
      in if idx = 0 \<or> int (length src_pdo) < idx then EC_ERROR_INVAL
         else if pd_board_check_request rdo (int (length src_pdo)) then EC_ERROR_INVAL
         else let pdo_ma = pdo_field 0 0x3FF (src_pdo ! (nat idx - 1))
              in if pdo_ma < op_val then EC_ERROR_INVAL
                 else if pdo_ma < max_val \<and> rdo AND RDO_CAP_MISMATCH = 0 then EC_ERROR_INVAL
                 else EC_SUCCESS)"

end
