(* ===== verification/Dpm.thy ===== *)
theory Dpm
  imports Pdo
begin

section \<open>Sharing the 3 A of the source ports, common/usbc/usb_pd_dpm.c\<close>

text \<open>
  The device policy manager lets at most \<open>CONFIG_USB_PD_3A_PORTS\<close> ports offer 3 A, to PD sinks that need
  it first, then to sources that may swap roles fast (FRS), then to sinks without PD. The record \<open>dpm\<close> holds
  the bitmasks of the file and the flag of \<open>balance_source_ports\<close>; what the manager does to the ports
  is in \<open>dpm_effects\<close>, the newest first. The mutex makes one balancing atomic; the rest of the calls are
  taken one at a time. The configuration, the roles of the ports and their default currents are the
  record \<open>dpm_env\<close>.
\<close>

datatype tcpc_rp_value = TYPEC_RP_USB | TYPEC_RP_1A5 | TYPEC_RP_3A0 | TYPEC_RP_RESERVED

datatype dpm_effect =
    Select_Rp nat tcpc_rp_value
  | Frs_Det_Enable nat
  | Frs_Det_Disable nat
  | Balance_Later int
  | Error_Recovery nat

record dpm_env =
  usb_pd_port_count :: nat
  USB_PD_3A_PORTS :: nat
  USB_PD_FRS :: bool
  power_role_of :: "nat \<Rightarrow> pd_power_role"
  partner_rev20 :: "nat \<Rightarrow> bool"
  default_rp :: "nat \<Rightarrow> tcpc_rp_value"

record dpm =
  max_current_claimed :: u32
  sink_max_pdo_requested :: u32
  source_frs_max_requested :: u32
  non_pd_sink_max_requested :: u32
  bist_shared_mode_enabled :: bool
  deferred_waiting :: bool
  dpm_effects :: "dpm_effect list"

definition dpm_boot :: dpm where
  "dpm_boot = \<lparr>max_current_claimed = 0, sink_max_pdo_requested = 0, source_frs_max_requested = 0,
     non_pd_sink_max_requested = 0, bist_shared_mode_enabled = False, deferred_waiting = False, dpm_effects = []\<rparr>"

definition BIT32 :: "nat \<Rightarrow> u32" where "BIT32 i = push_bit i 1"

text \<open>\<open>__builtin_ctz\<close>, undefined in C (and 32 here) for 0\<close>

definition LOWEST_PORT :: "u32 \<Rightarrow> nat" where
  "LOWEST_PORT w = length (takeWhile (\<lambda>i. \<not> bit w i) [0..<32])"

definition PD_T_SINK_ADJ :: int where "PD_T_SINK_ADJ = 55000"

definition count_port_bits :: "dpm_env \<Rightarrow> u32 \<Rightarrow> nat" where
  "count_port_bits env bitmask = length (filter (\<lambda>i. bitmask AND BIT32 i \<noteq> 0) [0..<usb_pd_port_count env])"

definition dpm_emit :: "dpm_effect \<Rightarrow> dpm \<Rightarrow> dpm" where
  "dpm_emit e s = s\<lparr>dpm_effects := e # dpm_effects s\<rparr>"

definition claim_port :: "nat \<Rightarrow> dpm \<Rightarrow> dpm" where
  "claim_port p s = s\<lparr>max_current_claimed := max_current_claimed s OR BIT32 p\<rparr>"

definition unclaim_port :: "nat \<Rightarrow> dpm \<Rightarrow> dpm" where
  "unclaim_port p s = s\<lparr>max_current_claimed := max_current_claimed s AND NOT (BIT32 p)\<rparr>"

text \<open>The bits of a mask, and how the loops over them end.\<close>

definition ports :: "u32 \<Rightarrow> nat set" where "ports w = {i. bit w i}"

lemma ports_bound: "ports w \<subseteq> {..<32}"
  using bit_imp_le_length [of w] by (auto simp: ports_def)

lemma finite_ports [simp]: "finite (ports w)"
  by (rule finite_subset [OF ports_bound]) simp

lemma LOWEST_PORT_bit: "w \<noteq> 0 \<Longrightarrow> bit w (LOWEST_PORT w) \<and> LOWEST_PORT w < 32"
proof -
  assume "w \<noteq> 0"
  then obtain i where i: "bit w i" by (metis bit_eqI bit_0_eq bot_apply bot_bool_def)
  then have i32: "i < 32" using bit_imp_le_length [of w i] by simp
  have "length (takeWhile (\<lambda>i. \<not> bit w i) [0..<32]) < length [0..<32]"
  proof (rule ccontr)
    assume "\<not> ?thesis"
    then have "takeWhile (\<lambda>i. \<not> bit w i) [0..<32] = [0..<32]"
      by (metis length_takeWhile_le not_less le_antisym takeWhile_eq_take take_all)
    then show False using i i32 by (metis atLeastLessThan_iff le0 set_takeWhileD set_upt)
  qed
  from nth_length_takeWhile [OF this] this show ?thesis by (simp add: LOWEST_PORT_def)
qed

lemma ports_0 [simp]: "ports 0 = {}"
  by (simp add: ports_def)

lemma ports_BIT32: "p < 32 \<Longrightarrow> ports (BIT32 p) = {p}"
  by (auto simp: ports_def BIT32_def bit_simps)

lemma ports_simps:
  "ports (a AND b) = ports a \<inter> ports b" "ports (a OR b) = ports a \<union> ports b" "ports (a AND NOT b) = ports a - ports b"
  by (auto simp: ports_def bit_simps dest: bit_imp_le_length)

lemma ports_empty_iff: "w = 0 \<longleftrightarrow> ports w = {}"
  by (auto simp: ports_def intro: bit_eqI)

lemma LOWEST_PORT_in: "w \<noteq> 0 \<Longrightarrow> LOWEST_PORT w \<in> ports w"
  using LOWEST_PORT_bit by (simp add: ports_def)

lemma next_ports: "w \<noteq> 0 \<Longrightarrow> ports (w AND NOT (BIT32 (LOWEST_PORT w))) = ports w - {LOWEST_PORT w}"
  by (simp add: ports_simps(3) ports_BIT32 [OF conjunct2 [OF LOWEST_PORT_bit]])

lemma next_ports_less: "w \<noteq> 0 \<Longrightarrow> card (ports (w AND NOT (BIT32 (LOWEST_PORT w)))) < card (ports w)"
  using LOWEST_PORT_in next_ports by (metis card_Diff1_less finite_ports)

subsection \<open>Balancing\<close>

text \<open>Each loop gives the new state and whether it left for the end of the function.\<close>

definition downgrade_non_pd :: "dpm_env \<Rightarrow> dpm \<Rightarrow> dpm" where
  "downgrade_non_pd env s =
     (let rem_non_pd = LOWEST_PORT (non_pd_sink_max_requested s AND max_current_claimed s)
      in dpm_emit (Balance_Later PD_T_SINK_ADJ)
           ((unclaim_port rem_non_pd (dpm_emit (Select_Rp rem_non_pd (default_rp env rem_non_pd)) s))\<lparr>deferred_waiting := True\<rparr>))"

definition downgrade_frs :: "dpm \<Rightarrow> dpm" where
  "downgrade_frs s =
     (let rem_frs = LOWEST_PORT (source_frs_max_requested s AND max_current_claimed s)
      in dpm_emit (Balance_Later 20000) ((unclaim_port rem_frs (dpm_emit (Frs_Det_Disable rem_frs) s))\<lparr>deferred_waiting := True\<rparr>))"

function sink_loop :: "dpm_env \<Rightarrow> u32 \<Rightarrow> dpm \<Rightarrow> dpm \<times> bool" where
  "sink_loop env new_ports s =
     (if new_ports = 0 then (s, False)
      else let new_max_port = LOWEST_PORT new_ports
           in if count_port_bits env (max_current_claimed s) < USB_PD_3A_PORTS env
              then sink_loop env (new_ports AND NOT (BIT32 new_max_port))
                     (dpm_emit (Select_Rp new_max_port TYPEC_RP_3A0) (claim_port new_max_port s))
              else if non_pd_sink_max_requested s AND max_current_claimed s \<noteq> 0 then (downgrade_non_pd env s, True)
              else if source_frs_max_requested s AND max_current_claimed s \<noteq> 0 then (downgrade_frs s, True)
              else (s, True))"
  by pat_completeness auto
termination
  by (relation "measure (\<lambda>(env, w, s). card (ports w))") (auto intro: next_ports_less)

function frs_loop :: "dpm_env \<Rightarrow> u32 \<Rightarrow> dpm \<Rightarrow> dpm \<times> bool" where
  "frs_loop env new_ports s =
     (if new_ports = 0 then (s, False)
      else let new_frs_port = LOWEST_PORT new_ports
           in if count_port_bits env (max_current_claimed s) < USB_PD_3A_PORTS env
              then frs_loop env (new_ports AND NOT (BIT32 new_frs_port))
                     (dpm_emit (Frs_Det_Enable new_frs_port) (claim_port new_frs_port s))
              else if non_pd_sink_max_requested s AND max_current_claimed s \<noteq> 0 then (downgrade_non_pd env s, True)
              else (s, True))"
  by pat_completeness auto
termination
  by (relation "measure (\<lambda>(env, w, s). card (ports w))") (auto intro: next_ports_less)

function non_pd_loop :: "dpm_env \<Rightarrow> u32 \<Rightarrow> dpm \<Rightarrow> dpm" where
  "non_pd_loop env new_ports s =
     (if new_ports = 0 then s
      else let new_max_port = LOWEST_PORT new_ports
           in if count_port_bits env (max_current_claimed s) < USB_PD_3A_PORTS env
              then non_pd_loop env (new_ports AND NOT (BIT32 new_max_port))
                     (dpm_emit (Select_Rp new_max_port TYPEC_RP_3A0) (claim_port new_max_port s))
              else s)"
  by pat_completeness auto
termination
  by (relation "measure (\<lambda>(env, w, s). card (ports w))") (auto intro: next_ports_less)

declare sink_loop.simps [simp del] frs_loop.simps [simp del] non_pd_loop.simps [simp del]

definition requested_ports :: "dpm \<Rightarrow> u32" where
  "requested_ports s = (sink_max_pdo_requested s OR source_frs_max_requested s OR non_pd_sink_max_requested s)"

definition drop_unrequested :: "dpm \<Rightarrow> dpm" where
  "drop_unrequested s =
     (let removed_ports = max_current_claimed s AND NOT (requested_ports s)
      in s\<lparr>max_current_claimed := max_current_claimed s AND NOT removed_ports\<rparr>)"

definition balance_ports :: "dpm_env \<Rightarrow> dpm \<Rightarrow> dpm" where
  "balance_ports env s =
     (let s1 = drop_unrequested s;
          (s2, unlock) = sink_loop env (sink_max_pdo_requested s1 AND NOT (max_current_claimed s1)) s1
      in if unlock then s2
         else let (s3, unlock) = frs_loop env (source_frs_max_requested s2 AND NOT (max_current_claimed s2)) s2
              in if unlock then s3
                 else non_pd_loop env (non_pd_sink_max_requested s3 AND NOT (max_current_claimed s3)) s3)"

definition balance_source_ports :: "dpm_env \<Rightarrow> bool \<Rightarrow> dpm \<Rightarrow> dpm" where
  "balance_source_ports env in_deferred_context s =
     (let s1 = (if in_deferred_context then s\<lparr>deferred_waiting := False\<rparr> else s)
      in if deferred_waiting s1 then s1
         else if bist_shared_mode_enabled s1 then s1
         else balance_ports env s1)"

subsection \<open>What changes the requests\<close>

definition PDO_FIXED_DUAL_ROLE :: u32 where "PDO_FIXED_DUAL_ROLE = push_bit 29 1"
definition PDO_FIXED_FRS_CURR_MASK :: u32 where "PDO_FIXED_FRS_CURR_MASK = push_bit 23 3"
definition PDO_FIXED_FRS_CURR_DFLT_USB_POWER :: u32 where "PDO_FIXED_FRS_CURR_DFLT_USB_POWER = push_bit 23 1"
definition PDO_FIXED_FRS_CURR_1A5_AT_5V :: u32 where "PDO_FIXED_FRS_CURR_1A5_AT_5V = push_bit 23 2"

definition dpm_evaluate_sink_fixed_pdo :: "dpm_env \<Rightarrow> nat \<Rightarrow> u32 \<Rightarrow> dpm \<Rightarrow> dpm" where
  "dpm_evaluate_sink_fixed_pdo env port vsafe5v_pdo s =
     (if vsafe5v_pdo AND PDO_TYPE_MASK \<noteq> PDO_TYPE_FIXED then s
      else if PDO_FIXED_VOLTAGE vsafe5v_pdo \<noteq> 5000 then s
      else if power_role_of env port = PD_ROLE_SOURCE then
        (if USB_PD_3A_PORTS env = 0 then s
         else if PDO_FIXED_CURRENT vsafe5v_pdo \<le> 1500 then s
         else balance_source_ports env False (s\<lparr>sink_max_pdo_requested := sink_max_pdo_requested s OR BIT32 port\<rparr>))
      else
        (let frs_current = vsafe5v_pdo AND PDO_FIXED_FRS_CURR_MASK
         in if \<not> USB_PD_FRS env then s
            else if partner_rev20 env port then s
            else if vsafe5v_pdo AND PDO_FIXED_DUAL_ROLE \<noteq> 0 \<and> frs_current \<noteq> 0 then
              (if frs_current = PDO_FIXED_FRS_CURR_DFLT_USB_POWER \<or> frs_current = PDO_FIXED_FRS_CURR_1A5_AT_5V
               then dpm_emit (Frs_Det_Enable port) s
               else if USB_PD_3A_PORTS env = 0 then s
               else balance_source_ports env False (s\<lparr>source_frs_max_requested := source_frs_max_requested s OR BIT32 port\<rparr>))
            else s))"

definition dpm_add_non_pd_sink :: "dpm_env \<Rightarrow> nat \<Rightarrow> dpm \<Rightarrow> dpm" where
  "dpm_add_non_pd_sink env port s =
     (if USB_PD_3A_PORTS env = 0 then s
      else balance_source_ports env False (s\<lparr>non_pd_sink_max_requested := non_pd_sink_max_requested s OR BIT32 port\<rparr>))"

definition dpm_evaluate_request_rdo :: "dpm_env \<Rightarrow> nat \<Rightarrow> u32 \<Rightarrow> dpm \<Rightarrow> dpm" where
  "dpm_evaluate_request_rdo env port rdo s =
     (if USB_PD_3A_PORTS env = 0 then s
      else if RDO_POS rdo = 0 then s
      else let op_ma = pdo_field 10 0x3FF rdo
           in if BIT32 port AND sink_max_pdo_requested s \<noteq> 0 \<and> op_ma \<le> 150
              then balance_source_ports env False (s\<lparr>sink_max_pdo_requested := sink_max_pdo_requested s AND NOT (BIT32 port)\<rparr>)
              else s)"

definition dpm_remove_sink :: "dpm_env \<Rightarrow> nat \<Rightarrow> dpm \<Rightarrow> dpm" where
  "dpm_remove_sink env port s =
     (if USB_PD_3A_PORTS env = 0 then s
      else if BIT32 port AND sink_max_pdo_requested s = 0 \<and> BIT32 port AND non_pd_sink_max_requested s = 0 then s
      else balance_source_ports env False
             (dpm_emit (Select_Rp port (default_rp env port))
                (s\<lparr>sink_max_pdo_requested := sink_max_pdo_requested s AND NOT (BIT32 port),
                   non_pd_sink_max_requested := non_pd_sink_max_requested s AND NOT (BIT32 port)\<rparr>)))"

definition dpm_remove_source :: "dpm_env \<Rightarrow> nat \<Rightarrow> dpm \<Rightarrow> dpm" where
  "dpm_remove_source env port s =
     (if USB_PD_3A_PORTS env = 0 then s
      else if \<not> USB_PD_FRS env then s
      else if BIT32 port AND source_frs_max_requested s = 0 then s
      else balance_source_ports env False (s\<lparr>source_frs_max_requested := source_frs_max_requested s AND NOT (BIT32 port)\<rparr>))"

definition dpm_bist_shared_mode_enter :: "dpm_env \<Rightarrow> nat \<Rightarrow> dpm \<Rightarrow> dpm" where
  "dpm_bist_shared_mode_enter env port s =
     (if USB_PD_3A_PORTS env = 0 then s
      else if power_role_of env port \<noteq> PD_ROLE_SOURCE then s
      else fold (\<lambda>i. dpm_emit (Select_Rp i TYPEC_RP_3A0))
             (filter (\<lambda>i. power_role_of env i = PD_ROLE_SOURCE) [0..<usb_pd_port_count env])
             (s\<lparr>bist_shared_mode_enabled := True\<rparr>))"

definition dpm_bist_shared_mode_exit :: "dpm_env \<Rightarrow> dpm \<Rightarrow> dpm" where
  "dpm_bist_shared_mode_exit env s =
     (if USB_PD_3A_PORTS env = 0 then s
      else if \<not> bist_shared_mode_enabled s then s
      else fold (\<lambda>i. dpm_emit (Error_Recovery i)) [0..<usb_pd_port_count env] (s\<lparr>bist_shared_mode_enabled := False\<rparr>))"

text \<open>The offers of a port: \<open>pd_src_pdo_max\<close> or \<open>pd_src_pdo\<close>.\<close>

definition dpm_get_source_pdo :: "u32 list \<Rightarrow> u32 list \<Rightarrow> nat \<Rightarrow> dpm \<Rightarrow> u32 list" where
  "dpm_get_source_pdo pd_src_pdo_max pd_src_pdo port s =
     (if max_current_claimed s AND BIT32 port \<noteq> 0 \<or> bist_shared_mode_enabled s then pd_src_pdo_max else pd_src_pdo)"

definition dpm_get_source_current :: "dpm_env \<Rightarrow> nat \<Rightarrow> dpm \<Rightarrow> int" where
  "dpm_get_source_current env port s =
     (if power_role_of env port = PD_ROLE_SINK then 0
      else if max_current_claimed s AND BIT32 port \<noteq> 0 \<or> bist_shared_mode_enabled s then 3000
      else if default_rp env port = TYPEC_RP_1A5 then 1500
      else 500)"

end
