(* ===== verification/PdoProps.thy ===== *)
theory PdoProps
  imports Pdo
begin

section \<open>Correctness of the power requests\<close>

text \<open>
  The choice among the offers is the best one under the preference of the board, the request built
  from it stays within the limits of the board and of the offer, and a source that runs the same code
  accepts it. The last part shows where this fails: behind a VCONN powered device, for battery
  objects, and for the voltage of variable supplies.
\<close>

subsection \<open>The best offer\<close>

text \<open>The first voltage is no further from the preferred one than the second.\<close>

definition closer_mv :: "pd_prefer_type \<Rightarrow> int \<Rightarrow> int \<Rightarrow> int \<Rightarrow> bool" where
  "closer_mv ty prefer_mv mv1 mv2 =
     (case ty of
        PD_PREFER_BUCK \<Rightarrow> if prefer_mv \<le> mv1 then mv2 < prefer_mv \<or> mv1 \<le> mv2 else mv2 < prefer_mv \<and> mv2 \<le> mv1
      | PD_PREFER_BOOST \<Rightarrow> if mv1 \<le> prefer_mv then prefer_mv < mv2 \<or> mv2 \<le> mv1 else prefer_mv < mv2 \<and> mv1 \<le> mv2)"

text \<open>The first offer (power, voltage) is at least as good as the second.\<close>

definition as_good :: "pd_board \<Rightarrow> int \<times> int \<Rightarrow> int \<times> int \<Rightarrow> bool" where
  "as_good b = (\<lambda>(uw1, mv1) (uw2, mv2).
     case pd_preference b of
       Prefer_Power \<Rightarrow> uw2 \<le> uw1
     | PD_PREFER_LOW_VOLTAGE \<Rightarrow> uw2 < uw1 \<or> uw2 = uw1 \<and> mv1 \<le> mv2
     | PD_PREFER_HIGH_VOLTAGE \<Rightarrow> uw2 < uw1 \<or> uw2 = uw1 \<and> mv2 \<le> mv1
     | CONFIG_USB_PD_PREFER_MV ty prefer_mv \<Rightarrow>
         if plt_plus_bat_desired_mw b * 1000 \<le> uw1
         then uw2 < plt_plus_bat_desired_mw b * 1000 \<or> closer_mv ty prefer_mv mv1 mv2
         else uw2 \<le> uw1)"

text \<open>With a preferred voltage, the system wants some power.\<close>

definition wants_power :: "pd_board \<Rightarrow> bool" where
  "wants_power b \<longleftrightarrow> (case pd_preference b of CONFIG_USB_PD_PREFER_MV ty p \<Rightarrow> 0 < plt_plus_bat_desired_mw b | _ \<Rightarrow> True)"

lemma pref_keeps:
  assumes "\<not> has_preferred_pdo b cu cv xu xv" and "has_preferred_pdo b cu cv nu nv" and "0 < xu" and "wants_power b"
  shows "\<not> has_preferred_pdo b nu nv xu xv"
proof (cases "pd_preference b")
  case (CONFIG_USB_PD_PREFER_MV ty p)
  show ?thesis
  proof (cases ty)
    case PD_PREFER_BUCK
    then show ?thesis
      using assms CONFIG_USB_PD_PREFER_MV by (simp add: has_preferred_pdo_def prefer_mv_cur_def wants_power_def split: if_splits; linarith)
  next
    case PD_PREFER_BOOST
    then show ?thesis
      using assms CONFIG_USB_PD_PREFER_MV by (simp add: has_preferred_pdo_def prefer_mv_cur_def wants_power_def split: if_splits; linarith)
  qed
qed (use assms in \<open>auto simp: has_preferred_pdo_def\<close>)

lemma pref_not_self: "0 < xu \<Longrightarrow> \<not> has_preferred_pdo b xu xv xu xv"
  by (cases "pd_preference b") (auto simp: has_preferred_pdo_def prefer_mv_cur_def)

lemma pref_over_none: "0 < xu \<Longrightarrow> wants_power b \<Longrightarrow> has_preferred_pdo b 0 0 xu xv"
  by (cases "pd_preference b") (auto simp: has_preferred_pdo_def prefer_mv_cur_def wants_power_def)

lemma not_pref_as_good: "\<not> has_preferred_pdo b uw1 mv1 uw2 mv2 \<Longrightarrow> as_good b (uw1, mv1) (uw2, mv2)"
  by (cases "pd_preference b")
     (auto simp: has_preferred_pdo_def prefer_mv_cur_def as_good_def closer_mv_def split: if_splits pd_prefer_type.splits)

lemma pdo_loop_step:
  assumes "pdo_loop b m i (pdo # pdos) (r, u, v) = res"
  obtains (same) "pdo_loop b m (i + 1) pdos (r, u, v) = res"
    | (new) uw mv where "pdo_offer b m i pdo = Some (uw, mv)" "has_preferred_pdo b u v uw mv"
        "pdo_loop b m (i + 1) pdos (i, uw, mv) = res"
proof (cases "pdo_offer b m i pdo")
  case None
  with assms same show ?thesis by simp
next
  case (Some o1)
  then show ?thesis using assms same new by (cases o1) (simp split: if_splits)
qed

lemma pdo_loop_origin:
  "pdo_loop b m i pdos (r, u, v) = (r', u', v') \<Longrightarrow>
     (r', u', v') = (r, u, v) \<or> (\<exists>j<length pdos. r' = i + j \<and> pdo_offer b m r' (pdos ! j) = Some (u', v'))"
proof (induction pdos arbitrary: i r u v)
  case (Cons pdo pdos)
  have later: "\<exists>j<length (pdo # pdos). r' = i + j \<and> pdo_offer b m r' ((pdo # pdos) ! j) = Some (u', v')"
    if "k < length pdos" "r' = i + 1 + k" "pdo_offer b m r' (pdos ! k) = Some (u', v')" for k
    using that by (intro exI [of _ "Suc k"]) simp
  from Cons.prems show ?case
  proof (cases rule: pdo_loop_step)
    case same
    from Cons.IH [OF this] later show ?thesis by blast
  next
    case (new uw mv)
    from Cons.IH [OF new(3)] show ?thesis
    proof
      assume "(r', u', v') = (i, uw, mv)"
      with new(1) show ?thesis by auto
    next
      assume "\<exists>j<length pdos. r' = i + 1 + j \<and> pdo_offer b m r' (pdos ! j) = Some (u', v')"
      with later show ?thesis by blast
    qed
  qed
qed simp

lemma pdo_loop_keeps:
  "pdo_loop b m i pdos (r, u, v) = (r', u', v') \<Longrightarrow> 0 < xu \<Longrightarrow> wants_power b
     \<Longrightarrow> \<not> has_preferred_pdo b u v xu xv \<Longrightarrow> \<not> has_preferred_pdo b u' v' xu xv"
proof (induction pdos arbitrary: i r u v)
  case (Cons pdo pdos)
  from Cons.prems(1) show ?case
  proof (cases rule: pdo_loop_step)
    case same
    from Cons.IH [OF this Cons.prems(2-4)] show ?thesis .
  next
    case (new uw mv)
    from Cons.IH [OF new(3) Cons.prems(2,3) pref_keeps [OF Cons.prems(4) new(2) Cons.prems(2,3)]] show ?thesis .
  qed
qed simp

lemma pdo_loop_best:
  "pdo_loop b m i pdos (r, u, v) = (r', u', v') \<Longrightarrow> 0 < xu \<Longrightarrow> wants_power b
     \<Longrightarrow> j < length pdos \<Longrightarrow> pdo_offer b m (i + j) (pdos ! j) = Some (xu, xv)
     \<Longrightarrow> \<not> has_preferred_pdo b u' v' xu xv"
proof (induction pdos arbitrary: i j r u v)
  case (Cons pdo pdos)
  show ?case
  proof (cases j)
    case 0
    with Cons.prems have o: "pdo_offer b m i pdo = Some (xu, xv)" by simp
    show ?thesis
    proof (cases "has_preferred_pdo b u v xu xv")
      case True
      with Cons.prems(1) o have "pdo_loop b m (i + 1) pdos (i, xu, xv) = (r', u', v')" by simp
      from pdo_loop_keeps [OF this Cons.prems(2,3) pref_not_self [OF Cons.prems(2)]] show ?thesis .
    next
      case False
      with Cons.prems(1) o have "pdo_loop b m (i + 1) pdos (r, u, v) = (r', u', v')" by simp
      from pdo_loop_keeps [OF this Cons.prems(2,3) False] show ?thesis .
    qed
  next
    case (Suc k)
    from Cons.prems(1) obtain r1 u1 v1 where "pdo_loop b m (i + 1) pdos (r1, u1, v1) = (r', u', v')"
      by (rule pdo_loop_step)
    moreover have "k < length pdos" "pdo_offer b m (i + 1 + k) (pdos ! k) = Some (xu, xv)"
      using Cons.prems(4,5) Suc by simp_all
    ultimately show ?thesis using Cons.IH Cons.prems(2,3) by blast
  qed
qed simp

subsection \<open>The offers a board may use\<close>

text \<open>
  An offer read as in the standard, by arithmetic on its number: the kind of supply in the upper two bits,
  a voltage in units of 50 mV (of a variable supply or a battery the least one), a current in units of
  10 mA, or the power of a battery in units of 250 mW.
\<close>

datatype supply_kind = Fixed_Supply | Battery | Variable_Supply | Augmented

definition supply_of :: "u32 \<Rightarrow> supply_kind" where
  "supply_of pdo = [Fixed_Supply, Battery, Variable_Supply, Augmented] ! (unat pdo div 2 ^ 30 mod 4)"

definition offer_mv :: "u32 \<Rightarrow> int" where "offer_mv pdo = uint pdo div 2 ^ 10 mod 2 ^ 10 * 50"

text \<open>The power the board can take from an offer, in microwatts.\<close>

definition offer_uw :: "pd_board \<Rightarrow> u32 \<Rightarrow> int" where
  "offer_uw b pdo = min (PD_MAX_POWER_MW b * 1000)
     (if supply_of pdo = Battery then uint pdo mod 2 ^ 10 * 250000
      else min (uint pdo mod 2 ^ 10 * 10) (PD_MAX_CURRENT_MA b) * offer_mv pdo)"

text \<open>
  The board may use an offer if its kind is one it takes, never an augmented one, and its voltage is
  valid, within what is asked for and within the maximum of the board; one of the first seven offers,
  which are of the standard power range, must not be for more than 20 V.
\<close>

definition usable_offer :: "pd_board \<Rightarrow> int \<Rightarrow> nat \<Rightarrow> u32 \<Rightarrow> bool" where
  "usable_offer b max_mv i pdo \<longleftrightarrow>
     supply_of pdo \<noteq> Augmented \<and> (ONLY_FIXED_PDOS b \<longrightarrow> supply_of pdo = Fixed_Supply)
     \<and> 0 < offer_mv pdo \<and> offer_mv pdo \<le> max_mv \<and> offer_mv pdo \<le> PD_MAX_VOLTAGE_MV b
     \<and> (i < 7 \<longrightarrow> offer_mv pdo \<le> 20000) \<and> pd_is_valid_input_voltage b (offer_mv pdo)"

lemma mask_numerals: "(0x3FF :: u32) = mask 10" "(0xF :: u32) = mask 4" "(0xFF :: u32) = mask 8" "(0x7F :: u32) = mask 7"
  by (simp_all add: mask_eq_exp_minus_1)

lemma bit_type_mask: "bit PDO_TYPE_MASK i \<longleftrightarrow> i = 30 \<or> i = 31"
proof -
  have "bit (push_bit n (mask 2 :: u32)) i \<longleftrightarrow> n \<le> i \<and> i < n + 2 \<and> i < 32" for n
    by (auto simp: bit_simps)
  moreover have "PDO_TYPE_MASK = push_bit 30 (mask 2)" by (simp add: PDO_TYPE_MASK_def mask_eq_exp_minus_1)
  ultimately have "bit PDO_TYPE_MASK i \<longleftrightarrow> 30 \<le> i \<and> i < 30 + 2 \<and> i < 32" by metis
  then show ?thesis by linarith
qed

lemma supply_types:
  "pdo AND PDO_TYPE_MASK = PDO_TYPE_FIXED \<longleftrightarrow> supply_of pdo = Fixed_Supply"
  "pdo AND PDO_TYPE_MASK = PDO_TYPE_BATTERY \<longleftrightarrow> supply_of pdo = Battery"
  "pdo AND PDO_TYPE_MASK = PDO_TYPE_AUGMENTED \<longleftrightarrow> supply_of pdo = Augmented"
proof -
  have m: "pdo AND PDO_TYPE_MASK = push_bit 30 (drop_bit 30 pdo)"
  proof (rule bit_word_eqI)
    fix i
    have "i < 32 \<or> \<not> bit pdo i" using bit_imp_le_length [of pdo i] by auto
    then show "bit (pdo AND PDO_TYPE_MASK) i \<longleftrightarrow> bit (push_bit 30 (drop_bit 30 pdo)) i"
      by (auto simp: bit_simps bit_type_mask)
  qed
  have t: "pdo AND PDO_TYPE_MASK = push_bit 30 w \<longleftrightarrow> unat (drop_bit 30 pdo) = unat w" if "drop_bit 30 (push_bit 30 w) = w" for w :: u32
  proof -
    have "n < 2 \<or> \<not> bit pdo (30 + n)" for n using bit_imp_le_length [of pdo "30 + n"] by auto
    then have "drop_bit 30 (push_bit 30 (drop_bit 30 pdo)) = drop_bit 30 pdo"
      by (intro bit_word_eqI) (auto simp: bit_simps)
    then show ?thesis unfolding m using that by (metis word_unat_eq_iff)
  qed
  define q where "q = unat pdo div 2 ^ 30"
  have n: "unat (drop_bit 30 pdo) = q" unfolding q_def by (simp only: unat_drop_bit_eq) (simp only: drop_bit_eq_div)
  have "q < 4" using unat_lt2p [of pdo] by (simp add: q_def)
  then consider "q = 0" | "q = 1" | "q = 2" | "q = 3" by linarith
  moreover have "supply_of pdo = [Fixed_Supply, Battery, Variable_Supply, Augmented] ! (q mod 4)" by (simp add: supply_of_def q_def)
  ultimately have k: "supply_of pdo = Fixed_Supply \<longleftrightarrow> q = 0" "supply_of pdo = Battery \<longleftrightarrow> q = 1" "supply_of pdo = Augmented \<longleftrightarrow> q = 3"
    by (cases; simp)+
  show "pdo AND PDO_TYPE_MASK = PDO_TYPE_FIXED \<longleftrightarrow> supply_of pdo = Fixed_Supply"
    "pdo AND PDO_TYPE_MASK = PDO_TYPE_BATTERY \<longleftrightarrow> supply_of pdo = Battery"
    "pdo AND PDO_TYPE_MASK = PDO_TYPE_AUGMENTED \<longleftrightarrow> supply_of pdo = Augmented"
    unfolding PDO_TYPE_FIXED_def PDO_TYPE_BATTERY_def PDO_TYPE_AUGMENTED_def k
    by (subst t; simp add: n)+
qed

lemma pdo_field_mod: "pdo_field off (mask k) p = uint p div 2 ^ off mod 2 ^ k"
proof -
  have "pdo_field off (mask k) p = take_bit k (uint (drop_bit off p))"
    by (simp add: pdo_field_def take_bit_eq_mask [symmetric] unsigned_take_bit_eq)
  also have "uint (drop_bit off p) = drop_bit off (uint p)"
    by (simp add: unsigned_drop_bit_eq take_bit_int_eq_self unsigned_less [of p, simplified])
  finally show ?thesis by (simp only: take_bit_eq_mod drop_bit_eq_div)
qed

lemma pdo_offer_usable:
  "pdo_offer b (min max_mv (PD_MAX_VOLTAGE_MV b)) i pdo =
     (if usable_offer b max_mv i pdo then Some (offer_uw b pdo, offer_mv pdo) else None)"
proof -
  have mv: "PDO_FIXED_GET_VOLT pdo = offer_mv pdo"
    using pdo_field_mod [of 10 10 pdo] by (simp add: PDO_FIXED_GET_VOLT_def offer_mv_def mask_numerals)
  have low: "pdo_field 0 0x3FF pdo = uint pdo mod 2 ^ 10" using pdo_field_mod [of 0 10 pdo] by (simp add: mask_numerals)
  have nn: "0 \<le> offer_mv pdo" by (simp add: offer_mv_def)
  have fixed: "supply_of pdo = Fixed_Supply \<Longrightarrow> supply_of pdo \<noteq> Augmented" by simp
  show ?thesis
    using nn fixed
    by (auto simp: pdo_offer_def Let_def mv low supply_types PDO_FIXED_GET_CURR_def usable_offer_def offer_uw_def
        PD_MAX_SPR_VOLTAGE_def min.commute mult.commute)
qed

text \<open>
  C27: If a source makes any offer that the board may use and from which it can take some power, the choice
  falls on an offer the board may use that is at least as good as every other such offer: with the most power,
  and the lowest or highest voltage among equals, or the voltage closest to the preferred one among those
  with the power the system wants. The voltage of a variable supply or a battery is its least one here,
  and its greatest voltage is not compared with any limit.
\<close>
theorem pd_find_pdo_optimal:
  assumes "src_cap_cnt \<le> length src_caps" and "wants_power b"
    and "j < src_cap_cnt" and "usable_offer b max_mv j (src_caps ! j)" and "0 < offer_uw b (src_caps ! j)"
  shows "\<exists>i. pd_find_pdo_index b src_cap_cnt src_caps max_mv = Some (i, src_caps ! i) \<and> i < src_cap_cnt
     \<and> usable_offer b max_mv i (src_caps ! i)
     \<and> as_good b (offer_uw b (src_caps ! i), offer_mv (src_caps ! i)) (offer_uw b (src_caps ! j), offer_mv (src_caps ! j))"
proof -
  let ?m = "min max_mv (PD_MAX_VOLTAGE_MV b)" and ?caps = "take src_cap_cnt src_caps"
  obtain i u v where l: "pdo_loop b ?m 0 ?caps (0, 0, 0) = (i, u, v)" by (metis prod_cases3)
  have n: "\<not> has_preferred_pdo b u v (offer_uw b (src_caps ! j)) (offer_mv (src_caps ! j))"
    using pdo_loop_best [OF l assms(5,2), of j] assms by (simp add: pdo_offer_usable)
  then have "(i, u, v) \<noteq> (0, 0, 0)" using pref_over_none [OF assms(5,2)] by auto
  with pdo_loop_origin [OF l] have o: "i < src_cap_cnt" "pdo_offer b ?m i (src_caps ! i) = Some (u, v)" by auto
  then have "usable_offer b max_mv i (src_caps ! i)" "u = offer_uw b (src_caps ! i)" "v = offer_mv (src_caps ! i)"
    by (simp_all add: pdo_offer_usable split: if_splits)
  then show ?thesis
    using l o(1) assms(1) not_pref_as_good [OF n] by (auto simp: pd_find_pdo_index_def load_def)
qed

definition pd_board0 :: "pd_preference \<Rightarrow> pd_board" where
  "pd_board0 pref = \<lparr>PD_MAX_VOLTAGE_MV = 20000, PD_MAX_CURRENT_MA = 3000, PD_MAX_POWER_MW = 45000,
     PD_OPERATING_POWER_MW = 15000, ONLY_FIXED_PDOS = False, pd_preference = pref, PD_EPR = False,
     pd_is_valid_input_voltage = \<lambda>mv. True, plt_plus_bat_desired_mw = 20000\<rparr>"

definition pdo_fixed :: "int \<Rightarrow> int \<Rightarrow> u32" where
  "pdo_fixed mv ma = push_bit 10 (word_of_int (mv div 50)) OR word_of_int (ma div 10)"

text \<open>Of 5 V / 3 A, 9 V / 3 A and 20 V / 2.25 A, a system that wants 20 W and prefers 8 V takes the second.\<close>

theorem pd_find_pdo_optimal_witness:
  "\<exists>i. pd_find_pdo_index (pd_board0 (CONFIG_USB_PD_PREFER_MV PD_PREFER_BUCK 8000)) 3
       [pdo_fixed 5000 3000, pdo_fixed 9000 3000, pdo_fixed 20000 2250] 20000
     = Some (i, [pdo_fixed 5000 3000, pdo_fixed 9000 3000, pdo_fixed 20000 2250] ! i) \<and> i < 3
     \<and> usable_offer (pd_board0 (CONFIG_USB_PD_PREFER_MV PD_PREFER_BUCK 8000)) 20000 i
         ([pdo_fixed 5000 3000, pdo_fixed 9000 3000, pdo_fixed 20000 2250] ! i)
     \<and> as_good (pd_board0 (CONFIG_USB_PD_PREFER_MV PD_PREFER_BUCK 8000))
         (offer_uw (pd_board0 (CONFIG_USB_PD_PREFER_MV PD_PREFER_BUCK 8000)) ([pdo_fixed 5000 3000, pdo_fixed 9000 3000, pdo_fixed 20000 2250] ! i),
          offer_mv ([pdo_fixed 5000 3000, pdo_fixed 9000 3000, pdo_fixed 20000 2250] ! i)) (27000000, 9000)"
proof -
  let ?b = "pd_board0 (CONFIG_USB_PD_PREFER_MV PD_PREFER_BUCK 8000)"
  have "pdo_fixed 9000 3000 = 0x2D12C" by (simp add: pdo_fixed_def)
  then have "usable_offer ?b 20000 1 (pdo_fixed 9000 3000)" "offer_uw ?b (pdo_fixed 9000 3000) = 27000000"
    "offer_mv (pdo_fixed 9000 3000) = 9000"
    by (simp_all add: usable_offer_def offer_uw_def offer_mv_def supply_of_def pd_board0_def)
  then show ?thesis
    using pd_find_pdo_optimal [of 3 "[pdo_fixed 5000 3000, pdo_fixed 9000 3000, pdo_fixed 20000 2250]" ?b 1 20000]
    by (simp add: wants_power_def) (simp add: pd_board0_def)
qed

subsection \<open>The chosen object\<close>

lemma find_result:
  assumes "pd_find_pdo_index b n caps m = Some (i, pdo)"
  shows "pdo = caps ! i" and "i < length caps"
    and "i = 0 \<or> (\<exists>o1. pdo_offer b (min m (PD_MAX_VOLTAGE_MV b)) i (caps ! i) = Some o1)"
proof -
  have n: "n \<le> length caps" using assms by (simp add: pd_find_pdo_index_def split: if_splits)
  obtain r u v where l: "pdo_loop b (min m (PD_MAX_VOLTAGE_MV b)) 0 (take n caps) (0, 0, 0) = (r, u, v)" by (metis prod_cases3)
  with assms n have r: "r = i" "pdo = caps ! i" "i < length caps"
    by (auto simp: pd_find_pdo_index_def load_def Let_def split: if_splits)
  then show "pdo = caps ! i" "i < length caps" by simp_all
  show "i = 0 \<or> (\<exists>o1. pdo_offer b (min m (PD_MAX_VOLTAGE_MV b)) i (caps ! i) = Some o1)"
    using pdo_loop_origin [OF l] r(1) by auto
qed

lemma request_pdo_result:
  assumes "pd_src_cap_cnt env = length (pd_src_caps env)" and "pd_src_caps env \<noteq> []"
  obtains i where "request_pdo b env port = Some (i, pd_src_caps env ! i)" "i < length (pd_src_caps env)"
    "i = 0 \<or> (\<exists>o1. pdo_offer b (min (max_request env) (PD_MAX_VOLTAGE_MV b)) i (pd_src_caps env ! i) = Some o1)"
proof (cases "(selected_charge_port env = port \<or> selected_charge_port env = CHARGE_PORT_NONE) \<and> pd_is_max_request_allowed env")
  case True
  let ?m = "min (max_request env) (PD_MAX_VOLTAGE_MV b)"
  obtain r u v where l: "pdo_loop b ?m 0 (pd_src_caps env) (0, 0, 0) = (r, u, v)" by (metis prod_cases3)
  have "r < length (pd_src_caps env)" using pdo_loop_origin [OF l] assms(2) by auto
  then have f: "pd_find_pdo_index b (pd_src_cap_cnt env) (pd_src_caps env) (max_request env) = Some (r, pd_src_caps env ! r)"
    using l assms(1) by (simp add: pd_find_pdo_index_def load_def)
  then have "request_pdo b env port = Some (r, pd_src_caps env ! r)" using True by (simp add: request_pdo_def)
  with that find_result [OF f] show ?thesis by blast
next
  case False
  then have "request_pdo b env port = Some (0, pd_src_caps env ! 0)" using assms(2) by (simp only: request_pdo_def False if_False) (simp add: load_def)
  with that assms(2) show ?thesis by blast
qed

lemma pdo_field_bounds: "0 \<le> pdo_field off m p" "pdo_field off (mask k) p < 2 ^ k"
proof -
  show "0 \<le> pdo_field off m p" by (simp add: pdo_field_def)
  have "pdo_field off (mask k) p = take_bit k (uint (drop_bit off p))"
    by (simp add: pdo_field_def take_bit_eq_mask [symmetric] unsigned_take_bit_eq)
  then show "pdo_field off (mask k) p < 2 ^ k" by simp
qed

subsection \<open>The fields of the request\<close>

text \<open>The flags occupy the bits 22 to 27.\<close>

definition rdo_flags :: "u32 \<Rightarrow> bool" where
  "rdo_flags f \<longleftrightarrow> (\<forall>i. bit f i \<longrightarrow> 22 \<le> i \<and> i < 28)"

lemma bit_flag: "bit (push_bit n (1 :: u32)) i \<longleftrightarrow> i = n \<and> n < 32"
  by (auto simp: bit_simps)

lemma rdo_flags_simps [simp]:
  "rdo_flags 0" "rdo_flags RDO_CAP_MISMATCH" "rdo_flags RDO_COMM_CAP" "rdo_flags RDO_NO_SUSPEND" "rdo_flags RDO_EPR_MODE_CAPABLE"
  "rdo_flags f \<Longrightarrow> rdo_flags g \<Longrightarrow> rdo_flags (f OR g)"
  unfolding rdo_flags_def RDO_CAP_MISMATCH_def RDO_COMM_CAP_def RDO_NO_SUSPEND_def RDO_EPR_MODE_CAPABLE_def bit_flag
  by (auto simp: bit_or_iff)

lemma rdo_flags_low: "rdo_flags f \<Longrightarrow> \<not> bit f i" if "i < 22 \<or> 28 \<le> i"
  using that by (auto simp: rdo_flags_def)

lemma rdo_field_words:
  fixes a x y :: u32
  assumes "rdo_flags f"
  defines "r \<equiv> push_bit 28 (a AND mask 4) OR f OR push_bit 10 (x AND mask 10) OR (y AND mask 10)"
  shows "drop_bit 0 r AND mask 10 = y AND mask 10" and "drop_bit 10 r AND mask 10 = x AND mask 10"
    and "drop_bit 28 r AND mask 4 = a AND mask 4"
proof -
  show "drop_bit 0 r AND mask 10 = y AND mask 10"
    by (rule bit_word_eqI) (auto simp: r_def bit_simps rdo_flags_low [OF _ assms(1)])
  show "drop_bit 10 r AND mask 10 = x AND mask 10"
    by (rule bit_word_eqI) (auto simp: r_def bit_simps rdo_flags_low [OF _ assms(1)])
  show "drop_bit 28 r AND mask 4 = a AND mask 4"
    by (rule bit_word_eqI) (auto simp: r_def bit_simps rdo_flags_low [OF _ assms(1)])
qed

lemma uint_small_field: "0 \<le> k \<Longrightarrow> k < 2 ^ n \<Longrightarrow> n \<le> 32 \<Longrightarrow> uint ((word_of_int k :: u32) AND mask n) = k"
  by (simp add: take_bit_eq_mask [symmetric] unsigned_take_bit_eq take_bit_int_eq_self unsigned_of_int min_def)

lemma rdo_field_values:
  assumes "rdo_flags f" and "0 \<le> n" "n < 16" and "0 \<le> op_val div units" "op_val div units < 1024" and "0 \<le> max_val div units" "max_val div units < 1024"
  shows "pdo_field 0 0x3FF (rdo_fields units n op_val max_val f) = max_val div units"
    and "pdo_field 10 0x3FF (rdo_fields units n op_val max_val f) = op_val div units"
    and "RDO_POS (rdo_fields units n op_val max_val f) = n"
  unfolding RDO_POS_def pdo_field_def rdo_fields_def mask_numerals rdo_field_words [OF assms(1)]
  using assms by (simp_all add: uint_small_field)

lemma rdo_fields_or: "rdo_fields units n op_val max_val f OR g = rdo_fields units n op_val max_val (f OR g)"
  by (simp add: rdo_fields_def or.assoc or.commute or.left_commute)

subsection \<open>The request is accepted and within the limits\<close>

lemma pdo_types_differ [simp]:
  "PDO_TYPE_FIXED \<noteq> PDO_TYPE_VARIABLE" "PDO_TYPE_FIXED \<noteq> PDO_TYPE_AUGMENTED" "PDO_TYPE_FIXED \<noteq> PDO_TYPE_BATTERY"
  "PDO_TYPE_VARIABLE \<noteq> PDO_TYPE_AUGMENTED" "PDO_TYPE_VARIABLE \<noteq> PDO_TYPE_FIXED" "PDO_TYPE_VARIABLE \<noteq> PDO_TYPE_BATTERY"
  by (simp_all add: PDO_TYPE_FIXED_def PDO_TYPE_BATTERY_def PDO_TYPE_VARIABLE_def PDO_TYPE_AUGMENTED_def)

lemma pdo_type_cases:
  "p AND PDO_TYPE_MASK \<in> {PDO_TYPE_FIXED, PDO_TYPE_BATTERY, PDO_TYPE_VARIABLE, PDO_TYPE_AUGMENTED}"
proof -
  have "p AND PDO_TYPE_MASK = (if bit p 30 then push_bit 30 (1 :: u32) else 0) OR (if bit p 31 then push_bit 31 (1 :: u32) else 0)"
  proof (rule bit_word_eqI)
    fix i :: nat
    show "bit (p AND PDO_TYPE_MASK) i = bit ((if bit p 30 then push_bit 30 (1 :: u32) else 0) OR (if bit p 31 then push_bit 31 (1 :: u32) else 0)) i"
      unfolding bit_and_iff bit_or_iff bit_type_mask if_distrib [of "\<lambda>w. bit w i"] bit_flag bit_0_eq by auto
  qed
  then show ?thesis
    by (auto simp: PDO_TYPE_FIXED_def PDO_TYPE_BATTERY_def PDO_TYPE_VARIABLE_def PDO_TYPE_AUGMENTED_def)
qed

lemma extract_power:
  assumes "pd_extract_pdo_power b p = (ma, mv, mn)"
    and "p AND PDO_TYPE_MASK = PDO_TYPE_FIXED \<or> p AND PDO_TYPE_MASK = PDO_TYPE_VARIABLE"
    and "0 \<le> PD_MAX_CURRENT_MA b" and "0 \<le> PD_MAX_POWER_MW b"
  shows "0 \<le> ma" and "ma \<le> pdo_field 0 0x3FF p * 10" and "ma \<le> PD_MAX_CURRENT_MA b" and "ma * mn \<le> PD_MAX_POWER_MW b * 1000"
proof -
  obtain xv nv where v: "pdo_voltages p = (xv, nv)" by fastforce
  have nv: "0 \<le> nv"
    using v assms(2) by (auto simp: pdo_voltages_def PDO_FIXED_VOLTAGE_def PDO_VAR_MIN_VOLTAGE_def pdo_field_bounds split: if_splits)
  let ?lim = "PD_MAX_POWER_MW b * 1000 div PROCESS_ZERO_DIVISOR nv"
  have lim: "0 \<le> ?lim" using assms(4) nv by (simp add: PROCESS_ZERO_DIVISOR_def pos_imp_zdiv_nonneg_iff)
  have limv: "?lim * nv \<le> PD_MAX_POWER_MW b * 1000"
  proof (cases "nv = 0")
    case True then show ?thesis using assms(4) by simp
  next
    case False
    then show ?thesis using nv
      by (simp add: PROCESS_ZERO_DIVISOR_def minus_mod_eq_div_mult [symmetric])
  qed
  have cur: "pdo_current p nv = pdo_field 0 0x3FF p * 10"
    using assms(2) by (auto simp: pdo_current_def PDO_FIXED_CURRENT_def PDO_VAR_MAX_CURRENT_def
        PDO_TYPE_FIXED_def PDO_TYPE_VARIABLE_def PDO_TYPE_AUGMENTED_def)
  have e: "xv = 0 \<and> ma = 0 \<and> mn = 0 \<or> ma = min (min (pdo_field 0 0x3FF p * 10) ?lim) (PD_MAX_CURRENT_MA b) \<and> mn = nv"
    using assms(1) v cur by (auto simp: pd_extract_pdo_power_def split: if_splits)
  show "0 \<le> ma" "ma \<le> pdo_field 0 0x3FF p * 10" "ma \<le> PD_MAX_CURRENT_MA b"
    using e lim assms(3,4) pdo_field_bounds(1) [of 0 "0x3FF" p] by auto
  show "ma * mn \<le> PD_MAX_POWER_MW b * 1000"
  proof (cases "ma = 0 \<and> mn = 0")
    case False
    with e have "mn = nv" "ma \<le> ?lim" by auto
    then have "ma * mn \<le> ?lim * nv" using nv by (simp add: mult_right_mono)
    with limv show ?thesis by linarith
  qed (use assms(4) in simp)
qed

text \<open>What the two theorems assume of a source: at most seven objects, the first of them of fixed type, and none that is a battery, unless the board only takes fixed supplies.\<close>

definition plain_offers :: "pd_board \<Rightarrow> u32 list \<Rightarrow> bool" where
  "plain_offers b caps \<longleftrightarrow> caps \<noteq> [] \<and> length caps \<le> 7 \<and> hd caps AND PDO_TYPE_MASK = PDO_TYPE_FIXED
     \<and> (ONLY_FIXED_PDOS b \<or> list_all (\<lambda>p. p AND PDO_TYPE_MASK \<noteq> PDO_TYPE_BATTERY) caps)"

lemma plain_choice:
  assumes "plain_offers b caps" and "i < length caps" and "i = 0 \<or> (\<exists>o1. pdo_offer b m i (caps ! i) = Some o1)"
  shows "caps ! i AND PDO_TYPE_MASK = PDO_TYPE_FIXED \<or> caps ! i AND PDO_TYPE_MASK = PDO_TYPE_VARIABLE"
proof (cases "i = 0")
  case True
  then show ?thesis using assms(1) by (auto simp: plain_offers_def hd_conv_nth)
next
  case False
  with assms(3) have "caps ! i AND PDO_TYPE_MASK \<noteq> PDO_TYPE_AUGMENTED"
      "ONLY_FIXED_PDOS b \<Longrightarrow> caps ! i AND PDO_TYPE_MASK = PDO_TYPE_FIXED"
    by (auto simp: pdo_offer_def Let_def split: if_splits)
  with assms(1,2) pdo_type_cases [of "caps ! i"] show ?thesis
    by (auto simp: plain_offers_def list_all_length)
qed

lemma build_request_value:
  assumes "request_pdo b env port = Some (i, p)" and "pd_extract_pdo_power b p = (ma, mv, mn)" and "\<not> 0 < sint vpd_vdo"
    and "p AND PDO_TYPE_MASK = PDO_TYPE_FIXED \<or> p AND PDO_TYPE_MASK = PDO_TYPE_VARIABLE"
  obtains f where "rdo_flags f" "pd_build_request b env vpd_vdo port = Some (rdo_fields 10 (int i + 1) ma ma f, ma, mv)"
proof -
  have t: "p AND PDO_TYPE_MASK \<noteq> PDO_TYPE_BATTERY" using assms(4) by auto
  let ?f = "(if ma * mv < 1000 * PD_OPERATING_POWER_MW b then RDO_CAP_MISMATCH else 0) OR (if PD_EPR b then RDO_EPR_MODE_CAPABLE else 0)"
  let ?g = "if pd_get_usb_comm_capable env then RDO_COMM_CAP OR (if pd_get_power_role env = PD_ROLE_SINK then RDO_NO_SUSPEND else 0) else 0"
  have "pd_build_request b env vpd_vdo port = Some (rdo_fields 10 (int i + 1) ma ma (?f OR ?g), ma, mv)"
    using assms(1-3) t by (simp add: pd_build_request_def vpd_adjust_def RDO_FIXED_def rdo_fields_or)
  moreover have "rdo_flags (?f OR ?g)" by simp
  ultimately show ?thesis using that by blast
qed

text \<open>
  C28: The request a sink builds from the offers of a source is accepted by a source that made those offers
  and runs the same code, whatever the preference, the limits and the state of the sink, if it was made
  directly (not behind a VCONN powered device) and not for a battery; it names one of the offers.
\<close>
theorem pd_request_accepted:
  assumes "pd_src_cap_cnt env = length (pd_src_caps env)" and "plain_offers b (pd_src_caps env)"
    and "0 \<le> PD_MAX_CURRENT_MA b" and "0 \<le> PD_MAX_POWER_MW b" and "\<not> 0 < sint vpd_vdo"
    and "\<And>r n. \<not> board_check r n"
  shows "\<exists>rdo ma mv. pd_build_request b env vpd_vdo port = Some (rdo, ma, mv)
     \<and> pd_check_requested_voltage board_check (pd_src_caps env) rdo = EC_SUCCESS
     \<and> 1 \<le> RDO_POS rdo \<and> RDO_POS rdo \<le> int (length (pd_src_caps env))"
proof -
  let ?caps = "pd_src_caps env"
  have c: "?caps \<noteq> []" "length ?caps \<le> 7" using assms(2) by (simp_all add: plain_offers_def)
  obtain i where i: "request_pdo b env port = Some (i, ?caps ! i)" "i < length ?caps"
      "i = 0 \<or> (\<exists>o1. pdo_offer b (min (max_request env) (PD_MAX_VOLTAGE_MV b)) i (?caps ! i) = Some o1)"
    by (rule request_pdo_result [OF assms(1) c(1), of b port])
  have t: "?caps ! i AND PDO_TYPE_MASK = PDO_TYPE_FIXED \<or> ?caps ! i AND PDO_TYPE_MASK = PDO_TYPE_VARIABLE"
    by (rule plain_choice [OF assms(2) i(2,3)])
  obtain ma mv mn where e: "pd_extract_pdo_power b (?caps ! i) = (ma, mv, mn)" by (metis prod_cases3)
  note ma = extract_power [OF e t assms(3,4)]
  have lt: "pdo_field 0 0x3FF (?caps ! i) < 1024"
    using pdo_field_bounds(2) [of 0 10 "?caps ! i"] by (simp add: mask_numerals)
  have d: "0 \<le> ma div 10" "ma div 10 \<le> pdo_field 0 0x3FF (?caps ! i)" using ma(1,2) by linarith+
  then have d1: "ma div 10 < 1024" using lt by linarith
  obtain f where f: "rdo_flags f" "pd_build_request b env vpd_vdo port = Some (rdo_fields 10 (int i + 1) ma ma f, ma, mv)"
    by (rule build_request_value [OF i(1) e assms(5) t])
  note v = rdo_field_values [OF f(1) _ _ d(1) d1 d(1) d1, of "int i + 1"]
  have p: "0 \<le> int i + 1" "int i + 1 < 16" using i(2) c(2) by linarith+
  have "pd_check_requested_voltage board_check ?caps (rdo_fields 10 (int i + 1) ma ma f) = EC_SUCCESS"
    using v [OF p] d(2) i(2) assms(6) by (simp add: pd_check_requested_voltage_def Let_def nat_add_distrib)
  then show ?thesis using f(2) v(3) [OF p] i(2) by auto
qed

definition pd_source0 :: "u32 list \<Rightarrow> pd_request_env" where
  "pd_source0 caps = \<lparr>pd_src_cap_cnt = length caps, pd_src_caps = caps, selected_charge_port = 0,
     pd_is_max_request_allowed = True, pd_get_max_voltage = 20000, dps_dynamic_voltage = None,
     own_fixed_pdo = PDO_FIXED_COMM_CAP, pd_get_power_role = PD_ROLE_SINK\<rparr>"

theorem pd_request_accepted_witness:
  "\<exists>rdo ma mv. pd_build_request (pd_board0 Prefer_Power) (pd_source0 [pdo_fixed 5000 3000, pdo_fixed 9000 3000]) 0 0 = Some (rdo, ma, mv)
     \<and> pd_check_requested_voltage (\<lambda>r n. False) [pdo_fixed 5000 3000, pdo_fixed 9000 3000] rdo = EC_SUCCESS
     \<and> 1 \<le> RDO_POS rdo \<and> RDO_POS rdo \<le> 2"
proof -
  have "plain_offers (pd_board0 Prefer_Power) [pdo_fixed 5000 3000, pdo_fixed 9000 3000]" by code_simp
  then show ?thesis
    using pd_request_accepted [of "pd_source0 [pdo_fixed 5000 3000, pdo_fixed 9000 3000]" "pd_board0 Prefer_Power" 0 "\<lambda>r n. False" 0]
    by (simp add: pd_source0_def pd_board0_def)
qed

text \<open>The current behind a VCONN powered device.\<close>

lemma vpd_current:
  fixes ma :: int
  shows "0 \<le> 750000 div ((if 3000 < ma then 150 else 250) + 2 * VPD_VDO_VBUS_IMP v + VPD_VDO_GND_IMP v)"
  "750000 div ((if 3000 < ma then 150 else 250) + 2 * VPD_VDO_VBUS_IMP v + VPD_VDO_GND_IMP v) \<le> (if ma \<le> 3000 then 3000 else 5000)"
proof -
  let ?loss = "2 * VPD_VDO_VBUS_IMP v + VPD_VDO_GND_IMP v"
  have l: "0 \<le> ?loss" using pdo_field_bounds(1) by (simp add: VPD_VDO_VBUS_IMP_def VPD_VDO_GND_IMP_def)
  then show "0 \<le> 750000 div ((if 3000 < ma then 150 else 250) + 2 * VPD_VDO_VBUS_IMP v + VPD_VDO_GND_IMP v)"
    by (simp add: pos_imp_zdiv_nonneg_iff)
  have "750000 div (250 + ?loss) \<le> 750000 div 250" "750000 div (150 + ?loss) \<le> 750000 div 150"
    using l by (intro zdiv_mono2; simp)+
  then show "750000 div ((if 3000 < ma then 150 else 250) + 2 * VPD_VDO_VBUS_IMP v + VPD_VDO_GND_IMP v) \<le> (if ma \<le> 3000 then 3000 else 5000)"
    by (simp add: add.assoc)
qed

text \<open>
  C29: If a source only offers fixed supplies, or the board only takes those, and its first offer is 5 V, which
  the board may use, then the request is for a voltage the board allows, at most the voltage asked for. If
  the port is connected to the source directly, the current and the power are within the limits of the
  board. Behind a VCONN powered device (\<open>vpd_vdo\<close> positive) they need not be: the current is then
  set from the losses of the device alone, to at most 3 A for a board that takes at most that, else 5 A.
\<close>
theorem pd_request_within_limits:
  assumes "pd_build_request b env vpd_vdo port = Some (rdo, ma, mv)"
    and "pd_src_cap_cnt env = length (pd_src_caps env)" and "plain_offers b (pd_src_caps env)"
    and "ONLY_FIXED_PDOS b \<or> list_all (\<lambda>p. p AND PDO_TYPE_MASK = PDO_TYPE_FIXED) (pd_src_caps env)"
    and "PDO_FIXED_VOLTAGE (hd (pd_src_caps env)) = 5000" and "5000 \<le> max_request env" and "5000 \<le> PD_MAX_VOLTAGE_MV b"
    and "pd_is_valid_input_voltage b 5000"
    and "0 \<le> PD_MAX_CURRENT_MA b" and "0 \<le> PD_MAX_POWER_MW b"
  shows "0 < mv \<and> mv \<le> max_request env \<and> mv \<le> PD_MAX_VOLTAGE_MV b \<and> pd_is_valid_input_voltage b mv \<and> 0 \<le> ma
     \<and> (if 0 < sint vpd_vdo then ma \<le> (if PD_MAX_CURRENT_MA b \<le> 3000 then 3000 else 5000)
        else ma \<le> PD_MAX_CURRENT_MA b \<and> ma * mv \<le> PD_MAX_POWER_MW b * 1000)"
proof -
  let ?caps = "pd_src_caps env"
  have c: "?caps \<noteq> []" using assms(3) by (simp add: plain_offers_def)
  obtain i where i: "request_pdo b env port = Some (i, ?caps ! i)" "i < length ?caps"
      "i = 0 \<or> (\<exists>o1. pdo_offer b (min (max_request env) (PD_MAX_VOLTAGE_MV b)) i (?caps ! i) = Some o1)"
    by (rule request_pdo_result [OF assms(2) c, of b port])
  have t: "?caps ! i AND PDO_TYPE_MASK = PDO_TYPE_FIXED \<or> ?caps ! i AND PDO_TYPE_MASK = PDO_TYPE_VARIABLE"
    by (rule plain_choice [OF assms(3) i(2,3)])
  have fx: "?caps ! i AND PDO_TYPE_MASK = PDO_TYPE_FIXED"
  proof (cases "i = 0")
    case True
    then show ?thesis using assms(3) by (auto simp: plain_offers_def hd_conv_nth)
  next
    case False
    with i(2,3) assms(4) show ?thesis by (auto simp: pdo_offer_def Let_def list_all_length split: if_splits)
  qed
  have i7: "i < 7" using i(2) assms(3) by (simp add: plain_offers_def)
  obtain ma' mv' mn where e: "pd_extract_pdo_power b (?caps ! i) = (ma', mv', mn)" by (metis prod_cases3)
  have adj: "(ma, mv) = vpd_adjust vpd_vdo (ma', mv')"
    using assms(1) i(1) e by (auto simp: pd_build_request_def Let_def split: prod.splits)
  have v: "0 < PDO_FIXED_VOLTAGE (?caps ! i) \<and> PDO_FIXED_VOLTAGE (?caps ! i) \<le> max_request env
      \<and> PDO_FIXED_VOLTAGE (?caps ! i) \<le> PD_MAX_VOLTAGE_MV b \<and> pd_is_valid_input_voltage b (PDO_FIXED_VOLTAGE (?caps ! i))
      \<and> PDO_FIXED_VOLTAGE (?caps ! i) \<le> 20000"
  proof (cases "i = 0")
    case True
    then show ?thesis using assms(5-8) c by (simp add: hd_conv_nth)
  next
    case False
    have "0 \<le> PDO_FIXED_VOLTAGE (?caps ! i)" by (simp add: PDO_FIXED_VOLTAGE_def pdo_field_bounds)
    with False i(3) i7 show ?thesis
      by (auto simp: pdo_offer_def Let_def PDO_FIXED_GET_VOLT_def PDO_FIXED_VOLTAGE_def PD_MAX_SPR_VOLTAGE_def split: if_splits)
  qed
  have mv': "mv' = PDO_FIXED_VOLTAGE (?caps ! i)" "mn = mv'"
    using e fx v by (auto simp: pd_extract_pdo_power_def pdo_voltages_def split: if_splits)
  have "mv = mv'" using adj mv'(1) v pdo_field_bounds(1) [of 15 "0x3" vpd_vdo]
    by (auto simp: vpd_adjust_def VPD_VDO_MAX_VBUS_def split: if_splits)
  moreover have "0 \<le> ma \<and> ma \<le> (if PD_MAX_CURRENT_MA b \<le> 3000 then 3000 else 5000)" if "0 < sint vpd_vdo"
  proof -
    have "ma' \<le> PD_MAX_CURRENT_MA b" by (rule extract_power(3) [OF e t assms(9,10)])
    then show ?thesis using adj that vpd_current [of ma' vpd_vdo] by (auto simp: vpd_adjust_def)
  qed
  moreover have "ma = ma'" if "\<not> 0 < sint vpd_vdo" using adj that by (simp add: vpd_adjust_def)
  ultimately show ?thesis using v mv' extract_power [OF e t assms(9,10)] by auto
qed

theorem pd_request_within_limits_witness:
  "\<exists>rdo ma mv. pd_build_request (pd_board0 Prefer_Power) (pd_source0 [pdo_fixed 5000 3000, pdo_fixed 20000 3000]) 0 0 = Some (rdo, ma, mv)
     \<and> 0 < mv \<and> mv \<le> 20000 \<and> ma \<le> 3000 \<and> ma * mv \<le> 45000000"
proof -
  have b: "pd_build_request (pd_board0 Prefer_Power) (pd_source0 [pdo_fixed 5000 3000, pdo_fixed 20000 3000]) 0 0 = Some (0x230384E1, 2250, 20000)"
    by code_simp
  have o: "plain_offers (pd_board0 Prefer_Power) [pdo_fixed 5000 3000, pdo_fixed 20000 3000]"
      "list_all (\<lambda>p. p AND PDO_TYPE_MASK = PDO_TYPE_FIXED) [pdo_fixed 5000 3000, pdo_fixed 20000 3000]"
      "PDO_FIXED_VOLTAGE (pdo_fixed 5000 3000) = 5000" by code_simp+
  show ?thesis
    using b o pd_request_within_limits [OF b] by (simp add: pd_source0_def pd_board0_def max_request_def)
qed

subsection \<open>Requests that are not accepted, or are for too much\<close>

text \<open>
  Behind a VCONN powered device without losses the current is raised to 3 A, or 5 A, whatever the source
  offers: a request for 3 A from a source of 500 mA, which refuses it.
\<close>

lemma vpd_raises_current:
  "map_option (\<lambda>(rdo, ma, mv). (ma, mv, pd_check_requested_voltage (\<lambda>r n. False) [pdo_fixed 5000 500] rdo))
     (pd_build_request (pd_board0 Prefer_Power) (pd_source0 [pdo_fixed 5000 500]) 1 0) = Some (3000, 5000, EC_ERROR_INVAL)"
  by code_simp

text \<open>
  The power asked of a battery is the product of the current at its least voltage and its greatest
  voltage: of a battery of 15 W at 5 to 20 V, 60 W are requested, and refused.
\<close>

definition pdo_range :: "u32 \<Rightarrow> int \<Rightarrow> int \<Rightarrow> int \<Rightarrow> u32" where
  "pdo_range ty min_mv max_mv unit_val =
     push_bit 20 (word_of_int (max_mv div 50)) OR push_bit 10 (word_of_int (min_mv div 50)) OR word_of_int unit_val OR ty"

lemma battery_asked_too_much:
  "map_option (\<lambda>(rdo, ma, mv). (pdo_field 10 0x3FF rdo * 250,
       pd_check_requested_voltage (\<lambda>r n. False) [pdo_fixed 5000 500, pdo_range PDO_TYPE_BATTERY 5000 20000 60] rdo))
     (pd_build_request (pd_board0 Prefer_Power) (pd_source0 [pdo_fixed 5000 500, pdo_range PDO_TYPE_BATTERY 5000 20000 60]) 0 0)
   = Some (60000, EC_ERROR_INVAL)"
  by code_simp

text \<open>
  Only the least voltage of a variable supply is compared with the limit: a board that allows 9 V
  asks for a supply of 5 to 20 V, and takes its voltage to be 20 V.
\<close>

lemma variable_above_limit:
  "map_option (\<lambda>(rdo, ma, mv). (RDO_POS rdo, mv))
     (pd_build_request ((pd_board0 Prefer_Power)\<lparr>PD_MAX_VOLTAGE_MV := 9000\<rparr>)
        (pd_source0 [pdo_fixed 5000 500, pdo_range PDO_TYPE_VARIABLE 5000 20000 300]) 0 0) = Some (2, 20000)"
  by code_simp

end
