(* ===== verification/DpmProps.thy ===== *)
theory DpmProps
  imports Dpm PdoProps
begin

section \<open>Correctness of the sharing of the 3 A\<close>

text \<open>
  At most \<open>CONFIG_USB_PD_3A_PORTS\<close> ports ever hold a claim, and for requests that stay as they are the
  balancing comes to rest, after a bounded number of deferred calls, in the allocation the priorities
  ask for, if no port is requested in two ways. The last part shows that it never comes to rest for a
  port that is, and that a port whose sink asks for less keeps its 3 A pull-up.
\<close>

definition dpm_wf :: "dpm_env \<Rightarrow> dpm \<Rightarrow> bool" where
  "dpm_wf env s \<longleftrightarrow> usb_pd_port_count env \<le> 32
     \<and> ports (max_current_claimed s) \<subseteq> {..<usb_pd_port_count env}
     \<and> ports (requested_ports s) \<subseteq> {..<usb_pd_port_count env}
     \<and> card (ports (max_current_claimed s)) \<le> USB_PD_3A_PORTS env"

text \<open>Balancing does not change the requests.\<close>

definition same_requests :: "dpm \<Rightarrow> dpm \<Rightarrow> bool" where
  "same_requests s s1 \<longleftrightarrow> sink_max_pdo_requested s1 = sink_max_pdo_requested s
     \<and> source_frs_max_requested s1 = source_frs_max_requested s
     \<and> non_pd_sink_max_requested s1 = non_pd_sink_max_requested s
     \<and> bist_shared_mode_enabled s1 = bist_shared_mode_enabled s"

lemma same_requests_simps:
  "same_requests s s" "same_requests s (dpm_emit e s1) \<longleftrightarrow> same_requests s s1"
  "same_requests s (claim_port p s1) \<longleftrightarrow> same_requests s s1" "same_requests s (unclaim_port p s1) \<longleftrightarrow> same_requests s s1"
  "same_requests s (s1\<lparr>deferred_waiting := b\<rparr>) \<longleftrightarrow> same_requests s s1"
  "same_requests (dpm_emit e s1) s \<longleftrightarrow> same_requests s1 s" "same_requests (claim_port p s1) s \<longleftrightarrow> same_requests s1 s"
  by (auto simp: same_requests_def dpm_emit_def claim_port_def unclaim_port_def)

lemma dpm_fields [simp]:
  "max_current_claimed (dpm_emit e s) = max_current_claimed s" "deferred_waiting (dpm_emit e s) = deferred_waiting s"
  "deferred_waiting (claim_port p s) = deferred_waiting s" "deferred_waiting (unclaim_port p s) = deferred_waiting s"
  "sink_max_pdo_requested (dpm_emit e s) = sink_max_pdo_requested s"
  "source_frs_max_requested (dpm_emit e s) = source_frs_max_requested s"
  "non_pd_sink_max_requested (dpm_emit e s) = non_pd_sink_max_requested s"
  "bist_shared_mode_enabled (dpm_emit e s) = bist_shared_mode_enabled s"
  "sink_max_pdo_requested (claim_port p s) = sink_max_pdo_requested s"
  "source_frs_max_requested (claim_port p s) = source_frs_max_requested s"
  "non_pd_sink_max_requested (claim_port p s) = non_pd_sink_max_requested s"
  by (simp_all add: dpm_emit_def claim_port_def unclaim_port_def)

lemma claimed_ports:
  "p < 32 \<Longrightarrow> ports (max_current_claimed (claim_port p s)) = insert p (ports (max_current_claimed s))"
  "p < 32 \<Longrightarrow> ports (max_current_claimed (unclaim_port p s)) = ports (max_current_claimed s) - {p}"
  by (simp_all add: claim_port_def unclaim_port_def ports_simps(2,3) ports_BIT32)

lemma bit_test: "i < 32 \<Longrightarrow> w AND BIT32 i \<noteq> 0 \<longleftrightarrow> i \<in> ports w"
  by (auto simp: ports_empty_iff ports_simps(1) ports_BIT32)

lemma count_ports:
  assumes "usb_pd_port_count env \<le> 32" and "ports w \<subseteq> {..<usb_pd_port_count env}"
  shows "count_port_bits env w = card (ports w)"
proof -
  have "filter (\<lambda>i. w AND BIT32 i \<noteq> 0) [0..<usb_pd_port_count env] = filter (\<lambda>i. i \<in> ports w) [0..<usb_pd_port_count env]"
    using assms(1) by (intro filter_cong) (auto simp: bit_test)
  moreover have "card (ports w) = card (set (filter (\<lambda>i. i \<in> ports w) [0..<usb_pd_port_count env]))"
    using assms(2) by (intro arg_cong [of _ _ card]) auto
  moreover have "length (filter (\<lambda>i. i \<in> ports w) [0..<usb_pd_port_count env])
      = card (set (filter (\<lambda>i. i \<in> ports w) [0..<usb_pd_port_count env]))"
    by (rule distinct_card [symmetric]) simp
  ultimately show ?thesis unfolding count_port_bits_def by (simp only:)
qed

lemma lowest_common:
  assumes "a AND b \<noteq> 0"
  shows "LOWEST_PORT (a AND b) < 32" "LOWEST_PORT (a AND b) \<in> ports a \<inter> ports b"
  using LOWEST_PORT_bit [OF assms] LOWEST_PORT_in [OF assms] by (simp_all add: ports_simps(1))

lemma downgrade_non_pd_claims:
  assumes "non_pd_sink_max_requested s AND max_current_claimed s \<noteq> 0"
  shows "same_requests s (downgrade_non_pd env s)" and "deferred_waiting (downgrade_non_pd env s)"
    and "\<exists>p \<in> ports (non_pd_sink_max_requested s) \<inter> ports (max_current_claimed s).
           ports (max_current_claimed (downgrade_non_pd env s)) = ports (max_current_claimed s) - {p}"
  using lowest_common [OF assms]
  by (auto simp: downgrade_non_pd_def Let_def same_requests_simps claimed_ports)

lemma downgrade_frs_claims:
  assumes "source_frs_max_requested s AND max_current_claimed s \<noteq> 0"
  shows "same_requests s (downgrade_frs s)" and "deferred_waiting (downgrade_frs s)"
    and "\<exists>p \<in> ports (source_frs_max_requested s) \<inter> ports (max_current_claimed s).
           ports (max_current_claimed (downgrade_frs s)) = ports (max_current_claimed s) - {p}"
  using lowest_common [OF assms]
  by (auto simp: downgrade_frs_def Let_def same_requests_simps claimed_ports)

subsection \<open>The loops\<close>

text \<open>
  How a loop that asks for the ports \<open>W\<close>, with the claims \<open>C\<close> to begin with, may end: all of \<open>W\<close> is
  claimed; or \<open>D\<close> was claimed, which is all there is, and a port of the first class \<open>Q\<close> (or, if none is
  left, of the second class \<open>F\<close>) was downgraded, or there is none.
\<close>

definition slot_freed :: "nat set \<Rightarrow> nat set \<Rightarrow> nat set \<Rightarrow> bool \<Rightarrow> dpm \<Rightarrow> bool" where
  "slot_freed Q F D waiting s \<longleftrightarrow>
     deferred_waiting s \<and> (\<exists>p \<in> Q \<inter> D. ports (max_current_claimed s) = D - {p})
     \<or> deferred_waiting s \<and> Q \<inter> D = {} \<and> (\<exists>p \<in> F \<inter> D. ports (max_current_claimed s) = D - {p})
     \<or> deferred_waiting s = waiting \<and> Q \<inter> D = {} \<and> F \<inter> D = {} \<and> ports (max_current_claimed s) = D"

definition loop_end :: "nat \<Rightarrow> nat set \<Rightarrow> nat set \<Rightarrow> nat set \<Rightarrow> nat set \<Rightarrow> bool \<Rightarrow> dpm \<Rightarrow> bool \<Rightarrow> bool" where
  "loop_end N Q F W C waiting s unlock \<longleftrightarrow>
     (if \<not> unlock then ports (max_current_claimed s) = C \<union> W \<and> card (ports (max_current_claimed s)) \<le> N \<and> deferred_waiting s = waiting
      else \<exists>D. C \<subseteq> D \<and> D \<subseteq> C \<union> W \<and> card D = N \<and> \<not> W \<subseteq> D \<and> slot_freed Q F D waiting s)"

lemma loop_end_all:
  "loop_end N Q F W C waiting s False
     \<longleftrightarrow> ports (max_current_claimed s) = C \<union> W \<and> card (ports (max_current_claimed s)) \<le> N \<and> deferred_waiting s = waiting"
  by (simp only: loop_end_def if_True simp_thms)

lemma loop_end_some:
  "loop_end N Q F W C waiting s True
     \<longleftrightarrow> (\<exists>D. C \<subseteq> D \<and> D \<subseteq> C \<union> W \<and> card D = N \<and> \<not> W \<subseteq> D \<and> slot_freed Q F D waiting s)"
  by (simp only: loop_end_def if_False simp_thms)

lemma loop_end_more:
  assumes "loop_end N Q F (W - {p}) (insert p C) waiting s unlock" and "p \<in> W"
  shows "loop_end N Q F W C waiting s unlock"
proof -
  have e: "insert p C \<union> (W - {p}) = C \<union> W" using assms(2) by auto
  show ?thesis
  proof (cases unlock)
    case False
    then have u: "unlock = False" by simp
    show ?thesis using assms(1) unfolding u loop_end_all e by blast
  next
    case True
    then have u: "unlock = True" by simp
    from assms(1) obtain D where "insert p C \<subseteq> D" "D \<subseteq> insert p C \<union> (W - {p})" "card D = N" "\<not> W - {p} \<subseteq> D" "slot_freed Q F D waiting s"
      unfolding u loop_end_some by blast
    then show ?thesis unfolding u loop_end_some e by blast
  qed
qed

lemma loop_end_non_pd:
  assumes "card (ports (max_current_claimed s)) = N" and "\<not> W \<subseteq> ports (max_current_claimed s)"
    and "non_pd_sink_max_requested s AND max_current_claimed s \<noteq> 0"
  shows "loop_end N (ports (non_pd_sink_max_requested s)) F W (ports (max_current_claimed s)) waiting (downgrade_non_pd env s) True"
  unfolding loop_end_some slot_freed_def
  using assms(1,2) downgrade_non_pd_claims [OF assms(3), of env] by (simp; blast)

lemma loop_end_frs:
  assumes "card (ports (max_current_claimed s)) = N" and "\<not> W \<subseteq> ports (max_current_claimed s)"
    and "non_pd_sink_max_requested s AND max_current_claimed s = 0" and "source_frs_max_requested s AND max_current_claimed s \<noteq> 0"
  shows "loop_end N (ports (non_pd_sink_max_requested s)) (ports (source_frs_max_requested s)) W
           (ports (max_current_claimed s)) waiting (downgrade_frs s) True"
proof -
  have "ports (non_pd_sink_max_requested s) \<inter> ports (max_current_claimed s) = {}"
    using assms(3) by (simp add: ports_empty_iff ports_simps(1))
  then show ?thesis
    unfolding loop_end_some slot_freed_def
    using assms(1,2) downgrade_frs_claims [OF assms(4)] by (simp; blast)
qed

lemma loop_end_stuck:
  assumes "card (ports (max_current_claimed s)) = N" and "\<not> W \<subseteq> ports (max_current_claimed s)"
    and "Q \<inter> ports (max_current_claimed s) = {}" and "F \<inter> ports (max_current_claimed s) = {}"
  shows "loop_end N Q F W (ports (max_current_claimed s)) (deferred_waiting s) s True"
  unfolding loop_end_some slot_freed_def using assms by blast

lemma sink_loop_end:
  assumes "usb_pd_port_count env \<le> 32" and "ports (max_current_claimed s) \<subseteq> {..<usb_pd_port_count env}"
    and "card (ports (max_current_claimed s)) \<le> USB_PD_3A_PORTS env"
    and "ports new_ports \<subseteq> {..<usb_pd_port_count env}" and "ports new_ports \<inter> ports (max_current_claimed s) = {}"
    and "sink_loop env new_ports s = (s1, unlock)"
  shows "same_requests s s1 \<and> loop_end (USB_PD_3A_PORTS env) (ports (non_pd_sink_max_requested s)) (ports (source_frs_max_requested s))
           (ports new_ports) (ports (max_current_claimed s)) (deferred_waiting s) s1 unlock"
  using assms
proof (induction env new_ports s rule: sink_loop.induct)
  case (1 env new_ports s)
  let ?p = "LOWEST_PORT new_ports"
  show ?case
  proof (cases "new_ports = 0")
    case True
    then show ?thesis using "1.prems" by (simp add: sink_loop.simps loop_end_def same_requests_simps)
  next
    case False
    note p = LOWEST_PORT_in [OF False] conjunct2 [OF LOWEST_PORT_bit [OF False]]
    note count = count_ports [OF "1.prems"(1,2)]
    show ?thesis
    proof (cases "card (ports (max_current_claimed s)) < USB_PD_3A_PORTS env")
      case True
      let ?s = "dpm_emit (Select_Rp ?p TYPEC_RP_3A0) (claim_port ?p s)"
      have c: "ports (max_current_claimed ?s) = insert ?p (ports (max_current_claimed s))" using p by (simp add: claimed_ports)
      have "same_requests ?s s1 \<and> loop_end (USB_PD_3A_PORTS env) (ports (non_pd_sink_max_requested ?s)) (ports (source_frs_max_requested ?s))
           (ports (new_ports AND NOT (BIT32 ?p))) (ports (max_current_claimed ?s)) (deferred_waiting ?s) s1 unlock"
      proof (rule "1.IH" [OF False refl])
        show "count_port_bits env (max_current_claimed s) < USB_PD_3A_PORTS env" using True count by simp
        show "card (ports (max_current_claimed ?s)) \<le> USB_PD_3A_PORTS env"
          unfolding c using True p "1.prems"(5) by (simp add: card_insert_if)
        show "sink_loop env (new_ports AND NOT (BIT32 ?p)) ?s = (s1, unlock)"
          using "1.prems"(6) False True count by (simp add: sink_loop.simps [of env new_ports s] Let_def)
        show "ports (max_current_claimed ?s) \<subseteq> {..<usb_pd_port_count env}" unfolding c using p "1.prems"(2,4) by auto
        show "ports (new_ports AND NOT (BIT32 ?p)) \<subseteq> {..<usb_pd_port_count env}" unfolding next_ports [OF False] using "1.prems"(4) by auto
        show "ports (new_ports AND NOT (BIT32 ?p)) \<inter> ports (max_current_claimed ?s) = {}" unfolding next_ports [OF False] c using "1.prems"(5) by auto
      qed (use "1.prems"(1) in simp_all)
      then show ?thesis
        unfolding next_ports [OF False] c using loop_end_more [OF _ p(1)] by (simp add: same_requests_simps)
    next
      case full: False
      have N: "card (ports (max_current_claimed s)) = USB_PD_3A_PORTS env" using full "1.prems"(3) by simp
      have r: "sink_loop env new_ports s =
          (if non_pd_sink_max_requested s AND max_current_claimed s \<noteq> 0 then (downgrade_non_pd env s, True)
           else if source_frs_max_requested s AND max_current_claimed s \<noteq> 0 then (downgrade_frs s, True) else (s, True))"
        using False full count by (simp add: sink_loop.simps [of env new_ports s] Let_def)
      have W: "\<not> ports new_ports \<subseteq> ports (max_current_claimed s)" using p(1) "1.prems"(5) by auto
      consider (non_pd) "non_pd_sink_max_requested s AND max_current_claimed s \<noteq> 0"
        | (frs) "non_pd_sink_max_requested s AND max_current_claimed s = 0" "source_frs_max_requested s AND max_current_claimed s \<noteq> 0"
        | (stuck) "non_pd_sink_max_requested s AND max_current_claimed s = 0" "source_frs_max_requested s AND max_current_claimed s = 0"
        by blast
      then show ?thesis
      proof cases
        case non_pd
        then show ?thesis using "1.prems"(6) r loop_end_non_pd [OF N W] downgrade_non_pd_claims(1) by auto
      next
        case frs
        then show ?thesis using "1.prems"(6) r loop_end_frs [OF N W] downgrade_frs_claims(1) by auto
      next
        case stuck
        then have "ports (non_pd_sink_max_requested s) \<inter> ports (max_current_claimed s) = {}"
            "ports (source_frs_max_requested s) \<inter> ports (max_current_claimed s) = {}"
          by (simp_all add: ports_empty_iff ports_simps(1))
        with stuck show ?thesis using "1.prems"(6) r loop_end_stuck [OF N W] by (auto simp: same_requests_simps)
      qed
    qed
  qed
qed

lemma frs_loop_end:
  assumes "usb_pd_port_count env \<le> 32" and "ports (max_current_claimed s) \<subseteq> {..<usb_pd_port_count env}"
    and "card (ports (max_current_claimed s)) \<le> USB_PD_3A_PORTS env"
    and "ports new_ports \<subseteq> {..<usb_pd_port_count env}" and "ports new_ports \<inter> ports (max_current_claimed s) = {}"
    and "frs_loop env new_ports s = (s1, unlock)"
  shows "same_requests s s1 \<and> loop_end (USB_PD_3A_PORTS env) (ports (non_pd_sink_max_requested s)) {}
           (ports new_ports) (ports (max_current_claimed s)) (deferred_waiting s) s1 unlock"
  using assms
proof (induction env new_ports s rule: frs_loop.induct)
  case (1 env new_ports s)
  let ?p = "LOWEST_PORT new_ports"
  show ?case
  proof (cases "new_ports = 0")
    case True
    then show ?thesis using "1.prems" by (simp add: frs_loop.simps loop_end_def same_requests_simps)
  next
    case False
    note p = LOWEST_PORT_in [OF False] conjunct2 [OF LOWEST_PORT_bit [OF False]]
    note count = count_ports [OF "1.prems"(1,2)]
    show ?thesis
    proof (cases "card (ports (max_current_claimed s)) < USB_PD_3A_PORTS env")
      case True
      let ?s = "dpm_emit (Frs_Det_Enable ?p) (claim_port ?p s)"
      have c: "ports (max_current_claimed ?s) = insert ?p (ports (max_current_claimed s))" using p by (simp add: claimed_ports)
      have "same_requests ?s s1 \<and> loop_end (USB_PD_3A_PORTS env) (ports (non_pd_sink_max_requested ?s)) {}
           (ports (new_ports AND NOT (BIT32 ?p))) (ports (max_current_claimed ?s)) (deferred_waiting ?s) s1 unlock"
      proof (rule "1.IH" [OF False refl])
        show "count_port_bits env (max_current_claimed s) < USB_PD_3A_PORTS env" using True count by simp
        show "card (ports (max_current_claimed ?s)) \<le> USB_PD_3A_PORTS env"
          unfolding c using True p "1.prems"(5) by (simp add: card_insert_if)
        show "frs_loop env (new_ports AND NOT (BIT32 ?p)) ?s = (s1, unlock)"
          using "1.prems"(6) False True count by (simp add: frs_loop.simps [of env new_ports s] Let_def)
        show "ports (max_current_claimed ?s) \<subseteq> {..<usb_pd_port_count env}" unfolding c using p "1.prems"(2,4) by auto
        show "ports (new_ports AND NOT (BIT32 ?p)) \<subseteq> {..<usb_pd_port_count env}" unfolding next_ports [OF False] using "1.prems"(4) by auto
        show "ports (new_ports AND NOT (BIT32 ?p)) \<inter> ports (max_current_claimed ?s) = {}" unfolding next_ports [OF False] c using "1.prems"(5) by auto
      qed (use "1.prems"(1) in simp_all)
      then show ?thesis
        unfolding next_ports [OF False] c using loop_end_more [OF _ p(1)] by (simp add: same_requests_simps)
    next
      case full: False
      have N: "card (ports (max_current_claimed s)) = USB_PD_3A_PORTS env" using full "1.prems"(3) by simp
      have r: "frs_loop env new_ports s =
          (if non_pd_sink_max_requested s AND max_current_claimed s \<noteq> 0 then (downgrade_non_pd env s, True) else (s, True))"
        using False full count by (simp add: frs_loop.simps [of env new_ports s] Let_def)
      have W: "\<not> ports new_ports \<subseteq> ports (max_current_claimed s)" using p(1) "1.prems"(5) by auto
      show ?thesis
      proof (cases "non_pd_sink_max_requested s AND max_current_claimed s = 0")
        case False
        then show ?thesis using "1.prems"(6) r loop_end_non_pd [OF N W] downgrade_non_pd_claims(1) by auto
      next
        case True
        then have "ports (non_pd_sink_max_requested s) \<inter> ports (max_current_claimed s) = {}"
          by (simp add: ports_empty_iff ports_simps(1))
        with True show ?thesis using "1.prems"(6) r loop_end_stuck [OF N W] by (auto simp: same_requests_simps)
      qed
    qed
  qed
qed

lemma non_pd_loop_end:
  assumes "usb_pd_port_count env \<le> 32" and "ports (max_current_claimed s) \<subseteq> {..<usb_pd_port_count env}"
    and "card (ports (max_current_claimed s)) \<le> USB_PD_3A_PORTS env"
    and "ports new_ports \<subseteq> {..<usb_pd_port_count env}" and "ports new_ports \<inter> ports (max_current_claimed s) = {}"
  shows "same_requests s (non_pd_loop env new_ports s) \<and> deferred_waiting (non_pd_loop env new_ports s) = deferred_waiting s
     \<and> ports (max_current_claimed s) \<subseteq> ports (max_current_claimed (non_pd_loop env new_ports s))
     \<and> ports (max_current_claimed (non_pd_loop env new_ports s)) \<subseteq> ports (max_current_claimed s) \<union> ports new_ports
     \<and> card (ports (max_current_claimed (non_pd_loop env new_ports s))) \<le> USB_PD_3A_PORTS env
     \<and> (card (ports (max_current_claimed (non_pd_loop env new_ports s))) < USB_PD_3A_PORTS env
           \<longrightarrow> ports new_ports \<subseteq> ports (max_current_claimed (non_pd_loop env new_ports s)))"
  using assms
proof (induction env new_ports s rule: non_pd_loop.induct)
  case (1 env new_ports s)
  let ?p = "LOWEST_PORT new_ports"
  note step = non_pd_loop.simps [of env new_ports s]
  show ?case
  proof (cases "new_ports = 0")
    case True
    then show ?thesis using "1.prems"(3) unfolding step by (simp add: same_requests_simps)
  next
    case False
    note p = LOWEST_PORT_in [OF False] conjunct2 [OF LOWEST_PORT_bit [OF False]]
    note count = count_ports [OF "1.prems"(1,2)]
    show ?thesis
    proof (cases "card (ports (max_current_claimed s)) < USB_PD_3A_PORTS env")
      case True
      let ?s = "dpm_emit (Select_Rp ?p TYPEC_RP_3A0) (claim_port ?p s)" and ?w = "new_ports AND NOT (BIT32 ?p)"
      have c: "ports (max_current_claimed ?s) = insert ?p (ports (max_current_claimed s))" using p by (simp add: claimed_ports)
      have r: "non_pd_loop env new_ports s = non_pd_loop env ?w ?s"
        unfolding step using False True count by (simp add: Let_def)
      have a: "card (ports (max_current_claimed ?s)) \<le> USB_PD_3A_PORTS env"
        unfolding c using True p "1.prems"(5) by (simp add: card_insert_if)
      have b: "ports (max_current_claimed ?s) \<subseteq> {..<usb_pd_port_count env}" unfolding c using p "1.prems"(2,4) by auto
      have d: "ports ?w \<subseteq> {..<usb_pd_port_count env}" unfolding next_ports [OF False] using "1.prems"(4) by auto
      have e: "ports ?w \<inter> ports (max_current_claimed ?s) = {}" unfolding next_ports [OF False] c using "1.prems"(5) by auto
      have "count_port_bits env (max_current_claimed s) < USB_PD_3A_PORTS env" using True count by simp
      from "1.IH" [OF False refl this "1.prems"(1) b a d e] p(1) show ?thesis
        unfolding r next_ports [OF False] c by (auto simp: same_requests_simps)
    next
      case full: False
      then have "non_pd_loop env new_ports s = s" unfolding step using False count by (simp add: Let_def)
      then show ?thesis using full "1.prems"(3) by (simp add: same_requests_simps)
    qed
  qed
qed

subsection \<open>The budget\<close>

lemma drop_unrequested_ports:
  "ports (max_current_claimed (drop_unrequested s)) = ports (max_current_claimed s) \<inter> ports (requested_ports s)"
  by (auto simp: drop_unrequested_def Let_def ports_def bit_simps dest: bit_imp_le_length)

lemma requested_ports_union:
  "ports (requested_ports s) = ports (sink_max_pdo_requested s) \<union> ports (source_frs_max_requested s) \<union> ports (non_pd_sink_max_requested s)"
  by (simp add: requested_ports_def ports_simps(2) Un_assoc)

lemma drop_unrequested_same: "same_requests s (drop_unrequested s)" "deferred_waiting (drop_unrequested s) = deferred_waiting s"
  by (simp_all add: drop_unrequested_def same_requests_def Let_def)

lemma same_requests_ports:
  assumes "same_requests s s1"
  shows "requested_ports s1 = requested_ports s"
  using assms by (simp add: same_requests_def requested_ports_def)

lemma same_requests_trans: "same_requests s s1 \<Longrightarrow> same_requests s1 s2 \<Longrightarrow> same_requests s s2"
  by (simp add: same_requests_def)

text \<open>What a loop leaves of the claims.\<close>

lemma loop_end_claims:
  assumes "loop_end N Q F W C waiting s unlock" and "finite C" and "finite W"
  shows "card (ports (max_current_claimed s)) \<le> N" and "ports (max_current_claimed s) \<subseteq> C \<union> W"
proof -
  have "card (D - {p}) \<le> N" if "card D = N" "D \<subseteq> C \<union> W" for D p
    using that finite_subset [OF that(2)] assms(2,3) by (metis card_Diff1_le finite_UnI)
  with assms(1) show "card (ports (max_current_claimed s)) \<le> N" "ports (max_current_claimed s) \<subseteq> C \<union> W"
    by (auto simp: loop_end_def slot_freed_def split: if_splits)
qed

text \<open>One balancing, as a sequence of its three loops.\<close>

lemma balance_ports_cases:
  assumes "dpm_wf env s"
  obtains s1 s2 u2 s3 u3 where
    "s1 = drop_unrequested s" "dpm_wf env s1"
    "same_requests s s2"
    "loop_end (USB_PD_3A_PORTS env) (ports (non_pd_sink_max_requested s)) (ports (source_frs_max_requested s))
       (ports (sink_max_pdo_requested s) - ports (max_current_claimed s1)) (ports (max_current_claimed s1)) (deferred_waiting s) s2 u2"
    "u2 \<Longrightarrow> balance_ports env s = s2"
    "\<not> u2 \<Longrightarrow> same_requests s s3 \<and> loop_end (USB_PD_3A_PORTS env) (ports (non_pd_sink_max_requested s)) {}
       (ports (source_frs_max_requested s) - ports (max_current_claimed s2)) (ports (max_current_claimed s2)) (deferred_waiting s) s3 u3"
    "\<not> u2 \<Longrightarrow> u3 \<Longrightarrow> balance_ports env s = s3"
    "\<not> u2 \<Longrightarrow> \<not> u3 \<Longrightarrow> same_requests s (balance_ports env s) \<and> deferred_waiting (balance_ports env s) = deferred_waiting s
     \<and> ports (max_current_claimed s3) \<subseteq> ports (max_current_claimed (balance_ports env s))
     \<and> ports (max_current_claimed (balance_ports env s)) \<subseteq> ports (max_current_claimed s3) \<union> ports (non_pd_sink_max_requested s)
     \<and> card (ports (max_current_claimed (balance_ports env s))) \<le> USB_PD_3A_PORTS env
     \<and> (card (ports (max_current_claimed (balance_ports env s))) < USB_PD_3A_PORTS env
           \<longrightarrow> ports (non_pd_sink_max_requested s) \<subseteq> ports (max_current_claimed (balance_ports env s)))"
proof -
  let ?n = "usb_pd_port_count env"
  define s1 where "s1 = drop_unrequested s"
  have r1: "same_requests s s1" "deferred_waiting s1 = deferred_waiting s" by (simp_all add: s1_def drop_unrequested_same)
  have c1: "ports (max_current_claimed s1) \<subseteq> ports (max_current_claimed s)" by (auto simp: s1_def drop_unrequested_ports)
  then have "card (ports (max_current_claimed s1)) \<le> card (ports (max_current_claimed s))" by (simp add: card_mono)
  with assms c1 have wf1: "dpm_wf env s1"
    using same_requests_ports [OF r1(1)] by (auto simp: dpm_wf_def)
  note w = wf1 [unfolded dpm_wf_def]
  have masks: "ports (sink_max_pdo_requested s) \<subseteq> {..<?n}" "ports (source_frs_max_requested s) \<subseteq> {..<?n}"
      "ports (non_pd_sink_max_requested s) \<subseteq> {..<?n}"
    using assms by (auto simp: dpm_wf_def requested_ports_union)
  obtain s2 u2 where s2: "sink_loop env (sink_max_pdo_requested s1 AND NOT (max_current_claimed s1)) s1 = (s2, u2)" by fastforce
  have new1: "ports (sink_max_pdo_requested s1 AND NOT (max_current_claimed s1)) = ports (sink_max_pdo_requested s) - ports (max_current_claimed s1)"
    using r1(1) by (simp add: ports_simps(3) same_requests_def)
  have l2: "same_requests s1 s2 \<and> loop_end (USB_PD_3A_PORTS env) (ports (non_pd_sink_max_requested s1)) (ports (source_frs_max_requested s1))
       (ports (sink_max_pdo_requested s) - ports (max_current_claimed s1)) (ports (max_current_claimed s1)) (deferred_waiting s1) s2 u2"
    using sink_loop_end [OF _ _ _ _ _ s2] w masks(1) unfolding new1 by blast
  then have r2: "same_requests s s2" using same_requests_trans [OF r1(1)] by blast
  have e2: "loop_end (USB_PD_3A_PORTS env) (ports (non_pd_sink_max_requested s)) (ports (source_frs_max_requested s))
       (ports (sink_max_pdo_requested s) - ports (max_current_claimed s1)) (ports (max_current_claimed s1)) (deferred_waiting s) s2 u2"
    using l2 r1 by (simp add: same_requests_def)
  have b2: "u2 \<Longrightarrow> balance_ports env s = s2" using s2 by (simp add: balance_ports_def s1_def Let_def)
  have c2: "card (ports (max_current_claimed s2)) \<le> USB_PD_3A_PORTS env" "ports (max_current_claimed s2) \<subseteq> {..<?n}"
    using loop_end_claims [OF e2] w masks(1) by auto
  obtain s3 u3 where s3: "frs_loop env (source_frs_max_requested s2 AND NOT (max_current_claimed s2)) s2 = (s3, u3)" by fastforce
  have new2: "ports (source_frs_max_requested s2 AND NOT (max_current_claimed s2)) = ports (source_frs_max_requested s) - ports (max_current_claimed s2)"
    using r2 by (simp add: ports_simps(3) same_requests_def)
  have e3: "same_requests s2 s3 \<and> loop_end (USB_PD_3A_PORTS env) (ports (non_pd_sink_max_requested s2)) {}
       (ports (source_frs_max_requested s) - ports (max_current_claimed s2)) (ports (max_current_claimed s2)) (deferred_waiting s2) s3 u3"
    using frs_loop_end [OF _ _ _ _ _ s3] w c2 masks(2) unfolding new2 by blast
  have d2: "\<not> u2 \<Longrightarrow> deferred_waiting s2 = deferred_waiting s" using e2 by (simp add: loop_end_def Let_def)
  have e3': "\<not> u2 \<Longrightarrow> same_requests s s3 \<and> loop_end (USB_PD_3A_PORTS env) (ports (non_pd_sink_max_requested s)) {}
       (ports (source_frs_max_requested s) - ports (max_current_claimed s2)) (ports (max_current_claimed s2)) (deferred_waiting s) s3 u3"
    using e3 r2 d2 same_requests_trans [OF r2] by (simp add: same_requests_def)
  have b3: "\<not> u2 \<Longrightarrow> u3 \<Longrightarrow> balance_ports env s = s3" using s2 s3 by (simp add: balance_ports_def s1_def Let_def)
  have c3: "card (ports (max_current_claimed s3)) \<le> USB_PD_3A_PORTS env" "ports (max_current_claimed s3) \<subseteq> {..<?n}"
    using loop_end_claims [OF conjunct2 [OF e3]] c2 masks(2) by auto
  have r3: "same_requests s s3" using same_requests_trans [OF r2] e3 by blast
  have new3: "ports (non_pd_sink_max_requested s3 AND NOT (max_current_claimed s3)) = ports (non_pd_sink_max_requested s) - ports (max_current_claimed s3)"
    using r3 by (simp add: ports_simps(3) same_requests_def)
  have d3: "\<not> u2 \<Longrightarrow> \<not> u3 \<Longrightarrow> deferred_waiting s3 = deferred_waiting s" using e3' by (simp add: loop_end_def Let_def)
  have b4: "\<not> u2 \<Longrightarrow> \<not> u3 \<Longrightarrow> balance_ports env s = non_pd_loop env (non_pd_sink_max_requested s3 AND NOT (max_current_claimed s3)) s3"
    using s2 s3 by (simp add: balance_ports_def s1_def Let_def)
  have l4: "ports (non_pd_sink_max_requested s3 AND NOT (max_current_claimed s3)) \<subseteq> {..<?n}"
      "ports (non_pd_sink_max_requested s3 AND NOT (max_current_claimed s3)) \<inter> ports (max_current_claimed s3) = {}"
    using masks(3) unfolding new3 by auto
  note e4 = non_pd_loop_end [OF _ c3(2,1) l4] 
  show ?thesis
  proof (rule that [OF s1_def wf1 r2 e2 b2 e3' b3])
    assume u: "\<not> u2" "\<not> u3"
    show "same_requests s (balance_ports env s) \<and> deferred_waiting (balance_ports env s) = deferred_waiting s
     \<and> ports (max_current_claimed s3) \<subseteq> ports (max_current_claimed (balance_ports env s))
     \<and> ports (max_current_claimed (balance_ports env s)) \<subseteq> ports (max_current_claimed s3) \<union> ports (non_pd_sink_max_requested s)
     \<and> card (ports (max_current_claimed (balance_ports env s))) \<le> USB_PD_3A_PORTS env
     \<and> (card (ports (max_current_claimed (balance_ports env s))) < USB_PD_3A_PORTS env
           \<longrightarrow> ports (non_pd_sink_max_requested s) \<subseteq> ports (max_current_claimed (balance_ports env s)))"
      using e4 w r3 d3 [OF u] same_requests_trans [OF r3] unfolding b4 [OF u] new3 by blast
  qed
qed

subsection \<open>Coming to rest\<close>

text \<open>The allocation the priorities ask for: all that is requested if there is enough, otherwise the higher classes first.\<close>

definition dpm_settled :: "dpm_env \<Rightarrow> dpm \<Rightarrow> bool" where
  "dpm_settled env s \<longleftrightarrow>
     (let C = ports (max_current_claimed s); S = ports (sink_max_pdo_requested s); F = ports (source_frs_max_requested s)
      in C \<subseteq> ports (requested_ports s) \<and> card C \<le> USB_PD_3A_PORTS env
         \<and> (card C < USB_PD_3A_PORTS env \<longrightarrow> ports (requested_ports s) \<subseteq> C)
         \<and> (\<not> S \<subseteq> C \<longrightarrow> C \<subseteq> S) \<and> (\<not> F \<subseteq> C \<longrightarrow> C \<subseteq> S \<union> F))"

definition one_request_each :: "dpm \<Rightarrow> bool" where
  "one_request_each s \<longleftrightarrow> ports (sink_max_pdo_requested s) \<inter> ports (source_frs_max_requested s) = {}
     \<and> ports (sink_max_pdo_requested s) \<inter> ports (non_pd_sink_max_requested s) = {}
     \<and> ports (source_frs_max_requested s) \<inter> ports (non_pd_sink_max_requested s) = {}"

text \<open>What each downgrading makes smaller.\<close>

definition lower_claims :: "dpm_env \<Rightarrow> dpm \<Rightarrow> nat" where
  "lower_claims env s =
     (let a = card (ports (max_current_claimed s) \<inter> ports (non_pd_sink_max_requested s));
          b = card (ports (max_current_claimed s) \<inter> ports (source_frs_max_requested s))
      in if a = 0 then b else a + usb_pd_port_count env)"

lemma card_inter_bound: "C \<subseteq> {..<n :: nat} \<Longrightarrow> card (C \<inter> A) \<le> n"
  using card_mono [of "{..<n}" "C \<inter> A"] by auto

lemma card_minus_one: "finite C \<Longrightarrow> p \<in> C \<inter> A \<Longrightarrow> card ((C - {p}) \<inter> A) + 1 = card (C \<inter> A)"
  using card_Suc_Diff1 [of "C \<inter> A" p] by (simp add: Diff_Int_distrib2)

lemma balance_wf:
  assumes "dpm_wf env s"
  shows "dpm_wf env (balance_ports env s)" and "same_requests s (balance_ports env s)"
proof -
  have "dpm_wf env (balance_ports env s) \<and> same_requests s (balance_ports env s)"
    using assms
  proof (cases rule: balance_ports_cases)
    case (1 s1 s2 u2 s3 u3)
    have m: "ports (sink_max_pdo_requested s) \<subseteq> {..<usb_pd_port_count env}" "ports (source_frs_max_requested s) \<subseteq> {..<usb_pd_port_count env}"
        "ports (non_pd_sink_max_requested s) \<subseteq> {..<usb_pd_port_count env}" "usb_pd_port_count env \<le> 32"
      using assms by (auto simp: dpm_wf_def requested_ports_union)
    have c2: "card (ports (max_current_claimed s2)) \<le> USB_PD_3A_PORTS env" "ports (max_current_claimed s2) \<subseteq> {..<usb_pd_port_count env}"
      using loop_end_claims [OF 1(4)] 1(2) m(1) by (auto simp: dpm_wf_def)
    have c3: "card (ports (max_current_claimed s3)) \<le> USB_PD_3A_PORTS env \<and> ports (max_current_claimed s3) \<subseteq> {..<usb_pd_port_count env}" if "\<not> u2"
      using loop_end_claims [OF conjunct2 [OF 1(6) [OF that]]] c2 m(2) by auto
    have wf: "dpm_wf env t" if "same_requests s t" "card (ports (max_current_claimed t)) \<le> USB_PD_3A_PORTS env"
        "ports (max_current_claimed t) \<subseteq> {..<usb_pd_port_count env}" for t
      using that assms same_requests_ports [OF that(1)] by (simp add: dpm_wf_def)
    show ?thesis
    proof (cases u2)
      case True
      then show ?thesis using 1(3,5) c2 wf by simp
    next
      case u2: False
      show ?thesis
      proof (cases u3)
        case True
        then show ?thesis using 1(6,7) u2 c3 wf by simp
      next
        case False
        with 1(8) u2 c3 m(3) wf [of "balance_ports env s"] show ?thesis by blast
      qed
    qed
  qed
  then show "dpm_wf env (balance_ports env s)" "same_requests s (balance_ports env s)" by simp_all
qed

text \<open>How a freed slot changes the count of the lower claims.\<close>

lemma freed_progress:
  assumes "slot_freed Q F D waiting s1" and "finite D" and "card (D \<inter> F) \<le> n"
    and "Q \<inter> D = Q \<inter> C" and "F \<inter> Q = {}" and "deferred_waiting s1" and "\<not> waiting"
    and "Q \<inter> D = {} \<Longrightarrow> F \<inter> D \<subseteq> C" and "finite C"
  shows "(let a = card (ports (max_current_claimed s1) \<inter> Q); b = card (ports (max_current_claimed s1) \<inter> F) in if a = 0 then b else a + n)
      < (let a = card (C \<inter> Q); b = card (C \<inter> F) in if a = 0 then b else a + n)"
proof -
  from assms(1,6,7) consider (q) p where "p \<in> Q \<inter> D" "ports (max_current_claimed s1) = D - {p}"
    | (f) p where "Q \<inter> D = {}" "p \<in> F \<inter> D" "ports (max_current_claimed s1) = D - {p}"
    unfolding slot_freed_def by blast
  then show ?thesis
  proof cases
    case q
    then have a: "card (ports (max_current_claimed s1) \<inter> Q) + 1 = card (C \<inter> Q)"
      using card_minus_one [OF assms(2), of p Q] assms(4) by (simp add: Int_commute)
    have "ports (max_current_claimed s1) \<inter> F = D \<inter> F" using q assms(5) by auto
    then show ?thesis using a assms(3) by (simp add: Let_def)
  next
    case f
    then have "C \<inter> Q = {}" "ports (max_current_claimed s1) \<inter> Q = {}" using assms(4) by blast+
    then have a: "card (C \<inter> Q) = 0" "card (ports (max_current_claimed s1) \<inter> Q) = 0" by simp_all
    have "card (ports (max_current_claimed s1) \<inter> F) + 1 = card (D \<inter> F)"
      using card_minus_one [OF assms(2), of p F] f by auto
    moreover have "card (D \<inter> F) \<le> card (C \<inter> F)"
      using assms(8) [OF f(1)] assms(9) by (intro card_mono) auto
    ultimately show ?thesis using a by (simp add: Let_def)
  qed
qed

lemma claimed_by_sinks:
  assumes "C1 = C \<inter> (S \<union> F \<union> Q)" and "C1 \<subseteq> D" and "D \<subseteq> C1 \<union> (S - C1)" and "S \<inter> F = {}" and "S \<inter> Q = {}"
  shows "Q \<inter> D = Q \<inter> C" and "F \<inter> D \<subseteq> C" and "D \<subseteq> S \<union> F \<union> Q"
  using assms by blast+

lemma claimed_by_sources:
  assumes "C1 = C \<inter> (S \<union> F \<union> Q)" and "C2 = C1 \<union> (S - C1)" and "C2 \<subseteq> D" and "D \<subseteq> C2 \<union> (F - C2)" and "S \<inter> Q = {}" and "F \<inter> Q = {}"
  shows "Q \<inter> D = Q \<inter> C" and "D \<subseteq> S \<union> F \<union> Q" and "S \<subseteq> D"
  using assms by blast+

lemma balance_progress:
  assumes "dpm_wf env s" and "one_request_each s" and "\<not> deferred_waiting s"
  shows "if deferred_waiting (balance_ports env s) then lower_claims env (balance_ports env s) < lower_claims env s
         else dpm_settled env (balance_ports env s)"
  using assms(1)
proof (cases rule: balance_ports_cases)
  case (1 s1 s2 u2 s3 u3)
  let ?S = "ports (sink_max_pdo_requested s)" and ?F = "ports (source_frs_max_requested s)" and ?Q = "ports (non_pd_sink_max_requested s)"
  let ?C = "ports (max_current_claimed s)" and ?C1 = "ports (max_current_claimed s1)" and ?C2 = "ports (max_current_claimed s2)"
  let ?C3 = "ports (max_current_claimed s3)" and ?n = "usb_pd_port_count env" and ?N = "USB_PD_3A_PORTS env"
  let ?t = "balance_ports env s" and ?T = "ports (max_current_claimed (balance_ports env s))"
  have dj: "?S \<inter> ?F = {}" "?S \<inter> ?Q = {}" "?F \<inter> ?Q = {}" using assms(2) by (auto simp: one_request_each_def)
  have m: "?S \<subseteq> {..<?n}" "?F \<subseteq> {..<?n}" "?Q \<subseteq> {..<?n}"
    using assms(1) by (auto simp: dpm_wf_def requested_ports_union)
  have C1: "?C1 = ?C \<inter> (?S \<union> ?F \<union> ?Q)" by (simp add: 1(1) drop_unrequested_ports requested_ports_union)
  have same: "same_requests s ?t" and wf: "dpm_wf env ?t" using balance_wf [OF assms(1)] by simp_all
  have masks: "sink_max_pdo_requested ?t = sink_max_pdo_requested s" "source_frs_max_requested ?t = source_frs_max_requested s"
      "non_pd_sink_max_requested ?t = non_pd_sink_max_requested s" using same by (simp_all add: same_requests_def)
  have T: "card ?T \<le> ?N" using wf by (simp add: dpm_wf_def)
  have settled: "dpm_settled env ?t"
    if "?T \<subseteq> ?S \<union> ?F \<union> ?Q" "card ?T < ?N \<Longrightarrow> ?S \<union> ?F \<union> ?Q \<subseteq> ?T" "\<not> ?S \<subseteq> ?T \<Longrightarrow> ?T \<subseteq> ?S" "\<not> ?F \<subseteq> ?T \<Longrightarrow> ?T \<subseteq> ?S \<union> ?F"
    using that T unfolding dpm_settled_def Let_def requested_ports_union masks by blast
  have lower: "lower_claims env ?t < lower_claims env s"
    if "?t = r" "slot_freed ?Q ?F D (deferred_waiting s) r \<or> slot_freed ?Q {} D (deferred_waiting s) r" "deferred_waiting r"
      "D \<subseteq> ?S \<union> ?F \<union> ?Q" "?Q \<inter> D = ?Q \<inter> ?C" "?Q \<inter> D = {} \<Longrightarrow> slot_freed ?Q ?F D (deferred_waiting s) r \<Longrightarrow> ?F \<inter> D \<subseteq> ?C" for r D
  proof -
    have fin: "finite D" using that(4) by (rule finite_subset) simp
    have f: "slot_freed ?Q ?F D (deferred_waiting s) r" using that(2,3) assms(3) unfolding slot_freed_def by blast
    have "card (D \<inter> ?F) \<le> ?n" using m that(4) by (intro card_inter_bound) auto
    from freed_progress [OF f fin this that(5) dj(3) that(3) assms(3) that(6) [OF _ f] finite_ports]
    show ?thesis unfolding lower_claims_def that(1) masks [unfolded that(1)] by simp
  qed
  show ?thesis
  proof (cases u2)
    case True
    then have t: "?t = s2" using 1(5) by simp
    have u: "u2 = True" using True by simp
    from 1(4) [unfolded u loop_end_some] obtain D where D: "?C1 \<subseteq> D" "D \<subseteq> ?C1 \<union> (?S - ?C1)" "card D = ?N" "\<not> ?S - ?C1 \<subseteq> D" "slot_freed ?Q ?F D (deferred_waiting s) s2"
      by (elim exE conjE)
    note q = claimed_by_sinks [OF C1 D(1,2) dj(1,2)]
    show ?thesis
    proof (cases "deferred_waiting s2")
      case True
      then show ?thesis using lower [OF t _ True q(3,1)] D(5) q(2) t by simp
    next
      case False
      with D(5) have "?C2 = D" "?Q \<inter> D = {}" "?F \<inter> D = {}" unfolding slot_freed_def by auto
      then show ?thesis using settled False t D(3,4) q(3) by auto
    qed
  next
    case u2: False
    then have "u2 = False" by simp
    with 1(4) have C2: "?C2 = ?C1 \<union> (?S - ?C1)" "deferred_waiting s2 = deferred_waiting s" by (simp_all only: loop_end_all)
    note e3 = 1(6) [OF u2]
    show ?thesis
    proof (cases u3)
      case True
      then have t: "?t = s3" using 1(7) u2 by simp
      have u: "u3 = True" using True by simp
      from conjunct2 [OF e3, unfolded u loop_end_some] obtain D where D: "?C2 \<subseteq> D" "D \<subseteq> ?C2 \<union> (?F - ?C2)" "card D = ?N" "\<not> ?F - ?C2 \<subseteq> D" "slot_freed ?Q {} D (deferred_waiting s) s3"
        by (elim exE conjE)
      note q = claimed_by_sources [OF C1 C2(1) D(1,2) dj(2,3)]
      show ?thesis
      proof (cases "deferred_waiting s3")
        case True
        with D(5) assms(3) have "?Q \<inter> D \<noteq> {}" unfolding slot_freed_def by auto
        then show ?thesis using lower [OF t _ True q(2,1)] D(5) t True by simp
      next
        case False
        with D(5) have "?C3 = D" "?Q \<inter> D = {}" unfolding slot_freed_def by auto
        then show ?thesis using settled False t D(3) q(2,3) by auto
      qed
    next
      case False
      then have "u3 = False" by simp
      with e3 have C3: "?C3 = ?C2 \<union> (?F - ?C2)" by (simp only: loop_end_all)
      note e4 = 1(8) [OF u2 False]
      have "?S \<subseteq> ?T" "?F \<subseteq> ?T" "?T \<subseteq> ?S \<union> ?F \<union> ?Q" using e4 C3 C2(1) C1 by auto
      moreover have "\<not> deferred_waiting ?t" using e4 assms(3) by blast
      moreover have "card ?T < ?N \<Longrightarrow> ?Q \<subseteq> ?T" using e4 by blast
      ultimately show ?thesis using settled by auto
    qed
  qed
qed

lemma lower_claims_bound:
  assumes "dpm_wf env s"
  shows "lower_claims env s \<le> 2 * usb_pd_port_count env"
proof -
  have "card (ports (max_current_claimed s) \<inter> A) \<le> usb_pd_port_count env" for A
    using assms by (intro card_inter_bound) (simp add: dpm_wf_def)
  from this [of "ports (non_pd_sink_max_requested s)"] this [of "ports (source_frs_max_requested s)"] show ?thesis
    unfolding lower_claims_def Let_def by simp
qed

lemma one_request_same: "same_requests s t \<Longrightarrow> one_request_each t = one_request_each s"
  by (simp add: same_requests_def one_request_each_def)

lemma settles_within:
  "dpm_wf env s \<Longrightarrow> one_request_each s \<Longrightarrow> \<not> bist_shared_mode_enabled s \<Longrightarrow> lower_claims env (s\<lparr>deferred_waiting := False\<rparr>) \<le> m
     \<Longrightarrow> \<exists>k t. k \<le> m + 1 \<and> (balance_source_ports env True ^^ k) s = t \<and> same_requests s t
           \<and> \<not> deferred_waiting t \<and> dpm_settled env t"
proof (induction m arbitrary: s rule: less_induct)
  case (less m)
  let ?s = "s\<lparr>deferred_waiting := False\<rparr>" and ?t = "balance_source_ports env True s"
  have wf: "dpm_wf env ?s" "one_request_each ?s"
    using less.prems(1,2) by (simp_all add: dpm_wf_def one_request_each_def requested_ports_def)
  have t: "?t = balance_ports env ?s" using less.prems(3) by (simp add: balance_source_ports_def)
  have "same_requests s ?s" by (simp add: same_requests_def)
  with balance_wf [OF wf(1)] have st: "same_requests s ?t" "dpm_wf env ?t" unfolding t by (auto intro: same_requests_trans)
  note pr = balance_progress [OF wf, folded t]
  show ?case
  proof (cases "deferred_waiting ?t")
    case False
    then show ?thesis using pr st t by (intro exI [of _ "1 :: nat"] exI [of _ ?t]) simp
  next
    case True
    have e: "lower_claims env (?t\<lparr>deferred_waiting := False\<rparr>) = lower_claims env ?t" by (simp add: lower_claims_def)
    from True pr have l: "lower_claims env ?t < m" using less.prems(4) by simp
    have "one_request_each ?t" "\<not> bist_shared_mode_enabled ?t"
      using one_request_same [OF st(1)] less.prems(2,3) st(1) by (simp_all add: same_requests_def)
    with less.IH [OF l st(2)] e obtain k u where k: "k \<le> lower_claims env ?t + 1" "(balance_source_ports env True ^^ k) ?t = u"
        "same_requests ?t u" "\<not> deferred_waiting u" "dpm_settled env u" by auto
    have "(balance_source_ports env True ^^ Suc k) s = u" using k(2) by (simp add: funpow_swap1)
    moreover have "same_requests s u" using same_requests_trans [OF st(1) k(3)] .
    moreover have "Suc k \<le> m + 1" using k(1) l by linarith
    ultimately show ?thesis using k(4,5) by blast
  qed
qed

text \<open>
  C31: If no port is requested in two ways, the balancing comes to rest after at most one deferred call for each
  possible downgrade (twice the number of ports) and one more, without changing a request. Then no call is
  waited for, all that is requested is claimed if there is enough, no FRS source or sink without PD holds a
  claim while a PD sink waits, and no sink without PD holds one while an FRS source waits.
\<close>
theorem dpm_balance_settles:
  assumes "dpm_wf env s" and "one_request_each s" and "\<not> bist_shared_mode_enabled s"
  shows "\<exists>k t. k \<le> 2 * usb_pd_port_count env + 1 \<and> (balance_source_ports env True ^^ k) s = t \<and> same_requests s t
           \<and> \<not> deferred_waiting t \<and> dpm_settled env t"
proof -
  have "dpm_wf env (s\<lparr>deferred_waiting := False\<rparr>)" using assms(1) by (simp add: dpm_wf_def requested_ports_def)
  from settles_within [OF assms lower_claims_bound [OF this]] show ?thesis .
qed

definition dpm_env0 :: "nat \<Rightarrow> nat \<Rightarrow> dpm_env" where
  "dpm_env0 n three_a = \<lparr>usb_pd_port_count = n, USB_PD_3A_PORTS = three_a, USB_PD_FRS = True,
     power_role_of = \<lambda>p. PD_ROLE_SOURCE, partner_rev20 = \<lambda>p. False, default_rp = \<lambda>p. TYPEC_RP_1A5\<rparr>"

text \<open>A sink without PD on port 0 gives its 3 A to a PD sink on port 1.\<close>

theorem dpm_balance_settles_witness:
  "\<exists>k t. k \<le> 5 \<and> (balance_source_ports (dpm_env0 2 1) True ^^ k)
        (dpm_boot\<lparr>max_current_claimed := 1, non_pd_sink_max_requested := 1, sink_max_pdo_requested := 2\<rparr>) = t
     \<and> \<not> deferred_waiting t \<and> dpm_settled (dpm_env0 2 1) t"
proof -
  let ?s = "dpm_boot\<lparr>max_current_claimed := 1, non_pd_sink_max_requested := 1, sink_max_pdo_requested := 2\<rparr>"
  have p: "ports 1 = {0}" "ports 2 = {1}" "ports 3 = {0, 1}"
    using ports_BIT32 [of 0] ports_BIT32 [of 1] ports_simps(2) [of 1 2] by (auto simp: BIT32_def)
  have "dpm_wf (dpm_env0 2 1) ?s" "one_request_each ?s" "\<not> bist_shared_mode_enabled ?s"
    by (auto simp: dpm_wf_def dpm_env0_def dpm_boot_def requested_ports_def one_request_each_def p)
  from dpm_balance_settles [OF this] show ?thesis by (auto simp: dpm_env0_def)
qed

subsection \<open>Every sequence of calls\<close>

datatype dpm_call =
    Sink_Pdo nat u32
  | Non_Pd_Sink nat
  | Request_Rdo nat u32
  | Remove_Sink nat
  | Remove_Source nat
  | Bist_Enter nat
  | Bist_Exit
  | Deferred_Balance

fun dpm_do :: "dpm_env \<times> dpm_call \<Rightarrow> dpm \<Rightarrow> dpm" where
  "dpm_do (env, Sink_Pdo port pdo) = dpm_evaluate_sink_fixed_pdo env port pdo"
| "dpm_do (env, Non_Pd_Sink port) = dpm_add_non_pd_sink env port"
| "dpm_do (env, Request_Rdo port rdo) = dpm_evaluate_request_rdo env port rdo"
| "dpm_do (env, Remove_Sink port) = dpm_remove_sink env port"
| "dpm_do (env, Remove_Source port) = dpm_remove_source env port"
| "dpm_do (env, Bist_Enter port) = dpm_bist_shared_mode_enter env port"
| "dpm_do (env, Bist_Exit) = dpm_bist_shared_mode_exit env"
| "dpm_do (env, Deferred_Balance) = balance_source_ports env True"

fun port_in_range :: "nat \<Rightarrow> nat \<Rightarrow> dpm_env \<times> dpm_call \<Rightarrow> bool" where
  "port_in_range n three_a (env, c) \<longleftrightarrow> usb_pd_port_count env = n \<and> USB_PD_3A_PORTS env = three_a
     \<and> (case c of Sink_Pdo p pdo \<Rightarrow> p < n | Non_Pd_Sink p \<Rightarrow> p < n | Request_Rdo p rdo \<Rightarrow> p < n
         | Remove_Sink p \<Rightarrow> p < n | Remove_Source p \<Rightarrow> p < n | Bist_Enter p \<Rightarrow> p < n | _ \<Rightarrow> True)"

lemma balance_source_ports_wf:
  assumes "dpm_wf env s"
  shows "dpm_wf env (balance_source_ports env b s)"
proof -
  have "dpm_wf env (s\<lparr>deferred_waiting := False\<rparr>)" using assms by (simp add: dpm_wf_def requested_ports_def)
  then show ?thesis using assms balance_wf(1) by (simp add: balance_source_ports_def Let_def)
qed

lemma dpm_wf_request:
  assumes "dpm_wf env s" and "p < usb_pd_port_count env"
  shows "dpm_wf env (s\<lparr>sink_max_pdo_requested := sink_max_pdo_requested s OR BIT32 p\<rparr>)"
    and "dpm_wf env (s\<lparr>source_frs_max_requested := source_frs_max_requested s OR BIT32 p\<rparr>)"
    and "dpm_wf env (s\<lparr>non_pd_sink_max_requested := non_pd_sink_max_requested s OR BIT32 p\<rparr>)"
proof -
  have "p < 32" using assms by (simp add: dpm_wf_def)
  then show "dpm_wf env (s\<lparr>sink_max_pdo_requested := sink_max_pdo_requested s OR BIT32 p\<rparr>)"
      "dpm_wf env (s\<lparr>source_frs_max_requested := source_frs_max_requested s OR BIT32 p\<rparr>)"
      "dpm_wf env (s\<lparr>non_pd_sink_max_requested := non_pd_sink_max_requested s OR BIT32 p\<rparr>)"
    using assms by (auto simp: dpm_wf_def requested_ports_union ports_simps(2) ports_BIT32)
qed

lemma dpm_wf_unrequest:
  assumes "dpm_wf env s"
  shows "dpm_wf env (s\<lparr>sink_max_pdo_requested := sink_max_pdo_requested s AND NOT w\<rparr>)"
    and "dpm_wf env (s\<lparr>source_frs_max_requested := source_frs_max_requested s AND NOT w\<rparr>)"
    and "dpm_wf env (dpm_emit e (s\<lparr>sink_max_pdo_requested := sink_max_pdo_requested s AND NOT w,
           non_pd_sink_max_requested := non_pd_sink_max_requested s AND NOT w\<rparr>))"
  using assms by (auto simp: dpm_wf_def requested_ports_union ports_simps(3))

lemma dpm_wf_emits: "dpm_wf env (fold (\<lambda>i. dpm_emit (f i)) xs s) = dpm_wf env s"
  by (induction xs arbitrary: s) (simp_all add: dpm_wf_def requested_ports_def)

lemma dpm_do_wf:
  assumes "dpm_wf env s" and "port_in_range (usb_pd_port_count env) (USB_PD_3A_PORTS env) (env1, c)"
  shows "dpm_wf env (dpm_do (env1, c) s)"
proof -
  have e: "dpm_wf env1 t = dpm_wf env t" for t using assms(2) by (simp add: dpm_wf_def)
  have n: "usb_pd_port_count env1 = usb_pd_port_count env" using assms(2) by simp
  have w: "dpm_wf env1 s" using assms(1) e by simp
  have b: "dpm_wf env (s\<lparr>bist_shared_mode_enabled := x\<rparr>)" for x using assms(1) by (simp add: dpm_wf_def requested_ports_def)
  have f: "dpm_wf env (dpm_emit x s)" for x using assms(1) by (simp add: dpm_wf_def requested_ports_def)
  note bal = balance_source_ports_wf [where env = env1, unfolded e]
  show ?thesis
  proof (cases c)
    case (Sink_Pdo p pdo)
    then have "p < usb_pd_port_count env" using assms(2) by simp
    with Sink_Pdo assms(1) dpm_wf_request [OF assms(1)] f show ?thesis
      by (auto simp: dpm_evaluate_sink_fixed_pdo_def Let_def intro!: bal)
  next
    case (Non_Pd_Sink p)
    with assms dpm_wf_request [OF assms(1)] show ?thesis by (auto simp: dpm_add_non_pd_sink_def intro!: bal)
  next
    case (Request_Rdo p rdo)
    with assms(1) dpm_wf_unrequest [OF assms(1)] show ?thesis by (auto simp: dpm_evaluate_request_rdo_def Let_def intro!: bal)
  next
    case (Remove_Sink p)
    with assms(1) dpm_wf_unrequest [OF assms(1)] show ?thesis by (auto simp: dpm_remove_sink_def intro!: bal)
  next
    case (Remove_Source p)
    with assms(1) dpm_wf_unrequest [OF assms(1)] show ?thesis by (auto simp: dpm_remove_source_def intro!: bal)
  next
    case (Bist_Enter p)
    with assms(1) b show ?thesis by (simp add: dpm_bist_shared_mode_enter_def dpm_wf_emits)
  next
    case Bist_Exit
    with assms(1) b show ?thesis by (simp add: dpm_bist_shared_mode_exit_def dpm_wf_emits)
  next
    case Deferred_Balance
    with assms(1) show ?thesis by (simp add: bal)
  qed
qed

lemma dpm_run_wf:
  "dpm_wf env s \<Longrightarrow> list_all (port_in_range (usb_pd_port_count env) (USB_PD_3A_PORTS env)) cs \<Longrightarrow> dpm_wf env (fold dpm_do cs s)"
  by (induction cs arbitrary: s) (auto simp del: dpm_do.simps port_in_range.simps intro: dpm_do_wf)

subsection \<open>The pull-ups\<close>

text \<open>The pull-up that the manager selected last for a port.\<close>

fun pull_up :: "dpm_effect list \<Rightarrow> nat \<Rightarrow> tcpc_rp_value option" where
  "pull_up [] p = None"
| "pull_up (Select_Rp q rp # es) p = (if q = p then Some rp else pull_up es p)"
| "pull_up (_ # es) p = pull_up es p"

text \<open>Calls after which no pull-up of 3 A stays behind: no FRS, no request for less current, no shared test mode.\<close>

definition keeps_no_pull_up :: "dpm_env \<times> dpm_call \<Rightarrow> bool" where
  "keeps_no_pull_up = (\<lambda>(env, c). \<not> USB_PD_FRS env \<and> (\<forall>p<32. default_rp env p \<noteq> TYPEC_RP_3A0)
     \<and> (case c of Request_Rdo p rdo \<Rightarrow> False | Bist_Enter p \<Rightarrow> False | _ \<Rightarrow> True))"

definition pull_up_inv :: "dpm \<Rightarrow> bool" where
  "pull_up_inv s \<longleftrightarrow> source_frs_max_requested s = 0 \<and>
     (\<forall>p. pull_up (dpm_effects s) p = Some TYPEC_RP_3A0 \<longrightarrow> p \<in> ports (max_current_claimed s) \<and> p \<in> ports (requested_ports s))"

lemma pull_up_claim:
  "pull_up_inv s \<Longrightarrow> p < 32 \<Longrightarrow> p \<in> ports (requested_ports s) \<Longrightarrow>
     pull_up_inv (dpm_emit (Select_Rp p TYPEC_RP_3A0) (claim_port p s)) \<and>
     requested_ports (dpm_emit (Select_Rp p TYPEC_RP_3A0) (claim_port p s)) = requested_ports s"
  by (auto simp: pull_up_inv_def dpm_emit_def claim_port_def requested_ports_def ports_simps(2,3) ports_BIT32)

lemma pull_up_downgrade:
  assumes "pull_up_inv s" "\<forall>p<32. default_rp env p \<noteq> TYPEC_RP_3A0" "non_pd_sink_max_requested s AND max_current_claimed s \<noteq> 0"
  shows "pull_up_inv (downgrade_non_pd env s)"
proof -
  have p: "LOWEST_PORT (non_pd_sink_max_requested s AND max_current_claimed s) < 32" using LOWEST_PORT_bit [OF assms(3)] by simp
  then show ?thesis
    using assms(1,2)
    by (auto simp: pull_up_inv_def downgrade_non_pd_def Let_def dpm_emit_def unclaim_port_def requested_ports_def
        ports_simps(2,3) ports_BIT32 [OF p])
qed

lemma pull_up_sink_loop:
  "pull_up_inv s \<Longrightarrow> \<forall>p<32. default_rp env p \<noteq> TYPEC_RP_3A0 \<Longrightarrow> ports w \<subseteq> ports (requested_ports s) \<Longrightarrow>
     pull_up_inv (fst (sink_loop env w s))"
proof (induction env w s rule: sink_loop.induct)
  case (1 env w s)
  note step = pull_up_claim [OF "1.prems"(1)]
  show ?case
  proof (cases "w = 0")
    case False
    have p: "LOWEST_PORT w < 32" "LOWEST_PORT w \<in> ports (requested_ports s)"
      using LOWEST_PORT_bit [OF False] LOWEST_PORT_in [OF False] "1.prems"(3) by auto
    have "ports (w AND NOT (BIT32 (LOWEST_PORT w))) \<subseteq> ports (requested_ports s)"
      using next_ports [OF False] "1.prems"(3) by auto
    then have "pull_up_inv (fst (sink_loop env (w AND NOT (BIT32 (LOWEST_PORT w)))
        (dpm_emit (Select_Rp (LOWEST_PORT w) TYPEC_RP_3A0) (claim_port (LOWEST_PORT w) s))))"
      if "count_port_bits env (max_current_claimed s) < USB_PD_3A_PORTS env"
      using "1.IH" [OF False refl that] step [OF p] "1.prems"(2) by simp
    moreover have "source_frs_max_requested s = 0" using "1.prems"(1) by (simp add: pull_up_inv_def)
    ultimately show ?thesis
      using False "1.prems"(1) pull_up_downgrade [OF "1.prems"(1,2)] by (simp add: sink_loop.simps [of env w s] Let_def)
  qed (use "1.prems"(1) in \<open>simp add: sink_loop.simps\<close>)
qed

lemma pull_up_non_pd_loop:
  "pull_up_inv s \<Longrightarrow> ports w \<subseteq> ports (requested_ports s) \<Longrightarrow> pull_up_inv (non_pd_loop env w s)"
proof (induction env w s rule: non_pd_loop.induct)
  case (1 env w s)
  note step = pull_up_claim [OF "1.prems"(1)]
  show ?case
  proof (cases "w = 0")
    case False
    have p: "LOWEST_PORT w < 32" "LOWEST_PORT w \<in> ports (requested_ports s)"
      using LOWEST_PORT_bit [OF False] LOWEST_PORT_in [OF False] "1.prems"(2) by auto
    have "ports (w AND NOT (BIT32 (LOWEST_PORT w))) \<subseteq> ports (requested_ports s)"
      using next_ports [OF False] "1.prems"(2) by auto
    then have "pull_up_inv (non_pd_loop env (w AND NOT (BIT32 (LOWEST_PORT w)))
        (dpm_emit (Select_Rp (LOWEST_PORT w) TYPEC_RP_3A0) (claim_port (LOWEST_PORT w) s)))"
      if "count_port_bits env (max_current_claimed s) < USB_PD_3A_PORTS env"
      using "1.IH" [OF False refl that] step [OF p] by simp
    then show ?thesis
      using False "1.prems"(1) by (simp add: non_pd_loop.simps [of env w s] Let_def)
  qed (use "1.prems"(1) in \<open>simp add: non_pd_loop.simps\<close>)
qed

lemma pull_up_balance:
  assumes "pull_up_inv s" "\<forall>p<32. default_rp env p \<noteq> TYPEC_RP_3A0"
  shows "pull_up_inv (balance_source_ports env b s)"
proof -
  define s0 where "s0 = (if b then s\<lparr>deferred_waiting := False\<rparr> else s)"
  have s0: "pull_up_inv s0" using assms(1) by (auto simp: s0_def pull_up_inv_def requested_ports_def)
  define s1 where "s1 = drop_unrequested s0"
  have s1: "pull_up_inv s1"
  proof -
    have "requested_ports s1 = requested_ports s0" "dpm_effects s1 = dpm_effects s0" "source_frs_max_requested s1 = source_frs_max_requested s0"
      by (simp_all add: s1_def drop_unrequested_def Let_def requested_ports_def)
    then show ?thesis using s0 drop_unrequested_ports [of s0] by (simp add: pull_up_inv_def s1_def)
  qed
  define w where "w = sink_max_pdo_requested s1 AND NOT (max_current_claimed s1)"
  have "ports w \<subseteq> ports (requested_ports s1)" by (auto simp: w_def requested_ports_def ports_simps(2,3))
  note sink = pull_up_sink_loop [OF s1 assms(2) this]
  obtain s2 ended where e: "sink_loop env w s1 = (s2, ended)" by fastforce
  have s2: "pull_up_inv s2" using sink by (simp add: e)
  then have frs: "frs_loop env (source_frs_max_requested s2 AND NOT (max_current_claimed s2)) s2 = (s2, False)"
    by (simp add: pull_up_inv_def frs_loop.simps)
  have "ports (non_pd_sink_max_requested s2 AND NOT (max_current_claimed s2)) \<subseteq> ports (requested_ports s2)"
    by (auto simp: requested_ports_def ports_simps(2,3))
  from pull_up_non_pd_loop [OF s2 this] have "pull_up_inv (balance_ports env s0)"
    using s2 frs e by (simp add: balance_ports_def Let_def s1_def [symmetric] w_def [symmetric])
  then show ?thesis using s0 by (simp add: balance_source_ports_def Let_def s0_def [symmetric])
qed

lemma pull_up_do:
  assumes "pull_up_inv s" "port_in_range n three_a (env, c)" "n \<le> 32" "keeps_no_pull_up (env, c)"
  shows "pull_up_inv (dpm_do (env, c) s)"
proof -
  have d: "\<forall>p<32. default_rp env p \<noteq> TYPEC_RP_3A0" and frs: "\<not> USB_PD_FRS env"
    using assms(4) by (simp_all add: keeps_no_pull_up_def)
  note bal = pull_up_balance [OF _ d]
  have more: "pull_up_inv (s\<lparr>sink_max_pdo_requested := sink_max_pdo_requested s OR w\<rparr>)"
    "pull_up_inv (s\<lparr>non_pd_sink_max_requested := non_pd_sink_max_requested s OR w\<rparr>)" for w
    using assms(1) by (auto simp: pull_up_inv_def requested_ports_def ports_simps(2,3))
  have less: "pull_up_inv (dpm_emit (Select_Rp p (default_rp env p)) (s\<lparr>sink_max_pdo_requested := sink_max_pdo_requested s AND NOT (BIT32 p),
      non_pd_sink_max_requested := non_pd_sink_max_requested s AND NOT (BIT32 p)\<rparr>))" if "p < 32" for p
    using assms(1) d that by (auto simp: pull_up_inv_def dpm_emit_def requested_ports_def ports_simps(2,3) ports_BIT32)
  have recover: "pull_up_inv (fold (\<lambda>i. dpm_emit (Error_Recovery i)) xs t) = pull_up_inv t" for xs t
    by (induction xs arbitrary: t) (simp_all add: pull_up_inv_def dpm_emit_def requested_ports_def)
  have bist: "pull_up_inv (s\<lparr>bist_shared_mode_enabled := x\<rparr>)" for x
    using assms(1) by (auto simp: pull_up_inv_def requested_ports_def ports_simps(2))
  show ?thesis
    using assms frs
    by (cases c)
      (auto simp: keeps_no_pull_up_def dpm_evaluate_sink_fixed_pdo_def dpm_add_non_pd_sink_def dpm_remove_sink_def dpm_remove_source_def
        dpm_bist_shared_mode_exit_def Let_def recover intro!: bal more less bist)
qed

lemma pull_up_run:
  assumes "n \<le> 32"
  shows "pull_up_inv s \<Longrightarrow> list_all (port_in_range n three_a) cs \<Longrightarrow> list_all keeps_no_pull_up cs \<Longrightarrow> pull_up_inv (fold dpm_do cs s)"
  by (induction cs arbitrary: s) (auto simp del: dpm_do.simps port_in_range.simps intro: pull_up_do [OF _ _ assms])

text \<open>
  C30: Whatever the partners of the ports ask for, and in whatever order ports come and go and deferred calls
  run, at most \<open>CONFIG_USB_PD_3A_PORTS\<close> ports have a claim to 3 A, and at most as many are told by
  \<open>dpm_get_source_current\<close> that they may offer 3 A, unless the shared test mode is on. The pull-ups
  follow the claims if fast role swaps are not configured, no sink asks for less current and the shared
  test mode is not entered: then at most as many ports show the pull-up of 3 A. They need not otherwise; a
  sink that asks for 1.5 A or less leaves the pull-up as it was (\<open>pull_up_kept\<close>).
\<close>
theorem dpm_budget_kept:
  assumes "usb_pd_port_count env \<le> 32" and "list_all (port_in_range (usb_pd_port_count env) (USB_PD_3A_PORTS env)) cs"
    and "s = fold dpm_do cs dpm_boot"
  shows "card (ports (max_current_claimed s)) \<le> USB_PD_3A_PORTS env
     \<and> (bist_shared_mode_enabled s \<or> card {p. p < usb_pd_port_count env \<and> dpm_get_source_current env p s = 3000} \<le> USB_PD_3A_PORTS env)
     \<and> (list_all keeps_no_pull_up cs \<longrightarrow> card {p. pull_up (dpm_effects s) p = Some TYPEC_RP_3A0} \<le> USB_PD_3A_PORTS env)"
proof -
  have "dpm_wf env dpm_boot" using assms(1) by (simp add: dpm_wf_def dpm_boot_def requested_ports_def)
  from dpm_run_wf [OF this assms(2)] assms(3) have wf: "dpm_wf env s" by simp
  then have c: "card (ports (max_current_claimed s)) \<le> USB_PD_3A_PORTS env" by (simp add: dpm_wf_def)
  have "{p. p < usb_pd_port_count env \<and> dpm_get_source_current env p s = 3000} \<subseteq> ports (max_current_claimed s)"
    if "\<not> bist_shared_mode_enabled s"
    using that assms(1) bit_test [of _ "max_current_claimed s"] by (auto simp: dpm_get_source_current_def split: if_splits)
  then have told: "card {p. p < usb_pd_port_count env \<and> dpm_get_source_current env p s = 3000} \<le> card (ports (max_current_claimed s))"
    if "\<not> bist_shared_mode_enabled s" using that by (simp add: card_mono)
  have "pull_up_inv dpm_boot" by (simp add: pull_up_inv_def dpm_boot_def)
  then have "{p. pull_up (dpm_effects s) p = Some TYPEC_RP_3A0} \<subseteq> ports (max_current_claimed s)" if "list_all keeps_no_pull_up cs"
    using pull_up_run [OF assms(1) _ assms(2) that] by (auto simp: assms(3) pull_up_inv_def)
  then have "card {p. pull_up (dpm_effects s) p = Some TYPEC_RP_3A0} \<le> card (ports (max_current_claimed s))" if "list_all keeps_no_pull_up cs"
    using that by (simp add: card_mono)
  with c told show ?thesis by (meson le_trans)
qed

theorem dpm_budget_kept_witness:
  "card (ports (max_current_claimed (fold dpm_do [((dpm_env0 2 1)\<lparr>USB_PD_FRS := False\<rparr>, Non_Pd_Sink 0),
      ((dpm_env0 2 1)\<lparr>USB_PD_FRS := False\<rparr>, Sink_Pdo 1 (pdo_fixed 5000 3000)), ((dpm_env0 2 1)\<lparr>USB_PD_FRS := False\<rparr>, Deferred_Balance)] dpm_boot))) \<le> 1 \<and>
   card {p. pull_up (dpm_effects (fold dpm_do [((dpm_env0 2 1)\<lparr>USB_PD_FRS := False\<rparr>, Non_Pd_Sink 0),
      ((dpm_env0 2 1)\<lparr>USB_PD_FRS := False\<rparr>, Sink_Pdo 1 (pdo_fixed 5000 3000)), ((dpm_env0 2 1)\<lparr>USB_PD_FRS := False\<rparr>, Deferred_Balance)] dpm_boot)) p
      = Some TYPEC_RP_3A0} \<le> 1"
  using dpm_budget_kept [of "(dpm_env0 2 1)\<lparr>USB_PD_FRS := False\<rparr>" "[((dpm_env0 2 1)\<lparr>USB_PD_FRS := False\<rparr>, Non_Pd_Sink 0),
      ((dpm_env0 2 1)\<lparr>USB_PD_FRS := False\<rparr>, Sink_Pdo 1 (pdo_fixed 5000 3000)), ((dpm_env0 2 1)\<lparr>USB_PD_FRS := False\<rparr>, Deferred_Balance)]"]
  by (simp add: dpm_env0_def keeps_no_pull_up_def del: dpm_do.simps fold.simps)

subsection \<open>Where the sharing fails\<close>

text \<open>
  A sink that does not answer is taken for one without PD; if it resets the link and negotiates after all, its
  port is requested in both ways. A second PD sink then makes the port lose and regain its 3 A for ever.
\<close>

definition tied :: "dpm_effect list \<Rightarrow> dpm" where
  "tied es = \<lparr>max_current_claimed = 0, sink_max_pdo_requested = 3, source_frs_max_requested = 0,
     non_pd_sink_max_requested = 1, bist_shared_mode_enabled = False, deferred_waiting = True, dpm_effects = es\<rparr>"

lemma slow_sink_is_tied:
  "fold dpm_do [(dpm_env0 2 1, Non_Pd_Sink 0), (dpm_env0 2 1, Sink_Pdo 0 (pdo_fixed 5000 3000)),
      (dpm_env0 2 1, Sink_Pdo 1 (pdo_fixed 5000 3000))] dpm_boot
   = tied [Balance_Later PD_T_SINK_ADJ, Select_Rp 0 TYPEC_RP_1A5, Select_Rp 0 TYPEC_RP_3A0]"
  by code_simp

definition one_of_two :: dpm_env where "one_of_two = dpm_env0 2 1"

lemma tied_values:
  "LOWEST_PORT 3 = 0" "LOWEST_PORT 1 = 0" "LOWEST_PORT 2 = 1" "count_port_bits one_of_two 0 = 0" "count_port_bits one_of_two 1 = 1"
  "USB_PD_3A_PORTS one_of_two = 1" "default_rp one_of_two 0 = TYPEC_RP_1A5"
  by code_simp+

lemma tied_step:
  "balance_source_ports one_of_two True (tied es)
   = tied (Balance_Later PD_T_SINK_ADJ # Select_Rp 0 TYPEC_RP_1A5 # Select_Rp 0 TYPEC_RP_3A0 # es)"
  by (simp add: balance_source_ports_def balance_ports_def tied_def drop_unrequested_def requested_ports_def
      sink_loop.simps tied_values dpm_emit_def claim_port_def unclaim_port_def downgrade_non_pd_def BIT32_def Let_def)

lemma tied_for_ever: "\<exists>es'. (balance_source_ports one_of_two True ^^ k) (tied es) = tied es' \<and> length es' = length es + 3 * k"
proof (induction k)
  case (Suc k)
  then obtain es' where "(balance_source_ports one_of_two True ^^ k) (tied es) = tied es'" "length es' = length es + 3 * k" by blast
  then show ?case by (auto simp: tied_step)
qed auto

text \<open>
  A sink that asks for 1.5 A or less loses its claim but keeps its pull-up of 3 A, while the next port is
  given one: two pull-ups of 3 A where one is allowed.
\<close>

lemma pull_up_kept:
  "dpm_effects (fold dpm_do [(dpm_env0 2 1, Sink_Pdo 0 (pdo_fixed 5000 3000)), (dpm_env0 2 1, Request_Rdo 0 (RDO_FIXED 1 1500 1500 0)),
      (dpm_env0 2 1, Sink_Pdo 1 (pdo_fixed 5000 3000))] dpm_boot)
   = [Select_Rp 1 TYPEC_RP_3A0, Select_Rp 0 TYPEC_RP_3A0]"
  by code_simp

end
