(* ===== verification/EventLog.thy ===== *)
theory EventLog
  imports Queue
begin

section \<open>The event log, common/event_log.c\<close>

text \<open>
  A FIFO of variable-size entries in a ring of \<open>UNIT_COUNT\<close> units of 8 bytes: the header of
  \<open>struct event_log_entry\<close>, then the payload rounded up to units. The ring has the default size of
  512 bytes. Head and tail are free-running 32-bit counters. A copy outside a buffer is \<open>None\<close>; so
  is a discard loop that does not end, after as many rounds as there are units. The critical sections
  are single steps; adding and taking out an event are the sequences of their steps.
\<close>

subsection \<open>State and operations\<close>

definition UNIT_SIZE :: nat where "UNIT_SIZE = 8"
definition UNIT_COUNT :: u32 where "UNIT_COUNT = 64"
definition UNIT_COUNT_MASK :: u32 where "UNIT_COUNT_MASK = UNIT_COUNT - 1"

record event_log =
  log_events :: "u8 list"
  log_head :: u32
  log_tail :: u32
  log_tail_next :: u32

definition event_log_boot :: event_log where
  "event_log_boot = \<lparr>log_events = replicate 512 0, log_head = 0, log_tail = 0, log_tail_next = 0\<rparr>"

definition EVENT_LOG_SIZE :: "u8 \<Rightarrow> u32" where "EVENT_LOG_SIZE sz = ucast (sz AND 0x1F)"
definition EVENT_LOG_NO_ENTRY :: u8 where "EVENT_LOG_NO_ENTRY = 0xFF"

definition ENTRY_SIZE :: "u32 \<Rightarrow> u32" where
  "ENTRY_SIZE payload_sz = 1 + (payload_sz + 8 - 1) div 8"

text \<open>The size of the entry at a position, from the \<open>size\<close> byte of its header.\<close>

definition entry_size_at :: "event_log \<Rightarrow> u32 \<Rightarrow> u32 option" where
  "entry_size_at s pos =
     do { sz \<leftarrow> load (log_events s) (unat (pos AND UNIT_COUNT_MASK) * UNIT_SIZE + 5);
          Some (ENTRY_SIZE (EVENT_LOG_SIZE sz)) }"

definition log_reserve :: "u32 \<Rightarrow> event_log \<Rightarrow> event_log \<times> u32" where
  "log_reserve total_size s = (s\<lparr>log_tail_next := log_tail_next s + total_size\<rparr>, log_tail_next s)"

definition log_discard :: "event_log \<Rightarrow> event_log option" where
  "log_discard s = do { n \<leftarrow> entry_size_at s (log_head s); Some (s\<lparr>log_head := log_head s + n\<rparr>) }"

fun log_make_room :: "nat \<Rightarrow> u32 \<Rightarrow> u32 \<Rightarrow> event_log \<Rightarrow> event_log option" where
  "log_make_room 0 current_tail total_size s = None"
| "log_make_room (Suc n) current_tail total_size s =
     (if UNIT_COUNT - (current_tail - log_head s) < total_size
      then do { s1 \<leftarrow> log_discard s; log_make_room n current_tail total_size s1 }
      else Some s)"

definition entry_header :: "u8 \<Rightarrow> u8 \<Rightarrow> u16 \<Rightarrow> u32 \<Rightarrow> u8 list" where
  "entry_header type sz data timestamp = le32 timestamp @ [type, sz] @ le16 (ucast data)"

definition log_write :: "u8 list \<Rightarrow> u8 list \<Rightarrow> u32 \<Rightarrow> u32 \<Rightarrow> event_log \<Rightarrow> event_log option" where
  "log_write header payload total_size current_tail s =
     (let pos = current_tail AND UNIT_COUNT_MASK;
          first = min (total_size - 1) (UNIT_COUNT - pos - 1)
      in do {
        buf1 \<leftarrow> mem_write (log_events s) (unat pos * UNIT_SIZE) header;
        buf2 \<leftarrow> (if first = 0 then Some buf1
                 else do { part \<leftarrow> mem_read payload 0 (unat first * UNIT_SIZE);
                           mem_write buf1 (unat pos * UNIT_SIZE + 8) part });
        buf3 \<leftarrow> (if first < total_size - 1
                 then do { rest \<leftarrow> mem_read payload (unat first * UNIT_SIZE) (unat (total_size - first) * UNIT_SIZE);
                           mem_write buf2 0 rest }
                 else Some buf2);
        Some (s\<lparr>log_events := buf3\<rparr>)
      })"

definition log_commit :: "u32 \<Rightarrow> event_log \<Rightarrow> event_log" where
  "log_commit current_tail s = (if current_tail = log_tail s then s\<lparr>log_tail := log_tail_next s\<rparr> else s)"

definition log_add_event :: "u8 \<Rightarrow> u8 \<Rightarrow> u16 \<Rightarrow> u8 list \<Rightarrow> u32 \<Rightarrow> event_log \<Rightarrow> event_log option" where
  "log_add_event type sz data payload timestamp s =
     (let total_size = ENTRY_SIZE (EVENT_LOG_SIZE sz);
          (s1, current_tail) = log_reserve total_size s
      in do {
        s2 \<leftarrow> log_make_room 65 current_tail total_size s1;
        s3 \<leftarrow> log_write (entry_header type sz data timestamp) payload total_size current_tail s2;
        Some (log_commit current_tail s3)
      })"

text \<open>The header of an entry, with the time stamp turned into an age.\<close>

definition log_fixup :: "u32 \<Rightarrow> u8 list \<Rightarrow> u8 list" where
  "log_fixup now r = le32 (now - get32 (take 4 r)) @ drop 4 r"

definition log_dequeue_event :: "u32 \<Rightarrow> event_log \<Rightarrow> (event_log \<times> u8 list) option" where
  "log_dequeue_event now s =
     (let current_head = log_head s
      in if log_tail s = current_head then Some (s, replicate 4 0 @ EVENT_LOG_NO_ENTRY # replicate 3 0)
         else do {
           total_size \<leftarrow> entry_size_at s current_head;
           let pos = current_head AND UNIT_COUNT_MASK;
           let first = min total_size (UNIT_COUNT - pos);
           part \<leftarrow> mem_read (log_events s) (unat pos * UNIT_SIZE) (unat first * UNIT_SIZE);
           r \<leftarrow> (if first < total_size
                then do { rest \<leftarrow> mem_read (log_events s) 0 (unat (total_size - first) * UNIT_SIZE); Some (part @ rest) }
                else Some part);
           Some (s\<lparr>log_head := current_head + total_size\<rparr>, log_fixup now r)
         })"

text \<open>\<open>n\<close> events are taken out.\<close>

fun log_drain :: "nat \<Rightarrow> u32 \<Rightarrow> event_log \<Rightarrow> (event_log \<times> u8 list list) option" where
  "log_drain 0 now s = Some (s, [])"
| "log_drain (Suc n) now s =
     do { (s1, r) \<leftarrow> log_dequeue_event now s; (s2, rs) \<leftarrow> log_drain n now s1; Some (s2, r # rs) }"

subsection \<open>The entries in the ring\<close>

text \<open>An entry is the list of its units.\<close>

definition entry_ok :: "u8 list list \<Rightarrow> bool" where
  "entry_ok e \<longleftrightarrow> e \<noteq> [] \<and> length e = unat (ENTRY_SIZE (EVENT_LOG_SIZE (hd e ! 5)))"

definition log_region :: "event_log \<Rightarrow> u32 \<Rightarrow> u8 list list list \<Rightarrow> bool" where
  "log_region s t es \<longleftrightarrow> length (log_events s) = 64 * 8 \<and> unat (t - log_head s) \<le> 64
     \<and> ring_list 8 64 (log_events s) (unat (log_head s)) (unat (t - log_head s)) = concat es \<and> list_all entry_ok es"

definition log_holds :: "event_log \<Rightarrow> u8 list list list \<Rightarrow> bool" where
  "log_holds s es \<longleftrightarrow> log_region s (log_tail s) es \<and> log_tail_next s = log_tail s"

text \<open>The oldest entries are dropped until \<open>n\<close> units are free.\<close>

fun drop_oldest :: "nat \<Rightarrow> u8 list list list \<Rightarrow> u8 list list list" where
  "drop_oldest n [] = []"
| "drop_oldest n (e # es) = (if 64 < length (concat (e # es)) + n then drop_oldest n es else e # es)"

lemma mask_pos: "unat (p AND UNIT_COUNT_MASK) = unat p mod 64"
proof -
  have m: "UNIT_COUNT_MASK = mask 6" by (simp add: UNIT_COUNT_MASK_def UNIT_COUNT_def mask_eq_exp_minus_1)
  show ?thesis unfolding m take_bit_eq_mask [symmetric] unsigned_take_bit_eq by (simp add: take_bit_eq_mod)
qed

lemma entry_size_bounds: "1 \<le> unat (ENTRY_SIZE (EVENT_LOG_SIZE sz))" "unat (ENTRY_SIZE (EVENT_LOG_SIZE sz)) \<le> 5"
proof -
  have "unat (sz AND 0x1F) \<le> 31"
    using word_and_le1 [of sz "0x1F"] by (simp add: word_le_nat_alt)
  then have u: "unat (EVENT_LOG_SIZE sz) \<le> 31" by (simp add: EVENT_LOG_SIZE_def unsigned_ucast_eq take_bit_nat_eq_self)
  have "unat (EVENT_LOG_SIZE sz + 8 - 1) = unat (EVENT_LOG_SIZE sz) + 7"
    using u by (simp add: unat_word_ariths unat_sub_if')
  then have "unat (ENTRY_SIZE (EVENT_LOG_SIZE sz)) = 1 + (unat (EVENT_LOG_SIZE sz) + 7) div 8"
    using u by (simp add: ENTRY_SIZE_def unat_word_ariths unat_div)
  then show "1 \<le> unat (ENTRY_SIZE (EVENT_LOG_SIZE sz))" "unat (ENTRY_SIZE (EVENT_LOG_SIZE sz)) \<le> 5"
    using u by auto
qed

lemma region_size:
  assumes "log_region s t (e # es)"
  shows "entry_size_at s (log_head s) = Some (of_nat (length e))" and "length (concat (e # es)) = unat (t - log_head s)"
proof -
  let ?u = "ring_list 8 64 (log_events s) (unat (log_head s)) (unat (t - log_head s))"
  show l: "length (concat (e # es)) = unat (t - log_head s)"
    using assms unfolding log_region_def by (metis length_ring_list)
  have e: "entry_ok e" using assms by (simp add: log_region_def)
  then have "e \<noteq> []" by (simp add: entry_ok_def)
  then have "0 < length (concat (e # es))" by simp
  then have p: "0 < unat (t - log_head s)" unfolding l .
  have "hd e = ?u ! 0" using assms e unfolding log_region_def by (metis concat.simps(2) entry_ok_def hd_append2 hd_conv_nth Nil_is_append_conv)
  then have h: "hd e = unit_at 8 (log_events s) (unat (log_head s) mod 64)" using p by simp
  have len: "length (log_events s) = 64 * 8" using assms by (simp add: log_region_def)
  have m: "unat (log_head s) mod 64 < 64" by simp
  have "hd e ! 5 = log_events s ! (unat (log_head s) mod 64 * 8 + 5)"
    unfolding h unit_at_def using len m by (simp add: add.commute)
  moreover have "unat (log_head s) mod 64 * 8 + 5 < length (log_events s)" using len m by linarith
  ultimately have "entry_size_at s (log_head s) = Some (ENTRY_SIZE (EVENT_LOG_SIZE (hd e ! 5)))"
    by (simp add: entry_size_at_def mask_pos UNIT_SIZE_def load_def)
  then show "entry_size_at s (log_head s) = Some (of_nat (length e))"
    using e by (simp add: entry_ok_def)
qed

lemma region_advance:
  assumes "log_region s t (e # es)"
  shows "log_region (s\<lparr>log_head := log_head s + of_nat (length e)\<rparr>) t es"
proof -
  let ?n = "length e" and ?c = "unat (t - log_head s)"
  have l: "length (concat (e # es)) = ?c" by (rule region_size(2) [OF assms])
  have c: "?c \<le> 64" using assms by (simp add: log_region_def)
  have n: "?n \<le> ?c" using l by simp
  have d: "t - (log_head s + of_nat ?n) = (t - log_head s) - of_nat ?n" by simp
  have c1: "unat (t - (log_head s + of_nat ?n)) = ?c - ?n"
    unfolding d using n c by (simp add: unat_sub_if' unat_of_nat)
  have h1: "unat (log_head s + of_nat ?n) mod 64 = (unat (log_head s) + ?n) mod 64"
    using n c by (simp add: unat_word_ariths unat_of_nat mod_mod_cancel)
  have "ring_list 8 64 (log_events s) (unat (log_head s + of_nat ?n)) (?c - ?n)
      = ring_list 8 64 (log_events s) (unat (log_head s) + ?n) (?c - ?n)"
    by (metis h1 ring_list_mod)
  also have "\<dots> = drop ?n (ring_list 8 64 (log_events s) (unat (log_head s)) ?c)" by (simp add: drop_ring_list)
  also have "\<dots> = concat es" using assms by (simp add: log_region_def)
  finally show ?thesis using assms c c1 by (simp add: log_region_def)
qed

subsection \<open>Making room\<close>

lemma room_condition:
  assumes "unat (t - h) \<le> 64" and "unat total_size \<le> 64"
  shows "UNIT_COUNT - (t - h) < total_size \<longleftrightarrow> 64 < unat (t - h) + unat total_size"
proof -
  have "unat (UNIT_COUNT - (t - h)) = 64 - unat (t - h)"
    using assms(1) by (simp add: UNIT_COUNT_def unat_sub_if')
  then show ?thesis using assms by (auto simp: word_less_nat_alt)
qed

lemma make_room_drops:
  "log_region s t es \<Longrightarrow> unat total_size \<le> 64 \<Longrightarrow> length es < n
     \<Longrightarrow> \<exists>h. log_make_room n t total_size s = Some (s\<lparr>log_head := h\<rparr>)
           \<and> log_region (s\<lparr>log_head := h\<rparr>) t (drop_oldest (unat total_size) es)"
proof (induction n arbitrary: s es)
  case (Suc n)
  have c: "unat (t - log_head s) \<le> 64" using Suc.prems(1) by (simp add: log_region_def)
  note cond = room_condition [OF c Suc.prems(2)]
  show ?case
  proof (cases es)
    case Nil
    then have "unat (t - log_head s) = 0" using Suc.prems(1) unfolding log_region_def by (metis concat.simps(1) length_ring_list list.size(3))
    then have "\<not> UNIT_COUNT - (t - log_head s) < total_size" unfolding cond using Suc.prems(2) by simp
    then show ?thesis using Suc.prems(1) Nil by (intro exI [of _ "log_head s"]) simp
  next
    case (Cons e es')
    note r = region_size [OF Suc.prems(1) [unfolded Cons]]
    show ?thesis
    proof (cases "64 < length (concat es) + unat total_size")
      case True
      let ?s = "s\<lparr>log_head := log_head s + of_nat (length e)\<rparr>"
      have d: "log_discard s = Some ?s" using r(1) by (simp add: log_discard_def)
      have "log_region ?s t es'" by (rule region_advance [OF Suc.prems(1) [unfolded Cons]])
      moreover have "length es' < n" using Suc.prems(3) Cons by simp
      ultimately obtain h where h: "log_make_room n t total_size ?s = Some (?s\<lparr>log_head := h\<rparr>)"
          "log_region (?s\<lparr>log_head := h\<rparr>) t (drop_oldest (unat total_size) es')"
        using Suc.IH Suc.prems(2) by blast
      have "UNIT_COUNT - (t - log_head s) < total_size" unfolding cond using True r(2) Cons by simp
      moreover have "drop_oldest (unat total_size) es = drop_oldest (unat total_size) es'" using True Cons by simp
      ultimately show ?thesis using d h by (intro exI [of _ h]) simp
    next
      case False
      then have "\<not> UNIT_COUNT - (t - log_head s) < total_size" unfolding cond using r(2) Cons by simp
      moreover have "drop_oldest (unat total_size) es = es" using False Cons by simp
      ultimately show ?thesis using Suc.prems(1) by (intro exI [of _ "log_head s"]) simp
    qed
  qed
qed simp

lemma drop_oldest_fits: "n \<le> 64 \<Longrightarrow> length (concat (drop_oldest n es)) + n \<le> 64"
  by (induction n es rule: drop_oldest.induct) auto

lemma entries_count: "list_all entry_ok es \<Longrightarrow> length es \<le> length (concat es)"
proof (induction es)
  case (Cons e es)
  then have "e \<noteq> []" by (simp add: entry_ok_def)
  then have "1 \<le> length e" by (simp add: Suc_le_eq)
  with Cons show ?case by simp
qed simp

subsection \<open>Writing\<close>

lemma mem_write_append:
  assumes "a + length xs + length ys \<le> length buf"
  shows "do { b \<leftarrow> mem_write buf a xs; mem_write b (a + length xs) ys } = mem_write buf a (xs @ ys)"
  using assms by (simp add: mem_write_def ac_simps)

text \<open>How many units a write touches: one too many if the payload wraps around.\<close>

definition units_touched :: "nat \<Rightarrow> nat \<Rightarrow> nat" where
  "units_touched pos n = (if pos + n \<le> 64 then n else n + 1)"

lemma log_write_parts:
  assumes "length header = 8" and "length buf = 64 * 8" and "first * 8 \<le> length payload" and "pos + first < 64"
  shows "do { b1 \<leftarrow> mem_write buf (pos * 8) header;
              if first = 0 then Some b1 else do { part \<leftarrow> mem_read payload 0 (first * 8); mem_write b1 (pos * 8 + 8) part } }
         = mem_write buf (pos * 8) (header @ take (first * 8) payload)"
proof -
  have "mem_write buf (pos * 8) (header @ take (first * 8) payload)
      = do { b \<leftarrow> mem_write buf (pos * 8) header; mem_write b (pos * 8 + 8) (take (first * 8) payload) }"
    using mem_write_append [of "pos * 8" header "take (first * 8) payload" buf] assms by simp
  moreover have "mem_write b k [] = Some b" if "k \<le> length b" for b :: "u8 list" and k
    using that by (simp add: mem_write_def)
  moreover have "length b = 64 * 8" if "mem_write buf (pos * 8) header = Some b" for b
    using that assms(2) by (auto simp: mem_write_def split: if_splits)
  ultimately show ?thesis
    using assms by (cases "mem_write buf (pos * 8) header") (auto simp: mem_read_def)
qed

lemma log_write_ring:
  assumes "length header = 8" and "length (log_events s) = 64 * 8"
    and "(units_touched (unat current_tail mod 64) (unat total_size) - 1) * 8 \<le> length payload"
    and "1 \<le> unat total_size" and "unat total_size \<le> 5" and "pos = unat current_tail mod 64"
  shows "log_write header payload total_size current_tail s
       = map_option (\<lambda>buf. s\<lparr>log_events := buf\<rparr>)
           (ring_write 8 64 (log_events s) pos (header @ payload) (units_touched pos (unat total_size)))"
proof -
  let ?n = "unat total_size" and ?p = "current_tail AND UNIT_COUNT_MASK" and ?buf = "log_events s"
  let ?first = "min (total_size - 1) (UNIT_COUNT - ?p - 1)" and ?f = "min (?n - 1) (63 - pos)"
  have p: "unat ?p = pos" "pos < 64" using assms(6) by (simp_all add: mask_pos)
  have u1: "unat (total_size - 1) = ?n - 1" using assms(4) by (simp add: unat_sub_if')
  have "unat (UNIT_COUNT - ?p) = 64 - pos" using p by (simp add: UNIT_COUNT_def unat_sub_if')
  then have u2: "unat (UNIT_COUNT - ?p - 1) = 63 - pos" using p(2) by (simp add: unat_sub_if')
  have f: "unat ?first = ?f" using u1 u2 by (simp add: unat_min)
  have f0: "?first = 0 \<longleftrightarrow> ?f = 0" by (simp only: unat_eq_0 [symmetric] f)
  have lt: "?first < total_size - 1 \<longleftrightarrow> 64 < pos + ?n"
    unfolding word_less_nat_alt f u1 using assms(4) p(2) by auto
  have u3: "unat (total_size - ?first) = ?n - ?f"
    using f assms(4) by (simp add: unat_sub_if' word_le_nat_alt)
  have payload: "(units_touched pos ?n - 1) * 8 \<le> length payload" using assms(3,6) by simp
  have "?n - 1 \<le> units_touched pos ?n - 1" by (simp add: units_touched_def)
  then have fl: "?f * 8 \<le> length payload" "pos + ?f < 64" using payload p(2) by linarith+
  have w: "log_write header payload total_size current_tail s =
      do { buf2 \<leftarrow> mem_write ?buf (pos * 8) (header @ take (?f * 8) payload);
           buf3 \<leftarrow> (if 64 < pos + ?n then do { rest \<leftarrow> mem_read payload (?f * 8) ((?n - ?f) * 8); mem_write buf2 0 rest } else Some buf2);
           Some (s\<lparr>log_events := buf3\<rparr>) }"
    unfolding log_write_def Let_def UNIT_SIZE_def p(1) f f0 lt u3
      log_write_parts [OF assms(1,2) fl, symmetric] by (simp add: bind_assoc)
  show ?thesis
  proof (cases "64 < pos + ?n")
    case False
    then have "?f = ?n - 1" "min ?n (64 - pos) = ?n" using p(2) assms(4) by auto
    moreover have "take (?n * 8) (header @ payload) = header @ take ((?n - 1) * 8) payload"
      using assms(1,4) by (simp add: diff_mult_distrib)
    moreover have "?n * 8 \<le> 8 + length payload" using payload False assms(4) by (simp add: units_touched_def)
    ultimately show ?thesis
      using False assms(1) unfolding w ring_write_def units_touched_def
      by (cases "mem_write (log_events s) (pos * 8) (header @ take ((?n - 1) * 8) payload)") (simp_all add: mem_read_def Let_def)
  next
    case True
    then have fe: "?f = 63 - pos" "min (?n + 1) (64 - pos) = 64 - pos" "64 - pos < ?n + 1" using p(2) assms(4) by auto
    have e1: "(64 - pos) * 8 = 8 + (63 - pos) * 8" using p(2) by simp
    have "take ((64 - pos) * 8) (header @ payload) = header @ take ((63 - pos) * 8) payload"
      unfolding e1 using assms(1) by simp
    moreover have "(64 - pos) * 8 \<le> length (header @ payload)" unfolding e1 using assms(1) fl(1) fe(1) by simp
    ultimately have r1: "mem_read (header @ payload) 0 ((64 - pos) * 8) = Some (header @ take ((63 - pos) * 8) payload)"
      by (simp add: mem_read_def)
    have d: "drop ((64 - pos) * 8) (header @ payload) = drop ((63 - pos) * 8) payload"
      unfolding e1 using assms(1) by simp
    have e2: "?n + 1 - (64 - pos) = ?n - (63 - pos)" using p(2) by simp
    have b: "(63 - pos) * 8 + (?n - (63 - pos)) * 8 = ?n * 8" using True p(2) fe(1) by simp
    have r2: "mem_read (header @ payload) ((64 - pos) * 8) ((?n + 1 - (64 - pos)) * 8) = mem_read payload ((63 - pos) * 8) ((?n - (63 - pos)) * 8)"
      unfolding e2 using b assms(1) payload True d e1 by (simp add: mem_read_def units_touched_def)
    show ?thesis
      unfolding w ring_write_def units_touched_def Let_def fe(1)
      using True fe(2,3) r1 r2 by (simp add: map_option_case split: option.splits) (auto split: bind_splits option.splits)
  qed
qed

lemma header_length [simp]: "length (entry_header ty sz data timestamp) = 8"
  by (simp add: entry_header_def le32_def le16_def)

lemma header_size: "entry_header ty sz data timestamp ! 5 = sz"
  by (simp add: entry_header_def le32_def)

lemma chunks_header: "length header = 8 \<Longrightarrow> chunks 8 (header @ payload) (Suc n) = header # chunks 8 payload n"
proof (rule nth_equalityI)
  fix i assume "length header = 8" "i < length (chunks 8 (header @ payload) (Suc n))"
  then show "chunks 8 (header @ payload) (Suc n) ! i = (header # chunks 8 payload n) ! i"
    by (cases i) (simp_all add: unit_at_def)
qed simp

text \<open>The entry an event becomes.\<close>

definition event_entry :: "u8 \<Rightarrow> u8 \<Rightarrow> u16 \<Rightarrow> u8 list \<Rightarrow> u32 \<Rightarrow> u8 list list" where
  "event_entry ty sz data payload timestamp =
     entry_header ty sz data timestamp # chunks 8 payload (unat (ENTRY_SIZE (EVENT_LOG_SIZE sz)) - 1)"

text \<open>How many bytes of the payload a write reads: whole units, and one unit more if the payload wraps around.\<close>

definition payload_read :: "event_log \<Rightarrow> u8 \<Rightarrow> nat" where
  "payload_read s sz = (units_touched (unat (log_tail s) mod 64) (unat (ENTRY_SIZE (EVENT_LOG_SIZE sz))) - 1) * 8"

text \<open>The payload wraps around and the log becomes full.\<close>

definition wraps_full :: "event_log \<Rightarrow> nat \<Rightarrow> u8 list list list \<Rightarrow> bool" where
  "wraps_full s n es \<longleftrightarrow> 64 < unat (log_tail s) mod 64 + n \<and> length (concat (drop_oldest n es)) + n = 64"

text \<open>Writing one unit more than there is room for goes over the first unit of the ring.\<close>

lemma ring_list_overwrite:
  assumes "T = (h + c) mod N" and "c + n = N" and "0 < c"
    and len: "length buf = N * ub" and src: "(n + 1) * ub \<le> length src"
  obtains buf' where "ring_write ub N buf T src (n + 1) = Some buf'" and "length buf' = N * ub"
    and "ring_list ub N buf' h N = unit_at ub src n # tl (ring_list ub N buf h c @ chunks ub src n)"
proof -
  have c: "h + 1 + (c - 1) = h + c" "c - 1 + (n + 1) = N" "0 < N" and last: "N - 1 = c - 1 + n" using assms(2,3) by simp_all
  obtain buf' where b: "ring_write ub N buf T src (n + 1) = Some buf'" "length buf' = N * ub"
    and r: "ring_list ub N buf' (h + 1) (c - 1 + (n + 1)) = ring_list ub N buf (h + 1) (c - 1) @ chunks ub src (n + 1)"
  proof (rule ring_list_write [of T "h + 1" "c - 1" N "n + 1" buf ub src])
    show "T = (h + 1 + (c - 1)) mod N" unfolding c(1) by (rule assms(1))
  qed (use c len src in auto)
  have "ring_list ub N buf' h N = unit_at ub src n # tl (ring_list ub N buf h c @ chunks ub src n)"
  proof (rule nth_equalityI)
    show l: "length (ring_list ub N buf' h N) = length (unit_at ub src n # tl (ring_list ub N buf h c @ chunks ub src n))"
      using assms(2,3) by simp
    fix i assume i: "i < length (ring_list ub N buf' h N)"
    show "ring_list ub N buf' h N ! i = (unit_at ub src n # tl (ring_list ub N buf h c @ chunks ub src n)) ! i"
    proof (cases i)
      case 0
      have "ring_list ub N buf' h N ! 0 = unit_at ub buf' ((h + 1 + (N - 1)) mod N)" using c(3) by simp
      also have "\<dots> = ring_list ub N buf' (h + 1) (c - 1 + (n + 1)) ! (N - 1)" using c by simp
      also have "\<dots> = unit_at ub src n" unfolding r last by (simp add: nth_append)
      finally show ?thesis using 0 by simp
    next
      case (Suc j)
      then have j: "j < N - 1" using i by simp
      have "ring_list ub N buf' h N ! i = ring_list ub N buf' (h + 1) (c - 1 + (n + 1)) ! j"
        using i j Suc c(2) by simp
      also have "\<dots> = (ring_list ub N buf (h + 1) (c - 1) @ chunks ub src (n + 1)) ! j" unfolding r ..
      also have "\<dots> = (ring_list ub N buf h c @ chunks ub src n) ! Suc j"
        using j assms(2,3) by (auto simp: nth_append)
      finally show ?thesis using Suc j assms(2,3) by (simp add: nth_tl)
    qed
  qed
  then show ?thesis using b that by blast
qed

text \<open>The state after an event is added: the entries that are kept, then the new one; one unit may be overwritten.\<close>

definition ring_units :: "event_log \<Rightarrow> nat \<Rightarrow> u8 list list" where
  "ring_units s n = ring_list 8 64 (log_events s) (unat (log_head s)) n"

lemma log_add_event_ring:
  fixes es :: "u8 list list list" and ty sz :: u8 and data :: u16 and payload :: "u8 list" and timestamp :: u32
  assumes "log_holds s es" and "payload_read s sz \<le> length payload"
  defines "n \<equiv> unat (ENTRY_SIZE (EVENT_LOG_SIZE sz))"
    and "entries \<equiv> drop_oldest (unat (ENTRY_SIZE (EVENT_LOG_SIZE sz))) es @ [event_entry ty sz data payload timestamp]"
  shows "\<exists>s1. log_add_event ty sz data payload timestamp s = Some s1 \<and> log_tail_next s1 = log_tail s1
     \<and> length (log_events s1) = 64 * 8 \<and> list_all entry_ok entries
     \<and> unat (log_tail s1 - log_head s1) = length (concat entries) \<and> length (concat entries) \<le> 64
     \<and> ring_units s1 (length (concat entries))
         = (if wraps_full s n es then unit_at 8 payload (n - 1) # tl (concat entries) else concat entries)"
proof -
  let ?ts = "ENTRY_SIZE (EVENT_LOG_SIZE sz)" and ?t = "log_tail s" and ?hd = "entry_header ty sz data timestamp"
  let ?n = "unat ?ts" and ?s1 = "s\<lparr>log_tail_next := log_tail s + ENTRY_SIZE (EVENT_LOG_SIZE sz)\<rparr>"
  define kept where "kept = drop_oldest ?n es"
  note n = entry_size_bounds [of sz]
  have r: "log_reserve ?ts s = (?s1, ?t)" using assms(1) by (simp add: log_reserve_def log_holds_def)
  have reg: "log_region ?s1 ?t es" using assms(1) by (simp add: log_holds_def log_region_def)
  have "length es \<le> unat (?t - log_head s)"
    using entries_count [of es] assms(1) unfolding log_holds_def log_region_def by (metis length_ring_list)
  then have "length es < 65" using assms(1) by (simp add: log_holds_def log_region_def)
  moreover have "?n \<le> 64" using n(2) by simp
  ultimately obtain h where
    h: "log_make_room 65 ?t ?ts ?s1 = Some (?s1\<lparr>log_head := h\<rparr>)" "log_region (?s1\<lparr>log_head := h\<rparr>) ?t kept"
    unfolding kept_def using make_room_drops [OF reg] by blast
  let ?s2 = "?s1\<lparr>log_head := h\<rparr>" and ?c = "unat (?t - h)" and ?pos = "unat ?t mod 64"
  have len: "length (log_events ?s2) = 64 * 8" and c: "?c \<le> 64"
    and ring: "ring_list 8 64 (log_events s) (unat h) ?c = concat kept" and ok: "list_all entry_ok kept"
    using h(2) by (simp_all add: log_region_def)
  have ck: "length (concat kept) = ?c" using ring by (metis length_ring_list)
  have room: "?c + ?n \<le> 64" using drop_oldest_fits [of ?n es] n(2) ck by (simp add: kept_def)
  have pos: "?pos = (unat h + ?c) mod 64"
  proof -
    have "unat ?t = unat (h + (?t - h))" by simp
    also have "\<dots> mod 64 = (unat h + ?c) mod 64" by (simp only: unat_word_ariths) (simp add: mod_mod_cancel)
    finally show ?thesis .
  qed
  have touched: "?n \<le> units_touched ?pos ?n" by (simp add: units_touched_def)
  have ul: "units_touched ?pos ?n * 8 \<le> length (?hd @ payload)"
    using assms(2) by (simp add: payload_read_def)
  have entry: "chunks 8 (?hd @ payload) ?n = event_entry ty sz data payload timestamp"
    using chunks_header [of ?hd payload "?n - 1"] n(1) by (simp add: event_entry_def)
  have entries: "entries = kept @ [event_entry ty sz data payload timestamp]" by (simp add: entries_def kept_def)
  have l: "length (concat entries) = ?c + ?n" using ck entry by (simp add: entries flip: entry)
  have "\<exists>buf. ring_write 8 64 (log_events ?s2) ?pos (?hd @ payload) (units_touched ?pos ?n) = Some buf \<and> length buf = 64 * 8 \<and>
      ring_list 8 64 buf (unat h) (?c + ?n)
        = (if wraps_full s n es then unit_at 8 payload (n - 1) # tl (concat entries) else concat entries)"
  proof (cases "wraps_full s n es")
    case True
    then have w: "?c + ?n = 64" "units_touched ?pos ?n = ?n + 1"
      using ck by (simp_all add: wraps_full_def n_def kept_def units_touched_def)
    then have "0 < ?c" using n(2) by simp
    moreover have "(?n + 1) * 8 \<le> length (?hd @ payload)" using ul w(2) by simp
    ultimately obtain buf where b: "ring_write 8 64 (log_events ?s2) ?pos (?hd @ payload) (?n + 1) = Some buf" "length buf = 64 * 8"
      "ring_list 8 64 buf (unat h) 64
        = unit_at 8 (?hd @ payload) ?n # tl (ring_list 8 64 (log_events ?s2) (unat h) ?c @ chunks 8 (?hd @ payload) ?n)"
      using ring_list_overwrite [OF pos w(1) _ len] by metis
    have "unit_at 8 (?hd @ payload) ?n = unit_at 8 payload (n - 1)"
      using n(1) by (simp add: n_def unit_at_append2 [where m = 1])
    then have "ring_list 8 64 buf (unat h) 64 = unit_at 8 payload (n - 1) # tl (concat entries)"
      using b(3) ring by (simp add: entry entries)
    then show ?thesis using b(1,2) True unfolding w by auto
  next
    case False
    then have fit: "?c + units_touched ?pos ?n \<le> 64"
      using room ck by (auto simp: wraps_full_def units_touched_def kept_def n_def)
    obtain buf where b: "ring_write 8 64 (log_events ?s2) ?pos (?hd @ payload) (units_touched ?pos ?n) = Some buf" "length buf = 64 * 8"
      "ring_list 8 64 buf (unat h) (?c + units_touched ?pos ?n) = ring_list 8 64 (log_events ?s2) (unat h) ?c @ chunks 8 (?hd @ payload) (units_touched ?pos ?n)"
      by (rule ring_list_write [OF pos fit _ len ul]) simp
    have "ring_list 8 64 buf (unat h) (?c + ?n) = take (?c + ?n) (ring_list 8 64 buf (unat h) (?c + units_touched ?pos ?n))"
      using touched by (simp add: ring_list_def take_map)
    also have "\<dots> = concat kept @ chunks 8 (?hd @ payload) ?n"
      using touched ring ck unfolding b(3) by (simp add: chunks_def take_map)
    finally show ?thesis using b(1,2) False by (simp add: entry entries)
  qed
  then obtain buf where b: "ring_write 8 64 (log_events ?s2) ?pos (?hd @ payload) (units_touched ?pos ?n) = Some buf" "length buf = 64 * 8"
      "ring_list 8 64 buf (unat h) (?c + ?n)
        = (if wraps_full s n es then unit_at 8 payload (n - 1) # tl (concat entries) else concat entries)"
    by blast
  have w: "log_write ?hd payload ?ts ?t ?s2 = Some (?s2\<lparr>log_events := buf\<rparr>)"
    using log_write_ring [of ?hd ?s2 ?t ?ts payload ?pos] len assms(2) n b(1) by (simp add: payload_read_def)
  have cn: "unat (?t + ?ts - h) = ?c + ?n"
  proof -
    have "?t + ?ts - h = (?t - h) + ?ts" by simp
    moreover have "?c + ?n < 2 ^ 32" using c n(2) by simp
    ultimately show ?thesis by (simp only: unat_word_ariths) simp
  qed
  have eo: "entry_ok (event_entry ty sz data payload timestamp)"
    using n(1) by (simp add: entry_ok_def event_entry_def header_size)
  let ?s3 = "log_commit ?t (?s2\<lparr>log_events := buf\<rparr>)"
  have "log_add_event ty sz data payload timestamp s = Some ?s3"
    using r h(1) w by (simp add: log_add_event_def Let_def)
  moreover have "log_tail_next ?s3 = log_tail ?s3" "length (log_events ?s3) = 64 * 8" "list_all entry_ok entries"
    "unat (log_tail ?s3 - log_head ?s3) = ?c + ?n" "log_events ?s3 = buf" "log_head ?s3 = h"
    using b(2) ok eo cn by (simp_all add: log_commit_def entries)
  ultimately show ?thesis using b(3) room unfolding l ring_units_def by auto
qed

subsection \<open>Taking out\<close>

lemma concat_chunks: "length xs = n * 8 \<Longrightarrow> concat (chunks 8 xs n) = xs"
proof (induction n arbitrary: xs)
  case (Suc n)
  have "chunks 8 (take 8 xs @ drop 8 xs) (Suc n) = take 8 xs # chunks 8 (drop 8 xs) n"
    using Suc.prems by (intro chunks_header) simp
  with Suc show ?case by simp
qed (simp add: chunks_def)

lemma log_dequeue_first:
  assumes "log_holds s (e # es)"
  shows "\<exists>s1. log_dequeue_event now s = Some (s1, log_fixup now (concat e)) \<and> log_holds s1 es"
proof -
  let ?c = "unat (log_tail s - log_head s)" and ?h = "log_head s" and ?n = "length e"
  have reg: "log_region s (log_tail s) (e # es)" using assms by (simp add: log_holds_def)
  note sz = region_size [OF reg]
  have e: "entry_ok e" and len: "length (log_events s) = 64 * 8" and c: "?c \<le> 64"
    and ring: "ring_list 8 64 (log_events s) (unat ?h) ?c = concat (e # es)"
    using reg by (simp_all add: log_region_def)
  have n: "0 < ?n" "?n \<le> ?c" "?n \<le> 5" "unat (of_nat ?n :: u32) = ?n"
  proof -
    have l: "length e = unat (ENTRY_SIZE (EVENT_LOG_SIZE (hd e ! 5)))" using e by (simp add: entry_ok_def)
    show "0 < ?n" "?n \<le> 5" unfolding l using entry_size_bounds [of "hd e ! 5"] by simp_all
    then show "unat (of_nat ?n :: u32) = ?n" by (simp add: unat_of_nat)
    show "?n \<le> ?c" using sz(2) by simp
  qed
  have ne: "log_tail s \<noteq> ?h" using n(1,2) by auto
  obtain out where o: "ring_read 8 64 (log_events s) (unat ?h mod 64) ?n = Some out" "length out = ?n * 8"
      "chunks 8 out ?n = take ?n (ring_list 8 64 (log_events s) (unat ?h) ?c)"
    by (rule ring_list_read [OF _ n(2) c len]) simp
  have out: "out = concat e" using concat_chunks [OF o(2)] o(3) ring by simp
  let ?p = "?h AND UNIT_COUNT_MASK"
  have p: "unat ?p = unat ?h mod 64" by (rule mask_pos)
  have "unat (UNIT_COUNT - ?p) = 64 - unat ?h mod 64"
    using p by (simp add: UNIT_COUNT_def unat_sub_if' mod_le_divisor less_imp_le)
  then have f: "unat (min (of_nat ?n) (UNIT_COUNT - ?p)) = min ?n (64 - unat ?h mod 64)"
    using n(4) by (simp add: unat_min)
  have lt: "min (of_nat ?n) (UNIT_COUNT - ?p) < (of_nat ?n :: u32) \<longleftrightarrow> min ?n (64 - unat ?h mod 64) < ?n"
    unfolding word_less_nat_alt f n(4) ..
  have df: "unat (of_nat ?n - min (of_nat ?n) (UNIT_COUNT - ?p)) = ?n - min ?n (64 - unat ?h mod 64)"
    using f n(4) by (simp add: unat_sub_if')
  have "log_dequeue_event now s = do { r \<leftarrow> ring_read 8 64 (log_events s) (unat ?h mod 64) ?n;
      Some (s\<lparr>log_head := ?h + of_nat ?n\<rparr>, log_fixup now r) }"
    unfolding log_dequeue_event_def ring_read_def Let_def sz(1) UNIT_SIZE_def using ne
    by (simp add: f lt df p bind_assoc cong: if_cong)
  then have "log_dequeue_event now s = Some (s\<lparr>log_head := ?h + of_nat ?n\<rparr>, log_fixup now (concat e))"
    using o(1) out by simp
  moreover have "log_holds (s\<lparr>log_head := ?h + of_nat ?n\<rparr>) es"
    using region_advance [OF reg] assms by (simp add: log_holds_def)
  ultimately show ?thesis by blast
qed

lemma log_drain_all: "log_holds s es \<Longrightarrow> \<exists>s1. log_drain (length es) now s = Some (s1, map (\<lambda>e. log_fixup now (concat e)) es) \<and> log_holds s1 []"
proof (induction es arbitrary: s)
  case (Cons e es)
  from log_dequeue_first [OF Cons.prems, of now] obtain s1 where
    "log_dequeue_event now s = Some (s1, log_fixup now (concat e))" "log_holds s1 es" by blast
  moreover from Cons.IH [OF this(2)] obtain s2 where
    "log_drain (length es) now s1 = Some (s2, map (\<lambda>e. log_fixup now (concat e)) es)" "log_holds s2 []" by blast
  ultimately show ?case by simp
qed simp

subsection \<open>The log is a FIFO that drops its oldest entries\<close>

text \<open>
  C12: An event added to a log, while no other event is being added, is appended to the entries that were
  there before it and still fit, in their order, whatever its size; the oldest entries are dropped, one by
  one, only until the new one fits. The payload need only have the bytes that the code reads, none at all
  for an event without payload. If the payload does not wrap around the end of the ring, or the log does
  not become full, taking out as many events as there are then returns all of them, with their bytes, in order,
  and leaves the log empty. Otherwise the header of the oldest entry, and nothing else, is overwritten,
  with the unit that follows the payload in memory.
\<close>
theorem log_add_then_drain:
  fixes es :: "u8 list list list" and ty sz :: u8 and data :: u16 and payload :: "u8 list" and timestamp :: u32
  assumes "log_holds s es" and "payload_read s sz \<le> length payload"
  defines "n \<equiv> unat (ENTRY_SIZE (EVENT_LOG_SIZE sz))"
    and "entries \<equiv> drop_oldest (unat (ENTRY_SIZE (EVENT_LOG_SIZE sz))) es @ [event_entry ty sz data payload timestamp]"
  shows "\<exists>s1. log_add_event ty sz data payload timestamp s = Some s1 \<and>
    (if wraps_full s n es
     then ring_units s1 (unat (log_tail s1 - log_head s1)) = unit_at 8 payload (n - 1) # tl (concat entries)
     else \<exists>s2. log_drain (length entries) now s1 = Some (s2, map (\<lambda>e. log_fixup now (concat e)) entries) \<and> log_holds s2 [])"
proof -
  from log_add_event_ring [OF assms(1,2)] obtain s1 where
    s1: "log_add_event ty sz data payload timestamp s = Some s1" "log_tail_next s1 = log_tail s1"
      "length (log_events s1) = 64 * 8" "list_all entry_ok entries"
      "unat (log_tail s1 - log_head s1) = length (concat entries)" "length (concat entries) \<le> 64"
      "ring_units s1 (length (concat entries))
         = (if wraps_full s n es then unit_at 8 payload (n - 1) # tl (concat entries) else concat entries)"
    unfolding n_def entries_def by metis
  have "log_holds s1 entries" if "\<not> wraps_full s n es"
    using s1(2-7) that by (simp add: log_holds_def log_region_def ring_units_def)
  then show ?thesis using s1(1,5,7) log_drain_all by (auto split: if_splits)
qed

lemma boot_holds: "log_holds event_log_boot []"
  by (simp add: log_holds_def log_region_def event_log_boot_def ring_list_def)

theorem log_add_then_drain_witness:
  "\<exists>s1 s2. log_add_event 3 0 7 [] 1000 event_log_boot = Some s1
     \<and> log_drain 1 1500 s1 = Some (s2, [log_fixup 1500 (concat (event_entry 3 0 7 [] 1000))]) \<and> log_holds s2 []"
proof -
  have e: "unat (ENTRY_SIZE (EVENT_LOG_SIZE 0)) = 1" by code_simp
  have "payload_read event_log_boot 0 \<le> length []" "\<not> wraps_full event_log_boot 1 []"
    by (simp_all add: payload_read_def units_touched_def wraps_full_def event_log_boot_def e)
  with log_add_then_drain [OF boot_holds, of 0 "[]" 3 7 1000 1500] e show ?thesis by auto
qed

text \<open>
  When the payload wraps around and the log becomes full, the second copy writes one unit too many, over the
  header of the oldest entry. Here the ring holds thirty entries of two units each, of type 2, and an event of
  four units is added, for which there is exactly room: the oldest event now reads as one of type \<open>0xBB\<close>.
\<close>

definition log_of_twos :: event_log where
  "log_of_twos = \<lparr>log_events = replicate 512 2, log_head = 2, log_tail = 62, log_tail_next = 62\<rparr>"

lemma full_log_oldest: "map_option (\<lambda>(s, r). r ! 4) (log_dequeue_event 0 log_of_twos) = Some 2"
  by code_simp

lemma full_log_corrupted:
  "do { s \<leftarrow> log_add_event 3 24 0 (replicate 40 0xBB) 0 log_of_twos;
        (s1, r) \<leftarrow> log_dequeue_event 0 s;
        Some (r ! 4) } = Some 0xBB"
  by code_simp

end
