(* ===== verification/Hooks.thy ===== *)
theory Hooks
  imports Prelude "HOL-Library.Multiset"
begin

section \<open>Hooks and deferred routines of common/hooks.c\<close>

text \<open>
  The routines registered for a hook, called in the order of their priorities, the deferred routines
  with their deadlines, and the body of the loop of the hook task. Routines are functions on the state, which is
  extended by whatever they act on; the linker-made arrays of registrations are lists. The times that \<open>get_time\<close> returns
  are arguments. The statistics of \<open>CONFIG_HOOK_DEBUG\<close> are left out.
\<close>

subsection \<open>State\<close>

record hook_state =
  deferred_until :: "u64 list"
  hook_task_started :: bool
  last_second :: u64
  last_tick :: u64
  wakes :: nat

record 's hook_data =
  routine :: "'s \<Rightarrow> 's"
  priority :: int

definition HOOK_PRIO_FIRST :: int where "HOOK_PRIO_FIRST = 1"
definition HOOK_PRIO_LAST :: int where "HOOK_PRIO_LAST = 9999"
definition HOOK_SECOND :: u64 where "HOOK_SECOND = 1000000"

subsection \<open>Notification\<close>

definition lowest_prio :: "'s hook_data list \<Rightarrow> int \<Rightarrow> int" where
  "lowest_prio hooks last_prio =
     fold (\<lambda>p prio. if priority p < prio \<and> last_prio < priority p then priority p else prio)
       hooks (HOOK_PRIO_LAST + 1)"

definition call_prio :: "'s hook_data list \<Rightarrow> int \<Rightarrow> nat \<times> 's \<Rightarrow> nat \<times> 's" where
  "call_prio hooks prio =
     fold (\<lambda>p (called, s). if priority p = prio then (called + 1, routine p s) else (called, s)) hooks"

fun notify_loop :: "nat \<Rightarrow> 's hook_data list \<Rightarrow> int \<Rightarrow> nat \<times> 's \<Rightarrow> 's option" where
  "notify_loop n hooks last_prio (called, s) =
     (if called < length hooks
      then (case n of
              0 \<Rightarrow> None
            | Suc n \<Rightarrow> (let prio = lowest_prio hooks last_prio
                       in notify_loop n hooks prio (call_prio hooks prio (called, s))))
      else Some s)"

definition hook_notify :: "nat \<Rightarrow> 's hook_data list \<Rightarrow> 's \<Rightarrow> 's option" where
  "hook_notify n hooks s = notify_loop n hooks (HOOK_PRIO_FIRST - 1) (0, s)"

subsection \<open>Deferred routines and the hook task\<close>

definition hook_call_deferred ::
    "u64 \<Rightarrow> int \<Rightarrow> int \<Rightarrow> 'a hook_state_scheme \<Rightarrow> 'a hook_state_scheme \<times> ec_error_list" where
  "hook_call_deferred now i us s =
     (if i < 0 \<or> int (length (deferred_until s)) \<le> i then (s, EC_ERROR_INVAL)
      else if us = -1 then (s\<lparr>deferred_until := (deferred_until s)[nat i := 0]\<rparr>, EC_SUCCESS)
      else let s1 = s\<lparr>deferred_until := (deferred_until s)[nat i := now + of_int us]\<rparr>
           in (if hook_task_started s1 then s1\<lparr>wakes := wakes s1 + 1\<rparr> else s1, EC_SUCCESS))"

definition deferred_step ::
    "(nat \<Rightarrow> 'a hook_state_scheme \<Rightarrow> 'a hook_state_scheme) \<Rightarrow> u64 \<Rightarrow> nat \<Rightarrow> 'a hook_state_scheme \<Rightarrow> 'a hook_state_scheme" where
  "deferred_step funcs t i s =
     (if deferred_until s ! i \<noteq> 0 \<and> deferred_until s ! i < t
      then funcs i (s\<lparr>deferred_until := (deferred_until s)[i := 0]\<rparr>) else s)"

definition deferred_scan ::
    "(nat \<Rightarrow> 'a hook_state_scheme \<Rightarrow> 'a hook_state_scheme) \<Rightarrow> u64 \<Rightarrow> 'a hook_state_scheme \<Rightarrow> 'a hook_state_scheme" where
  "deferred_scan funcs t s = fold (deferred_step funcs t) [0..<length (deferred_until s)] s"

text \<open>A \<open>u64\<close> assigned to an \<open>int\<close>.\<close>

definition to_int :: "u64 \<Rightarrow> int" where "to_int x = sint (ucast x :: u32)"

fun next_deferred :: "u64 \<Rightarrow> u64 list \<Rightarrow> int \<Rightarrow> int" where
  "next_deferred t [] nxt = nxt"
| "next_deferred t (d # ds) nxt =
     (if nxt \<le> 0 then nxt
      else if d = 0 then next_deferred t ds nxt
      else if d < t then next_deferred t ds 0
      else if d - t < of_int nxt then next_deferred t ds (to_int (d - t))
      else next_deferred t ds nxt)"

text \<open>
  One round of the loop: it reads the clock as \<open>t\<close> and again as \<open>t2\<close> after the hooks, and
  the result holds the time to sleep when it is positive.
\<close>

definition periodic_hooks ::
    "u64 \<Rightarrow> 'a hook_state_scheme hook_data list \<Rightarrow> 'a hook_state_scheme hook_data list \<Rightarrow> u64 \<Rightarrow>
      'a hook_state_scheme \<Rightarrow> 'a hook_state_scheme option" where
  "periodic_hooks interval tick_hooks second_hooks t s =
     do {
       s1 \<leftarrow> (if interval \<le> t - last_tick s
              then map_option (\<lambda>s. s\<lparr>last_tick := t\<rparr>) (hook_notify (length tick_hooks) tick_hooks s)
              else Some s);
       (if HOOK_SECOND \<le> t - last_second s1
        then map_option (\<lambda>s. s\<lparr>last_second := t\<rparr>) (hook_notify (length second_hooks) second_hooks s1)
        else Some s1)
     }"

definition next_wake :: "u64 \<Rightarrow> u64 \<Rightarrow> 'a hook_state_scheme \<Rightarrow> int" where
  "next_wake interval t2 s =
     next_deferred t2 (deferred_until s)
       (if t2 < last_tick s + interval then to_int (last_tick s + interval - t2) else 0)"

definition hook_task_round ::
    "u64 \<Rightarrow> 'a hook_state_scheme hook_data list \<Rightarrow> 'a hook_state_scheme hook_data list \<Rightarrow>
      (nat \<Rightarrow> 'a hook_state_scheme \<Rightarrow> 'a hook_state_scheme) \<Rightarrow> u64 \<Rightarrow> u64 \<Rightarrow>
      'a hook_state_scheme \<Rightarrow> ('a hook_state_scheme \<times> int) option" where
  "hook_task_round interval tick_hooks second_hooks funcs t t2 s =
     map_option (\<lambda>s. (s, next_wake interval t2 s))
       (periodic_hooks interval tick_hooks second_hooks t (deferred_scan funcs t s))"

definition hook_task_start :: "'a hook_state_scheme hook_data list \<Rightarrow> 'a hook_state_scheme \<Rightarrow> 'a hook_state_scheme option" where
  "hook_task_start init_hooks s = hook_notify (length init_hooks) init_hooks (s\<lparr>hook_task_started := True\<rparr>)"

subsection \<open>The order of notification\<close>

lemma lowest_prio_fold:
  fixes hooks :: "'s hook_data list"
  defines "step l \<equiv> \<lambda>(p :: 's hook_data) prio. if priority p < prio \<and> l < priority p then priority p else prio"
  shows "fold (step l) hooks b \<le> b \<and> (\<forall>p \<in> set hooks. l < priority p \<longrightarrow> fold (step l) hooks b \<le> priority p) \<and>
    (fold (step l) hooks b = b \<or> (\<exists>p \<in> set hooks. l < priority p \<and> priority p = fold (step l) hooks b))"
proof (induction hooks arbitrary: b)
  case (Cons h hooks)
  show ?case using Cons.IH [of "step l h b"] by (fastforce simp: step_def split: if_splits)
qed simp

lemma lowest_prio_least:
  "lowest_prio hooks l \<le> HOOK_PRIO_LAST + 1"
  "p \<in> set hooks \<Longrightarrow> l < priority p \<Longrightarrow> lowest_prio hooks l \<le> priority p"
  "lowest_prio hooks l = HOOK_PRIO_LAST + 1 \<or>
    (\<exists>p \<in> set hooks. l < priority p \<and> priority p = lowest_prio hooks l)"
  using lowest_prio_fold [of l hooks "HOOK_PRIO_LAST + 1"] unfolding lowest_prio_def by blast+

lemma call_prio_filter:
  "call_prio hooks prio (c, s) =
     (c + length (filter (\<lambda>p. priority p = prio) hooks),
      fold routine (filter (\<lambda>p. priority p = prio) hooks) s)"
  by (induction hooks arbitrary: c s) (auto simp: call_prio_def)

lemma sorted_least:
  fixes f :: "'a \<Rightarrow> int"
  shows "sorted (map f ys) \<Longrightarrow> \<forall>y \<in> set ys. m \<le> f y \<Longrightarrow>
    ys = filter (\<lambda>x. f x = m) ys @ filter (\<lambda>x. m < f x) ys"
proof (induction ys)
  case (Cons y ys)
  show ?case
  proof (cases "f y = m")
    case False
    then have "\<forall>x \<in> set ys. m < f x" using Cons.prems by fastforce
    then show ?thesis using False Cons.prems(2) by (auto simp: filter_empty_conv)
  qed (use Cons in simp)
qed simp

lemma sort_key_least:
  fixes f :: "'a \<Rightarrow> int"
  assumes "\<forall>x \<in> set xs. m \<le> f x"
  shows "sort_key f xs = filter (\<lambda>x. f x = m) xs @ sort_key f (filter (\<lambda>x. m < f x) xs)"
  using sorted_least [of f "sort_key f xs" m] assms by (simp add: sort_key_stable filter_sort)

declare notify_loop.simps [simp del]

lemma length_filter_ge:
  fixes f :: "'a \<Rightarrow> int"
  shows "length (filter (\<lambda>x. k \<le> f x) xs) = length (filter (\<lambda>x. f x = k) xs) + length (filter (\<lambda>x. k < f x) xs)"
  by (induction xs) auto

lemma notify_loop_sorted:
  assumes "\<forall>p \<in> set hooks. priority p \<le> HOOK_PRIO_LAST"
    and "c = length (filter (\<lambda>p. priority p \<le> l) hooks)"
    and "length (filter (\<lambda>p. l < priority p) hooks) \<le> n"
  shows "notify_loop n hooks l (c, s) = Some (fold routine (sort_key priority (filter (\<lambda>p. l < priority p) hooks)) s)"
  using assms(2,3)
proof (induction n arbitrary: l c s)
  case 0
  then have none: "filter (\<lambda>p. l < priority p) hooks = []" by simp
  then have "filter (\<lambda>p. priority p \<le> l) hooks = hooks" by (auto simp: filter_empty_conv filter_id_conv not_less)
  then show ?case using none 0 by (simp add: notify_loop.simps)
next
  case (Suc n)
  have sum: "length (filter (\<lambda>p. priority p \<le> k) hooks) + length (filter (\<lambda>p. k < priority p) hooks) = length hooks" for k
    using sum_length_filter_compl [of "\<lambda>p. priority p \<le> k" hooks] by (simp add: not_le)
  show ?case
  proof (cases "filter (\<lambda>p. l < priority p) hooks = []")
    case True
    then show ?thesis using sum [of l] Suc.prems by (simp add: notify_loop.simps)
  next
    case False
    let ?p = "lowest_prio hooks l"
    let ?eq = "filter (\<lambda>p. priority p = ?p) hooks"
    obtain q where q: "q \<in> set hooks" "l < priority q" using False by (auto simp: filter_empty_conv)
    then have "?p \<le> HOOK_PRIO_LAST" using lowest_prio_least(2) assms(1) by fastforce
    then have l: "l < ?p" and some: "\<exists>q \<in> set hooks. priority q = ?p" using lowest_prio_least(3) [of hooks l] by auto
    have gt: "filter (\<lambda>x. ?p < priority x) (filter (\<lambda>p. l < priority p) hooks) = filter (\<lambda>x. ?p < priority x) hooks"
      and eq: "filter (\<lambda>x. priority x = ?p) (filter (\<lambda>p. l < priority p) hooks) = ?eq"
      using l by (auto simp: intro!: filter_cong)
    have split: "sort_key priority (filter (\<lambda>p. l < priority p) hooks) =
        ?eq @ sort_key priority (filter (\<lambda>x. ?p < priority x) hooks)"
      using sort_key_least [of "filter (\<lambda>p. l < priority p) hooks" ?p priority] lowest_prio_least(2) [of _ hooks l]
      by (simp add: gt eq del: filter_filter)
    have "length (filter (\<lambda>p. l < priority p) hooks) = length ?eq + length (filter (\<lambda>x. ?p < priority x) hooks)"
      using arg_cong [OF split, of length] by simp
    moreover have "?eq \<noteq> []" using some by (auto simp: filter_empty_conv)
    moreover have "0 < length (filter (\<lambda>p. l < priority p) hooks)" using False by simp
    then have "c < length hooks" using sum [of l] Suc.prems(1) by linarith
    moreover have "c + length ?eq = length (filter (\<lambda>p. priority p \<le> ?p) hooks)"
      using sum [of l] sum [of ?p] Suc.prems(1) calculation(1) by linarith
    moreover have "length (filter (\<lambda>x. ?p < priority x) hooks) \<le> n"
      using calculation(1,2) Suc.prems(2) length_greater_0_conv [of ?eq] by linarith
    ultimately show ?thesis
      using Suc.IH [of "c + length ?eq" ?p "fold routine ?eq s"]
      by (subst notify_loop.simps) (simp add: call_prio_filter split Let_def)
  qed
qed

lemma hook_notify_legal:
  assumes "\<forall>p \<in> set hooks. HOOK_PRIO_FIRST \<le> priority p \<and> priority p \<le> HOOK_PRIO_LAST" and "length hooks \<le> n"
  shows "hook_notify n hooks s = Some (fold routine (sort_key priority hooks) s)"
proof -
  have all: "filter (\<lambda>p. HOOK_PRIO_FIRST - 1 < priority p) hooks = hooks"
    and none: "filter (\<lambda>p. priority p \<le> HOOK_PRIO_FIRST - 1) hooks = []"
    using assms(1) by (auto simp: filter_id_conv filter_empty_conv)
  show ?thesis
    using assms notify_loop_sorted [of hooks 0 "HOOK_PRIO_FIRST - 1"] none by (simp add: hook_notify_def all)
qed

text \<open>A hook below \<open>HOOK_PRIO_FIRST\<close> is never reached.\<close>

lemma notify_loop_stuck:
  assumes "\<forall>p \<in> set hooks. priority p \<le> HOOK_PRIO_LAST" and "q \<in> set hooks" "priority q \<le> l"
    and "c + length (filter (\<lambda>p. l < priority p) hooks) < length hooks"
  shows "notify_loop n hooks l (c, s) = None"
  using assms(3,4)
proof (induction n arbitrary: l c s)
  case (Suc n)
  let ?p = "lowest_prio hooks l"
  let ?eq = "filter (\<lambda>p. priority p = ?p) hooks"
  have "l < priority p \<longleftrightarrow> ?p \<le> priority p" if "p \<in> set hooks" for p
    using lowest_prio_least(2) [OF that] lowest_prio_least(3) [of hooks l] assms(1) that by fastforce
  then have "filter (\<lambda>p. l < priority p) hooks = filter (\<lambda>p. ?p \<le> priority p) hooks"
    by (intro filter_cong) auto
  moreover note length_filter_ge [of ?p priority hooks]
  ultimately have "c + length ?eq + length (filter (\<lambda>p. ?p < priority p) hooks) < length hooks"
    using Suc.prems(2) by simp
  moreover have "priority q \<le> ?p" using Suc.prems(1) lowest_prio_least(3) [of hooks l] assms(1,2) by fastforce
  ultimately show ?case using Suc.IH Suc.prems(2) by (subst notify_loop.simps) (simp add: call_prio_filter Let_def)
qed (simp add: notify_loop.simps)

text \<open>
  C32: A notification calls every hook once, in the order of the priorities. With priorities of at
  most \<open>HOOK_PRIO_LAST\<close>, it returns exactly when none is below \<open>HOOK_PRIO_FIRST\<close>, within
  one round per hook, and then it has called the hooks in the order of a stable sort by priority:
  hooks of one priority are called in the order they are linked in.
\<close>

theorem hook_notify_sorted:
  assumes "\<forall>p \<in> set hooks. priority p \<le> HOOK_PRIO_LAST"
  shows "if \<forall>p \<in> set hooks. HOOK_PRIO_FIRST \<le> priority p
    then \<forall>n. length hooks \<le> n \<longrightarrow>
      hook_notify n hooks s = Some (fold routine (sort_key priority hooks) s)
    else \<forall>n. hook_notify n hooks s = None"
proof (cases "\<forall>p \<in> set hooks. HOOK_PRIO_FIRST \<le> priority p")
  case True
  then show ?thesis using hook_notify_legal [of hooks] assms by simp
next
  case False
  then obtain q where q: "q \<in> set hooks" "priority q \<le> HOOK_PRIO_FIRST - 1" by force
  then have "length (filter (\<lambda>p. HOOK_PRIO_FIRST - 1 < priority p) hooks) < length hooks"
    by (intro length_filter_less [of q]) auto
  then show ?thesis using False notify_loop_stuck [OF assms q, of 0] by (auto simp: hook_notify_def)
qed

theorem hook_notify_sorted_witness:
  "hook_notify 3 [\<lparr>routine = (#) (1::nat), priority = 5000\<rparr>, \<lparr>routine = (#) 2, priority = 1\<rparr>,
     \<lparr>routine = (#) 3, priority = 5000\<rparr>] [] = Some [3, 1, 2]"
proof -
  let ?hs = "[\<lparr>routine = (#) (1::nat), priority = 5000\<rparr>, \<lparr>routine = (#) 2, priority = 1\<rparr>,
     \<lparr>routine = (#) 3, priority = 5000\<rparr>]"
  have "\<forall>p \<in> set ?hs. priority p \<le> HOOK_PRIO_LAST" by (simp add: HOOK_PRIO_LAST_def)
  from hook_notify_sorted [OF this, of "[]"] show ?thesis by (simp add: HOOK_PRIO_FIRST_def)
qed

subsection \<open>The hook task\<close>

text \<open>
  Routines that arm deferred routines as the code documents it, with a delay of at least 0 from a
  clock that is past \<open>t\<close>, leave no deadline before \<open>t\<close> but those that were there, and do not
  touch the times of the periodic hooks.
\<close>

definition punctual :: "u64 \<Rightarrow> ('a hook_state_scheme \<Rightarrow> 'a hook_state_scheme) \<Rightarrow> bool" where
  "punctual t r \<longleftrightarrow> (\<forall>s. length (deferred_until (r s)) = length (deferred_until s) \<and>
     last_tick (r s) = last_tick s \<and> last_second (r s) = last_second s \<and>
     (\<forall>i < length (deferred_until s). deferred_until (r s) ! i \<in> {deferred_until s ! i, 0} \<or>
       t \<le> deferred_until (r s) ! i))"

definition overdue :: "u64 \<Rightarrow> 'a hook_state_scheme \<Rightarrow> nat \<Rightarrow> bool" where
  "overdue t s i \<longleftrightarrow> deferred_until s ! i \<noteq> 0 \<and> deferred_until s ! i < t"

lemma punctual_overdue:
  "punctual t r \<Longrightarrow> i < length (deferred_until s) \<Longrightarrow> overdue t (r s) i \<Longrightarrow> overdue t s i"
  unfolding punctual_def overdue_def by (metis insertE not_less singletonD)

lemma punctual_length: "punctual t r \<Longrightarrow> length (deferred_until (r s)) = length (deferred_until s)"
  by (simp add: punctual_def)

lemma punctual_periods: "punctual t r \<Longrightarrow> last_tick (r s) = last_tick s \<and> last_second (r s) = last_second s"
  by (simp add: punctual_def)

lemma punctual_fold: "\<forall>h \<in> set hs. punctual t (routine h) \<Longrightarrow> punctual t (fold routine hs)"
proof (induction hs)
  case (Cons h hs)
  have "punctual t (routine h)" "punctual t (fold routine hs)" using Cons by simp_all
  then show ?case unfolding punctual_def by (simp del: One_nat_def) (metis insertE insertI1 insertI2 singletonD)
qed (simp add: punctual_def)

lemma deferred_step_keeps:
  assumes "punctual t (funcs i)"
  shows "length (deferred_until (deferred_step funcs t i s)) = length (deferred_until s)"
    and "last_tick (deferred_step funcs t i s) = last_tick s" "last_second (deferred_step funcs t i s) = last_second s"
    and "j < length (deferred_until s) \<Longrightarrow> overdue t (deferred_step funcs t i s) j \<Longrightarrow> overdue t s j \<and> j \<noteq> i"
proof -
  let ?s = "s\<lparr>deferred_until := (deferred_until s)[i := 0]\<rparr>"
  show "length (deferred_until (deferred_step funcs t i s)) = length (deferred_until s)"
    "last_tick (deferred_step funcs t i s) = last_tick s" "last_second (deferred_step funcs t i s) = last_second s"
    using punctual_length [OF assms, of ?s] punctual_periods [OF assms, of ?s] by (simp_all add: deferred_step_def)
  assume j: "j < length (deferred_until s)" and o: "overdue t (deferred_step funcs t i s) j"
  show "overdue t s j \<and> j \<noteq> i"
  proof (cases "overdue t s i")
    case True
    then have "overdue t ?s j" using o punctual_overdue [OF assms, of j ?s] j by (simp add: deferred_step_def overdue_def)
    then show ?thesis using j by (cases "j = i") (auto simp: overdue_def)
  next
    case False
    then show ?thesis using o by (auto simp: deferred_step_def overdue_def)
  qed
qed

lemma deferred_fold:
  assumes "\<forall>i \<in> set is. punctual t (funcs i)"
  shows "length (deferred_until (fold (deferred_step funcs t) is s)) = length (deferred_until s) \<and>
    last_tick (fold (deferred_step funcs t) is s) = last_tick s \<and>
    last_second (fold (deferred_step funcs t) is s) = last_second s \<and>
    (\<forall>j < length (deferred_until s). overdue t (fold (deferred_step funcs t) is s) j \<longrightarrow> overdue t s j \<and> j \<notin> set is)"
  using assms
proof (induction "is" arbitrary: s)
  case (Cons i "is")
  have p: "punctual t (funcs i)" using Cons.prems by simp
  show ?case using Cons.IH [of "deferred_step funcs t i s"] Cons.prems deferred_step_keeps [where funcs = funcs and i = i and s = s, OF p] by fastforce
qed simp

lemma deferred_scan_punctual:
  assumes "\<forall>i < length (deferred_until s). punctual t (funcs i)" and "j < length (deferred_until s)"
  shows "\<not> overdue t (deferred_scan funcs t s) j"
  using deferred_fold [of "[0..<length (deferred_until s)]" t funcs s] assms by (auto simp: deferred_scan_def)

lemma to_int_small: "uint x < 2 ^ 31 \<Longrightarrow> to_int x = uint x"
  using order_trans [of "- (2 ^ 31)" 0 "uint x"]
  by (simp add: to_int_def sint_uint unsigned_ucast_eq signed_take_bit_take_bit signed_take_bit_int_eq_self)

lemma next_deferred_bounds:
  assumes "0 \<le> nxt" "nxt < 2 ^ 31"
  shows "0 \<le> next_deferred t ds nxt \<and> next_deferred t ds nxt \<le> nxt \<and>
    (0 < next_deferred t ds nxt \<longrightarrow> (\<forall>d \<in> set ds. d = 0 \<or> t \<le> d \<and> next_deferred t ds nxt \<le> uint (d - t))) \<and>
    (next_deferred t ds nxt = 0 \<longrightarrow> nxt = 0 \<or> (\<exists>d \<in> set ds. d \<noteq> 0 \<and> d \<le> t))"
  using assms
proof (induction ds arbitrary: nxt)
  case (Cons d ds)
  have u: "uint (of_int nxt :: u64) = nxt" using Cons.prems by (simp add: unsigned_of_int take_bit_int_eq_self)
  show ?case
  proof (cases "0 < nxt \<and> d \<noteq> 0 \<and> t \<le> d \<and> d - t < of_int nxt")
    case True
    then have lt: "uint (d - t) < nxt" by (simp add: word_less_def u)
    then have i: "to_int (d - t) = uint (d - t)" using Cons.prems by (intro to_int_small) simp
    have z: "uint (d - t) = 0 \<longrightarrow> d \<le> t" by (simp add: unsigned_eq_0_iff)
    show ?thesis using True Cons.IH [of "uint (d - t)"] lt Cons.prems z by (auto simp: i)
  next
    case False
    have "nxt \<le> uint (d - t)" if "0 < nxt" "d \<noteq> 0" "t \<le> d"
      using False that by (auto simp: word_less_def u)
    then show ?thesis using False Cons.IH [of nxt] Cons.IH [of 0] Cons.prems
      by (cases "d < t") (auto simp: not_less)
  qed
qed simp

definition good_hooks :: "u64 \<Rightarrow> 'a hook_state_scheme hook_data list \<Rightarrow> bool" where
  "good_hooks t hs \<longleftrightarrow>
     (\<forall>h \<in> set hs. HOOK_PRIO_FIRST \<le> priority h \<and> priority h \<le> HOOK_PRIO_LAST \<and> punctual t (routine h))"

lemma notify_punctual:
  assumes "good_hooks t hs"
  shows "\<exists>r. (\<forall>s. hook_notify (length hs) hs s = Some (r s)) \<and> punctual t r"
proof (intro exI conjI allI)
  show "hook_notify (length hs) hs s = Some (fold routine (sort_key priority hs) s)" for s
    using assms by (intro hook_notify_legal) (simp_all add: good_hooks_def)
  show "punctual t (fold routine (sort_key priority hs))"
    using assms by (intro punctual_fold) (simp add: good_hooks_def)
qed

lemma periodic_hooks_returns:
  assumes "good_hooks t tick_hooks" and "good_hooks t second_hooks"
  shows "\<exists>s'. periodic_hooks interval tick_hooks second_hooks t s = Some s' \<and>
    length (deferred_until s') = length (deferred_until s) \<and>
    (\<forall>i < length (deferred_until s). overdue t s' i \<longrightarrow> overdue t s i) \<and>
    last_tick s' = (if interval \<le> t - last_tick s then t else last_tick s)"
proof -
  obtain r1 where r1: "\<And>s. hook_notify (length tick_hooks) tick_hooks s = Some (r1 s)" "punctual t r1"
    using notify_punctual [OF assms(1)] by blast
  obtain r2 where r2: "\<And>s. hook_notify (length second_hooks) second_hooks s = Some (r2 s)" "punctual t r2"
    using notify_punctual [OF assms(2)] by blast
  define s1 where "s1 = (if interval \<le> t - last_tick s then (r1 s)\<lparr>last_tick := t\<rparr> else s)"
  define s2 where "s2 = (if HOOK_SECOND \<le> t - last_second s1 then (r2 s1)\<lparr>last_second := t\<rparr> else s1)"
  have "periodic_hooks interval tick_hooks second_hooks t s = Some s2"
    by (simp add: periodic_hooks_def r1(1) r2(1) s1_def s2_def)
  moreover have "length (deferred_until s1) = length (deferred_until s)"
    "\<forall>i < length (deferred_until s). overdue t s1 i \<longrightarrow> overdue t s i"
    "last_tick s1 = (if interval \<le> t - last_tick s then t else last_tick s)"
    using punctual_length [OF r1(2), of s] punctual_overdue [OF r1(2), of _ s]
    by (auto simp: s1_def overdue_def)
  moreover have "length (deferred_until s2) = length (deferred_until s1)"
    "\<forall>i < length (deferred_until s1). overdue t s2 i \<longrightarrow> overdue t s1 i" "last_tick s2 = last_tick s1"
    using punctual_length [OF r2(2), of s1] punctual_overdue [OF r2(2), of _ s1] punctual_periods [OF r2(2), of s1]
    by (auto simp: s2_def overdue_def)
  ultimately show ?thesis by simp
qed

text \<open>
  C33: The hook task never sleeps past a deadline. When routines are armed with delays of at least 0
  and hooks have legal priorities, a round of the task returns; every deferred routine overdue at
  its start has been dealt with; the sleep it asks for ends no later than the next tick and than
  the deadline of every pending deferred routine; and it only skips sleeping when the tick or a
  deferred routine is due.
\<close>

theorem hook_task_prompt:
  assumes "good_hooks t tick_hooks" and "good_hooks t second_hooks"
    and "\<forall>i < length (deferred_until s). punctual t (funcs i)"
    and "0 < interval" and "uint interval < 2 ^ 31" and "t \<le> t2" and "uint t2 + uint interval < 2 ^ 64"
    and "last_tick s \<le> t \<or> last_tick s = - interval"
  shows "\<exists>s' nxt. hook_task_round interval tick_hooks second_hooks funcs t t2 s = Some (s', nxt) \<and>
    last_tick s' \<le> t \<and> 0 \<le> nxt \<and> (\<forall>i < length (deferred_until s'). \<not> overdue t s' i) \<and>
    (0 < nxt \<longrightarrow> uint t2 + nxt \<le> uint (last_tick s') + uint interval \<and>
      (\<forall>d \<in> set (deferred_until s'). d = 0 \<or> uint t2 + nxt \<le> uint d)) \<and>
    (nxt = 0 \<longrightarrow> uint (last_tick s') + uint interval \<le> uint t2 \<or>
      (\<exists>d \<in> set (deferred_until s'). d \<noteq> 0 \<and> d \<le> t2))"
proof -
  let ?s1 = "deferred_scan funcs t s"
  have s1: "length (deferred_until ?s1) = length (deferred_until s)" "last_tick ?s1 = last_tick s"
    using deferred_fold [of "[0..<length (deferred_until s)]" t funcs s] assms(3) by (auto simp: deferred_scan_def)
  obtain s' where s': "periodic_hooks interval tick_hooks second_hooks t ?s1 = Some s'"
    "length (deferred_until s') = length (deferred_until s)"
    "\<forall>i < length (deferred_until s). overdue t s' i \<longrightarrow> overdue t ?s1 i"
    "last_tick s' = (if interval \<le> t - last_tick s then t else last_tick s)"
    using periodic_hooks_returns [OF assms(1,2), of interval ?s1] s1 by auto
  have o: "\<forall>i < length (deferred_until s'). \<not> overdue t s' i"
    using s'(2,3) deferred_scan_punctual [OF assms(3)] by auto
  have lt: "uint t \<le> uint t2" using assms(6) by (simp add: word_le_def)
  have L: "last_tick s' \<le> t"
  proof -
    have "interval \<le> t - - interval"
      using lt assms(7) by (simp add: word_le_def uint_plus_if_size word_size)
    then show ?thesis using s'(4) assms(8) by auto
  qed
  then have Li: "uint (last_tick s') \<le> uint t" by (simp add: word_le_def)
  have sum: "uint (last_tick s' + interval) = uint (last_tick s') + uint interval"
    using Li lt assms(7) by (simp add: uint_plus_if_size word_size)
  define nxt0 where "nxt0 = (if t2 < last_tick s' + interval then to_int (last_tick s' + interval - t2) else 0)"
  have n0: "nxt0 = max 0 (uint (last_tick s') + uint interval - uint t2)"
  proof (cases "t2 < last_tick s' + interval")
    case True
    then have "uint (last_tick s' + interval - t2) = uint (last_tick s') + uint interval - uint t2"
      by (simp add: uint_sub_if_size word_le_def word_less_def sum)
    then show ?thesis using True to_int_small [of "last_tick s' + interval - t2"] Li lt assms(5)
      by (simp add: nxt0_def word_less_def sum)
  qed (simp add: nxt0_def word_less_def sum)
  let ?r = "next_deferred t2 (deferred_until s') nxt0"
  have b: "0 \<le> ?r \<and> ?r \<le> nxt0 \<and>
    (0 < ?r \<longrightarrow> (\<forall>d \<in> set (deferred_until s'). d = 0 \<or> t2 \<le> d \<and> ?r \<le> uint (d - t2))) \<and>
    (?r = 0 \<longrightarrow> nxt0 = 0 \<or> (\<exists>d \<in> set (deferred_until s'). d \<noteq> 0 \<and> d \<le> t2))"
    using Li lt assms(5) by (intro next_deferred_bounds) (simp_all add: n0)
  have d: "uint t2 + ?r \<le> uint d" if "t2 \<le> d" "?r \<le> uint (d - t2)" for d
    using that by (simp add: uint_sub_if_size word_le_def split: if_splits)
  have "hook_task_round interval tick_hooks second_hooks funcs t t2 s = Some (s', ?r)"
    by (simp add: hook_task_round_def s'(1) next_wake_def nxt0_def)
  then show ?thesis using L o b d by (intro exI conjI) (auto simp: n0)
qed

theorem hook_task_prompt_witness:
  "\<exists>s' nxt. hook_task_round 500000 [] [] (\<lambda>_ s. s) 1000 1500
     \<lparr>deferred_until = [900, 2500], hook_task_started = True, last_second = 0, last_tick = 500, wakes = 0\<rparr> =
     Some (s', nxt) \<and> \<not> overdue 1000 s' 0"
proof -
  let ?s = "\<lparr>deferred_until = [900, 2500], hook_task_started = True, last_second = 0, last_tick = 500, wakes = 0\<rparr>"
  have p: "\<forall>i < length (deferred_until ?s). punctual 1000 ((\<lambda>_ s. s) i)" by (simp add: punctual_def)
  have g: "good_hooks 1000 []" by (simp add: good_hooks_def)
  have l: "length (deferred_until (fst r)) = 2"
    if "hook_task_round 500000 [] [] (\<lambda>_ s. s) 1000 1500 ?s = Some r" for r
    using that deferred_fold [of "[0, 1]" 1000 "\<lambda>_ s. s" ?s] periodic_hooks_returns [OF g g, of 500000 "deferred_scan (\<lambda>_ s. s) 1000 ?s"]
    by (auto simp: hook_task_round_def deferred_scan_def punctual_def)
  show ?thesis using hook_task_prompt [OF g g p, of 500000 1500] l by fastforce
qed

end
