(* ===== verification/Shmem.thy ===== *)
theory Shmem
  imports Prelude
begin

section \<open>The shared memory allocator of common/shmalloc.c\<close>

text \<open>
  Buffers with a header at their start, in a chain of free and a chain of allocated buffers. The
  memory holds the headers at their addresses; addresses and buffer sizes are numbers, 0 is
  \<open>NULL\<close>, and their sums are those of the code as long as the memory managed ends below
  \<open>2 ^ 32\<close>. A request is a C \<open>int\<close> that goes through the unsigned arithmetic of the
  code. Following \<open>NULL\<close> is \<open>None\<close>; the loops over a chain have fuel. The lock, and
  interrupt context, are left out: the functions are called one at a time, by tasks.
\<close>

record shm_buffer =
  next_buffer :: nat
  prev_buffer :: nat
  buffer_size :: nat

record shmem =
  hdr :: "nat \<Rightarrow> shm_buffer"
  free_buf_chain :: nat
  allocced_buf_chain :: nat
  max_allocated_size :: int

definition SHM_HEADER :: nat where "SHM_HEADER = 12"

definition shm_load :: "nat \<Rightarrow> shmem \<Rightarrow> shm_buffer option" where
  "shm_load p m = (if p = 0 then None else Some (hdr m p))"

definition shm_store :: "nat \<Rightarrow> (shm_buffer \<Rightarrow> shm_buffer) \<Rightarrow> shmem \<Rightarrow> shmem option" where
  "shm_store p f m = (if p = 0 then None else Some (m\<lparr>hdr := (hdr m)(p := f (hdr m p))\<rparr>))"

text \<open>\<open>if (p) p->prev_buffer = q;\<close>\<close>

definition link_back :: "nat \<Rightarrow> nat \<Rightarrow> shmem \<Rightarrow> shmem option" where
  "link_back p q m = (if p \<noteq> 0 then shm_store p (\<lambda>b. b\<lparr>prev_buffer := q\<rparr>) m else Some m)"

definition shared_mem_init :: "nat \<Rightarrow> nat \<Rightarrow> shmem \<Rightarrow> shmem" where
  "shared_mem_init base ram_end m =
     m\<lparr>free_buf_chain := base,
       hdr := (hdr m)(base := \<lparr>next_buffer = 0, prev_buffer = 0, buffer_size = ram_end - base\<rparr>)\<rparr>"

subsection \<open>Releasing\<close>

fun in_chain :: "nat \<Rightarrow> nat \<Rightarrow> nat \<Rightarrow> shmem \<Rightarrow> bool option" where
  "in_chain 0 pfb ptr m = None"
| "in_chain (Suc n) pfb ptr m =
     (if pfb = 0 then Some False else if pfb = ptr then Some True
      else in_chain n (next_buffer (hdr m pfb)) ptr m)"

text \<open>The result is false when the buffer is not an allocated one.\<close>

definition unchain :: "nat \<Rightarrow> nat \<Rightarrow> shmem \<Rightarrow> (shmem \<times> bool) option" where
  "unchain n ptr m =
     (if ptr = allocced_buf_chain m
      then do {
        b \<leftarrow> shm_load ptr m;
        m1 \<leftarrow> link_back (next_buffer b) 0 m;
        Some (m1\<lparr>allocced_buf_chain := next_buffer b\<rparr>, True)
      }
      else do {
        a \<leftarrow> shm_load (allocced_buf_chain m) m;
        found \<leftarrow> in_chain n (next_buffer a) ptr m;
        if \<not> found then Some (m, False)
        else do {
          b \<leftarrow> shm_load ptr m;
          m1 \<leftarrow> shm_store (prev_buffer b) (\<lambda>p. p\<lparr>next_buffer := next_buffer b\<rparr>) m;
          m2 \<leftarrow> link_back (next_buffer b) (prev_buffer b) m1;
          Some (m2, True)
        }
      })"

definition release_first :: "nat \<Rightarrow> nat \<Rightarrow> shmem \<Rightarrow> shmem option" where
  "release_first ptr released_size m =
     do {
       f \<leftarrow> shm_load (free_buf_chain m) m;
       m1 \<leftarrow> (if ptr + released_size = free_buf_chain m
              then shm_store ptr (\<lambda>b. b\<lparr>buffer_size := buffer_size f + released_size, next_buffer := next_buffer f\<rparr>) m
              else do {
                m' \<leftarrow> shm_store ptr (\<lambda>b. b\<lparr>buffer_size := released_size, next_buffer := free_buf_chain m\<rparr>) m;
                shm_store (free_buf_chain m') (\<lambda>b. b\<lparr>prev_buffer := ptr\<rparr>) m'
              });
       b \<leftarrow> shm_load ptr m1;
       m2 \<leftarrow> link_back (next_buffer b) ptr m1;
       m3 \<leftarrow> shm_store ptr (\<lambda>b. b\<lparr>prev_buffer := 0\<rparr>) m2;
       Some (m3\<lparr>free_buf_chain := ptr\<rparr>)
     }"

fun find_spot :: "nat \<Rightarrow> nat \<Rightarrow> nat \<Rightarrow> shmem \<Rightarrow> nat option" where
  "find_spot 0 pfb ptr m = None"
| "find_spot (Suc n) pfb ptr m =
     (let nb = next_buffer (hdr m pfb)
      in if nb \<noteq> 0 \<and> nb < ptr then find_spot n nb ptr m else Some pfb)"

definition release_below :: "nat \<Rightarrow> nat \<Rightarrow> nat \<Rightarrow> shmem \<Rightarrow> shmem option" where
  "release_below pfb ptr released_size m =
     do {
       m1 \<leftarrow> shm_store pfb (\<lambda>b. b\<lparr>buffer_size := buffer_size b + released_size\<rparr>) m;
       p \<leftarrow> shm_load pfb m1;
       if ptr + released_size = next_buffer p
       then do {
         f \<leftarrow> shm_load (next_buffer p) m1;
         m2 \<leftarrow> shm_store pfb (\<lambda>b. b\<lparr>buffer_size := buffer_size b + buffer_size f, next_buffer := next_buffer f\<rparr>) m1;
         link_back (next_buffer f) pfb m2
       }
       else Some m1
     }"

definition release_after :: "nat \<Rightarrow> nat \<Rightarrow> nat \<Rightarrow> shmem \<Rightarrow> shmem option" where
  "release_after pfb ptr released_size m =
     do {
       p \<leftarrow> shm_load pfb m;
       m1 \<leftarrow> (if ptr + released_size = next_buffer p
              then do {
                f \<leftarrow> shm_load (next_buffer p) m;
                shm_store ptr (\<lambda>b. b\<lparr>buffer_size := released_size + buffer_size f, next_buffer := next_buffer f\<rparr>) m
              }
              else shm_store ptr (\<lambda>b. b\<lparr>next_buffer := next_buffer p, buffer_size := released_size\<rparr>) m);
       m2 \<leftarrow> shm_store ptr (\<lambda>b. b\<lparr>prev_buffer := pfb\<rparr>) m1;
       m3 \<leftarrow> shm_store pfb (\<lambda>b. b\<lparr>next_buffer := ptr\<rparr>) m2;
       b \<leftarrow> shm_load ptr m3;
       link_back (next_buffer b) ptr m3
     }"

definition release_free :: "nat \<Rightarrow> nat \<Rightarrow> shmem \<Rightarrow> shmem option" where
  "release_free n ptr m =
     do {
       b \<leftarrow> shm_load ptr m;
       let released_size = buffer_size b;
       if free_buf_chain m = 0
       then do {
         m1 \<leftarrow> shm_store ptr (\<lambda>b. b\<lparr>buffer_size := released_size, next_buffer := 0, prev_buffer := 0\<rparr>) m;
         Some (m1\<lparr>free_buf_chain := ptr\<rparr>)
       }
       else if ptr < free_buf_chain m then release_first ptr released_size m
       else do {
         pfb \<leftarrow> find_spot n (free_buf_chain m) ptr m;
         p \<leftarrow> shm_load pfb m;
         if pfb + buffer_size p = ptr then release_below pfb ptr released_size m
         else release_after pfb ptr released_size m
       }
     }"

definition do_release :: "nat \<Rightarrow> nat \<Rightarrow> shmem \<Rightarrow> shmem option" where
  "do_release n ptr m =
     do {
       (m1, found) \<leftarrow> unchain n ptr m;
       if found then release_free n ptr m1 else Some m1
     }"

subsection \<open>Acquiring\<close>

text \<open>The request with the header, in the unsigned arithmetic of \<open>sizeof\<close>.\<close>

definition request :: "int \<Rightarrow> nat" where
  "request len = unat ((((of_int len :: u32) + 4 - 1) AND NOT (4 - 1)) + of_nat SHM_HEADER)"

definition MAX_HEADROOM :: nat where "MAX_HEADROOM = 0x10000000"

fun best_fit :: "nat \<Rightarrow> nat \<Rightarrow> nat \<Rightarrow> nat \<times> nat \<Rightarrow> shmem \<Rightarrow> (nat \<times> nat) option" where
  "best_fit 0 pfb len hc m = None"
| "best_fit (Suc n) pfb len hc m =
     (if pfb = 0 then Some hc
      else let bs = buffer_size (hdr m pfb)
           in best_fit n (next_buffer (hdr m pfb)) len
                (if len \<le> bs \<and> bs - len < fst hc then (bs - len, pfb) else hc) m)"

definition take_whole :: "nat \<Rightarrow> shmem \<Rightarrow> shmem option" where
  "take_whole candidate m =
     do {
       c \<leftarrow> shm_load candidate m;
       if candidate = free_buf_chain m
       then link_back (next_buffer c) 0 (m\<lparr>free_buf_chain := next_buffer c\<rparr>)
       else do {
         m1 \<leftarrow> shm_store (prev_buffer c) (\<lambda>b. b\<lparr>next_buffer := next_buffer c\<rparr>) m;
         link_back (next_buffer c) (prev_buffer c) m1
       }
     }"

definition take_part :: "nat \<Rightarrow> nat \<Rightarrow> nat \<Rightarrow> shmem \<Rightarrow> shmem option" where
  "take_part candidate len headroom m =
     do {
       m1 \<leftarrow> shm_store candidate (\<lambda>b. b\<lparr>buffer_size := len\<rparr>) m;
       c \<leftarrow> shm_load candidate m1;
       let pfb = candidate + len;
       m2 \<leftarrow> shm_store pfb (\<lambda>_. \<lparr>next_buffer = next_buffer c, prev_buffer = prev_buffer c, buffer_size = headroom\<rparr>) m1;
       m3 \<leftarrow> link_back (next_buffer c) pfb m2;
       if candidate = free_buf_chain m3 then Some (m3\<lparr>free_buf_chain := pfb\<rparr>)
       else shm_store (prev_buffer c) (\<lambda>b. b\<lparr>next_buffer := pfb\<rparr>) m3
     }"

definition do_acquire :: "nat \<Rightarrow> int \<Rightarrow> shmem \<Rightarrow> (shmem \<times> nat \<times> ec_error_list) option" where
  "do_acquire n len m =
     do {
       let sz = request len;
       (headroom, candidate) \<leftarrow> best_fit n (free_buf_chain m) sz (MAX_HEADROOM, 0) m;
       if candidate = 0 then Some (m, 0, EC_ERROR_BUSY)
       else do {
         m1 \<leftarrow> (if headroom \<le> SHM_HEADER then take_whole candidate m
                else take_part candidate sz headroom m);
         Some (m1, candidate, EC_SUCCESS)
       }
     }"

subsection \<open>The interface\<close>

definition shared_mem_acquire :: "nat \<Rightarrow> int \<Rightarrow> shmem \<Rightarrow> (shmem \<times> nat \<times> ec_error_list) option" where
  "shared_mem_acquire n len m =
     (if free_buf_chain m = 0 then Some (m, 0, EC_ERROR_BUSY)
      else do {
        (m1, new_buf, rv) \<leftarrow> do_acquire n len m;
        if rv = EC_SUCCESS
        then do {
          m2 \<leftarrow> shm_store new_buf (\<lambda>b. b\<lparr>next_buffer := allocced_buf_chain m1, prev_buffer := 0\<rparr>) m1;
          m3 \<leftarrow> link_back (allocced_buf_chain m2) new_buf m2;
          Some (m3\<lparr>allocced_buf_chain := new_buf, max_allocated_size := max len (max_allocated_size m3)\<rparr>,
                new_buf + SHM_HEADER, EC_SUCCESS)
        }
        else Some (m1, 0, rv)
      })"

definition shared_mem_release :: "nat \<Rightarrow> nat \<Rightarrow> shmem \<Rightarrow> shmem option" where
  "shared_mem_release n ptr m = (if ptr = 0 then Some m else do_release n (ptr - SHM_HEADER) m)"

fun largest_free :: "nat \<Rightarrow> nat \<Rightarrow> nat \<Rightarrow> shmem \<Rightarrow> nat option" where
  "largest_free 0 pfb mx m = None"
| "largest_free (Suc n) pfb mx m =
     (if pfb = 0 then Some mx
      else largest_free n (next_buffer (hdr m pfb)) (max mx (buffer_size (hdr m pfb))) m)"

definition shared_mem_size :: "nat \<Rightarrow> shmem \<Rightarrow> int option" where
  "shared_mem_size n m =
     map_option (\<lambda>mx. sint ((of_nat mx :: u32) - of_nat SHM_HEADER)) (largest_free n (free_buf_chain m) 0 m)"

end
