(* ===== verification/ShmemProps.thy ===== *)
theory ShmemProps
  imports Shmem "HOL-Library.Multiset"
begin

section \<open>What the shared memory allocator guarantees\<close>

text \<open>
  A chain of buffers in memory represents a list of addresses and sizes. The allocator refines
  operations on these lists, which keep the memory tiled by the buffers and the free buffers
  apart from each other.
\<close>

subsection \<open>Doubly linked lists in memory\<close>

type_synonym chunk = "nat \<times> nat"

definition head_or :: "nat \<Rightarrow> chunk list \<Rightarrow> nat" where
  "head_or nx xs = (case xs of [] \<Rightarrow> nx | c # _ \<Rightarrow> fst c)"

definition last_or :: "nat \<Rightarrow> chunk list \<Rightarrow> nat" where
  "last_or pr xs = (if xs = [] then pr else fst (last xs))"

lemma head_or_simps [simp]:
  "head_or nx [] = nx" "head_or nx (c # xs) = fst c" "head_or nx (xs @ ys) = head_or (head_or nx ys) xs"
  by (simp_all add: head_or_def split: list.splits)

lemma last_or_simps [simp]:
  "last_or pr [] = pr" "last_or pr (c # xs) = last_or (fst c) xs" "last_or pr (xs @ ys) = last_or (last_or pr xs) ys"
  by (simp_all add: last_or_def)

fun seg :: "(nat \<Rightarrow> shm_buffer) \<Rightarrow> nat \<Rightarrow> chunk list \<Rightarrow> nat \<Rightarrow> bool" where
  "seg h pr [] nx = True"
| "seg h pr (c # xs) nx =
     (fst c \<noteq> 0 \<and> h (fst c) = \<lparr>next_buffer = head_or nx xs, prev_buffer = pr, buffer_size = snd c\<rparr> \<and>
      seg h (fst c) xs nx)"

lemma seg_append [simp]: "seg h pr (xs @ ys) nx \<longleftrightarrow> seg h pr xs (head_or nx ys) \<and> seg h (last_or pr xs) ys nx"
  by (induction xs arbitrary: pr) simp_all

lemma seg_frame [simp]: "a \<notin> fst ` set xs \<Longrightarrow> seg (h(a := b)) pr xs nx = seg h pr xs nx"
  by (induction xs arbitrary: pr) simp_all

lemma seg_nonzero: "seg h pr xs nx \<Longrightarrow> c \<in> set xs \<Longrightarrow> fst c \<noteq> 0"
  by (induction xs arbitrary: pr) auto

lemma head_or_in: "xs \<noteq> [] \<Longrightarrow> head_or nx xs \<in> fst ` set xs"
  by (cases xs) auto

lemma last_or_in: "xs \<noteq> [] \<Longrightarrow> last_or pr xs \<in> fst ` set xs"
  by (simp add: last_or_def)

lemma seg_set_next:
  assumes "seg h pr (xs @ [(a, n)]) nx" and "a \<notin> fst ` set xs"
  shows "seg (h(a := (h a)\<lparr>next_buffer := nx'\<rparr>)) pr (xs @ [(a, n)]) nx'"
  using assms by simp

lemma seg_set_prev:
  assumes "seg h pr ((a, n) # xs) nx" and "a \<notin> fst ` set xs"
  shows "seg (h(a := (h a)\<lparr>prev_buffer := pr'\<rparr>)) pr' ((a, n) # xs) nx"
  using assms by simp

text \<open>\<open>link_back\<close> on the head of a chain sets its back pointer.\<close>

lemma link_back_seg:
  assumes "seg (hdr m) pr xs 0" and "distinct (map fst xs)"
  shows "\<exists>h. link_back (head_or 0 xs) pr' m = Some (m\<lparr>hdr := h\<rparr>) \<and> seg h pr' xs 0 \<and>
    (\<forall>a. a \<notin> fst ` set xs \<longrightarrow> h a = hdr m a)"
proof (cases xs)
  case Nil
  then show ?thesis by (intro exI [of _ "hdr m"]) (simp add: link_back_def)
next
  case (Cons c ys)
  obtain a n where c: "c = (a, n)" by (cases c)
  then have "a \<noteq> 0" "a \<notin> fst ` set ys" using assms Cons by auto
  then show ?thesis using assms Cons c seg_set_prev [of "hdr m" pr a n ys 0 pr']
    by (intro exI [of _ "(hdr m)(a := (hdr m a)\<lparr>prev_buffer := pr'\<rparr>)"]) (auto simp: link_back_def shm_store_def)
qed

lemma seg_cong: "(\<forall>a \<in> fst ` set xs. h a = h' a) \<Longrightarrow> seg h pr xs nx = seg h' pr xs nx"
  by (induction xs arbitrary: pr) simp_all

subsection \<open>The state represented\<close>

text \<open>
  The free buffers in the order of their addresses with a gap between any two, and the allocated
  ones; all are apart, have room for a header, and cover the memory from \<open>base\<close>.
\<close>

fun gaps :: "chunk list \<Rightarrow> bool" where
  "gaps (c # d # xs) = (fst c + snd c < fst d \<and> gaps (d # xs))"
| "gaps xs = True"

definition area :: "chunk \<Rightarrow> nat set" where "area c = {fst c..<fst c + snd c}"

definition apart :: "chunk list \<Rightarrow> bool" where
  "apart xs \<longleftrightarrow> (\<forall>i < length xs. \<forall>j < length xs. i \<noteq> j \<longrightarrow> area (xs ! i) \<inter> area (xs ! j) = {})"

definition areas :: "chunk list \<Rightarrow> nat set" where "areas xs = (\<Union>c \<in> set xs. area c)"

lemma apart_Cons [simp]: "apart (c # xs) \<longleftrightarrow> area c \<inter> areas xs = {} \<and> apart xs"
proof
  assume a: "apart (c # xs)"
  have "area c \<inter> area d = {}" if d: "d \<in> set xs" for d
  proof -
    obtain j where "j < length xs" "xs ! j = d" using d by (auto simp: in_set_conv_nth)
    then show ?thesis using a [unfolded apart_def, rule_format, of 0 "Suc j"] by simp
  qed
  moreover have "apart xs" unfolding apart_def
  proof (intro allI impI)
    fix i j assume "i < length xs" "j < length xs" "i \<noteq> j"
    then show "area (xs ! i) \<inter> area (xs ! j) = {}"
      using a unfolding apart_def by (metis Suc_inject Suc_less_eq length_Cons nth_Cons_Suc)
  qed
  ultimately show "area c \<inter> areas xs = {} \<and> apart xs" by (auto simp: areas_def)
next
  assume a: "area c \<inter> areas xs = {} \<and> apart xs"
  then have "area c \<inter> area (xs ! j) = {}" if "j < length xs" for j
    using a nth_mem [OF that] unfolding areas_def by blast
  then show "apart (c # xs)" using a by (auto simp: apart_def nth_Cons split: nat.splits)
qed

lemma apart_Nil [simp]: "apart []"
  by (simp add: apart_def)

lemma areas_simps [simp]: "areas [] = {}" "areas (c # xs) = area c \<union> areas xs" "areas (xs @ ys) = areas xs \<union> areas ys"
  by (auto simp: areas_def)

lemma apart_append [simp]: "apart (xs @ ys) \<longleftrightarrow> apart xs \<and> apart ys \<and> areas xs \<inter> areas ys = {}"
  by (induction xs) auto

lemma area_Int [simp]: "area (a, n) = {a..<a + n}"
  by (simp add: area_def)

definition shm_inv :: "nat \<Rightarrow> nat \<Rightarrow> shmem \<Rightarrow> chunk list \<Rightarrow> chunk list \<Rightarrow> bool" where
  "shm_inv base ram m fs us \<longleftrightarrow>
     seg (hdr m) 0 fs 0 \<and> free_buf_chain m = head_or 0 fs \<and>
     seg (hdr m) 0 us 0 \<and> allocced_buf_chain m = head_or 0 us \<and>
     gaps fs \<and> apart (fs @ us) \<and> areas (fs @ us) = {base..<base + ram} \<and>
     (\<forall>c \<in> set (fs @ us). SHM_HEADER \<le> snd c)"

lemma area_nonempty: "SHM_HEADER \<le> snd c \<Longrightarrow> fst c \<in> area c"
  by (simp add: area_def SHM_HEADER_def)

lemma apart_notin:
  assumes "apart (c # xs)" and "\<forall>d \<in> set (c # xs). SHM_HEADER \<le> snd d"
  shows "fst c \<notin> fst ` set xs"
proof
  assume "fst c \<in> fst ` set xs"
  then obtain d where d: "d \<in> set xs" "fst d = fst c" by auto
  then have "fst c \<in> area d" "fst c \<in> area c" using assms(2) area_nonempty [of d] area_nonempty [of c] by auto
  then show False using assms(1) d(1) by (auto simp: areas_def)
qed

lemma apart_distinct: "apart xs \<Longrightarrow> \<forall>c \<in> set xs. SHM_HEADER \<le> snd c \<Longrightarrow> distinct (map fst xs)"
proof (induction xs)
  case (Cons c xs)
  then show ?case using apart_notin [of c xs] by simp
qed simp

lemma relink:
  assumes "seg (hdr m) 0 xs (head_or 0 zs)" and "seg (hdr m) pr zs 0" and "distinct (map fst (xs @ zs))"
  shows "\<exists>h. link_back (head_or 0 zs) (last_or 0 xs) m = Some (m\<lparr>hdr := h\<rparr>) \<and> seg h 0 (xs @ zs) 0 \<and>
    (\<forall>a. a \<notin> fst ` set zs \<longrightarrow> h a = hdr m a)"
proof -
  obtain h where h: "link_back (head_or 0 zs) (last_or 0 xs) m = Some (m\<lparr>hdr := h\<rparr>)"
    "seg h (last_or 0 xs) zs 0" "\<forall>a. a \<notin> fst ` set zs \<longrightarrow> h a = hdr m a"
    using link_back_seg [OF assms(2), of "last_or 0 xs"] assms(3) by auto
  have "\<forall>a \<in> fst ` set xs. h a = hdr m a" using h(3) assms(3) by (auto 4 3 simp: image_iff)
  then have "seg h 0 xs (head_or 0 zs)" using assms(1) seg_cong by blast
  then show ?thesis using h by auto
qed

subsection \<open>Releasing\<close>

lemma in_chain_seg:
  "seg (hdr m) pr xs 0 \<Longrightarrow> length xs < n \<Longrightarrow> in_chain n (head_or 0 xs) p m = Some (p \<in> fst ` set xs)"
proof (induction xs arbitrary: n pr)
  case Nil
  then show ?case by (cases n) auto
next
  case (Cons c xs)
  then show ?case by (cases n) auto
qed

text \<open>Taking a buffer out of a chain when it is not the first.\<close>

lemma unlink_middle:
  assumes "seg (hdr m) 0 (xs @ (p, n) # ys) 0" and "distinct (map fst (xs @ (p, n) # ys))" and "xs \<noteq> []"
  shows "\<exists>h. do {
      m1 \<leftarrow> shm_store (prev_buffer (hdr m p)) (\<lambda>b. b\<lparr>next_buffer := next_buffer (hdr m p)\<rparr>) m;
      link_back (next_buffer (hdr m p)) (prev_buffer (hdr m p)) m1
    } = Some (m\<lparr>hdr := h\<rparr>) \<and> seg h 0 (xs @ ys) 0 \<and> (\<forall>a. a \<notin> fst ` set (xs @ ys) \<longrightarrow> h a = hdr m a)"
proof -
  obtain ws q j where xs: "xs = ws @ [(q, j)]" using assms(3) by (cases xs rule: rev_cases) auto
  have q: "q \<noteq> 0" "q \<noteq> p" "q \<notin> fst ` set ws" "q \<notin> fst ` set ys"
    using assms(1,2) xs by (auto simp: image_iff)
  have hp: "hdr m p = \<lparr>next_buffer = head_or 0 ys, prev_buffer = q, buffer_size = n\<rparr>"
    using assms(1) xs by simp
  let ?h = "(hdr m)(q := (hdr m q)\<lparr>next_buffer := head_or 0 ys\<rparr>)"
  have s1: "seg ?h 0 xs (head_or 0 ys)" using seg_set_next [of "hdr m" 0 ws q j p] assms(1) xs q by simp
  have s2: "seg ?h p ys 0" using assms(1) q by simp
  obtain h where h: "link_back (head_or 0 ys) (last_or 0 xs) (m\<lparr>hdr := ?h\<rparr>) = Some (m\<lparr>hdr := h\<rparr>)"
    "seg h 0 (xs @ ys) 0" "\<forall>a. a \<notin> fst ` set ys \<longrightarrow> h a = ?h a"
    using relink [of "m\<lparr>hdr := ?h\<rparr>" xs ys p] s1 s2 assms(2) by auto
  then show ?thesis using q xs by (intro exI [of _ h]) (auto simp: hp shm_store_def)
qed

lemma unchain_held:
  assumes "seg (hdr m) 0 (xs @ (p, n) # ys) 0" and "allocced_buf_chain m = head_or 0 (xs @ (p, n) # ys)"
    and "distinct (map fst (xs @ (p, n) # ys))" and "length (xs @ ys) < k"
  shows "\<exists>h. unchain k p m = Some (m\<lparr>hdr := h, allocced_buf_chain := head_or 0 (xs @ ys)\<rparr>, True) \<and>
    seg h 0 (xs @ ys) 0 \<and> (\<forall>a. a \<notin> fst ` set (xs @ ys) \<longrightarrow> h a = hdr m a)"
proof (cases xs)
  case Nil
  then obtain h where "link_back (head_or 0 ys) 0 m = Some (m\<lparr>hdr := h\<rparr>)" "seg h 0 ys 0"
    "\<forall>a. a \<notin> fst ` set ys \<longrightarrow> h a = hdr m a"
    using link_back_seg [of m p ys 0] assms by auto
  then show ?thesis using Nil assms by (intro exI [of _ h]) (auto simp: unchain_def shm_load_def)
next
  case (Cons x xs')
  have ne: "p \<noteq> fst x" "allocced_buf_chain m = fst x" "fst x \<noteq> 0" "p \<noteq> 0" using assms(1,2,3) Cons by auto
  have "in_chain k (next_buffer (hdr m (fst x))) p m = Some True"
    using in_chain_seg [of m "fst x" "xs' @ (p, n) # ys" k p] assms(1,4) Cons by simp
  moreover obtain h where h: "do {
      m1 \<leftarrow> shm_store (prev_buffer (hdr m p)) (\<lambda>b. b\<lparr>next_buffer := next_buffer (hdr m p)\<rparr>) m;
      link_back (next_buffer (hdr m p)) (prev_buffer (hdr m p)) m1
    } = Some (m\<lparr>hdr := h\<rparr>)" "seg h 0 (xs @ ys) 0" "\<forall>a. a \<notin> fst ` set (xs @ ys) \<longrightarrow> h a = hdr m a"
    using unlink_middle [OF assms(1,3)] Cons by blast
  ultimately have "unchain k p m = Some (m\<lparr>hdr := h\<rparr>, True)"
    using ne by (auto simp: unchain_def shm_load_def split: bind_splits)
  moreover have "m\<lparr>hdr := h\<rparr> = m\<lparr>hdr := h, allocced_buf_chain := head_or 0 (xs @ ys)\<rparr>"
    using ne(2) Cons by simp
  ultimately show ?thesis using h(2,3) by (intro exI [of _ h]) auto
qed

lemma unchain_foreign:
  assumes "seg (hdr m) 0 us 0" and "allocced_buf_chain m = head_or 0 us" and "p \<notin> fst ` set us" and "length us \<le> k"
  shows "unchain k p m = (if us = [] then None else Some (m, False))"
proof (cases us)
  case Nil
  then show ?thesis using assms by (simp add: unchain_def shm_load_def link_back_def)
next
  case (Cons c cs)
  then show ?thesis using assms in_chain_seg [of m "fst c" cs k p] by (simp add: unchain_def shm_load_def)
qed

text \<open>Putting a buffer back among the free ones, merged with its neighbours.\<close>

definition merge_right :: "chunk \<Rightarrow> chunk list \<Rightarrow> chunk list" where
  "merge_right c ys =
     (case ys of [] \<Rightarrow> [c]
      | d # zs \<Rightarrow> if fst c + snd c = fst d then (fst c, snd c + snd d) # zs else c # ys)"

definition merge_left :: "chunk list \<Rightarrow> chunk list \<Rightarrow> chunk list" where
  "merge_left xs cs =
     (if xs \<noteq> [] \<and> fst (last xs) + snd (last xs) = fst (hd cs)
      then butlast xs @ (fst (last xs), snd (last xs) + snd (hd cs)) # tl cs else xs @ cs)"

lemma release_first_seg:
  assumes "seg (hdr m) 0 ys 0" and "ys \<noteq> []" and "free_buf_chain m = head_or 0 ys"
    and "distinct (map fst ys)" and "p \<notin> fst ` set ys" and "p \<noteq> 0"
  shows "\<exists>h. release_first p n m = Some (m\<lparr>hdr := h, free_buf_chain := p\<rparr>) \<and>
    seg h 0 (merge_right (p, n) ys) 0 \<and> (\<forall>a. a \<notin> insert p (fst ` set ys) \<longrightarrow> h a = hdr m a)"
proof -
  obtain f k zs where ys: "ys = (f, k) # zs" using assms(2) by (cases ys) auto
  then have f: "free_buf_chain m = f" "f \<noteq> 0" "f \<noteq> p" "p \<notin> fst ` set zs" "f \<notin> fst ` set zs"
    and hf: "hdr m f = \<lparr>next_buffer = head_or 0 zs, prev_buffer = 0, buffer_size = k\<rparr>"
    using assms by auto
  show ?thesis
  proof (cases "p + n = f")
    case True
    let ?b = "(hdr m p)\<lparr>buffer_size := k + n, next_buffer := head_or 0 zs\<rparr>"
    let ?m1 = "m\<lparr>hdr := (hdr m)(p := ?b)\<rparr>"
    obtain h where h: "link_back (head_or 0 zs) p ?m1 = Some (?m1\<lparr>hdr := h\<rparr>)" "seg h p zs 0"
      "\<forall>a. a \<notin> fst ` set zs \<longrightarrow> h a = ((hdr m)(p := ?b)) a"
      using link_back_seg [of ?m1 f zs p] assms f ys by auto
    have hp: "h p = ?b" using h(3) f by simp
    have "release_first p n m = Some (m\<lparr>hdr := h(p := ?b\<lparr>prev_buffer := 0\<rparr>), free_buf_chain := p\<rparr>)"
      using True f(2) assms(6) h(1) hp by (simp add: release_first_def shm_load_def shm_store_def f(1) hf)
    then show ?thesis using True h(2,3) f ys assms(6)
      by (intro exI [of _ "h(p := ?b\<lparr>prev_buffer := 0\<rparr>)"]) (auto simp: merge_right_def)
  next
    case False
    let ?b = "(hdr m p)\<lparr>buffer_size := n, next_buffer := f\<rparr>"
    let ?h1 = "(hdr m)(p := ?b, f := (hdr m f)\<lparr>prev_buffer := p\<rparr>)"
    let ?m1 = "m\<lparr>hdr := ?h1\<rparr>"
    have "seg ?h1 p ys 0" using assms f hf ys by simp
    then obtain h where h: "link_back f p ?m1 = Some (?m1\<lparr>hdr := h\<rparr>)" "seg h p ys 0"
      "\<forall>a. a \<notin> fst ` set ys \<longrightarrow> h a = ?h1 a"
      using link_back_seg [of ?m1 p ys p] assms(4) ys by auto
    have hp: "h p = ?b" using h(3) f assms(5) by simp
    have "release_first p n m = Some (m\<lparr>hdr := h(p := ?b\<lparr>prev_buffer := 0\<rparr>), free_buf_chain := p\<rparr>)"
      using False f(2,3) assms(6) h(1) hp by (simp add: release_first_def shm_load_def shm_store_def f(1) hf)
    then show ?thesis using False h(2,3) f ys assms(5,6)
      by (intro exI [of _ "h(p := ?b\<lparr>prev_buffer := 0\<rparr>)"]) (auto simp: merge_right_def)
  qed
qed

lemma release_below_seg:
  assumes "seg (hdr m) 0 (xs @ (q, k) # ys) 0" and "distinct (map fst (xs @ (q, k) # ys))" and "q + k = p" "0 < n"
  shows "\<exists>h. release_below q p n m = Some (m\<lparr>hdr := h\<rparr>) \<and>
    seg h 0 (merge_left (xs @ [(q, k)]) (merge_right (p, n) ys)) 0 \<and>
    (\<forall>a. a \<notin> fst ` set (xs @ (q, k) # ys) \<longrightarrow> h a = hdr m a)"
proof -
  have q: "q \<noteq> 0" "q \<notin> fst ` set xs" "q \<notin> fst ` set ys"
    and hq: "hdr m q = \<lparr>next_buffer = head_or 0 ys, prev_buffer = last_or 0 xs, buffer_size = k\<rparr>"
    using assms(1,2) by auto
  show ?thesis
  proof (cases "p + n = head_or 0 ys")
    case True
    then obtain b j zs where ys: "ys = (b, j) # zs" using assms(4) by (cases ys) auto
    then have b: "b \<noteq> 0" "b \<noteq> q" "q \<notin> fst ` set zs"
      and hb: "hdr m b = \<lparr>next_buffer = head_or 0 zs, prev_buffer = q, buffer_size = j\<rparr>"
      using assms(1,2) by auto
    let ?h = "(hdr m)(q := (hdr m q)\<lparr>buffer_size := k + n + j, next_buffer := head_or 0 zs\<rparr>)"
    have "seg ?h 0 (xs @ [(q, k + n + j)]) (head_or 0 zs)" "seg ?h b zs 0" using assms(1) q b ys hq by simp_all
    then obtain h where h: "link_back (head_or 0 zs) q (m\<lparr>hdr := ?h\<rparr>) = Some (m\<lparr>hdr := h\<rparr>)"
      "seg h 0 ((xs @ [(q, k + n + j)]) @ zs) 0" "\<forall>a. a \<notin> fst ` set zs \<longrightarrow> h a = ?h a"
      using relink [of "m\<lparr>hdr := ?h\<rparr>" "xs @ [(q, k + n + j)]" zs b] assms(2) ys by auto
    have "release_below q p n m = Some (m\<lparr>hdr := h\<rparr>)"
      using True b q ys h(1) by (simp add: release_below_def shm_load_def shm_store_def hq hb)
    then show ?thesis using True h(2,3) ys assms(3)
      by (intro exI [of _ h]) (auto simp: merge_left_def merge_right_def ac_simps)
  next
    case False
    let ?h = "(hdr m)(q := (hdr m q)\<lparr>buffer_size := k + n\<rparr>)"
    have "release_below q p n m = Some (m\<lparr>hdr := ?h\<rparr>)"
      using False q by (simp add: release_below_def shm_load_def shm_store_def hq)
    moreover have "seg ?h 0 (xs @ (q, k + n) # ys) 0" using assms(1) q hq by simp
    moreover have "merge_left (xs @ [(q, k)]) (merge_right (p, n) ys) = xs @ (q, k + n) # ys"
      using False assms(3) by (auto simp: merge_left_def merge_right_def split: list.splits)
    ultimately show ?thesis by (intro exI [of _ ?h]) auto
  qed
qed

lemma shm_full:
  "(b :: shm_buffer)\<lparr>buffer_size := n, next_buffer := x, prev_buffer := y\<rparr> =
     \<lparr>next_buffer = x, prev_buffer = y, buffer_size = n\<rparr>"
  "(b :: shm_buffer)\<lparr>next_buffer := x, buffer_size := n, prev_buffer := y\<rparr> =
     \<lparr>next_buffer = x, prev_buffer = y, buffer_size = n\<rparr>"
  by (cases b; simp)+

lemma release_after_seg:
  assumes "seg (hdr m) 0 (xs @ (q, k) # ys) 0" and "distinct (map fst (xs @ (q, k) # ys))"
    and "p \<notin> fst ` set (xs @ (q, k) # ys)" and "p \<noteq> 0" "q + k \<noteq> p" "0 < n"
  shows "\<exists>h. release_after q p n m = Some (m\<lparr>hdr := h\<rparr>) \<and>
    seg h 0 (merge_left (xs @ [(q, k)]) (merge_right (p, n) ys)) 0 \<and>
    (\<forall>a. a \<notin> insert p (fst ` set (xs @ (q, k) # ys)) \<longrightarrow> h a = hdr m a)"
proof -
  have q: "q \<noteq> 0" "q \<noteq> p" "q \<notin> fst ` set xs" "q \<notin> fst ` set ys" "p \<notin> fst ` set xs" "p \<notin> fst ` set ys"
    and hq: "hdr m q = \<lparr>next_buffer = head_or 0 ys, prev_buffer = last_or 0 xs, buffer_size = k\<rparr>"
    using assms(1,2,3) by auto
  define z where "z = (if p + n = head_or 0 ys then n + buffer_size (hdr m (head_or 0 ys)) else n)"
  define zs where "zs = (if p + n = head_or 0 ys then tl ys else ys)"
  have z: "merge_right (p, n) ys = (p, z) # zs" "set zs \<subseteq> set ys" "distinct (map fst zs)"
    "\<exists>a. seg (hdr m) a zs 0"
    "z = (if p + n = head_or 0 ys then n + buffer_size (hdr m (head_or 0 ys)) else n)"
    "head_or 0 zs = (if p + n = head_or 0 ys then next_buffer (hdr m (head_or 0 ys)) else head_or 0 ys)"
    "p + n = head_or 0 ys \<longrightarrow> head_or 0 ys \<noteq> 0"
    using assms(1,2,6) by (cases ys; auto simp: merge_right_def z_def zs_def)+
  obtain a where a: "seg (hdr m) a zs 0" using z(4) by blast
  have qz: "p \<notin> fst ` set zs" "q \<notin> fst ` set zs" "fst ` set xs \<inter> fst ` set zs = {}"
  proof -
    have "fst ` set zs \<subseteq> fst ` set ys" by (rule image_mono [OF z(2)])
    moreover have "fst ` set xs \<inter> fst ` set ys = {}" using assms(2) by auto
    ultimately show "p \<notin> fst ` set zs" "q \<notin> fst ` set zs" "fst ` set xs \<inter> fst ` set zs = {}" using q by blast+
  qed
  let ?b = "\<lparr>next_buffer = head_or 0 zs, prev_buffer = q, buffer_size = z\<rparr>"
  let ?h = "(hdr m)(p := ?b, q := (hdr m q)\<lparr>next_buffer := p\<rparr>)"
  have s1: "seg ?h 0 (xs @ [(q, k), (p, z)]) (head_or 0 zs)" using assms(1,4) q hq by simp
  have s2: "seg ?h a zs 0" using a qz by simp
  have d: "distinct (map fst ((xs @ [(q, k), (p, z)]) @ zs))" using q qz z(3) assms(2) by auto
  obtain h where h: "link_back (head_or 0 zs) p (m\<lparr>hdr := ?h\<rparr>) = Some (m\<lparr>hdr := h\<rparr>)"
    "seg h 0 ((xs @ [(q, k), (p, z)]) @ zs) 0" "\<forall>a. a \<notin> fst ` set zs \<longrightarrow> h a = ?h a"
    using relink [of "m\<lparr>hdr := ?h\<rparr>" "xs @ [(q, k), (p, z)]" zs a] s1 s2 d by auto
  have "release_after q p n m = Some (m\<lparr>hdr := h\<rparr>)"
  proof (cases "p + n = head_or 0 ys")
    case True
    then show ?thesis using q(1,2) assms(4) z(5-7) h(1)
      by (simp add: release_after_def shm_load_def shm_store_def hq shm_full)
  next
    case False
    then show ?thesis using q(1,2) assms(4) z(5-7) h(1)
      by (simp add: release_after_def shm_load_def shm_store_def hq shm_full)
  qed
  moreover have "merge_left (xs @ [(q, k)]) (merge_right (p, n) ys) = (xs @ [(q, k), (p, z)]) @ zs"
    using assms(5) by (simp add: merge_left_def z(1))
  moreover have "h b = hdr m b" if "b \<notin> insert p (fst ` set (xs @ (q, k) # ys))" for b
  proof -
    have "b \<notin> fst ` set zs" "b \<noteq> p" "b \<noteq> q" using that z(2) by auto
    then show ?thesis using h(3) by simp
  qed
  ultimately show ?thesis using h(2) by (intro exI [of _ h]) auto
qed

lemma find_spot_seg:
  assumes "\<forall>c \<in> set (xs @ [(q, k)]). fst c < p" and "\<forall>c \<in> set ys. p < fst c"
    and "seg (hdr m) pr (xs @ (q, k) # ys) 0" and "length xs < n"
  shows "find_spot n (head_or 0 (xs @ (q, k) # ys)) p m = Some q"
  using assms
proof (induction xs arbitrary: n pr)
  case Nil
  then show ?case by (cases n; cases ys) (auto simp: Let_def)
next
  case (Cons c xs)
  then obtain n' where n: "n = Suc n'" by (cases n) auto
  have "head_or q xs \<noteq> 0" "head_or q xs < p"
    using Cons.prems(1,3) by (cases xs; auto)+
  then show ?case using Cons n by (auto simp: Let_def)
qed

definition put_free :: "chunk \<Rightarrow> chunk list \<Rightarrow> chunk list" where
  "put_free c fs = merge_left (takeWhile (\<lambda>d. fst d < fst c) fs) (merge_right c (dropWhile (\<lambda>d. fst d < fst c) fs))"

lemma gaps_sorted: "gaps fs \<Longrightarrow> \<forall>c \<in> set fs. 0 < snd c \<Longrightarrow> sorted (map fst fs)"
  by (induction fs rule: gaps.induct) auto

lemma dropWhile_above:
  assumes "sorted (map fst fs)" and "p \<notin> fst ` set fs"
  shows "\<forall>c \<in> set (dropWhile (\<lambda>d. fst d < p) fs). p < (fst c :: nat)"
  using assms
proof (induction fs)
  case (Cons c fs)
  then show ?case by (cases "fst c < p") (auto simp: image_iff)
qed simp

lemma release_free_seg:
  assumes "seg (hdr m) 0 fs 0" and "free_buf_chain m = head_or 0 fs" and "gaps fs"
    and "distinct (map fst fs)" and "\<forall>c \<in> set fs. 0 < snd c" and "p \<notin> fst ` set fs" and "p \<noteq> 0"
    and "buffer_size (hdr m p) = n" "0 < n" and "length fs \<le> k"
  shows "\<exists>h. release_free k p m = Some (m\<lparr>hdr := h, free_buf_chain := head_or 0 (put_free (p, n) fs)\<rparr>) \<and>
    seg h 0 (put_free (p, n) fs) 0 \<and> (\<forall>a. a \<notin> insert p (fst ` set fs) \<longrightarrow> h a = hdr m a)"
proof -
  let ?xs = "takeWhile (\<lambda>d. fst d < p) fs"
  let ?ys = "dropWhile (\<lambda>d. fst d < p) fs"
  have below: "\<forall>c \<in> set ?xs. fst c < p" using set_takeWhileD by fastforce
  have above: "\<forall>c \<in> set ?ys. p < fst c"
    using dropWhile_above [OF gaps_sorted [OF assms(3,5)] assms(6)] .
  have fs: "fs = ?xs @ ?ys" by simp
  show ?thesis
  proof (cases ?xs rule: rev_cases)
    case Nil
    then have ys: "?ys = fs" using fs by simp
    then have put: "put_free (p, n) fs = merge_right (p, n) fs" using Nil by (simp add: put_free_def merge_left_def)
    show ?thesis
    proof (cases "fs = []")
      case True
      let ?b = "(hdr m p)\<lparr>buffer_size := n, next_buffer := 0, prev_buffer := 0\<rparr>"
      have "release_free k p m = Some (m\<lparr>hdr := (hdr m)(p := ?b), free_buf_chain := p\<rparr>)"
        using True assms(2,7,8) by (simp add: release_free_def shm_load_def shm_store_def)
      then show ?thesis using put True assms(7)
        by (intro exI [of _ "(hdr m)(p := ?b)"]) (simp add: merge_right_def)
    next
      case False
      then obtain c cs where c: "fs = c # cs" by (cases fs) auto
      have "p < free_buf_chain m" "free_buf_chain m \<noteq> 0" using above ys assms(1,2) c by simp_all
      then have "release_free k p m = release_first p n m" using assms(7,8) by (simp add: release_free_def shm_load_def)
      moreover have "head_or 0 (put_free (p, n) fs) = p" using put c by (simp add: merge_right_def)
      ultimately show ?thesis
        using release_first_seg [OF assms(1) False assms(2,4,6,7), of n] put by simp
    qed
  next
    case (snoc xs c)
    obtain q j where c: "c = (q, j)" by (cases c)
    then have fs': "fs = xs @ (q, j) # ?ys" using fs snoc by simp
    have put: "put_free (p, n) fs = merge_left (xs @ [(q, j)]) (merge_right (p, n) ?ys)"
      using snoc c by (simp add: put_free_def)
    have q: "q \<noteq> 0" "hdr m q = \<lparr>next_buffer = head_or 0 ?ys, prev_buffer = last_or 0 xs, buffer_size = j\<rparr>"
      using assms(1) fs' by (metis fst_conv seg.simps(2) seg_append snd_conv)+
    have hfs: "head_or 0 fs = head_or q xs" using arg_cong [OF fs', of "head_or 0"] by (simp del: takeWhile_dropWhile_id)
    moreover have "head_or q xs < p" using below snoc c by (cases xs) force+
    moreover have "head_or q xs \<noteq> 0"
    proof (cases xs)
      case (Cons x xs')
      then have "x \<in> set fs" using fs' by (metis append_Cons list.set_intros(1))
      then show ?thesis using seg_nonzero [OF assms(1)] Cons by simp
    qed (use q(1) in simp)
    moreover have "find_spot k (head_or 0 (xs @ (q, j) # ?ys)) p m = Some q"
    proof (rule find_spot_seg)
      show "\<forall>c \<in> set (xs @ [(q, j)]). fst c < p" using below snoc c by simp
      show "\<forall>c \<in> set ?ys. p < fst c" by (rule above)
      show "seg (hdr m) 0 (xs @ (q, j) # ?ys) 0" using assms(1) fs' by simp
      show "length xs < k" using assms(10) fs' by (metis length_append length_Cons less_le_trans less_add_Suc1 add_Suc_right)
    qed
    ultimately have rel: "release_free k p m =
        (if q + j = p then release_below q p n m else release_after q p n m)"
      using assms(2,7,8) q fs' by (simp add: release_free_def shm_load_def)
    have hd: "head_or 0 (put_free (p, n) fs) = head_or 0 fs"
    proof -
      have "head_or 0 (merge_left (xs @ [(q, j)]) cs) = head_or q xs" for cs
        by (cases xs) (auto simp: merge_left_def)
      then show ?thesis using hfs put by simp
    qed
    have m: "m\<lparr>hdr := h, free_buf_chain := head_or 0 (put_free (p, n) fs)\<rparr> = m\<lparr>hdr := h\<rparr>" for h
      using assms(2) hd by simp
    have seg: "seg (hdr m) 0 (xs @ (q, j) # ?ys) 0" and dist: "distinct (map fst (xs @ (q, j) # ?ys))"
      and out: "p \<notin> fst ` set (xs @ (q, j) # ?ys)" using assms(1,4,6) fs' by metis+
    have set: "set (xs @ (q, j) # ?ys) = set fs" using fs' by metis
    have "\<exists>h. release_free k p m = Some (m\<lparr>hdr := h\<rparr>) \<and> seg h 0 (put_free (p, n) fs) 0 \<and>
      (\<forall>a. a \<notin> insert p (fst ` set fs) \<longrightarrow> h a = hdr m a)"
    proof (cases "q + j = p")
      case True
      then show ?thesis using release_below_seg [OF seg dist True assms(9), unfolded set] rel put by auto
    next
      case False
      then show ?thesis using release_after_seg [OF seg dist out assms(7) False assms(9), unfolded set] rel put by auto
    qed
    then show ?thesis by (simp only: m)
  qed
qed

subsection \<open>Releasing keeps the invariant\<close>

lemma gaps_append:
  "gaps (xs @ ys) \<longleftrightarrow> gaps xs \<and> gaps ys \<and>
     (xs \<noteq> [] \<longrightarrow> ys \<noteq> [] \<longrightarrow> fst (last xs) + snd (last xs) < fst (hd ys))"
  by (induction xs rule: gaps.induct) (cases ys; auto)+

lemma areas_merge_right: "areas (merge_right c ys) = area c \<union> areas ys"
proof (cases ys)
  case (Cons d zs)
  then show ?thesis by (cases c; cases d) (auto simp: merge_right_def)
qed (simp add: merge_right_def)

lemma areas_merge_left:
  assumes "cs \<noteq> []"
  shows "areas (merge_left xs cs) = areas xs \<union> areas cs"
proof (cases xs rule: rev_cases)
  case (snoc ws w)
  obtain c cs' where "cs = c # cs'" using assms by (cases cs) auto
  then show ?thesis using snoc by (cases w; cases c) (auto simp: merge_left_def)
qed (simp add: merge_left_def)

lemma merge_right_props:
  assumes "gaps ys" and "\<forall>d \<in> set ys. fst c + snd c \<le> fst d"
  shows "gaps (merge_right c ys) \<and> merge_right c ys \<noteq> [] \<and> fst (hd (merge_right c ys)) = fst c"
proof (cases ys)
  case (Cons d zs)
  then show ?thesis using assms by (cases zs; cases c; cases d) (auto simp: merge_right_def)
qed (simp add: merge_right_def)

lemma merge_left_gaps:
  assumes "gaps xs" and "gaps cs" and "cs \<noteq> []" and "\<forall>d \<in> set xs. fst d + snd d \<le> fst (hd cs)"
  shows "gaps (merge_left xs cs)"
proof (cases xs rule: rev_cases)
  case Nil
  then show ?thesis using assms(2) by (simp add: merge_left_def)
next
  case (snoc ws w)
  obtain c cs' where cs: "cs = c # cs'" using assms(3) by (cases cs) auto
  show ?thesis
  proof (cases "fst w + snd w = fst c")
    case True
    have "gaps ((fst w, snd w + snd c) # cs')" using assms(2) cs True by (cases cs') auto
    then show ?thesis using snoc cs True assms(1) by (auto simp: merge_left_def gaps_append)
  next
    case False
    then have "gaps (xs @ cs)" using snoc cs assms by (simp add: gaps_append)
    then show ?thesis using False snoc cs by (simp add: merge_left_def)
  qed
qed

lemma apart_order:
  assumes "area c \<inter> area d = {}" "fst c < fst d" "0 < snd c" "0 < snd d"
  shows "fst c + snd c \<le> fst d"
proof (rule ccontr)
  assume "\<not> fst c + snd c \<le> fst d"
  then have "fst d \<in> area c \<inter> area d" using assms(2,4) by (simp add: area_def)
  then show False using assms(1) by simp
qed

lemma put_free_props:
  assumes "gaps fs" and "apart (c # fs)" and "\<forall>d \<in> set (c # fs). SHM_HEADER \<le> snd d"
  shows "gaps (put_free c fs) \<and> areas (put_free c fs) = area c \<union> areas fs"
proof -
  let ?xs = "takeWhile (\<lambda>d. fst d < fst c) fs"
  let ?ys = "dropWhile (\<lambda>d. fst d < fst c) fs"
  have pos: "\<forall>d \<in> set (c # fs). 0 < snd d" using assms(3) by (force simp: SHM_HEADER_def)
  have fs: "?xs @ ?ys = fs" by simp
  have g: "gaps ?xs" "gaps ?ys" using assms(1) gaps_append [of ?xs ?ys] unfolding fs by blast+
  have out: "fst c \<notin> fst ` set fs" by (rule apart_notin [OF assms(2,3)])
  have dis: "area c \<inter> area d = {}" if "d \<in> set fs" for d using assms(2) that by (auto simp: areas_def)
  have above: "\<forall>d \<in> set ?ys. fst c + snd c \<le> fst d"
  proof
    fix d assume d: "d \<in> set ?ys"
    then have "fst c < fst d" using dropWhile_above [OF gaps_sorted [OF assms(1)] out] pos by simp
    moreover have "d \<in> set fs" using d by (rule set_dropWhileD)
    ultimately show "fst c + snd c \<le> fst d" using apart_order [OF dis] pos by simp
  qed
  have below: "\<forall>d \<in> set ?xs. fst d + snd d \<le> fst c"
  proof
    fix d assume d: "d \<in> set ?xs"
    then have "fst d < fst c" "d \<in> set fs" using set_takeWhileD by fastforce+
    then show "fst d + snd d \<le> fst c" using apart_order [of d c] dis [of d] pos by (simp add: Int_commute)
  qed
  note r = merge_right_props [OF g(2) above]
  have "gaps (put_free c fs)" unfolding put_free_def using r below by (intro merge_left_gaps g(1)) auto
  moreover have "areas (put_free c fs) = areas ?xs \<union> (area c \<union> areas ?ys)"
    unfolding put_free_def using r by (simp add: areas_merge_left areas_merge_right)
  moreover have "areas ?xs \<union> areas ?ys = areas fs" by (metis areas_simps(3) fs)
  ultimately show ?thesis by blast
qed

end
