(* ===== verification/ShmemAcquire.thy ===== *)
theory ShmemAcquire
  imports ShmemProps Selection
begin

section \<open>Acquiring shared memory\<close>

text \<open>
  The search for the free buffer that fits best is an instance of the choice of the best of a list.
  The buffer taken out of the free chain keeps its remainder as a free buffer when that has room for
  more than a header.
\<close>

definition fits :: "nat \<Rightarrow> chunk \<Rightarrow> bool" where
  "fits sz c \<longleftrightarrow> sz \<le> snd c \<and> snd c - sz < MAX_HEADROOM"

definition smaller :: "chunk \<Rightarrow> chunk \<Rightarrow> bool" where "smaller c d \<longleftrightarrow> snd c < snd d"

interpretation fit_pick: best_pick snd smaller
  by unfold_locales (simp_all add: smaller_def)

definition fit_state :: "nat \<Rightarrow> chunk option \<Rightarrow> nat \<times> nat" where
  "fit_state sz b = (case b of None \<Rightarrow> (MAX_HEADROOM, 0) | Some c \<Rightarrow> (snd c - sz, fst c))"

lemma best_fit_fold:
  assumes "seg (hdr m) pr xs 0" and "length xs < n" and "\<forall>c. b = Some c \<longrightarrow> fits sz c"
  shows "best_fit n (head_or 0 xs) sz (fit_state sz b) m = Some (fit_state sz (fold (pick_step (fits sz) smaller) xs b))"
  using assms
proof (induction xs arbitrary: n pr b)
  case Nil
  then show ?case by (cases n) auto
next
  case (Cons c xs)
  then obtain n' where n: "n = Suc n'" by (cases n) auto
  let ?b = "pick_step (fits sz) smaller c b"
  have b: "\<forall>c. ?b = Some c \<longrightarrow> fits sz c" using Cons.prems(3) by (auto simp: pick_step_def split: option.splits)
  have "(if sz \<le> snd c \<and> snd c - sz < fst (fit_state sz b) then (snd c - sz, fst c) else fit_state sz b) = fit_state sz ?b"
    using Cons.prems(3) by (auto simp: fit_state_def pick_step_def fits_def smaller_def split: option.splits)
  then show ?case using Cons.IH [OF _ _ b, of "fst c" n'] Cons.prems n by (simp add: Let_def)
qed

lemma best_fit_pick:
  "seg (hdr m) pr xs 0 \<Longrightarrow> length xs < n \<Longrightarrow>
   best_fit n (head_or 0 xs) sz (MAX_HEADROOM, 0) m = Some (fit_state sz (pick (fits sz) smaller xs))"
  using best_fit_fold [of m pr xs n None sz] by (simp add: fit_state_def pick_def)

lemma take_whole_seg:
  assumes "seg (hdr m) 0 (xs @ (c, k) # ys) 0" and "free_buf_chain m = head_or 0 (xs @ (c, k) # ys)"
    and "distinct (map fst (xs @ (c, k) # ys))"
  shows "\<exists>h. take_whole c m = Some (m\<lparr>hdr := h, free_buf_chain := head_or 0 (xs @ ys)\<rparr>) \<and>
    seg h 0 (xs @ ys) 0 \<and> (\<forall>a. a \<notin> fst ` set (xs @ ys) \<longrightarrow> h a = hdr m a)"
proof (cases xs)
  case Nil
  let ?m = "m\<lparr>free_buf_chain := head_or 0 ys\<rparr>"
  obtain h where "link_back (head_or 0 ys) 0 ?m = Some (?m\<lparr>hdr := h\<rparr>)" "seg h 0 ys 0"
    "\<forall>a. a \<notin> fst ` set ys \<longrightarrow> h a = hdr m a"
    using link_back_seg [of ?m c ys 0] assms Nil by auto
  then show ?thesis using Nil assms by (intro exI [of _ h]) (auto simp: take_whole_def shm_load_def)
next
  case (Cons x xs')
  have ne: "c \<noteq> fst x" "free_buf_chain m = fst x" "c \<noteq> 0" using assms Cons by auto
  obtain h where h: "do {
      m1 \<leftarrow> shm_store (prev_buffer (hdr m c)) (\<lambda>b. b\<lparr>next_buffer := next_buffer (hdr m c)\<rparr>) m;
      link_back (next_buffer (hdr m c)) (prev_buffer (hdr m c)) m1
    } = Some (m\<lparr>hdr := h\<rparr>)" "seg h 0 (xs @ ys) 0" "\<forall>a. a \<notin> fst ` set (xs @ ys) \<longrightarrow> h a = hdr m a"
    using unlink_middle [OF assms(1,3)] Cons by blast
  have "take_whole c m = Some (m\<lparr>hdr := h\<rparr>)" using ne h(1) by (simp add: take_whole_def shm_load_def)
  moreover have "m\<lparr>hdr := h\<rparr> = m\<lparr>hdr := h, free_buf_chain := head_or 0 (xs @ ys)\<rparr>" using ne(2) Cons by simp
  ultimately show ?thesis using h(2,3) by (intro exI [of _ h]) auto
qed

lemma take_part_seg:
  assumes "seg (hdr m) 0 (xs @ (c, k) # ys) 0" and "free_buf_chain m = head_or 0 (xs @ (c, k) # ys)"
    and "distinct (map fst (xs @ (c, k) # ys))" and "c + sz \<notin> fst ` set (xs @ (c, k) # ys)"
  shows "\<exists>h. take_part c sz r m = Some (m\<lparr>hdr := h, free_buf_chain := head_or 0 (xs @ (c + sz, r) # ys)\<rparr>) \<and>
    seg h 0 (xs @ (c + sz, r) # ys) 0 \<and> h c = (hdr m c)\<lparr>buffer_size := sz\<rparr> \<and>
    (\<forall>a. a \<notin> insert (c + sz) (fst ` set (xs @ (c, k) # ys)) \<longrightarrow> h a = hdr m a)"
proof -
  let ?q = "c + sz"
  have c: "c \<noteq> 0" "?q \<noteq> c" "?q \<notin> fst ` set xs" "?q \<notin> fst ` set ys" "c \<notin> fst ` set xs" "c \<notin> fst ` set ys"
    and hc: "hdr m c = \<lparr>next_buffer = head_or 0 ys, prev_buffer = last_or 0 xs, buffer_size = k\<rparr>"
    using assms by auto
  let ?h = "(hdr m)(c := (hdr m c)\<lparr>buffer_size := sz\<rparr>,
      ?q := \<lparr>next_buffer = head_or 0 ys, prev_buffer = last_or 0 xs, buffer_size = r\<rparr>)"
  have "seg ?h c ys 0" using assms(1) c by simp
  then obtain h where h: "link_back (head_or 0 ys) ?q (m\<lparr>hdr := ?h\<rparr>) = Some (m\<lparr>hdr := h\<rparr>)" "seg h ?q ys 0"
    "\<forall>a. a \<notin> fst ` set ys \<longrightarrow> h a = ?h a"
    using link_back_seg [of "m\<lparr>hdr := ?h\<rparr>" c ys ?q] assms(3) by auto
  have hq: "h ?q = \<lparr>next_buffer = head_or 0 ys, prev_buffer = last_or 0 xs, buffer_size = r\<rparr>"
    and hc': "h c = (hdr m c)\<lparr>buffer_size := sz\<rparr>" using h(3) c by simp_all
  have "fst ` set xs \<inter> fst ` set ys = {}" using assms(3) by auto
  then have "\<forall>a \<in> fst ` set xs. a \<notin> fst ` set ys \<and> a \<noteq> c \<and> a \<noteq> ?q" using c by blast
  then have "\<forall>a \<in> fst ` set xs. h a = hdr m a" using h(3) by simp
  then have sx: "seg h 0 xs c" using assms(1) seg_cong [of xs h "hdr m"] by simp
  show ?thesis
  proof (cases xs rule: rev_cases)
    case Nil
    then have "take_part c sz r m = Some (m\<lparr>hdr := h, free_buf_chain := ?q\<rparr>)"
      using c h(1) assms(2) by (simp add: take_part_def shm_load_def shm_store_def hc)
    then show ?thesis using Nil h(2,3) hq hc' c by (intro exI [of _ h]) auto
  next
    case (snoc ws w)
    have w: "fst w \<noteq> 0" "fst w \<noteq> c" "fst w \<noteq> ?q" "fst w \<notin> fst ` set ys" "fst w \<notin> fst ` set ws"
      using assms(1,3) c snoc by auto
    let ?h' = "h(fst w := (h (fst w))\<lparr>next_buffer := ?q\<rparr>)"
    have f: "free_buf_chain m = head_or 0 xs" "head_or 0 xs \<noteq> c"
      using assms(2) c(5) snoc head_or_in [of xs 0] by auto
    have "take_part c sz r m = Some (m\<lparr>hdr := ?h'\<rparr>)"
      using c h(1) f w snoc by (simp add: take_part_def shm_load_def shm_store_def hc)
    moreover have "seg ?h' 0 xs ?q" using seg_set_next [of h 0 ws "fst w" "snd w" c ?q] sx snoc w by simp
    moreover have "seg ?h' (last_or 0 xs) ((?q, r) # ys) 0" using h(2) hq w c snoc by simp
    moreover have "m\<lparr>hdr := ?h'\<rparr> = m\<lparr>hdr := ?h', free_buf_chain := head_or 0 (xs @ (?q, r) # ys)\<rparr>"
      using f(1) snoc by (cases ws) auto
    ultimately show ?thesis using h(3) hc' w c snoc by (intro exI [of _ ?h']) auto
  qed
qed

subsection \<open>Both operations keep the invariant\<close>

lemma shm_distinct:
  assumes "shm_inv base ram m fs us"
  shows "distinct (map fst (fs @ us))"
  using assms apart_distinct [of "fs @ us"] unfolding shm_inv_def by blast

lemma adopt_seg:
  assumes "seg (hdr m) 0 us 0" and "allocced_buf_chain m = head_or 0 us" and "distinct (map fst us)"
    and "c \<notin> fst ` set us" and "c \<noteq> 0"
  shows "\<exists>h. (do {
      m2 \<leftarrow> shm_store c (\<lambda>b. b\<lparr>next_buffer := allocced_buf_chain m, prev_buffer := 0\<rparr>) m;
      link_back (allocced_buf_chain m2) c m2
    }) = Some (m\<lparr>hdr := h\<rparr>) \<and> seg h 0 ((c, buffer_size (hdr m c)) # us) 0 \<and>
    (\<forall>a. a \<notin> insert c (fst ` set us) \<longrightarrow> h a = hdr m a)"
proof -
  let ?h = "(hdr m)(c := (hdr m c)\<lparr>next_buffer := head_or 0 us, prev_buffer := 0\<rparr>)"
  have "seg ?h 0 us 0" using assms(1,4) by simp
  then obtain h where h: "link_back (head_or 0 us) c (m\<lparr>hdr := ?h\<rparr>) = Some (m\<lparr>hdr := h\<rparr>)" "seg h c us 0"
    "\<forall>a. a \<notin> fst ` set us \<longrightarrow> h a = ?h a"
    using link_back_seg [of "m\<lparr>hdr := ?h\<rparr>" 0 us c] assms(3) by auto
  then have "h c = ?h c" using assms(4) by simp
  then have "seg h 0 ((c, buffer_size (hdr m c)) # us) 0" using h(2) assms(5) by (cases "hdr m c") simp
  then show ?thesis using h assms(2,5) by (intro exI [of _ h]) (simp add: shm_store_def)
qed

lemma acquire_busy:
  assumes "shm_inv base ram m fs us" and "length fs < n" and "pick (fits (request len)) smaller fs = None"
  shows "shared_mem_acquire n len m = Some (m, 0, EC_ERROR_BUSY)"
  using assms best_fit_pick [of m 0 fs n "request len"]
  by (simp add: shm_inv_def shared_mem_acquire_def do_acquire_def fit_state_def)

lemma acquire_taken:
  assumes inv: "shm_inv base ram m fs us" and "length fs < n" and p: "pick (fits sz) smaller fs = Some (c, k)"
    and "sz = request len"
    and t: "(if k - sz \<le> SHM_HEADER then take_whole c m else take_part c sz (k - sz) m) =
      Some (m\<lparr>hdr := h, free_buf_chain := head_or 0 fs'\<rparr>)"
    and h: "seg h 0 fs' 0" "\<forall>a \<in> fst ` set us. h a = hdr m a" "buffer_size (h c) = j"
    and d: "c \<noteq> 0" "c \<notin> fst ` set (fs' @ us)" "distinct (map fst (fs' @ us))"
  shows "\<exists>m'. shared_mem_acquire n len m = Some (m', c + SHM_HEADER, EC_SUCCESS) \<and>
    seg (hdr m') 0 fs' 0 \<and> free_buf_chain m' = head_or 0 fs' \<and>
    seg (hdr m') 0 ((c, j) # us) 0 \<and> allocced_buf_chain m' = c"
proof -
  have i: "seg (hdr m) 0 fs 0" "free_buf_chain m = head_or 0 fs" "seg (hdr m) 0 us 0" "allocced_buf_chain m = head_or 0 us"
    using inv by (simp_all add: shm_inv_def)
  have ck: "(c, k) \<in> set fs" using fit_pick.pick_Some(1) [OF p] .
  then have "fs \<noteq> []" by auto
  then have "head_or 0 fs \<noteq> 0" using seg_nonzero [OF i(1)] by (cases fs) auto
  then have f: "free_buf_chain m \<noteq> 0" using i(2) by simp
  let ?m1 = "m\<lparr>hdr := h, free_buf_chain := head_or 0 fs'\<rparr>"
  have acq: "do_acquire n len m = Some (?m1, c, EC_SUCCESS)"
    using best_fit_pick [OF i(1) assms(2), of sz] t d(1) p i(2)
    by (simp add: do_acquire_def fit_state_def assms(4) [symmetric])
  have "seg h 0 us 0" using i(3) h(2) seg_cong [of us h "hdr m"] by simp
  then obtain h' where h': "(do {
      m2 \<leftarrow> shm_store c (\<lambda>b. b\<lparr>next_buffer := allocced_buf_chain ?m1, prev_buffer := 0\<rparr>) ?m1;
      link_back (allocced_buf_chain m2) c m2
    }) = Some (?m1\<lparr>hdr := h'\<rparr>)" "seg h' 0 ((c, j) # us) 0" "\<forall>a. a \<notin> insert c (fst ` set us) \<longrightarrow> h' a = h a"
    using adopt_seg [of ?m1 us c] i(4) d h(3) by auto
  have "fst ` set fs' \<inter> insert c (fst ` set us) = {}" using d(2,3) by auto
  then have "\<forall>a \<in> fst ` set fs'. h' a = h a" using h'(3) by blast
  then have s: "seg h' 0 fs' 0" using h(1) seg_cong [of fs' h' h] by simp
  have "shared_mem_acquire n len m = Some
    (?m1\<lparr>hdr := h', allocced_buf_chain := c, max_allocated_size := max len (max_allocated_size m)\<rparr>,
     c + SHM_HEADER, EC_SUCCESS)"
    using h'(1) f by (auto simp: shared_mem_acquire_def acq split: bind_splits)
  then show ?thesis using s h'(2) by (intro exI conjI) auto
qed

lemma gaps_remove: "gaps (xs @ c # ys) \<Longrightarrow> gaps (xs @ ys)"
  by (cases ys) (auto simp: gaps_append)

lemma shm_notin:
  assumes "shm_inv base ram m (xs @ (c, k) # ys) us" and "a \<in> area (c, k)" and "a \<noteq> c"
  shows "a \<notin> fst ` set (xs @ (c, k) # ys @ us)"
proof
  assume "a \<in> fst ` set (xs @ (c, k) # ys @ us)"
  then obtain d where d: "d \<in> set (xs @ ys @ us)" "fst d = a" using assms(3) by auto
  then have "a \<in> area d" using assms(1) area_nonempty [of d] by (auto simp: shm_inv_def)
  moreover have "area (c, k) \<inter> areas (xs @ ys @ us) = {}" using assms(1) by (auto simp: shm_inv_def)
  ultimately show False using assms(2) d(1) by (auto simp: areas_def)
qed

lemma acquire_inv:
  assumes inv: "shm_inv base ram m fs us" and n: "length fs < n" and p: "pick (fits (request len)) smaller fs = Some (c, k)"
    and sz: "SHM_HEADER \<le> request len"
  shows "\<exists>m' fs' j. shared_mem_acquire n len m = Some (m', c + SHM_HEADER, EC_SUCCESS) \<and>
    shm_inv base ram m' fs' ((c, j) # us) \<and> request len \<le> j \<and> j \<le> k \<and> length fs' \<le> length fs"
proof -
  let ?sz = "request len"
  have "(c, k) \<in> set fs" and fit: "?sz \<le> k" using fit_pick.pick_Some(1,2) [OF p] by (auto simp: fits_def)
  then obtain xs ys where fs: "fs = xs @ (c, k) # ys" by (meson split_list)
  have i: "seg (hdr m) 0 (xs @ (c, k) # ys) 0" "free_buf_chain m = head_or 0 (xs @ (c, k) # ys)"
    and g: "gaps (xs @ (c, k) # ys)" and ap: "apart ((xs @ (c, k) # ys) @ us)"
    and ar: "areas ((xs @ (c, k) # ys) @ us) = {base..<base + ram}"
    and hd: "\<forall>d \<in> set ((xs @ (c, k) # ys) @ us). SHM_HEADER \<le> snd d"
    using inv unfolding fs shm_inv_def by blast+
  have dist: "distinct (map fst ((xs @ (c, k) # ys) @ us))" using shm_distinct [OF inv] fs by simp
  then have dfs: "distinct (map fst (xs @ (c, k) # ys))" by (metis distinct_append map_append)
  have c0: "c \<noteq> 0" using i(1) by simp
  show ?thesis
  proof (cases "k - ?sz \<le> SHM_HEADER")
    case True
    obtain h where h: "take_whole c m = Some (m\<lparr>hdr := h, free_buf_chain := head_or 0 (xs @ ys)\<rparr>)"
      "seg h 0 (xs @ ys) 0" "\<forall>a. a \<notin> fst ` set (xs @ ys) \<longrightarrow> h a = hdr m a"
      using take_whole_seg [OF i dfs] by blast
    have "fst ` set us \<inter> fst ` set (xs @ ys) = {}" using dist by (auto simp: image_Un Int_Un_distrib)
    then have us: "\<forall>a \<in> fst ` set us. h a = hdr m a" using h(3) by blast
    have j: "buffer_size (h c) = k" using h(3) dist i(1) by auto
    have t: "(if k - ?sz \<le> SHM_HEADER then take_whole c m else take_part c ?sz (k - ?sz) m) =
        Some (m\<lparr>hdr := h, free_buf_chain := head_or 0 (xs @ ys)\<rparr>)" using True h(1) by simp
    have d: "c \<notin> fst ` set ((xs @ ys) @ us)" "distinct (map fst ((xs @ ys) @ us))" using dist by auto
    obtain m' where m': "shared_mem_acquire n len m = Some (m', c + SHM_HEADER, EC_SUCCESS)"
      "seg (hdr m') 0 (xs @ ys) 0" "free_buf_chain m' = head_or 0 (xs @ ys)"
      "seg (hdr m') 0 ((c, k) # us) 0" "allocced_buf_chain m' = c"
      using acquire_taken [OF inv n p refl t h(2) us j c0 d] by blast
    have "shm_inv base ram m' (xs @ ys) ((c, k) # us)"
      unfolding shm_inv_def using m'(2-5) gaps_remove [OF g] ap ar hd by (auto simp: Int_Un_distrib Int_commute)
    then show ?thesis using m'(1) fit fs by (intro exI [of _ m'] exI [of _ "xs @ ys"] exI [of _ k]) simp
  next
    case False
    let ?q = "c + ?sz" and ?r = "k - ?sz"
    have q: "?q \<notin> fst ` set (xs @ (c, k) # ys @ us)"
      using False sz by (intro shm_notin [OF inv [unfolded fs]]) (auto simp: SHM_HEADER_def)
    then have "?q \<notin> fst ` set (xs @ (c, k) # ys)" by (simp add: image_Un)
    then obtain h where h: "take_part c ?sz ?r m = Some (m\<lparr>hdr := h, free_buf_chain := head_or 0 (xs @ (?q, ?r) # ys)\<rparr>)"
      "seg h 0 (xs @ (?q, ?r) # ys) 0" "h c = (hdr m c)\<lparr>buffer_size := ?sz\<rparr>"
      "\<forall>a. a \<notin> insert ?q (fst ` set (xs @ (c, k) # ys)) \<longrightarrow> h a = hdr m a"
      using take_part_seg [OF i dfs] by blast
    have us: "\<forall>a \<in> fst ` set us. h a = hdr m a"
    proof -
      have "fst ` set us \<inter> insert ?q (fst ` set (xs @ (c, k) # ys)) = {}" using dist q by auto
      then show ?thesis using h(4) by blast
    qed
    have j: "buffer_size (h c) = ?sz" using h(3) by simp
    have t: "(if k - ?sz \<le> SHM_HEADER then take_whole c m else take_part c ?sz (k - ?sz) m) =
        Some (m\<lparr>hdr := h, free_buf_chain := head_or 0 (xs @ (?q, ?r) # ys)\<rparr>)" using False h(1) by simp
    have d: "c \<notin> fst ` set ((xs @ (?q, ?r) # ys) @ us)" "distinct (map fst ((xs @ (?q, ?r) # ys) @ us))"
      using dist q sz by (auto simp: SHM_HEADER_def)
    obtain m' where m': "shared_mem_acquire n len m = Some (m', c + SHM_HEADER, EC_SUCCESS)"
      "seg (hdr m') 0 (xs @ (?q, ?r) # ys) 0" "free_buf_chain m' = head_or 0 (xs @ (?q, ?r) # ys)"
      "seg (hdr m') 0 ((c, ?sz) # us) 0" "allocced_buf_chain m' = c"
      using acquire_taken [OF inv n p refl t h(2) us j c0 d] by blast
    have split: "area (c, k) = area (c, ?sz) \<union> area (?q, ?r)" "area (c, ?sz) \<inter> area (?q, ?r) = {}"
      using fit by auto
    have g': "gaps (xs @ (?q, ?r) # ys)" using g fit by (cases ys) (auto simp: gaps_append)
    have ap': "apart ((xs @ (?q, ?r) # ys) @ (c, ?sz) # us)"
      using ap split by (simp only: apart_append apart_Cons areas_simps append_Cons append_assoc) blast
    have ar': "areas ((xs @ (?q, ?r) # ys) @ (c, ?sz) # us) = {base..<base + ram}"
      unfolding ar [symmetric] using split(1) by (simp only: areas_simps) blast
    have "shm_inv base ram m' (xs @ (?q, ?r) # ys) ((c, ?sz) # us)"
      unfolding shm_inv_def using m'(2-5) g' ap' ar' hd sz False by auto
    then show ?thesis using m'(1) fit fs
      by (intro exI [of _ m'] exI [of _ "xs @ (?q, ?r) # ys"] exI [of _ ?sz]) simp
  qed
qed

lemma gaps_later: "gaps (c # xs) \<Longrightarrow> d \<in> set xs \<Longrightarrow> fst c + snd c < fst d"
proof (induction xs arbitrary: c)
  case (Cons e xs)
  show ?case
  proof (cases "d = e")
    case False
    then have "fst e + snd e < fst d" using Cons.IH [of e] Cons.prems by simp
    then show ?thesis using Cons.prems(1) by simp
  qed (use Cons.prems in simp)
qed simp

lemma gaps_Cons: "gaps (c # xs) \<Longrightarrow> gaps xs"
  by (cases xs) auto

lemma gaps_apart: "gaps xs \<Longrightarrow> apart xs"
proof (induction xs)
  case (Cons c xs)
  have "area c \<inter> area d = {}" if "d \<in> set xs" for d
    using gaps_later [OF Cons.prems that] by (auto simp: area_def)
  then show ?case using Cons gaps_Cons by (auto simp: areas_def)
qed simp

lemma put_free_sizes:
  assumes "\<forall>d \<in> set (c # fs). SHM_HEADER \<le> snd d"
  shows "\<forall>d \<in> set (put_free c fs). SHM_HEADER \<le> snd d"
proof -
  let ?P = "\<lambda>d :: chunk. SHM_HEADER \<le> snd d"
  have r: "\<forall>d \<in> set (merge_right c ys). ?P d" if "\<forall>d \<in> set ys. ?P d" for ys
    using that assms by (cases ys) (auto simp: merge_right_def)
  have l: "\<forall>d \<in> set (merge_left xs cs). ?P d" if "\<forall>d \<in> set xs. ?P d" "\<forall>d \<in> set cs. ?P d" for xs cs
    using that by (cases xs rule: rev_cases; cases cs) (auto simp: merge_left_def)
  show ?thesis unfolding put_free_def
  proof (rule l)
    show "\<forall>d \<in> set (takeWhile (\<lambda>d. fst d < fst c) fs). ?P d"
      using assms by (meson list.set_intros(2) set_takeWhileD)
    show "\<forall>d \<in> set (merge_right c (dropWhile (\<lambda>d. fst d < fst c) fs)). ?P d"
      using assms by (intro r) (meson list.set_intros(2) set_dropWhileD)
  qed
qed

lemma put_free_length: "length (put_free c fs) \<le> length fs + 1"
proof -
  let ?P = "\<lambda>d. fst d < fst c"
  have r: "length (merge_right c ys) \<le> length ys + 1" for ys by (cases ys) (auto simp: merge_right_def)
  have l: "length (merge_left xs cs) \<le> length xs + length cs" for xs cs
    by (cases xs rule: rev_cases; cases cs) (auto simp: merge_left_def)
  have "length (takeWhile ?P fs) + length (dropWhile ?P fs) = length fs"
    by (metis length_append takeWhile_dropWhile_id)
  then show ?thesis
    using l [of "takeWhile ?P fs" "merge_right c (dropWhile ?P fs)"] r [of "dropWhile ?P fs"]
    unfolding put_free_def by linarith
qed

lemma release_inv:
  assumes inv: "shm_inv base ram m fs (xs @ (p, k) # ys)" and n: "length fs \<le> n" "length (xs @ ys) < n"
  shows "\<exists>m'. shared_mem_release n (p + SHM_HEADER) m = Some m' \<and>
    shm_inv base ram m' (put_free (p, k) fs) (xs @ ys)"
proof -
  have i: "seg (hdr m) 0 fs 0" "free_buf_chain m = head_or 0 fs" "seg (hdr m) 0 (xs @ (p, k) # ys) 0"
    "allocced_buf_chain m = head_or 0 (xs @ (p, k) # ys)"
    and g: "gaps fs" and ap: "apart (fs @ xs @ (p, k) # ys)"
    and ar: "areas (fs @ xs @ (p, k) # ys) = {base..<base + ram}"
    and hd: "\<forall>d \<in> set (fs @ xs @ (p, k) # ys). SHM_HEADER \<le> snd d"
    using inv unfolding shm_inv_def by blast+
  have dist: "distinct (map fst (fs @ xs @ (p, k) # ys))" by (rule shm_distinct [OF inv])
  have dus: "distinct (map fst (xs @ (p, k) # ys))" and dfs: "distinct (map fst fs)"
    using dist by (metis distinct_append map_append)+
  have dis: "fst ` set fs \<inter> fst ` set (xs @ (p, k) # ys) = {}" using dist by (simp add: Int_Un_distrib image_Un)
  have p: "p \<noteq> 0" "p \<notin> fst ` set fs" "p \<notin> fst ` set (xs @ ys)" using i(3) dis dus by auto
  obtain h where h: "unchain n p m = Some (m\<lparr>hdr := h, allocced_buf_chain := head_or 0 (xs @ ys)\<rparr>, True)"
    "seg h 0 (xs @ ys) 0" "\<forall>a. a \<notin> fst ` set (xs @ ys) \<longrightarrow> h a = hdr m a"
    using unchain_held [OF i(3,4) dus n(2)] by blast
  let ?m = "m\<lparr>hdr := h, allocced_buf_chain := head_or 0 (xs @ ys)\<rparr>"
  have "\<forall>a \<in> fst ` set fs. h a = hdr m a" using h(3) dis by auto
  then have s: "seg (hdr ?m) 0 fs 0" using i(1) seg_cong [of fs h "hdr m"] by simp
  have b: "buffer_size (hdr ?m p) = k" using h(3) p(3) i(3) by simp
  have pos: "\<forall>c \<in> set fs. 0 < snd c" "0 < k" using hd by (force simp: SHM_HEADER_def)+
  have f: "free_buf_chain ?m = head_or 0 fs" using i(2) by simp
  obtain h' where h': "release_free n p ?m = Some (?m\<lparr>hdr := h', free_buf_chain := head_or 0 (put_free (p, k) fs)\<rparr>)"
    "seg h' 0 (put_free (p, k) fs) 0" "\<forall>a. a \<notin> insert p (fst ` set fs) \<longrightarrow> h' a = h a"
    using release_free_seg [OF s f g dfs pos(1) p(2,1) b pos(2) n(1)] by auto
  have "fst ` set (xs @ ys) \<inter> insert p (fst ` set fs) = {}" using p(3) dis by auto
  then have "\<forall>a \<in> fst ` set (xs @ ys). h' a = h a" using h'(3) by blast
  then have s': "seg h' 0 (xs @ ys) 0" using h(2) seg_cong by blast
  let ?m' = "?m\<lparr>hdr := h', free_buf_chain := head_or 0 (put_free (p, k) fs)\<rparr>"
  have "shared_mem_release n (p + SHM_HEADER) m = Some ?m'"
    using h(1) h'(1) p(1) by (simp add: shared_mem_release_def do_release_def SHM_HEADER_def)
  moreover have "shm_inv base ram ?m' (put_free (p, k) fs) (xs @ ys)"
  proof -
    have pf: "gaps (put_free (p, k) fs)" "areas (put_free (p, k) fs) = area (p, k) \<union> areas fs"
      using put_free_props [OF g, of "(p, k)"] ap hd by (auto simp: Int_commute Int_Un_distrib)
    have "apart (put_free (p, k) fs @ xs @ ys)"
      using gaps_apart [OF pf(1)] ap pf(2) by (simp only: apart_append apart_Cons areas_simps) blast
    moreover have "areas (put_free (p, k) fs @ xs @ ys) = {base..<base + ram}"
      unfolding ar [symmetric] using pf(2) by (simp only: areas_simps) blast
    moreover have "\<forall>d \<in> set (put_free (p, k) fs @ xs @ ys). SHM_HEADER \<le> snd d"
      using put_free_sizes [of "(p, k)" fs] hd by auto
    ultimately show ?thesis unfolding shm_inv_def using h'(2) s' pf(1) by simp
  qed
  ultimately show ?thesis by blast
qed

lemma release_foreign:
  assumes "shm_inv base ram m fs us" and "p \<notin> fst ` set us" and "length us \<le> n"
  shows "shared_mem_release n (p + SHM_HEADER) m = (if us = [] then None else Some m)"
  using unchain_foreign [of m us p n] assms by (simp add: shm_inv_def shared_mem_release_def do_release_def SHM_HEADER_def)

end
