(* ===== verification/SharedMemory.thy ===== *)
theory SharedMemory
  imports ShmemAcquire
begin

section \<open>The shared memory allocator and its clients\<close>

text \<open>
  Clients acquire buffers and release those they hold. Every run of such requests from the
  initial state keeps the buffers held apart from each other and inside the memory managed; an
  acquisition takes a free buffer of the best size; and once all is released, the memory is again
  one free buffer.
\<close>

lemma and_not_three: "(x :: u32) AND NOT 3 = x - (x AND 3)"
proof -
  have "x - (x AND 3) = x AND NOT (x AND 3)"
    by (rule disjunctive_diff_eq_and_not) (auto simp: bit_eq_iff bit_simps)
  then show ?thesis by (auto simp: bit_eq_iff bit_simps)
qed

lemma and_three: "uint ((x :: u32) AND 3) \<le> 3" "uint (x AND 3) \<le> uint x"
proof -
  have e: "x AND 3 = take_bit 2 x" by (simp add: take_bit_eq_mask mask_eq_decr_exp)
  have u: "uint (x AND 3) = uint x mod 4" by (simp only: e unsigned_take_bit_eq) (simp add: take_bit_eq_mod)
  show "uint (x AND 3) \<le> 3" "uint (x AND 3) \<le> uint x" using zmod_le_nonneg_dividend [of "uint x" 4] by (simp_all add: u)
qed

lemma request_bounds:
  assumes "0 \<le> len" and "len \<le> 0x7ffffff0"
  shows "len + int SHM_HEADER \<le> int (request len)" and "int (request len) \<le> len + int SHM_HEADER + 3"
proof -
  define w :: u32 where "w = of_int len + 4 - 1"
  define y where "y = w AND 3"
  define z where "z = w - y"
  have l: "uint (of_int len :: u32) = len" using assms by (simp add: unsigned_of_int take_bit_int_eq_self)
  have w: "uint w = len + 3"
  proof -
    have "w = of_int len + 3" by (simp add: w_def)
    then show ?thesis using assms l by (simp add: uint_plus_if_size word_size)
  qed
  have y: "0 \<le> uint y" "uint y \<le> 3" "uint y \<le> uint w" using and_three [of w] by (simp_all add: y_def)
  have z: "uint z = len + 3 - uint y" using y w by (simp add: z_def uint_sub_if_size)
  have "uint z + 12 < 4294967296" using z y(1) assms by linarith
  then have "uint (z + 12) = len + 3 - uint y + 12" using z by (simp add: uint_plus_if_size word_size)
  moreover have "request len = unat (z + 12)"
  proof -
    have "request len = unat ((w AND NOT 3) + 12)" by (simp add: request_def w_def SHM_HEADER_def)
    then show ?thesis by (simp only: and_not_three z_def y_def)
  qed
  ultimately have "int (request len) = len + 3 - uint y + 12" by simp
  then show "len + int SHM_HEADER \<le> int (request len)" "int (request len) \<le> len + int SHM_HEADER + 3"
    using y by (simp_all add: SHM_HEADER_def)
qed

subsection \<open>Bounding the chains\<close>

lemma area_finite [simp]: "finite (area c)"
  by (simp add: area_def)

lemma areas_finite [simp]: "finite (areas xs)"
  by (induction xs) simp_all

lemma apart_card: "apart xs \<Longrightarrow> card (areas xs) = sum_list (map snd xs)"
proof (induction xs)
  case (Cons c xs)
  then have "card (area c \<union> areas xs) = card (area c) + card (areas xs)" by (intro card_Un_disjoint) simp_all
  then show ?case using Cons by (simp add: area_def)
qed simp

lemma shm_chain_bound:
  assumes "shm_inv base ram m fs us"
  shows "SHM_HEADER * (length fs + length us) \<le> ram"
proof -
  have "ram = sum_list (map snd (fs @ us))"
    using assms apart_card [of "fs @ us"] by (simp add: shm_inv_def)
  moreover have "\<forall>c \<in> set xs. SHM_HEADER \<le> snd c \<Longrightarrow> SHM_HEADER * length xs \<le> sum_list (map snd xs)" for xs :: "chunk list"
    by (induction xs) auto
  ultimately show ?thesis using assms unfolding shm_inv_def by (metis length_append)
qed

subsection \<open>Runs of clients\<close>

datatype shm_op = Acquire int | Release nat

type_synonym shm_client = "shmem \<times> (nat \<times> int) list"

fun shm_step :: "nat \<Rightarrow> shm_op \<Rightarrow> shm_client \<Rightarrow> shm_client option" where
  "shm_step n (Acquire len) (m, held) =
     (case shared_mem_acquire n len m of
        None \<Rightarrow> None
      | Some (m', p, rv) \<Rightarrow> Some (m', if rv = EC_SUCCESS then (p, len) # held else held))"
| "shm_step n (Release i) (m, held) =
     (if i < length held
      then map_option (\<lambda>m'. (m', take i held @ drop (Suc i) held)) (shared_mem_release n (fst (held ! i)) m)
      else Some (m, held))"

fun shm_run :: "nat \<Rightarrow> shm_op list \<Rightarrow> shm_client \<Rightarrow> shm_client option" where
  "shm_run n [] c = Some c"
| "shm_run n (op # ops) c = Option.bind (shm_step n op c) (shm_run n ops)"

definition legal :: "shm_op \<Rightarrow> bool" where
  "legal op = (case op of Acquire len \<Rightarrow> 0 \<le> len \<and> len \<le> 0x7ffffff0 | Release i \<Rightarrow> True)"

definition holds :: "nat \<times> int \<Rightarrow> chunk \<Rightarrow> bool" where
  "holds b c \<longleftrightarrow> 0 \<le> snd b \<and> fst b = fst c + SHM_HEADER \<and> snd b + int SHM_HEADER \<le> int (snd c)"

definition client_inv :: "nat \<Rightarrow> nat \<Rightarrow> shm_client \<Rightarrow> bool" where
  "client_inv base ram c \<longleftrightarrow> (\<exists>fs us. shm_inv base ram (fst c) fs us \<and> list_all2 holds (snd c) us)"

lemma init_inv:
  assumes "0 < base" and "SHM_HEADER \<le> ram" and "allocced_buf_chain m = 0"
  shows "shm_inv base ram (shared_mem_init base (base + ram) m) [(base, ram)] []"
  using assms by (simp add: shm_inv_def shared_mem_init_def)

lemma step_inv:
  assumes "client_inv base ram (m, held)" and "legal op" and "ram < SHM_HEADER * n"
  shows "\<exists>c'. shm_step n op (m, held) = Some c' \<and> client_inv base ram c'"
proof -
  obtain fs us where inv: "shm_inv base ram m fs us" and h: "list_all2 holds held us"
    using assms(1) by (auto simp: client_inv_def)
  have "SHM_HEADER * (length fs + length us) < SHM_HEADER * n"
    by (rule le_less_trans [OF shm_chain_bound [OF inv] assms(3)])
  then have n: "length fs + length us < n" by (metis mult_less_cancel1)
  show ?thesis
  proof (cases op)
    case (Acquire len)
    then have len: "0 \<le> len" "len \<le> 0x7ffffff0" using assms(2) by (simp_all add: legal_def)
    note rq = request_bounds [OF len]
    show ?thesis
    proof (cases "pick (fits (request len)) smaller fs")
      case None
      then show ?thesis using Acquire assms(1) acquire_busy [OF inv _ None, of n] n by simp
    next
      case (Some c)
      obtain a k where c: "c = (a, k)" by (cases c)
      have "SHM_HEADER \<le> request len" using rq(1) len by simp
      then obtain m' fs' j where r: "shared_mem_acquire n len m = Some (m', a + SHM_HEADER, EC_SUCCESS)"
        "shm_inv base ram m' fs' ((a, j) # us)" "request len \<le> j"
        using acquire_inv [OF inv _ Some [unfolded c], of n] n by auto
      then have "holds (a + SHM_HEADER, len) (a, j)" using rq(1) len by (simp add: holds_def)
      then have "client_inv base ram (m', (a + SHM_HEADER, len) # held)"
        unfolding client_inv_def using r(2) h by (intro exI [of _ fs'] exI [of _ "(a, j) # us"]) simp
      then show ?thesis using Acquire r(1) by simp
    qed
  next
    case (Release i)
    show ?thesis
    proof (cases "i < length held")
      case True
      then have l: "i < length us" using h by (simp add: list_all2_lengthD)
      obtain p k where pk: "us ! i = (p, k)" by (cases "us ! i")
      have rest: "length (take i us @ drop (Suc i) us) < n" using n l by simp
      have us: "us = take i us @ (p, k) # drop (Suc i) us" using id_take_nth_drop [OF l] pk by simp
      have "fst (held ! i) = p + SHM_HEADER" using list_all2_nthD [OF h True] pk by (simp add: holds_def)
      moreover have "shm_inv base ram m fs (take i us @ (p, k) # drop (Suc i) us)"
        using inv by (simp only: us [symmetric])
      then obtain m' where "shared_mem_release n (p + SHM_HEADER) m = Some m'"
        "shm_inv base ram m' (put_free (p, k) fs) (take i us @ drop (Suc i) us)"
        using release_inv [of base ram m fs "take i us" p k "drop (Suc i) us" n] n rest by auto
      moreover have "list_all2 holds (take i held @ drop (Suc i) held) (take i us @ drop (Suc i) us)"
        using h by (intro list_all2_appendI) auto
      ultimately show ?thesis using True Release unfolding client_inv_def by auto
    qed (use Release assms(1) in simp)
  qed
qed

lemma run_inv:
  assumes "client_inv base ram c" and "\<forall>op \<in> set ops. legal op" and "ram < SHM_HEADER * n"
  shows "\<exists>c'. shm_run n ops c = Some c' \<and> client_inv base ram c'"
  using assms(1,2)
proof (induction ops arbitrary: c)
  case (Cons op ops)
  obtain m held where c: "c = (m, held)" by (cases c)
  obtain c' where "shm_step n op c = Some c'" "client_inv base ram c'"
    using step_inv [of base ram m held op n] Cons.prems assms(3) c by auto
  then show ?case using Cons by auto
qed simp

lemma client_run:
  assumes "0 < base" and "SHM_HEADER \<le> ram" and "ram < SHM_HEADER * n" and "allocced_buf_chain m0 = 0"
    and "\<forall>op \<in> set ops. legal op"
  shows "\<exists>m held. shm_run n ops (shared_mem_init base (base + ram) m0, []) = Some (m, held) \<and>
    client_inv base ram (m, held)"
proof -
  have "client_inv base ram (shared_mem_init base (base + ram) m0, [])"
    using init_inv [OF assms(1,2,4)] by (force simp: client_inv_def)
  from run_inv [OF this assms(5,3)] show ?thesis by auto
qed

text \<open>The memory of a buffer held, its header included.\<close>

definition held_area :: "nat \<times> int \<Rightarrow> nat set" where
  "held_area b = {fst b - SHM_HEADER..<fst b + nat (snd b)}"

lemma holds_area: "holds b c \<Longrightarrow> held_area b \<subseteq> area c"
  by (auto simp: holds_def held_area_def area_def)

text \<open>
  C34: Buffers held never overlap. From the initial state, every sequence of acquisitions and of
  releases of held buffers runs to its end (no \<open>NULL\<close> is followed, and the loops end within
  as many rounds as headers fit into the memory), and the buffers held then lie, with their headers
  and at least the size asked for, inside the memory and apart from each other.
\<close>

theorem shm_held_apart:
  assumes "0 < base" and "SHM_HEADER \<le> ram" and "ram < SHM_HEADER * n" and "allocced_buf_chain m0 = 0"
    and "\<forall>op \<in> set ops. legal op"
  shows "\<exists>m held. shm_run n ops (shared_mem_init base (base + ram) m0, []) = Some (m, held) \<and>
    (\<forall>i < length held. held_area (held ! i) \<subseteq> {base..<base + ram} \<and>
      (\<forall>j < length held. i \<noteq> j \<longrightarrow> held_area (held ! i) \<inter> held_area (held ! j) = {}))"
proof -
  obtain m held where r: "shm_run n ops (shared_mem_init base (base + ram) m0, []) = Some (m, held)"
    "client_inv base ram (m, held)"
    using client_run [OF assms] by blast
  then obtain fs us where inv: "shm_inv base ram m fs us" and h: "list_all2 holds held us"
    by (auto simp: client_inv_def)
  have len: "length us = length held" using h by (simp add: list_all2_lengthD)
  have sub: "held_area (held ! i) \<subseteq> area (us ! i)" if "i < length held" for i
    using holds_area list_all2_nthD [OF h that] by blast
  have "apart us" "areas us \<subseteq> {base..<base + ram}" using inv by (auto simp: shm_inv_def)
  then have "area (us ! i) \<inter> area (us ! j) = {}" if "i < length held" "j < length held" "i \<noteq> j" for i j
    using that len unfolding apart_def by simp
  moreover have "area (us ! i) \<subseteq> {base..<base + ram}" if i: "i < length held" for i
  proof -
    have "us ! i \<in> set us" using i len by simp
    then show ?thesis using \<open>areas us \<subseteq> _\<close> unfolding areas_def by blast
  qed
  ultimately have "\<forall>i < length held. held_area (held ! i) \<subseteq> {base..<base + ram} \<and>
      (\<forall>j < length held. i \<noteq> j \<longrightarrow> held_area (held ! i) \<inter> held_area (held ! j) = {})"
    using sub by (meson disjoint_iff subset_eq)
  then show ?thesis using r(1) by blast
qed

text \<open>A machine to try the results on: 4 KiB from address 4096.\<close>

definition demo_ops :: "shm_op list" where
  "demo_ops = [Acquire 100, Acquire 200, Acquire 60, Release 1, Acquire 50, Release 0]"

definition demo_shm :: shmem where
  "demo_shm = \<lparr>hdr = \<lambda>_. \<lparr>next_buffer = 0, prev_buffer = 0, buffer_size = 0\<rparr>, free_buf_chain = 0,
     allocced_buf_chain = 0, max_allocated_size = 0\<rparr>"

lemma demo_legal: "\<forall>op \<in> set demo_ops. legal op" "\<forall>op \<in> set (demo_ops @ [Release 0, Release 0]). legal op"
  by (simp_all add: demo_ops_def legal_def)

lemma demo_ram: "(0::nat) < 4096" "SHM_HEADER \<le> 4096" "4096 < SHM_HEADER * 400" "allocced_buf_chain demo_shm = 0"
  by (simp_all add: SHM_HEADER_def demo_shm_def)

theorem shm_held_apart_witness:
  "\<exists>m held. shm_run 400 demo_ops (shared_mem_init 4096 (4096 + 4096) demo_shm, []) = Some (m, held) \<and>
    (\<forall>i < length held. held_area (held ! i) \<subseteq> {4096..<4096 + 4096})"
  using shm_held_apart [OF demo_ram demo_legal(1)] by blast

text \<open>
  C35: Releasing everything restores the memory. When a run has released every buffer, the memory is
  one free buffer again, with the header that the initialisation wrote: released buffers are always
  merged with their free neighbours, whatever the order of the releases.
\<close>

theorem shm_all_released:
  assumes "0 < base" and "SHM_HEADER \<le> ram" and "ram < SHM_HEADER * n" and "allocced_buf_chain m0 = 0"
    and "\<forall>op \<in> set ops. legal op" and "shm_run n ops (shared_mem_init base (base + ram) m0, []) = Some (m, [])"
  shows "free_buf_chain m = base \<and> allocced_buf_chain m = 0 \<and>
    hdr m base = hdr (shared_mem_init base (base + ram) m0) base"
proof -
  obtain fs where inv: "shm_inv base ram m fs []"
    using client_run [OF assms(1-5)] assms(6) by (auto simp: client_inv_def)
  then have a: "areas fs = {base..<base + ram}" "gaps fs" and pos: "\<forall>c \<in> set fs. SHM_HEADER \<le> snd c"
    by (simp_all add: shm_inv_def)
  have "base \<in> areas fs" using a(1) assms(2) by (simp add: SHM_HEADER_def)
  then obtain c cs where fs: "fs = c # cs" by (cases fs) auto
  have "cs = []"
  proof (rule ccontr)
    assume "cs \<noteq> []"
    then obtain d ds where d: "cs = d # ds" by (cases cs) auto
    then have gap: "fst c + snd c < fst d" "fst d \<in> areas fs" "fst c \<in> areas fs"
      using a(2) fs pos area_nonempty [of d] area_nonempty [of c] by auto
    then have "fst c + snd c \<in> areas fs" unfolding a(1) by simp
    then obtain e where e: "e \<in> set fs" "fst c + snd c \<in> area e" by (auto simp: areas_def)
    then have "e \<in> set cs" using fs by (auto simp: area_def)
    then have "fst c + snd c < fst e" using gaps_later a(2) fs by blast
    then show False using e(2) by (simp add: area_def)
  qed
  then have "{fst c..<fst c + snd c} = {base..<base + ram}" using a(1) fs by (simp add: area_def)
  moreover have "fst c < fst c + snd c" "base < base + ram" using assms(2) pos fs by (auto simp: SHM_HEADER_def)
  ultimately have "fst c = base" "fst c + snd c = base + ram" using atLeastLessThan_eq_iff by blast+
  then show ?thesis using inv fs \<open>cs = []\<close> by (simp add: shm_inv_def shared_mem_init_def)
qed

theorem shm_all_released_witness:
  "\<exists>m. shm_run 400 [Acquire 100, Release 0] (shared_mem_init 4096 (4096 + 4096) demo_shm, []) = Some (m, []) \<and>
    free_buf_chain m = 4096"
proof -
  have l: "\<forall>op \<in> set [Acquire 100, Release 0]. legal op" by (simp add: legal_def)
  obtain m held where r: "shm_run 400 [Acquire 100, Release 0] (shared_mem_init 4096 (4096 + 4096) demo_shm, []) = Some (m, held)"
    using client_run [OF demo_ram l] by blast
  then have "held = []" by (auto simp: Option.bind_eq_Some_conv split: option.splits if_splits)
  then show ?thesis using r shm_all_released [OF demo_ram l] by blast
qed

subsection \<open>What an acquisition and a stray release do\<close>

text \<open>The buffers of a chain, in its order.\<close>

fun shm_chunks :: "nat \<Rightarrow> nat \<Rightarrow> shmem \<Rightarrow> chunk list" where
  "shm_chunks 0 p m = []"
| "shm_chunks (Suc n) p m =
     (if p = 0 then [] else (p, buffer_size (hdr m p)) # shm_chunks n (next_buffer (hdr m p)) m)"

lemma chunks_seg: "seg (hdr m) pr xs 0 \<Longrightarrow> length xs < n \<Longrightarrow> shm_chunks n (head_or 0 xs) m = xs"
proof (induction xs arbitrary: n pr)
  case (Cons c xs)
  then show ?case by (cases n) auto
next
  case Nil
  then show ?case by (cases n) auto
qed

lemma shm_reached:
  assumes "0 < base" and "SHM_HEADER \<le> ram" and "ram < SHM_HEADER * n" and "allocced_buf_chain m0 = 0"
    and "\<forall>op \<in> set ops. legal op" and "shm_run n ops (shared_mem_init base (base + ram) m0, []) = Some (m, held)"
  shows "\<exists>fs us. shm_inv base ram m fs us \<and> list_all2 holds held us \<and> length fs + length us < n \<and>
    shm_chunks n (free_buf_chain m) m = fs"
proof -
  obtain fs us where inv: "shm_inv base ram m fs us" and h: "list_all2 holds held us"
    using client_run [OF assms(1-5)] assms(6) by (auto simp: client_inv_def)
  have "SHM_HEADER * (length fs + length us) < SHM_HEADER * n"
    by (rule le_less_trans [OF shm_chain_bound [OF inv] assms(3)])
  then have n: "length fs + length us < n" by (metis mult_less_cancel1)
  then have "shm_chunks n (free_buf_chain m) m = fs" using inv chunks_seg [of m 0 fs n] by (simp add: shm_inv_def)
  then show ?thesis using inv h n by blast
qed

text \<open>
  An acquisition takes the best fit. After any run of clients, a further acquisition fails with
  the memory unchanged exactly when no free buffer has room for the request with its header (with
  less than \<open>MAX_HEADROOM\<close> to spare); otherwise it succeeds with a free buffer that has room,
  and no free buffer with room is smaller.
\<close>

lemma shm_acquire_best:
  assumes "0 < base" and "SHM_HEADER \<le> ram" and "ram < SHM_HEADER * n" and "allocced_buf_chain m0 = 0"
    and "\<forall>op \<in> set ops. legal op" and "shm_run n ops (shared_mem_init base (base + ram) m0, []) = Some (m, held)"
    and "0 \<le> len" and "len \<le> 0x7ffffff0"
  shows "if \<exists>c \<in> set (shm_chunks n (free_buf_chain m) m). fits (request len) c
    then \<exists>m' c. shared_mem_acquire n len m = Some (m', fst c + SHM_HEADER, EC_SUCCESS) \<and>
      c \<in> set (shm_chunks n (free_buf_chain m) m) \<and> request len \<le> snd c \<and>
      (\<forall>d \<in> set (shm_chunks n (free_buf_chain m) m). fits (request len) d \<longrightarrow> snd c \<le> snd d)
    else shared_mem_acquire n len m = Some (m, 0, EC_ERROR_BUSY)"
proof -
  obtain fs us where inv: "shm_inv base ram m fs us" and n: "length fs < n" and ch: "shm_chunks n (free_buf_chain m) m = fs"
    using shm_reached [OF assms(1-6)] by auto
  have sz: "SHM_HEADER \<le> request len" using request_bounds(1) [OF assms(7,8)] assms(7) by simp
  show ?thesis
  proof (cases "pick (fits (request len)) smaller fs")
    case None
    then show ?thesis using acquire_busy [OF inv n None] fit_pick.pick_None [of "fits (request len)" fs] by (simp add: ch)
  next
    case (Some c)
    obtain a k where c: "c = (a, k)" by (cases c)
    note p = fit_pick.pick_Some [OF Some]
    obtain m' where m': "shared_mem_acquire n len m = Some (m', fst c + SHM_HEADER, EC_SUCCESS)"
      using acquire_inv [OF inv n Some [unfolded c] sz] c by auto
    have "\<exists>c \<in> set fs. fits (request len) c" using p(1,2) by blast
    moreover have "request len \<le> snd c" "\<forall>d \<in> set fs. fits (request len) d \<longrightarrow> snd c \<le> snd d"
      using p(2,3) by (auto simp: fits_def)
    then have "\<exists>m' c. shared_mem_acquire n len m = Some (m', fst c + SHM_HEADER, EC_SUCCESS) \<and>
        c \<in> set fs \<and> request len \<le> snd c \<and> (\<forall>d \<in> set fs. fits (request len) d \<longrightarrow> snd c \<le> snd d)"
      using m' p(1) by (intro exI [of _ m'] exI [of _ c]) simp
    ultimately show ?thesis by (simp only: ch if_True simp_thms)
  qed
qed

lemma shm_acquire_best_witness:
  "\<exists>m'. shared_mem_acquire 400 100 (shared_mem_init 4096 (4096 + 4096) demo_shm) = Some (m', 4108, EC_SUCCESS)"
proof -
  define m where "m = shared_mem_init 4096 (4096 + 4096) demo_shm"
  have r: "shm_run 400 [] (shared_mem_init 4096 (4096 + 4096) demo_shm, []) = Some (m, [])" by (simp add: m_def)
  have c: "shm_chunks 400 (free_buf_chain m) m = [(4096, 4096)]"
    using chunks_seg [of m 0 "[(4096, 4096)]" 400] by (simp add: m_def shared_mem_init_def)
  have "fits (request 100) (4096, 4096)"
    using request_bounds [of 100] by (simp add: fits_def MAX_HEADROOM_def SHM_HEADER_def)
  then show ?thesis
    using shm_acquire_best [OF demo_ram _ r, of 100] unfolding m_def [symmetric] by (simp add: c SHM_HEADER_def)
qed

text \<open>
  Releasing twice is only caught while something is allocated. After any run of clients, a
  release of a pointer that is not held (one released before, say) leaves the memory as it is while
  some buffer is held, and follows \<open>NULL\<close> when none is: the search starts behind the first
  allocated buffer.
\<close>

lemma shm_stray_release:
  assumes "0 < base" and "SHM_HEADER \<le> ram" and "ram < SHM_HEADER * n" and "allocced_buf_chain m0 = 0"
    and "\<forall>op \<in> set ops. legal op" and "shm_run n ops (shared_mem_init base (base + ram) m0, []) = Some (m, held)"
    and "SHM_HEADER < p" and "p \<notin> fst ` set held"
  shows "shared_mem_release n p m = (if held = [] then None else Some m)"
proof -
  obtain fs us where inv: "shm_inv base ram m fs us" and h: "list_all2 holds held us" and n: "length us \<le> n"
    using shm_reached [OF assms(1-6)] by auto
  have "p - SHM_HEADER \<notin> fst ` set us"
  proof
    assume "p - SHM_HEADER \<in> fst ` set us"
    then obtain i where i: "i < length us" "fst (us ! i) = p - SHM_HEADER" by (auto simp: in_set_conv_nth)
    then have "i < length held" using h by (simp add: list_all2_lengthD)
    then have "fst (held ! i) = p" "held ! i \<in> set held"
      using list_all2_nthD2 [OF h i(1)] i(2) assms(7) by (auto simp: holds_def)
    then show False using assms(8) by force
  qed
  moreover have "us = [] \<longleftrightarrow> held = []" using h by auto
  ultimately show ?thesis using release_foreign [OF inv _ n, of "p - SHM_HEADER"] assms(7) by simp
qed

lemma shm_stray_release_witness:
  "shared_mem_release 400 4108 (shared_mem_init 4096 (4096 + 4096) demo_shm) = None"
proof -
  let ?m = "shared_mem_init 4096 (4096 + 4096) demo_shm"
  have r: "shm_run 400 [] (?m, []) = Some (?m, [])" by simp
  show ?thesis using shm_stray_release [OF demo_ram _ r, of 4108] by (simp add: SHM_HEADER_def)
qed

text \<open>With all memory allocated, the largest size is reported as a negative number.\<close>

lemma shared_mem_size_wraps:
  "free_buf_chain m = 0 \<Longrightarrow> shared_mem_size (Suc n) m = Some (-12)"
  by (simp add: shared_mem_size_def SHM_HEADER_def)

end
