(* ===== verification/TaskBitmap.thy ===== *)
theory TaskBitmap
  imports Prelude
begin

section \<open>Bitmaps of tasks\<close>

text \<open>
  The 32-bit words in which the task code keeps sets of tasks: \<open>BIT(i)\<close>, \<open>__fls\<close>, the
  highest bit of a word that is not zero, and the set that a word stands for.
\<close>

definition BITN :: "nat \<Rightarrow> u32" where "BITN i = push_bit i 1"

definition fls :: "u32 \<Rightarrow> nat" where
  "fls w = last (filter (bit w) [0..<32])"

lemma bit_below: "bit (w :: u32) i \<Longrightarrow> i < 32"
  using bit_imp_le_length by fastforce

lemma nonzero_bit: "(w :: u32) \<noteq> 0 \<Longrightarrow> \<exists>i < 32. bit w i"
  using bit_below by (auto simp: bit_eq_iff)

lemma sorted_le_last: "sorted xs \<Longrightarrow> x \<in> set xs \<Longrightarrow> (x :: nat) \<le> last xs"
  by (induction xs) (auto dest: last_in_set)

lemma fls_bit:
  assumes "w \<noteq> 0"
  shows "bit w (fls w)" and "fls w < 32" and "\<And>i. bit w i \<Longrightarrow> i \<le> fls w"
proof -
  let ?xs = "filter (bit w) [0..<32]"
  obtain j where j: "j < 32" "bit w j" using nonzero_bit [OF assms] by blast
  then have "?xs \<noteq> []" by (auto simp: filter_empty_conv)
  then have m: "fls w \<in> set ?xs" unfolding fls_def by (rule last_in_set)
  then show "bit w (fls w)" "fls w < 32" by auto
  have "sorted ?xs" by (rule sorted_wrt_filter) (rule sorted_upt)
  then have "\<forall>x \<in> set ?xs. x \<le> last ?xs" using sorted_le_last by blast
  then show "i \<le> fls w" if "bit w i" for i using bit_below [OF that] that by (simp add: fls_def)
qed

lemma bit_BITN [simp]: "bit (BITN i) j \<longleftrightarrow> i = j \<and> i < 32"
  by (auto simp: BITN_def bit_simps)

definition bits_of :: "u32 \<Rightarrow> nat set" where "bits_of w = {i. bit w i}"

lemma bits_of_finite [simp]: "finite (bits_of w)"
  using bit_below by (auto simp: bits_of_def intro: finite_subset [of _ "{..<32}"])

lemma bits_of_clear: "bits_of (w AND NOT (BITN i)) = bits_of w - {i}"
  using bit_below by (auto simp: bits_of_def bit_simps)

lemma bits_of_zero [simp]: "bits_of w = {} \<longleftrightarrow> w = 0"
  using nonzero_bit by (auto simp: bits_of_def)

lemma scan_decreases: "w \<noteq> 0 \<Longrightarrow> card (bits_of (w AND NOT (BITN (fls w)))) < card (bits_of w)"
  using fls_bit(1) [of w] by (simp add: bits_of_clear card_Diff1_less bits_of_def [of w, symmetric])
    (metis bits_of_def bits_of_finite card_Diff1_less mem_Collect_eq)

lemma bits_of_simps [simp]:
  "bits_of 0 = {}" "i \<in> bits_of w \<longleftrightarrow> bit w i"
  by (simp_all add: bits_of_def)

lemma bits_of_set: "i < 32 \<Longrightarrow> bits_of (w OR BITN i) = insert i (bits_of w)"
  by (auto simp: bits_of_def bit_simps)

end
