(* ===== verification/TaskTimer.thy ===== *)
theory TaskTimer
  imports TaskBitmap
begin

section \<open>The timers of tasks, common/timer.c\<close>

text \<open>
  One timer per task: a bitmap of the running ones, their 64-bit deadlines, and the hardware timer,
  which compares the low 32 bits of the clock with the earliest deadline of the current epoch of
  the high 32 bits. The hardware is what \<open>hwtimer.h\<close> documents: an event raises the
  interrupt when the counter reaches it, and so does an overflow of the counter. The modelled
  configuration has a 32-bit hardware timer. Readings of the clock are arguments; the tasks woken by
  \<open>task_set_event\<close> are recorded in \<open>posted\<close>, the newest first.
\<close>

definition ts_hi :: "u64 \<Rightarrow> u32" where "ts_hi t = ucast (drop_bit 32 t)"
definition ts_lo :: "u64 \<Rightarrow> u32" where "ts_lo t = ucast t"

record timers =
  timer_running :: u32
  timer_deadline :: "nat \<Rightarrow> u64"
  next_deadline :: u32
  hw_event :: "u32 option"
  irq_pending :: bool
  posted :: "nat list"

definition timers_init :: timers where
  "timers_init = \<lparr>timer_running = 0, timer_deadline = \<lambda>_. 0, next_deadline = 0xffffffff, hw_event = None,
     irq_pending = False, posted = []\<rparr>"

definition expire_timer :: "nat \<Rightarrow> timers \<Rightarrow> timers" where
  "expire_timer tskid s = s\<lparr>timer_running := timer_running s AND NOT (BITN tskid), posted := tskid # posted s\<rparr>"

subsection \<open>Operations\<close>

text \<open>The scan of one copy of the bitmap, from the highest bit.\<close>

function scan_timers :: "u64 \<Rightarrow> u32 \<Rightarrow> u64 \<Rightarrow> timers \<Rightarrow> u64 \<times> timers" where
  "scan_timers now check_timer nxt s =
     (if check_timer = 0 then (nxt, s)
      else
        let tskid = fls check_timer;
            d = timer_deadline s tskid;
            (nxt1, s1) = (if d \<le> now then (nxt, expire_timer tskid s)
                          else if ts_hi d = ts_hi now \<and> ts_lo d < ts_lo nxt then (d, s) else (nxt, s))
        in scan_timers now (check_timer AND NOT (BITN tskid)) nxt1 s1)"
  by pat_completeness auto

termination
  by (relation "measure (\<lambda>(_, w, _, _). card (bits_of w))") (simp_all add: scan_decreases)

declare scan_timers.simps [simp del]

fun rescan_timers :: "nat \<Rightarrow> u64 \<Rightarrow> u64 \<Rightarrow> timers \<Rightarrow> (u64 \<times> timers) option" where
  "rescan_timers 0 now nxt s = None"
| "rescan_timers (Suc n) now nxt s =
     (let running_t0 = timer_running s;
          (nxt1, s1) = scan_timers now running_t0 nxt s
      in if timer_running s1 AND NOT running_t0 \<noteq> 0 then rescan_timers n now nxt1 s1 else Some (nxt1, s1))"

text \<open>
  The loop with the clock readings of each round, before and after. The result has the last reading
  made; \<open>None\<close> means that there were not enough.
\<close>

fun timers_loop :: "(u64 \<times> u64) list \<Rightarrow> timers \<Rightarrow> (u64 \<times> timers) option" where
  "timers_loop [] s = None"
| "timers_loop ((now, after) # cs) s =
     do {
       (nxt, s1) \<leftarrow> rescan_timers 1 now (-1) s;
       if ts_hi nxt = 0xffffffff
       then Some (now, s1\<lparr>hw_event := None, next_deadline := 0xffffffff\<rparr>)
       else let s2 = s1\<lparr>hw_event := Some (ts_lo nxt), next_deadline := ts_lo nxt\<rparr>
            in if nxt \<le> after then timers_loop cs s2 else Some (after, s2)
     }"

definition process_timers :: "bool \<Rightarrow> u32 \<Rightarrow> (u64 \<times> u64) list \<Rightarrow> timers \<Rightarrow> u32 \<times> (u64 \<times> timers) option" where
  "process_timers overflow clksrc_high cs s =
     (if overflow then clksrc_high + 1 else clksrc_high, timers_loop cs s)"

text \<open>
  Arming a timer reads the clock, tests whether the timer runs and stores the deadline, marks it running,
  and raises the interrupt if the deadline may come before the hardware's event. Interrupts are enabled all
  the time.
\<close>

definition arm_store :: "u64 \<Rightarrow> nat \<Rightarrow> timers \<Rightarrow> timers option" where
  "arm_store event tskid s =
     (if bit (timer_running s) tskid then None else Some (s\<lparr>timer_deadline := (timer_deadline s)(tskid := event)\<rparr>))"

definition arm_mark :: "nat \<Rightarrow> timers \<Rightarrow> timers" where
  "arm_mark tskid s = s\<lparr>timer_running := timer_running s OR BITN tskid\<rparr>"

definition arm_trigger :: "u64 \<Rightarrow> u64 \<Rightarrow> timers \<Rightarrow> timers" where
  "arm_trigger now event s =
     (if ts_hi event < ts_hi now \<or> ts_hi event = ts_hi now \<and> ts_lo event \<le> next_deadline s
      then s\<lparr>irq_pending := True\<rparr> else s)"

definition timer_arm :: "u64 \<Rightarrow> u64 \<Rightarrow> nat \<Rightarrow> timers \<Rightarrow> timers \<times> ec_error_list" where
  "timer_arm now event tskid s =
     (case arm_store event tskid s of None \<Rightarrow> (s, EC_ERROR_BUSY)
      | Some s1 \<Rightarrow> (arm_trigger now event (arm_mark tskid s1), EC_SUCCESS))"

definition timer_cancel :: "nat \<Rightarrow> timers \<Rightarrow> timers" where
  "timer_cancel tskid s = s\<lparr>timer_running := timer_running s AND NOT (BITN tskid)\<rparr>"

definition timestamp_expired :: "u64 \<Rightarrow> u64 \<Rightarrow> bool" where
  "timestamp_expired deadline now = (0 \<le> sint (now - deadline))"

text \<open>The clock from its two halves, read again when an overflow came in between.\<close>

definition get_time :: "u32 \<Rightarrow> u32 \<Rightarrow> u32 \<Rightarrow> u32 \<Rightarrow> u64" where
  "get_time high lo high2 lo2 =
     (if high \<noteq> high2 then push_bit 32 (ucast high2) OR ucast lo2 else push_bit 32 (ucast high) OR ucast lo)"

definition force_time :: "u64 \<Rightarrow> timers \<Rightarrow> u64 \<times> timers" where
  "force_time ts s = (ts, s\<lparr>irq_pending := True\<rparr>)"

subsection \<open>Words of a time stamp\<close>

lemma len32: "LENGTH(32) = 32"
  by simp

lemma ts_uint: "uint t = uint (ts_hi t) * 2 ^ 32 + uint (ts_lo t)"
proof -
  have h: "uint (ts_hi t) = uint t div 2 ^ 32"
  proof -
    have "uint t div 2 ^ 32 < 2 ^ 32" using uint_lt2p [of t] by (simp add: div_less_iff_less_mult)
    moreover have "uint (drop_bit 32 t) = uint t div 2 ^ 32"
    proof -
      have "uint (drop_bit 32 t) = drop_bit 32 (take_bit 64 (uint t))"
        using unsigned_drop_bit_eq [of 32 t, where ?'a = int] by simp
      also have "take_bit 64 (uint t) = uint t" using uint_lt2p [of t] by (simp add: take_bit_int_eq_self)
      finally show ?thesis by (simp only: drop_bit_eq_div)
    qed
    moreover have "0 \<le> uint t div 2 ^ 32" by (simp add: pos_imp_zdiv_nonneg_iff)
    ultimately show ?thesis
      by (simp only: ts_hi_def unsigned_ucast_eq len32) (rule take_bit_int_eq_self, simp_all)
  qed
  have l: "uint (ts_lo t) = uint t mod 2 ^ 32" by (simp add: ts_lo_def unsigned_ucast_eq take_bit_eq_mod)
  show ?thesis using h l div_mult_mod_eq [of "uint t" "2 ^ 32"] by simp
qed

lemma ts_eqI: "ts_hi t = ts_hi u \<Longrightarrow> ts_lo t = ts_lo u \<Longrightarrow> t = u"
  using ts_uint [of t] ts_uint [of u] by (simp add: word_uint_eq_iff)

lemma pair_less:
  "0 \<le> l \<Longrightarrow> l < 2 ^ 32 \<Longrightarrow> 0 \<le> k \<Longrightarrow> k < 2 ^ 32 \<Longrightarrow>
   (a * 2 ^ 32 + l < b * 2 ^ 32 + (k :: int)) = (a < b \<or> a = b \<and> l < k)"
  by (cases a b rule: linorder_cases) auto

lemma ts_less: "t < u \<longleftrightarrow> ts_hi t < ts_hi u \<or> ts_hi t = ts_hi u \<and> ts_lo t < ts_lo u"
proof -
  have "uint (ts_lo t) < 2 ^ 32" "uint (ts_lo u) < 2 ^ 32" using uint_lt2p [of "ts_lo t"] uint_lt2p [of "ts_lo u"] by simp_all
  then show ?thesis
    by (simp only: word_less_def ts_uint [of t] ts_uint [of u] pair_less uint_ge_0 word_uint_eq_iff [of "ts_hi t"])
qed

lemma ts_le: "t \<le> u \<longleftrightarrow> ts_hi t < ts_hi u \<or> ts_hi t = ts_hi u \<and> ts_lo t \<le> ts_lo u"
  using ts_less [of u t]
  by (cases "ts_hi t" "ts_hi u" rule: linorder_cases) (auto simp: not_less [symmetric])

lemma ts_max [simp]: "ts_hi (-1) = 0xffffffff" "ts_lo (-1) = 0xffffffff"
  by code_simp+

subsection \<open>The scan\<close>

definition later :: "u64 \<Rightarrow> u64 \<Rightarrow> bool" where
  "later now d \<longleftrightarrow> now < d \<and> ts_hi d = ts_hi now"

lemma scan_timers_spec:
  assumes "scan_timers now w nxt s = (nxt', s')"
  shows "s' = s\<lparr>timer_running := timer_running s', posted := posted s'\<rparr> \<and>
    (\<forall>i. bit (timer_running s') i \<longleftrightarrow> bit (timer_running s) i \<and> \<not> (bit w i \<and> timer_deadline s i \<le> now)) \<and>
    set (posted s') = set (posted s) \<union> {i. bit w i \<and> timer_deadline s i \<le> now} \<and>
    (nxt' = nxt \<or> ts_lo nxt' < ts_lo nxt \<and> (\<exists>i. bit w i \<and> later now (timer_deadline s i) \<and> nxt' = timer_deadline s i)) \<and>
    (\<forall>i. bit w i \<and> later now (timer_deadline s i) \<longrightarrow> ts_lo nxt' \<le> ts_lo (timer_deadline s i))"
  using assms
proof (induction now w nxt s rule: scan_timers.induct)
  case (1 now w nxt s)
  show ?case
  proof (cases "w = 0")
    case True
    then show ?thesis using 1(2) by (simp add: scan_timers.simps)
  next
    case False
    let ?i = "fls w" and ?d = "timer_deadline s (fls w)"
    let ?w = "w AND NOT (BITN ?i)"
    obtain nxt1 s1 where n1: "(if ?d \<le> now then (nxt, expire_timer ?i s)
        else if ts_hi ?d = ts_hi now \<and> ts_lo ?d < ts_lo nxt then (?d, s) else (nxt, s)) = (nxt1, s1)"
      by (metis surj_pair)
    have r: "scan_timers now ?w nxt1 s1 = (nxt', s')"
      using 1(2) False n1 by (subst (asm) scan_timers.simps) (simp add: Let_def)
    note ih = 1(1) [OF False refl refl n1 [symmetric] refl r]
    have w: "bit w j \<longleftrightarrow> j = ?i \<or> bit ?w j" for j
      using fls_bit(1,2) [OF False] bit_below [of w j] by (auto simp: bit_simps)
    have wi: "\<not> bit ?w ?i" using fls_bit(2) [OF False] by (simp add: bit_simps)
    have d1: "timer_deadline s1 = timer_deadline s" using n1 by (auto simp: expire_timer_def split: if_splits)
    show ?thesis
    proof (cases "?d \<le> now")
      case True
      then have s1: "s1 = expire_timer ?i s" "nxt1 = nxt" using n1 by auto
      have b: "bit (timer_running s1) j \<longleftrightarrow> bit (timer_running s) j \<and> j \<noteq> ?i" for j
        using fls_bit(2) [OF False] bit_below [of "timer_running s" j] by (auto simp: s1 expire_timer_def bit_simps)
      show ?thesis using ih True unfolding d1 b s1(2) by (auto simp: w s1(1) expire_timer_def later_def)
    next
      case False
      then have s1: "s1 = s" using n1 by (auto split: if_splits)
      show ?thesis
      proof (cases "ts_hi ?d = ts_hi now \<and> ts_lo ?d < ts_lo nxt")
        case True
        then have "nxt1 = ?d" "later now ?d" using n1 \<open>\<not> ?d \<le> now\<close> by (auto simp: later_def)
        then show ?thesis using ih True False unfolding s1 by (auto simp: w)
      next
        case no: False
        then have "nxt1 = nxt" "later now ?d \<longrightarrow> ts_lo nxt \<le> ts_lo ?d"
          using n1 \<open>\<not> ?d \<le> now\<close> by (auto simp: later_def)
        then show ?thesis using ih False unfolding s1 by (auto simp: w)
      qed
    qed
  qed
qed

subsection \<open>Processing returns, and misses no timer\<close>

text \<open>Clock readings that do not go back.\<close>

fun clock_ok :: "u64 \<Rightarrow> (u64 \<times> u64) list \<Rightarrow> bool" where
  "clock_ok t [] = True"
| "clock_ok t ((now, after) # cs) = (t \<le> now \<and> now \<le> after \<and> ts_hi after < 0xffffffff \<and> clock_ok after cs)"

text \<open>
  What the hardware is set to: the next deadline, if there is one; and how it covers a running timer
  after time \<open>t\<close>: by the event, or by the next overflow.
\<close>

definition consistent :: "timers \<Rightarrow> bool" where
  "consistent s \<longleftrightarrow>
     hw_event s = (if next_deadline s = 0xffffffff then None else Some (next_deadline s))"

definition covered :: "u64 \<Rightarrow> timers \<Rightarrow> bool" where
  "covered t s \<longleftrightarrow> (\<forall>i. bit (timer_running s) i \<longrightarrow>
     (t < timer_deadline s i \<or> t = timer_deadline s i \<and> ts_lo t = 0xffffffff) \<and>
     (ts_hi t < ts_hi (timer_deadline s i) \<or> ts_lo (timer_deadline s i) = 0xffffffff \<or>
      (\<exists>e. hw_event s = Some e \<and> ts_lo t < e \<and> e \<le> ts_lo (timer_deadline s i))))"

lemma max_word_le: "(x :: u32) < 0xffffffff \<or> x = 0xffffffff"
proof -
  have "uint x \<le> 0xffffffff" using uint_lt2p [of x] by simp
  then show ?thesis by (simp add: word_less_def word_uint_eq_iff order_le_less)
qed

lemma timers_round:
  assumes "rescan_timers 1 now (-1) s = r" and "ts_hi now < 0xffffffff"
  shows "\<exists>nxt s1. r = Some (nxt, s1) \<and> s1 = s\<lparr>timer_running := timer_running s1, posted := posted s1\<rparr> \<and>
    (\<forall>i. bit (timer_running s1) i \<longleftrightarrow> bit (timer_running s) i \<and> now < timer_deadline s i) \<and>
    set (posted s1) = set (posted s) \<union> {i. bit (timer_running s) i \<and> timer_deadline s i \<le> now} \<and>
    (if ts_hi nxt = 0xffffffff
     then \<forall>i. bit (timer_running s1) i \<and> ts_hi (timer_deadline s i) = ts_hi now \<longrightarrow> ts_lo (timer_deadline s i) = 0xffffffff
     else ts_lo nxt < 0xffffffff \<and> later now nxt \<and> (\<exists>i. bit (timer_running s1) i \<and> timer_deadline s i = nxt) \<and>
       (\<forall>i. bit (timer_running s1) i \<and> ts_hi (timer_deadline s i) = ts_hi now \<longrightarrow> nxt \<le> timer_deadline s i))"
proof -
  obtain nxt s1 where scan: "scan_timers now (timer_running s) (-1) s = (nxt, s1)"
    by (cases "scan_timers now (timer_running s) (-1) s")
  note p = scan_timers_spec [OF scan]
  then have run: "bit (timer_running s1) i \<longleftrightarrow> bit (timer_running s) i \<and> now < timer_deadline s i" for i
    by (auto simp: not_le)
  then have "timer_running s1 AND NOT (timer_running s) = 0" by (auto simp: bit_eq_iff bit_simps)
  then have r: "r = Some (nxt, s1)" using assms(1) scan by simp
  have low: "ts_lo nxt \<le> ts_lo (timer_deadline s i)"
    if "bit (timer_running s1) i" "ts_hi (timer_deadline s i) = ts_hi now" for i
    using p that run by (auto simp: later_def)
  show ?thesis
  proof (cases "nxt = -1")
    case True
    then have "ts_lo (timer_deadline s i) = 0xffffffff"
      if "bit (timer_running s1) i" "ts_hi (timer_deadline s i) = ts_hi now" for i
      using low [OF that] max_word_le [of "ts_lo (timer_deadline s i)"] by auto
    then show ?thesis using r p run True by (intro exI [of _ nxt] exI [of _ s1]) auto
  next
    case False
    then have n: "ts_lo nxt < 0xffffffff" "later now nxt" "\<exists>i. bit (timer_running s1) i \<and> timer_deadline s i = nxt"
      using p run by (auto simp: later_def)
    then have "ts_hi nxt \<noteq> 0xffffffff" using assms(2) by (simp add: later_def)
    moreover have "nxt \<le> timer_deadline s i"
      if "bit (timer_running s1) i" "ts_hi (timer_deadline s i) = ts_hi now" for i
      using low [OF that] that(2) n(2) by (simp add: ts_le later_def)
    ultimately show ?thesis using r p run n by (intro exI [of _ nxt] exI [of _ s1]) auto
  qed
qed

text \<open>Each round but the first expires a timer, so one round more than timers is enough.\<close>

definition expired_at :: "u64 \<Rightarrow> timers \<Rightarrow> timers \<Rightarrow> bool" where
  "expired_at t s s' \<longleftrightarrow> timer_deadline s' = timer_deadline s \<and> irq_pending s' = irq_pending s \<and>
     (\<forall>i. bit (timer_running s') i \<longleftrightarrow> bit (timer_running s) i \<and> t < timer_deadline s i) \<and>
     set (posted s') = set (posted s) \<union> {i. bit (timer_running s) i \<and> timer_deadline s i \<le> t}"

lemma expired_at_trans:
  assumes "expired_at t s s1" "expired_at t' s1 s'" "t \<le> t'"
  shows "expired_at t' s s'"
  using assms by (auto simp: expired_at_def intro: order.trans)

lemma hi_mono: "t \<le> u \<Longrightarrow> ts_hi t \<le> ts_hi u"
  by (auto simp: ts_le)

text \<open>One round that is the last, and one that is not.\<close>

definition settled :: "u64 \<Rightarrow> timers \<Rightarrow> bool" where
  "settled t s \<longleftrightarrow> ts_hi t < 0xffffffff \<and> consistent s \<and> covered t s \<and> (\<forall>e. hw_event s = Some e \<longrightarrow> ts_lo t < e)"

lemma timers_loop_cases:
  assumes "now \<le> after" "ts_hi after < 0xffffffff"
  shows "(\<exists>t s1. timers_loop ((now, after) # cs) s = Some (t, s1) \<and> (t = now \<or> t = after) \<and> settled t s1 \<and> expired_at t s s1) \<or>
    (\<exists>s1 i. timers_loop ((now, after) # cs) s = timers_loop cs s1 \<and> expired_at now s s1 \<and>
       bit (timer_running s1) i \<and> timer_deadline s1 i \<le> after)"
proof -
  have hn: "ts_hi now < 0xffffffff" using hi_mono [OF assms(1)] assms(2) by simp
  obtain nxt s1 where r: "rescan_timers 1 now (-1) s = Some (nxt, s1)"
    and s1: "s1 = s\<lparr>timer_running := timer_running s1, posted := posted s1\<rparr>"
    and run: "\<And>i. bit (timer_running s1) i \<longleftrightarrow> bit (timer_running s) i \<and> now < timer_deadline s i"
    and post: "set (posted s1) = set (posted s) \<union> {i. bit (timer_running s) i \<and> timer_deadline s i \<le> now}"
    and nx: "if ts_hi nxt = 0xffffffff
     then \<forall>i. bit (timer_running s1) i \<and> ts_hi (timer_deadline s i) = ts_hi now \<longrightarrow> ts_lo (timer_deadline s i) = 0xffffffff
     else ts_lo nxt < 0xffffffff \<and> later now nxt \<and> (\<exists>i. bit (timer_running s1) i \<and> timer_deadline s i = nxt) \<and>
       (\<forall>i. bit (timer_running s1) i \<and> ts_hi (timer_deadline s i) = ts_hi now \<longrightarrow> nxt \<le> timer_deadline s i)"
    using timers_round [OF refl hn, of s] by blast
  have dl: "timer_deadline s1 = timer_deadline s" "irq_pending s1 = irq_pending s"
    using arg_cong [OF s1, of timer_deadline] arg_cong [OF s1, of irq_pending] by simp_all
  have ex: "expired_at now s s1" unfolding expired_at_def using run post dl by simp
  have loop: "timers_loop ((now, after) # cs) s =
     (if ts_hi nxt = 0xffffffff then Some (now, s1\<lparr>hw_event := None, next_deadline := 0xffffffff\<rparr>)
      else if nxt \<le> after then timers_loop cs (s1\<lparr>hw_event := Some (ts_lo nxt), next_deadline := ts_lo nxt\<rparr>)
      else Some (after, s1\<lparr>hw_event := Some (ts_lo nxt), next_deadline := ts_lo nxt\<rparr>))"
    using r by simp
  show ?thesis
  proof (cases "ts_hi nxt = 0xffffffff")
    case True
    let ?s = "s1\<lparr>hw_event := None, next_deadline := 0xffffffff\<rparr>"
    have "covered now ?s"
      unfolding covered_def using nx True run dl by (auto simp: ts_less)
    moreover have "expired_at now s ?s" using ex by (simp add: expired_at_def)
    ultimately have "timers_loop ((now, after) # cs) s = Some (now, ?s) \<and> settled now ?s \<and> expired_at now s ?s"
      unfolding loop using True hn by (simp add: settled_def consistent_def)
    then show ?thesis by blast
  next
    case False
    let ?s = "s1\<lparr>hw_event := Some (ts_lo nxt), next_deadline := ts_lo nxt\<rparr>"
    have n: "ts_lo nxt < 0xffffffff" "later now nxt" "\<exists>i. bit (timer_running s1) i \<and> timer_deadline s i = nxt"
      and low: "\<And>i. bit (timer_running s1) i \<Longrightarrow> ts_hi (timer_deadline s i) = ts_hi now \<Longrightarrow> nxt \<le> timer_deadline s i"
      using nx False by auto
    have exs: "expired_at now s ?s" using ex by (simp add: expired_at_def)
    show ?thesis
    proof (cases "nxt \<le> after")
      case True
      then obtain i where "bit (timer_running ?s) i" "timer_deadline ?s i \<le> after" using n(3) dl by auto
      moreover have "timers_loop ((now, after) # cs) s = timers_loop cs ?s" unfolding loop using False True by simp
      ultimately show ?thesis using exs by blast
    next
      case no: False
      have an: "after < nxt" using no by (simp only: not_le)
      have hi: "ts_hi after = ts_hi now"
        using hi_mono [OF assms(1)] hi_mono [OF less_imp_le [OF an]] n(2) by (simp add: later_def)
      have lo: "ts_lo after < ts_lo nxt" using an n(2) unfolding ts_less [of after] hi later_def by simp
      note hi = hi lo
      have up: "after < timer_deadline s i" if b: "bit (timer_running s1) i" for i
      proof (cases "ts_hi (timer_deadline s i) = ts_hi now")
        case True
        then show ?thesis using low [OF b] no by (simp add: not_le)
      next
        case False
        then show ?thesis using run [of i] b hi by (auto simp: ts_less)
      qed
      have "ts_hi after < ts_hi (timer_deadline s i) \<or> ts_lo nxt \<le> ts_lo (timer_deadline s i)"
        if b: "bit (timer_running s1) i" for i
        using low [OF b] up [OF b] hi n(2) by (auto simp: ts_less ts_le later_def)
      then have cov: "covered after ?s"
        unfolding covered_def using up hi dl by simp blast
      have "now < timer_deadline s i \<longleftrightarrow> after < timer_deadline s i" if b: "bit (timer_running s) i" for i
        using up [of i] run [of i] b assms(1) by auto
      then have "expired_at after s ?s"
        using exs unfolding expired_at_def by (auto simp: not_less [symmetric])
      moreover have "settled after ?s" using cov assms(2) n(1) hi by (simp add: settled_def consistent_def)
      moreover have "timers_loop ((now, after) # cs) s = Some (after, ?s)" unfolding loop using False no by simp
      ultimately show ?thesis by blast
    qed
  qed
qed

lemma timers_loop_result:
  assumes "timers_loop cs s = Some (t', s')" "clock_ok t cs"
  shows "t \<le> t' \<and> settled t' s' \<and> expired_at t' s s'"
  using assms
proof (induction cs arbitrary: t s)
  case (Cons c cs)
  obtain now after where c: "c = (now, after)" by (cases c)
  have ck: "t \<le> now" "now \<le> after" "ts_hi after < 0xffffffff" "clock_ok after cs" using Cons.prems(2) by (auto simp: c)
  consider (stop) u s1 where "timers_loop (c # cs) s = Some (u, s1)" "u = now \<or> u = after" "settled u s1" "expired_at u s s1"
    | (retry) s1 where "timers_loop (c # cs) s = timers_loop cs s1" "expired_at now s s1"
    using timers_loop_cases [OF ck(2,3), of cs s] unfolding c [symmetric] by blast
  then show ?case
  proof cases
    case stop
    then have "u = t'" "s1 = s'" using Cons.prems(1) by simp_all
    then show ?thesis using stop(2,3,4) ck(1,2) by auto
  next
    case retry
    note e = retry(2)
    have "timers_loop cs s1 = Some (t', s')" using Cons.prems(1) by (simp only: retry(1))
    then have "after \<le> t' \<and> settled t' s' \<and> expired_at t' s1 s'" by (rule Cons.IH [OF _ ck(4)])
    then show ?thesis using expired_at_trans [OF e, of t' s'] ck by (auto intro: order.trans)
  qed
qed simp

lemma expired_at_bits:
  assumes "expired_at now s s1"
  shows "card (bits_of (timer_running s1)) \<le> card (bits_of (timer_running s))"
    and "bit (timer_running s) j \<Longrightarrow> timer_deadline s j \<le> now \<Longrightarrow>
      card (bits_of (timer_running s1)) < card (bits_of (timer_running s))"
proof -
  have sub: "bits_of (timer_running s1) \<subseteq> bits_of (timer_running s)" using assms by (auto simp: bits_of_def expired_at_def)
  show "card (bits_of (timer_running s1)) \<le> card (bits_of (timer_running s))" by (rule card_mono [OF bits_of_finite sub])
  assume "bit (timer_running s) j" "timer_deadline s j \<le> now"
  then have "j \<in> bits_of (timer_running s)" "j \<notin> bits_of (timer_running s1)"
    using assms by (simp_all add: bits_of_def expired_at_def not_less)
  then have "bits_of (timer_running s1) \<subset> bits_of (timer_running s)" using sub by blast
  then show "card (bits_of (timer_running s1)) < card (bits_of (timer_running s))" by (rule psubset_card_mono [OF bits_of_finite])
qed

lemma timers_loop_returns:
  assumes "clock_ok t cs"
    and "card (bits_of (timer_running s)) < length cs \<or>
      card (bits_of (timer_running s)) \<le> length cs \<and> (\<exists>i. bit (timer_running s) i \<and> timer_deadline s i \<le> t)"
  shows "\<exists>t' s'. timers_loop cs s = Some (t', s')"
  using assms
proof (induction cs arbitrary: t s)
  case Nil
  then obtain i where "bit (timer_running s) i" "bits_of (timer_running s) = {}" by auto
  then show ?case by (auto simp: bits_of_def)
next
  case (Cons c cs)
  obtain now after where c: "c = (now, after)" by (cases c)
  have ck: "t \<le> now" "now \<le> after" "ts_hi after < 0xffffffff" "clock_ok after cs" using Cons.prems(1) by (auto simp: c)
  consider (stop) u s1 where "timers_loop (c # cs) s = Some (u, s1)"
    | (retry) s1 i where "timers_loop (c # cs) s = timers_loop cs s1" "expired_at now s s1"
        "bit (timer_running s1) i" "timer_deadline s1 i \<le> after"
    using timers_loop_cases [OF ck(2,3), of cs s] unfolding c [symmetric] by blast
  then show ?case
  proof cases
    case retry
    note e = retry(2)
    have "card (bits_of (timer_running s1)) \<le> length cs"
      using Cons.prems(2)
    proof (elim disjE conjE exE)
      fix j assume "card (bits_of (timer_running s)) \<le> length (c # cs)" "bit (timer_running s) j" "timer_deadline s j \<le> t"
      then show ?thesis using expired_at_bits(2) [OF e, of j] ck(1) by fastforce
    qed (use expired_at_bits(1) [OF e] in simp)
    then show ?thesis using Cons.IH [OF ck(4), of s1] retry(3,4) unfolding retry(1) by blast
  qed blast
qed

subsection \<open>The clock, the interrupt and the tasks\<close>

text \<open>
  A step: a task goes on arming its timer, or cancels it, the clock goes on (the hardware raises the
  interrupt when the counter reaches the event or overflows), the interrupt is handled, the clock is
  set. \<open>arm_pc\<close> is how far the arming of a timer has come, with the deadline and the clock reading. The
  last part of a state is the timers whose arming tested a reading of another epoch than the current one,
  since the interrupt was handled last.
\<close>

datatype arm_pc = Not_arming | Reading u64 u64 | Stored u64 u64 | Marked u64 u64

type_synonym timer_sys = "u64 \<times> timers \<times> (nat \<Rightarrow> arm_pc) \<times> nat set"

definition clock_tick :: "u64 \<Rightarrow> u64 \<Rightarrow> timers \<Rightarrow> timers" where
  "clock_tick t t' s =
     (if ts_hi t < ts_hi t' \<or> (\<exists>e. hw_event s = Some e \<and> ts_lo t < e \<and> e \<le> ts_lo t')
      then s\<lparr>irq_pending := True\<rparr> else s)"

inductive timer_step :: "timer_sys \<Rightarrow> timer_sys \<Rightarrow> bool" where
  read: "i < 32 \<Longrightarrow> P i = Not_arming \<Longrightarrow> timer_step (t, s, P, Z) (t, s, P(i := Reading event t), Z)"
| busy: "P i = Reading event now \<Longrightarrow> arm_store event i s = None \<Longrightarrow>
    timer_step (t, s, P, Z) (t, s, P(i := Not_arming), Z)"
| store: "P i = Reading event now \<Longrightarrow> arm_store event i s = Some s' \<Longrightarrow>
    timer_step (t, s, P, Z) (t, s', P(i := Stored event now), Z)"
| mark: "P i = Stored event now \<Longrightarrow> timer_step (t, s, P, Z) (t, arm_mark i s, P(i := Marked event now), Z)"
| test: "P i = Marked event now \<Longrightarrow> timer_step (t, s, P, Z)
    (t, arm_trigger now event s, P(i := Not_arming), if ts_hi now = ts_hi t then Z - {i} else insert i Z)"
| cancel: "timer_step (t, s, P, Z) (t, timer_cancel i s, P, Z)"
| tick: "t \<le> t' \<Longrightarrow> ts_hi t' < 0xffffffff \<Longrightarrow> timer_step (t, s, P, Z) (t', clock_tick t t' s, P, Z)"
| irq: "irq_pending s \<Longrightarrow> clock_ok t cs \<Longrightarrow> timers_loop cs (s\<lparr>irq_pending := False\<rparr>) = Some (t', s') \<Longrightarrow>
    timer_step (t, s, P, Z) (t', s', P, {})"
| force: "ts_hi ts < 0xffffffff \<Longrightarrow> timer_step (t, s, P, Z) (fst (force_time ts s), snd (force_time ts s), P, Z)"

inductive timer_reach :: "timer_sys \<Rightarrow> bool" where
  init: "timer_reach (0, timers_init, \<lambda>_. Not_arming, {})"
| step: "timer_reach x \<Longrightarrow> timer_step x y \<Longrightarrow> timer_reach y"

definition between_mark_and_test :: "(nat \<Rightarrow> arm_pc) \<Rightarrow> nat \<Rightarrow> bool" where
  "between_mark_and_test P i \<longleftrightarrow> (\<exists>event now. P i = Marked event now)"

definition timer_covered :: "u64 \<Rightarrow> timers \<Rightarrow> nat \<Rightarrow> bool" where
  "timer_covered t s i \<longleftrightarrow>
     (t < timer_deadline s i \<or> t = timer_deadline s i \<and> ts_lo t = 0xffffffff) \<and>
     (ts_hi t < ts_hi (timer_deadline s i) \<or> ts_lo (timer_deadline s i) = 0xffffffff \<or>
      (\<exists>e. hw_event s = Some e \<and> ts_lo t < e \<and> e \<le> ts_lo (timer_deadline s i)))"

lemma covered_iff: "covered t s \<longleftrightarrow> (\<forall>i. bit (timer_running s) i \<longrightarrow> timer_covered t s i)"
  by (simp add: covered_def timer_covered_def)

text \<open>Every running timer is covered, but those that wait for their test or had a stale one.\<close>

definition event_ahead :: "u64 \<Rightarrow> timers \<Rightarrow> bool" where
  "event_ahead t s \<longleftrightarrow> (\<forall>e. hw_event s = Some e \<longrightarrow> ts_lo t < e)"

definition others_covered :: "timer_sys \<Rightarrow> bool" where
  "others_covered = (\<lambda>(t, s, P, Z). \<forall>i. bit (timer_running s) i \<and> \<not> between_mark_and_test P i \<and> i \<notin> Z \<longrightarrow> timer_covered t s i)"

definition deadlines_stored :: "timers \<Rightarrow> (nat \<Rightarrow> arm_pc) \<Rightarrow> bool" where
  "deadlines_stored s P \<longleftrightarrow> (\<forall>i event now. P i = Stored event now \<or> P i = Marked event now \<longrightarrow> timer_deadline s i = event \<and> i < 32)"

definition timers_inv :: "timer_sys \<Rightarrow> bool" where
  "timers_inv = (\<lambda>(t, s, P, Z). ts_hi t < 0xffffffff \<and> consistent s \<and> deadlines_stored s P
     \<and> (\<forall>i event now. P i = Reading event now \<longrightarrow> i < 32)
     \<and> (irq_pending s \<or> event_ahead t s \<and> others_covered (t, s, P, Z)))"

text \<open>What the test of an arming decides: it raises the interrupt, or the timer is covered.\<close>

lemma test_covers:
  assumes "ts_hi now = ts_hi t" and "timer_deadline s i = event" and "consistent s" and "event_ahead t s"
    and "\<not> irq_pending (arm_trigger now event s)"
  shows "timer_covered t s i"
proof -
  have f: "ts_hi t < ts_hi event \<or> ts_hi event = ts_hi t \<and> next_deadline s < ts_lo event"
    using assms(1,5) by (cases "ts_hi t" "ts_hi event" rule: linorder_cases) (auto simp: arm_trigger_def split: if_splits)
  then show ?thesis
  proof
    assume e: "ts_hi event = ts_hi t \<and> next_deadline s < ts_lo event"
    then have "hw_event s = Some (next_deadline s)"
      using assms(3) max_word_le [of "next_deadline s"] max_word_le [of "ts_lo event"] by (auto simp: consistent_def)
    then show ?thesis
      using e assms(2,4) by (auto simp: timer_covered_def event_ahead_def ts_less intro: order.strict_trans)
  qed (auto simp: timer_covered_def assms(2) ts_less)
qed

lemma tick_covers:
  assumes "timer_covered t s i" "event_ahead t s" "t \<le> t'" "\<not> irq_pending (clock_tick t t' s)"
  shows "timer_covered t' s i" "event_ahead t' s"
proof -
  have no: "\<not> (ts_hi t < ts_hi t' \<or> (\<exists>e. hw_event s = Some e \<and> ts_lo t < e \<and> e \<le> ts_lo t'))"
    using assms(4) by (auto simp: clock_tick_def split: if_splits)
  have hi: "ts_hi t' = ts_hi t" using no hi_mono [OF assms(3)] by auto
  have ev: "ts_lo t' < e" if "hw_event s = Some e" for e using that assms(2) no by (auto simp: event_ahead_def not_le)
  then show "event_ahead t' s" by (simp add: event_ahead_def)
  let ?d = "timer_deadline s i"
  have d: "t < ?d \<or> t = ?d \<and> ts_lo t = 0xffffffff"
    "ts_hi t < ts_hi ?d \<or> ts_lo ?d = 0xffffffff \<or> (\<exists>e. hw_event s = Some e \<and> ts_lo t < e \<and> e \<le> ts_lo ?d)"
    using assms(1) unfolding timer_covered_def by blast+
  have "ts_hi t \<le> ts_hi ?d" using d(1) by (auto simp: ts_less)
  then consider "ts_hi t < ts_hi ?d" | "ts_hi ?d = ts_hi t" "ts_lo ?d = 0xffffffff"
    | e where "ts_hi ?d = ts_hi t" "hw_event s = Some e" "e \<le> ts_lo ?d"
    using d(2) by (cases "ts_hi t = ts_hi ?d") auto
  then show "timer_covered t' s i"
  proof cases
    case 1
    then show ?thesis using hi by (simp add: timer_covered_def ts_less)
  next
    case 2
    then have "t' < ?d \<or> t' = ?d" using hi max_word_le [of "ts_lo t'"] ts_eqI [of t' ?d] by (auto simp: ts_less)
    then show ?thesis using 2 by (auto simp: timer_covered_def)
  next
    case 3
    then show ?thesis using hi ev [OF 3(2)] by (auto simp: timer_covered_def ts_less intro: order.strict_trans2)
  qed
qed

lemma clock_tick_frame: "clock_tick t t' s = s \<or> irq_pending (clock_tick t t' s)"
  "timer_deadline (clock_tick t t' s) = timer_deadline s" "consistent (clock_tick t t' s) = consistent s"
  by (simp_all add: clock_tick_def consistent_def)

lemma arm_trigger_frame: "arm_trigger now event s = s \<or> irq_pending (arm_trigger now event s)"
  "timer_deadline (arm_trigger now event s) = timer_deadline s" "consistent (arm_trigger now event s) = consistent s"
  by (simp_all add: arm_trigger_def consistent_def)

lemma timer_step_inv: "timer_step x y \<Longrightarrow> timers_inv x \<Longrightarrow> timers_inv y"
proof (induction rule: timer_step.induct)
  case (read i P t s Z event)
  then show ?case by (auto simp: timers_inv_def deadlines_stored_def others_covered_def between_mark_and_test_def)
next
  case (busy P i event now s t Z)
  then show ?case by (auto simp: timers_inv_def deadlines_stored_def others_covered_def between_mark_and_test_def)
next
  case (store P i event now s s' t Z)
  have s': "s' = s\<lparr>timer_deadline := (timer_deadline s)(i := event)\<rparr>" "\<not> bit (timer_running s) i"
    using store(2) by (auto simp: arm_store_def split: if_splits)
  have c: "timer_covered t s' j = timer_covered t s j" if "j \<noteq> i" for j
    using that by (simp add: timer_covered_def s'(1))
  have b: "between_mark_and_test (P(i := Stored event now)) j \<longleftrightarrow> between_mark_and_test P j" for j
    using store(1) by (simp add: between_mark_and_test_def)
  have "others_covered (t, s', P(i := Stored event now), Z)" if "others_covered (t, s, P, Z)"
    using that s' c b unfolding others_covered_def by (auto simp: s'(1)) (metis c s'(1))
  then show ?case using store(1,3) by (auto simp: timers_inv_def deadlines_stored_def s'(1) consistent_def event_ahead_def)
next
  case (mark P i event now t s Z)
  have i: "i < 32" using mark by (auto simp: timers_inv_def deadlines_stored_def)
  have b: "bit (timer_running (arm_mark i s)) j \<longleftrightarrow> bit (timer_running s) j \<or> j = i" for j
    using i by (auto simp: arm_mark_def bit_simps)
  have "others_covered (t, arm_mark i s, P(i := Marked event now), Z)" if "others_covered (t, s, P, Z)"
    using that unfolding others_covered_def prod.case b
    by (auto simp: between_mark_and_test_def timer_covered_def arm_mark_def)
  then show ?case using mark by (auto simp: timers_inv_def deadlines_stored_def arm_mark_def consistent_def event_ahead_def)
next
  case (test P i event now t s Z)
  let ?Z = "if ts_hi now = ts_hi t then Z - {i} else insert i Z"
  have d: "timer_deadline s i = event" using test by (auto simp: timers_inv_def deadlines_stored_def)
  have "others_covered (t, s, P(i := Not_arming), ?Z)"
    if "\<not> irq_pending (arm_trigger now event s)" "others_covered (t, s, P, Z)" "event_ahead t s" "consistent s"
    using that test_covers [OF _ d that(4,3,1)] by (auto simp: others_covered_def between_mark_and_test_def)
  then show ?case
    using test arm_trigger_frame [of now event s] by (auto simp: timers_inv_def deadlines_stored_def)
next
  case (cancel t s P Z i)
  then show ?case
    by (auto simp: timers_inv_def consistent_def deadlines_stored_def others_covered_def event_ahead_def timer_covered_def
        timer_cancel_def bit_simps)
next
  case (tick t t' s P Z)
  have "others_covered (t', s, P, Z)" if "others_covered (t, s, P, Z)" "event_ahead t s" "\<not> irq_pending (clock_tick t t' s)"
    using that tick_covers(1) [OF _ that(2) tick(1) that(3)] by (auto simp: others_covered_def)
  moreover have "event_ahead t' s" if "event_ahead t s" "\<not> irq_pending (clock_tick t t' s)"
    using that tick(1) hi_mono [OF tick(1)] by (auto simp: event_ahead_def clock_tick_def not_le split: if_splits)
  ultimately show ?case
    using tick clock_tick_frame [of t t' s] by (auto simp: timers_inv_def deadlines_stored_def)
next
  case (irq s t cs t' s' P Z)
  have r: "t \<le> t' \<and> settled t' s' \<and> expired_at t' (s\<lparr>irq_pending := False\<rparr>) s'" by (rule timers_loop_result [OF irq(3,2)])
  then have "others_covered (t', s', P, {})" "event_ahead t' s'" "timer_deadline s' = timer_deadline s"
    by (auto simp: settled_def covered_iff others_covered_def event_ahead_def expired_at_def)
  then show ?case using irq(4) r by (auto simp: timers_inv_def deadlines_stored_def settled_def)
next
  case (force ts t s P Z)
  then show ?case by (auto simp: timers_inv_def deadlines_stored_def force_time_def consistent_def)
qed

lemma timer_reach_inv: "timer_reach x \<Longrightarrow> timers_inv x"
proof (induction rule: timer_reach.induct)
  case init
  then show ?case
    by (simp add: timers_inv_def deadlines_stored_def others_covered_def event_ahead_def consistent_def timers_init_def ts_hi_def)
next
  case (step x y)
  then show ?case using timer_step_inv by blast
qed

subsection \<open>Properties\<close>

text \<open>
  C36: A timer whose deadline has come is not forgotten. In every interleaving of the steps in which tasks
  arm and cancel their timers, of the clock and of the interrupt, if a running timer's deadline has come, the
  interrupt that expires it is pending. The exceptions are a timer that is marked running but not yet tested
  against the hardware's event, for which the test is still to come; a timer whose test used a reading of the
  clock from another epoch of the counter than the one at the test, until the next timer interrupt; and a
  deadline at the last microsecond before an overflow, which the interrupt of the overflow, one microsecond
  later, expires.
\<close>

theorem timers_never_missed:
  assumes "timer_reach (t, s, P, Z)" "bit (timer_running s) i" "timer_deadline s i \<le> t"
    and "\<not> between_mark_and_test P i" "i \<notin> Z"
  shows "irq_pending s \<or> (timer_deadline s i = t \<and> ts_lo t = 0xffffffff)"
  using timer_reach_inv [OF assms(1)] assms(2-5)
  by (auto simp: timers_inv_def others_covered_def timer_covered_def not_less [symmetric])

text \<open>
  Processing the timers ends when the clock is read once more than there are running timers, and
  then exactly the timers whose deadline has come have been removed and their tasks woken; the clock
  has not passed the hardware's event, and every timer left is covered by that event or by an
  overflow.
\<close>

lemma process_timers_exact:
  assumes "clock_ok t cs" "card (bits_of (timer_running s)) < length cs"
  shows "\<exists>t' s'. process_timers overflow high cs s = (if overflow then high + 1 else high, Some (t', s')) \<and> t \<le> t' \<and>
    timer_deadline s' = timer_deadline s \<and>
    (\<forall>i. bit (timer_running s') i \<longleftrightarrow> bit (timer_running s) i \<and> t' < timer_deadline s i) \<and>
    set (posted s') = set (posted s) \<union> {i. bit (timer_running s) i \<and> timer_deadline s i \<le> t'} \<and>
    covered t' s' \<and> (\<forall>e. hw_event s' = Some e \<longrightarrow> ts_lo t' < e)"
proof -
  obtain t' s' where r: "timers_loop cs s = Some (t', s')" using timers_loop_returns [OF assms(1)] assms(2) by blast
  show ?thesis
    using timers_loop_result [OF r assms(1)] r
    by (intro exI [of _ t'] exI [of _ s']) (simp add: process_timers_def expired_at_def settled_def)
qed

text \<open>Two timers, one of them due.\<close>

definition timers_demo :: timers where
  "timers_demo = fst (timer_arm 0 5000 7 (fst (timer_arm 0 1000 3 timers_init)))"

lemmas timers_demo_defs = timers_demo_def timer_arm_def arm_store_def arm_mark_def arm_trigger_def timers_init_def

lemma timers_demo_running: "bit (timer_running timers_demo) i \<longleftrightarrow> i = 3 \<or> i = 7"
  by (auto simp: timers_demo_defs Let_def bit_simps)

lemma timers_demo_deadline: "timer_deadline timers_demo 3 = 1000" "timer_deadline timers_demo 7 = 5000"
  by (simp_all add: timers_demo_defs Let_def bit_simps)

text \<open>Arming without interruption is a sequence of steps.\<close>

lemma arm_reach:
  assumes "timer_reach (t, s, P, Z)" "i < 32" "P i = Not_arming" "arm_store event i s = Some s1"
  shows "timer_reach (t, fst (timer_arm t event i s), P, Z - {i})"
proof -
  have 1: "timer_reach (t, s, P(i := Reading event t), Z)" by (rule timer_reach.step [OF assms(1) timer_step.read]) (use assms in auto)
  have 2: "timer_reach (t, s1, P(i := Stored event t), Z)"
    using timer_reach.step [OF 1 timer_step.store [of _ i event t s s1]] assms(4) by simp
  have 3: "timer_reach (t, arm_mark i s1, P(i := Marked event t), Z)"
    using timer_reach.step [OF 2 timer_step.mark [of _ i event t]] by simp
  have "timer_reach (t, arm_trigger t event (arm_mark i s1), P(i := Not_arming), Z - {i})"
    using timer_reach.step [OF 3 timer_step.test [of _ i event t]] by simp
  then show ?thesis using assms(3,4) by (simp add: timer_arm_def fun_upd_idem)
qed

lemma timers_demo_reach: "timer_reach (0, timers_demo, \<lambda>_. Not_arming, {})"
proof -
  have "timer_reach (0, fst (timer_arm 0 1000 3 timers_init), \<lambda>_. Not_arming, {})"
    using arm_reach [OF timer_reach.init, of 3 1000] by (simp add: arm_store_def timers_init_def)
  then have "timer_reach (0, fst (timer_arm 0 5000 7 (fst (timer_arm 0 1000 3 timers_init))), \<lambda>_. Not_arming, {} - {7})"
    by (rule arm_reach [where ?s1.0 = "(fst (timer_arm 0 1000 3 timers_init))\<lparr>timer_deadline := (timer_deadline (fst (timer_arm 0 1000 3 timers_init)))(7 := 5000)\<rparr>"])
      (simp_all add: timers_demo_defs bit_simps)
  then show ?thesis by (simp add: timers_demo_def)
qed

theorem timers_never_missed_witness:
  "irq_pending (clock_tick 0 2000 timers_demo) \<or>
    timer_deadline (clock_tick 0 2000 timers_demo) 3 = 2000 \<and> ts_lo 2000 = 0xffffffff"
proof (rule timers_never_missed)
  have h: "ts_hi 2000 < 0xffffffff" by code_simp
  show "timer_reach (2000, clock_tick 0 2000 timers_demo, \<lambda>_. Not_arming, {})"
    by (rule timer_reach.step [OF timers_demo_reach timer_step.tick]) (simp_all add: h)
  show "bit (timer_running (clock_tick 0 2000 timers_demo)) 3"
    "timer_deadline (clock_tick 0 2000 timers_demo) 3 \<le> 2000"
    using timers_demo_running [of 3] timers_demo_deadline by (simp_all add: clock_tick_def)
qed (simp_all add: between_mark_and_test_def)

lemma process_timers_exact_witness:
  "\<exists>t' s'. process_timers False 0 [(2000, 2001), (2001, 2002), (2003, 2004)] timers_demo = (0, Some (t', s')) \<and>
     \<not> bit (timer_running s') 3 \<and> 3 \<in> set (posted s')"
proof -
  have h: "ts_hi 2001 < 0xffffffff" "ts_hi 2002 < 0xffffffff" "ts_hi 2004 < 0xffffffff" by code_simp+
  have b: "bits_of (timer_running timers_demo) = {3, 7}" using timers_demo_running by (auto simp: bits_of_def)
  have c: "clock_ok 2000 [(2000, 2001), (2001, 2002), (2003, 2004)]" by (simp add: h)
  have n: "card (bits_of (timer_running timers_demo)) < length [(2000 :: u64, 2001 :: u64), (2001, 2002), (2003, 2004)]"
    by (simp add: b)
  obtain t' s' where r: "process_timers False 0 [(2000, 2001), (2001, 2002), (2003, 2004)] timers_demo = (0, Some (t', s'))"
    "2000 \<le> t'" "\<forall>i. bit (timer_running s') i \<longleftrightarrow> bit (timer_running timers_demo) i \<and> t' < timer_deadline timers_demo i"
    "set (posted s') = set (posted timers_demo) \<union> {i. bit (timer_running timers_demo) i \<and> timer_deadline timers_demo i \<le> t'}"
    using process_timers_exact [OF c n, of False 0] by auto
  have "(1000 :: u64) \<le> t'" using r(2) by (rule order.trans [rotated]) simp
  then show ?thesis using r timers_demo_running [of 3] timers_demo_deadline
    by (intro exI [of _ t'] exI [of _ s']) (simp add: not_less)
qed

text \<open>
  \<open>timer_arm\<close> reads the clock before it marks its timer running. When the interrupt of an
  overflow is handled in between, the reading is of the old epoch, and a deadline of the new one does
  not raise the interrupt again: with no other timer the hardware has no event, and the timer is
  covered by nothing before the next overflow, 71 minutes later.
\<close>

lemma timer_arm_stale:
  assumes "ts_hi now < ts_hi event" "\<not> bit (timer_running s) i" "i < 32" "ts_hi t = ts_hi event"
    and "ts_lo event \<noteq> 0xffffffff" "hw_event s = None" "\<not> irq_pending s"
  shows "\<not> irq_pending (fst (timer_arm now event i s)) \<and> \<not> covered t (fst (timer_arm now event i s)) \<and>
    snd (timer_arm now event i s) = EC_SUCCESS"
  using assms by (auto simp: timer_arm_def arm_store_def arm_mark_def arm_trigger_def covered_def bit_simps)

end
