(* ===== verification/Tasks.thy ===== *)
theory Tasks
  imports TaskBitmap
begin

section \<open>The task scheduler, core/cortex-m/task.c\<close>

text \<open>
  The scheduler runs the task of the highest number that is ready and enabled. A task is made ready by
  an event, and stops being ready when it waits with no event left. The model has the scheduling state,
  the operations on it, and a step relation at the granularity of the code's atomic operations:
  \<open>task_set_event\<close> is two steps, with interrupts and other tasks in between, and so is each
  turn of the loop of \<open>__wait_evt\<close>. Without \<open>CONFIG_TASK_PROFILING\<close>; the switch
  of stacks (\<open>__switchto\<close>) is not modelled. A failed \<open>ASSERT\<close> is \<open>None\<close>.
\<close>

subsection \<open>State and operations\<close>

definition TASK_ID_IDLE :: nat where "TASK_ID_IDLE = 0"
definition TASK_ID_HOOKS :: nat where "TASK_ID_HOOKS = 1"

text \<open>
  \<open>current_task\<close> is \<open>None\<close> for the scratchpad, before the first switch.
  \<open>unscheduled\<close> is not in the code: it notes that the set of enabled tasks changed and the
  code did not look for the task to run.
\<close>

record sched =
  current_task :: "nat option"
  tasks_ready :: u32
  tasks_enabled :: u32
  task_events :: "nat \<Rightarrow> u32"
  need_resched :: bool
  unscheduled :: bool

definition sched_init :: sched where
  "sched_init = \<lparr>current_task = None, tasks_ready = BITN TASK_ID_HOOKS,
     tasks_enabled = BITN TASK_ID_HOOKS OR BITN TASK_ID_IDLE, task_events = \<lambda>_. 0, need_resched = False, unscheduled = False\<rparr>"

definition svc_handler :: "bool \<Rightarrow> nat \<Rightarrow> sched \<Rightarrow> sched option" where
  "svc_handler desched resched s =
     do {
       ready \<leftarrow> (case current_task s of
           Some c \<Rightarrow> Some (if desched \<and> task_events s c = 0 then tasks_ready s AND NOT (BITN c) else tasks_ready s)
         | None \<Rightarrow> if desched then None else Some (tasks_ready s));
       let ready1 = ready OR BITN resched;
       if ready1 AND tasks_enabled s = 0 then None
       else Some (s\<lparr>tasks_ready := ready1, need_resched := False,
                    current_task := Some (fls (ready1 AND tasks_enabled s)), unscheduled := False\<rparr>)
     }"

definition task_resched_if_needed :: "bool \<Rightarrow> sched \<Rightarrow> sched option" where
  "task_resched_if_needed nested s =
     (if \<not> need_resched s \<or> nested then Some s else svc_handler False 0 s)"

text \<open>\<open>task_set_event\<close>: the event first, then, by where it is called, the receiver's ready bit.\<close>

definition set_event_post :: "nat \<Rightarrow> u32 \<Rightarrow> sched \<Rightarrow> sched" where
  "set_event_post tskid event s = s\<lparr>task_events := (task_events s)(tskid := task_events s tskid OR event)\<rparr>"

definition set_event_ready :: "nat \<Rightarrow> sched \<Rightarrow> sched" where
  "set_event_ready tskid s = s\<lparr>tasks_ready := tasks_ready s OR BITN tskid, need_resched := True\<rparr>"

definition task_set_event :: "bool \<Rightarrow> nat \<Rightarrow> u32 \<Rightarrow> sched \<Rightarrow> sched option" where
  "task_set_event irq_or_masked tskid event s =
     (let s1 = set_event_post tskid event s
      in if irq_or_masked then Some (set_event_ready tskid s1) else svc_handler False tskid s1)"

text \<open>A turn of the loop of \<open>__wait_evt\<close>: the events are taken, or the task gives up the CPU.\<close>

definition wait_evt_take :: "nat \<Rightarrow> sched \<Rightarrow> u32 \<times> sched" where
  "wait_evt_take me s = (task_events s me, s\<lparr>task_events := (task_events s)(me := 0)\<rparr>)"

definition wait_evt_sleep :: "nat \<Rightarrow> sched \<Rightarrow> sched option" where
  "wait_evt_sleep resched s = svc_handler True resched s"

definition all_tasks :: "nat \<Rightarrow> u32" where "all_tasks count = BITN count - 1"

definition task_enable_all_tasks :: "nat \<Rightarrow> bool \<Rightarrow> sched \<Rightarrow> sched option" where
  "task_enable_all_tasks count interrupts s =
     (let s1 = s\<lparr>tasks_ready := all_tasks count, tasks_enabled := all_tasks count, unscheduled := True\<rparr>
      in if interrupts then svc_handler False 0 s1 else Some s1)"

definition task_enable_task :: "nat \<Rightarrow> sched \<Rightarrow> sched" where
  "task_enable_task tskid s = s\<lparr>tasks_enabled := tasks_enabled s OR BITN tskid, unscheduled := True\<rparr>"

definition task_enabled :: "nat \<Rightarrow> sched \<Rightarrow> bool" where
  "task_enabled tskid s = (tasks_enabled s AND BITN tskid \<noteq> 0)"

definition task_disable_task :: "bool \<Rightarrow> nat \<Rightarrow> sched \<Rightarrow> sched option" where
  "task_disable_task irq_or_masked tskid s =
     (let s1 = s\<lparr>tasks_enabled := tasks_enabled s AND NOT (BITN tskid)\<rparr>
      in if \<not> irq_or_masked \<and> current_task s = Some tskid then svc_handler False 0 s1
         else Some (s1\<lparr>unscheduled := unscheduled s \<or> current_task s = Some tskid\<rparr>))"

text \<open>\<open>task_start\<close>: the first scheduling call, from the scratchpad.\<close>

definition task_start :: "sched \<Rightarrow> sched option" where
  "task_start s = svc_handler False 0 s"

subsection \<open>Steps\<close>

text \<open>
  Where each task is: in code of its own; in \<open>task_set_event\<close> after the event was posted; in
  \<open>__wait_evt\<close> after no event was found. The interrupts being served, the innermost first, each
  either in code of its own or in \<open>task_set_event\<close>.
\<close>

datatype task_pc = Run | Posted nat | Sleeping nat

record tsys =
  sch :: sched
  pc :: "nat \<Rightarrow> task_pc"
  irqs :: "nat option list"

text \<open>
  A step of task \<open>c\<close>, which runs when no interrupt is served, or of the innermost interrupt.
  \<open>count\<close> is \<open>TASK_ID_COUNT\<close>. The idle task does not wait and is not disabled.
\<close>

definition is_running :: "tsys \<Rightarrow> nat \<Rightarrow> bool" where
  "is_running k c \<longleftrightarrow> irqs k = [] \<and> current_task (sch k) = Some c"

inductive task_step :: "nat \<Rightarrow> tsys \<Rightarrow> tsys \<Rightarrow> bool" for count where
  post: "is_running k c \<Longrightarrow> pc k c = Run \<Longrightarrow> r < count \<Longrightarrow>
    task_step count k (k\<lparr>sch := set_event_post r ev (sch k), pc := (pc k)(c := Posted r)\<rparr>)"
| ready: "is_running k c \<Longrightarrow> pc k c = Posted r \<Longrightarrow> svc_handler False r (sch k) = Some s \<Longrightarrow>
    task_step count k (k\<lparr>sch := s, pc := (pc k)(c := Run)\<rparr>)"
| ready_masked: "is_running k c \<Longrightarrow> pc k c = Posted r \<Longrightarrow>
    task_step count k (k\<lparr>sch := set_event_ready r (sch k), pc := (pc k)(c := Run)\<rparr>)"
| take: "is_running k c \<Longrightarrow> pc k c = Run \<Longrightarrow> c \<noteq> TASK_ID_IDLE \<Longrightarrow> r < count \<Longrightarrow> wait_evt_take c (sch k) = (evt, s) \<Longrightarrow>
    task_step count k (k\<lparr>sch := s, pc := (pc k)(c := if evt = 0 then Sleeping r else Run)\<rparr>)"
| sleep: "is_running k c \<Longrightarrow> pc k c = Sleeping r \<Longrightarrow> wait_evt_sleep r (sch k) = Some s \<Longrightarrow>
    task_step count k (k\<lparr>sch := s, pc := (pc k)(c := Run)\<rparr>)"
| own: "is_running k c \<Longrightarrow> task_step count k (k\<lparr>sch := (sch k)\<lparr>task_events := (task_events (sch k))(c := e)\<rparr>\<rparr>)"
| enable_all: "is_running k c \<Longrightarrow> task_enable_all_tasks count interrupts (sch k) = Some s \<Longrightarrow>
    task_step count k (k\<lparr>sch := s\<rparr>)"
| enable: "t < count \<Longrightarrow> task_step count k (k\<lparr>sch := task_enable_task t (sch k)\<rparr>)"
| disable: "t < count \<Longrightarrow> t \<noteq> TASK_ID_IDLE \<Longrightarrow> masked \<or> irqs k = [] \<Longrightarrow>
    task_disable_task masked t (sch k) = Some s \<Longrightarrow> task_step count k (k\<lparr>sch := s\<rparr>)"
| irq_enter: "task_step count k (k\<lparr>irqs := None # irqs k\<rparr>)"
| irq_post: "irqs k = None # is \<Longrightarrow> r < count \<Longrightarrow>
    task_step count k (k\<lparr>sch := set_event_post r ev (sch k), irqs := Some r # is\<rparr>)"
| irq_ready: "irqs k = Some r # is \<Longrightarrow>
    task_step count k (k\<lparr>sch := set_event_ready r (sch k), irqs := None # is\<rparr>)"
| irq_exit: "irqs k = None # is \<Longrightarrow> task_resched_if_needed (is \<noteq> []) (sch k) = Some s \<Longrightarrow>
    task_step count k (k\<lparr>sch := s, irqs := is\<rparr>)"

inductive task_reach :: "nat \<Rightarrow> tsys \<Rightarrow> bool" for count where
  start: "task_start sched_init = Some s \<Longrightarrow> task_reach count \<lparr>sch = s, pc = \<lambda>_. Run, irqs = []\<rparr>"
| step: "task_reach count k \<Longrightarrow> task_step count k k' \<Longrightarrow> task_reach count k'"

subsection \<open>The invariant\<close>

lemma fls_eqI: "bit w c \<Longrightarrow> (\<And>j. bit w j \<Longrightarrow> j \<le> c) \<Longrightarrow> fls w = c"
  using fls_bit [of w] by (metis antisym bit_0_eq bot_apply bot_bool_def)

lemma all_tasks_bit: "count < 32 \<Longrightarrow> bit (all_tasks count) i \<longleftrightarrow> i < count"
  by (auto simp: all_tasks_def BITN_def push_bit_eq_mult bit_simps simp flip: mask_eq_exp_minus_1)

definition pending_post :: "tsys \<Rightarrow> nat \<Rightarrow> bool" where
  "pending_post k t \<longleftrightarrow> (\<exists>c. pc k c = Posted t) \<or> Some t \<in> set (irqs k)"

text \<open>What the scheduler keeps, without the events.\<close>

definition sched_ok :: "nat \<Rightarrow> sched \<Rightarrow> bool" where
  "sched_ok count s \<longleftrightarrow>
     bit (tasks_ready s) TASK_ID_IDLE \<and> bit (tasks_enabled s) TASK_ID_IDLE \<and>
     (\<forall>t. bit (tasks_ready s) t \<longrightarrow> t < count) \<and>
     (\<exists>c. current_task s = Some c \<and> bit (tasks_ready s) c \<and>
        (\<not> need_resched s \<and> \<not> unscheduled s \<longrightarrow>
          bit (tasks_enabled s) c \<and> (\<forall>j. bit (tasks_ready s) j \<and> bit (tasks_enabled s) j \<longrightarrow> j \<le> c)))"

definition tsys_inv :: "nat \<Rightarrow> tsys \<Rightarrow> bool" where
  "tsys_inv count k \<longleftrightarrow> sched_ok count (sch k) \<and>
     (\<forall>r. pc k TASK_ID_IDLE \<noteq> Sleeping r) \<and>
     (\<forall>c r. pc k c = Posted r \<or> pc k c = Sleeping r \<or> Some r \<in> set (irqs k) \<longrightarrow> r < count) \<and>
     (\<forall>t. task_events (sch k) t \<noteq> 0 \<longrightarrow> bit (tasks_ready (sch k)) t \<or> pending_post k t)"

lemma svc_handler_ok:
  assumes "sched_ok count s" "r < count" "count < 32" "desched \<Longrightarrow> current_task s \<noteq> Some TASK_ID_IDLE"
  shows "\<exists>s'. svc_handler desched r s = Some s' \<and> sched_ok count s' \<and>
    \<not> need_resched s' \<and> \<not> unscheduled s' \<and> task_events s' = task_events s \<and>
    bit (tasks_ready s') r \<and>
    (\<forall>t. bit (tasks_ready s) t \<and> (task_events s t \<noteq> 0 \<or> \<not> desched) \<longrightarrow> bit (tasks_ready s') t)"
proof -
  obtain c where c: "current_task s = Some c" "bit (tasks_ready s) c" "c < count"
    using assms(1) by (auto simp: sched_ok_def)
  let ?ready = "if desched \<and> task_events s c = 0 then tasks_ready s AND NOT (BITN c) else tasks_ready s"
  let ?w = "(?ready OR BITN r) AND tasks_enabled s"
  let ?s = "s\<lparr>tasks_ready := ?ready OR BITN r, need_resched := False, current_task := Some (fls ?w), unscheduled := False\<rparr>"
  have i: "bit ?w TASK_ID_IDLE"
    using assms(1,4) c by (auto simp: sched_ok_def bit_simps TASK_ID_IDLE_def)
  then have nz: "?w \<noteq> 0" by (metis bit_0_eq bot_apply bot_bool_def)
  have r: "bit (?ready OR BITN r) t \<longleftrightarrow> bit ?ready t \<or> t = r" for t
    using assms(2,3) by (auto simp: bit_simps)
  have sub: "bit ?ready t \<Longrightarrow> bit (tasks_ready s) t" for t by (auto simp: bit_simps split: if_splits)
  have keep: "bit (tasks_ready s) t \<and> (task_events s t \<noteq> 0 \<or> \<not> desched) \<Longrightarrow> bit ?ready t" for t
    using bit_below [of "tasks_ready s" t] by (auto simp: bit_simps)
  have "svc_handler desched r s = Some ?s" using c nz by (simp add: svc_handler_def Let_def)
  moreover have "sched_ok count ?s"
    using assms(1,2) i r sub fls_bit [OF nz] unfolding sched_ok_def by (simp add: bit_and_iff)
  ultimately show ?thesis using r keep by auto
qed

lemma set_event_ready_ok: "sched_ok count s \<Longrightarrow> r < count \<Longrightarrow> sched_ok count (set_event_ready r s)"
  by (auto simp: sched_ok_def set_event_ready_def bit_simps)

lemma sched_ok_events [simp]: "sched_ok count (s\<lparr>task_events := e\<rparr>) = sched_ok count s"
  by (simp add: sched_ok_def)

lemma enable_ok: "sched_ok count s \<Longrightarrow> sched_ok count (task_enable_task t s)"
  by (auto simp: sched_ok_def task_enable_task_def bit_simps)

lemma enable_all_ok:
  assumes "sched_ok count s" "2 \<le> count" "count < 32" "task_enable_all_tasks count interrupts s = Some s'"
  shows "sched_ok count s' \<and> task_events s' = task_events s \<and> (\<forall>t < count. bit (tasks_ready s') t)"
proof -
  let ?s = "s\<lparr>tasks_ready := all_tasks count, tasks_enabled := all_tasks count, unscheduled := True\<rparr>"
  have ok: "sched_ok count ?s"
    using assms(1-3) by (auto simp: sched_ok_def all_tasks_bit TASK_ID_IDLE_def)
  show ?thesis
  proof (cases interrupts)
    case True
    then show ?thesis
      using svc_handler_ok [OF ok, of 0 False] assms(2-4) by (auto simp: task_enable_all_tasks_def all_tasks_bit)
  next
    case False
    then show ?thesis using ok assms(3,4) by (auto simp: task_enable_all_tasks_def all_tasks_bit)
  qed
qed

lemma disable_ok:
  assumes "sched_ok count s" "t \<noteq> TASK_ID_IDLE" "count < 32" "task_disable_task masked t s = Some s'"
  shows "sched_ok count s' \<and> task_events s' = task_events s \<and>
    (\<forall>t. bit (tasks_ready s) t \<longrightarrow> bit (tasks_ready s') t)"
proof (cases "\<not> masked \<and> current_task s = Some t")
  case True
  let ?s = "s\<lparr>tasks_enabled := tasks_enabled s AND NOT (BITN t), unscheduled := True\<rparr>"
  have ok: "sched_ok count ?s"
    using assms(1,2) by (auto simp: sched_ok_def bit_simps TASK_ID_IDLE_def)
  have z: "0 < count" using assms(1) by (auto simp: sched_ok_def TASK_ID_IDLE_def)
  have "svc_handler False 0 ?s = svc_handler False 0 (s\<lparr>tasks_enabled := tasks_enabled s AND NOT (BITN t)\<rparr>)"
    using True by (simp add: svc_handler_def Let_def)
  then show ?thesis
    using svc_handler_ok [OF ok z assms(3), of False] True assms(4) by (auto simp: task_disable_task_def Let_def)
next
  case False
  then show ?thesis
    using assms bit_below [of "tasks_ready s"]
    by (auto simp: task_disable_task_def Let_def sched_ok_def bit_simps TASK_ID_IDLE_def)
qed

lemma is_running_ready: "is_running k c \<Longrightarrow> sched_ok count (sch k) \<Longrightarrow> bit (tasks_ready (sch k)) c"
  by (auto simp: is_running_def sched_ok_def)

lemma pending_post_simps [simp]:
  "pending_post (k\<lparr>sch := s\<rparr>) t = pending_post k t"
  "pending_post (k\<lparr>sch := s, irqs := i # irqs k\<rparr>) t \<longleftrightarrow> i = Some t \<or> pending_post k t"
  "pending_post (k\<lparr>irqs := i # irqs k\<rparr>) t \<longleftrightarrow> i = Some t \<or> pending_post k t"
  by (auto simp: pending_post_def)

lemma pending_post_pc:
  "pending_post (k\<lparr>sch := s, pc := (pc k)(c := x)\<rparr>) t \<longleftrightarrow>
     x = Posted t \<or> (\<exists>c'. c' \<noteq> c \<and> pc k c' = Posted t) \<or> Some t \<in> set (irqs k)"
  by (auto simp: pending_post_def)

lemma pending_post_here: "pending_post (k\<lparr>sch := s, pc := (pc k)(c := Posted t)\<rparr>) t"
  by (simp add: pending_post_pc)

lemma pending_post_other:
  "pending_post k t \<Longrightarrow> pc k c \<noteq> Posted t \<Longrightarrow> (\<exists>c'. c' \<noteq> c \<and> pc k c' = Posted t) \<or> Some t \<in> set (irqs k)"
  by (auto simp: pending_post_def)

lemma pending_post_keep:
  "pc k c \<noteq> Posted t \<Longrightarrow> pending_post k t \<Longrightarrow> pending_post (k\<lparr>sch := s, pc := (pc k)(c := x)\<rparr>) t"
  unfolding pending_post_pc using pending_post_other by blast

lemma task_step_inv:
  assumes "task_step count k k'" "tsys_inv count k" "2 \<le> count" "count < 32"
  shows "tsys_inv count k'"
  using assms
proof (induction rule: task_step.induct)
  case (post k c r ev)
  have keep: "pending_post k t \<Longrightarrow> pending_post (k\<lparr>sch := s, pc := (pc k)(c := x)\<rparr>) t" for t s x
    using pending_post_keep [of k c] post.hyps(2) by auto
  show ?case
    using post.prems(1) post.hyps(3) keep pending_post_here by (auto simp: tsys_inv_def set_event_post_def)
next
  case (ready k c r s)
  have r: "r < count" and ok: "sched_ok count (sch k)" using ready by (auto simp: tsys_inv_def)
  have keep: "t \<noteq> r \<Longrightarrow> pending_post k t \<Longrightarrow> pending_post (k\<lparr>sch := s, pc := (pc k)(c := Run)\<rparr>) t" for t
    using pending_post_keep [of k c] ready.hyps(2) by auto
  have s: "sched_ok count s" "task_events s = task_events (sch k)"
    and n: "bit (tasks_ready s) r" "\<And>t. bit (tasks_ready (sch k)) t \<Longrightarrow> bit (tasks_ready s) t"
    using svc_handler_ok [OF ok r ready.prems(3), of False] ready.hyps(3) by auto
  have "bit (tasks_ready s) t \<or> pending_post (k\<lparr>sch := s, pc := (pc k)(c := Run)\<rparr>) t"
    if "bit (tasks_ready (sch k)) t \<or> pending_post k t" for t
    using that n keep [of t] by (cases "t = r") auto
  note s = s this
  then show ?case using ready.prems(1) by (auto simp: tsys_inv_def)
next
  case (ready_masked k c r)
  have r: "r < count" using ready_masked by (auto simp: tsys_inv_def)
  have r: "r < count" "r < 32" using r ready_masked.prems(3) by simp_all
  have keep: "t \<noteq> r \<Longrightarrow> pending_post k t \<Longrightarrow>
      pending_post (k\<lparr>sch := set_event_ready r (sch k), pc := (pc k)(c := Run)\<rparr>) t" for t
    using pending_post_keep [of k c] ready_masked.hyps(2) by auto
  have "sched_ok count (set_event_ready r (sch k))" "task_events (set_event_ready r (sch k)) = task_events (sch k)"
    "\<forall>t. bit (tasks_ready (set_event_ready r (sch k))) t \<longleftrightarrow> bit (tasks_ready (sch k)) t \<or> t = r"
    using ready_masked set_event_ready_ok [of count "sch k" r] r
    by (auto simp: tsys_inv_def set_event_ready_def bit_simps)
  then have s: "sched_ok count (set_event_ready r (sch k))" "task_events (set_event_ready r (sch k)) = task_events (sch k)"
    "\<And>t. bit (tasks_ready (sch k)) t \<or> pending_post k t \<Longrightarrow> bit (tasks_ready (set_event_ready r (sch k))) t \<or>
       pending_post (k\<lparr>sch := set_event_ready r (sch k), pc := (pc k)(c := Run)\<rparr>) t"
    using keep by blast+
  then show ?case using ready_masked.prems(1) by (auto simp: tsys_inv_def)
next
  case (take k c r evt s)
  have s: "s = (sch k)\<lparr>task_events := (task_events (sch k))(c := 0)\<rparr>" using take.hyps by (simp add: wait_evt_take_def)
  have keep: "pending_post k t \<Longrightarrow> pending_post (k\<lparr>sch := s, pc := (pc k)(c := x)\<rparr>) t" for t x
    using pending_post_keep [of k c] take.hyps(2) by auto
  then show ?case using take.prems(1) take.hyps(3,4) unfolding s by (auto simp: tsys_inv_def)
next
  case (sleep k c r s)
  have r: "r < count" and ok: "sched_ok count (sch k)" using sleep by (auto simp: tsys_inv_def)
  have c: "current_task (sch k) \<noteq> Some TASK_ID_IDLE" using sleep by (auto simp: tsys_inv_def is_running_def)
  have keep: "pending_post k t \<Longrightarrow> pending_post (k\<lparr>sch := s, pc := (pc k)(c := Run)\<rparr>) t" for t
    using pending_post_keep [of k c] sleep.hyps(2) by auto
  obtain s' where "svc_handler True r (sch k) = Some s'" "sched_ok count s'" "task_events s' = task_events (sch k)"
    "\<forall>t. bit (tasks_ready (sch k)) t \<and> task_events (sch k) t \<noteq> 0 \<longrightarrow> bit (tasks_ready s') t"
    using svc_handler_ok [OF ok r sleep.prems(3), of True] c by auto
  moreover have "s' = s" using calculation sleep.hyps(3) by (simp add: wait_evt_sleep_def)
  ultimately show ?case using sleep.prems(1) keep by (auto simp: tsys_inv_def)
next
  case (own k c e)
  then show ?case using is_running_ready [of k c count] by (auto simp: tsys_inv_def pending_post_def)
next
  case (enable_all k c interrupts s)
  then have ok: "sched_ok count (sch k)" by (simp add: tsys_inv_def)
  have s: "sched_ok count s" "task_events s = task_events (sch k)" and r: "\<forall>t < count. bit (tasks_ready s) t"
    using enable_all_ok [OF ok enable_all.prems(2,3) enable_all.hyps(2)] by simp_all
  have "bit (tasks_ready (sch k)) t \<Longrightarrow> bit (tasks_ready s) t" for t using ok r by (simp add: sched_ok_def)
  then show ?case using enable_all.prems(1) s unfolding tsys_inv_def by fastforce
next
  case (enable t k)
  then show ?case using enable_ok [of count "sch k" t] by (auto simp: tsys_inv_def pending_post_def task_enable_task_def)
next
  case (disable t masked k s)
  then show ?case using disable_ok [of count "sch k" t masked s] by (auto simp: tsys_inv_def pending_post_def)
next
  case (irq_enter k)
  then show ?case by (auto simp: tsys_inv_def pending_post_def)
next
  case (irq_post k "is" r ev)
  then show ?case by (auto simp: tsys_inv_def set_event_post_def pending_post_def)
next
  case (irq_ready k r "is")
  have r: "r < count" using irq_ready by (auto simp: tsys_inv_def)
  have r: "r < count" "r < 32" using r irq_ready.prems(3) by simp_all
  have keep: "t \<noteq> r \<Longrightarrow> pending_post k t \<Longrightarrow>
      pending_post (k\<lparr>sch := set_event_ready r (sch k), irqs := None # is\<rparr>) t" for t
    using irq_ready.hyps by (auto simp: pending_post_def)
  have "sched_ok count (set_event_ready r (sch k))" "task_events (set_event_ready r (sch k)) = task_events (sch k)"
    "\<forall>t. bit (tasks_ready (set_event_ready r (sch k))) t \<longleftrightarrow> bit (tasks_ready (sch k)) t \<or> t = r"
    using irq_ready set_event_ready_ok [of count "sch k" r] r
    by (auto simp: tsys_inv_def set_event_ready_def bit_simps)
  then have s: "sched_ok count (set_event_ready r (sch k))" "task_events (set_event_ready r (sch k)) = task_events (sch k)"
    "\<And>t. bit (tasks_ready (sch k)) t \<or> pending_post k t \<Longrightarrow> bit (tasks_ready (set_event_ready r (sch k))) t \<or>
       pending_post (k\<lparr>sch := set_event_ready r (sch k), irqs := None # is\<rparr>) t"
    using keep by blast+
  then show ?case using irq_ready.prems(1) irq_ready.hyps by (auto simp: tsys_inv_def)
next
  case (irq_exit k "is" s)
  have ok: "sched_ok count (sch k)" "0 < count" using irq_exit by (auto simp: tsys_inv_def)
  have "sched_ok count s \<and> task_events s = task_events (sch k) \<and>
    (\<forall>t. bit (tasks_ready (sch k)) t \<longrightarrow> bit (tasks_ready s) t)"
    using svc_handler_ok [OF ok irq_exit.prems(3), of False] irq_exit.hyps(2) ok
    by (auto simp: task_resched_if_needed_def split: if_splits)
  then show ?case using irq_exit by (auto simp: tsys_inv_def pending_post_def)
qed

lemma task_start_state:
  "task_start sched_init = Some (sched_init\<lparr>current_task := Some TASK_ID_HOOKS, tasks_ready := BITN TASK_ID_HOOKS OR BITN TASK_ID_IDLE\<rparr>)"
  "bit (tasks_ready sched_init OR BITN TASK_ID_IDLE) i \<longleftrightarrow> i = TASK_ID_IDLE \<or> i = TASK_ID_HOOKS"
proof -
  let ?w = "(BITN TASK_ID_HOOKS OR BITN TASK_ID_IDLE) AND (BITN TASK_ID_HOOKS OR BITN TASK_ID_IDLE)"
  have b: "bit ?w i \<longleftrightarrow> i = TASK_ID_IDLE \<or> i = TASK_ID_HOOKS" for i
    by (auto simp: bit_simps TASK_ID_IDLE_def TASK_ID_HOOKS_def)
  have "fls ?w = TASK_ID_HOOKS" by (rule fls_eqI) (use b in \<open>auto simp: TASK_ID_IDLE_def\<close>)
  moreover have "?w \<noteq> 0" using b [of TASK_ID_HOOKS] by auto
  ultimately show "task_start sched_init = Some (sched_init\<lparr>current_task := Some TASK_ID_HOOKS, tasks_ready := BITN TASK_ID_HOOKS OR BITN TASK_ID_IDLE\<rparr>)"
    by (simp add: task_start_def svc_handler_def sched_init_def Let_def TASK_ID_IDLE_def)
  show "bit (tasks_ready sched_init OR BITN TASK_ID_IDLE) i \<longleftrightarrow> i = TASK_ID_IDLE \<or> i = TASK_ID_HOOKS"
    using b by (simp add: sched_init_def)
qed

lemma task_reach_inv:
  assumes "task_reach count k" "2 \<le> count" "count < 32"
  shows "tsys_inv count k"
  using assms
proof (induction rule: task_reach.induct)
  case (start s)
  have s: "s = sched_init\<lparr>current_task := Some TASK_ID_HOOKS, tasks_ready := BITN TASK_ID_HOOKS OR BITN TASK_ID_IDLE\<rparr>"
    using start.hyps task_start_state(1) by simp
  show ?case
    using start.prems unfolding tsys_inv_def sched_ok_def s
    by (auto simp: sched_init_def bit_simps TASK_ID_IDLE_def TASK_ID_HOOKS_def)
next
  case (step k k')
  then show ?case using task_step_inv by blast
qed

subsection \<open>Properties of the scheduler\<close>

text \<open>
  C37: no wake-up is lost: after any interleaving of tasks and nested interrupts, a task with an event
  is ready, or the one who posted the event is still in \<open>task_set_event\<close> and makes it ready. In
  particular an event that arrives after the wait loop looked and before it gives up the CPU keeps the
  task ready.
\<close>

theorem task_events_not_lost:
  assumes "task_reach count k" "2 \<le> count" "count < 32" "task_events (sch k) t \<noteq> 0"
  shows "bit (tasks_ready (sch k)) t \<or> (\<exists>c. pc k c = Posted t) \<or> Some t \<in> set (irqs k)"
  using task_reach_inv [OF assms(1-3)] assms(4) by (auto simp: tsys_inv_def pending_post_def)

text \<open>
  C38: the assertions of the scheduler never fail, and the processor goes to the highest number: whoever
  calls it, in a state that can be reached, it returns, and the task that runs is then ready and enabled,
  and no ready and enabled task has a higher number. As long as no event was posted and no task was
  enabled or disabled without a scheduling call, this holds of the running task at any time.
\<close>

theorem scheduler_runs_highest:
  assumes "task_reach count k" "2 \<le> count" "count < 32"
  shows "(\<exists>c. current_task (sch k) = Some c \<and> bit (tasks_ready (sch k)) c \<and>
      (\<not> need_resched (sch k) \<and> \<not> unscheduled (sch k) \<longrightarrow> bit (tasks_enabled (sch k)) c \<and>
        (\<forall>j. bit (tasks_ready (sch k)) j \<and> bit (tasks_enabled (sch k)) j \<longrightarrow> j \<le> c))) \<and>
    (\<forall>desched r. r < count \<and> (desched \<longrightarrow> current_task (sch k) \<noteq> Some TASK_ID_IDLE) \<longrightarrow>
      (\<exists>s c. svc_handler desched r (sch k) = Some s \<and> current_task s = Some c \<and> bit (tasks_ready s) c \<and>
        bit (tasks_enabled s) c \<and> (\<forall>j. bit (tasks_ready s) j \<and> bit (tasks_enabled s) j \<longrightarrow> j \<le> c)))"
proof -
  have ok: "sched_ok count (sch k)" using task_reach_inv [OF assms] by (simp add: tsys_inv_def)
  moreover have "\<exists>s c. svc_handler desched r (sch k) = Some s \<and> current_task s = Some c \<and> bit (tasks_ready s) c \<and>
      bit (tasks_enabled s) c \<and> (\<forall>j. bit (tasks_ready s) j \<and> bit (tasks_enabled s) j \<longrightarrow> j \<le> c)"
    if r: "r < count" and d: "desched \<longrightarrow> current_task (sch k) \<noteq> Some TASK_ID_IDLE" for desched r
  proof -
    obtain s where s: "svc_handler desched r (sch k) = Some s" "sched_ok count s" "\<not> need_resched s" "\<not> unscheduled s"
      using svc_handler_ok [OF ok r assms(3), of desched] d by auto
    then show ?thesis by (auto simp: sched_ok_def)
  qed
  ultimately show ?thesis unfolding sched_ok_def by blast
qed

subsection \<open>Waiting for some events\<close>

definition TASK_EVENT_TIMER :: u32 where "TASK_EVENT_TIMER = BITN 31"

text \<open>
  \<open>task_wait_event_mask\<close> over what each \<open>__wait_evt\<close> returns and the clock after it. The
  result: the events collected and the timeouts asked for. \<open>None\<close> is a wait that goes on.
\<close>

fun wait_mask_loop :: "u32 \<Rightarrow> int \<Rightarrow> u64 \<Rightarrow> u32 \<Rightarrow> int \<Rightarrow> (u32 \<times> u64) list \<Rightarrow> (u32 \<times> int list) option" where
  "wait_mask_loop event_mask timeout_us deadline evs time_remaining_us ws =
     (if evs AND event_mask \<noteq> 0 then Some (evs, [])
      else case ws of [] \<Rightarrow> None
      | (evt, now) # ws1 \<Rightarrow>
          let evs1 = evs OR evt;
              remaining1 = sint (ucast (deadline - now) :: u32)
          in if 0 < timeout_us \<and> remaining1 \<le> 0 then Some (evs1 OR TASK_EVENT_TIMER, [time_remaining_us])
             else do {
               (e, tos) \<leftarrow> wait_mask_loop event_mask timeout_us deadline evs1 remaining1 ws1;
               Some (e, time_remaining_us # tos)
             })"

declare wait_mask_loop.simps [simp del]

text \<open>The events returned, the events posted again to the task, and the timeouts of the waits.\<close>

definition task_wait_event_mask :: "u32 \<Rightarrow> int \<Rightarrow> u64 \<Rightarrow> (u32 \<times> u64) list \<Rightarrow> (u32 \<times> u32 \<times> int list) option" where
  "task_wait_event_mask events_wanted timeout_us now ws =
     (let event_mask = events_wanted OR TASK_EVENT_TIMER
      in do {
        (evs, tos) \<leftarrow> wait_mask_loop event_mask timeout_us (now + word_of_int timeout_us) 0 timeout_us ws;
        Some (evs AND event_mask, evs AND NOT event_mask, tos)
      })"

definition collected :: "(u32 \<times> u64) list \<Rightarrow> u32" where
  "collected ws = foldr (\<lambda>(evt, _) acc. evt OR acc) ws 0"

lemma collected_simps [simp]:
  "collected [] = 0" "collected ((evt, now) # ws) = evt OR collected ws"
  by (simp_all add: collected_def)

definition timed_out :: "int \<Rightarrow> u64 \<Rightarrow> (u32 \<times> u64) list \<Rightarrow> bool" where
  "timed_out timeout_us deadline ws \<longleftrightarrow>
     0 < timeout_us \<and> ws \<noteq> [] \<and> sint (ucast (deadline - snd (last ws)) :: u32) \<le> 0"

lemma wait_mask_loop_result:
  assumes "wait_mask_loop event_mask timeout_us deadline evs rem ws = Some (e, tos)"
  shows "length tos \<le> length ws \<and>
    (e = evs OR collected (take (length tos) ws) \<and> e AND event_mask \<noteq> 0 \<or>
     e = evs OR collected (take (length tos) ws) OR TASK_EVENT_TIMER \<and>
       timed_out timeout_us deadline (take (length tos) ws))"
  using assms
proof (induction event_mask timeout_us deadline evs rem ws arbitrary: e tos rule: wait_mask_loop.induct)
  case (1 event_mask timeout_us deadline evs rem ws)
  show ?case
  proof (cases "evs AND event_mask \<noteq> 0")
    case True
    then show ?thesis using 1(2) by (simp add: wait_mask_loop.simps)
  next
    case False
    then obtain evt now ws1 where ws: "ws = (evt, now) # ws1"
      using 1(2) by (cases ws) (auto simp: wait_mask_loop.simps)
    let ?rem = "sint (ucast (deadline - now) :: u32)"
    show ?thesis
    proof (cases "0 < timeout_us \<and> ?rem \<le> 0")
      case True
      then show ?thesis
        using 1(2) False by (auto simp: ws wait_mask_loop.simps [of _ _ _ _ _ "_ # _"] timed_out_def or.assoc)
    next
      case no: False
      then obtain tos1 where r: "wait_mask_loop event_mask timeout_us deadline (evs OR evt) ?rem ws1 = Some (e, tos1)"
        "tos = rem # tos1"
        using 1(2) False by (auto simp: ws wait_mask_loop.simps [of _ _ _ _ _ "_ # _"] Let_def split: bind_splits)
      have "timed_out timeout_us deadline (take (length tos1) ws1) \<Longrightarrow>
          timed_out timeout_us deadline ((evt, now) # take (length tos1) ws1)"
        by (auto simp: timed_out_def)
      then show ?thesis using 1(1) [OF _ ws refl refl refl no r(1)] False by (auto simp: ws r(2) or.assoc)
    qed
  qed
qed

lemma wait_mask_loop_returns:
  assumes "(evt, now) \<in> set ws" "evt AND event_mask \<noteq> 0"
  shows "\<exists>r. wait_mask_loop event_mask timeout_us deadline evs rem ws = Some r"
  using assms(1)
proof (induction ws arbitrary: evs rem)
  case (Cons w ws)
  obtain e n where w: "w = (e, n)" by (cases w)
  have "(evt OR x) AND event_mask \<noteq> 0" "(x OR evt) AND event_mask \<noteq> 0" for x
    using assms(2) by (auto simp: bit_eq_iff bit_simps)
  then have "wait_mask_loop event_mask timeout_us deadline (evs OR evt) rem' ws = Some (evs OR evt, [])" for rem'
    by (simp add: wait_mask_loop.simps)
  then have "\<exists>e' tos. wait_mask_loop event_mask timeout_us deadline (evs OR e) rem' ws = Some (e', tos)" for rem'
    using Cons.IH [of "evs OR e" rem'] Cons.prems w by auto
  then obtain e' tos where
    "wait_mask_loop event_mask timeout_us deadline (evs OR e) (sint (ucast (deadline - n) :: u32)) ws = Some (e', tos)"
    by blast
  then show ?case
    using w by (subst wait_mask_loop.simps) (simp add: Let_def)
qed simp

text \<open>
  Waiting for some events returns once one of them arrives, and no event is lost: it returns events
  that were asked for, or the timer event, at least one; the others that arrived during the waits are
  posted again; together they are what arrived, and the timer event if the timeout passed.
\<close>

lemma wait_mask_loses_nothing:
  assumes "(evt, t) \<in> set ws" "evt AND (m OR TASK_EVENT_TIMER) \<noteq> 0"
  shows "\<exists>ret repost tos. task_wait_event_mask m timeout_us now ws = Some (ret, repost, tos) \<and>
    ret \<noteq> 0 \<and> ret AND NOT (m OR TASK_EVENT_TIMER) = 0 \<and> repost AND (m OR TASK_EVENT_TIMER) = 0 \<and>
    (ret OR repost = collected (take (length tos) ws) \<or>
     ret OR repost = collected (take (length tos) ws) OR TASK_EVENT_TIMER \<and>
       timed_out timeout_us (now + word_of_int timeout_us) (take (length tos) ws))"
proof -
  let ?m = "m OR TASK_EVENT_TIMER"
  obtain e tos where l: "wait_mask_loop ?m timeout_us (now + word_of_int timeout_us) 0 timeout_us ws = Some (e, tos)"
    using wait_mask_loop_returns [OF assms] by fastforce
  have split: "(e AND ?m) OR (e AND NOT ?m) = e" "(e AND ?m) AND NOT ?m = 0" "(e AND NOT ?m) AND ?m = 0"
    by (auto simp: bit_eq_iff bit_simps)
  have "(x OR TASK_EVENT_TIMER) AND ?m \<noteq> 0" for x
  proof -
    have "bit ((x OR TASK_EVENT_TIMER) AND ?m) 31" by (simp add: bit_simps TASK_EVENT_TIMER_def)
    then show ?thesis by auto
  qed
  then have nz: "e AND ?m \<noteq> 0" using wait_mask_loop_result [OF l] by auto
  have r: "task_wait_event_mask m timeout_us now ws = Some (e AND ?m, e AND NOT ?m, tos)"
    using l by (simp add: task_wait_event_mask_def Let_def)
  show ?thesis
    by (rule exI [of _ "e AND ?m"], rule exI [of _ "e AND NOT ?m"], rule exI [of _ tos])
      (use r nz split wait_mask_loop_result [OF l] in \<open>simp only: or.left_neutral; blast\<close>)
qed

text \<open>
  A wait without a timeout (\<open>timeout_us\<close> not positive) can end with the timer event: each turn
  computes the time remaining to \<open>now + timeout_us\<close> in 32 bits, and when another event ends a
  wait more than 2^31 us after the start, that is positive, so the next wait sets a timer.
\<close>

lemma wait_mask_forever_sets_timer:
  "\<exists>rem. wait_mask_loop (m OR TASK_EVENT_TIMER) (-1) (now + word_of_int (-1)) 0 (-1)
      [(e, now + 0x80000000), (TASK_EVENT_TIMER, t)] = Some (e OR TASK_EVENT_TIMER, [-1, rem]) \<and> 0 < rem"
  if "e AND (m OR TASK_EVENT_TIMER) = 0"
proof -
  have d: "now + word_of_int (-1) - (now + 0x80000000) = - 0x80000001" by (simp add: algebra_simps)
  have "sint (ucast (- 0x80000001 :: u64) :: u32) = 0x7fffffff" by code_simp
  then have "sint (ucast (now + word_of_int (-1) - (now + 0x80000000)) :: u32) = 0x7fffffff" unfolding d .
  moreover have "(e OR TASK_EVENT_TIMER) AND (m OR TASK_EVENT_TIMER) \<noteq> 0"
  proof -
    have "bit ((e OR TASK_EVENT_TIMER) AND (m OR TASK_EVENT_TIMER)) 31" by (simp add: bit_simps TASK_EVENT_TIMER_def)
    then show ?thesis by auto
  qed
  ultimately show ?thesis using that by (simp add: wait_mask_loop.simps)
qed

subsection \<open>Instances\<close>

text \<open>The hooks task posts an event to task 5 and is about to make it ready.\<close>

definition demo_sched :: sched where
  "demo_sched = sched_init\<lparr>current_task := Some TASK_ID_HOOKS, tasks_ready := BITN TASK_ID_HOOKS OR BITN TASK_ID_IDLE\<rparr>"

definition demo_tsys :: tsys where
  "demo_tsys = \<lparr>sch = set_event_post 5 4 demo_sched, pc = (\<lambda>_. Run)(TASK_ID_HOOKS := Posted 5), irqs = []\<rparr>"

lemma demo_tsys_reach: "task_reach 10 demo_tsys"
proof -
  let ?k = "\<lparr>sch = demo_sched, pc = \<lambda>_. Run, irqs = []\<rparr>"
  have "task_reach 10 ?k" by (rule task_reach.start) (simp add: task_start_state(1) demo_sched_def)
  moreover have "task_step 10 ?k (?k\<lparr>sch := set_event_post 5 4 (sch ?k), pc := (pc ?k)(TASK_ID_HOOKS := Posted 5)\<rparr>)"
    by (rule task_step.post) (simp_all add: is_running_def demo_sched_def)
  ultimately have "task_reach 10 (?k\<lparr>sch := set_event_post 5 4 (sch ?k), pc := (pc ?k)(TASK_ID_HOOKS := Posted 5)\<rparr>)"
    by (rule task_reach.step)
  then show ?thesis by (simp add: demo_tsys_def)
qed

theorem task_events_not_lost_witness:
  "bit (tasks_ready (sch demo_tsys)) 5 \<or> (\<exists>c. pc demo_tsys c = Posted 5) \<or> Some 5 \<in> set (irqs demo_tsys)"
  by (rule task_events_not_lost [OF demo_tsys_reach]) (simp_all add: demo_tsys_def set_event_post_def demo_sched_def sched_init_def)

theorem scheduler_runs_highest_witness:
  "\<exists>s c. svc_handler False 5 (sch demo_tsys) = Some s \<and> current_task s = Some c \<and> bit (tasks_ready s) c \<and> bit (tasks_enabled s) c"
proof -
  have h: "2 \<le> (10 :: nat)" "(10 :: nat) < 32" by simp_all
  note p = conjunct2 [OF scheduler_runs_highest [OF demo_tsys_reach h]]
  have "5 < (10 :: nat) \<and> (False \<longrightarrow> current_task (sch demo_tsys) \<noteq> Some TASK_ID_IDLE)" by simp
  then show ?thesis using p by blast
qed

lemma wait_mask_loses_nothing_witness:
  "\<exists>ret repost tos. task_wait_event_mask 4 0 0 [(2, 10), (4, 20)] = Some (ret, repost, tos) \<and> ret \<noteq> 0"
proof -
  have "(4, 20) \<in> set [(2 :: u32, 10 :: u64), (4, 20)]" by simp
  moreover have "4 AND (4 OR TASK_EVENT_TIMER) \<noteq> 0" by code_simp
  ultimately show ?thesis using wait_mask_loses_nothing [of 4 20 "[(2, 10), (4, 20)]" 4 0 0] by blast
qed

end
