(* ===== verification/TaskMutex.thy ===== *)
theory TaskMutex
  imports Tasks
begin

section \<open>Mutexes of tasks, core/cortex-m/task.c\<close>

text \<open>
  \<open>mutex_lock\<close> and \<open>mutex_unlock\<close> of one mutex, as steps at the granularity of their
  atomic operations, of up to 32 tasks in any order. The state is the lock word, the bitmap of waiters
  and the event word of each task; each task has a label for where it is in the two functions. Other
  code, among it the other mutexes, posts events to any task at any time, and a task outside the two
  functions may change its own events.
\<close>

definition TASK_EVENT_MUTEX :: u32 where "TASK_EVENT_MUTEX = BITN 30"

text \<open>
  \<open>Trying\<close>: the waiter bit is set, at the top of the loop. \<open>Contended\<close>: the lock was
  taken, about to wait or waiting. \<open>Taken\<close>: the lock is this task's, its waiter bit is still
  set. \<open>Notifying w\<close>: unlocked, with the waiters \<open>w\<close> of the snapshot still to wake.
\<close>

datatype mutex_label = Outside | Trying | Contended | Taken | Holding | Notifying u32

record mutex =
  lock :: u32
  waiters :: u32
  mtx_events :: "nat \<Rightarrow> u32"
  at_label :: "nat \<Rightarrow> mutex_label"

definition mutex_init :: mutex where
  "mutex_init = \<lparr>lock = 0, waiters = 0, mtx_events = \<lambda>_. 0, at_label = \<lambda>_. Outside\<rparr>"

abbreviation at_put :: "nat \<Rightarrow> mutex_label \<Rightarrow> mutex \<Rightarrow> mutex" where
  "at_put t l m \<equiv> m\<lparr>at_label := (at_label m)(t := l)\<rparr>"

abbreviation ev_put :: "nat \<Rightarrow> u32 \<Rightarrow> mutex \<Rightarrow> mutex" where
  "ev_put t e m \<equiv> m\<lparr>mtx_events := (mtx_events m)(t := e)\<rparr>"

subsection \<open>mutex_lock\<close>

definition lock_register :: "nat \<Rightarrow> mutex \<Rightarrow> mutex" where
  "lock_register t m = at_put t Trying (m\<lparr>waiters := waiters m OR BITN t\<rparr>)"

text \<open>
  The exclusive load and store: what the load reads, and whether the store succeeds; the value is 0
  when the lock was taken, 1 when the store failed, 2 when somebody has the lock.
\<close>

definition lock_try :: "nat \<Rightarrow> bool \<Rightarrow> mutex \<Rightarrow> mutex" where
  "lock_try t store_ok m =
     (if lock m = 0 then (if store_ok then at_put t Taken (m\<lparr>lock := 2\<rparr>) else m)
      else at_put t Contended m)"

text \<open>\<open>task_wait_event_mask(TASK_EVENT_MUTEX, 0)\<close> returns: the awaited events are taken.\<close>

definition lock_woken :: "nat \<Rightarrow> mutex \<Rightarrow> mutex option" where
  "lock_woken t m =
     (let mask = TASK_EVENT_MUTEX OR TASK_EVENT_TIMER
      in if mtx_events m t AND mask = 0 then None
         else Some (at_put t Trying (ev_put t (mtx_events m t AND NOT mask) m)))"

definition lock_done :: "nat \<Rightarrow> mutex \<Rightarrow> mutex" where
  "lock_done t m = at_put t Holding (m\<lparr>waiters := waiters m AND NOT (BITN t)\<rparr>)"

subsection \<open>mutex_unlock\<close>

definition unlock_release :: "nat \<Rightarrow> mutex \<Rightarrow> mutex" where
  "unlock_release t m = at_put t (Notifying (waiters m)) (m\<lparr>lock := 0\<rparr>)"

definition unlock_notify :: "nat \<Rightarrow> u32 \<Rightarrow> mutex \<Rightarrow> mutex" where
  "unlock_notify t w m =
     (let i = fls w
      in at_put t (Notifying (w AND NOT (BITN i))) (ev_put i (mtx_events m i OR TASK_EVENT_MUTEX) m))"

definition unlock_done :: "nat \<Rightarrow> mutex \<Rightarrow> mutex" where
  "unlock_done t m = at_put t Outside (ev_put t (mtx_events m t AND NOT TASK_EVENT_MUTEX) m)"

inductive mutex_step :: "mutex \<Rightarrow> mutex \<Rightarrow> bool" where
  register: "t < 32 \<Longrightarrow> at_label m t = Outside \<Longrightarrow> mutex_step m (lock_register t m)"
| attempt: "at_label m t = Trying \<Longrightarrow> mutex_step m (lock_try t store_ok m)"
| woken: "at_label m t = Contended \<Longrightarrow> lock_woken t m = Some m' \<Longrightarrow> mutex_step m m'"
| acquired: "at_label m t = Taken \<Longrightarrow> mutex_step m (lock_done t m)"
| release: "at_label m t = Holding \<Longrightarrow> mutex_step m (unlock_release t m)"
| notify: "at_label m t = Notifying w \<Longrightarrow> w \<noteq> 0 \<Longrightarrow> mutex_step m (unlock_notify t w m)"
| unlocked: "at_label m t = Notifying 0 \<Longrightarrow> mutex_step m (unlock_done t m)"
| posted: "mutex_step m (ev_put t (mtx_events m t OR e) m)"
| taken: "at_label m t = Outside \<or> at_label m t = Holding \<Longrightarrow> mutex_step m (ev_put t e m)"

inductive mutex_reach :: "mutex \<Rightarrow> bool" where
  init: "mutex_reach mutex_init"
| step: "mutex_reach m \<Longrightarrow> mutex_step m m' \<Longrightarrow> mutex_reach m'"

subsection \<open>The invariant\<close>

definition owns :: "mutex \<Rightarrow> nat \<Rightarrow> bool" where
  "owns m t \<longleftrightarrow> at_label m t = Taken \<or> at_label m t = Holding"

definition will_wake :: "mutex \<Rightarrow> nat \<Rightarrow> bool" where
  "will_wake m t \<longleftrightarrow> bit (mtx_events m t) 30 \<or> (\<exists>u w. at_label m u = Notifying w \<and> bit w t)"

definition mutex_inv :: "mutex \<Rightarrow> bool" where
  "mutex_inv m \<longleftrightarrow>
     (lock m = 0 \<longleftrightarrow> (\<forall>t. \<not> owns m t)) \<and> (\<forall>t u. owns m t \<and> owns m u \<longrightarrow> t = u) \<and>
     (\<forall>t. at_label m t \<in> {Trying, Contended, Taken} \<longrightarrow> bit (waiters m) t) \<and>
     (\<forall>t. at_label m t \<noteq> Outside \<longrightarrow> t < 32) \<and>
     (lock m = 0 \<longrightarrow> (\<forall>t. at_label m t = Contended \<longrightarrow> will_wake m t))"

lemma mutex_init_inv: "mutex_inv mutex_init"
  by (simp add: mutex_inv_def mutex_init_def owns_def)

lemma bit30: "bit TASK_EVENT_MUTEX i \<longleftrightarrow> i = 30"
  by (auto simp: TASK_EVENT_MUTEX_def)

lemma mutex_invD:
  assumes "mutex_inv m"
  shows "lock m = 0 \<longleftrightarrow> (\<forall>t. \<not> owns m t)" "owns m t \<Longrightarrow> owns m u \<Longrightarrow> t = u"
    "at_label m t \<in> {Trying, Contended, Taken} \<Longrightarrow> bit (waiters m) t" "at_label m t \<noteq> Outside \<Longrightarrow> t < 32"
    "lock m = 0 \<Longrightarrow> at_label m t = Contended \<Longrightarrow> will_wake m t"
  using assms unfolding mutex_inv_def by blast+

lemma mutex_invI:
  assumes "\<And>t u. owns m t \<Longrightarrow> owns m u \<Longrightarrow> t = u"
    and "\<And>t. at_label m t \<in> {Trying, Contended, Taken} \<Longrightarrow> bit (waiters m) t"
    and "\<And>t. at_label m t \<noteq> Outside \<Longrightarrow> t < 32"
    and "lock m = 0 \<longleftrightarrow> (\<forall>t. \<not> owns m t)"
    and "\<And>t. lock m = 0 \<Longrightarrow> at_label m t = Contended \<Longrightarrow> will_wake m t"
  shows "mutex_inv m"
  using assms unfolding mutex_inv_def by blast

text \<open>A change of one label, and of the events.\<close>

lemma owns_put:
  "owns (m'\<lparr>at_label := (at_label m)(t := l)\<rparr>) u \<longleftrightarrow> (if u = t then l = Taken \<or> l = Holding else owns m u)"
  by (simp add: owns_def)

lemma owns_fields [simp]:
  "owns (m\<lparr>waiters := w\<rparr>) u = owns m u" "owns (m\<lparr>lock := k\<rparr>) u = owns m u" "owns (m\<lparr>mtx_events := e\<rparr>) u = owns m u"
  by (simp_all add: owns_def)

lemma will_wake_label:
  assumes "will_wake m u" "\<And>w. at_label m t = Notifying w \<Longrightarrow> \<not> bit w u" "bit (mtx_events m' u) 30 = bit (mtx_events m u) 30"
    and "at_label m' = (at_label m)(t := l)"
  shows "will_wake m' u"
proof (cases "bit (mtx_events m u) 30")
  case False
  then obtain v w where "at_label m v = Notifying w" "bit w u" using assms(1) by (auto simp: will_wake_def)
  moreover from this have "v \<noteq> t" using assms(2) by auto
  ultimately have "at_label m' v = Notifying w \<and> bit w u" using assms(4) by simp
  then show ?thesis unfolding will_wake_def by blast
qed (use assms(3) in \<open>simp add: will_wake_def\<close>)

lemma mutex_inv_same:
  assumes "mutex_inv m" "lock m' = lock m" "\<And>u. owns m' u = owns m u"
    and "\<And>u. at_label m' u \<in> {Trying, Contended, Taken} \<Longrightarrow> bit (waiters m') u"
    and "\<And>u. at_label m' u \<noteq> Outside \<Longrightarrow> u < 32"
    and "\<And>u. lock m = 0 \<Longrightarrow> at_label m' u = Contended \<Longrightarrow> will_wake m' u"
  shows "mutex_inv m'"
  using assms(1) unfolding mutex_inv_def assms(2,3) using assms(4-6) by blast

lemma mutex_step_inv: "mutex_step m m' \<Longrightarrow> mutex_inv m \<Longrightarrow> mutex_inv m'"
proof (induction rule: mutex_step.induct)
  case (register t m)
  note i = mutex_invD [OF register.prems]
  have w: "will_wake m u \<Longrightarrow> will_wake (lock_register t m) u" for u
    by (rule will_wake_label [of m u t]) (use register.hyps in \<open>auto simp: lock_register_def\<close>)
  show ?case
  proof (rule mutex_inv_same [OF register.prems])
    show "owns (lock_register t m) u = owns m u" for u
      using register.hyps(2) by (simp add: lock_register_def owns_def)
    show "bit (waiters (lock_register t m)) u" if "at_label (lock_register t m) u \<in> {Trying, Contended, Taken}" for u
      using that i(3) [of u] register.hyps(1) by (auto simp: lock_register_def bit_simps split: if_splits)
    show "u < 32" if "at_label (lock_register t m) u \<noteq> Outside" for u
      using that i(4) [of u] register.hyps(1) by (auto simp: lock_register_def split: if_splits)
    show "will_wake (lock_register t m) u" if "lock m = 0" "at_label (lock_register t m) u = Contended" for u
      using i(5) [of u] w that by (auto simp: lock_register_def split: if_splits)
  qed (simp add: lock_register_def)
next
  case (attempt m t store_ok)
  note i = mutex_invD [OF attempt.prems]
  have o: "\<not> owns m t" using attempt.hyps by (simp add: owns_def)
  consider "lock m = 0" "\<not> store_ok" | "lock m \<noteq> 0" | "lock m = 0" "store_ok" by blast
  then show ?case
  proof cases
    case 1
    then show ?thesis using attempt.prems by (simp add: lock_try_def)
  next
    case 2
    then show ?thesis
      by (intro mutex_inv_same [OF attempt.prems]) (use attempt.hyps i(3,4) in \<open>auto simp: lock_try_def owns_put owns_def split: if_splits\<close>)
  next
    case 3
    then have m': "lock_try t store_ok m = at_put t Taken (m\<lparr>lock := 2\<rparr>)" by (simp add: lock_try_def)
    have ow: "owns (lock_try t store_ok m) u \<longleftrightarrow> u = t" for u using 3(1) i(1) unfolding m' by (simp add: owns_put)
    show ?thesis
      by (rule mutex_invI) (use ow i(3,4) attempt.hyps in \<open>auto simp: m' split: if_splits\<close>)
  qed
next
  case (woken m t m')
  note i = mutex_invD [OF woken.prems]
  have m': "m' = at_put t Trying (ev_put t (mtx_events m t AND NOT (TASK_EVENT_MUTEX OR TASK_EVENT_TIMER)) m)"
    using woken.hyps(2) by (auto simp: lock_woken_def Let_def split: if_splits)
  have w: "will_wake m u \<Longrightarrow> u \<noteq> t \<Longrightarrow> will_wake m' u" for u
    by (rule will_wake_label [of m u t]) (use woken.hyps(1) in \<open>auto simp: m'\<close>)
  show ?case
  proof (rule mutex_inv_same [OF woken.prems])
    show "owns m' u = owns m u" for u using woken.hyps(1) by (simp add: m' owns_def)
    show "bit (waiters m') u" if "at_label m' u \<in> {Trying, Contended, Taken}" for u
      using that i(3) [of u] woken.hyps(1) by (auto simp: m' split: if_splits)
    show "u < 32" if "at_label m' u \<noteq> Outside" for u
      using that i(4) [of u] woken.hyps(1) by (auto simp: m' split: if_splits)
    show "will_wake m' u" if "lock m = 0" "at_label m' u = Contended" for u
      using that w i(5) [of u] by (cases "u = t") (auto simp: m')
  qed (simp add: m')
next
  case (acquired m t)
  note i = mutex_invD [OF acquired.prems]
  have o: "owns m t" using acquired.hyps by (simp add: owns_def)
  then have l: "lock m \<noteq> 0" using i(1) by blast
  have u: "at_label m u = Taken \<Longrightarrow> u = t" for u using i(2) [OF o, of u] by (simp add: owns_def)
  show ?case
  proof (rule mutex_inv_same [OF acquired.prems])
    show "owns (lock_done t m) u = owns m u" for u using acquired.hyps by (simp add: lock_done_def owns_def)
    show "bit (waiters (lock_done t m)) v" if "at_label (lock_done t m) v \<in> {Trying, Contended, Taken}" for v
      using that i(3) [of v] i(4) [of v] by (cases "v = t") (auto simp: lock_done_def bit_simps)
    show "v < 32" if "at_label (lock_done t m) v \<noteq> Outside" for v
      using that i(4) [of v] acquired.hyps by (auto simp: lock_done_def split: if_splits)
  qed (use l in \<open>simp_all add: lock_done_def\<close>)
next
  case (release m t)
  note i = mutex_invD [OF release.prems]
  have o: "owns m t" using release.hyps by (simp add: owns_def)
  have n: "\<not> owns (unlock_release t m) u" for u using i(2) [OF o] by (auto simp: unlock_release_def owns_put)
  have w: "will_wake (unlock_release t m) u" if "at_label (unlock_release t m) u = Contended" for u
    using that i(3) [of u] by (auto simp: unlock_release_def will_wake_def split: if_splits)
  show ?case
  proof (rule mutex_invI)
    show "bit (waiters (unlock_release t m)) v" if "at_label (unlock_release t m) v \<in> {Trying, Contended, Taken}" for v
      using that i(3) [of v] by (auto simp: unlock_release_def split: if_splits)
    show "v < 32" if "at_label (unlock_release t m) v \<noteq> Outside" for v
      using that i(4) [of v] release.hyps by (auto simp: unlock_release_def split: if_splits)
  qed (use n w in \<open>simp_all add: unlock_release_def\<close>)
next
  case (notify m t w)
  note i = mutex_invD [OF notify.prems]
  have k: "will_wake (unlock_notify t w m) u" if u: "will_wake m u" for u
  proof -
    consider "u = fls w" | "u \<noteq> fls w" "bit w u" | "u \<noteq> fls w" "\<not> bit w u" by blast
    then show ?thesis
    proof cases
      case 1
      then show ?thesis by (simp add: will_wake_def unlock_notify_def Let_def bit_simps bit30)
    next
      case 2
      then have "at_label (unlock_notify t w m) t = Notifying (w AND NOT (BITN (fls w)))" "bit (w AND NOT (BITN (fls w))) u"
        using bit_below [of w u] by (simp_all add: unlock_notify_def Let_def bit_simps)
      then show ?thesis unfolding will_wake_def by blast
    next
      case 3
      show ?thesis
        by (rule will_wake_label [OF u, of t]) (use 3 notify.hyps in \<open>auto simp: unlock_notify_def Let_def\<close>)
    qed
  qed
  show ?case
  proof (rule mutex_inv_same [OF notify.prems])
    show "will_wake (unlock_notify t w m) u" if "lock m = 0" "at_label (unlock_notify t w m) u = Contended" for u
      using that k i(5) [of u] by (auto simp: unlock_notify_def Let_def split: if_splits)
  qed (use notify.hyps i(3,4) in \<open>auto simp: unlock_notify_def Let_def owns_def split: if_splits\<close>)
next
  case (unlocked m t)
  note i = mutex_invD [OF unlocked.prems]
  have k: "will_wake m u \<Longrightarrow> u \<noteq> t \<Longrightarrow> will_wake (unlock_done t m) u" for u
    by (rule will_wake_label [of m u t]) (use unlocked.hyps in \<open>auto simp: unlock_done_def\<close>)
  show ?case
  proof (rule mutex_inv_same [OF unlocked.prems])
    show "will_wake (unlock_done t m) u" if "lock m = 0" "at_label (unlock_done t m) u = Contended" for u
      using that k i(5) [of u] by (auto simp: unlock_done_def split: if_splits)
  qed (use unlocked.hyps i(3,4) in \<open>auto simp: unlock_done_def owns_def split: if_splits\<close>)
next
  case (posted m t e)
  note i = mutex_invD [OF posted.prems]
  have k: "will_wake m u \<Longrightarrow> will_wake (ev_put t (mtx_events m t OR e) m) u" for u
    by (auto simp: will_wake_def bit_simps)
  show ?case by (rule mutex_inv_same [OF posted.prems]) (use i(3-5) k in simp_all)
next
  case (taken m t e)
  note i = mutex_invD [OF taken.prems]
  have k: "will_wake m u \<Longrightarrow> u \<noteq> t \<Longrightarrow> will_wake (ev_put t e m) u" for u
    by (auto simp: will_wake_def)
  have "at_label m u = Contended \<Longrightarrow> u \<noteq> t" for u using taken.hyps by auto
  then show ?case by (intro mutex_inv_same [OF taken.prems]) (use i(3-5) k in simp_all)
qed

lemma mutex_reach_inv: "mutex_reach m \<Longrightarrow> mutex_inv m"
  by (induction rule: mutex_reach.induct) (simp_all add: mutex_init_inv mutex_step_inv)

subsection \<open>Properties\<close>

text \<open>
  C39: mutual exclusion: in any interleaving at most one task is past the loop of \<open>mutex_lock\<close>
  and not yet past the release in \<open>mutex_unlock\<close>, and the lock word is 0 exactly when there is none.
\<close>

theorem mutex_exclusive:
  assumes "mutex_reach m"
  shows "(owns m t \<and> owns m u \<longrightarrow> t = u) \<and> (lock m = 0 \<longleftrightarrow> (\<forall>t. \<not> owns m t))"
  using mutex_invD(1,2) [OF mutex_reach_inv [OF assms]] by blast

text \<open>
  C40: no waiter is forgotten: whenever the mutex is free and a task waits for it, the wait can return
  at once, or a task that unlocked is still waking its waiters and has this one ahead: within as many
  of its steps as tasks the waiter's event is set. In particular an unlock between a failed attempt
  and the wait is not missed.
\<close>

theorem mutex_waiter_woken:
  assumes "mutex_reach m" "lock m = 0" "at_label m t = Contended"
  shows "lock_woken t m \<noteq> None \<or>
    (\<exists>u w. at_label m u = Notifying w \<and> w \<noteq> 0 \<and> bit w t \<and>
      (fls w \<noteq> t \<longrightarrow> (\<exists>w'. at_label (unlock_notify u w m) u = Notifying w' \<and> bit w' t \<and>
         card (bits_of w') < card (bits_of w))) \<and>
      (fls w = t \<and> u \<noteq> t \<longrightarrow> lock_woken t (unlock_notify u w m) \<noteq> None))"
proof -
  have some: "lock_woken t m' \<noteq> None" if "bit (mtx_events m' t) 30" for m'
  proof -
    have "bit (mtx_events m' t AND (TASK_EVENT_MUTEX OR TASK_EVENT_TIMER)) 30"
      using that by (simp add: bit_simps bit30)
    then have "mtx_events m' t AND (TASK_EVENT_MUTEX OR TASK_EVENT_TIMER) \<noteq> 0" by (metis bit_0_eq bot_apply bot_bool_def)
    then show ?thesis by (simp add: lock_woken_def Let_def)
  qed
  consider "bit (mtx_events m t) 30" | u w where "at_label m u = Notifying w" "bit w t"
    using mutex_invD(5) [OF mutex_reach_inv [OF assms(1)] assms(2,3)] by (auto simp: will_wake_def)
  then show ?thesis
  proof cases
    case 1
    then show ?thesis using some by blast
  next
    case 2
    then have w: "w \<noteq> 0" by auto
    have "card (bits_of (w AND NOT (BITN (fls w)))) < card (bits_of w)" by (rule scan_decreases [OF w])
    moreover have "lock_woken t (unlock_notify u w m) \<noteq> None" if "fls w = t"
      by (rule some) (simp add: unlock_notify_def Let_def that bit_simps bit30)
    ultimately show ?thesis
      using 2 w bit_below [OF 2(2)] by (intro disjI2 exI [of _ u] exI [of _ w]) (auto simp: unlock_notify_def Let_def bit_simps)
  qed
qed

text \<open>Task 2 has the lock, task 5 waits for it; then task 2 unlocks.\<close>

definition mutex_held :: mutex where
  "mutex_held = lock_try 5 True (lock_register 5 (lock_done 2 (lock_try 2 True (lock_register 2 mutex_init))))"

lemma mutex_held_reach: "mutex_reach mutex_held"
  unfolding mutex_held_def
  by (intro mutex_reach.step [OF _ mutex_step.attempt] mutex_reach.step [OF _ mutex_step.register]
      mutex_reach.step [OF _ mutex_step.acquired] mutex_reach.init)
    (simp_all add: mutex_init_def lock_register_def lock_try_def lock_done_def)

lemma mutex_released_reach: "mutex_reach (unlock_release 2 mutex_held)"
  by (rule mutex_reach.step [OF mutex_held_reach mutex_step.release])
    (simp add: mutex_held_def mutex_init_def lock_register_def lock_try_def lock_done_def)

theorem mutex_exclusive_witness: "\<not> owns mutex_held 5 \<and> owns mutex_held 2 \<and> lock mutex_held \<noteq> 0"
proof -
  have "owns mutex_held 2" by (simp add: owns_def mutex_held_def mutex_init_def lock_register_def lock_try_def lock_done_def)
  then show ?thesis using mutex_exclusive [OF mutex_held_reach, of 2 5] by auto
qed

theorem mutex_waiter_woken_witness:
  "(\<exists>m. lock_woken 5 (unlock_release 2 mutex_held) = Some m) \<or>
   (\<exists>u w. at_label (unlock_release 2 mutex_held) u = Notifying w \<and> bit w 5)"
proof -
  have "lock (unlock_release 2 mutex_held) = 0" "at_label (unlock_release 2 mutex_held) 5 = Contended"
    by (simp_all add: unlock_release_def mutex_held_def mutex_init_def lock_register_def lock_try_def lock_done_def)
  then show ?thesis using mutex_waiter_woken [OF mutex_released_reach] by blast
qed

end
