(* ===== verification/Spec2Isabelle.thy ===== *)
theory Spec2Isabelle
  imports Queue Crc8 Base32 Cbi MkbpFifo PrlLink PrlReset PrlDefects HostCommandProps ChargeManagerOffers ChargeRampProps DpmProps EventLog Hooks SharedMemory TaskTimer TaskMutex
begin

text \<open>
  Verification of core parts of the ChromiumOS embedded controller (EC) firmware, the program that
  runs on the microcontroller of a Chromebook: charging, USB power delivery (PD), the commands,
  keyboard and events of the host, and the small operating system below them. The development models C
  files of \<open>src/common\<close> and \<open>src/core\<close> (paths below are relative to \<open>src/\<close>).

  \<^bold>\<open>The parts and how they meet.\<close>
  Tasks are created by the board and run until they wait; the scheduler and the mutexes of
  \<open>core/cortex-m/task.c\<close> and the timers of \<open>common/timer.c\<close> decide which runs. The hook task (\<open>common/hooks.c\<close>)
  calls the routines that components register for events, and routines deferred by
  \<open>hook_call_deferred\<close>; the charge manager (\<open>common/charge_manager.c\<close>) runs its
  refresh as such a routine. PD tasks, one per port, run the state machines of
  \<open>common/usbc\<close> on the framework of \<open>usb_sm.c\<close>, with their deadlines in
  \<open>usb_pd_timer.c\<close>, whose bits live in the arrays of \<open>third_party/zephyr/atomic.h\<close>;
  they tell the charge manager what a port offers. What a sink asks for is chosen in
  \<open>common/usb_pd_dual_role.c\<close>, from the limits of the board and of the charge manager; which source
  ports may offer 3 A is decided in \<open>common/usbc/usb_pd_dpm.c\<close>. For chargers without PD the charge
  manager hands the port to the ramp of \<open>common/charge_ramp_sw.c\<close>, which looks for the
  current they can give. The lowest of these machines is the protocol layer,
  \<open>usb_prl_sm.c\<close>: it takes the messages that the port controller's interrupt put into the cache of
  \<open>driver/tcpm/tcpci.c\<close>, numbers and retires messages, splits long ones into chunks, and serves
  the policy engine above it. Events for the host go through
  \<open>common/mkbp_event.c\<close> and the FIFO of \<open>common/mkbp_fifo.c\<close>; its commands arrive as
  packets in \<open>common/host_command_task.c\<close> and are dispatched to handlers by their table. Streams of units use
  \<open>common/queue.c\<close>, the event log is a ring of its own in \<open>common/event_log.c\<close>, temporary memory \<open>common/shmalloc.c\<close>. Board information is
  kept by \<open>common/cbi.c\<close>, guarded by \<open>common/crc8.c\<close>; \<open>common/base32.c\<close>
  is the code in which unlock challenges are typed.

  \<^bold>\<open>Theories.\<close>
  \<^item> \<open>Prelude\<close>: word types, error codes, checked buffer accesses, masks of words.
  \<^item> \<open>Fifo\<close>: the locale \<open>bounded_fifo\<close>, the contract of a bounded FIFO with its runs;
    interpreted for the queue and for the MKBP FIFO. \<open>Selection\<close>: the locale
    \<open>best_pick\<close>, the contract of a loop that keeps the best candidate; interpreted for the
    ceilings and the ports of the charge manager and for the free buffers of the allocator.
    \<open>AtomicBit\<close>: the locale \<open>bit_array\<close>, interpreted for the atomic bit arrays.
  \<^item> \<open>RingBuffer\<close>, \<open>Queue\<close>: \<open>common/queue.c\<close>; \<open>struct queue\<close> is the
    record \<open>queue\<close>, its counters 32-bit words that wrap. The lemmas refine every operation to
    a list of units.
  \<^item> \<open>Crc8\<close>, \<open>Base32\<close>, \<open>Cbi\<close>: the codes and the board information. The CRC of
    EC packets is the remainder of a polynomial division, and so detects what the polynomial does;
    that of the board information is the reference shift register; encoding and decoding are inverse; the image refines a map from tags
    to values and stays sealed with its CRC.
  \<^item> \<open>MkbpEvent\<close>, \<open>MkbpFifo\<close>: the interrupt state machine, given by its critical
    sections so that tasks interleave as a step relation with an invariant; the event FIFO and the
    host command that drains it.
  \<^item> \<open>HostCommand\<close>, \<open>HostCommandProps\<close>: packets of version 3, the task, the table of
    commands and the handlers of the file; which packets are accepted and how each accepted one is
    answered. \<open>EventLog\<close>: the ring of the event log, a FIFO of entries that drops its oldest
    entries, and the one case in which it damages them.
  \<^item> \<open>PdTimer\<close>: the PD timers, refined to one timer per port and number, and the sleep of the
    PD task, computed exactly. \<open>UsbSm\<close>: transitions and runs of hierarchical state machines, with nested
    requests; every run returns in a chain of states that were entered.
  \<^item> \<open>TcpmQueue\<close>, \<open>Prl\<close>: the cache of received messages, another \<open>bounded_fifo\<close>,
    and the protocol layer, whose structures are the record \<open>prl\<close>. \<open>PrlType\<close>: the
    invariant of the layer under all calls of its neighbours. \<open>PrlSend\<close>,
    \<open>PrlReceive\<close>, \<open>PrlReset\<close>: a message sent, a message received and sent again, a hard
    reset. \<open>PrlHeaders\<close>, \<open>PrlChunks\<close>, \<open>PrlLink\<close>: the fields of headers,
    the steps of a chunked sender and receiver, and a message of many chunks between two layers.
    \<open>PrlStuck\<close>, \<open>PrlDefects\<close>: runs in which a message is lost or misread.
  \<^item> \<open>ChargeManager\<close>, \<open>ChargeManagerProps\<close>, \<open>ChargeManagerOffers\<close>:
    \<open>common/charge_manager.c\<close>; the statics of the file are the record \<open>charge_mgr\<close>, calls out
    of the file are recorded in its \<open>effects\<close>. The lemmas say which port and supplier are
    chosen, that a refresh returns and what it records, and what a change does to the table of
    offers. \<open>ChargeRamp\<close>, \<open>ChargeRampProps\<close>: the record \<open>ramp\<close> and the rounds of the
    ramp task; it finds the current of an ideal charger, and keeps its invariant for any answers.
  \<^item> \<open>Pdo\<close>, \<open>PdoProps\<close>: power data objects, the choice among the offers of a source, the
    request and its check. \<open>Dpm\<close>, \<open>DpmProps\<close>: the ports that share the 3 A of the
    board; the budget is kept and balancing comes to rest.
  \<^item> \<open>Hooks\<close>: \<open>common/hooks.c\<close>; the order of notification and the rounds of the hook task.
  \<^item> \<open>Shmem\<close>, \<open>ShmemProps\<close>, \<open>ShmemAcquire\<close>, \<open>SharedMemory\<close>:
    \<open>common/shmalloc.c\<close> over a memory of headers; chains in memory represent lists
    (\<open>seg\<close>), the invariant says that free and allocated buffers tile the memory, and
    runs of clients keep it.
  \<^item> \<open>TaskBitmap\<close>, \<open>Tasks\<close>, \<open>TaskMutex\<close>, \<open>TaskTimer\<close>: the operating system as atomic
    steps of tasks, interrupts and the clock; invariants of all interleavings say that no wake-up is
    lost, that the highest ready task runs, that a mutex excludes and wakes its waiters, and that the interrupt of a running
    timer whose deadline has come is pending, with exceptions that the property names: the step in which it is
    armed is not over, or it was armed with a clock reading that was already stale (\<open>common/timer.c\<close> reads
    the clock before it marks the timer), or the counter is about to overflow.

  \<^bold>\<open>Conventions.\<close>
  Definitions keep the names of the code. Words have the width of the C type wherever they may wrap;
  a C \<open>int\<close> whose values stay small is an integer, an index or address a natural number.
  \<open>None\<close> is an access that C leaves undefined (outside an array, through \<open>NULL\<close>), a
  failed assertion, or fuel that ran out (in the protocol layer the field \<open>fault\<close>, which stays set; one
  memset there that always goes past its array has the effect it has instead); error codes are the values of the source. Functions of
  other files, boards and chips are parameters: records of functions (\<open>cbi_drv\<close>,
  \<open>cm_env\<close>, \<open>ramp_env\<close>, \<open>mkbp_env\<close>, \<open>hc_env\<close>, \<open>prl_env\<close>, \<open>pd_board\<close>,
  \<open>pd_request_env\<close>, \<open>dpm_env\<close>), routines of hooks and states, handlers, clock readings. Of
  alternatives selected by the build configuration one is modelled, and its theory says which.
  Locking is left out where a function holds its lock from start to end, and modelled by
  critical sections where it does not (MKBP events, the scheduler and its mutexes, the timers). Elsewhere
  the calls of a component are taken one at a time: an event is added to the log by one writer, a round
  of the charge ramp is not interrupted, the host command task runs before the next packet.

  \<^bold>\<open>Fuel.\<close>
  Loops that end by a property of the state have fuel, and the properties show how much is
  enough: one round per charge port and one more for the hunt of a refresh, one round per hook for
  a notification, 13 rounds for polling an MKBP event, 65 for making room in the event log, whose 64
  units hold at most 64 entries, the number of headers that fit into the
  memory for the chains of the allocator, and for a state machine whose states have at most depth
  \<open>D\<close> and whose entry routines cause only states of lower rank, below \<open>R\<close>, to be
  entered, more than \<open>(D + 1)\<^sup>2 + R\<close> steps (\<open>usb_sm_entered_chain\<close>). Where a run can fail to end, this is proved too (a
  hook of priority 0, polling after keyboard events were cleared).

  \<^bold>\<open>Not modelled.\<close>
  Host tools (\<open>util\<close>), boards, chips and drivers, the Zephyr port, tests, fuzzers and generated or
  third-party code: hardware access or configuration around the logic. Of \<open>common\<close>, so far: the
  PD policy engine (a parameter of the protocol layer) and the type-C state machines, the older
  PD stack, charging of the battery
  (\<open>charge_state.c\<close>), motion sensing, keyboard scanning, flash and image
  management, the drivers and older versions of the host command transport, and the console. Console commands and printing are left out
  everywhere.

  \<^bold>\<open>Plan.\<close>
  The parts above were modelled in the order of what depends on them: data structures and codes, the
  operating system, PD from its timers to the protocol layer and the requests, charging, the host.
  What is left, in this order: the keyboard scan and the motion sense FIFO, each with its own buffers and
  state; the policy engine and the type-C machines, which would run on \<open>UsbSm\<close> and replace the
  parameter \<open>env_pe\<close> of the protocol layer, and are the largest files; the charge state machine.
\<close>

end
